(* ===== verification/Prelude.thy ===== *)
theory Prelude
  imports Main "HOL-Library.Word" "HOL-Library.Monad_Syntax"
begin

unbundle bit_operations_syntax

text \<open>
  Shared vocabulary of the development: the fixed-width integer types of
  \<^verbatim>\<open>common/types.h\<close> as words, a flat byte memory with checked access, big- and little-endian
  reading of byte lists, and the generic lemmas on lists, options and words that the component
  theories use. An out-of-range access is the value \<^const>\<open>None\<close>: nothing is claimed about
  code that reads or writes outside the memory it was given.
\<close>

section \<open>Machine types\<close>

type_synonym u8 = "8 word"
type_synonym u16 = "16 word"
type_synonym u32 = "32 word"

named_theorems mem_simps
named_theorems frame
named_theorems regs

section \<open>Generic lemmas\<close>

lemma bind_Some_iff [simp]:
  "Option.bind x f = Some y \<longleftrightarrow> (\<exists>z. x = Some z \<and> f z = Some y)"
  by (cases x) auto

lemma bind_None_iff [simp]:
  "Option.bind x f = None \<longleftrightarrow> x = None \<or> (\<exists>z. x = Some z \<and> f z = None)"
  by (cases x) auto

lemma bind_eqE:
  assumes "Option.bind x f = Some y"
  obtains z where "x = Some z" "f z = Some y"
  using assms by auto

lemma nth_take_drop: "i < n \<Longrightarrow> a + i < length m \<Longrightarrow> take n (drop a m) ! i = m ! (a + i)"
  by simp

lemma take_drop_eqD:
  "take (length xs) (drop a m) = xs \<Longrightarrow> i < length xs \<Longrightarrow> a + length xs \<le> length m
    \<Longrightarrow> m ! (a + i) = xs ! i"
  by (metis nth_take_drop add_less_le_mono less_le_trans nat_add_left_cancel_less)

lemma take_drop_eqI:
  assumes "a + length xs \<le> length m" and "\<And>i. i < length xs \<Longrightarrow> m ! (a + i) = xs ! i"
  shows "take (length xs) (drop a m) = xs"
  using assms by (intro nth_equalityI) auto

section \<open>A flat byte memory\<close>

type_synonym memory = "u8 list"

definition load :: "memory \<Rightarrow> int \<Rightarrow> u8 option" where
  "load m a = (if 0 \<le> a \<and> a < int (length m) then Some (m ! nat a) else None)"

definition store :: "memory \<Rightarrow> int \<Rightarrow> u8 \<Rightarrow> memory option" where
  "store m a v = (if 0 \<le> a \<and> a < int (length m) then Some (m[nat a := v]) else None)"

lemma load_Some_iff: "load m a = Some v \<longleftrightarrow> 0 \<le> a \<and> a < int (length m) \<and> m ! nat a = v"
  by (auto simp: load_def)

lemma store_Some_iff:
  "store m a v = Some m' \<longleftrightarrow> 0 \<le> a \<and> a < int (length m) \<and> m' = m[nat a := v]"
  by (auto simp: store_def)

lemma store_length: "store m a v = Some m' \<Longrightarrow> length m' = length m"
  by (auto simp: store_Some_iff)

lemma load_store:
  "store m a v = Some m' \<Longrightarrow> load m' b = (if b = a then Some v else load m b)"
  by (auto simp: store_Some_iff load_def nth_list_update nat_eq_iff2)

section \<open>Words as bytes\<close>

text \<open>The Starlet runs big-endian (\<^verbatim>\<open>-mbig-endian\<close>); FAT structures are little-endian.\<close>

definition be32 :: "u8 \<Rightarrow> u8 \<Rightarrow> u8 \<Rightarrow> u8 \<Rightarrow> u32" where
  "be32 b0 b1 b2 b3 =
     push_bit 24 (ucast b0) OR push_bit 16 (ucast b1) OR push_bit 8 (ucast b2) OR ucast b3"

definition be16 :: "u8 \<Rightarrow> u8 \<Rightarrow> u16" where
  "be16 b0 b1 = push_bit 8 (ucast b0) OR ucast b1"

section \<open>Low bits of a word\<close>

lemma and_not_mask_eq: "x AND NOT (mask n) = push_bit n (drop_bit n x)" for x :: "'a::len word"
  by (rule bit_word_eqI) (auto simp: bit_simps)

lemma unat_and_not_mask:
  "unat (x AND NOT (mask n)) = unat x div 2 ^ n * 2 ^ n" for x :: "'a::len word"
proof -
  have "unat x div 2 ^ n * 2 ^ n < 2 ^ LENGTH('a)"
    by (rule le_less_trans [OF div_times_less_eq_dividend]) simp
  moreover have "unat (push_bit n (drop_bit n x)) = take_bit LENGTH('a) (push_bit n (drop_bit n (unat x)))"
    by (simp only: unsigned_push_bit_eq unsigned_drop_bit_eq) (simp add: take_bit_nat_eq_self)
  ultimately show ?thesis
    by (simp add: and_not_mask_eq drop_bit_eq_div push_bit_eq_mult take_bit_eq_mod)
qed

lemma unat_and_mask: "unat (x AND mask n) = unat x mod 2 ^ n" for x :: "'a::len word"
proof -
  have "unat (take_bit n x) = take_bit n (unat x)" by (simp add: unsigned_take_bit_eq)
  then show ?thesis by (metis take_bit_eq_mask take_bit_eq_mod)
qed

lemma sint_eq_uint_small:
  fixes w :: u32
  assumes "unat w < 2 ^ 31"
  shows "sint w = uint w"
proof -
  have "int (unat w) < int (2 ^ 31)" using assms by (simp only: of_nat_less_iff)
  then have "uint w < 2 ^ 31" by simp
  moreover have "- (2 ^ 31) \<le> uint w"
    by (rule order_trans [OF _ unsigned_greater_eq]) simp
  ultimately have "signed_take_bit 31 (uint w) = uint w" by (simp add: signed_take_bit_int_eq_self)
  then show ?thesis by (simp add: sint_uint)
qed

end
