(* ===== verification/CString.thy ===== *)
theory CString
  imports Prelude
begin

text \<open>
  \<^verbatim>\<open>armboot/common/string.c\<close> (and its copy under \<^verbatim>\<open>elfloader/\<close>): the freestanding string
  library. Pointers are addresses of one flat byte memory, so that aliasing of source and
  destination is part of the model; \<^verbatim>\<open>size_t\<close> is the signed \<^verbatim>\<open>s32\<close> of
  \<^verbatim>\<open>common/types.h\<close> and a length is an \<^typ>\<open>int\<close>; plain \<^verbatim>\<open>char\<close> is unsigned on this target.
  Every loop is a recursion with the loop's own test order; reading outside the memory makes the
  result \<^const>\<open>None\<close>.
\<close>

section \<open>The functions\<close>

function strlen_loop :: "memory \<Rightarrow> int \<Rightarrow> int \<Rightarrow> int option" where
  "strlen_loop m s len = (case load m (s + len) of None \<Rightarrow> None
     | Some c \<Rightarrow> if c \<noteq> 0 then strlen_loop m s (len + 1) else Some len)"
  by pat_completeness auto
termination
  by (relation "measure (\<lambda>(m, s, len). nat (int (length m) - (s + len)))") (auto simp: load_Some_iff)

definition strlen :: "memory \<Rightarrow> int \<Rightarrow> int option" where
  "strlen m s = strlen_loop m s 0"

function strnlen_loop :: "memory \<Rightarrow> int \<Rightarrow> int \<Rightarrow> int \<Rightarrow> int option" where
  "strnlen_loop m s count len = (case load m (s + len) of None \<Rightarrow> None
     | Some c \<Rightarrow> if c \<noteq> 0 \<and> len < count then strnlen_loop m s count (len + 1) else Some len)"
  by pat_completeness auto
termination
  by (relation "measure (\<lambda>(m, s, count, len). nat (count - len))") auto

definition strnlen :: "memory \<Rightarrow> int \<Rightarrow> int \<Rightarrow> int option" where
  "strnlen m s count = strnlen_loop m s count 0"

function memset_loop :: "memory \<Rightarrow> int \<Rightarrow> u8 \<Rightarrow> int \<Rightarrow> int \<Rightarrow> memory option" where
  "memset_loop m b c len i =
     (if i < len then (case store m (b + i) c of None \<Rightarrow> None
        | Some m' \<Rightarrow> memset_loop m' b c len (i + 1))
      else Some m)"
  by pat_completeness auto
termination
  by (relation "measure (\<lambda>(m, b, c, len, i). nat (len - i))") auto

definition memset :: "memory \<Rightarrow> int \<Rightarrow> u32 \<Rightarrow> int \<Rightarrow> memory option" where
  "memset m b c len = memset_loop m b (ucast c) len 0"

function memcpy_loop :: "memory \<Rightarrow> int \<Rightarrow> int \<Rightarrow> int \<Rightarrow> int \<Rightarrow> memory option" where
  "memcpy_loop m dst src len i =
     (if i < len then (case load m (src + i) of None \<Rightarrow> None
        | Some v \<Rightarrow> (case store m (dst + i) v of None \<Rightarrow> None
           | Some m' \<Rightarrow> memcpy_loop m' dst src len (i + 1)))
      else Some m)"
  by pat_completeness auto
termination
  by (relation "measure (\<lambda>(m, dst, src, len, i). nat (len - i))") auto

definition memcpy :: "memory \<Rightarrow> int \<Rightarrow> int \<Rightarrow> int \<Rightarrow> memory option" where
  "memcpy m dst src len = memcpy_loop m dst src len 0"

function memcmp_loop :: "memory \<Rightarrow> int \<Rightarrow> int \<Rightarrow> int \<Rightarrow> int \<Rightarrow> int option" where
  "memcmp_loop m s1 s2 len i =
     (if i < len then do {
        c1 \<leftarrow> load m (s1 + i);
        c2 \<leftarrow> load m (s2 + i);
        if c1 \<noteq> c2 then Some (uint c1 - uint c2) else memcmp_loop m s1 s2 len (i + 1) }
      else Some 0)"
  by pat_completeness auto
termination
  by (relation "measure (\<lambda>(m, s1, s2, len, i). nat (len - i))") auto

definition memcmp :: "memory \<Rightarrow> int \<Rightarrow> int \<Rightarrow> int \<Rightarrow> int option" where
  "memcmp m s1 s2 len = memcmp_loop m s1 s2 len 0"

function strcmp_loop :: "memory \<Rightarrow> int \<Rightarrow> int \<Rightarrow> int \<Rightarrow> int option" where
  "strcmp_loop m s1 s2 i = (case load m (s1 + i) of None \<Rightarrow> None
     | Some c1 \<Rightarrow> (case load m (s2 + i) of None \<Rightarrow> None
        | Some c2 \<Rightarrow> if c1 \<noteq> 0 \<and> c1 = c2 then strcmp_loop m s1 s2 (i + 1)
                    else Some (uint c1 - uint c2)))"
  by pat_completeness auto
termination
  by (relation "measure (\<lambda>(m, s1, s2, i). nat (int (length m) - (s1 + i)))")
    (auto simp: load_Some_iff)

definition strcmp :: "memory \<Rightarrow> int \<Rightarrow> int \<Rightarrow> int option" where
  "strcmp m s1 s2 = strcmp_loop m s1 s2 0"

function strncmp_loop :: "memory \<Rightarrow> int \<Rightarrow> int \<Rightarrow> int \<Rightarrow> int \<Rightarrow> int option" where
  "strncmp_loop m s1 s2 n i =
     (if i < n then (case load m (s1 + i) of None \<Rightarrow> None
        | Some c1 \<Rightarrow> (case load m (s2 + i) of None \<Rightarrow> None
           | Some c2 \<Rightarrow> if c1 \<noteq> 0 \<and> c1 = c2 then strncmp_loop m s1 s2 n (i + 1)
                       else Some (uint c1 - uint c2)))
      else if i = n then Some 0
      else do { c1 \<leftarrow> load m (s1 + i); c2 \<leftarrow> load m (s2 + i); Some (uint c1 - uint c2) })"
  by pat_completeness auto
termination
  by (relation "measure (\<lambda>(m, s1, s2, n, i). nat (n - i))") auto

definition strncmp :: "memory \<Rightarrow> int \<Rightarrow> int \<Rightarrow> int \<Rightarrow> int option" where
  "strncmp m s1 s2 n = strncmp_loop m s1 s2 n 0"

text \<open>\<^verbatim>\<open>strlcpy\<close> and \<^verbatim>\<open>strlcat\<close> return the new memory and the length they report.\<close>

definition strlcpy :: "memory \<Rightarrow> int \<Rightarrow> int \<Rightarrow> int \<Rightarrow> (memory \<times> int) option" where
  "strlcpy m dest src maxlen = do {
     n \<leftarrow> strnlen m src (maxlen - 1);
     let needed = n + 1;
     let len = (if needed \<ge> maxlen then maxlen - 1 else needed);
     m1 \<leftarrow> memcpy m dest src len;
     m2 \<leftarrow> store m1 (dest + len) 0;
     Some (m2, needed - 1) }"

definition strlcat :: "memory \<Rightarrow> int \<Rightarrow> int \<Rightarrow> int \<Rightarrow> (memory \<times> int) option" where
  "strlcat m dest src maxlen = do {
     used \<leftarrow> strnlen m dest (maxlen - 1);
     (m', n) \<leftarrow> strlcpy m (dest + used) src (maxlen - used);
     Some (m', used + n) }"

text \<open>\<^verbatim>\<open>strchr\<close> returns a pointer or \<^verbatim>\<open>NULL\<close>; \<^term>\<open>Some None\<close> is the null pointer.\<close>

function strchr_loop :: "memory \<Rightarrow> int \<Rightarrow> u8 \<Rightarrow> int \<Rightarrow> int option option" where
  "strchr_loop m s c i = (case load m (s + i) of None \<Rightarrow> None
     | Some x \<Rightarrow> if x \<noteq> 0 then (if x = c then Some (Some (s + i)) else strchr_loop m s c (i + 1))
                else Some None)"
  by pat_completeness auto
termination
  by (relation "measure (\<lambda>(m, s, c, i). nat (int (length m) - (s + i)))") (auto simp: load_Some_iff)

definition strchr :: "memory \<Rightarrow> int \<Rightarrow> u32 \<Rightarrow> int option option" where
  "strchr m s c = strchr_loop m s (ucast c) 0"

text \<open>
  The inner loops of \<^verbatim>\<open>strspn\<close> and \<^verbatim>\<open>strcspn\<close> walk the set string from \<open>p\<close> and stop at the
  character sought or at the terminator: the result says whether the character was met.
\<close>

function scan_set :: "memory \<Rightarrow> u8 \<Rightarrow> int \<Rightarrow> bool option" where
  "scan_set m x p = (case load m p of None \<Rightarrow> None
     | Some c \<Rightarrow> if c \<noteq> 0 then (if x = c then Some True else scan_set m x (p + 1)) else Some False)"
  by pat_completeness auto
termination
  by (relation "measure (\<lambda>(m, x, p). nat (int (length m) - p))") (auto simp: load_Some_iff)

function strspn_loop :: "memory \<Rightarrow> int \<Rightarrow> int \<Rightarrow> int \<Rightarrow> int option" where
  "strspn_loop m s1 s2 len = (case load m (s1 + len) of None \<Rightarrow> None
     | Some c \<Rightarrow> if c = 0 then Some len
                else (case scan_set m c s2 of None \<Rightarrow> None
                   | Some met \<Rightarrow> if \<not> met then Some len else strspn_loop m s1 s2 (len + 1)))"
  by pat_completeness auto
termination
  by (relation "measure (\<lambda>(m, s1, s2, i). nat (int (length m) - (s1 + i)))")
    (auto simp: load_Some_iff)

definition strspn :: "memory \<Rightarrow> int \<Rightarrow> int \<Rightarrow> int option" where
  "strspn m s1 s2 = strspn_loop m s1 s2 0"

function strcspn_loop :: "memory \<Rightarrow> int \<Rightarrow> int \<Rightarrow> int \<Rightarrow> int option" where
  "strcspn_loop m s1 s2 len = (case load m (s1 + len) of None \<Rightarrow> None
     | Some c \<Rightarrow> if c = 0 then Some len
                else (case scan_set m c s2 of None \<Rightarrow> None
                   | Some met \<Rightarrow> if met then Some len else strcspn_loop m s1 s2 (len + 1)))"
  by pat_completeness auto
termination
  by (relation "measure (\<lambda>(m, s1, s2, i). nat (int (length m) - (s1 + i)))")
    (auto simp: load_Some_iff)

definition strcspn :: "memory \<Rightarrow> int \<Rightarrow> int \<Rightarrow> int option" where
  "strcspn m s1 s2 = strcspn_loop m s1 s2 0"

lemmas loop_simps = strlen_loop.simps strnlen_loop.simps memset_loop.simps memcpy_loop.simps
  memcmp_loop.simps strcmp_loop.simps strncmp_loop.simps strchr_loop.simps scan_set.simps
  strspn_loop.simps strcspn_loop.simps

declare loop_simps [simp del]


section \<open>Abstraction: C strings and blocks\<close>

text \<open>
  \<open>cstring m s xs\<close>: the bytes \<open>xs\<close>, none of them zero, stand at \<open>s\<close> and are followed by the
  terminator. \<open>block m a xs\<close>: the bytes \<open>xs\<close> stand at \<open>a\<close>.
\<close>

definition block :: "memory \<Rightarrow> int \<Rightarrow> u8 list \<Rightarrow> bool" where
  "block m a xs \<longleftrightarrow> 0 \<le> a \<and> a + int (length xs) \<le> int (length m) \<and>
     take (length xs) (drop (nat a) m) = xs"

definition cstring :: "memory \<Rightarrow> int \<Rightarrow> u8 list \<Rightarrow> bool" where
  "cstring m s xs \<longleftrightarrow> block m s (xs @ [0]) \<and> 0 \<notin> set xs"

lemma block_load_iff:
  "block m a xs \<longleftrightarrow> 0 \<le> a \<and> a + int (length xs) \<le> int (length m) \<and>
     (\<forall>i < length xs. load m (a + int i) = Some (xs ! i))"
proof
  assume b: "block m a xs"
  then show "0 \<le> a \<and> a + int (length xs) \<le> int (length m) \<and>
      (\<forall>i < length xs. load m (a + int i) = Some (xs ! i))"
    by (auto simp: block_def load_def nat_add_distrib intro!: take_drop_eqD)
next
  assume r: "0 \<le> a \<and> a + int (length xs) \<le> int (length m) \<and>
      (\<forall>i < length xs. load m (a + int i) = Some (xs ! i))"
  then have "m ! (nat a + i) = xs ! i" if "i < length xs" for i
    using that by (auto simp: load_def nat_add_distrib split: if_splits)
  with r show "block m a xs"
    by (auto simp: block_def intro!: take_drop_eqI)
qed

lemma block_load: "block m a xs \<Longrightarrow> i < length xs \<Longrightarrow> load m (a + int i) = Some (xs ! i)"
  by (simp add: block_load_iff)

lemma block_hd: "block m a (x # xs) \<Longrightarrow> load m a = Some x"
  using block_load [of m a "x # xs" 0] by simp

lemma block_Cons: "block m a (x # xs) \<longleftrightarrow> load m a = Some x \<and> block m (a + 1) xs"
proof -
  have "(\<forall>i < Suc (length xs). load m (a + int i) = Some ((x # xs) ! i)) \<longleftrightarrow>
      load m a = Some x \<and> (\<forall>i < length xs. load m (a + 1 + int i) = Some (xs ! i))"
    by (simp add: All_less_Suc2 add.assoc)
  then show ?thesis
    by (auto simp: block_load_iff load_Some_iff)
qed

lemma block_append: "block m a (xs @ ys) \<longleftrightarrow> block m a xs \<and> block m (a + int (length xs)) ys"
proof (induction xs arbitrary: a)
  case Nil
  then show ?case by (auto simp: block_def)
next
  case (Cons x xs)
  have "a + 1 + int (length xs) = a + int (length (x # xs))" by simp
  with Cons [of "a + 1"] show ?case by (simp only: append_Cons block_Cons) blast
qed

lemma cstring_Nil: "cstring m s [] \<longleftrightarrow> load m s = Some 0"
  by (simp add: cstring_def block_Cons) (auto simp: block_def load_Some_iff)

lemma cstring_Cons: "cstring m s (x # xs) \<longleftrightarrow> load m s = Some x \<and> x \<noteq> 0 \<and> cstring m (s + 1) xs"
  by (auto simp: cstring_def block_Cons)

text \<open>A position of a string: what is left of it from index \<open>i\<close> on.\<close>

lemma cstring_shift:
  "cstring m s xs \<Longrightarrow> i \<le> length xs \<Longrightarrow> cstring m (s + int i) (drop i xs)"
proof (induction i arbitrary: s xs)
  case 0
  then show ?case by simp
next
  case (Suc i)
  then obtain y ys where xs: "xs = y # ys" by (cases xs) auto
  with Suc have "cstring m (s + 1 + int i) (drop i ys)" by (simp add: cstring_Cons)
  then show ?case by (simp add: xs add.assoc)
qed

section \<open>Lengths\<close>

lemma strlen_loop_cstring:
  "cstring m (s + len) xs \<Longrightarrow> strlen_loop m s len = Some (len + int (length xs))"
proof (induction xs arbitrary: len)
  case Nil
  then show ?case by (simp add: cstring_Nil strlen_loop.simps [of m s len])
next
  case (Cons x xs)
  then show ?case
    by (simp add: cstring_Cons strlen_loop.simps [of m s len] add.assoc)
qed

lemma strnlen_loop_cstring:
  "cstring m (s + len) xs \<Longrightarrow>
     strnlen_loop m s count len = Some (len + min (int (length xs)) (max 0 (count - len)))"
proof (induction xs arbitrary: len)
  case Nil
  then show ?case by (simp add: cstring_Nil strnlen_loop.simps [of m s count len])
next
  case (Cons x xs)
  then have *: "strnlen_loop m s count (len + 1) =
      Some (len + 1 + min (int (length xs)) (max 0 (count - (len + 1))))"
    by (simp add: cstring_Cons add.assoc)
  from Cons.prems show ?case
    by (cases "len < count")
      (simp_all add: cstring_Cons strnlen_loop.simps [of m s count len] *)
qed

lemma strnlen_cstring:
  "cstring m s xs \<Longrightarrow> strnlen m s count = Some (min (int (length xs)) (max 0 count))"
  using strnlen_loop_cstring [of m s 0 xs count] by (simp add: strnlen_def)

text \<open>\<^verbatim>\<open>strlen\<close> returns the length of every terminated string, wherever it stands.\<close>

theorem strlen_correct:
  assumes "cstring m s xs"
  shows "strlen m s = Some (int (length xs))"
  using assms strlen_loop_cstring [of m s 0 xs] by (simp add: strlen_def)

theorem strlen_correct_witness:
  "cstring [7, 83, 76, 67, 0, 9] 1 [83, 76, 67] \<and> strlen [7, 83, 76, 67, 0, 9] 1 = Some 3"
proof -
  have h: "cstring [7, 83, 76, 67, 0, 9] 1 [83, 76, 67]"
    by (simp add: cstring_Cons cstring_Nil load_def)
  show ?thesis using h strlen_correct [OF h] by simp
qed

section \<open>Copying and filling\<close>

lemma memset_loop_ok:
  assumes "0 \<le> b" "b + len \<le> int (length m)" "0 \<le> i"
  shows "\<exists>m'. memset_loop m b c len i = Some m' \<and> length m' = length m \<and>
    (\<forall>a. load m' a = (if b + i \<le> a \<and> a < b + len then Some c else load m a))"
  using assms
proof (induction m b c len i rule: memset_loop.induct)
  case (1 m b c len i)
  show ?case
  proof (cases "i < len")
    case True
    with 1 obtain m1 where m1: "store m (b + i) c = Some m1" by (auto simp: store_def)
    from 1(2-) store_length [OF m1] have "0 \<le> b" "b + len \<le> int (length m1)" "0 \<le> i + 1" by auto
    from 1(1) [OF True m1 this] obtain m' where m': "memset_loop m1 b c len (i + 1) = Some m'"
        "length m' = length m1"
        "\<forall>a. load m' a = (if b + (i + 1) \<le> a \<and> a < b + len then Some c else load m1 a)"
      by blast
    with m1 True show ?thesis
      by (auto simp: memset_loop.simps [of m] store_length load_store)
  next
    case False
    then show ?thesis by (auto simp: memset_loop.simps [of m])
  qed
qed

text \<open>
  The byte loop copies upwards, so it is right for disjoint blocks and also for overlapping ones
  as long as the destination lies below the source.
\<close>

lemma memcpy_loop_ok:
  assumes "0 \<le> dst" "dst + len \<le> int (length m)" "0 \<le> src" "src + len \<le> int (length m)" "0 \<le> i"
    and "dst \<le> src \<or> src + len \<le> dst"
  shows "\<exists>m'. memcpy_loop m dst src len i = Some m' \<and> length m' = length m \<and>
    (\<forall>a. load m' a = (if dst + i \<le> a \<and> a < dst + len then load m (a - dst + src) else load m a))"
  using assms
proof (induction m dst src len i rule: memcpy_loop.induct)
  case (1 m dst src len i)
  show ?case
  proof (cases "i < len")
    case True
    with 1 obtain v where v: "load m (src + i) = Some v" by (auto simp: load_def)
    from 1 True obtain m1 where m1: "store m (dst + i) v = Some m1" by (auto simp: store_def)
    from 1(2-) store_length [OF m1] have "0 \<le> dst" "dst + len \<le> int (length m1)" "0 \<le> src"
      "src + len \<le> int (length m1)" "0 \<le> i + 1" "dst \<le> src \<or> src + len \<le> dst" by auto
    from 1(1) [OF True v m1 this] obtain m' where m': "memcpy_loop m1 dst src len (i + 1) = Some m'"
        "length m' = length m1"
        "\<forall>a. load m' a =
           (if dst + (i + 1) \<le> a \<and> a < dst + len then load m1 (a - dst + src) else load m1 a)"
      by blast
    have "load m' a = (if dst + i \<le> a \<and> a < dst + len then load m (a - dst + src) else load m a)" for a
      using m' 1(6,7) v True by (auto simp: load_store [OF m1] add.commute)
    with m1 v m' True show ?thesis
      by (simp add: memcpy_loop.simps [of m] store_length)
  next
    case False
    then show ?thesis by (auto simp: memcpy_loop.simps [of m])
  qed
qed

lemma memcpy_ok:
  assumes "0 \<le> dst" "dst + len \<le> int (length m)" "0 \<le> src" "src + len \<le> int (length m)"
    and "dst \<le> src \<or> src + len \<le> dst"
  obtains m' where "memcpy m dst src len = Some m'" "length m' = length m"
    "\<And>a. load m' a = (if dst \<le> a \<and> a < dst + len then load m (a - dst + src) else load m a)"
  using memcpy_loop_ok [of dst len m src 0] assms by (auto simp: memcpy_def)

text \<open>
  \<^verbatim>\<open>memset\<close> fills exactly the \<open>len\<close> bytes at \<open>b\<close> with the low byte of its argument and changes
  nothing else.
\<close>

theorem memset_fills:
  assumes "0 \<le> b" "b + len \<le> int (length m)"
  shows "\<exists>m'. memset m b c len = Some m' \<and> length m' = length m \<and>
    (\<forall>a. load m' a = (if b \<le> a \<and> a < b + len then Some (ucast c) else load m a))"
  using memset_loop_ok [of b len m 0] assms by (simp add: memset_def)

theorem memset_fills_witness:
  "\<exists>m'. memset [1, 2, 3, 4] 1 0x1AA 2 = Some m' \<and> load m' 2 = Some 0xAA \<and> load m' 3 = Some 4"
proof -
  have "\<exists>m'. memset [1, 2, 3, 4] 1 0x1AA 2 = Some m' \<and> length m' = length [1, 2, 3, 4 :: u8] \<and>
      (\<forall>a. load m' a = (if (1::int) \<le> a \<and> a < 1 + 2 then Some (ucast (0x1AA :: u32))
        else load [1, 2, 3, 4] a))"
    by (rule memset_fills) simp_all
  then obtain m' where "memset [1, 2, 3, 4] 1 0x1AA 2 = Some m'"
    "\<forall>a. load m' a = (if (1::int) \<le> a \<and> a < 1 + 2 then Some (ucast (0x1AA :: u32))
        else load [1, 2, 3, 4] a)" by blast
  moreover have "load [1, 2, 3, 4 :: u8] 3 = Some 4" by (simp add: load_def)
  ultimately show ?thesis by simp
qed

text \<open>
  \<^verbatim>\<open>memcpy\<close> copies the block at \<open>src\<close> to \<open>dst\<close> and changes nothing else, when the blocks are
  disjoint or the destination does not lie above the source.
\<close>

theorem memcpy_copies:
  assumes "block m src xs" "0 \<le> dst" "dst + int (length xs) \<le> int (length m)"
    and "dst \<le> src \<or> src + int (length xs) \<le> dst"
  shows "\<exists>m'. memcpy m dst src (int (length xs)) = Some m' \<and> length m' = length m \<and>
    block m' dst xs \<and>
    (\<forall>a. a < dst \<or> dst + int (length xs) \<le> a \<longrightarrow> load m' a = load m a)"
proof -
  have src: "0 \<le> src" "src + int (length xs) \<le> int (length m)"
    using assms(1) by (auto simp: block_def)
  obtain m' where m': "memcpy m dst src (int (length xs)) = Some m'" "length m' = length m"
    "\<And>a. load m' a =
       (if dst \<le> a \<and> a < dst + int (length xs) then load m (a - dst + src) else load m a)"
    using memcpy_ok [OF assms(2,3) src assms(4)] by metis
  have "block m' dst xs"
    using assms m' by (auto simp: block_load_iff add.commute)
  with m' show ?thesis by auto
qed

theorem memcpy_copies_witness:
  "\<exists>m'. memcpy [5, 6, 7, 8, 9] 1 2 2 = Some m' \<and> block m' 1 [7, 8]"
proof -
  have "block [5, 6, 7, 8, 9] 2 [7, 8 :: u8]" by (simp add: block_def)
  from memcpy_copies [OF this, of 1] show ?thesis by auto
qed

section \<open>Comparing\<close>

text \<open>Reference: the difference of the first pair of bytes that differ.\<close>

fun byte_diff :: "u8 list \<Rightarrow> u8 list \<Rightarrow> int" where
  "byte_diff (x # xs) (y # ys) = (if x \<noteq> y then uint x - uint y else byte_diff xs ys)"
| "byte_diff _ _ = 0"

lemma byte_diff_0_iff: "length xs = length ys \<Longrightarrow> byte_diff xs ys = 0 \<longleftrightarrow> xs = ys"
  by (induction xs ys rule: byte_diff.induct) (auto simp: word_uint_eq_iff)

lemma byte_diff_neg_iff:
  "byte_diff xs ys < 0 \<longleftrightarrow>
     (\<exists>k < min (length xs) (length ys). take k xs = take k ys \<and> xs ! k < ys ! k)"
proof (induction xs ys rule: byte_diff.induct)
  case (1 x xs y ys)
  then show ?case
    by (auto simp: Ex_less_Suc2 word_less_def)
qed auto

lemma memcmp_loop_ok:
  "block m (s1 + i) xs \<Longrightarrow> block m (s2 + i) ys \<Longrightarrow> length xs = length ys \<Longrightarrow>
     memcmp_loop m s1 s2 (i + int (length xs)) i = Some (byte_diff xs ys)"
proof (induction xs ys arbitrary: i rule: byte_diff.induct)
  case (1 x xs y ys)
  then have "memcmp_loop m s1 s2 (i + 1 + int (length xs)) (i + 1) = Some (byte_diff xs ys)" if "x = y"
    using that 1 by (intro 1(1)) (auto simp: block_Cons add.assoc)
  with 1 show ?case
    by (simp add: memcmp_loop.simps [of m s1 s2 _ i] block_Cons add.assoc)
qed (auto simp: memcmp_loop.simps [of m s1 s2 _ i for i])

lemma strcmp_loop_ok:
  "cstring m (s1 + i) xs \<Longrightarrow> cstring m (s2 + i) ys \<Longrightarrow>
     strcmp_loop m s1 s2 i = Some (byte_diff (xs @ [0]) (ys @ [0]))"
proof (induction xs ys arbitrary: i rule: byte_diff.induct, goal_cases)
  case (1 x xs y ys i)
  then show ?case
    by (auto simp: strcmp_loop.simps [of m s1 s2 i] cstring_Cons add.assoc)
next
  case (2 ys i)
  then show ?case
    by (cases ys) (auto simp: strcmp_loop.simps [of m s1 s2 i] cstring_Cons cstring_Nil)
next
  case (3 xs i)
  then show ?case
    by (cases xs) (auto simp: strcmp_loop.simps [of m s1 s2 i] cstring_Cons cstring_Nil)
qed

lemma strncmp_loop_ok:
  "cstring m (s1 + i) xs \<Longrightarrow> cstring m (s2 + i) ys \<Longrightarrow>
     strncmp_loop m s1 s2 (i + int n) i =
       Some (byte_diff (take n (xs @ [0])) (take n (ys @ [0])))"
proof (induction n arbitrary: i xs ys)
  case 0
  then show ?case by (simp add: strncmp_loop.simps [of m s1 s2 _ i])
next
  case (Suc n)
  have IH: "strncmp_loop m s1 s2 (i + 1 + int n) (i + 1) =
      Some (byte_diff (take n (xs' @ [0])) (take n (ys' @ [0])))"
    if "xs = x # xs'" "ys = y # ys'" for x xs' y ys'
    using Suc.prems that by (intro Suc.IH) (auto simp: cstring_Cons add.assoc)
  from Suc.prems IH show ?case
    by (cases xs; cases ys)
      (auto simp: strncmp_loop.simps [of m s1 s2 _ i] cstring_Cons cstring_Nil add.assoc)
qed

text \<open>
  \<^verbatim>\<open>memcmp\<close> returns the difference of the first pair of bytes that differ: zero exactly for
  equal blocks, negative exactly when the first block is lexicographically smaller.
\<close>

theorem memcmp_correct:
  assumes "block m s1 xs" "block m s2 ys" "length xs = length ys"
  shows "memcmp m s1 s2 (int (length xs)) = Some (byte_diff xs ys) \<and>
    (byte_diff xs ys = 0 \<longleftrightarrow> xs = ys) \<and>
    (byte_diff xs ys < 0 \<longleftrightarrow> (\<exists>k < length xs. take k xs = take k ys \<and> xs ! k < ys ! k))"
  using assms memcmp_loop_ok [of m s1 0 xs s2 ys]
  by (simp add: memcmp_def byte_diff_0_iff byte_diff_neg_iff)

theorem memcmp_correct_witness:
  "memcmp [1, 2, 3, 1, 9, 0] 0 3 3 = Some (byte_diff [1, 2, 3] [1, 9, 0]) \<and>
   byte_diff [1, 2, 3] [1, 9, 0] = - 7"
proof -
  have "block [1, 2, 3, 1, 9, 0] 0 [1, 2, 3 :: u8]" "block [1, 2, 3, 1, 9, 0] 3 [1, 9, 0 :: u8]"
    by (simp_all add: block_def)
  from memcmp_correct [OF this] show ?thesis by simp
qed

text \<open>
  \<^verbatim>\<open>strcmp\<close> and \<^verbatim>\<open>strncmp\<close> on terminated strings: the difference of the first bytes that
  differ, terminators included, within the first \<open>n\<close> bytes for \<^verbatim>\<open>strncmp\<close>; \<^verbatim>\<open>strcmp\<close> is zero
  exactly for equal strings.
\<close>

theorem strcmp_strncmp_correct:
  assumes "cstring m s1 xs" "cstring m s2 ys"
  shows "strcmp m s1 s2 = Some (byte_diff (xs @ [0]) (ys @ [0])) \<and>
    strncmp m s1 s2 (int n) = Some (byte_diff (take n (xs @ [0])) (take n (ys @ [0]))) \<and>
    (byte_diff (xs @ [0]) (ys @ [0]) = 0 \<longleftrightarrow> xs = ys)"
proof -
  have "byte_diff (xs @ [0]) (ys @ [0]) = 0 \<longleftrightarrow> xs = ys"
    if "0 \<notin> set xs" "0 \<notin> set ys" for xs ys :: "u8 list"
    using that
  proof (induction xs ys rule: byte_diff.induct, goal_cases)
    case (2 ys)
    then show ?case by (cases ys) (auto simp: word_uint_eq_iff)
  next
    case (3 xs)
    then show ?case by (cases xs) (auto simp: word_uint_eq_iff)
  qed (auto simp: word_uint_eq_iff)
  then show ?thesis
    using assms strcmp_loop_ok [of m s1 0 xs s2 ys] strncmp_loop_ok [of m s1 0 xs s2 ys n]
    by (simp add: strcmp_def strncmp_def cstring_def)
qed

theorem strcmp_strncmp_correct_witness:
  "strcmp [65, 66, 0, 65, 67, 0] 0 3 = Some (- 1) \<and>
   strncmp [65, 66, 0, 65, 67, 0] 0 3 1 = Some 0"
proof -
  have "cstring [65, 66, 0, 65, 67, 0] 0 [65, 66]" "cstring [65, 66, 0, 65, 67, 0] 3 [65, 67]"
    by (simp_all add: cstring_Cons cstring_Nil load_def)
  from strcmp_strncmp_correct [OF this, of 1] show ?thesis by simp
qed

section \<open>Bounded copy and concatenation\<close>

lemma cstring_bounds: "cstring m s xs \<Longrightarrow> 0 \<le> s \<and> s + int (length xs) < int (length m)"
  by (auto simp: cstring_def block_def)

lemma cstring_load_iff:
  "cstring m s xs \<longleftrightarrow> 0 \<le> s \<and> s + int (length xs) < int (length m) \<and> 0 \<notin> set xs \<and>
     (\<forall>i < length xs. load m (s + int i) = Some (xs ! i)) \<and> load m (s + int (length xs)) = Some 0"
  by (auto simp: cstring_def block_load_iff nth_append All_less_Suc)

lemma cstring_cong:
  assumes "cstring m s xs" "length m' = length m"
    and "\<And>a. s \<le> a \<Longrightarrow> a \<le> s + int (length xs) \<Longrightarrow> load m' a = load m a"
  shows "cstring m' s xs"
  using assms by (auto simp: cstring_load_iff)

lemma strlcpy_ok:
  assumes src: "cstring m src xs" and maxlen: "1 \<le> maxlen"
    and dst: "0 \<le> dest" "dest + maxlen \<le> int (length m)"
    and sep: "dest + maxlen \<le> src \<or> src + int (length xs) < dest"
  obtains m' where "strlcpy m dest src maxlen = Some (m', min (int (length xs)) (maxlen - 1))"
    "length m' = length m" "cstring m' dest (take (nat (maxlen - 1)) xs)"
    "\<And>a. a < dest \<or> dest + maxlen \<le> a \<Longrightarrow> load m' a = load m a"
proof -
  define n where "n = min (int (length xs)) (maxlen - 1)"
  define len where "len = (if n + 1 \<ge> maxlen then maxlen - 1 else n + 1)"
  have n: "strnlen m src (maxlen - 1) = Some n" "0 \<le> n" "n \<le> maxlen - 1" "n \<le> int (length xs)"
    using strnlen_cstring [OF src] maxlen by (auto simp: n_def)
  have len: "n \<le> len" "len \<le> n + 1" "len < maxlen" "len \<le> int (length xs) + 1" "0 \<le> len"
    using n maxlen by (auto simp: len_def n_def)
  note sb = cstring_bounds [OF src]
  obtain m1 where m1: "memcpy m dest src len = Some m1" "length m1 = length m"
    "\<And>a. load m1 a = (if dest \<le> a \<and> a < dest + len then load m (a - dest + src) else load m a)"
    by (rule memcpy_ok [of dest len m src]) (use dst sb len sep in auto)
  obtain m2 where m2: "store m1 (dest + len) 0 = Some m2"
    using dst len m1 by (auto simp: store_def)
  have run: "strlcpy m dest src maxlen = Some (m2, n)"
    using n m1 m2 by (simp add: strlcpy_def Let_def len_def)
  have len2: "length m2 = length m" using m1 store_length [OF m2] by simp
  have frame: "load m2 a = load m a" if "a < dest \<or> dest + maxlen \<le> a" for a
    using that len m1 by (auto simp: load_store [OF m2])
  have "load m2 (dest + int i) = Some (xs ! i)" if "int i < n" for i
  proof -
    have "load m (int i + src) = Some (xs ! i)"
      using that src n by (simp add: cstring_load_iff add.commute)
    then show ?thesis using that len m1 by (simp add: load_store [OF m2])
  qed
  moreover have "load m2 (dest + n) = Some 0"
  proof (cases "len = n")
    case True
    then show ?thesis by (simp add: load_store [OF m2])
  next
    case False
    then have "len = n + 1" "n = int (length xs)" using len by (auto simp: len_def n_def)
    then show ?thesis
      using src m1 by (simp add: load_store [OF m2] cstring_load_iff add.commute)
  qed
  moreover have "int (length (take (nat (maxlen - 1)) xs)) = n"
    using maxlen by (auto simp: n_def min_def)
  moreover have "0 \<notin> set (take (nat (maxlen - 1)) xs)"
    using src by (auto simp: cstring_def dest: in_set_takeD)
  ultimately have "cstring m2 dest (take (nat (maxlen - 1)) xs)"
    using dst n len2 maxlen by (auto simp: cstring_load_iff)
  from that [OF run [unfolded n_def] len2 this frame] show thesis by blast
qed

text \<open>
  \<^verbatim>\<open>strlcpy\<close> into a buffer of \<open>maxlen\<close> bytes (at least one) that does not overlap the source:
  the buffer then holds the longest prefix of the source that fits, terminated, no byte outside
  the buffer changes, and the length returned is that of the stored prefix.
\<close>

theorem strlcpy_correct:
  assumes "cstring m src xs" "1 \<le> maxlen" "0 \<le> dest" "dest + maxlen \<le> int (length m)"
    and "dest + maxlen \<le> src \<or> src + int (length xs) < dest"
  shows "\<exists>m'. strlcpy m dest src maxlen = Some (m', min (int (length xs)) (maxlen - 1)) \<and>
    cstring m' dest (take (nat (maxlen - 1)) xs) \<and>
    (\<forall>a. a < dest \<or> dest + maxlen \<le> a \<longrightarrow> load m' a = load m a)"
  by (rule strlcpy_ok [OF assms]) blast

theorem strlcpy_correct_witness:
  "\<exists>m'. strlcpy [65, 66, 67, 0, 9, 9, 9] 4 0 3 = Some (m', 2) \<and> cstring m' 4 [65, 66]"
proof -
  have "cstring [65, 66, 67, 0, 9, 9, 9] 0 [65, 66, 67]"
    by (simp add: cstring_Cons cstring_Nil load_def)
  from strlcpy_correct [OF this, of 3 4] show ?thesis by auto
qed

text \<open>
  \<^verbatim>\<open>strlcat\<close> onto a terminated string inside its buffer of \<open>maxlen\<close> bytes: the buffer then holds
  the concatenation cut to \<open>maxlen - 1\<close> bytes, terminated, and no byte outside it changes.
\<close>

theorem strlcat_correct:
  assumes d: "cstring m dest ys" and s: "cstring m src xs" and l: "int (length ys) < maxlen"
    and b: "dest + maxlen \<le> int (length m)"
    and sep: "dest + maxlen \<le> src \<or> src + int (length xs) < dest"
  shows "\<exists>m' n. strlcat m dest src maxlen = Some (m', n) \<and>
    cstring m' dest (take (nat (maxlen - 1)) (ys @ xs)) \<and>
    n = min (int (length ys + length xs)) (maxlen - 1) \<and>
    (\<forall>a. a < dest \<or> dest + maxlen \<le> a \<longrightarrow> load m' a = load m a)"
proof -
  let ?k = "int (length ys)"
  note db = cstring_bounds [OF d]
  have u: "strnlen m dest (maxlen - 1) = Some ?k"
    using strnlen_cstring [OF d] l by simp
  obtain m' where m': "strlcpy m (dest + ?k) src (maxlen - ?k) =
        Some (m', min (int (length xs)) (maxlen - ?k - 1))"
      "length m' = length m" "cstring m' (dest + ?k) (take (nat (maxlen - ?k - 1)) xs)"
      "\<And>a. a < dest + ?k \<or> dest + ?k + (maxlen - ?k) \<le> a \<Longrightarrow> load m' a = load m a"
    by (rule strlcpy_ok [OF s, of "maxlen - ?k" "dest + ?k"]) (use db l b sep in auto)
  have eq: "take (nat (maxlen - 1)) (ys @ xs) = ys @ take (nat (maxlen - ?k - 1)) xs"
  proof -
    have "length ys \<le> nat (maxlen - 1)" "nat (maxlen - 1) - length ys = nat (maxlen - ?k - 1)"
      using l by auto
    then show ?thesis by simp
  qed
  have "block m dest ys" "0 \<notin> set ys" using d by (auto simp: cstring_def block_append)
  then have "block m' dest ys" using m'(2,4) by (auto simp: block_load_iff)
  with m'(3) \<open>0 \<notin> set ys\<close> have "cstring m' dest (ys @ take (nat (maxlen - ?k - 1)) xs)"
    by (simp add: cstring_def block_append add.assoc)
  with u m' eq show ?thesis
    by (simp add: strlcat_def)
qed

theorem strlcat_correct_witness:
  "\<exists>m' n. strlcat [83, 0, 9, 9, 46, 82, 0] 0 4 4 = Some (m', n) \<and>
    cstring m' 0 [83, 46, 82] \<and> n = 3"
proof -
  have "cstring [83, 0, 9, 9, 46, 82, 0] 0 [83]" "cstring [83, 0, 9, 9, 46, 82, 0] 4 [46, 82]"
    by (simp_all add: cstring_Cons cstring_Nil load_def)
  from strlcat_correct [OF this, of 4] show ?thesis by auto
qed

section \<open>Searching\<close>

lemma scan_set_ok: "cstring m p ys \<Longrightarrow> scan_set m c p = Some (c \<in> set ys)"
proof (induction ys arbitrary: p)
  case Nil
  then show ?case by (simp add: cstring_Nil scan_set.simps [of m c p])
next
  case (Cons y ys)
  then show ?case by (auto simp: cstring_Cons scan_set.simps [of m c p])
qed

lemma strspn_loop_ok:
  "cstring m (s1 + len) xs \<Longrightarrow> cstring m s2 ys \<Longrightarrow>
     strspn_loop m s1 s2 len = Some (len + int (length (takeWhile (\<lambda>c. c \<in> set ys) xs)))"
  by (induction xs arbitrary: len)
    (auto simp: cstring_Cons cstring_Nil scan_set_ok strspn_loop.simps [of m s1 s2 _] add.assoc)

lemma strcspn_loop_ok:
  "cstring m (s1 + len) xs \<Longrightarrow> cstring m s2 ys \<Longrightarrow>
     strcspn_loop m s1 s2 len = Some (len + int (length (takeWhile (\<lambda>c. c \<notin> set ys) xs)))"
  by (induction xs arbitrary: len)
    (auto simp: cstring_Cons cstring_Nil scan_set_ok strcspn_loop.simps [of m s1 s2 _] add.assoc)

lemma strchr_loop_ok:
  "cstring m (s + i) xs \<Longrightarrow> c \<noteq> 0 \<Longrightarrow>
     strchr_loop m s c i = Some (if c \<in> set xs
        then Some (s + i + int (length (takeWhile (\<lambda>x. x \<noteq> c) xs))) else None)"
  by (induction xs arbitrary: i)
    (auto simp: cstring_Cons cstring_Nil strchr_loop.simps [of m s c _] add.assoc)

text \<open>
  \<^verbatim>\<open>strspn\<close>, \<^verbatim>\<open>strcspn\<close> and \<^verbatim>\<open>strchr\<close> on terminated strings: the length of the longest
  prefix made of (respectively avoiding) the characters of the set, and the address of the first
  occurrence of a non-zero character, null when there is none.
\<close>

theorem string_search_correct:
  assumes "cstring m s1 xs" "cstring m s2 ys" "(ucast c :: u8) \<noteq> 0"
  shows "strspn m s1 s2 = Some (int (length (takeWhile (\<lambda>x. x \<in> set ys) xs))) \<and>
    strcspn m s1 s2 = Some (int (length (takeWhile (\<lambda>x. x \<notin> set ys) xs))) \<and>
    strchr m s1 c = Some (if ucast c \<in> set xs
       then Some (s1 + int (length (takeWhile (\<lambda>x. x \<noteq> ucast c) xs))) else None)"
  using assms strspn_loop_ok [of m s1 0 xs s2 ys] strcspn_loop_ok [of m s1 0 xs s2 ys]
    strchr_loop_ok [of m s1 0 xs "ucast c"]
  by (simp add: strspn_def strcspn_def strchr_def)

theorem string_search_correct_witness:
  "strspn [65, 66, 67, 0, 66, 65, 0] 0 4 = Some 2 \<and>
   strcspn [65, 66, 67, 0, 66, 65, 0] 0 4 = Some 0 \<and>
   strchr [65, 66, 67, 0, 66, 65, 0] 0 67 = Some (Some 2)"
proof -
  have "cstring [65, 66, 67, 0, 66, 65, 0] 0 [65, 66, 67]"
    "cstring [65, 66, 67, 0, 66, 65, 0] 4 [66, 65]"
    by (simp_all add: cstring_Cons cstring_Nil load_def)
  from string_search_correct [OF this, of 67] show ?thesis by simp
qed

section \<open>Two corner cases of the code\<close>

text \<open>
  \<^verbatim>\<open>strnlen\<close> tests the character before the bound, so a full buffer without terminator is read
  one byte past its end; \<^verbatim>\<open>strlcpy\<close> with \<open>maxlen = 0\<close> computes \<open>len = - 1\<close> and stores the
  terminator below the destination.
\<close>

lemma strnlen_overread: "strnlen [65, 66] 0 2 = None"
  by (simp add: strnlen_def strnlen_loop.simps load_def)

lemma strlcpy_zero_underwrite:
  "strlcpy [7, 8, 65, 0] 1 2 0 = Some ([0, 8, 65, 0], 0)"
  by (simp add: strlcpy_def strnlen_def strnlen_loop.simps memcpy_def memcpy_loop.simps
    load_def store_def)

end
