(* ===== verification/Printf.thy ===== *)
theory Printf
  imports Prelude
begin

text \<open>
  \<^verbatim>\<open>armboot/common/vsprintf.c\<close> and \<^verbatim>\<open>sprintf\<close> of \<^verbatim>\<open>common/utils.c\<close>: the formatter behind every
  message and behind the name of the dump file. A C \<^verbatim>\<open>char\<close> is a \<^typ>\<open>char\<close>; a terminated
  string is the list of its characters before the terminator. The variable arguments are a list of
  typed values; taking one of the wrong type, or more than there are, is \<^const>\<open>None\<close> (undefined
  behaviour of C), as is a store outside the output buffer.

  The format interpreter is a state machine over the format string. It is split in two: the control
  part (\<open>print_step\<close>) reads the format and the arguments and decides which output routine is called
  with which arguments (an \<open>action\<close>); the output part (\<open>perform\<close>) runs that routine on the buffer.
\<close>

section \<open>Output through OUTCHAR\<close>

text \<open>A sink is the buffer together with the count of characters produced so far.\<close>

type_synonym sink = "string \<times> nat"

fun outchar :: "int \<Rightarrow> char \<Rightarrow> sink \<Rightarrow> sink option" where
  "outchar sz ch (str, len) =
     (if int len + 1 < sz
      then (if len < length str then Some (str[len := ch], len + 1) else None)
      else Some (str, len + 1))"

fun out_rep :: "int \<Rightarrow> char \<Rightarrow> nat \<Rightarrow> sink \<Rightarrow> sink option" where
  "out_rep sz ch 0 sk = Some sk"
| "out_rep sz ch (Suc n) sk = do { sk' \<leftarrow> outchar sz ch sk; out_rep sz ch n sk' }"

section \<open>Flags and constants\<close>

definition INT_MAX :: int where "INT_MAX = 0x7fffffff"
definition MAX_CONVERT_LENGTH :: nat where "MAX_CONVERT_LENGTH = 43"

definition PRINT_F_MINUS :: u32 where "PRINT_F_MINUS = 0x01"
definition PRINT_F_PLUS :: u32 where "PRINT_F_PLUS = 0x02"
definition PRINT_F_SPACE :: u32 where "PRINT_F_SPACE = 0x04"
definition PRINT_F_NUM :: u32 where "PRINT_F_NUM = 0x08"
definition PRINT_F_ZERO :: u32 where "PRINT_F_ZERO = 0x10"
definition PRINT_F_QUOTE :: u32 where "PRINT_F_QUOTE = 0x20"
definition PRINT_F_UP :: u32 where "PRINT_F_UP = 0x40"
definition PRINT_F_UNSIGNED :: u32 where "PRINT_F_UNSIGNED = 0x80"

lemmas print_flags = PRINT_F_MINUS_def PRINT_F_PLUS_def PRINT_F_SPACE_def PRINT_F_NUM_def
  PRINT_F_ZERO_def PRINT_F_QUOTE_def PRINT_F_UP_def PRINT_F_UNSIGNED_def

abbreviation hasf :: "u32 \<Rightarrow> u32 \<Rightarrow> bool" where
  "hasf flags f \<equiv> flags AND f \<noteq> 0"

datatype pf_state = PRINT_S_DEFAULT | PRINT_S_FLAGS | PRINT_S_WIDTH | PRINT_S_DOT
  | PRINT_S_PRECISION | PRINT_S_MOD | PRINT_S_CONV

datatype pf_cflag = PRINT_C_NONE | PRINT_C_CHAR | PRINT_C_SHORT | PRINT_C_LONG | PRINT_C_LLONG
  | PRINT_C_SIZE | PRINT_C_PTRDIFF | PRINT_C_INTMAX

section \<open>Integer conversion\<close>

definition digit_char :: "bool \<Rightarrow> nat \<Rightarrow> char" where
  "digit_char caps d = (if caps then ''0123456789ABCDEF'' else ''0123456789abcdef'') ! d"

text \<open>
  \<^verbatim>\<open>convert\<close> leaves the digits in the array in reverse order; the result here is the filled part
  of the array, its length the position the function returns.
\<close>

function convert :: "u32 \<Rightarrow> nat \<Rightarrow> u32 \<Rightarrow> bool \<Rightarrow> nat \<Rightarrow> string" where
  "convert value sz base caps pos =
     digit_char caps (unat (value mod base)) #
       (let v = value div base in
        if v \<noteq> 0 \<and> pos + 1 < sz then convert v sz base caps (pos + 1) else [])"
  by pat_completeness auto
termination
  by (relation "measure (\<lambda>(value, sz, base, caps, pos). sz - pos)") auto

declare convert.simps [simp del]

definition getnumsep :: "int \<Rightarrow> int" where
  "getnumsep digits = (digits - (if digits mod 3 = 0 then 1 else 0)) div 3"

definition printsep :: "int \<Rightarrow> sink \<Rightarrow> sink option" where
  "printsep sz sk = outchar sz CHR '','' sk"

fun out_digits :: "int \<Rightarrow> string \<Rightarrow> int \<Rightarrow> nat \<Rightarrow> sink \<Rightarrow> sink option" where
  "out_digits sz iconvert separators 0 sk = Some sk"
| "out_digits sz iconvert separators (Suc pos) sk = do {
     sk1 \<leftarrow> outchar sz (iconvert ! pos) sk;
     sk2 \<leftarrow> (if separators > 0 \<and> pos > 0 \<and> pos mod 3 = 0 then printsep sz sk1 else Some sk1);
     out_digits sz iconvert separators pos sk2 }"

text \<open>The sign, prefix and padding that \<^verbatim>\<open>fmtint\<close> computes before it prints.\<close>

record fmtint_plan =
  fp_iconvert :: string
  fp_sign :: "char option"
  fp_hexprefix :: "char option"
  fp_separators :: int
  fp_zpadlen :: int
  fp_spadlen :: int

definition fmtint_prepare :: "u32 \<Rightarrow> int \<Rightarrow> int \<Rightarrow> int \<Rightarrow> u32 \<Rightarrow> fmtint_plan" where
  "fmtint_prepare value base width precision flags =
    (let noprecision = (precision = -1);
         uvalue = (if hasf flags PRINT_F_UNSIGNED then value
                   else if sint value \<ge> 0 then value else - value);
         sign = (if hasf flags PRINT_F_UNSIGNED then None
                 else if sint value < 0 then Some CHR ''-''
                 else if hasf flags PRINT_F_PLUS then Some CHR ''+''
                 else if hasf flags PRINT_F_SPACE then Some CHR '' ''
                 else None);
         iconvert = convert uvalue MAX_CONVERT_LENGTH (of_int base) (hasf flags PRINT_F_UP) 0;
         pos = int (length iconvert);
         alt = (hasf flags PRINT_F_NUM \<and> uvalue \<noteq> 0);
         precision = (if alt \<and> base = 8 \<and> precision \<le> pos then pos + 1 else precision);
         hexprefix = (if alt \<and> base = 16
                      then Some (if hasf flags PRINT_F_UP then CHR ''X'' else CHR ''x'') else None);
         separators = (if hasf flags PRINT_F_QUOTE then getnumsep pos else 0);
         zpadlen = max 0 (precision - pos - separators);
         spadlen = max 0 (width - separators - max precision pos
                          - (if sign \<noteq> None then 1 else 0) - (if hexprefix \<noteq> None then 2 else 0));
         (zpadlen, spadlen) =
           (if hasf flags PRINT_F_MINUS then (zpadlen, - spadlen)
            else if hasf flags PRINT_F_ZERO \<and> noprecision then (zpadlen + spadlen, 0)
            else (zpadlen, spadlen))
     in \<lparr>fp_iconvert = iconvert, fp_sign = sign, fp_hexprefix = hexprefix,
         fp_separators = separators, fp_zpadlen = zpadlen, fp_spadlen = spadlen\<rparr>)"

definition fmtint :: "int \<Rightarrow> u32 \<Rightarrow> int \<Rightarrow> int \<Rightarrow> int \<Rightarrow> u32 \<Rightarrow> sink \<Rightarrow> sink option" where
  "fmtint sz value base width precision flags sk =
    (let p = fmtint_prepare value base width precision flags in do {
       sk \<leftarrow> out_rep sz CHR '' '' (nat (fp_spadlen p)) sk;
       sk \<leftarrow> (case fp_sign p of None \<Rightarrow> Some sk | Some c \<Rightarrow> outchar sz c sk);
       sk \<leftarrow> (case fp_hexprefix p of None \<Rightarrow> Some sk
              | Some c \<Rightarrow> do { sk \<leftarrow> outchar sz CHR ''0'' sk; outchar sz c sk });
       sk \<leftarrow> out_rep sz CHR ''0'' (nat (fp_zpadlen p)) sk;
       sk \<leftarrow> out_digits sz (fp_iconvert p) (fp_separators p) (length (fp_iconvert p)) sk;
       out_rep sz CHR '' '' (nat (- fp_spadlen p)) sk })"

section \<open>String conversion\<close>

fun fmtstr_len :: "string \<Rightarrow> bool \<Rightarrow> int \<Rightarrow> int \<Rightarrow> int" where
  "fmtstr_len [] noprecision precision strln = strln"
| "fmtstr_len (c # cs) noprecision precision strln =
     (if c \<noteq> CHR 0x00 \<and> (noprecision \<or> strln < precision)
      then fmtstr_len cs noprecision precision (strln + 1) else strln)"

fun fmtstr_body :: "int \<Rightarrow> string \<Rightarrow> bool \<Rightarrow> int \<Rightarrow> sink \<Rightarrow> sink option" where
  "fmtstr_body sz [] noprecision precision sk = Some sk"
| "fmtstr_body sz (c # cs) noprecision precision sk =
     (if c \<noteq> CHR 0x00 \<and> (noprecision \<or> precision > 0)
      then do { sk \<leftarrow> outchar sz c sk; fmtstr_body sz cs noprecision (precision - 1) sk }
      else Some sk)"

definition fmtstr :: "int \<Rightarrow> string option \<Rightarrow> int \<Rightarrow> int \<Rightarrow> u32 \<Rightarrow> sink \<Rightarrow> sink option" where
  "fmtstr sz value width precision flags sk =
    (let noprecision = (precision = -1);
         value = (case value of None \<Rightarrow> ''(null)'' | Some v \<Rightarrow> v);
         strln = fmtstr_len value noprecision precision 0;
         padlen = max 0 (width - strln);
         padlen = (if hasf flags PRINT_F_MINUS then - padlen else padlen)
     in do {
       sk \<leftarrow> out_rep sz CHR '' '' (nat padlen) sk;
       sk \<leftarrow> fmtstr_body sz value noprecision precision sk;
       out_rep sz CHR '' '' (nat (- padlen)) sk })"

section \<open>The format interpreter\<close>

datatype varg = VInt u32 | VStr "string option" | VPtr u32

datatype action = Nothing | Outchar char | Fmtint u32 int int int u32
  | Fmtstr "string option" int int u32

record ctl =
  c_state :: pf_state
  c_ch :: char
  c_format :: string
  c_args :: "varg list"
  c_base :: int
  c_cflags :: pf_cflag
  c_flags :: u32
  c_width :: int
  c_precision :: int
  c_overflow :: bool
  c_stores :: "(u32 \<times> pf_cflag \<times> nat) list"

text \<open>\<^verbatim>\<open>ch = *format++\<close>\<close>

definition next_ch :: "ctl \<Rightarrow> ctl" where
  "next_ch c = (case c_format c of [] \<Rightarrow> c\<lparr>c_ch := CHR 0x00\<rparr>
     | x # xs \<Rightarrow> c\<lparr>c_ch := x, c_format := xs\<rparr>)"

definition is_digit :: "char \<Rightarrow> bool" where
  "is_digit ch \<longleftrightarrow> (48::nat) \<le> of_char ch \<and> of_char ch \<le> (57::nat)"

definition chartoint :: "char \<Rightarrow> int" where
  "chartoint ch = of_char ch - 48"

definition s_default :: "ctl \<Rightarrow> action \<times> ctl" where
  "s_default c = (if c_ch c = CHR ''%'' then (Nothing, next_ch (c\<lparr>c_state := PRINT_S_FLAGS\<rparr>))
                  else (Outchar (c_ch c), next_ch c))"

definition add_flag :: "u32 \<Rightarrow> ctl \<Rightarrow> ctl" where
  "add_flag f c = c\<lparr>c_flags := c_flags c OR f\<rparr>"

definition s_flags :: "ctl \<Rightarrow> ctl" where
  "s_flags c =
    (if c_ch c = CHR ''-'' then next_ch (add_flag PRINT_F_MINUS c)
     else if c_ch c = CHR ''+'' then next_ch (add_flag PRINT_F_PLUS c)
     else if c_ch c = CHR '' '' then next_ch (add_flag PRINT_F_SPACE c)
     else if c_ch c = CHR ''#'' then next_ch (add_flag PRINT_F_NUM c)
     else if c_ch c = CHR ''0'' then next_ch (add_flag PRINT_F_ZERO c)
     else if c_ch c = CHR 0x27 then next_ch (add_flag PRINT_F_QUOTE c)
     else c\<lparr>c_state := PRINT_S_WIDTH\<rparr>)"

definition va_int :: "ctl \<Rightarrow> (u32 \<times> ctl) option" where
  "va_int c = (case c_args c of VInt v # as \<Rightarrow> Some (v, c\<lparr>c_args := as\<rparr>) | _ \<Rightarrow> None)"

definition va_str :: "ctl \<Rightarrow> (string option \<times> ctl) option" where
  "va_str c = (case c_args c of VStr v # as \<Rightarrow> Some (v, c\<lparr>c_args := as\<rparr>) | _ \<Rightarrow> None)"

definition va_ptr :: "ctl \<Rightarrow> (u32 \<times> ctl) option" where
  "va_ptr c = (case c_args c of VPtr v # as \<Rightarrow> Some (v, c\<lparr>c_args := as\<rparr>) | _ \<Rightarrow> None)"

definition s_width :: "ctl \<Rightarrow> ctl option" where
  "s_width c =
    (if is_digit (c_ch c) then
       (let d = chartoint (c_ch c) in
        if c_width c > (INT_MAX - d) div 10 then Some (c\<lparr>c_overflow := True\<rparr>)
        else Some (next_ch (c\<lparr>c_width := 10 * c_width c + d\<rparr>)))
     else if c_ch c = CHR ''*'' then do {
       (v, c) \<leftarrow> va_int c;
       let c = (if sint v < 0 then (add_flag PRINT_F_MINUS c)\<lparr>c_width := sint (- v)\<rparr>
                else c\<lparr>c_width := sint v\<rparr>);
       Some ((next_ch c)\<lparr>c_state := PRINT_S_DOT\<rparr>) }
     else Some (c\<lparr>c_state := PRINT_S_DOT\<rparr>))"

definition s_dot :: "ctl \<Rightarrow> ctl" where
  "s_dot c = (if c_ch c = CHR ''.'' then next_ch (c\<lparr>c_state := PRINT_S_PRECISION\<rparr>)
              else c\<lparr>c_state := PRINT_S_MOD\<rparr>)"

definition s_precision :: "ctl \<Rightarrow> ctl option" where
  "s_precision c0 =
    (let c = (if c_precision c0 = -1 then c0\<lparr>c_precision := 0\<rparr> else c0) in
     if is_digit (c_ch c) then
       (let d = chartoint (c_ch c) in
        if c_precision c > (INT_MAX - d) div 10 then Some (c\<lparr>c_overflow := True\<rparr>)
        else Some (next_ch (c\<lparr>c_precision := 10 * c_precision c + d\<rparr>)))
     else if c_ch c = CHR ''*'' then do {
       (v, c) \<leftarrow> va_int c;
       let c = c\<lparr>c_precision := (if sint v < 0 then -1 else sint v)\<rparr>;
       Some ((next_ch c)\<lparr>c_state := PRINT_S_MOD\<rparr>) }
     else Some (c\<lparr>c_state := PRINT_S_MOD\<rparr>))"

definition s_mod :: "ctl \<Rightarrow> ctl" where
  "s_mod c = (let c' =
     (if c_ch c = CHR ''h'' then
        (let c1 = next_ch c in
         if c_ch c1 = CHR ''h'' then (next_ch c1)\<lparr>c_cflags := PRINT_C_CHAR\<rparr>
         else c1\<lparr>c_cflags := PRINT_C_SHORT\<rparr>)
      else if c_ch c = CHR ''l'' then
        (let c1 = next_ch c in
         if c_ch c1 = CHR ''l'' then (next_ch c1)\<lparr>c_cflags := PRINT_C_LLONG\<rparr>
         else c1\<lparr>c_cflags := PRINT_C_LONG\<rparr>)
      else if c_ch c = CHR ''j'' then next_ch (c\<lparr>c_cflags := PRINT_C_INTMAX\<rparr>)
      else if c_ch c = CHR ''t'' then next_ch (c\<lparr>c_cflags := PRINT_C_PTRDIFF\<rparr>)
      else if c_ch c = CHR ''z'' then next_ch (c\<lparr>c_cflags := PRINT_C_SIZE\<rparr>)
      else c)
    in c'\<lparr>c_state := PRINT_S_CONV\<rparr>)"

text \<open>Every integer type but \<^verbatim>\<open>char\<close> and \<^verbatim>\<open>short\<close> is 32 bits wide on this target.\<close>

definition signed_value :: "pf_cflag \<Rightarrow> u32 \<Rightarrow> u32" where
  "signed_value cf v = (case cf of PRINT_C_CHAR \<Rightarrow> scast (ucast v :: u8)
     | PRINT_C_SHORT \<Rightarrow> scast (ucast v :: u16) | _ \<Rightarrow> v)"

definition unsigned_value :: "pf_cflag \<Rightarrow> u32 \<Rightarrow> u32" where
  "unsigned_value cf v = (case cf of PRINT_C_CHAR \<Rightarrow> ucast (ucast v :: u8)
     | PRINT_C_SHORT \<Rightarrow> ucast (ucast v :: u16) | _ \<Rightarrow> v)"

definition conv_unsigned :: "int \<Rightarrow> u32 \<Rightarrow> ctl \<Rightarrow> (action \<times> ctl) option" where
  "conv_unsigned base up c = do {
     (v, c) \<leftarrow> va_int (add_flag (up OR PRINT_F_UNSIGNED) (c\<lparr>c_base := base\<rparr>));
     Some (Fmtint (unsigned_value (c_cflags c) v) (c_base c) (c_width c) (c_precision c) (c_flags c), c) }"

definition conv_switch :: "nat \<Rightarrow> ctl \<Rightarrow> (action \<times> ctl) option" where
  "conv_switch len c =
    (if c_ch c = CHR ''d'' \<or> c_ch c = CHR ''i'' then do {
       (v, c) \<leftarrow> va_int c;
       Some (Fmtint (signed_value (c_cflags c) v) 10 (c_width c) (c_precision c) (c_flags c), c) }
     else if c_ch c = CHR ''X'' then conv_unsigned 16 PRINT_F_UP c
     else if c_ch c = CHR ''x'' then conv_unsigned 16 0 c
     else if c_ch c = CHR ''o'' then conv_unsigned (if c_base c = 0 then 8 else c_base c) 0 c
     else if c_ch c = CHR ''u'' then conv_unsigned (if c_base c = 0 then 10 else c_base c) 0 c
     else if c_ch c = CHR ''c'' then do {
       (v, c) \<leftarrow> va_int c;
       Some (Outchar (char_of (unat v)), c) }
     else if c_ch c = CHR ''s'' then do {
       (v, c) \<leftarrow> va_str c;
       Some (Fmtstr v (c_width c) (c_precision c) (c_flags c), c) }
     else if c_ch c = CHR ''p'' then do {
       (v, c) \<leftarrow> va_ptr c;
       if v = 0 then Some (Fmtstr (Some ''(nil)'') (c_width c) (-1) (c_flags c), c)
       else (let c = add_flag (PRINT_F_NUM OR PRINT_F_UNSIGNED) c in
             Some (Fmtint v 16 (c_width c) (c_precision c) (c_flags c), c)) }
     else if c_ch c = CHR ''n'' then do {
       (p, c) \<leftarrow> va_ptr c;
       Some (Nothing, c\<lparr>c_stores := (p, c_cflags c, len) # c_stores c\<rparr>) }
     else if c_ch c = CHR ''%'' then Some (Outchar (c_ch c), c)
     else Some (Nothing, c))"

definition s_conv :: "nat \<Rightarrow> ctl \<Rightarrow> (action \<times> ctl) option" where
  "s_conv len c = do {
     (a, c) \<leftarrow> conv_switch len c;
     Some (a, (next_ch c)\<lparr>c_state := PRINT_S_DEFAULT, c_base := 0, c_cflags := PRINT_C_NONE,
                c_flags := 0, c_width := 0, c_precision := -1\<rparr>) }"

definition print_step :: "nat \<Rightarrow> ctl \<Rightarrow> (action \<times> ctl) option" where
  "print_step len c = (case c_state c of
      PRINT_S_DEFAULT \<Rightarrow> Some (s_default c)
    | PRINT_S_FLAGS \<Rightarrow> Some (Nothing, s_flags c)
    | PRINT_S_WIDTH \<Rightarrow> map_option (Pair Nothing) (s_width c)
    | PRINT_S_DOT \<Rightarrow> Some (Nothing, s_dot c)
    | PRINT_S_PRECISION \<Rightarrow> map_option (Pair Nothing) (s_precision c)
    | PRINT_S_MOD \<Rightarrow> Some (Nothing, s_mod c)
    | PRINT_S_CONV \<Rightarrow> s_conv len c)"

fun perform :: "int \<Rightarrow> action \<Rightarrow> sink \<Rightarrow> sink option" where
  "perform sz Nothing sk = Some sk"
| "perform sz (Outchar ch) sk = outchar sz ch sk"
| "perform sz (Fmtint v b w p f) sk = fmtint sz v b w p f sk"
| "perform sz (Fmtstr v w p f) sk = fmtstr sz v w p f sk"


section \<open>Termination of the interpreter\<close>

definition rem :: "ctl \<Rightarrow> nat" where
  "rem c = (if c_ch c = CHR 0x00 \<or> c_overflow c then 0 else Suc (length (c_format c)))"

definition rank :: "ctl \<Rightarrow> nat" where
  "rank c = (case c_state c of PRINT_S_DEFAULT \<Rightarrow> 7 | PRINT_S_FLAGS \<Rightarrow> 6 | PRINT_S_WIDTH \<Rightarrow> 5
     | PRINT_S_DOT \<Rightarrow> 4 | PRINT_S_PRECISION \<Rightarrow> 3 | PRINT_S_MOD \<Rightarrow> 2 | PRINT_S_CONV \<Rightarrow> 1)"

lemma next_ch_fields [simp]:
  "c_state (next_ch c) = c_state c" "c_args (next_ch c) = c_args c"
  "c_overflow (next_ch c) = c_overflow c" "c_flags (next_ch c) = c_flags c"
  "c_width (next_ch c) = c_width c" "c_precision (next_ch c) = c_precision c"
  "c_cflags (next_ch c) = c_cflags c" "c_base (next_ch c) = c_base c"
  "c_stores (next_ch c) = c_stores c"
  by (auto simp: next_ch_def split: list.splits)

lemma rem_next_ch: "c_ch c \<noteq> CHR 0x00 \<Longrightarrow> \<not> c_overflow c \<Longrightarrow> rem (next_ch c) < rem c"
  by (auto simp: rem_def next_ch_def split: list.splits)

lemma rem_upd [simp]:
  "rem (c\<lparr>c_state := x1\<rparr>) = rem c" "rem (c\<lparr>c_args := x2\<rparr>) = rem c"
  "rem (c\<lparr>c_flags := x3\<rparr>) = rem c" "rem (c\<lparr>c_width := x4\<rparr>) = rem c"
  "rem (c\<lparr>c_precision := x5\<rparr>) = rem c" "rem (c\<lparr>c_cflags := x6\<rparr>) = rem c"
  "rem (c\<lparr>c_base := x7\<rparr>) = rem c" "rem (c\<lparr>c_stores := x8\<rparr>) = rem c"
  "rem (c\<lparr>c_overflow := True\<rparr>) = 0" "rem (add_flag f c) = rem c"
  by (simp_all add: rem_def add_flag_def)

lemma add_flag_fields [simp]:
  "c_state (add_flag f c) = c_state c" "c_ch (add_flag f c) = c_ch c"
  "c_format (add_flag f c) = c_format c" "c_overflow (add_flag f c) = c_overflow c"
  "c_args (add_flag f c) = c_args c" "c_width (add_flag f c) = c_width c"
  "c_precision (add_flag f c) = c_precision c" "c_cflags (add_flag f c) = c_cflags c"
  "c_base (add_flag f c) = c_base c" "c_stores (add_flag f c) = c_stores c"
  "c_flags (add_flag f c) = c_flags c OR f"
  by (simp_all add: add_flag_def)

lemma va_fields:
  "va_int c = Some (v, c') \<Longrightarrow> c_ch c' = c_ch c \<and> c_format c' = c_format c \<and> c_overflow c' = c_overflow c \<and> rem c' = rem c"
  "va_str c = Some (w, c') \<Longrightarrow> c_ch c' = c_ch c \<and> c_format c' = c_format c \<and> c_overflow c' = c_overflow c \<and> rem c' = rem c"
  "va_ptr c = Some (v, c') \<Longrightarrow> c_ch c' = c_ch c \<and> c_format c' = c_format c \<and> c_overflow c' = c_overflow c \<and> rem c' = rem c"
  by (auto simp: va_int_def va_str_def va_ptr_def split: list.splits varg.splits)

lemma rem_next_upd [simp]:
  "rem (next_ch (c\<lparr>c_state := x1\<rparr>)) = rem (next_ch c)"
  "rem (next_ch (c\<lparr>c_width := x4\<rparr>)) = rem (next_ch c)"
  "rem (next_ch (c\<lparr>c_precision := x5\<rparr>)) = rem (next_ch c)"
  "rem (next_ch (c\<lparr>c_cflags := x6\<rparr>)) = rem (next_ch c)"
  "rem (next_ch (add_flag f c)) = rem (next_ch c)"
  by (auto simp: rem_def next_ch_def split: list.splits)

definition progress :: "ctl \<Rightarrow> ctl \<Rightarrow> bool" where
  "progress c c' \<longleftrightarrow> rem c' < rem c \<or> rem c' = rem c \<and> rank c' < rank c"

lemma progress_rem: "rem c' < rem c \<Longrightarrow> progress c c'"
  by (simp add: progress_def)

lemma rem_pos: "c_ch c \<noteq> CHR 0x00 \<Longrightarrow> \<not> c_overflow c \<Longrightarrow> 0 < rem c"
  by (simp add: rem_def)

lemma s_default_progress:
  assumes "c_ch c \<noteq> CHR 0x00" "\<not> c_overflow c"
  shows "progress c (snd (s_default c))"
  using rem_next_ch [OF assms] by (auto simp: s_default_def progress_rem)

lemma s_flags_progress:
  assumes "c_ch c \<noteq> CHR 0x00" "\<not> c_overflow c" "c_state c = PRINT_S_FLAGS"
  shows "progress c (s_flags c)"
  using rem_next_ch [OF assms(1,2)] assms(3)
  by (simp add: s_flags_def progress_rem) (simp add: progress_def rank_def)

lemma s_width_progress:
  assumes "c_ch c \<noteq> CHR 0x00" "\<not> c_overflow c" "c_state c = PRINT_S_WIDTH" "s_width c = Some c'"
  shows "progress c c'"
proof -
  have "rem (next_ch d) < rem c" if "va_int c = Some (v, d)" for v d
    using rem_next_ch [of d] va_fields(1) [OF that] assms by simp
  then show ?thesis
    using rem_next_ch [OF assms(1,2)] rem_pos [OF assms(1,2)] assms(3,4)
    by (auto simp: s_width_def progress_rem Let_def progress_def rank_def split: if_splits)
qed

lemma s_precision_progress:
  assumes "c_ch c \<noteq> CHR 0x00" "\<not> c_overflow c" "c_state c = PRINT_S_PRECISION"
    and "s_precision c = Some c'"
  shows "progress c c'"
proof -
  have "rem (next_ch d) < rem c" if "va_int (c\<lparr>c_precision := x\<rparr>) = Some (v, d)" for v d x
    using rem_next_ch [of d] va_fields(1) [OF that] assms by simp
  moreover have "rem (next_ch d) < rem c" if "va_int c = Some (v, d)" for v d
    using rem_next_ch [of d] va_fields(1) [OF that] assms by simp
  ultimately show ?thesis
    using rem_next_ch [OF assms(1,2)] rem_pos [OF assms(1,2)] assms(3,4)
    by (auto simp: s_precision_def progress_rem Let_def progress_def rank_def split: if_splits)
qed

lemma s_dot_progress:
  assumes "c_ch c \<noteq> CHR 0x00" "\<not> c_overflow c" "c_state c = PRINT_S_DOT"
  shows "progress c (s_dot c)"
  using rem_next_ch [OF assms(1,2)] assms(3)
  by (simp add: s_dot_def progress_rem) (simp add: progress_def rank_def)

lemma s_mod_progress:
  assumes "c_ch c \<noteq> CHR 0x00" "\<not> c_overflow c" "c_state c = PRINT_S_MOD"
  shows "progress c (s_mod c)"
proof -
  have "rem (next_ch (next_ch c)) < rem c" if "c_ch (next_ch c) \<noteq> CHR 0x00"
    using rem_next_ch [OF assms(1,2)] rem_next_ch [of "next_ch c"] that assms(2) by simp
  then show ?thesis
    using rem_next_ch [OF assms(1,2)] assms(3)
    by (auto simp: s_mod_def Let_def progress_rem) (simp add: progress_def rank_def)
qed

lemma conv_switch_fields:
  "conv_switch len c = Some (a, c') \<Longrightarrow>
     c_ch c' = c_ch c \<and> c_overflow c' = c_overflow c \<and> rem c' = rem c"
  by (auto simp: conv_switch_def conv_unsigned_def Let_def dest!: va_fields split: if_splits)

lemma s_conv_progress:
  assumes "c_ch c \<noteq> CHR 0x00" "\<not> c_overflow c" "s_conv len c = Some (a, c')"
  shows "progress c c'"
proof -
  from assms(3) obtain d where d: "conv_switch len c = Some (a, d)" and "rem c' = rem (next_ch d)"
    by (auto simp: s_conv_def)
  with rem_next_ch [of d] conv_switch_fields [OF d] assms(1,2) show ?thesis
    by (simp add: progress_rem)
qed

lemma print_step_progress:
  assumes "c_ch c \<noteq> CHR 0x00" "\<not> c_overflow c" "print_step len c = Some (a, c')"
  shows "progress c c'"
  using assms s_default_progress [of c] s_flags_progress [of c] s_width_progress [of c]
    s_dot_progress [of c] s_precision_progress [of c] s_mod_progress [of c] s_conv_progress [of c]
  by (auto simp: print_step_def split: pf_state.splits)

section \<open>vsnprintf\<close>

function vsn_loop :: "int \<Rightarrow> ctl \<Rightarrow> sink \<Rightarrow> (ctl \<times> sink) option" where
  "vsn_loop sz c sk =
     (if c_ch c = CHR 0x00 \<or> c_overflow c then Some (c, sk)
      else (case print_step (snd sk) c of None \<Rightarrow> None
        | Some (a, c') \<Rightarrow> (case perform sz a sk of None \<Rightarrow> None
           | Some sk' \<Rightarrow> vsn_loop sz c' sk')))"
  by pat_completeness auto
termination
  by (relation "measures [\<lambda>(sz, c, sk). rem c, \<lambda>(sz, c, sk). rank c]")
    (auto dest!: print_step_progress simp: progress_def)

declare vsn_loop.simps [simp del]

definition ctl_init :: "string \<Rightarrow> varg list \<Rightarrow> ctl" where
  "ctl_init format args = next_ch
     \<lparr>c_state = PRINT_S_DEFAULT, c_ch = CHR 0x00, c_format = format, c_args = args, c_base = 0,
      c_cflags = PRINT_C_NONE, c_flags = 0, c_width = 0, c_precision = -1, c_overflow = False,
      c_stores = []\<rparr>"

definition put_nul :: "int \<Rightarrow> sink \<Rightarrow> string option" where
  "put_nul sz sk = (case sk of (str, len) \<Rightarrow>
     if int len < sz then (if len < length str then Some (str[len := CHR 0x00]) else None)
     else if sz > 0 then
       (if nat (sz - 1) < length str then Some (str[nat (sz - 1) := CHR 0x00]) else None)
     else Some str)"

definition print_result :: "bool \<Rightarrow> nat \<Rightarrow> int" where
  "print_result overflow len = (if overflow \<or> int len \<ge> INT_MAX then -1 else int len)"

text \<open>
  The result is the buffer, the value returned and the stores made by \<^verbatim>\<open>%n\<close> conversions; a null
  \<open>str\<close> is \<^const>\<open>None\<close>.
\<close>

definition vsnprintf ::
  "string option \<Rightarrow> int \<Rightarrow> string \<Rightarrow> varg list \<Rightarrow> (string \<times> int \<times> (u32 \<times> pf_cflag \<times> nat) list) option"
where
  "vsnprintf str sz format args = do {
     let (buf, sz) = (case str of None \<Rightarrow> ([], 0) | Some b \<Rightarrow> (b, sz));
     (c, sk) \<leftarrow> vsn_loop sz (ctl_init format args) (buf, 0);
     buf \<leftarrow> put_nul sz sk;
     Some (buf, print_result (c_overflow c) (snd sk), c_stores c) }"

definition vsprintf :: "string \<Rightarrow> string \<Rightarrow> varg list \<Rightarrow> (string \<times> int \<times> (u32 \<times> pf_cflag \<times> nat) list) option" where
  "vsprintf buf fmt args = vsnprintf (Some buf) INT_MAX fmt args"

definition sprintf :: "string \<Rightarrow> string \<Rightarrow> varg list \<Rightarrow> (string \<times> int) option" where
  "sprintf buffer fmt args = do { (b, i, _) \<leftarrow> vsprintf buffer fmt args; Some (b, i) }"

section \<open>Reference: the text a format produces\<close>

text \<open>
  The specification of the output routines: the list of characters each of them produces. The
  format then denotes the concatenation of what its actions produce, with no buffer in sight.
\<close>

fun digits_out :: "string \<Rightarrow> int \<Rightarrow> nat \<Rightarrow> string" where
  "digits_out iconvert separators 0 = []"
| "digits_out iconvert separators (Suc pos) =
     iconvert ! pos # (if separators > 0 \<and> pos > 0 \<and> pos mod 3 = 0 then [CHR '',''] else [])
       @ digits_out iconvert separators pos"

definition fmtint_out :: "u32 \<Rightarrow> int \<Rightarrow> int \<Rightarrow> int \<Rightarrow> u32 \<Rightarrow> string" where
  "fmtint_out value base width precision flags =
    (let p = fmtint_prepare value base width precision flags in
     replicate (nat (fp_spadlen p)) CHR '' ''
     @ (case fp_sign p of None \<Rightarrow> [] | Some c \<Rightarrow> [c])
     @ (case fp_hexprefix p of None \<Rightarrow> [] | Some c \<Rightarrow> [CHR ''0'', c])
     @ replicate (nat (fp_zpadlen p)) CHR ''0''
     @ digits_out (fp_iconvert p) (fp_separators p) (length (fp_iconvert p))
     @ replicate (nat (- fp_spadlen p)) CHR '' '')"

definition fmtstr_text :: "string option \<Rightarrow> int \<Rightarrow> string" where
  "fmtstr_text value precision =
    (let v = takeWhile (\<lambda>c. c \<noteq> CHR 0x00) (case value of None \<Rightarrow> ''(null)'' | Some v \<Rightarrow> v)
     in if precision = -1 then v else take (nat precision) v)"

definition fmtstr_out :: "string option \<Rightarrow> int \<Rightarrow> int \<Rightarrow> u32 \<Rightarrow> string" where
  "fmtstr_out value width precision flags =
    (let v = fmtstr_text value precision;
         pad = replicate (nat (width - int (length v))) CHR '' ''
     in if hasf flags PRINT_F_MINUS then v @ pad else pad @ v)"

fun action_out :: "action \<Rightarrow> string" where
  "action_out Nothing = []"
| "action_out (Outchar ch) = [ch]"
| "action_out (Fmtint v b w p f) = fmtint_out v b w p f"
| "action_out (Fmtstr v w p f) = fmtstr_out v w p f"

function fmt_loop :: "ctl \<Rightarrow> string \<Rightarrow> (ctl \<times> string) option" where
  "fmt_loop c out =
     (if c_ch c = CHR 0x00 \<or> c_overflow c then Some (c, out)
      else (case print_step (length out) c of None \<Rightarrow> None
        | Some (a, c') \<Rightarrow> fmt_loop c' (out @ action_out a)))"
  by pat_completeness auto
termination
  by (relation "measures [\<lambda>(c, out). rem c, \<lambda>(c, out). rank c]")
    (auto dest!: print_step_progress simp: progress_def)

declare fmt_loop.simps [simp del]

definition formatted :: "string \<Rightarrow> varg list \<Rightarrow> (ctl \<times> string) option" where
  "formatted format args = fmt_loop (ctl_init format args) []"

section \<open>The output routines implement the reference\<close>

fun outs :: "int \<Rightarrow> string \<Rightarrow> sink \<Rightarrow> sink option" where
  "outs sz [] sk = Some sk"
| "outs sz (c # cs) sk = do { sk \<leftarrow> outchar sz c sk; outs sz cs sk }"

lemma outs_append: "outs sz (xs @ ys) sk = do { sk \<leftarrow> outs sz xs sk; outs sz ys sk }"
  by (induction xs arbitrary: sk) (auto intro!: Option.bind_cong)

lemma outs_Nil_fun [simp]: "outs sz [] = Some"
  by (rule ext) simp

lemma out_rep_outs: "out_rep sz ch n sk = outs sz (replicate n ch) sk"
  by (induction n arbitrary: sk) auto

lemma out_digits_outs: "out_digits sz ic seps n sk = outs sz (digits_out ic seps n) sk"
  by (induction n arbitrary: sk) (auto simp: printsep_def intro!: Option.bind_cong)

lemma fmtint_outs: "fmtint sz v b w p f sk = outs sz (fmtint_out v b w p f) sk"
  by (simp add: fmtint_def fmtint_out_def Let_def out_rep_outs out_digits_outs outs_append
      Option.bind_assoc split: option.splits)

lemma fmtstr_len_eq:
  "fmtstr_len v np p n = n + int (length (let u = takeWhile (\<lambda>c. c \<noteq> CHR 0x00) v
     in if np then u else take (nat (p - n)) u))"
  by (induction v np p n rule: fmtstr_len.induct)
    (auto simp: Let_def nat_diff_distrib' take_Cons' algebra_simps nat_le_iff)

lemma fmtstr_body_outs:
  "fmtstr_body sz v np p sk = outs sz (let u = takeWhile (\<lambda>c. c \<noteq> CHR 0x00) v
     in if np then u else take (nat p) u) sk"
  by (induction v arbitrary: p sk) (auto simp: Let_def take_Cons' nat_diff_distrib')

lemma fmtstr_outs: "fmtstr sz v w p f sk = outs sz (fmtstr_out v w p f) sk"
  by (cases "p = -1"; cases "hasf f PRINT_F_MINUS")
    (simp_all add: fmtstr_def fmtstr_out_def fmtstr_text_def Let_def out_rep_outs fmtstr_len_eq
      fmtstr_body_outs outs_append max_def split: option.split)

lemma perform_outs: "perform sz a sk = outs sz (action_out a) sk"
  by (cases a) (simp_all add: fmtint_outs fmtstr_outs)

text \<open>The sink that holds the text \<open>out\<close>, in a buffer that first held \<open>buf\<close>.\<close>

definition stored :: "int \<Rightarrow> string \<Rightarrow> string \<Rightarrow> sink" where
  "stored sz buf out =
    (let n = min (length out) (nat (sz - 1)) in (take n out @ drop n buf, length out))"

lemma outchar_stored:
  assumes "nat (sz - 1) \<le> length buf \<or> length out < length buf"
  shows "outchar sz ch (stored sz buf out) = Some (stored sz buf (out @ [ch]))"
proof (cases "int (length out) + 1 < sz")
  case True
  then have "length out < length buf" using assms by linarith
  moreover from this have "drop (length out) buf = buf ! length out # drop (Suc (length out)) buf"
    by (rule Cons_nth_drop_Suc [symmetric])
  moreover have "min (length out) (nat (sz - 1)) = length out"
    "min (Suc (length out)) (nat (sz - 1)) = Suc (length out)" using True by auto
  ultimately show ?thesis
    using True by (simp add: stored_def Let_def list_update_append del: drop_Suc)
next
  case False
  then have "min (length out) (nat (sz - 1)) = nat (sz - 1)"
    "min (Suc (length out)) (nat (sz - 1)) = nat (sz - 1)" by auto
  with False show ?thesis by (simp add: stored_def Let_def)
qed

lemma outs_stored:
  "nat (sz - 1) \<le> length buf \<or> length (out @ cs) \<le> length buf \<Longrightarrow>
     outs sz cs (stored sz buf out) = Some (stored sz buf (out @ cs))"
proof (induction cs arbitrary: out)
  case (Cons ch cs)
  have "outchar sz ch (stored sz buf out) = Some (stored sz buf (out @ [ch]))"
    by (rule outchar_stored) (use Cons.prems in auto)
  moreover have "outs sz cs (stored sz buf (out @ [ch])) = Some (stored sz buf ((out @ [ch]) @ cs))"
    by (rule Cons.IH) (use Cons.prems in auto)
  ultimately show ?case by simp
qed simp

lemma vsn_loop_refines:
  assumes "nat (sz - 1) \<le> length buf"
  shows "vsn_loop sz c (stored sz buf out) =
    map_option (\<lambda>(c', out'). (c', stored sz buf out')) (fmt_loop c out)"
proof (induction c out rule: fmt_loop.induct)
  case (1 c out)
  have len: "snd (stored sz buf out) = length out" by (simp add: stored_def Let_def)
  show ?case
  proof (cases "c_ch c = CHR 0x00 \<or> c_overflow c")
    case False
    with 1 show ?thesis
      by (auto simp: vsn_loop.simps [of sz c] fmt_loop.simps [of c] len perform_outs
        outs_stored assms split: option.splits)
  qed (auto simp: vsn_loop.simps [of sz c] fmt_loop.simps [of c])
qed

lemma fmt_loop_extends: "fmt_loop c out = Some (c', out') \<Longrightarrow> length out \<le> length out'"
proof (induction c out rule: fmt_loop.induct)
  case (1 c out)
  then show ?case
    by (fastforce simp: fmt_loop.simps [of c] split: if_splits option.splits)
qed

lemma vsn_loop_fits:
  "fmt_loop c out = Some (c', out') \<Longrightarrow> length out' \<le> length buf \<Longrightarrow>
     vsn_loop sz c (stored sz buf out) = Some (c', stored sz buf out')"
proof (induction c out rule: fmt_loop.induct)
  case (1 c out)
  have len: "snd (stored sz buf out) = length out" by (simp add: stored_def Let_def)
  show ?case
  proof (cases "c_ch c = CHR 0x00 \<or> c_overflow c")
    case False
    with 1 obtain a c1 where s: "print_step (length out) c = Some (a, c1)"
      and r: "fmt_loop c1 (out @ action_out a) = Some (c', out')"
      by (auto simp: fmt_loop.simps [of c] split: option.splits)
    from fmt_loop_extends [OF r] 1(3) have "length (out @ action_out a) \<le> length buf" by simp
    with s r 1 False show ?thesis
      by (simp add: vsn_loop.simps [of sz c] len perform_outs outs_stored)
  next
    case True
    with 1(2) have "c' = c" "out' = out" by (auto simp: fmt_loop.simps [of c])
    with True show ?thesis by (simp add: vsn_loop.simps [of sz c])
  qed
qed

lemma put_nul_stored:
  assumes "0 < sz" "nat sz \<le> length buf" "n = min (length out) (nat (sz - 1))"
  shows "put_nul sz (stored sz buf out) = Some (take n out @ CHR 0x00 # drop (Suc n) buf)"
proof -
  have n: "n < length buf" "length (take n out) = n" using assms by auto
  have "(if int (length out) < sz then length out else nat (sz - 1)) = n"
    using assms by auto
  then have "put_nul sz (stored sz buf out) = Some ((take n out @ drop n buf)[n := CHR 0x00])"
    using assms n by (auto simp: put_nul_def stored_def Let_def min_def split: if_splits)
  moreover from n have "drop n buf = buf ! n # drop (Suc n) buf"
    by (simp only: Cons_nth_drop_Suc [symmetric])
  ultimately show ?thesis
    using n by (simp add: list_update_append del: drop_Suc)
qed

text \<open>The buffer holds the longest prefix that fits.\<close>

lemma vsnprintf_eq:
  assumes "0 < sz" "nat sz \<le> length buf"
  shows "vsnprintf (Some buf) sz format args =
    map_option (\<lambda>(c, out). let n = min (length out) (nat (sz - 1)) in
        (take n out @ CHR 0x00 # drop (Suc n) buf, print_result (c_overflow c) (length out), c_stores c))
      (formatted format args)"
proof -
  have "vsn_loop sz (ctl_init format args) (buf, 0) =
      map_option (\<lambda>(c', out'). (c', stored sz buf out')) (formatted format args)"
    using vsn_loop_refines [of sz buf "ctl_init format args" "[]"] assms
    by (simp add: formatted_def stored_def)
  then show ?thesis
    using put_nul_stored [OF assms]
    by (cases "formatted format args") (auto simp: vsnprintf_def Let_def stored_def)
qed


lemmas fmt_eval = formatted_def ctl_init_def next_ch_def fmt_loop.simps print_step_def
  s_default_def s_flags_def s_width_def s_dot_def s_precision_def s_mod_def s_conv_def
  conv_switch_def conv_unsigned_def add_flag_def va_int_def va_str_def va_ptr_def is_digit_def
  chartoint_def signed_value_def unsigned_value_def Let_def INT_MAX_def


section \<open>Integers read back\<close>

definition digit_val :: "char \<Rightarrow> nat" where
  "digit_val c = (let n = of_char c in if n < 58 then n - 48 else if n < 97 then n - 55 else n - 87)"

text \<open>Value of a numeral written least significant digit first.\<close>

fun num_value :: "nat \<Rightarrow> string \<Rightarrow> nat" where
  "num_value b [] = 0"
| "num_value b (c # cs) = digit_val c + b * num_value b cs"

lemma all_less_16: "(\<forall>d < 16. P (d::nat)) \<longleftrightarrow> P 0 \<and> P 1 \<and> P 2 \<and> P 3 \<and> P 4 \<and> P 5 \<and> P 6 \<and> P 7 \<and>
    P 8 \<and> P 9 \<and> P 10 \<and> P 11 \<and> P 12 \<and> P 13 \<and> P 14 \<and> P 15"
  by (simp add: numeral_eq_Suc All_less_Suc conj_ac)

lemma digit_val_digit_char: "d < 16 \<Longrightarrow> digit_val (digit_char caps d) = d"
proof -
  have "\<forall>d < 16. digit_val (digit_char caps d) = d"
    unfolding all_less_16 by (cases caps) (simp_all add: digit_val_def digit_char_def)
  then show "d < 16 \<Longrightarrow> digit_val (digit_char caps d) = d" by blast
qed

lemma convert_value:
  assumes "2 \<le> b" "b \<le> 16" "unat v < b ^ k" "0 < k" "k \<le> n - pos"
  shows "num_value b (convert v n (of_nat b) caps pos) = unat v \<and>
    length (convert v n (of_nat b) caps pos) \<le> k"
  using assms
proof (induction v n "of_nat b :: u32" caps pos arbitrary: k rule: convert.induct)
  case (1 v n caps pos)
  have ub: "unat (of_nat b :: u32) = b" using 1(2,3) by (simp add: unat_of_nat)
  have dm: "unat (v mod of_nat b) = unat v mod b" "unat (v div of_nat b) = unat v div b"
    by (simp_all add: unat_mod unat_div ub)
  have dv: "digit_val (digit_char caps (unat v mod b)) = unat v mod b"
    using 1(2,3) by (intro digit_val_digit_char) (simp add: less_le_trans [OF mod_less_divisor])
  obtain j where k: "k = Suc j" using 1(5) by (cases k) auto
  have q: "unat v div b < b ^ j"
    using 1(4) by (intro less_mult_imp_div_less) (simp add: k mult.commute)
  show ?case
  proof (cases "v div of_nat b = 0")
    case True
    with dm(2) have "unat v div b = 0" by simp
    with 1(2) have "unat v mod b = unat v" by (auto simp: div_eq_0_iff)
    with True dv show ?thesis
      by (simp add: convert.simps [of v] Let_def dm k)
  next
    case False
    with dm(2) have "unat v div b \<noteq> 0" by (metis unat_eq_zero)
    with q have "0 < j" by (cases j) auto
    moreover from this 1(6) have "pos + 1 < n" "j \<le> n - (pos + 1)" by (auto simp: k)
    moreover from q dm have "unat (v div of_nat b) < b ^ j" by simp
    ultimately show ?thesis
      using 1(1) [OF refl, of j] 1(2,3) False
      by (simp add: convert.simps [of v] Let_def dm dv k)
  qed
qed

text \<open>
  C40: \<^verbatim>\<open>convert\<close> is a correct radix conversion for every base from 2 to 16 and every 32-bit value:
  the digits it leaves in the array denote the value, and there are at most 32 of them, so the
  43-byte array of \<^verbatim>\<open>fmtint\<close> is never filled.
\<close>

theorem convert_roundtrip:
  assumes "2 \<le> b" "b \<le> 16"
  shows "num_value b (convert v MAX_CONVERT_LENGTH (of_nat b) caps 0) = unat v \<and>
    length (convert v MAX_CONVERT_LENGTH (of_nat b) caps 0) \<le> 32"
proof -
  have "unat v < 2 ^ 32" using unsigned_less [of v] by simp
  also have "\<dots> \<le> b ^ 32" using assms(1) by (rule power_mono) simp
  finally show ?thesis
    using convert_value [OF assms, of v 32 43 0 caps] by (simp add: MAX_CONVERT_LENGTH_def)
qed

theorem convert_roundtrip_witness:
  "num_value 16 (convert 0xDEB6 MAX_CONVERT_LENGTH (of_nat 16) True 0) = 0xDEB6 \<and>
   convert 0xDEB6 MAX_CONVERT_LENGTH (of_nat 16) True 0 = ''6BED''"
  using convert_roundtrip [of 16 "0xDEB6" True]
  by (simp add: convert.simps MAX_CONVERT_LENGTH_def digit_char_def)

section \<open>The formats the program uses\<close>

lemma digits_out_0: "digits_out ic 0 n = rev (take n ic)" if "n \<le> length ic"
  using that by (induction n) (auto simp: take_Suc_conv_app_nth)

lemma num_value_append: "num_value b (xs @ ys) = num_value b xs + b ^ length xs * num_value b ys"
  by (induction xs) (auto simp: algebra_simps)

lemma num_value_zeros: "num_value b (replicate n CHR ''0'') = 0"
  by (induction n) (auto simp: digit_val_def)

text \<open>
  \<^verbatim>\<open>%08x\<close>, the format of every register and address the program prints, gives exactly eight
  characters, and reading them back as a hexadecimal numeral gives the argument.
\<close>

theorem hex8_roundtrip:
  "\<exists>c out. formatted ''%08x'' [VInt v] = Some (c, out) \<and> length out = 8 \<and>
     num_value 16 (rev out) = unat v"
proof -
  let ?f = "PRINT_F_ZERO OR PRINT_F_UNSIGNED"
  let ?ds = "convert v MAX_CONVERT_LENGTH 16 False 0"
  have "unat v < 16 ^ 8" using unsigned_less [of v] by simp
  then have ds: "num_value 16 ?ds = unat v" "length ?ds \<le> 8"
    using convert_value [of 16 v 8 43 0 False] by (simp_all add: MAX_CONVERT_LENGTH_def)
  have "\<exists>c. formatted ''%08x'' [VInt v] = Some (c, fmtint_out v 16 8 (-1) ?f)"
    by (simp add: fmt_eval)
  moreover have "fmtint_out v 16 8 (-1) ?f = replicate (8 - length ?ds) CHR ''0'' @ rev ?ds"
    using ds(2)
    by (simp add: fmtint_out_def fmtint_prepare_def print_flags Let_def digits_out_0 nat_diff_distrib)
  ultimately show ?thesis
    using ds by (auto simp: num_value_append num_value_zeros)
qed

text \<open>
  \<^verbatim>\<open>sprintf\<close> has no bound of its own: as long as the formatted text and its terminator fit the
  caller's buffer, the buffer holds them and the rest of it is unchanged. The dump's file name
  (\<^verbatim>\<open>"%s.RAW"\<close> into 64 bytes) is such a use for every name of fewer than 60 characters.
\<close>

theorem sprintf_fits:
  assumes "formatted fmt args = Some (c, out)" "length out < length buf"
    and "int (length out) < INT_MAX - 1" "\<not> c_overflow c"
  shows "sprintf buf fmt args = Some (out @ CHR 0x00 # drop (Suc (length out)) buf, int (length out))"
proof -
  have "vsn_loop INT_MAX (ctl_init fmt args) (buf, 0) = Some (c, stored INT_MAX buf out)"
    using assms(1,2) vsn_loop_fits [of "ctl_init fmt args" "[]" c out buf INT_MAX]
    by (simp add: formatted_def stored_def)
  moreover have "stored INT_MAX buf out = (out @ drop (length out) buf, length out)"
  proof -
    have "min (length out) (nat (INT_MAX - 1)) = length out" using assms(3) by linarith
    then show ?thesis by (simp add: stored_def Let_def)
  qed
  moreover have "drop (length out) buf = buf ! length out # drop (Suc (length out)) buf"
    using assms(2) by (simp only: Cons_nth_drop_Suc [symmetric])
  ultimately show ?thesis
    using assms by (simp add: sprintf_def vsprintf_def vsnprintf_def put_nul_def print_result_def
      list_update_append del: drop_Suc)
qed

theorem sprintf_fits_witness:
  "sprintf (replicate 64 CHR 0x00) ''%s.RAW'' [VStr (Some ''SLCCMPT'')] =
     Some (''SLCCMPT.RAW'' @ CHR 0x00 # replicate 52 CHR 0x00, 11)"
proof -
  have "\<exists>c. formatted ''%s.RAW'' [VStr (Some ''SLCCMPT'')] = Some (c, ''SLCCMPT.RAW'') \<and> \<not> c_overflow c"
    by (simp add: fmt_eval fmtstr_out_def fmtstr_text_def)
  then obtain c where "formatted ''%s.RAW'' [VStr (Some ''SLCCMPT'')] = Some (c, ''SLCCMPT.RAW'')"
    and "\<not> c_overflow c" by blast
  from sprintf_fits [OF this(1), of "replicate 64 CHR 0x00"] this(2) show ?thesis
    by (simp add: INT_MAX_def)
qed

end
