(* ===== verification/Machine.thy ===== *)
theory Machine
  imports Prelude Printf
begin

text \<open>
  The machine the firmware runs on, as the code sees it: memory-mapped registers accessed through
  the inline functions of \<^verbatim>\<open>common/utils.h\<close>, the CP15 registers and cache operations of
  \<^verbatim>\<open>system/memory.h\<close> and \<^verbatim>\<open>system/memory_asm.S\<close>, and the interrupt mask handled by
  \<^verbatim>\<open>system/irq_asm.S\<close>.

  The hardware is not part of the repository. Every access is recorded in a log, and the value a
  register read returns is given by an environment, a function of the whole history so far and of
  the address: this covers every deterministic device, and theorems that hold for every environment
  hold for the real one. Code that can wait for ever returns an \<^typ>\<open>'a option\<close>, with
  \<^const>\<open>None\<close> for not returning.

  Two leaf effects are recorded as a single event where other components call them: a delay
  (\<^verbatim>\<open>udelay\<close>, whose own polling loop is modelled in theory \<^verbatim>\<open>Timer\<close>) and a console message
  (\<^verbatim>\<open>gecko_printf\<close>, whose transport is modelled in theory \<^verbatim>\<open>Gecko\<close>).
\<close>

section \<open>Events, environment and state\<close>

datatype cp15 = Dc_inval_entries u32 u32 | Dc_flush_entries u32 u32 | Dc_flush | Dc_inval
  | Ic_inval | Drain_write_buffer | Tlb_inval | Wait_for_interrupt

datatype io = Rd32 u32 u32 | Wr32 u32 u32 | Rd16 u32 u16 | Wr16 u32 u16 | Rd8 u32 u8 | Wr8 u32 u8
  | Cp15 cp15 | Udelay u32 | Msg string "varg list"

type_synonym env = "io list \<Rightarrow> u32 \<Rightarrow> u32"

text \<open>The log is kept newest event first.\<close>

record mach =
  io_log :: "io list"
  cpsr :: u32
  cp_cr :: u32
  cp_ttbr :: u32
  cp_dacr :: u32

definition emit :: "io \<Rightarrow> 'a mach_scheme \<Rightarrow> 'a mach_scheme" where
  "emit e s = s\<lparr>io_log := e # io_log s\<rparr>"

section \<open>Register access (common/utils.h)\<close>

definition read32 :: "env \<Rightarrow> u32 \<Rightarrow> 'a mach_scheme \<Rightarrow> u32 \<times> 'a mach_scheme" where
  "read32 ev a s = (let v = ev (io_log s) a in (v, emit (Rd32 a v) s))"

definition write32 :: "u32 \<Rightarrow> u32 \<Rightarrow> 'a mach_scheme \<Rightarrow> 'a mach_scheme" where
  "write32 a v s = emit (Wr32 a v) s"

definition set32 :: "env \<Rightarrow> u32 \<Rightarrow> u32 \<Rightarrow> 'a mach_scheme \<Rightarrow> 'a mach_scheme" where
  "set32 ev a m s = (let (d, s) = read32 ev a s in write32 a (d OR m) s)"

definition clear32 :: "env \<Rightarrow> u32 \<Rightarrow> u32 \<Rightarrow> 'a mach_scheme \<Rightarrow> 'a mach_scheme" where
  "clear32 ev a m s = (let (d, s) = read32 ev a s in write32 a (d AND NOT m) s)"

definition mask32 :: "env \<Rightarrow> u32 \<Rightarrow> u32 \<Rightarrow> u32 \<Rightarrow> 'a mach_scheme \<Rightarrow> 'a mach_scheme" where
  "mask32 ev a clr v s = (let (d, s) = read32 ev a s in write32 a ((d AND NOT clr) OR v) s)"

definition read16 :: "env \<Rightarrow> u32 \<Rightarrow> 'a mach_scheme \<Rightarrow> u16 \<times> 'a mach_scheme" where
  "read16 ev a s = (let v = ucast (ev (io_log s) a) in (v, emit (Rd16 a v) s))"

definition write16 :: "u32 \<Rightarrow> u16 \<Rightarrow> 'a mach_scheme \<Rightarrow> 'a mach_scheme" where
  "write16 a v s = emit (Wr16 a v) s"

definition read8 :: "env \<Rightarrow> u32 \<Rightarrow> 'a mach_scheme \<Rightarrow> u8 \<times> 'a mach_scheme" where
  "read8 ev a s = (let v = ucast (ev (io_log s) a) in (v, emit (Rd8 a v) s))"

definition write8 :: "u32 \<Rightarrow> u8 \<Rightarrow> 'a mach_scheme \<Rightarrow> 'a mach_scheme" where
  "write8 a v s = emit (Wr8 a v) s"

text \<open>Read-modify-write on half-words and bytes.\<close>

definition set16 :: "env \<Rightarrow> u32 \<Rightarrow> u16 \<Rightarrow> 'a mach_scheme \<Rightarrow> 'a mach_scheme" where
  "set16 ev a m s = (let (d, s) = read16 ev a s in write16 a (d OR m) s)"

definition clear16 :: "env \<Rightarrow> u32 \<Rightarrow> u16 \<Rightarrow> 'a mach_scheme \<Rightarrow> 'a mach_scheme" where
  "clear16 ev a m s = (let (d, s) = read16 ev a s in write16 a (d AND NOT m) s)"

definition mask16 :: "env \<Rightarrow> u32 \<Rightarrow> u16 \<Rightarrow> u16 \<Rightarrow> 'a mach_scheme \<Rightarrow> 'a mach_scheme" where
  "mask16 ev a clr v s = (let (d, s) = read16 ev a s in write16 a ((d AND NOT clr) OR v) s)"

definition set8 :: "env \<Rightarrow> u32 \<Rightarrow> u8 \<Rightarrow> 'a mach_scheme \<Rightarrow> 'a mach_scheme" where
  "set8 ev a m s = (let (d, s) = read8 ev a s in write8 a (d OR m) s)"

definition clear8 :: "env \<Rightarrow> u32 \<Rightarrow> u8 \<Rightarrow> 'a mach_scheme \<Rightarrow> 'a mach_scheme" where
  "clear8 ev a m s = (let (d, s) = read8 ev a s in write8 a (d AND NOT m) s)"

definition mask8 :: "env \<Rightarrow> u32 \<Rightarrow> u8 \<Rightarrow> u8 \<Rightarrow> 'a mach_scheme \<Rightarrow> 'a mach_scheme" where
  "mask8 ev a clr v s = (let (d, s) = read8 ev a s in write8 a ((d AND NOT clr) OR v) s)"

definition get_cpsr :: "'a mach_scheme \<Rightarrow> u32" where
  "get_cpsr s = cpsr s"

definition udelay_ev :: "u32 \<Rightarrow> 'a mach_scheme \<Rightarrow> 'a mach_scheme" where
  "udelay_ev d s = emit (Udelay d) s"

text \<open>A console message; formats are quoted without the line feed that ends them.\<close>

definition gecko_msg :: "string \<Rightarrow> varg list \<Rightarrow> 'a mach_scheme \<Rightarrow> 'a mach_scheme" where
  "gecko_msg fmt args s = emit (Msg fmt args) s"

definition cp15_op :: "cp15 \<Rightarrow> 'a mach_scheme \<Rightarrow> 'a mach_scheme" where
  "cp15_op c s = emit (Cp15 c) s"

section \<open>Interrupt mask (system/irq_asm.S)\<close>

abbreviation (input) "CPSR_IRQDIS \<equiv> 0x80 :: u32"
abbreviation (input) "CPSR_FIQDIS \<equiv> 0x40 :: u32"

definition irq_kill :: "'a mach_scheme \<Rightarrow> u32 \<times> 'a mach_scheme" where
  "irq_kill s = (cpsr s AND (CPSR_IRQDIS OR CPSR_FIQDIS),
                 s\<lparr>cpsr := cpsr s OR (CPSR_IRQDIS OR CPSR_FIQDIS)\<rparr>)"

definition irq_restore :: "u32 \<Rightarrow> 'a mach_scheme \<Rightarrow> 'a mach_scheme" where
  "irq_restore cookie s =
     s\<lparr>cpsr := (cpsr s AND NOT (CPSR_IRQDIS OR CPSR_FIQDIS)) OR cookie\<rparr>"

definition irqs_masked :: "'a mach_scheme \<Rightarrow> bool" where
  "irqs_masked s \<longleftrightarrow> cpsr s AND CPSR_IRQDIS \<noteq> 0"

lemma kill_restore_bits: "((x OR m) AND NOT m) OR (x AND m) = (x :: u32)"
  by (rule bit_word_eqI) (auto simp: bit_simps)

section \<open>Extension of the log\<close>

text \<open>
  \<open>io_step P s s'\<close>: from \<open>s\<close> to \<open>s'\<close> only events satisfying \<open>P\<close> were added to the log, and nothing
  else of the state changed. Components state what they leave alone as facts of this form, collected
  in \<open>frame\<close>.
\<close>

definition io_step :: "(io \<Rightarrow> bool) \<Rightarrow> 'a mach_scheme \<Rightarrow> 'a mach_scheme \<Rightarrow> bool" where
  "io_step P s s' \<longleftrightarrow>
     (\<exists>es. io_log s' = es @ io_log s \<and> list_all P es) \<and> s' = s\<lparr>io_log := io_log s'\<rparr>"

lemma io_step_refl [simp, intro]: "io_step P s s"
  by (simp add: io_step_def)

lemma io_stepD:
  assumes "io_step P s s'"
  obtains es where "s' = s\<lparr>io_log := es @ io_log s\<rparr>" "list_all P es"
  using assms by (auto simp: io_step_def)

lemma io_step_trans [trans]: "io_step P s t \<Longrightarrow> io_step P t u \<Longrightarrow> io_step P s u"
  by (elim io_stepD) (simp add: io_step_def)

lemma io_step_mono: "io_step P s s' \<Longrightarrow> (\<And>e. P e \<Longrightarrow> Q e) \<Longrightarrow> io_step Q s s'"
  by (auto simp: io_step_def list_all_iff)

lemma io_step_emit: "P e \<Longrightarrow> io_step P s (emit e s)"
  by (simp add: io_step_def emit_def)

lemma io_step_fields:
  assumes "io_step P s s'"
  shows "cpsr s' = cpsr s" "cp_cr s' = cp_cr s" "cp_ttbr s' = cp_ttbr s" "cp_dacr s' = cp_dacr s"
    "mach.more s' = mach.more s"
  using assms by (auto elim!: io_stepD)

lemma read32_step: "read32 ev a s = (v, s') \<Longrightarrow> P (Rd32 a v) \<Longrightarrow> io_step P s s'"
  by (auto simp: read32_def Let_def io_step_emit)

lemma write32_step: "P (Wr32 a v) \<Longrightarrow> io_step P s (write32 a v s)"
  by (simp add: write32_def io_step_emit)

text \<open>Accesses by address: a predicate on events from a predicate on addresses.\<close>

fun io_addr :: "(u32 \<Rightarrow> bool) \<Rightarrow> io \<Rightarrow> bool" where
  "io_addr Q (Rd32 a v) = Q a"
| "io_addr Q (Wr32 a v) = Q a"
| "io_addr Q (Rd16 a w) = Q a"
| "io_addr Q (Wr16 a w) = Q a"
| "io_addr Q (Rd8 a b) = Q a"
| "io_addr Q (Wr8 a b) = Q a"
| "io_addr Q _ = True"

lemma snd_read32_step [frame]: "Q a \<Longrightarrow> io_step (io_addr Q) s (snd (read32 ev a s))"
  by (simp add: read32_def Let_def io_step_emit)

lemma mem_access_step [frame]:
  "Q a \<Longrightarrow> io_step (io_addr Q) s (write32 a v s)"
  "Q a \<Longrightarrow> io_step (io_addr Q) s (set32 ev a v s)"
  "Q a \<Longrightarrow> io_step (io_addr Q) s (clear32 ev a v s)"
  "Q a \<Longrightarrow> io_step (io_addr Q) s (mask32 ev a v w s)"
  "Q a \<Longrightarrow> io_step (io_addr Q) s (snd (read16 ev a s))"
  "Q a \<Longrightarrow> io_step (io_addr Q) s (write16 a h s)"
  "Q a \<Longrightarrow> io_step (io_addr Q) s (snd (read8 ev a s))"
  "Q a \<Longrightarrow> io_step (io_addr Q) s (write8 a b s)"
  "io_step (io_addr Q) s (udelay_ev d s)"
  "io_step (io_addr Q) s (gecko_msg fmt args s)"
  "io_step (io_addr Q) s (cp15_op c s)"
  by (auto simp: write32_def set32_def clear32_def mask32_def read32_def read16_def write16_def
      read8_def write8_def udelay_ev_def gecko_msg_def cp15_op_def Let_def
      intro!: io_step_emit io_step_trans [OF io_step_emit io_step_emit])

section \<open>The writes a program makes\<close>

text \<open>The 32-bit register writes in program order, those to registers satisfying \<open>Q\<close>.\<close>

fun writes_of :: "(u32 \<Rightarrow> bool) \<Rightarrow> io list \<Rightarrow> (u32 \<times> u32) list" where
  "writes_of Q [] = []"
| "writes_of Q (e # es) = writes_of Q es @
     (case e of Wr32 a v \<Rightarrow> if Q a then [(a, v)] else [] | _ \<Rightarrow> [])"

definition writes :: "(u32 \<Rightarrow> bool) \<Rightarrow> 'a mach_scheme \<Rightarrow> (u32 \<times> u32) list" where
  "writes Q s = writes_of Q (io_log s)"

lemma writes_of_append: "writes_of Q (es @ fs) = writes_of Q fs @ writes_of Q es"
  by (induction es) auto

lemma writes_io_step:
  assumes "io_step (io_addr R) s s'" "\<And>a. Q a \<Longrightarrow> \<not> R a"
  shows "writes Q s' = writes Q s"
proof -
  from assms(1) obtain es where es: "s' = s\<lparr>io_log := es @ io_log s\<rparr>" "list_all (io_addr R) es"
    by (rule io_stepD)
  have "writes_of Q es = []"
    using es(2) assms(2) by (induction es) (auto split: io.splits)
  then show ?thesis by (simp add: writes_def es writes_of_append)
qed

lemma writes_write32 [simp]:
  "writes Q (write32 a v s) = writes Q s @ (if Q a then [(a, v)] else [])"
  by (simp add: writes_def write32_def emit_def)

lemma writes_read32 [simp]: "writes Q (snd (read32 ev a s)) = writes Q s"
  by (simp add: writes_def read32_def emit_def Let_def)

lemma writes_msg [simp]:
  "writes Q (gecko_msg fmt args s) = writes Q s" "writes Q (udelay_ev d s) = writes Q s"
  "writes Q (cp15_op c s) = writes Q s"
  by (simp_all add: writes_def gecko_msg_def udelay_ev_def cp15_op_def emit_def)

lemma cpsr_access [simp]:
  "cpsr (emit e s) = cpsr s" "cpsr (write32 a v s) = cpsr s" "cpsr (snd (read32 ev a s)) = cpsr s"
  "cpsr (set32 ev a v s) = cpsr s" "cpsr (clear32 ev a v s) = cpsr s"
  "cpsr (mask32 ev a v w s) = cpsr s" "cpsr (gecko_msg fmt args s) = cpsr s"
  "cpsr (udelay_ev d s) = cpsr s" "cpsr (cp15_op c s) = cpsr s"
  "cpsr (write16 a h s) = cpsr s" "cpsr (snd (read16 ev a s)) = cpsr s"
  by (simp_all add: emit_def write32_def read32_def set32_def clear32_def mask32_def gecko_msg_def
    udelay_ev_def cp15_op_def write16_def read16_def Let_def)

section \<open>Chains of accesses\<close>

text \<open>Backward rules that strip the last access of a sequence of them.\<close>

lemma chain [frame]:
  assumes "io_step (io_addr Q) s t"
  shows "Q a \<Longrightarrow> io_step (io_addr Q) s (write32 a v t)"
    and "Q a \<Longrightarrow> io_step (io_addr Q) s (set32 ev a v t)"
    and "Q a \<Longrightarrow> io_step (io_addr Q) s (clear32 ev a v t)"
    and "Q a \<Longrightarrow> io_step (io_addr Q) s (mask32 ev a v w t)"
    and "Q a \<Longrightarrow> io_step (io_addr Q) s (snd (read32 ev a t))"
    and "Q a \<Longrightarrow> io_step (io_addr Q) s (snd (read16 ev a t))"
    and "Q a \<Longrightarrow> io_step (io_addr Q) s (write16 a h t)"
    and "Q a \<Longrightarrow> io_step (io_addr Q) s (snd (read8 ev a t))"
    and "Q a \<Longrightarrow> io_step (io_addr Q) s (write8 a b t)"
    and "io_step (io_addr Q) s (udelay_ev d t)"
    and "io_step (io_addr Q) s (gecko_msg fmt args t)"
    and "io_step (io_addr Q) s (cp15_op c t)"
  by (rule io_step_trans [OF assms], (rule mem_access_step snd_read32_step)?; assumption?)+

section \<open>Polling loops\<close>

text \<open>\<^verbatim>\<open>while (P(read32(a)));\<close>\<close>

partial_function (option) poll ::
  "env \<Rightarrow> u32 \<Rightarrow> (u32 \<Rightarrow> bool) \<Rightarrow> 'a mach_scheme \<Rightarrow> 'a mach_scheme option"
where
  "poll ev a busy s = (if busy (fst (read32 ev a s)) then poll ev a busy (snd (read32 ev a s))
                    else Some (snd (read32 ev a s)))"

text \<open>The state after \<open>n\<close> reads of the register.\<close>

definition reads :: "env \<Rightarrow> u32 \<Rightarrow> nat \<Rightarrow> 'a mach_scheme \<Rightarrow> 'a mach_scheme" where
  "reads ev a n s = ((\<lambda>s. snd (read32 ev a s)) ^^ n) s"

lemma reads_0 [simp]: "reads ev a 0 s = s"
  by (simp add: reads_def)

lemma reads_Suc: "reads ev a (Suc n) s = reads ev a n (snd (read32 ev a s))"
  by (simp add: reads_def funpow_Suc_right del: funpow.simps)

lemma reads_step: "io_step (io_addr (\<lambda>x. x = a)) s (reads ev a n s)"
proof (induction n arbitrary: s)
  case (Suc n)
  then show ?case
    unfolding reads_Suc by (rule io_step_trans [rotated]) (simp add: frame)
qed simp

lemma poll_returns:
  "\<not> P (fst (read32 ev a (reads ev a n s))) \<Longrightarrow>
     \<exists>k \<le> n. poll ev a P s = Some (reads ev a (Suc k) s)"
proof (induction n arbitrary: s)
  case 0
  then show ?case by (simp add: poll.simps [of ev a P s] reads_Suc)
next
  case (Suc n)
  show ?case
  proof (cases "P (fst (read32 ev a s))")
    case True
    from Suc.IH [of "snd (read32 ev a s)"] Suc.prems
    obtain k where "k \<le> n" "poll ev a P (snd (read32 ev a s)) = Some (reads ev a (Suc (Suc k)) s)"
      by (auto simp: reads_Suc)
    with True show ?thesis
      by (intro exI [of _ "Suc k"]) (simp add: poll.simps [of ev a P s])
  next
    case False
    then show ?thesis by (intro exI [of _ 0]) (simp add: poll.simps [of ev a P s] reads_Suc)
  qed
qed

lemma poll_SomeD:
  assumes "poll ev a P s = Some s'"
  shows "\<exists>k. s' = reads ev a (Suc k) s \<and> \<not> P (fst (read32 ev a (reads ev a k s)))"
proof (rule poll.raw_induct [where P = "\<lambda>ev a P s s'.
      \<exists>k. s' = reads ev a (Suc k) s \<and> \<not> P (fst (read32 ev a (reads ev a k s)))", OF _ assms])
  fix f :: "env \<Rightarrow> u32 \<Rightarrow> (u32 \<Rightarrow> bool) \<Rightarrow> 'a mach_scheme \<Rightarrow> 'a mach_scheme option"
    and ev a P s s'
  assume IH: "\<And>ev a P s s'. f ev a P s = Some s' \<Longrightarrow>
      \<exists>k. s' = reads ev a (Suc k) s \<and> \<not> P (fst (read32 ev a (reads ev a k s)))"
    and eq: "(if P (fst (read32 ev a s)) then f ev a P (snd (read32 ev a s))
        else Some (snd (read32 ev a s))) = Some s'"
  show "\<exists>k. s' = reads ev a (Suc k) s \<and> \<not> P (fst (read32 ev a (reads ev a k s)))"
  proof (cases "P (fst (read32 ev a s))")
    case True
    with eq IH obtain k where "s' = reads ev a (Suc k) (snd (read32 ev a s))"
      "\<not> P (fst (read32 ev a (reads ev a k (snd (read32 ev a s)))))" by (metis (full_types))
    then show ?thesis by (intro exI [of _ "Suc k"]) (simp add: reads_Suc)
  next
    case False
    with eq show ?thesis by (intro exI [of _ 0]) (auto simp: reads_Suc)
  qed
qed

lemma poll_step: "poll ev a P s = Some s' \<Longrightarrow> io_step (io_addr (\<lambda>x. x = a)) s s'"
  by (auto dest!: poll_SomeD simp: reads_step)

text \<open>A poll returns exactly when the register is ready after finitely many reads.\<close>

lemma poll_terminates_iff:
  "(\<exists>s'. poll ev a P s = Some s') \<longleftrightarrow> (\<exists>n. \<not> P (fst (read32 ev a (reads ev a n s))))"
  by (metis poll_SomeD poll_returns)

lemma writes_reads [simp]: "writes Q (reads ev a n s) = writes Q s"
  by (induction n arbitrary: s) (simp_all add: reads_Suc)

lemma writes_poll: "poll ev a P s = Some s' \<Longrightarrow> writes Q s' = writes Q s"
  by (auto dest!: poll_SomeD)

lemma io_addr_mono: "io_step (io_addr R) s s' \<Longrightarrow> (\<And>a. R a \<Longrightarrow> Q a) \<Longrightarrow> io_step (io_addr Q) s s'"
proof (erule io_step_mono)
  fix e assume "\<And>a. R a \<Longrightarrow> Q a" "io_addr R e"
  then show "io_addr Q e" by (cases e) auto
qed

text \<open>
  The history after \<open>n\<close> reads of a register, and devices that always become ready: from every
  history on, the register satisfies \<open>P\<close> after finitely many reads.
\<close>

fun rd_log :: "env \<Rightarrow> u32 \<Rightarrow> nat \<Rightarrow> io list \<Rightarrow> io list" where
  "rd_log ev a 0 l = l"
| "rd_log ev a (Suc n) l = rd_log ev a n (Rd32 a (ev l a) # l)"

definition always_ready :: "env \<Rightarrow> u32 \<Rightarrow> (u32 \<Rightarrow> bool) \<Rightarrow> bool" where
  "always_ready ev a P \<longleftrightarrow> (\<forall>l. \<exists>n. P (ev (rd_log ev a n l) a))"

lemma io_log_reads: "io_log (reads ev a n s) = rd_log ev a n (io_log s)"
  by (induction n arbitrary: s) (simp_all add: reads_Suc read32_def emit_def Let_def)

lemma poll_ready:
  assumes "always_ready ev a (\<lambda>v. \<not> P v)"
  shows "\<exists>s'. poll ev a P s = Some s'"
  unfolding poll_terminates_iff
  using assms by (simp add: always_ready_def read32_def Let_def io_log_reads)

section \<open>State outside the log\<close>

text \<open>\<open>same s s'\<close>: the two states differ in their logs only.\<close>

definition same :: "'a mach_scheme \<Rightarrow> 'a mach_scheme \<Rightarrow> bool" where
  "same s s' \<longleftrightarrow> (\<exists>l. s' = s\<lparr>io_log := l\<rparr>)"

lemma same_refl [simp, intro]: "same s s"
  by (auto simp: same_def intro: exI [of _ "io_log s"])

lemma same_trans [trans]: "same s t \<Longrightarrow> same t u \<Longrightarrow> same s u"
  by (auto simp: same_def)

lemma io_step_same: "io_step P s s' \<Longrightarrow> same s s'"
  by (auto simp: same_def elim!: io_stepD)

lemma poll_same: "poll ev a P s = Some s' \<Longrightarrow> same s s'"
  by (rule io_step_same [OF poll_step])

named_theorems same_intro

lemma same_access [same_intro]:
  assumes "same s t"
  shows "same s (write32 a v t)" "same s (set32 ev a v t)" "same s (clear32 ev a v t)"
    "same s (mask32 ev a v w t)" "same s (snd (read32 ev a t))" "same s (snd (read16 ev a t))"
    "same s (write16 a h t)" "same s (snd (read8 ev a t))" "same s (write8 a b t)"
    "same s (udelay_ev d t)" "same s (gecko_msg fmt args t)" "same s (cp15_op c t)"
  by (rule same_trans [OF assms], rule io_step_same [where P = "io_addr (\<lambda>_. True)"],
      (rule mem_access_step snd_read32_step)?, simp?)+

lemma same_cpsr: "same s s' \<Longrightarrow> cpsr s' = cpsr s"
  by (auto simp: same_def)

end
