(* ===== verification/Memory.thy ===== *)
theory Memory
  imports Machine
begin

text \<open>
  \<^verbatim>\<open>armboot/system/memory.c\<close>: cache maintenance, the bus flushes that make DMA and the processor
  agree, DMA addresses, and the MMU page table. Functions that mask interrupts do so through
  \<^const>\<open>irq_kill\<close> and \<^const>\<open>irq_restore\<close> as in the code.
\<close>

section \<open>Registers\<close>

abbreviation (input) "HW_TIMER \<equiv> 0x0d800010 :: u32"
abbreviation (input) "HW_MEMMIRR \<equiv> 0x0d800060 :: u32"
abbreviation (input) "HW_100 \<equiv> 0x0d800100 :: u32"
abbreviation (input) "HW_104 \<equiv> 0x0d800104 :: u32"
abbreviation (input) "HW_108 \<equiv> 0x0d800108 :: u32"
abbreviation (input) "HW_10c \<equiv> 0x0d80010c :: u32"
abbreviation (input) "HW_110 \<equiv> 0x0d800110 :: u32"
abbreviation (input) "HW_114 \<equiv> 0x0d800114 :: u32"
abbreviation (input) "HW_118 \<equiv> 0x0d800118 :: u32"
abbreviation (input) "HW_11c \<equiv> 0x0d80011c :: u32"
abbreviation (input) "HW_120 \<equiv> 0x0d800120 :: u32"
abbreviation (input) "HW_124 \<equiv> 0x0d800124 :: u32"
abbreviation (input) "HW_130 \<equiv> 0x0d800130 :: u32"
abbreviation (input) "HW_134 \<equiv> 0x0d800134 :: u32"
abbreviation (input) "HW_138 \<equiv> 0x0d800138 :: u32"
abbreviation (input) "HW_188 \<equiv> 0x0d800188 :: u32"
abbreviation (input) "HW_18C \<equiv> 0x0d80018c :: u32"
abbreviation (input) "HW_VERSION \<equiv> 0x0d800214 :: u32"
abbreviation (input) "AHB_INVAL \<equiv> 0x0d8b0008 :: u32"
abbreviation (input) "MEM_PROT \<equiv> 0x0d8b420a :: u32"
abbreviation (input) "MEM_PROT_START \<equiv> 0x0d8b420c :: u32"
abbreviation (input) "MEM_PROT_END \<equiv> 0x0d8b420e :: u32"
abbreviation (input) "MEM_FLUSHREQ \<equiv> 0x0d8b4228 :: u32"
abbreviation (input) "MEM_FLUSHACK \<equiv> 0x0d8b422a :: u32"

text \<open>Every address the bus-flush code touches.\<close>

definition ahb_reg :: "u32 \<Rightarrow> bool" where
  "ahb_reg a \<longleftrightarrow> a \<in> {HW_100, HW_104, HW_108, HW_10c, HW_110, HW_114, HW_118, HW_11c, HW_120,
     HW_124, HW_130, HW_134, HW_138, HW_188, HW_18C, HW_VERSION, AHB_INVAL, MEM_FLUSHREQ,
     MEM_FLUSHACK}"

section \<open>Bus flushes\<close>

datatype AHBDEV = AHB_STARLET | AHB_1 | AHB_NAND | AHB_AES | AHB_SHA1 | AHB_SDHC | AHB_OTHER u32

text \<open>The numbers of the enumeration, as the messages print them.\<close>

fun AHBDEV_num :: "AHBDEV \<Rightarrow> u32" where
  "AHBDEV_num AHB_STARLET = 0"
| "AHBDEV_num AHB_1 = 1"
| "AHBDEV_num AHB_NAND = 3"
| "AHBDEV_num AHB_AES = 4"
| "AHBDEV_num AHB_SHA1 = 5"
| "AHBDEV_num AHB_SDHC = 9"
| "AHBDEV_num (AHB_OTHER n) = n"

definition dummy_reads4 :: "env \<Rightarrow> u32 \<Rightarrow> 'a mach_scheme \<Rightarrow> 'a mach_scheme" where
  "dummy_reads4 ev a s =
     snd (read32 ev a (snd (read32 ev a (snd (read32 ev a (snd (read32 ev a s)))))))"

definition mc_read32 :: "env \<Rightarrow> u32 \<Rightarrow> 'a mach_scheme \<Rightarrow> u32 \<times> 'a mach_scheme" where
  "mc_read32 ev addr s =
    (let (ver, s) = read32 ev HW_VERSION s;
         (tmp130, s) =
           (if ver AND 0xF0 = 0
            then (let (t, s) = read32 ev HW_130 s
                  in (t, dummy_reads4 ev HW_138 (write32 HW_130 (t OR 0x400) s)))
            else (0, s));
         (data, s) = read32 ev addr s;
         s = snd (read32 ev HW_VERSION s);
         (ver, s) = read32 ev HW_VERSION s;
         s = (if ver AND 0xF0 = 0 then write32 HW_130 tmp130 s else s)
     in (data, s))"

definition ahb_mask :: "AHBDEV \<Rightarrow> u32 option" where
  "ahb_mask dev = (case dev of AHB_STARLET \<Rightarrow> Some 0x8000 | AHB_1 \<Rightarrow> Some 0x4000
     | AHB_NAND \<Rightarrow> Some 0x0002 | AHB_AES \<Rightarrow> Some 0x0004 | AHB_SHA1 \<Rightarrow> Some 0x0008
     | AHB_SDHC \<Rightarrow> Some 0x0080 | AHB_OTHER _ \<Rightarrow> None)"

text \<open>\<^verbatim>\<open>while ((read32(HW_18C) & 0xF) == 9) set32(HW_188, 0x10000);\<close>\<close>

partial_function (option) ahb_quiesce :: "env \<Rightarrow> 'a mach_scheme \<Rightarrow> 'a mach_scheme option" where
  "ahb_quiesce ev s =
     (if fst (read32 ev HW_18C s) AND 0xF = 9
      then ahb_quiesce ev (set32 ev HW_188 0x10000 (snd (read32 ev HW_18C s)))
      else Some (snd (read32 ev HW_18C s)))"

definition ahb_set400 :: "env \<Rightarrow> 'a mach_scheme \<Rightarrow> 'a mach_scheme" where
  "ahb_set400 ev s = set32 ev HW_120 0x400 (set32 ev HW_11c 0x400 (set32 ev HW_118 0x400
     (set32 ev HW_114 0x400 (set32 ev HW_110 0x400 (set32 ev HW_10c 0x400
     (set32 ev HW_108 0x400 (set32 ev HW_104 0x400 (set32 ev HW_100 0x400 s))))))))"

definition ahb_clear400 :: "env \<Rightarrow> 'a mach_scheme \<Rightarrow> 'a mach_scheme" where
  "ahb_clear400 ev s = clear32 ev HW_120 0x400 (clear32 ev HW_11c 0x400 (clear32 ev HW_118 0x400
     (clear32 ev HW_114 0x400 (clear32 ev HW_110 0x400 (clear32 ev HW_10c 0x400
     (clear32 ev HW_108 0x400 (clear32 ev HW_104 0x400 (clear32 ev HW_100 0x400 s))))))))"

text \<open>The device part of the second \<^verbatim>\<open>switch\<close>, before the fall-through.\<close>

definition ahb_device_part :: "env \<Rightarrow> u32 \<Rightarrow> 'a mach_scheme \<Rightarrow> 'a mach_scheme option" where
  "ahb_device_part ev msk s = do {
     s \<leftarrow> ahb_quiesce ev s;
     let s = clear32 ev HW_188 0x10000 s;
     let s = set32 ev HW_188 0x2000000 s;
     let s = mask32 ev HW_124 0x7c0 0x280 s;
     let s = set32 ev HW_134 0x400 s;
     s \<leftarrow> poll ev HW_18C (\<lambda>v. v AND 0xF \<noteq> 9) s;
     let s = ahb_set400 ev s;
     let (v, s) = mc_read32 ev AHB_INVAL s;
     let s = write32 AHB_INVAL (v AND NOT msk) s;
     let (v, s) = mc_read32 ev AHB_INVAL s;
     let s = write32 AHB_INVAL (v OR msk) s;
     let s = clear32 ev HW_134 0x400 s;
     let s = ahb_clear400 ev s;
     let s = clear32 ev HW_188 0x2000000 s;
     Some (mask32 ev HW_124 0x7c0 0xc0 s) }"

definition ahb_invalidate :: "u32 \<Rightarrow> u32 \<Rightarrow> 'a mach_scheme \<Rightarrow> 'a mach_scheme" where
  "ahb_invalidate val msk s = write32 AHB_INVAL (val OR msk) (write32 AHB_INVAL (val OR msk)
     (write32 AHB_INVAL (val OR msk) (write32 AHB_INVAL (val AND NOT msk) s)))"

definition ahb_flush_to_raw :: "env \<Rightarrow> AHBDEV \<Rightarrow> 'a mach_scheme \<Rightarrow> 'a mach_scheme option" where
  "ahb_flush_to_raw ev dev s = (case ahb_mask dev of
     None \<Rightarrow> Some (gecko_msg ''ahb_invalidate(%d): Invalid device'' [VInt (AHBDEV_num dev)] s)
   | Some msk \<Rightarrow>
      (let (val, s) = mc_read32 ev AHB_INVAL s in
       if val AND msk = 0 then do {
         s \<leftarrow> (if dev = AHB_STARLET \<or> dev = AHB_1 then Some s else ahb_device_part ev msk s);
         Some (ahb_invalidate val msk s) }
       else Some s))"

definition ahb_flush_to :: "env \<Rightarrow> AHBDEV \<Rightarrow> 'a mach_scheme \<Rightarrow> 'a mach_scheme option" where
  "ahb_flush_to ev type s = do {
     let (cookie, s) = irq_kill s;
     s \<leftarrow> ahb_flush_to_raw ev type s;
     s \<leftarrow> (if type \<noteq> AHB_STARLET then ahb_flush_to_raw ev AHB_STARLET s else Some s);
     Some (irq_restore cookie s) }"

definition flush_req :: "AHBDEV \<Rightarrow> u16 option" where
  "flush_req dev = (case dev of AHB_STARLET \<Rightarrow> Some 1 | AHB_1 \<Rightarrow> Some 1 | AHB_AES \<Rightarrow> Some 2
     | AHB_SHA1 \<Rightarrow> Some 2 | AHB_NAND \<Rightarrow> Some 8 | AHB_SDHC \<Rightarrow> Some 8 | AHB_OTHER _ \<Rightarrow> None)"

text \<open>The acknowledge loop: \<open>n\<close> iterations are left; the flag says whether the request was met.\<close>

fun flush_ack_loop :: "env \<Rightarrow> u16 \<Rightarrow> nat \<Rightarrow> 'a mach_scheme \<Rightarrow> (bool \<times> 'a mach_scheme) option" where
  "flush_ack_loop ev req 0 s = Some (False, s)"
| "flush_ack_loop ev req (Suc n) s = do {
     let (ack, s) = read16 ev MEM_FLUSHACK s;
     s \<leftarrow> ahb_flush_to_raw ev AHB_STARLET s;
     if ack = req then Some (True, s) else flush_ack_loop ev req n s }"

definition ahb_flush_from :: "env \<Rightarrow> AHBDEV \<Rightarrow> 'a mach_scheme \<Rightarrow> 'a mach_scheme option" where
  "ahb_flush_from ev dev s = do {
     let (cookie, s) = irq_kill s;
     s \<leftarrow> (case flush_req dev of
        None \<Rightarrow> Some (gecko_msg ''ahb_flush(%d): Invalid device'' [VInt (AHBDEV_num dev)] s)
      | Some req \<Rightarrow> do {
          let s = write16 MEM_FLUSHREQ req s;
          (acked, s) \<leftarrow> flush_ack_loop ev req 1000000 s;
          let s = write16 MEM_FLUSHREQ 0 s;
          Some (if \<not> acked
                then gecko_msg ''ahb_flush(%d): Flush (0x%x) did not ack!''
                       [VInt (AHBDEV_num dev), VInt (ucast req)] s
                else s) });
     Some (irq_restore cookie s) }"

section \<open>Cache maintenance\<close>

abbreviation (input) "LINESIZE \<equiv> 0x20 :: u32"

definition ALIGN_FORWARD :: "u32 \<Rightarrow> u32 \<Rightarrow> u32" where
  "ALIGN_FORWARD x align = (x + align - 1) AND NOT (align - 1)"

definition ALIGN_BACKWARD :: "u32 \<Rightarrow> u32 \<Rightarrow> u32" where
  "ALIGN_BACKWARD x align = x AND NOT (align - 1)"

text \<open>\<^verbatim>\<open>(end - start) / LINESIZE\<close>, a signed division of two aligned pointers' difference.\<close>

definition lines_between :: "u32 \<Rightarrow> u32 \<Rightarrow> u32" where
  "lines_between b e = word_of_int (sint (e - b) div 0x20)"

definition dc_flushrange :: "env \<Rightarrow> u32 \<Rightarrow> u32 \<Rightarrow> 'a mach_scheme \<Rightarrow> 'a mach_scheme option" where
  "dc_flushrange ev start sz s = do {
     let (cookie, s) = irq_kill s;
     let s = (if sz > 0x4000 then cp15_op Dc_flush s
              else (let e = ALIGN_FORWARD (start + sz) LINESIZE;
                        b = ALIGN_BACKWARD start LINESIZE
                    in cp15_op (Dc_flush_entries b (lines_between b e)) s));
     let s = cp15_op Drain_write_buffer s;
     s \<leftarrow> ahb_flush_from ev AHB_1 s;
     Some (irq_restore cookie s) }"

definition dc_invalidaterange :: "env \<Rightarrow> u32 \<Rightarrow> u32 \<Rightarrow> 'a mach_scheme \<Rightarrow> 'a mach_scheme option" where
  "dc_invalidaterange ev start sz s = do {
     let (cookie, s) = irq_kill s;
     let e = ALIGN_FORWARD (start + sz) LINESIZE;
     let b = ALIGN_BACKWARD start LINESIZE;
     let s = cp15_op (Dc_inval_entries b (lines_between b e)) s;
     s \<leftarrow> ahb_flush_to ev AHB_STARLET s;
     Some (irq_restore cookie s) }"

definition dc_flushall :: "env \<Rightarrow> 'a mach_scheme \<Rightarrow> 'a mach_scheme option" where
  "dc_flushall ev s = do {
     let (cookie, s) = irq_kill s;
     let s = cp15_op Dc_flush s;
     let s = cp15_op Drain_write_buffer s;
     s \<leftarrow> ahb_flush_from ev AHB_1 s;
     Some (irq_restore cookie s) }"

definition ic_invalidateall :: "env \<Rightarrow> 'a mach_scheme \<Rightarrow> 'a mach_scheme option" where
  "ic_invalidateall ev s = do {
     let (cookie, s) = irq_kill s;
     let s = cp15_op Ic_inval s;
     s \<leftarrow> ahb_flush_to ev AHB_STARLET s;
     Some (irq_restore cookie s) }"

section \<open>Memory protection, mirroring, DMA addresses\<close>

definition mem_protect :: "bool \<Rightarrow> u32 \<Rightarrow> u32 \<Rightarrow> 'a mach_scheme \<Rightarrow> 'a mach_scheme" where
  "mem_protect enable start fin s =
    (let s = write16 MEM_PROT (if enable then 1 else 0) s;
         s = write16 MEM_PROT_START (ucast (drop_bit 12 (start AND 0xFFFFFFF))) s;
         s = write16 MEM_PROT_END (ucast (drop_bit 12 (fin AND 0xFFFFFFF))) s
     in udelay_ev 10 s)"

definition mem_setswap :: "env \<Rightarrow> bool \<Rightarrow> 'a mach_scheme \<Rightarrow> 'a mach_scheme" where
  "mem_setswap ev enable s =
    (let (d, s) = read32 ev HW_MEMMIRR s;
         s = (if d AND 0x20 \<noteq> 0 \<and> \<not> enable then write32 HW_MEMMIRR (d AND NOT 0x20) s else s)
     in if d AND 0x20 = 0 \<and> enable then write32 HW_MEMMIRR (d OR 0x20) s else s)"

definition dma_addr :: "env \<Rightarrow> u32 \<Rightarrow> 'a mach_scheme \<Rightarrow> u32 \<times> 'a mach_scheme" where
  "dma_addr ev addr s =
    (if drop_bit 20 addr \<in> {0xfff, 0x0d4, 0x0dc} then
       (let (m, s) = read32 ev HW_MEMMIRR s;
            addr = (if m AND 0x20 \<noteq> 0 then addr XOR 0x10000 else addr)
        in ((addr AND 0x0001FFFF) OR 0x0d400000, s))
     else (addr, s))"

section \<open>The page table\<close>

record mem_st = mach +
  page_table :: "u32 list"

abbreviation (input) "SECTION \<equiv> 0x012 :: u32"
abbreviation (input) "NONBUFFERABLE \<equiv> 0x000 :: u32"
abbreviation (input) "WRITEBACK_CACHE \<equiv> 0x00C :: u32"
abbreviation (input) "AP_RWUSER \<equiv> 0xC00 :: u32"

fun map_section_loop :: "nat \<Rightarrow> u32 \<Rightarrow> u32 \<Rightarrow> u32 \<Rightarrow> u32 list \<Rightarrow> u32 list option" where
  "map_section_loop 0 frm to attributes pt = Some pt"
| "map_section_loop (Suc sz) frm to attributes pt =
     (if unat frm < length pt
      then map_section_loop sz (frm + 1) (to + 1) attributes
             (pt[unat frm := push_bit 20 to OR attributes])
      else None)"

definition map_section :: "u32 \<Rightarrow> u32 \<Rightarrow> u32 \<Rightarrow> u32 \<Rightarrow> u32 list \<Rightarrow> u32 list option" where
  "map_section frm to sz attributes pt =
     map_section_loop (unat sz) frm to (attributes OR SECTION) pt"

text \<open>\<^verbatim>\<open>memset32\<close> of \<^verbatim>\<open>common/utils_asm.S\<close> on an array of words: whole words only.\<close>

definition memset32 :: "u32 list \<Rightarrow> u32 \<Rightarrow> u32 \<Rightarrow> u32 list option" where
  "memset32 dst v sz = (let n = unat (sz AND NOT 3) div 4 in
     if n \<le> length dst then Some (replicate n v @ drop n dst) else None)"

abbreviation (input) "CR_MMU \<equiv> 0x0001 :: u32"
abbreviation (input) "CR_DCACHE \<equiv> 0x0004 :: u32"
abbreviation (input) "CR_ICACHE \<equiv> 0x1000 :: u32"

definition map_all :: "u32 list \<Rightarrow> u32 list option" where
  "map_all pt = do {
     pt \<leftarrow> memset32 pt 0 16384;
     pt \<leftarrow> map_section 0x000 0x000 0x018 (WRITEBACK_CACHE OR AP_RWUSER) pt;
     pt \<leftarrow> map_section 0x100 0x100 0x040 (WRITEBACK_CACHE OR AP_RWUSER) pt;
     pt \<leftarrow> map_section 0x0c0 0x0c0 0x001 (NONBUFFERABLE OR AP_RWUSER) pt;
     pt \<leftarrow> map_section 0x0d0 0x0d0 0x001 (NONBUFFERABLE OR AP_RWUSER) pt;
     pt \<leftarrow> map_section 0x0d8 0x0d8 0x001 (NONBUFFERABLE OR AP_RWUSER) pt;
     map_section 0xfff 0xfff 0x001 (WRITEBACK_CACHE OR AP_RWUSER) pt }"

text \<open>The address of \<^verbatim>\<open>__page_table\<close> is chosen by the linker and is an argument here.\<close>

definition mem_initialize :: "u32 \<Rightarrow> 'a mem_st_scheme \<Rightarrow> 'a mem_st_scheme option" where
  "mem_initialize pt_addr s = do {
     let (cookie, s) = irq_kill s;
     let s = gecko_msg ''MEM: cleaning up'' [] s;
     let s = cp15_op Tlb_inval (cp15_op Dc_inval (cp15_op Ic_inval s));
     let s = gecko_msg ''MEM: unprotecting memory'' [] s;
     let s = mem_protect False 0 0 s;
     let s = gecko_msg ''MEM: mapping sections'' [] s;
     pt \<leftarrow> map_all (page_table s);
     let s = s\<lparr>page_table := pt\<rparr>;
     let s = s\<lparr>cp_dacr := 0xFFFFFFFF\<rparr>;
     let s = s\<lparr>cp_ttbr := pt_addr\<rparr>;
     let s = cp15_op Drain_write_buffer s;
     let cr = cp_cr s;
     let s = gecko_msg ''MEM: enabling caches'' [] s;
     let cr = cr OR (CR_DCACHE OR CR_ICACHE);
     let s = s\<lparr>cp_cr := cr\<rparr>;
     let s = gecko_msg ''MEM: enabling MMU'' [] s;
     let cr = cr OR CR_MMU;
     let s = s\<lparr>cp_cr := cr\<rparr>;
     let s = gecko_msg ''MEM: init done'' [] s;
     Some (irq_restore cookie s) }"

definition mem_shutdown :: "'a mach_scheme \<Rightarrow> 'a mach_scheme" where
  "mem_shutdown s =
    (let (cookie, s) = irq_kill s;
         s = cp15_op Drain_write_buffer (cp15_op Dc_flush s);
         s = s\<lparr>cp_cr := cp_cr s AND NOT (CR_MMU OR CR_DCACHE OR CR_ICACHE)\<rparr>;
         s = cp15_op Tlb_inval (cp15_op Dc_inval (cp15_op Ic_inval s))
     in irq_restore cookie s)"


section \<open>What the bus flushes touch\<close>

lemmas access_unfold = Let_def split_beta

lemma ahb_reg_simps [simp]:
  "ahb_reg HW_100" "ahb_reg HW_104" "ahb_reg HW_108" "ahb_reg HW_10c" "ahb_reg HW_110"
  "ahb_reg HW_114" "ahb_reg HW_118" "ahb_reg HW_11c" "ahb_reg HW_120" "ahb_reg HW_124"
  "ahb_reg HW_130" "ahb_reg HW_134" "ahb_reg HW_138" "ahb_reg HW_188" "ahb_reg HW_18C"
  "ahb_reg HW_VERSION" "ahb_reg AHB_INVAL" "ahb_reg MEM_FLUSHREQ" "ahb_reg MEM_FLUSHACK"
  by (simp_all add: ahb_reg_def)

lemma mc_read32_step:
  assumes "ahb_reg a" "io_step (io_addr ahb_reg) s0 s"
  shows "io_step (io_addr ahb_reg) s0 (snd (mc_read32 ev a s))"
  using assms
  by (auto simp: mc_read32_def dummy_reads4_def access_unfold intro!: chain)

lemma ahb_invalidate_step:
  "io_step (io_addr ahb_reg) s0 s \<Longrightarrow> io_step (io_addr ahb_reg) s0 (ahb_invalidate v m s)"
  by (auto simp: ahb_invalidate_def intro!: chain)

lemma ahb_400_step:
  "io_step (io_addr ahb_reg) s0 s \<Longrightarrow> io_step (io_addr ahb_reg) s0 (ahb_set400 ev s)"
  "io_step (io_addr ahb_reg) s0 s \<Longrightarrow> io_step (io_addr ahb_reg) s0 (ahb_clear400 ev s)"
  by (auto simp: ahb_set400_def ahb_clear400_def intro!: chain)

lemma poll_chain:
  "poll ev a P t = Some t' \<Longrightarrow> Q a \<Longrightarrow> io_step (io_addr Q) s t \<Longrightarrow> io_step (io_addr Q) s t'"
  by (rule io_step_trans, assumption, erule io_addr_mono [OF poll_step]) simp

lemma ahb_quiesce_step: "ahb_quiesce ev s = Some s' \<Longrightarrow> io_step (io_addr ahb_reg) s s'"
proof (rule ahb_quiesce.raw_induct [where P = "\<lambda>ev s s'. io_step (io_addr ahb_reg) s s'"])
  fix f :: "env \<Rightarrow> 'a mach_scheme \<Rightarrow> 'a mach_scheme option" and ev s s'
  assume IH: "\<And>ev s s'. f ev s = Some s' \<Longrightarrow> io_step (io_addr ahb_reg) s s'"
    and eq: "(if fst (read32 ev HW_18C s) AND 0xF = 9
      then f ev (set32 ev HW_188 0x10000 (snd (read32 ev HW_18C s)))
      else Some (snd (read32 ev HW_18C s))) = Some s'"
  have "io_step (io_addr ahb_reg) s (set32 ev HW_188 0x10000 (snd (read32 ev HW_18C s)))"
    by (intro chain io_step_refl) simp_all
  with IH eq show "io_step (io_addr ahb_reg) s s'"
    by (auto split: if_splits intro: io_step_trans chain)
qed

lemma ahb_device_part_step:
  "ahb_device_part ev msk s = Some s' \<Longrightarrow> io_step (io_addr ahb_reg) s s'"
  unfolding ahb_device_part_def access_unfold bind_Some_iff option.inject
  apply (elim exE conjE)
  apply hypsubst_thin
  apply (intro chain ahb_400_step mc_read32_step ahb_reg_simps)
  apply (erule poll_chain, simp)
  apply (intro chain ahb_reg_simps)
  apply (erule ahb_quiesce_step)
  done

lemma ahb_flush_to_raw_step:
  assumes "ahb_flush_to_raw ev dev s = Some s'"
  shows "io_step (io_addr ahb_reg) s s'"
proof -
  have *: "io_step (io_addr ahb_reg) s (snd (mc_read32 ev AHB_INVAL s))"
    by (simp add: mc_read32_step)
  show ?thesis using assms
    by (auto simp: ahb_flush_to_raw_def access_unfold * split: option.splits if_splits
        intro!: ahb_invalidate_step frame dest: ahb_device_part_step
        intro: io_step_trans [OF *])
qed

text \<open>Flushing the Starlet itself never waits.\<close>

lemma ahb_flush_to_raw_starlet: "\<exists>s'. ahb_flush_to_raw ev AHB_STARLET s = Some s'"
  by (simp add: ahb_flush_to_raw_def ahb_mask_def access_unfold)

lemma irq_bracket:
  assumes "io_step P (snd (irq_kill s)) t"
  shows "io_step P s (irq_restore (fst (irq_kill s)) t)"
  using assms
  by (auto elim!: io_stepD simp: io_step_def irq_kill_def irq_restore_def
      kill_restore_bits [of "cpsr s" 192, simplified])

lemma ahb_flush_to_step: "ahb_flush_to ev dev s = Some s' \<Longrightarrow> io_step (io_addr ahb_reg) s s'"
  unfolding ahb_flush_to_def access_unfold bind_Some_iff option.inject
  apply (elim exE conjE)
  apply hypsubst_thin
  apply (rule irq_bracket)
  apply (auto split: if_splits intro: io_step_trans dest: ahb_flush_to_raw_step)
  done

lemma ahb_flush_to_starlet: "\<exists>s'. ahb_flush_to ev AHB_STARLET s = Some s'"
  using ahb_flush_to_raw_starlet [of ev "snd (irq_kill s)"]
  by (auto simp: ahb_flush_to_def access_unfold)

lemma flush_ack_loop_step:
  "flush_ack_loop ev req n s = Some (b, s') \<Longrightarrow> io_step (io_addr ahb_reg) s s'"
proof (induction n arbitrary: s)
  case (Suc n)
  have *: "io_step (io_addr ahb_reg) s (snd (read16 ev MEM_FLUSHACK s))"
    by (intro frame) simp
  from Suc.prems Suc.IH show ?case
    by (auto simp: access_unfold split: if_splits
        intro: io_step_trans [OF *] io_step_trans [OF io_step_trans [OF *]]
        dest!: ahb_flush_to_raw_step)
qed simp

lemma flush_ack_loop_returns: "\<exists>b s'. flush_ack_loop ev req n s = Some (b, s')"
proof (induction n arbitrary: s)
  case (Suc n)
  obtain t where "ahb_flush_to_raw ev AHB_STARLET (snd (read16 ev MEM_FLUSHACK s)) = Some t"
    using ahb_flush_to_raw_starlet by blast
  with Suc.IH [of t] show ?case by (auto simp: access_unfold)
qed auto

lemma ahb_flush_from_step: "ahb_flush_from ev dev s = Some s' \<Longrightarrow> io_step (io_addr ahb_reg) s s'"
  unfolding ahb_flush_from_def access_unfold bind_Some_iff option.inject
  apply (elim exE conjE)
  apply hypsubst_thin
  apply (rule irq_bracket)
  apply (auto split: if_splits option.splits intro!: frame dest!: flush_ack_loop_step
      intro: io_step_trans [rotated])
  done

lemma ahb_flush_from_returns: "\<exists>s'. ahb_flush_from ev dev s = Some s'"
proof -
  have "\<exists>b s'. flush_ack_loop ev req 1000000 t = Some (b, s')" for req t
    by (rule flush_ack_loop_returns)
  then show ?thesis
    by (auto simp: ahb_flush_from_def access_unfold split: option.splits)
qed

text \<open>The value last written to a 16-bit register.\<close>

fun last_wr16 :: "u32 \<Rightarrow> io list \<Rightarrow> u16 option" where
  "last_wr16 a [] = None"
| "last_wr16 a (Wr16 b v # es) = (if a = b then Some v else last_wr16 a es)"
| "last_wr16 a (e # es) = last_wr16 a es"

text \<open>A loop that succeeds has read the acknowledge it waits for.\<close>

lemma io_step_set: "io_step P s s' \<Longrightarrow> set (io_log s) \<subseteq> set (io_log s')"
  by (auto elim!: io_stepD)

lemma flush_ack_loop_acked:
  "flush_ack_loop ev req n s = Some (True, s') \<Longrightarrow>
     \<exists>es. io_log s' = es @ io_log s \<and> Rd16 MEM_FLUSHACK req \<in> set es"
proof (induction n arbitrary: s)
  case (Suc n)
  let ?v = "fst (read16 ev MEM_FLUSHACK s)" and ?t = "snd (read16 ev MEM_FLUSHACK s)"
  have log: "io_log ?t = Rd16 MEM_FLUSHACK ?v # io_log s"
    by (simp add: read16_def emit_def Let_def)
  from Suc.prems obtain u where u: "ahb_flush_to_raw ev AHB_STARLET ?t = Some u"
    and rest: "(if ?v = req then Some (True, u) else flush_ack_loop ev req n u) = Some (True, s')"
    by (auto simp: access_unfold)
  from ahb_flush_to_raw_step [OF u] obtain es where es: "io_log u = es @ io_log ?t"
    by (auto elim: io_stepD)
  show ?case
  proof (cases "?v = req")
    case True
    with rest es log show ?thesis by auto
  next
    case False
    with rest Suc.IH [of u] es log show ?thesis by auto
  qed
qed simp

text \<open>
  C13: \<^verbatim>\<open>ahb_flush_from\<close> always returns, whatever the hardware answers: the wait for the
  acknowledge is bounded. It accesses bus registers only, leaves every other part of the state
  (the interrupt mask included) as it was, withdraws its request before it returns, and either
  has read the acknowledge it asked for or has reported that there was none.
\<close>

theorem ahb_flush_from_total:
  "\<exists>es. ahb_flush_from ev dev s = Some (s\<lparr>io_log := es @ io_log s\<rparr>)
      \<and> list_all (io_addr ahb_reg) es
      \<and> (case flush_req dev of
           None \<Rightarrow> es = [Msg ''ahb_flush(%d): Invalid device'' [VInt (AHBDEV_num dev)]]
         | Some req \<Rightarrow> last_wr16 MEM_FLUSHREQ es = Some 0
             \<and> (Rd16 MEM_FLUSHACK req \<in> set es
                \<or> hd es = Msg ''ahb_flush(%d): Flush (0x%x) did not ack!''
                     [VInt (AHBDEV_num dev), VInt (ucast req)]))"
proof -
  obtain s' where s': "ahb_flush_from ev dev s = Some s'"
    using ahb_flush_from_returns by blast
  from ahb_flush_from_step [OF s'] obtain es
    where es: "s' = s\<lparr>io_log := es @ io_log s\<rparr>" "list_all (io_addr ahb_reg) es"
    by (rule io_stepD)
  have log: "io_log s' = es @ io_log s" by (simp add: es)
  show ?thesis
  proof (cases "flush_req dev")
    case None
    with s' log have "es = [Msg ''ahb_flush(%d): Invalid device'' [VInt (AHBDEV_num dev)]]"
      by (auto simp: ahb_flush_from_def access_unfold irq_kill_def irq_restore_def gecko_msg_def
          emit_def)
    with s' es None show ?thesis by auto
  next
    case (Some req)
    let ?t = "write16 MEM_FLUSHREQ req (snd (irq_kill s))"
    obtain b u where u: "flush_ack_loop ev req 1000000 ?t = Some (b, u)"
      using flush_ack_loop_returns by blast
    have logt: "io_log ?t = Wr16 MEM_FLUSHREQ req # io_log s"
      by (simp add: write16_def emit_def irq_kill_def)
    from flush_ack_loop_step [OF u] obtain fs where fs: "io_log u = fs @ io_log ?t"
      by (auto elim: io_stepD)
    have s'_log: "io_log s' = (if b then [] else
        [Msg ''ahb_flush(%d): Flush (0x%x) did not ack!''
           [VInt (AHBDEV_num dev), VInt (ucast req)]]) @ Wr16 MEM_FLUSHREQ 0 # io_log u"
      using s' u Some
      by (auto simp: ahb_flush_from_def access_unfold irq_restore_def gecko_msg_def write16_def
          emit_def)
    have acked: "b \<Longrightarrow> Rd16 MEM_FLUSHACK req \<in> set fs"
      using flush_ack_loop_acked [of ev req 1000000 ?t u] u fs by auto
    from s'_log log fs logt acked have "last_wr16 MEM_FLUSHREQ es = Some 0"
      "Rd16 MEM_FLUSHACK req \<in> set es \<or> hd es = Msg ''ahb_flush(%d): Flush (0x%x) did not ack!''
           [VInt (AHBDEV_num dev), VInt (ucast req)]"
      by (auto split: if_splits)
    with s' es Some show ?thesis by auto
  qed
qed

section \<open>Cache ranges\<close>

lemma align_backward_unat: "unat (ALIGN_BACKWARD x LINESIZE) = unat x div 32 * 32"
  using unat_and_not_mask [of x 5] by (simp add: ALIGN_BACKWARD_def mask_eq_exp_minus_1)

lemma align_forward_unat:
  assumes "unat x + 31 < 2 ^ 32"
  shows "unat (ALIGN_FORWARD x LINESIZE) = (unat x + 31) div 32 * 32"
proof -
  have "unat (x + 31) = unat x + 31"
    using assms by (simp add: unat_add_lem [THEN iffD1])
  then show ?thesis
    using unat_and_not_mask [of "x + 31" 5]
    by (simp add: ALIGN_FORWARD_def mask_eq_exp_minus_1 add.commute)
qed

text \<open>
  \<open>line_cover b n start sz\<close>: the \<open>n\<close> cache lines from \<open>b\<close> are the lines that hold the bytes
  \<open>[start, start + sz)\<close>: every byte is in one of them, and no line is outside the range.
\<close>

definition line_cover :: "u32 \<Rightarrow> u32 \<Rightarrow> u32 \<Rightarrow> u32 \<Rightarrow> bool" where
  "line_cover b n start sz \<longleftrightarrow> 32 dvd unat b \<and> unat b \<le> unat start \<and> unat start < unat b + 32
     \<and> unat start + unat sz \<le> unat b + 32 * unat n
     \<and> unat b + 32 * unat n < unat start + unat sz + 32"

lemma lines_between_unat:
  assumes "unat b \<le> unat e" "unat e - unat b < 2 ^ 31"
  shows "unat (lines_between b e) = (unat e - unat b) div 32"
proof -
  from assms have d: "unat (e - b) = unat e - unat b"
    by (simp add: unat_sub word_le_nat_alt)
  with assms(2) have "sint (e - b) = uint (e - b)" by (intro sint_eq_uint_small) simp
  also have "uint (e - b) = int (unat e - unat b)" by (simp only: uint_nat d)
  finally have "sint (e - b) div 32 = int ((unat e - unat b) div 32)"
    by (simp only: zdiv_int) simp
  moreover have "(unat e - unat b) div 32 < 2 ^ 32"
    using assms(2) by (simp add: div_less_dividend order_le_less_trans [OF div_le_dividend])
  ultimately show ?thesis
    by (simp add: lines_between_def unat_of_nat take_bit_nat_eq_self)
qed

lemma line_cover_aligned:
  assumes "unat start + unat sz + 31 < 2 ^ 32" "unat sz < 0x7FFFFFC0"
  shows "line_cover (ALIGN_BACKWARD start LINESIZE)
     (lines_between (ALIGN_BACKWARD start LINESIZE) (ALIGN_FORWARD (start + sz) LINESIZE)) start sz"
proof -
  have sum: "unat (start + sz) = unat start + unat sz"
    using assms(1) by (simp add: unat_add_lem [THEN iffD1])
  let ?b = "ALIGN_BACKWARD start LINESIZE" and ?e = "ALIGN_FORWARD (start + sz) LINESIZE"
  have b: "unat ?b = unat start div 32 * 32" by (rule align_backward_unat)
  have e: "unat ?e = (unat start + unat sz + 31) div 32 * 32"
    using assms(1) sum by (subst align_forward_unat) simp_all
  have "unat ?b \<le> unat ?e" "unat ?e - unat ?b < 2 ^ 31"
    using assms(2) by (auto simp: b e)
  then have n: "unat (lines_between ?b ?e) = (unat ?e - unat ?b) div 32"
    by (rule lines_between_unat)
  show ?thesis unfolding line_cover_def n unfolding b e by auto
qed

lemma dc_flushrange_log:
  "\<exists>es. dc_flushrange ev start sz s = Some (s\<lparr>io_log := es @ Cp15 Drain_write_buffer #
      Cp15 (if sz > 0x4000 then Dc_flush
            else Dc_flush_entries (ALIGN_BACKWARD start LINESIZE)
              (lines_between (ALIGN_BACKWARD start LINESIZE) (ALIGN_FORWARD (start + sz) LINESIZE)))
      # io_log s\<rparr>) \<and> list_all (io_addr ahb_reg) es"
proof -
  define c where "c = (if sz > 0x4000 then Dc_flush else Dc_flush_entries (ALIGN_BACKWARD start LINESIZE)
              (lines_between (ALIGN_BACKWARD start LINESIZE) (ALIGN_FORWARD (start + sz) LINESIZE)))"
  let ?t = "cp15_op Drain_write_buffer (cp15_op c (snd (irq_kill s)))"
  obtain u where u: "ahb_flush_from ev AHB_1 ?t = Some u"
    using ahb_flush_from_returns by blast
  have "dc_flushrange ev start sz s = Some (irq_restore (fst (irq_kill s)) u)"
    using u by (simp add: dc_flushrange_def access_unfold c_def split: if_splits)
  moreover obtain es where "u = ?t\<lparr>io_log := es @ io_log ?t\<rparr>" "list_all (io_addr ahb_reg) es"
    using ahb_flush_from_step [OF u] by (rule io_stepD)
  ultimately show ?thesis
    by (auto simp: irq_restore_def irq_kill_def cp15_op_def emit_def c_def
        kill_restore_bits [of "cpsr s" 192, simplified] intro!: exI [of _ es])
qed

lemma dc_invalidaterange_log:
  "\<exists>es. dc_invalidaterange ev start sz s = Some (s\<lparr>io_log := es @
      Cp15 (Dc_inval_entries (ALIGN_BACKWARD start LINESIZE)
              (lines_between (ALIGN_BACKWARD start LINESIZE) (ALIGN_FORWARD (start + sz) LINESIZE)))
      # io_log s\<rparr>) \<and> list_all (io_addr ahb_reg) es"
proof -
  define c where "c = Dc_inval_entries (ALIGN_BACKWARD start LINESIZE)
     (lines_between (ALIGN_BACKWARD start LINESIZE) (ALIGN_FORWARD (start + sz) LINESIZE))"
  let ?t = "cp15_op c (snd (irq_kill s))"
  obtain u where u: "ahb_flush_to ev AHB_STARLET ?t = Some u"
    using ahb_flush_to_starlet by blast
  have "dc_invalidaterange ev start sz s = Some (irq_restore (fst (irq_kill s)) u)"
    using u by (simp add: dc_invalidaterange_def access_unfold c_def)
  moreover obtain es where "u = ?t\<lparr>io_log := es @ io_log ?t\<rparr>" "list_all (io_addr ahb_reg) es"
    using ahb_flush_to_step [OF u] by (rule io_stepD)
  ultimately show ?thesis
    by (auto simp: irq_restore_def irq_kill_def cp15_op_def emit_def c_def
        kill_restore_bits [of "cpsr s" 192, simplified] intro!: exI [of _ es])
qed

text \<open>
  For a range that does not reach the end of the address space, \<^verbatim>\<open>dc_flushrange\<close> returns
  having cleaned the whole data cache (ranges over 16 KiB) or exactly the cache lines that hold the
  range, then drained the write buffer, then flushed the bus; \<^verbatim>\<open>dc_invalidaterange\<close> returns having
  invalidated exactly the lines that hold the range. Both leave the interrupt mask as they found it.
\<close>

theorem dc_ranges_cover:
  assumes "unat start + unat sz + 31 < 2 ^ 32" "unat sz < 0x7FFFFFC0"
  shows "(\<exists>es c. dc_flushrange ev start sz s =
              Some (s\<lparr>io_log := es @ Cp15 Drain_write_buffer # Cp15 c # io_log s\<rparr>)
           \<and> list_all (io_addr ahb_reg) es
           \<and> (if sz > 0x4000 then c = Dc_flush
              else \<exists>b n. c = Dc_flush_entries b n \<and> line_cover b n start sz))
       \<and> (\<exists>es b n. dc_invalidaterange ev start sz s =
              Some (s\<lparr>io_log := es @ Cp15 (Dc_inval_entries b n) # io_log s\<rparr>)
           \<and> list_all (io_addr ahb_reg) es \<and> line_cover b n start sz)"
  using dc_flushrange_log [of ev start sz s] dc_invalidaterange_log [of ev start sz s]
    line_cover_aligned [OF assms]
  by (auto split: if_splits)

definition idle_env :: env where
  "idle_env l a = 0xFFFF"

theorem dc_ranges_cover_witness:
  "(\<exists>es c. dc_flushrange idle_env 0x11 0x20 \<lparr>io_log = [], cpsr = 0, cp_cr = 0, cp_ttbr = 0, cp_dacr = 0\<rparr>
      = Some \<lparr>io_log = es @ [Cp15 Drain_write_buffer, Cp15 c], cpsr = 0, cp_cr = 0, cp_ttbr = 0, cp_dacr = 0\<rparr>
      \<and> (\<exists>b n. c = Dc_flush_entries b n \<and> line_cover b n 0x11 0x20))
    \<and> line_cover 0 2 0x11 0x20"
  using dc_ranges_cover [of "0x11" "0x20" idle_env
      "\<lparr>io_log = [], cpsr = 0, cp_cr = 0, cp_ttbr = 0, cp_dacr = 0\<rparr>"]
  by (auto simp: line_cover_def)

section \<open>The page table after initialization\<close>

lemma map_section_loop_nth:
  assumes "unat frm + n \<le> length pt" "unat frm + n \<le> 2 ^ 32"
  shows "\<exists>pt'. map_section_loop n frm to attr pt = Some pt' \<and> length pt' = length pt
    \<and> (\<forall>i < length pt. pt' ! i = (if unat frm \<le> i \<and> i < unat frm + n
          then push_bit 20 (to + of_nat (i - unat frm)) OR attr else pt ! i))"
  using assms
proof (induction n arbitrary: frm to pt)
  case (Suc n)
  show ?case
  proof (cases "n = 0")
    case True
    with Suc.prems show ?thesis by (auto simp: nth_list_update)
  next
    case False
    with Suc.prems have f: "unat (frm + 1) = unat frm + 1"
      by (simp add: unat_add_lem [THEN iffD1])
    let ?pt = "pt[unat frm := push_bit 20 to OR attr]"
    have 1: "unat (frm + 1) + n \<le> length ?pt" "unat (frm + 1) + n \<le> 2 ^ 32"
      using Suc.prems by (simp_all add: f)
    obtain pt' where pt': "map_section_loop n (frm + 1) (to + 1) attr ?pt = Some pt'"
      "length pt' = length pt"
      "\<And>i. i < length pt \<Longrightarrow> pt' ! i = (if unat frm + 1 \<le> i \<and> i < unat frm + 1 + n
          then push_bit 20 (to + 1 + of_nat (i - (unat frm + 1))) OR attr else ?pt ! i)"
      using Suc.IH [OF 1, of "to + 1"] unfolding f by auto
    have shift: "to + 1 + of_nat (i - (unat frm + 1)) = to + of_nat (i - unat frm)"
      if "unat frm + 1 \<le> i" for i
      using that by (auto simp: le_iff_add)
    show ?thesis
      using pt' Suc.prems shift
      by (auto simp: nth_list_update Suc_le_eq not_less dest: le_antisym)
  qed
qed auto

text \<open>How the MMU reads the first-level table: only section descriptors translate.\<close>

definition translate :: "u32 list \<Rightarrow> u32 \<Rightarrow> u32 option" where
  "translate pt va = (let d = pt ! unat (drop_bit 20 va) in
     if d AND 3 = 2 then Some ((d AND 0xFFF00000) OR (va AND 0xFFFFF)) else None)"

definition cacheable :: "u32 list \<Rightarrow> u32 \<Rightarrow> bool" where
  "cacheable pt va \<longleftrightarrow> pt ! unat (drop_bit 20 va) AND 8 \<noteq> 0"

text \<open>The megabytes that hold memory and those that hold device registers.\<close>

definition ram_section :: "nat \<Rightarrow> bool" where
  "ram_section i \<longleftrightarrow> i < 0x18 \<or> 0x100 \<le> i \<and> i < 0x140 \<or> i = 0xfff"

definition io_section :: "nat \<Rightarrow> bool" where
  "io_section i \<longleftrightarrow> i = 0xc0 \<or> i = 0xd0 \<or> i = 0xd8"

definition section_entry :: "nat \<Rightarrow> u32" where
  "section_entry i = (if ram_section i then push_bit 20 (of_nat i) OR 0xC1E
     else if io_section i then push_bit 20 (of_nat i) OR 0xC12 else 0)"

lemma map_section_nth:
  assumes "unat frm + unat n \<le> length pt" "length pt = 4096"
  shows "\<exists>pt'. map_section frm frm n attr pt = Some pt' \<and> length pt' = 4096
    \<and> (\<forall>i < 4096. pt' ! i = (if unat frm \<le> i \<and> i < unat frm + unat n
          then push_bit 20 (of_nat i) OR (attr OR SECTION) else pt ! i))"
  using map_section_loop_nth [of frm "unat n" pt frm "attr OR SECTION"] assms
  by (auto simp: map_section_def)

lemma map_all_nth:
  assumes len: "length pt = 4096"
  shows "\<exists>pt'. map_all pt = Some pt' \<and> length pt' = 4096 \<and> (\<forall>i < 4096. pt' ! i = section_entry i)"
proof -
  have m0: "memset32 pt 0 16384 = Some (replicate 4096 0)"
    using len by (simp add: memset32_def)
  obtain p1 where 1: "map_section 0 0 0x18 0xC0C (replicate 4096 0) = Some p1" "length p1 = 4096"
    "\<forall>i < 4096. p1 ! i = (if i < 0x18 then push_bit 20 (of_nat i) OR 0xC1E else 0)"
    using map_section_nth [of 0 "0x18" "replicate 4096 0" "0xC0C"] by auto
  obtain p2 where 2: "map_section 0x100 0x100 0x40 0xC0C p1 = Some p2" "length p2 = 4096"
    "\<forall>i < 4096. p2 ! i = (if 0x100 \<le> i \<and> i < 0x140 then push_bit 20 (of_nat i) OR 0xC1E else p1 ! i)"
    using map_section_nth [of "0x100" "0x40" p1 "0xC0C"] 1(2) by auto
  obtain p3 where 3: "map_section 0xc0 0xc0 1 0xC00 p2 = Some p3" "length p3 = 4096"
    "\<forall>i < 4096. p3 ! i = (if 0xc0 \<le> i \<and> i < 0xc1 then push_bit 20 (of_nat i) OR 0xC12 else p2 ! i)"
    using map_section_nth [of "0xc0" 1 p2 "0xC00"] 2(2) by auto
  obtain p4 where 4: "map_section 0xd0 0xd0 1 0xC00 p3 = Some p4" "length p4 = 4096"
    "\<forall>i < 4096. p4 ! i = (if 0xd0 \<le> i \<and> i < 0xd1 then push_bit 20 (of_nat i) OR 0xC12 else p3 ! i)"
    using map_section_nth [of "0xd0" 1 p3 "0xC00"] 3(2) by auto
  obtain p5 where 5: "map_section 0xd8 0xd8 1 0xC00 p4 = Some p5" "length p5 = 4096"
    "\<forall>i < 4096. p5 ! i = (if 0xd8 \<le> i \<and> i < 0xd9 then push_bit 20 (of_nat i) OR 0xC12 else p4 ! i)"
    using map_section_nth [of "0xd8" 1 p4 "0xC00"] 4(2) by auto
  obtain p6 where 6: "map_section 0xfff 0xfff 1 0xC0C p5 = Some p6" "length p6 = 4096"
    "\<forall>i < 4096. p6 ! i = (if 0xfff \<le> i \<and> i < 0x1000 then push_bit 20 (of_nat i) OR 0xC1E else p5 ! i)"
    using map_section_nth [of "0xfff" 1 p5 "0xC0C"] 5(2) by auto
  have "map_all pt = Some p6"
    by (simp add: map_all_def m0 1(1) 2(1) 3(1) 4(1) 5(1) 6(1))
  moreover have "p6 ! i = section_entry i" if "i < 4096" for i
    using that by (auto simp: 1(3) 2(3) 3(3) 4(3) 5(3) 6(3) section_entry_def ram_section_def
        io_section_def)
  ultimately show ?thesis using 6(2) by blast
qed

lemma section_entry_bits:
  fixes w :: u32
  shows "(push_bit 20 w OR 0xC1E) AND 3 = 2" "(push_bit 20 w OR 0xC12) AND 3 = 2"
    "(push_bit 20 w OR 0xC1E) AND 8 \<noteq> 0" "(push_bit 20 w OR 0xC12) AND 8 = 0"
    "(push_bit 20 w OR 0xC1E) AND 0xFFF00000 = push_bit 20 w"
    "(push_bit 20 w OR 0xC12) AND 0xFFF00000 = push_bit 20 w"
proof -
  have m: "(push_bit 20 w :: u32) AND mask 20 = 0" "(push_bit 20 w :: u32) AND NOT (mask 20) = push_bit 20 w"
    by (auto intro!: bit_word_eqI simp: bit_simps)
  have low: "push_bit 20 w AND k = (0 :: u32)" if "k AND mask 20 = k" for k
  proof -
    have "push_bit 20 w AND k = (push_bit 20 w AND mask 20) AND k"
      by (subst that [symmetric]) (simp only: and.assoc and.left_commute and.commute)
    then show ?thesis by (simp only: m bit.conj_zero_left)
  qed
  show "(push_bit 20 w OR 0xC1E) AND 3 = 2" "(push_bit 20 w OR 0xC12) AND 3 = 2"
    "(push_bit 20 w OR 0xC1E) AND 8 \<noteq> 0" "(push_bit 20 w OR 0xC12) AND 8 = 0"
    using low [of 3] low [of 8]
    by (simp_all add: bit.conj_disj_distrib2 mask_eq_exp_minus_1)
  have minus: "- 1048576 = (0xFFF00000 :: u32)" by simp
  show "(push_bit 20 w OR 0xC1E) AND 0xFFF00000 = push_bit 20 w"
    "(push_bit 20 w OR 0xC12) AND 0xFFF00000 = push_bit 20 w"
    using m(2) minus by (simp_all add: bit.conj_disj_distrib2 mask_eq_exp_minus_1)
qed

lemma section_rejoin: "push_bit 20 (drop_bit 20 va) OR (va AND 0xFFFFF) = (va :: u32)"
proof -
  have "push_bit 20 (drop_bit 20 va) OR (va AND mask 20) = va"
    by (rule bit_word_eqI) (auto simp: bit_simps)
  then show ?thesis by (simp add: mask_eq_exp_minus_1)
qed

text \<open>
  C12: \<^verbatim>\<open>mem_initialize\<close> on a page table of 4096 entries returns with MMU and both caches on, the
  table installed and the interrupt mask as before. Under the installed table every mapped address
  translates to itself, main memory (MEM1, MEM2, the SRAM megabyte at the top) is cached, the three
  device-register megabytes are mapped uncached, and everything else faults.
\<close>

theorem mem_initialize_ok:
  assumes "length (page_table s) = 4096"
  shows "\<exists>s'. mem_initialize pt_addr s = Some s' \<and> cpsr s' = cpsr s
     \<and> cp_ttbr s' = pt_addr \<and> cp_dacr s' = 0xFFFFFFFF
     \<and> cp_cr s' = cp_cr s OR (CR_MMU OR CR_DCACHE OR CR_ICACHE)
     \<and> length (page_table s') = 4096
     \<and> (\<forall>va. let i = unat (drop_bit 20 va) in
          translate (page_table s') va = (if ram_section i \<or> io_section i then Some va else None)
          \<and> (cacheable (page_table s') va \<longleftrightarrow> ram_section i))"
proof -
  obtain pt' where pt': "map_all (page_table s) = Some pt'" "length pt' = 4096"
    "\<And>i. i < 4096 \<Longrightarrow> pt' ! i = section_entry i"
    using map_all_nth [OF assms] by blast
  have idx: "unat (drop_bit 20 va) < 4096" for va :: u32
  proof -
    have "unat (drop_bit 20 va) = unat va div 2 ^ 20"
      by (subst unat_drop_bit_eq) (rule drop_bit_eq_div)
    moreover have "unat va < 2 ^ 32" by (rule less_le_trans [OF unsigned_less]) simp
    ultimately show ?thesis by simp
  qed
  have disj: "\<not> (ram_section i \<and> io_section i)" for i
    by (auto simp: ram_section_def io_section_def)
  have "translate pt' va = (if ram_section i \<or> io_section i then Some va else None)
          \<and> (cacheable pt' va \<longleftrightarrow> ram_section i)" if "i = unat (drop_bit 20 va)" for va i
    using that idx [of va] disj [of i]
    by (auto simp: translate_def cacheable_def pt'(3) section_entry_def section_entry_bits
        section_rejoin Let_def)
  then show ?thesis using pt'(1,2)
    by (auto simp: mem_initialize_def access_unfold irq_kill_def irq_restore_def mem_protect_def
        gecko_msg_def cp15_op_def emit_def write16_def udelay_ev_def Let_def or.assoc
        kill_restore_bits [of "cpsr s" 192, simplified])
qed

definition mem_reset :: mem_st where
  "mem_reset = \<lparr>io_log = [], cpsr = 0xD3, cp_cr = 0x78, cp_ttbr = 0, cp_dacr = 0,
     page_table = replicate 4096 0\<rparr>"

theorem mem_initialize_ok_witness:
  "\<exists>s'. mem_initialize 0xFFFF4000 mem_reset = Some s' \<and> cpsr s' = 0xD3 \<and> cp_cr s' = 0x107D
     \<and> translate (page_table s') 0x0d8b4228 = Some 0x0d8b4228
     \<and> \<not> cacheable (page_table s') 0x0d8b4228
     \<and> cacheable (page_table s') 0x10000000 \<and> translate (page_table s') 0x40000000 = None"
proof -
  have "length (page_table mem_reset) = 4096" by (simp add: mem_reset_def)
  from mem_initialize_ok [OF this, of "0xFFFF4000"] obtain s'
    where s': "mem_initialize 0xFFFF4000 mem_reset = Some s'" "cpsr s' = 0xD3" "cp_cr s' = 0x107D"
      and tr: "\<And>va. let i = unat (drop_bit 20 va) in
          translate (page_table s') va = (if ram_section i \<or> io_section i then Some va else None)
          \<and> (cacheable (page_table s') va \<longleftrightarrow> ram_section i)"
    by (auto simp: mem_reset_def)
  from tr [of "0x0d8b4228"] tr [of "0x10000000"] tr [of "0x40000000"] s' show ?thesis
    by (simp add: ram_section_def io_section_def)
qed

text \<open>
  The DMA address of a buffer in one of the three windows onto the SRAM lies in the 128 KiB DMA
  window; any other address is its own DMA address and no register is read.
\<close>

lemma dma_addr_window:
  "if drop_bit 20 addr \<in> {0xfff, 0x0d4, 0x0dc}
   then fst (dma_addr ev addr s) AND 0xFFFE0000 = 0x0d400000
     \<and> fst (dma_addr ev addr s) AND 0xFFFF = addr AND 0xFFFF
   else dma_addr ev addr s = (addr, s)"
proof -
  have 1: "((x AND 0x1FFFF) OR 0x0d400000) AND 0xFFFE0000 = 0x0d400000"
    "((x AND 0x1FFFF) OR 0x0d400000) AND 0xFFFF = x AND 0xFFFF" for x :: u32
    by (simp_all add: bit.conj_disj_distrib2 and.assoc)
  have 2: "(x XOR 0x10000) AND 0xFFFF = x AND 0xFFFF" for x :: u32
    by (simp add: bit.conj_xor_distrib2)
  show ?thesis by (simp add: dma_addr_def access_unfold 1 2)
qed

end
