(* ===== verification/Timer.thy ===== *)
theory Timer
  imports Memory
begin

text \<open>
  \<^verbatim>\<open>udelay\<close> of \<^verbatim>\<open>armboot/common/utils.c\<close>: a busy wait on the free-running 32-bit tick counter
  \<^verbatim>\<open>HW_TIMER\<close>, with the wrap-around of the counter handled by the code. The other components record
  a delay as one event; this theory shows that the loop behind that event waits long enough and
  returns.
\<close>

section \<open>The code\<close>

definition udelay_ticks :: "u32 \<Rightarrow> u32" where
  "udelay_ticks d = (let ticks = d * 19 div 10 in if ticks < 2 then 2 else ticks)"

text \<open>\<^verbatim>\<open>while (now < then) now = read32(HW_TIMER);\<close>\<close>

definition udelay_wait :: "env \<Rightarrow> u32 \<Rightarrow> u32 \<Rightarrow> 'a mach_scheme \<Rightarrow> 'a mach_scheme option" where
  "udelay_wait ev now thn s = (if now < thn then poll ev HW_TIMER (\<lambda>v. v < thn) s else Some s)"

definition udelay :: "env \<Rightarrow> u32 \<Rightarrow> 'a mach_scheme \<Rightarrow> 'a mach_scheme option" where
  "udelay ev d s = do {
     let ticks = udelay_ticks d;
     let (now, s) = read32 ev HW_TIMER s;
     let thn = now + ticks;
     (now, s) \<leftarrow> (if thn < now then do {
          s \<leftarrow> poll ev HW_TIMER (\<lambda>v. v \<ge> now) s;
          Some (read32 ev HW_TIMER s) }
        else Some (now, s));
     udelay_wait ev now thn s }"

section \<open>A free-running counter\<close>

text \<open>
  \<open>clock T K ev\<close>: the counter register shows the low 32 bits of a tick count \<open>T\<close> that advances with
  every event, by at most \<open>K\<close> ticks (the time between two polls of the loop).
\<close>

definition clock :: "(io list \<Rightarrow> nat) \<Rightarrow> nat \<Rightarrow> env \<Rightarrow> bool" where
  "clock T K ev \<longleftrightarrow> (\<forall>l. ev l HW_TIMER = of_nat (T l)) \<and> (\<forall>e l. T l < T (e # l) \<and> T (e # l) \<le> T l + K)"

lemma clock_read:
  assumes "clock T K ev"
  shows "unat (fst (read32 ev HW_TIMER s)) = T (io_log s) mod 2 ^ 32"
    and "T (io_log s) < T (io_log (snd (read32 ev HW_TIMER s)))"
    and "T (io_log (snd (read32 ev HW_TIMER s))) \<le> T (io_log s) + K"
  using assms by (simp_all add: clock_def read32_def Let_def emit_def unat_of_nat take_bit_eq_mod)

lemma clock_mono: "clock T K ev \<Longrightarrow> T l \<le> T (es @ l)"
proof (induction es)
  case (Cons e es)
  then have "T (es @ l) < T (e # es @ l)" by (simp add: clock_def)
  with Cons show ?case by simp
qed simp

lemma reads_snoc: "reads ev a (Suc n) s = snd (read32 ev a (reads ev a n s))"
  by (simp add: reads_def)

text \<open>Polling reaches any window of \<open>K\<close> ticks that lies ahead.\<close>

lemma clock_hits:
  assumes "clock T K ev" "T (io_log s) < m + K"
  shows "\<exists>n. m \<le> T (io_log (reads ev HW_TIMER n s)) \<and> T (io_log (reads ev HW_TIMER n s)) < m + K"
  using assms(2)
proof (induction "m - T (io_log s)" arbitrary: s rule: less_induct)
  case less
  show ?case
  proof (cases "m \<le> T (io_log s)")
    case True
    with less.prems show ?thesis by (intro exI [of _ 0]) simp
  next
    case False
    let ?s = "snd (read32 ev HW_TIMER s)"
    have "T (io_log s) < T (io_log ?s)" "T (io_log ?s) < m + K"
      using clock_read(2,3) [OF assms(1), of s] False by auto
    moreover from this(1) False have "m - T (io_log ?s) < m - T (io_log s)" by linarith
    ultimately obtain n where
      "m \<le> T (io_log (reads ev HW_TIMER n ?s))" "T (io_log (reads ev HW_TIMER n ?s)) < m + K"
      using less.hyps [of ?s] by blast
    then show ?thesis by (intro exI [of _ "Suc n"]) (simp add: reads_Suc)
  qed
qed

lemma clock_reads_mono: "clock T K ev \<Longrightarrow> T (io_log s) \<le> T (io_log (reads ev a n s))"
  using reads_step [of a s ev n] by (auto elim!: io_stepD simp: clock_mono)

text \<open>Two counts compared through their low 32 bits.\<close>

lemma later_same_turn:
  assumes "t \<le> u" "t mod M + k \<le> u mod M"
  shows "t + k \<le> (u :: nat)"
proof -
  have "t div M \<le> u div M" using assms(1) by (rule div_le_mono)
  then have "t div M * M \<le> u div M * M" by simp
  with assms(2) div_mult_mod_eq [of t M] div_mult_mod_eq [of u M] show ?thesis by linarith
qed

lemma later_next_turn:
  assumes "t \<le> u" "u mod M < t mod M"
  shows "(t div M + 1) * M \<le> (u :: nat)"
proof -
  have "t div M \<noteq> u div M"
  proof
    assume "t div M = u div M"
    then have "t div M * M = u div M * M" by (simp only:)
    with assms div_mult_mod_eq [of t M] div_mult_mod_eq [of u M] show False by linarith
  qed
  moreover have "t div M \<le> u div M" using assms(1) by (rule div_le_mono)
  ultimately have "(t div M + 1) * M \<le> u div M * M" by (intro mult_le_mono1) linarith
  then show ?thesis using div_mult_mod_eq [of u M] by linarith
qed

lemma wait_reaches:
  assumes "clock T K ev" "udelay_wait ev now thn s = Some s'" "unat now = t mod 2 ^ 32" "t \<le> T (io_log s)"
  shows "\<exists>u. t \<le> u \<and> u \<le> T (io_log s') \<and> unat thn \<le> u mod 2 ^ 32"
proof (cases "now < thn")
  case True
  with assms(2) have "poll ev HW_TIMER (\<lambda>v. v < thn) s = Some s'" by (simp add: udelay_wait_def)
  from poll_SomeD [OF this] obtain k where k: "s' = snd (read32 ev HW_TIMER (reads ev HW_TIMER k s))"
    "\<not> fst (read32 ev HW_TIMER (reads ev HW_TIMER k s)) < thn" by (auto simp: reads_snoc)
  let ?u = "T (io_log (reads ev HW_TIMER k s))"
  have "t \<le> ?u" using clock_reads_mono [OF assms(1)] assms(4) order_trans by blast
  moreover have "?u \<le> T (io_log s')" unfolding k(1) by (rule less_imp_le [OF clock_read(2) [OF assms(1)]])
  moreover have "unat thn \<le> ?u mod 2 ^ 32"
    using k(2) by (simp only: not_less word_le_nat_alt clock_read(1) [OF assms(1)])
  ultimately show ?thesis by blast
next
  case False
  with assms show ?thesis by (intro exI [of _ t]) (auto simp: udelay_wait_def not_less word_le_nat_alt)
qed

lemma sum_mod_less_iff:
  assumes "a < M" "b < M"
  shows "(a + b) mod M < a \<longleftrightarrow> M \<le> (a + b :: nat)"
    and "M \<le> a + b \<Longrightarrow> (a + b) mod M = a + b - M"
  using assms by (cases "a + b < M"; auto simp: le_mod_geq)+

lemma wrap_iff:
  fixes now ticks :: u32
  shows "now + ticks < now \<longleftrightarrow> 2 ^ 32 \<le> unat now + unat ticks"
    and "unat (now + ticks) = (unat now + unat ticks) mod 2 ^ 32"
proof -
  show eq: "unat (now + ticks) = (unat now + unat ticks) mod 2 ^ 32"
    by (simp add: unat_word_ariths)
  have "unat now < 2 ^ 32" "unat ticks < 2 ^ 32"
    by (rule less_le_trans [OF unsigned_less]; simp)+
  then show "now + ticks < now \<longleftrightarrow> 2 ^ 32 \<le> unat now + unat ticks"
    unfolding word_less_nat_alt eq by (rule sum_mod_less_iff)
qed

lemma udelay_not_early:
  assumes clk: "clock T K ev" and ret: "udelay ev d s = Some s'"
  shows "T (io_log s) + unat (udelay_ticks d) \<le> T (io_log s')"
proof -
  let ?t = "T (io_log s)" and ?k = "unat (udelay_ticks d)"
  define now where "now = fst (read32 ev HW_TIMER s)"
  define s1 where "s1 = snd (read32 ev HW_TIMER s)"
  define thn where "thn = now + udelay_ticks d"
  have now: "unat now = ?t mod 2 ^ 32" unfolding now_def by (rule clock_read(1) [OF clk])
  have s1: "?t \<le> T (io_log s1)" unfolding s1_def by (rule less_imp_le [OF clock_read(2) [OF clk]])
  have k: "?k < 2 ^ 32" "?t mod 2 ^ 32 < 2 ^ 32" by (rule less_le_trans [OF unsigned_less]; simp) simp
  show ?thesis
  proof (cases "thn < now")
    case False
    then have "udelay_wait ev now thn s1 = Some s'"
      using ret by (simp add: udelay_def now_def s1_def thn_def access_unfold)
    from wait_reaches [OF clk this now s1] obtain u
      where u: "?t \<le> u" "u \<le> T (io_log s')" "unat thn \<le> u mod 2 ^ 32" by blast
    moreover have "unat thn = ?t mod 2 ^ 32 + ?k"
      using False unfolding thn_def wrap_iff now not_le by (simp only: mod_less)
    ultimately have "?t + ?k \<le> u" by (metis later_same_turn)
    with u show ?thesis by linarith
  next
    case True
    then obtain s2 where s2: "poll ev HW_TIMER (\<lambda>v. v \<ge> now) s1 = Some s2"
      and w: "udelay_wait ev (fst (read32 ev HW_TIMER s2)) thn (snd (read32 ev HW_TIMER s2)) = Some s'"
      using ret by (auto simp: udelay_def now_def s1_def thn_def access_unfold)
    from poll_SomeD [OF s2] obtain j where j: "s2 = snd (read32 ev HW_TIMER (reads ev HW_TIMER j s1))"
      "fst (read32 ev HW_TIMER (reads ev HW_TIMER j s1)) < now" by (auto simp: reads_snoc not_le)
    let ?u1 = "T (io_log (reads ev HW_TIMER j s1))" and ?u2 = "T (io_log s2)"
    have "?u1 mod 2 ^ 32 < ?t mod 2 ^ 32"
      using j(2) by (simp only: word_less_nat_alt clock_read(1) [OF clk] now)
    moreover have "?t \<le> ?u1" using clock_reads_mono [OF clk] s1 order_trans by blast
    ultimately have turn: "(?t div 2 ^ 32 + 1) * 2 ^ 32 \<le> ?u1" by (intro later_next_turn)
    have u12: "?u1 \<le> ?u2" unfolding j(1) by (rule less_imp_le [OF clock_read(2) [OF clk]])
    have "?u2 \<le> T (io_log (snd (read32 ev HW_TIMER s2)))"
      by (rule less_imp_le [OF clock_read(2) [OF clk]])
    from wait_reaches [OF clk w clock_read(1) [OF clk] this] obtain u
      where u: "?u2 \<le> u" "u \<le> T (io_log s')" "unat thn \<le> u mod 2 ^ 32" by blast
    have "unat thn = ?t mod 2 ^ 32 + ?k - 2 ^ 32" and ge: "2 ^ 32 \<le> ?t mod 2 ^ 32 + ?k"
      using True sum_mod_less_iff(2) [OF k(2,1)] unfolding thn_def wrap_iff now by simp_all
    moreover have "(?t div 2 ^ 32 + 1) * 2 ^ 32 + unat thn \<le> u"
      using later_same_turn [of "(?t div 2 ^ 32 + 1) * 2 ^ 32" u "2 ^ 32" "unat thn"] turn u12 u
      by simp
    ultimately show ?thesis
      using u(2) div_mult_mod_eq [of ?t "2 ^ 32"] unfolding add_mult_distrib by linarith
  qed
qed

lemma reads_add: "reads ev a (i + j) s = reads ev a j (reads ev a i s)"
  by (induction i arbitrary: s) (simp_all add: reads_Suc)

text \<open>A poll that accepts every count of a window of \<open>K\<close> ticks returns by the end of the window.\<close>

lemma clock_poll:
  assumes clk: "clock T K ev" and "T (io_log s) < m + K"
    and win: "\<And>u. m \<le> u \<Longrightarrow> u < m + K \<Longrightarrow> \<not> P (of_nat u)"
  shows "\<exists>s'. poll ev HW_TIMER P s = Some s' \<and> T (io_log s) \<le> T (io_log s') \<and> T (io_log s') < m + 2 * K"
proof -
  obtain n where n: "m \<le> T (io_log (reads ev HW_TIMER n s))" "T (io_log (reads ev HW_TIMER n s)) < m + K"
    using clock_hits [OF assms(1,2)] by blast
  have "fst (read32 ev HW_TIMER t) = of_nat (T (io_log t))" for t :: "'a mach_scheme"
    using clk by (simp add: clock_def read32_def Let_def)
  with win [OF n] have "\<not> P (fst (read32 ev HW_TIMER (reads ev HW_TIMER n s)))" by simp
  from poll_returns [of P, OF this] obtain k
    where k: "k \<le> n" "poll ev HW_TIMER P s = Some (reads ev HW_TIMER (Suc k) s)" by blast
  have "T (io_log (reads ev HW_TIMER k s)) \<le> T (io_log (reads ev HW_TIMER n s))"
    using clock_reads_mono [OF clk, of "reads ev HW_TIMER k s" HW_TIMER "n - k"] k(1)
    by (simp flip: reads_add)
  then have "T (io_log (reads ev HW_TIMER (Suc k) s)) < m + 2 * K"
    using clock_read(3) [OF clk, of "reads ev HW_TIMER k s"] n(2) by (simp add: reads_snoc)
  then show ?thesis using k(2) clock_reads_mono [OF clk] by blast
qed

lemma turn_mod: "j < M \<Longrightarrow> (q * M + j) mod M = (j :: nat)"
  by simp

lemma unat_count: "unat (of_nat u :: u32) = u mod 2 ^ 32"
  by (simp add: unat_of_nat take_bit_eq_mod)

lemma wait_returns:
  assumes clk: "clock T K ev" and "T (io_log s) < q * 2 ^ 32 + unat thn + K"
    and "unat thn + K \<le> 2 ^ 32"
  shows "\<exists>s'. poll ev HW_TIMER (\<lambda>v. v < thn) s = Some s' \<and> T (io_log s') < q * 2 ^ 32 + unat thn + 2 * K"
proof -
  have "\<not> of_nat u < thn" if "q * 2 ^ 32 + unat thn \<le> u" "u < q * 2 ^ 32 + unat thn + K" for u
  proof -
    define j where "j = u - q * 2 ^ 32"
    have "u = q * 2 ^ 32 + j" "unat thn \<le> j" "j < 2 ^ 32"
      using that assms(3) unfolding j_def by linarith+
    then show ?thesis
      unfolding not_less word_le_nat_alt unat_count by (simp only: turn_mod)
  qed
  with clock_poll [OF clk assms(2), of "\<lambda>v. v < thn"] show ?thesis by blast
qed

lemma udelay_returns:
  assumes clk: "clock T K ev" and small: "unat (udelay_ticks d) + 4 * K \<le> 2 ^ 32"
    and gap: "T (io_log s) mod 2 ^ 32 + unat (udelay_ticks d) + K \<le> 2 ^ 32
            \<or> 2 ^ 32 \<le> T (io_log s) mod 2 ^ 32 + unat (udelay_ticks d)"
  shows "\<exists>s'. udelay ev d s = Some s' \<and> T (io_log s') \<le> T (io_log s) + unat (udelay_ticks d) + 3 * K"
proof -
  let ?t = "T (io_log s)" and ?k = "unat (udelay_ticks d)" and ?M = "2 ^ 32 :: nat"
  define now where "now = fst (read32 ev HW_TIMER s)"
  define s1 where "s1 = snd (read32 ev HW_TIMER s)"
  define thn where "thn = now + udelay_ticks d"
  define q where "q = ?t div ?M"
  have now: "unat now = ?t mod ?M" unfolding now_def by (rule clock_read(1) [OF clk])
  have tq: "?t = q * ?M + ?t mod ?M" unfolding q_def by simp
  have s1: "?t < T (io_log s1)" "T (io_log s1) \<le> ?t + K"
    unfolding s1_def by (rule clock_read [OF clk])+
  have k: "2 \<le> ?k" "?k < ?M" "?t mod ?M < ?M"
    by (auto simp: udelay_ticks_def Let_def word_less_nat_alt not_less)
      (rule less_le_trans [OF unsigned_less]; simp)
  show ?thesis
  proof (cases "thn < now")
    case False
    then have thn: "unat thn = ?t mod ?M + ?k" and nw: "\<not> ?M \<le> ?t mod ?M + ?k"
      unfolding thn_def wrap_iff now not_le by (simp_all only: mod_less)
    have lt: "now < thn" using k(1) by (simp only: word_less_nat_alt now thn)
    have "T (io_log s1) < q * ?M + unat thn + K" "unat thn + K \<le> ?M"
      using s1 tq k(1) gap nw unfolding thn by linarith+
    from wait_returns [OF clk this] obtain s'
      where "poll ev HW_TIMER (\<lambda>v. v < thn) s1 = Some s'" "T (io_log s') < q * ?M + unat thn + 2 * K"
      by blast
    moreover from this have "udelay ev d s = Some s'"
      using False lt by (simp add: udelay_def udelay_wait_def now_def s1_def thn_def access_unfold)
    ultimately show ?thesis using tq thn by (intro exI [of _ s']) linarith
  next
    case True
    then have ge: "?M \<le> ?t mod ?M + ?k" and thn: "unat thn = ?t mod ?M + ?k - ?M"
      using sum_mod_less_iff(2) [OF k(3,2)] unfolding thn_def wrap_iff now by simp_all
    define m where "m = (q + 1) * ?M"
    have m: "m = q * ?M + ?M" by (simp add: m_def)
    have tk: "m + unat thn = ?t + ?k" using thn ge tq unfolding m by linarith
    have win: "\<not> of_nat u \<ge> now" if "m \<le> u" "u < m + K" for u
    proof -
      define j where "j = u - m"
      have "u = (q + 1) * ?M + j" "j < ?M" "j < ?t mod ?M"
        using that small ge k unfolding j_def m_def [symmetric] by linarith+
      then show ?thesis unfolding not_le word_less_nat_alt unat_count now by (simp only: turn_mod)
    qed
    have "T (io_log s1) < m + K" using s1 tq k(3) unfolding m by linarith
    from clock_poll [OF clk this, of "\<lambda>v. v \<ge> now"] win obtain s2
      where s2: "poll ev HW_TIMER (\<lambda>v. v \<ge> now) s1 = Some s2" "T (io_log s2) < m + 2 * K" by blast
    from poll_SomeD [OF s2(1)] obtain j where j: "s2 = snd (read32 ev HW_TIMER (reads ev HW_TIMER j s1))"
      "fst (read32 ev HW_TIMER (reads ev HW_TIMER j s1)) < now" by (auto simp: reads_snoc not_le)
    have "T (io_log (reads ev HW_TIMER j s1)) mod ?M < ?t mod ?M"
      using j(2) by (simp only: word_less_nat_alt clock_read(1) [OF clk] now)
    moreover have "?t \<le> T (io_log (reads ev HW_TIMER j s1))"
      using clock_reads_mono [OF clk, of s1] s1(1) by (meson less_imp_le order_trans)
    ultimately have "m \<le> T (io_log (reads ev HW_TIMER j s1))"
      unfolding m_def q_def by (intro later_next_turn)
    then have T2: "m \<le> T (io_log s2)"
      unfolding j(1) by (rule order_trans) (rule less_imp_le [OF clock_read(2) [OF clk]])
    define s3 where "s3 = snd (read32 ev HW_TIMER s2)"
    define now2 where "now2 = fst (read32 ev HW_TIMER s2)"
    have s3: "T (io_log s3) \<le> T (io_log s2) + K" unfolding s3_def by (rule clock_read(3) [OF clk])
    have "unat now2 = T (io_log s2) mod ?M" unfolding now2_def by (rule clock_read(1) [OF clk])
    also have "\<dots> = T (io_log s2) - m"
      using T2 s2(2) small turn_mod [of "T (io_log s2) - m" ?M "q + 1"] unfolding m_def by simp
    finally have now2: "unat now2 = T (io_log s2) - m" .
    have ud: "udelay ev d s = udelay_wait ev now2 thn s3"
      using True s2(1) by (simp add: udelay_def now_def s1_def thn_def now2_def s3_def access_unfold)
    show ?thesis
    proof (cases "now2 < thn")
      case lt: True
      then have "T (io_log s3) < (q + 1) * ?M + unat thn + K" "unat thn + K \<le> ?M"
        using s3 now2 T2 thn small k unfolding m_def [symmetric] word_less_nat_alt by linarith+
      from wait_returns [OF clk this] obtain s' where "poll ev HW_TIMER (\<lambda>v. v < thn) s3 = Some s'"
        "T (io_log s') < m + unat thn + 2 * K" unfolding m_def by blast
      then show ?thesis using ud lt tk by (intro exI [of _ s']) (simp add: udelay_wait_def)
    next
      case False
      then have "udelay ev d s = Some s3" by (simp add: ud udelay_wait_def)
      moreover have "T (io_log s3) \<le> ?t + ?k + 3 * K" using s3 s2(2) tk by linarith
      ultimately show ?thesis by blast
    qed
  qed
qed

text \<open>
  C38: \<^verbatim>\<open>udelay(d)\<close> on a free-running counter never returns before its number of ticks has passed,
  whether or not the 32-bit counter wraps in between. It does return, at most three polling intervals
  late, unless the deadline falls into the last polling interval before the counter wraps. For delays
  up to 226 seconds the number of ticks is 1.9 per microsecond, rounded down, and at least 2.
\<close>

theorem udelay_waits:
  assumes "clock T K ev" "unat (udelay_ticks d) + 4 * K \<le> 2 ^ 32"
  shows "(\<forall>s'. udelay ev d s = Some s' \<longrightarrow> T (io_log s) + unat (udelay_ticks d) \<le> T (io_log s'))
     \<and> (T (io_log s) mod 2 ^ 32 + unat (udelay_ticks d) + K \<le> 2 ^ 32
          \<or> 2 ^ 32 \<le> T (io_log s) mod 2 ^ 32 + unat (udelay_ticks d)
        \<longrightarrow> (\<exists>s'. udelay ev d s = Some s'
              \<and> T (io_log s') \<le> T (io_log s) + unat (udelay_ticks d) + 3 * K))
     \<and> (unat d \<le> 226050910 \<longrightarrow> unat (udelay_ticks d) = max 2 (unat d * 19 div 10))"
proof -
  have "unat (udelay_ticks d) = max 2 (unat d * 19 div 10)" if "unat d \<le> 226050910"
  proof -
    have "unat (d * 19) = unat d * 19" using that by (simp add: unat_word_ariths)
    then have "unat (d * 19 div 10) = unat d * 19 div 10" by (simp add: unat_div)
    then show ?thesis by (auto simp: udelay_ticks_def Let_def word_less_nat_alt max_def)
  qed
  with udelay_not_early [OF assms(1)] udelay_returns [OF assms] show ?thesis by blast
qed

theorem udelay_waits_witness:
  "\<exists>s'. udelay (\<lambda>l a. of_nat (2 ^ 32 - 5 + length l)) 10
          \<lparr>io_log = [], cpsr = 0, cp_cr = 0, cp_ttbr = 0, cp_dacr = 0\<rparr> = Some s'
      \<and> 19 \<le> length (io_log s')"
proof -
  let ?s = "\<lparr>io_log = [], cpsr = 0, cp_cr = 0, cp_ttbr = 0, cp_dacr = 0\<rparr> :: mach"
  let ?T = "\<lambda>l :: io list. 2 ^ 32 - 5 + length l"
  let ?ev = "(\<lambda>l a. of_nat (2 ^ 32 - 5 + length l)) :: env"
  have 1: "clock ?T 1 ?ev" by (simp add: clock_def)
  have 2: "unat (udelay_ticks 10) = 19" by (simp add: udelay_ticks_def)
  have 3: "unat (udelay_ticks 10) + 4 * 1 \<le> 2 ^ 32" by (simp add: 2)
  have 4: "2 ^ 32 \<le> ?T (io_log ?s) mod 2 ^ 32 + unat (udelay_ticks 10)" by (simp add: 2)
  from udelay_waits [OF 1 3, of ?s] 4 obtain s' where
    "udelay ?ev 10 ?s = Some s'" "?T (io_log ?s) + unat (udelay_ticks 10) \<le> ?T (io_log s')" by blast
  with 2 show ?thesis by (intro exI [of _ s']) simp
qed

end
