(* ===== verification/Nand.thy ===== *)
theory Nand
  imports Memory
begin

text \<open>
  \<^verbatim>\<open>armboot/storage/nand.c\<close>: the NAND flash controller. Commands are sequences of register writes;
  waiting polls the busy bit; the page data itself arrives by DMA and is not moved by this code. The
  ECC correction works on the page buffer and the spare buffer in memory. The write and erase
  commands, compiled in only with \<^verbatim>\<open>NAND_SUPPORT_WRITE\<close> and \<^verbatim>\<open>NAND_SUPPORT_ERASE\<close>, are in theory
  \<^verbatim>\<open>NandWrite\<close>. \<^verbatim>\<open>nand_wait\<close>, which relies on the interrupt handler, is modelled in
  theory \<^verbatim>\<open>Irq\<close>.
\<close>

section \<open>Registers and state\<close>

abbreviation (input) "NAND_CTRL \<equiv> 0x0d010000 :: u32"
abbreviation (input) "NAND_CONF \<equiv> 0x0d010004 :: u32"
abbreviation (input) "NAND_ADDR0 \<equiv> 0x0d010008 :: u32"
abbreviation (input) "NAND_ADDR1 \<equiv> 0x0d01000c :: u32"
abbreviation (input) "NAND_DATA \<equiv> 0x0d010010 :: u32"
abbreviation (input) "NAND_ECC \<equiv> 0x0d010014 :: u32"
abbreviation (input) "NAND_BANK \<equiv> 0x0d010018 :: u32"
abbreviation (input) "NAND_UNK2 \<equiv> 0x0d010030 :: u32"
abbreviation (input) "NAND_UNK3 \<equiv> 0x0d010040 :: u32"
abbreviation (input) "HW_ARMIRQFLAG \<equiv> 0x0d800038 :: u32"
abbreviation (input) "HW_ARMIRQMASK \<equiv> 0x0d80003c :: u32"

abbreviation (input) "NAND_RESET \<equiv> 0xff :: u32"
abbreviation (input) "NAND_CHIPID \<equiv> 0x90 :: u32"
abbreviation (input) "NAND_GETSTATUS \<equiv> 0x70 :: u32"
abbreviation (input) "NAND_READ_PRE \<equiv> 0x00 :: u32"
abbreviation (input) "NAND_READ_POST \<equiv> 0x30 :: u32"
abbreviation (input) "NAND_BUSY_MASK \<equiv> 0x80000000 :: u32"
abbreviation (input) "NAND_ERROR \<equiv> 0x20000000 :: u32"
abbreviation (input) "NAND_FLAGS_IRQ \<equiv> 0x40000000 :: u32"
abbreviation (input) "NAND_FLAGS_WAIT \<equiv> 0x8000 :: u32"
abbreviation (input) "NAND_FLAGS_RD \<equiv> 0x2000 :: u32"
abbreviation (input) "NAND_FLAGS_ECC \<equiv> 0x1000 :: u32"
abbreviation (input) "NAND_CMD_EXEC \<equiv> 0x80000000 :: u32"

abbreviation (input) "NAND_BANK_SLCCMPT \<equiv> 1 :: u32"
abbreviation (input) "NAND_BANK_SLC \<equiv> 2 :: u32"
abbreviation (input) "PAGE_SIZE \<equiv> 2048 :: nat"
abbreviation (input) "PAGE_SPARE_SIZE \<equiv> 64 :: nat"
abbreviation (input) "ECC_BUFFER_SIZE \<equiv> 80 :: nat"
abbreviation (input) "ECC_BUFFER_ALLOC \<equiv> 96 :: nat"
abbreviation (input) "NAND_MAX_PAGE \<equiv> 0x40000 :: nat"

record nand_st = mem_st +
  initialized :: u32
  irq_flag :: u32
  last_page_read :: u32

section \<open>Commands\<close>

definition nand_irq :: "env \<Rightarrow> 'a nand_st_scheme \<Rightarrow> 'a nand_st_scheme option" where
  "nand_irq ev s = do {
     let (v, s) = read32 ev NAND_CTRL s;
     let s = (if v AND NAND_ERROR \<noteq> 0 then gecko_msg ''NAND: Error on IRQ'' [] s else s);
     s \<leftarrow> ahb_flush_from ev AHB_NAND s;
     s \<leftarrow> ahb_flush_to ev AHB_STARLET s;
     Some (s\<lparr>irq_flag := 1\<rparr>) }"

definition nand_wait_busy :: "env \<Rightarrow> 'a nand_st_scheme \<Rightarrow> 'a nand_st_scheme option" where
  "nand_wait_busy ev s = do {
     s \<leftarrow> poll ev NAND_CTRL (\<lambda>v. v AND NAND_BUSY_MASK \<noteq> 0) s;
     let (v, s) = read32 ev NAND_CTRL s;
     let s = (if v AND NAND_ERROR \<noteq> 0 then gecko_msg ''NAND: Error on wait'' [] s else s);
     s \<leftarrow> ahb_flush_from ev AHB_NAND s;
     ahb_flush_to ev AHB_STARLET s }"

definition nand_send_command ::
  "u32 \<Rightarrow> u32 \<Rightarrow> u32 \<Rightarrow> u32 \<Rightarrow> 'a mach_scheme \<Rightarrow> 'a mach_scheme" where
  "nand_send_command command bitmask flags num_bytes s =
    (let cmd = NAND_BUSY_MASK OR push_bit 24 bitmask OR push_bit 16 command OR flags OR num_bytes;
         s = write32 NAND_CTRL 0x7fffffff s;
         s = write32 NAND_CTRL 0 s
     in write32 NAND_CTRL cmd s)"

definition nand_set_address :: "u32 \<Rightarrow> u32 \<Rightarrow> 'a mach_scheme \<Rightarrow> 'a mach_scheme" where
  "nand_set_address page_off pageno s =
    (let s = (if page_off \<noteq> -1 then write32 NAND_ADDR0 page_off s else s)
     in if pageno \<noteq> -1 then write32 NAND_ADDR1 pageno s else s)"

definition nand_setup_dma :: "env \<Rightarrow> u32 \<Rightarrow> u32 \<Rightarrow> 'a mach_scheme \<Rightarrow> 'a mach_scheme" where
  "nand_setup_dma ev data spare s =
    (let s = (if data \<noteq> -1 then (let (a, s) = dma_addr ev data s in write32 NAND_DATA a s) else s)
     in if spare \<noteq> -1 then
          (let (addr, s) = dma_addr ev spare s;
               s = (if addr AND 0x7f \<noteq> 0
                    then gecko_msg ''NAND: Spare buffer 0x%08x is not aligned, data will be corrupted''
                           [VInt addr] s
                    else s)
           in write32 NAND_ECC addr s)
        else s)"

text \<open>The \<^verbatim>\<open>do ... while (base != NAND_UNK3 + 0xC0)\<close> loop: eight blocks of six registers; the
  first argument bounds the iterations and \<open>0xC0 / 0x18 = 8\<close> of them reach the end.\<close>

fun nand_clear_blocks :: "nat \<Rightarrow> u32 \<Rightarrow> 'a mach_scheme \<Rightarrow> 'a mach_scheme" where
  "nand_clear_blocks 0 base s = s"
| "nand_clear_blocks (Suc n) base s =
    (let s = write32 (base + 0x00) 0 s;
         s = write32 (base + 0x04) 0 s;
         s = write32 (base + 0x08) 0 s;
         s = write32 (base + 0x0C) 0 s;
         s = write32 (base + 0x10) 0 s;
         s = write32 (base + 0x14) 0 s;
         base = base + 0x18
     in if base \<noteq> NAND_UNK3 + 0xC0 then nand_clear_blocks n base s else s)"

definition nand_reset :: "env \<Rightarrow> u32 \<Rightarrow> 'a nand_st_scheme \<Rightarrow> 'a nand_st_scheme option" where
  "nand_reset ev bank s = do {
     let s = write32 NAND_CTRL 0 s;
     s \<leftarrow> poll ev NAND_CTRL (\<lambda>v. v AND NAND_CMD_EXEC \<noteq> 0) s;
     let s = write32 NAND_CTRL 0 s;
     let s = write32 NAND_CONF 0x743e3eff s;
     let s = write32 NAND_BANK 0x00000001 s;
     let s = write32 NAND_CONF 0xcb3e0e7f s;
     let s = write32 NAND_UNK2 0 s;
     s \<leftarrow> poll ev NAND_UNK2 (\<lambda>v. sint v < 0) s;
     let s = write32 NAND_UNK2 0 s;
     let s = nand_clear_blocks 8 NAND_UNK3 s;
     let s = write32 NAND_CTRL 0 s;
     s \<leftarrow> poll ev NAND_CTRL (\<lambda>v. v AND NAND_CMD_EXEC \<noteq> 0) s;
     let s = write32 NAND_CTRL 0 s;
     let s = write32 NAND_BANK bank s;
     let s = nand_send_command NAND_RESET 0 NAND_FLAGS_WAIT 0 s;
     s \<leftarrow> nand_wait_busy ev s;
     let s = write32 NAND_CONF 0x08000000 s;
     Some (write32 NAND_CONF 0x7c3e3eff s) }"

definition nand_get_id :: "env \<Rightarrow> u32 \<Rightarrow> 'a nand_st_scheme \<Rightarrow> 'a nand_st_scheme option" where
  "nand_get_id ev idbuf s = do {
     let s = s\<lparr>irq_flag := 0\<rparr>;
     let s = nand_set_address 0 0 s;
     s \<leftarrow> dc_invalidaterange ev idbuf 0x40 s;
     let s = nand_setup_dma ev idbuf (-1) s;
     Some (nand_send_command NAND_CHIPID 1 (NAND_FLAGS_IRQ OR NAND_FLAGS_RD) 0x40 s) }"

text \<open>The status buffer's first byte is cleared before the transfer.\<close>

definition nand_get_status ::
  "env \<Rightarrow> u32 \<Rightarrow> u8 list \<Rightarrow> 'a nand_st_scheme \<Rightarrow> (u8 list \<times> 'a nand_st_scheme) option" where
  "nand_get_status ev addr status_buf s = do {
     let s = s\<lparr>irq_flag := 0\<rparr>;
     status_buf \<leftarrow> store status_buf 0 0;
     s \<leftarrow> dc_invalidaterange ev addr 0x40 s;
     let s = nand_setup_dma ev addr (-1) s;
     Some (status_buf,
           nand_send_command NAND_GETSTATUS 0 (NAND_FLAGS_IRQ OR NAND_FLAGS_RD) 0x40 s) }"

definition nand_read_page ::
  "env \<Rightarrow> u32 \<Rightarrow> u32 \<Rightarrow> u32 \<Rightarrow> 'a nand_st_scheme \<Rightarrow> 'a nand_st_scheme option" where
  "nand_read_page ev pageno data ecc s = do {
     let s = s\<lparr>irq_flag := 0\<rparr>;
     let s = s\<lparr>last_page_read := pageno\<rparr>;
     let s = nand_set_address 0 pageno s;
     let s = nand_send_command NAND_READ_PRE 0x1f 0 0 s;
     s \<leftarrow> (if data \<noteq> -1 then dc_invalidaterange ev data (of_nat PAGE_SIZE) s else Some s);
     s \<leftarrow> (if ecc \<noteq> -1 then dc_invalidaterange ev ecc (of_nat ECC_BUFFER_SIZE) s else Some s);
     s \<leftarrow> nand_wait_busy ev s;
     let s = nand_setup_dma ev data ecc s;
     Some (nand_send_command NAND_READ_POST 0
        (NAND_FLAGS_IRQ OR NAND_FLAGS_WAIT OR NAND_FLAGS_RD OR NAND_FLAGS_ECC) 0x840 s) }"

text \<open>\<^verbatim>\<open>irq_enable\<close> and \<^verbatim>\<open>irq_disable\<close> of \<^verbatim>\<open>system/irq.c\<close>.\<close>

definition irq_enable :: "env \<Rightarrow> nat \<Rightarrow> 'a mach_scheme \<Rightarrow> 'a mach_scheme" where
  "irq_enable ev irq s = set32 ev HW_ARMIRQMASK (push_bit irq 1) s"

definition irq_disable :: "env \<Rightarrow> nat \<Rightarrow> 'a mach_scheme \<Rightarrow> 'a mach_scheme" where
  "irq_disable ev irq s = clear32 ev HW_ARMIRQMASK (push_bit irq 1) s"

abbreviation (input) "IRQ_NAND \<equiv> 1 :: nat"

definition nand_initialize :: "env \<Rightarrow> u32 \<Rightarrow> 'a nand_st_scheme \<Rightarrow> 'a nand_st_scheme option" where
  "nand_initialize ev bank s =
    (if initialized s = bank then Some s
     else do {
       let s = irq_disable ev IRQ_NAND s;
       s \<leftarrow> nand_reset ev bank s;
       let s = irq_enable ev IRQ_NAND s;
       Some (s\<lparr>initialized := bank\<rparr>) })"

section \<open>ECC correction\<close>

definition rd_be32 :: "u8 list \<Rightarrow> nat \<Rightarrow> u32 option" where
  "rd_be32 m a = (if a + 4 \<le> length m
     then Some (be32 (m ! a) (m ! (a + 1)) (m ! (a + 2)) (m ! (a + 3))) else None)"

text \<open>The even and odd halves of a syndrome, byte-swapped out of the register layout.\<close>

definition ecc_even :: "u32 \<Rightarrow> u16" where
  "ecc_even syndrome = ucast (drop_bit 24 syndrome OR (drop_bit 8 syndrome AND 0xf00))"

definition ecc_odd :: "u32 \<Rightarrow> u16" where
  "ecc_odd syndrome = ucast ((push_bit 8 syndrome AND 0xf00) OR (drop_bit 8 syndrome AND 0x0ff))"

definition flip_bit :: "u8 list \<Rightarrow> nat \<Rightarrow> u16 \<Rightarrow> u8 list option" where
  "flip_bit dp base pos = do {
     v \<leftarrow> load dp (int (base + unat (drop_bit 3 pos)));
     store dp (int (base + unat (drop_bit 3 pos))) (v XOR push_bit (unat (pos AND 7)) 1) }"

fun nand_correct_loop ::
  "nat \<Rightarrow> nat \<Rightarrow> u8 list \<Rightarrow> u8 list \<Rightarrow> nat \<Rightarrow> nat \<Rightarrow> (nat \<times> nat \<times> u8 list) option" where
  "nand_correct_loop 0 i dp ecc unc cor = Some (unc, cor, dp)"
| "nand_correct_loop (Suc n) i dp ecc unc cor = do {
     ecc_read \<leftarrow> rd_be32 ecc (0x30 + 4 * i);
     ecc_calc \<leftarrow> rd_be32 ecc (0x40 + 4 * i);
     let syndrome = ecc_read XOR ecc_calc;
     if ecc_read \<noteq> 0xFFFFFFFF \<and> syndrome \<noteq> 0 then
       if (syndrome - 1) AND syndrome = 0 then nand_correct_loop n (Suc i) dp ecc unc (Suc cor)
       else if ecc_even syndrome XOR ecc_odd syndrome \<noteq> 0xfff
       then nand_correct_loop n (Suc i) dp ecc (Suc unc) cor
       else do {
         dp \<leftarrow> flip_bit dp (0x200 * i) (ecc_odd syndrome);
         nand_correct_loop n (Suc i) dp ecc unc (Suc cor) }
     else nand_correct_loop n (Suc i) dp ecc unc cor }"

abbreviation (input) "NAND_ECC_OK \<equiv> 0 :: int"
abbreviation (input) "NAND_ECC_CORRECTED \<equiv> 1 :: int"
abbreviation (input) "NAND_ECC_UNCORRECTABLE \<equiv> -1 :: int"

definition nand_correct ::
  "u32 \<Rightarrow> u8 list \<Rightarrow> u8 list \<Rightarrow> 'a mach_scheme \<Rightarrow> (int \<times> u8 list \<times> 'a mach_scheme) option" where
  "nand_correct pageno data ecc s = do {
     (unc, cor, data) \<leftarrow> nand_correct_loop 4 0 data ecc 0 0;
     let s = (if unc \<noteq> 0 \<or> cor \<noteq> 0
              then gecko_msg ''ECC stats for NAND page 0x%X: %d uncorrectable, %d corrected''
                     [VInt pageno, VInt (of_nat unc), VInt (of_nat cor)] s
              else s);
     Some (if unc \<noteq> 0 then NAND_ECC_UNCORRECTABLE
           else if cor \<noteq> 0 then NAND_ECC_CORRECTED else NAND_ECC_OK, data, s) }"

section \<open>What the commands write\<close>

definition nand_reg :: "u32 \<Rightarrow> bool" where
  "nand_reg a \<longleftrightarrow> 0x0d010000 \<le> a \<and> a < 0x0d010100"

lemma ahb_not_nand: "nand_reg a \<Longrightarrow> \<not> ahb_reg a"
  by (auto simp: nand_reg_def ahb_reg_def)

lemma writes_upd [simp]:
  "writes Q (s\<lparr>irq_flag := f\<rparr>) = writes Q s"
  "writes Q (s\<lparr>last_page_read := p\<rparr>) = writes Q s"
  "writes Q (s\<lparr>initialized := b\<rparr>) = writes Q s"
  by (simp_all add: writes_def)

lemma writes_dma_addr [simp]: "writes Q (snd (dma_addr ev a s)) = writes Q s"
  by (simp add: dma_addr_def access_unfold)

lemma same_dma_addr [same_intro]: "same s t \<Longrightarrow> same s (snd (dma_addr ev a t))"
  by (auto simp: dma_addr_def access_unfold intro: same_intro)

lemma nand_access_same [same_intro]:
  assumes "same s t"
  shows "same s (nand_send_command c b f n t)" "same s (nand_set_address p q t)"
    "same s (nand_setup_dma ev d e t)" "same s (irq_enable ev i t)" "same s (irq_disable ev i t)"
  using assms
  by (auto simp: nand_send_command_def nand_set_address_def nand_setup_dma_def irq_enable_def
      irq_disable_def access_unfold intro!: same_intro)

lemma nand_clear_blocks_same [same_intro]:
  "same s t \<Longrightarrow> same s (nand_clear_blocks n b t)"
proof (induction n arbitrary: b t)
  case (Suc n)
  then show ?case by (auto simp: Let_def intro!: same_intro Suc.IH)
qed simp

lemma writes_send_command [simp]:
  "writes nand_reg (nand_send_command c b f n s) = writes nand_reg s @
     [(NAND_CTRL, 0x7fffffff), (NAND_CTRL, 0),
      (NAND_CTRL, NAND_BUSY_MASK OR push_bit 24 b OR push_bit 16 c OR f OR n)]"
  by (simp add: nand_send_command_def Let_def nand_reg_def)

lemma writes_set_address [simp]:
  "writes nand_reg (nand_set_address p q s) = writes nand_reg s @
     (if p \<noteq> -1 then [(NAND_ADDR0, p)] else []) @ (if q \<noteq> -1 then [(NAND_ADDR1, q)] else [])"
  by (simp add: nand_set_address_def Let_def nand_reg_def)

text \<open>Addresses outside the SRAM windows are their own DMA address.\<close>

definition plain_addr :: "u32 \<Rightarrow> bool" where
  "plain_addr a \<longleftrightarrow> drop_bit 20 a \<notin> {0xfff, 0x0d4, 0x0dc}"

lemma writes_setup_dma:
  "plain_addr d \<Longrightarrow> plain_addr e \<Longrightarrow> writes nand_reg (nand_setup_dma ev d e s) = writes nand_reg s @
     (if d \<noteq> -1 then [(NAND_DATA, d)] else []) @ (if e \<noteq> -1 then [(NAND_ECC, e)] else [])"
  by (simp add: nand_setup_dma_def dma_addr_def plain_addr_def Let_def nand_reg_def)

lemma writes_ahb:
  "ahb_flush_from ev dev s = Some s' \<Longrightarrow> writes nand_reg s' = writes nand_reg s"
  "ahb_flush_to ev dev s = Some s' \<Longrightarrow> writes nand_reg s' = writes nand_reg s"
  using writes_io_step [OF ahb_flush_from_step] writes_io_step [OF ahb_flush_to_step] ahb_not_nand
  by blast+

lemma nand_wait_busy_writes:
  assumes "nand_wait_busy ev s = Some s'"
  shows "writes nand_reg s' = writes nand_reg s" "same s s'"
proof -
  obtain t u where t: "poll ev NAND_CTRL (\<lambda>v. v AND NAND_BUSY_MASK \<noteq> 0) s = Some t"
    and u: "ahb_flush_from ev AHB_NAND (let (v, s) = read32 ev NAND_CTRL t in
         if v AND NAND_ERROR \<noteq> 0 then gecko_msg ''NAND: Error on wait'' [] s else s) = Some u"
    and s': "ahb_flush_to ev AHB_STARLET u = Some s'"
    using assms by (auto simp: nand_wait_busy_def access_unfold)
  show "writes nand_reg s' = writes nand_reg s"
    using writes_poll [OF t] writes_ahb(1) [OF u] writes_ahb(2) [OF s']
    by (simp add: access_unfold split: if_splits)
  have "same t (let (v, s) = read32 ev NAND_CTRL t in
         if v AND NAND_ERROR \<noteq> 0 then gecko_msg ''NAND: Error on wait'' [] s else s)"
    by (simp add: access_unfold same_intro)
  with poll_same [OF t] io_step_same [OF ahb_flush_from_step [OF u]]
    io_step_same [OF ahb_flush_to_step [OF s']] show "same s s'" by (meson same_trans)
qed

lemma nand_wait_busy_returns:
  assumes "always_ready ev NAND_CTRL (\<lambda>v. v AND NAND_BUSY_MASK = 0)"
  shows "\<exists>s'. nand_wait_busy ev s = Some s'"
proof -
  obtain t where "poll ev NAND_CTRL (\<lambda>v. v AND NAND_BUSY_MASK \<noteq> 0) s = Some t"
    using poll_ready [of ev NAND_CTRL "\<lambda>v. v AND NAND_BUSY_MASK \<noteq> 0" s] assms by auto
  then show ?thesis
    using ahb_flush_from_returns ahb_flush_to_starlet
    by (fastforce simp: nand_wait_busy_def access_unfold)
qed

lemma dc_invalidaterange_step:
  "\<exists>s'. dc_invalidaterange ev a n s = Some s' \<and> same s s' \<and> (\<forall>Q. (\<forall>a. Q a \<longrightarrow> \<not> ahb_reg a) \<longrightarrow> writes Q s' = writes Q s)"
proof -
  obtain es c where "dc_invalidaterange ev a n s = Some (s\<lparr>io_log := es @ Cp15 c # io_log s\<rparr>)"
    "list_all (io_addr ahb_reg) es" using dc_invalidaterange_log by blast
  moreover from this have "io_step (io_addr ahb_reg) s (s\<lparr>io_log := es @ Cp15 c # io_log s\<rparr>)"
    by (auto simp: io_step_def intro!: exI [of _ "es @ [Cp15 c]"])
  ultimately show ?thesis using writes_io_step io_step_same by blast
qed

lemma nand_read_page_runs:
  assumes "always_ready ev NAND_CTRL (\<lambda>v. v AND NAND_BUSY_MASK = 0)"
    and "pageno \<noteq> -1" "data \<noteq> -1" "ecc \<noteq> -1" "plain_addr data" "plain_addr ecc"
  shows "\<exists>s'. nand_read_page ev pageno data ecc s = Some s'
     \<and> writes nand_reg s' = writes nand_reg s @
         [(NAND_ADDR0, 0), (NAND_ADDR1, pageno),
          (NAND_CTRL, 0x7fffffff), (NAND_CTRL, 0), (NAND_CTRL, 0x9f000000),
          (NAND_DATA, data), (NAND_ECC, ecc),
          (NAND_CTRL, 0x7fffffff), (NAND_CTRL, 0), (NAND_CTRL, 0xC030B840)]
     \<and> same (s\<lparr>irq_flag := 0, last_page_read := pageno\<rparr>) s'"
proof -
  let ?s = "s\<lparr>irq_flag := 0, last_page_read := pageno\<rparr>"
  let ?s1 = "nand_send_command NAND_READ_PRE 0x1f 0 0 (nand_set_address 0 pageno ?s)"
  have disj: "\<forall>a. nand_reg a \<longrightarrow> \<not> ahb_reg a" using ahb_not_nand by blast
  obtain s2 where s2: "dc_invalidaterange ev data 2048 ?s1 = Some s2" "same ?s1 s2"
    "writes nand_reg s2 = writes nand_reg ?s1" using dc_invalidaterange_step disj by blast
  obtain s3 where s3: "dc_invalidaterange ev ecc 80 s2 = Some s3" "same s2 s3"
    "writes nand_reg s3 = writes nand_reg s2" using dc_invalidaterange_step disj by blast
  obtain s4 where s4: "nand_wait_busy ev s3 = Some s4"
    using nand_wait_busy_returns [OF assms(1)] by blast
  note w4 = nand_wait_busy_writes [OF s4]
  let ?s5 = "nand_send_command NAND_READ_POST 0 0x4000B000 0x840 (nand_setup_dma ev data ecc s4)"
  have "nand_read_page ev pageno data ecc s = Some ?s5"
    using assms s2(1) s3(1) s4 by (simp add: nand_read_page_def Let_def)
  moreover have "same ?s ?s1" by (intro same_intro same_refl)
  then have "same ?s s4" using s2(2) s3(2) w4(2) by (meson same_trans)
  then have "same ?s ?s5" by (intro same_intro)
  ultimately show ?thesis using assms s2(3) s3(3) w4(1) by (simp add: writes_setup_dma)
qed

text \<open>
  C6: For page and spare buffers in plain memory and a controller that becomes ready,
  \<^verbatim>\<open>nand_read_page\<close> returns having issued exactly this command sequence to the controller: column 0
  and the page number, the read command with all five address cycles, then (after the busy wait) the
  two DMA addresses and the confirm command for 2112 bytes with ECC and interrupt. It clears the
  completion flag, records the page for error reports, and changes nothing else.
\<close>

theorem nand_read_page_protocol:
  assumes "always_ready ev NAND_CTRL (\<lambda>v. v AND NAND_BUSY_MASK = 0)"
    and "pageno \<noteq> -1" "data \<noteq> -1" "ecc \<noteq> -1" "plain_addr data" "plain_addr ecc"
  shows "\<exists>s'. nand_read_page ev pageno data ecc s = Some s'
     \<and> writes nand_reg s' = writes nand_reg s @
         [(NAND_ADDR0, 0), (NAND_ADDR1, pageno),
          (NAND_CTRL, 0x7fffffff), (NAND_CTRL, 0), (NAND_CTRL, 0x9f000000),
          (NAND_DATA, data), (NAND_ECC, ecc),
          (NAND_CTRL, 0x7fffffff), (NAND_CTRL, 0), (NAND_CTRL, 0xC030B840)]
     \<and> same (s\<lparr>irq_flag := 0, last_page_read := pageno\<rparr>) s'"
  by (rule nand_read_page_runs [OF assms])

definition nand_reset_st :: nand_st where
  "nand_reset_st = \<lparr>io_log = [], cpsr = 0x13, cp_cr = 0, cp_ttbr = 0, cp_dacr = 0,
     page_table = [], initialized = 0, irq_flag = 1, last_page_read = 0\<rparr>"

definition zero_env :: env where
  "zero_env l a = 0"

lemma zero_env_ready: "P 0 \<Longrightarrow> always_ready zero_env a P"
  by (simp add: always_ready_def zero_env_def)

theorem nand_read_page_protocol_witness:
  "\<exists>s'. nand_read_page zero_env 0x1234 0x10200000 0x10300000 nand_reset_st = Some s'
     \<and> writes nand_reg s' =
         [(NAND_ADDR0, 0), (NAND_ADDR1, 0x1234),
          (NAND_CTRL, 0x7fffffff), (NAND_CTRL, 0), (NAND_CTRL, 0x9f000000),
          (NAND_DATA, 0x10200000), (NAND_ECC, 0x10300000),
          (NAND_CTRL, 0x7fffffff), (NAND_CTRL, 0), (NAND_CTRL, 0xC030B840)]
     \<and> irq_flag s' = 0 \<and> last_page_read s' = 0x1234"
proof -
  have "writes nand_reg nand_reset_st = []" by (simp add: nand_reset_st_def writes_def)
  moreover have "plain_addr 0x10200000" "plain_addr 0x10300000" by (simp_all add: plain_addr_def)
  ultimately show ?thesis
    using nand_read_page_protocol [OF zero_env_ready, of "0x1234" "0x10200000" "0x10300000" nand_reset_st]
    by (auto simp: same_def)
qed

section \<open>Initialization\<close>

lemma nand_clear_blocks_8:
  "writes nand_reg (nand_clear_blocks 8 NAND_UNK3 s) =
     writes nand_reg s @ map (\<lambda>i. (NAND_UNK3 + 4 * of_nat i, 0)) [0..<48]"
proof -
  have 8: "8 = Suc (Suc (Suc (Suc (Suc (Suc (Suc (Suc 0)))))))" by simp
  show ?thesis unfolding 8 by (simp add: Let_def nand_reg_def) (simp add: upt_rec)
qed

definition nand_reset_writes :: "u32 \<Rightarrow> (u32 \<times> u32) list" where
  "nand_reset_writes bank =
     [(NAND_CTRL, 0), (NAND_CTRL, 0), (NAND_CONF, 0x743e3eff), (NAND_BANK, 1),
      (NAND_CONF, 0xcb3e0e7f), (NAND_UNK2, 0), (NAND_UNK2, 0)]
     @ map (\<lambda>i. (NAND_UNK3 + 4 * of_nat i, 0)) [0..<48]
     @ [(NAND_CTRL, 0), (NAND_CTRL, 0), (NAND_BANK, bank),
        (NAND_CTRL, 0x7fffffff), (NAND_CTRL, 0), (NAND_CTRL, 0x80ff8000),
        (NAND_CONF, 0x08000000), (NAND_CONF, 0x7c3e3eff)]"

definition nand_controller_ready :: "env \<Rightarrow> bool" where
  "nand_controller_ready ev \<longleftrightarrow> always_ready ev NAND_CTRL (\<lambda>v. v AND NAND_BUSY_MASK = 0)
     \<and> always_ready ev NAND_UNK2 (\<lambda>v. \<not> sint v < 0)"

lemma nand_reset_ok:
  assumes "nand_controller_ready ev"
  shows "\<exists>s'. nand_reset ev bank s = Some s' \<and> same s s'
     \<and> writes nand_reg s' = writes nand_reg s @ nand_reset_writes bank"
proof -
  have ready: "always_ready ev NAND_CTRL (\<lambda>v. v AND NAND_BUSY_MASK = 0)"
    "\<exists>s'. poll ev NAND_CTRL (\<lambda>v. v AND NAND_CMD_EXEC \<noteq> 0) t = Some s'"
    "\<exists>s'. poll ev NAND_UNK2 (\<lambda>v. sint v < 0) t = Some s'" for t :: "'a nand_st_scheme"
    using assms poll_ready [of ev NAND_CTRL "\<lambda>v. v AND NAND_CMD_EXEC \<noteq> 0" t]
      poll_ready [of ev NAND_UNK2 "\<lambda>v. sint v < 0" t]
    by (auto simp: nand_controller_ready_def)
  obtain s1 where s1: "poll ev NAND_CTRL (\<lambda>v. v AND NAND_CMD_EXEC \<noteq> 0) (write32 NAND_CTRL 0 s) = Some s1"
    using ready(2) by blast
  let ?t1 = "write32 NAND_UNK2 0 (write32 NAND_CONF 0xcb3e0e7f (write32 NAND_BANK 1
     (write32 NAND_CONF 0x743e3eff (write32 NAND_CTRL 0 s1))))"
  obtain s2 where s2: "poll ev NAND_UNK2 (\<lambda>v. sint v < 0) ?t1 = Some s2" using ready(3) by blast
  let ?t2 = "write32 NAND_CTRL 0 (nand_clear_blocks 8 NAND_UNK3 (write32 NAND_UNK2 0 s2))"
  obtain s3 where s3: "poll ev NAND_CTRL (\<lambda>v. v AND NAND_CMD_EXEC \<noteq> 0) ?t2 = Some s3"
    using ready(2) by blast
  let ?t3 = "nand_send_command NAND_RESET 0 NAND_FLAGS_WAIT 0 (write32 NAND_BANK bank (write32 NAND_CTRL 0 s3))"
  obtain s4 where s4: "nand_wait_busy ev ?t3 = Some s4"
    using nand_wait_busy_returns [OF ready(1)] by blast
  let ?s' = "write32 NAND_CONF 0x7c3e3eff (write32 NAND_CONF 0x08000000 s4)"
  have "nand_reset ev bank s = Some ?s'"
    using s1 s2 s3 s4 by (simp add: nand_reset_def Let_def)
  moreover have "same s (write32 NAND_CTRL 0 s)" "same s1 ?t1" "same s2 ?t2" "same s3 ?t3" "same s4 ?s'"
    by (intro same_intro same_refl)+
  then have "same s ?s'"
    using poll_same [OF s1] poll_same [OF s2] poll_same [OF s3] nand_wait_busy_writes(2) [OF s4]
    by (meson same_trans)
  moreover have "writes nand_reg ?s' = writes nand_reg s @ nand_reset_writes bank"
    using writes_poll [OF s1, of nand_reg] writes_poll [OF s2, of nand_reg]
      writes_poll [OF s3, of nand_reg] nand_wait_busy_writes(1) [OF s4]
    by (simp add: nand_clear_blocks_8 nand_reset_writes_def nand_reg_def)
  ultimately show ?thesis by blast
qed

lemma same_upd: "same s t \<Longrightarrow> same (s\<lparr>initialized := b\<rparr>) (t\<lparr>initialized := b\<rparr>)"
proof -
  assume "same s t"
  then obtain l where t: "t = s\<lparr>io_log := l\<rparr>" by (auto simp: same_def)
  show ?thesis unfolding same_def t by (intro exI [of _ l]) simp
qed

lemma mask_writes: "writes nand_reg (irq_enable ev i s) = writes nand_reg s"
    "writes nand_reg (irq_disable ev i s) = writes nand_reg s"
  by (simp_all add: irq_enable_def irq_disable_def set32_def clear32_def access_unfold nand_reg_def)

lemma nand_initialize_runs:
  assumes "nand_controller_ready ev"
  shows "\<exists>s'. nand_initialize ev bank s = Some s'
     \<and> (if initialized s = bank then s' = s
        else same (s\<lparr>initialized := bank\<rparr>) s'
          \<and> writes nand_reg s' = writes nand_reg s @ nand_reset_writes bank)
     \<and> nand_initialize ev bank s' = Some s'"
proof (cases "initialized s = bank")
  case True
  then show ?thesis by (simp add: nand_initialize_def)
next
  case False
  let ?s = "irq_disable ev IRQ_NAND s"
  obtain t where t: "nand_reset ev bank ?s = Some t" "same ?s t"
    "writes nand_reg t = writes nand_reg ?s @ nand_reset_writes bank"
    using nand_reset_ok [OF assms] by blast
  let ?s' = "(irq_enable ev IRQ_NAND t)\<lparr>initialized := bank\<rparr>"
  have "nand_initialize ev bank s = Some ?s'"
    using False t(1) by (simp add: nand_initialize_def Let_def)
  moreover have "same s (irq_enable ev IRQ_NAND t)"
    using t(2) by (intro same_intro) (rule same_trans [OF _ t(2)], intro same_intro same_refl)
  then have "same (s\<lparr>initialized := bank\<rparr>) ?s'" by (rule same_upd)
  ultimately show ?thesis
    using False t(3) by (simp add: mask_writes) (simp add: nand_initialize_def)
qed

text \<open>
  C7: With a controller that becomes ready, \<^verbatim>\<open>nand_initialize\<close> returns; for the bank already
  initialised it does nothing at all, otherwise it runs exactly the reset sequence for that bank and
  records it, so that calling it again for the same bank is a no-op.
\<close>

theorem nand_initialize_ok:
  assumes "nand_controller_ready ev"
  shows "\<exists>s'. nand_initialize ev bank s = Some s'
     \<and> (if initialized s = bank then s' = s
        else same (s\<lparr>initialized := bank\<rparr>) s'
          \<and> writes nand_reg s' = writes nand_reg s @ nand_reset_writes bank)
     \<and> nand_initialize ev bank s' = Some s'"
  by (rule nand_initialize_runs [OF assms])

theorem nand_initialize_ok_witness:
  "\<exists>s'. nand_initialize zero_env NAND_BANK_SLC nand_reset_st = Some s'
     \<and> initialized s' = NAND_BANK_SLC \<and> nand_initialize zero_env NAND_BANK_SLC s' = Some s'"
proof -
  have "nand_controller_ready zero_env" by (simp add: nand_controller_ready_def zero_env_ready)
  from nand_initialize_ok [OF this, of NAND_BANK_SLC nand_reset_st] show ?thesis
    by (auto simp: nand_reset_st_def same_def)
qed

end
