(* ===== verification/NandEcc.thy ===== *)
theory NandEcc
  imports Nand
begin

text \<open>
  The error-correcting code behind \<^verbatim>\<open>nand_correct\<close> (\<^verbatim>\<open>armboot/storage/nand.c\<close>): what the flash
  controller computes over each quarter page, and that the correction restores a page in which every
  quarter has at most one flipped bit.
\<close>

section \<open>The code\<close>

text \<open>
  What the controller computes over a block of 512 bytes: for every set bit the 12-bit position and
  its complement, xor-ed together, in the register layout that \<^const>\<open>ecc_even\<close> and \<^const>\<open>ecc_odd\<close>
  undo. A single flipped bit then shows its position in the syndrome.
\<close>

definition parity_word :: "u16 \<Rightarrow> u32" where
  "parity_word p = push_bit 24 (ucast (take_bit 8 (NOT p)))
     OR push_bit 16 (ucast (take_bit 4 (drop_bit 8 (NOT p))))
     OR push_bit 8 (ucast (take_bit 8 p)) OR ucast (take_bit 4 (drop_bit 8 p))"

definition bit_at :: "u8 list \<Rightarrow> nat \<Rightarrow> bool" where
  "bit_at b p = bit (b ! (p div 8)) (p mod 8)"

definition hamming_over :: "nat list \<Rightarrow> u8 list \<Rightarrow> u32" where
  "hamming_over ps b = foldr (\<lambda>p w. if bit_at b p then parity_word (of_nat p) XOR w else w) ps 0"

definition hamming :: "u8 list \<Rightarrow> u32" where
  "hamming b = hamming_over [0..<4096] b"

definition flip :: "u8 list \<Rightarrow> nat \<Rightarrow> u8 list" where
  "flip b p = b[p div 8 := b ! (p div 8) XOR push_bit (p mod 8) 1]"

lemma halves_of_parity:
  "ecc_odd (parity_word p) = take_bit 12 p" "ecc_even (parity_word p) = take_bit 12 (NOT p)"
proof -
  have m: "(0xf00 :: u32) = push_bit 8 (mask 4)" "(0x0ff :: u32) = mask 8"
    by (simp_all add: mask_eq_exp_minus_1)
  show "ecc_odd (parity_word p) = take_bit 12 p" "ecc_even (parity_word p) = take_bit 12 (NOT p)"
    unfolding ecc_odd_def ecc_even_def parity_word_def m
    by (rule bit_word_eqI; auto simp: bit_simps)+
qed

lemma halves_complement: "ecc_even (parity_word p) XOR ecc_odd (parity_word p) = 0xfff"
proof -
  have "take_bit 12 (NOT p) XOR take_bit 12 p = (mask 12 :: u16)" for p
    by (rule bit_word_eqI) (auto simp: bit_simps)
  then show ?thesis by (simp add: halves_of_parity mask_eq_exp_minus_1)
qed

text \<open>Two set bits survive the test for a power of two.\<close>

lemma two_bits:
  fixes x :: u32
  assumes "bit x i" "bit x j" "i < j"
  shows "(x - 1) AND x \<noteq> 0"
proof -
  have j: "j < 32" using assms(2) bit_imp_le_length [of x j] by simp
  have "take_bit j (unat x) \<noteq> 0"
  proof
    assume "take_bit j (unat x) = 0"
    then have "\<not> bit (take_bit j (unat x)) i" by simp
    with assms show False by (simp add: bit_take_bit_iff bit_unsigned_iff)
  qed
  then have r: "unat x mod 2 ^ j \<noteq> 0" by (simp add: take_bit_eq_mod)
  then have pos: "0 < unat x" by (intro gr0I) simp
  have "(unat x - 1) div 2 ^ j = unat x div 2 ^ j"
  proof -
    have "unat x - 1 = unat x div 2 ^ j * 2 ^ j + (unat x mod 2 ^ j - 1)"
      using r div_mult_mod_eq [of "unat x" "2 ^ j"] by linarith
    moreover have "unat x mod 2 ^ j - 1 < 2 ^ j" by (meson less_imp_diff_less mod_less_divisor zero_less_power zero_less_numeral)
    ultimately show ?thesis by simp
  qed
  moreover have "unat (x - 1) = unat x - 1"
    using pos by (intro unat_minus_one) auto
  ultimately have "bit (unat (x - 1)) j = bit (unat x) j" by (simp add: bit_iff_odd)
  then have "bit (x - 1) j" using assms(2) j by (simp add: bit_unsigned_iff)
  with assms(2) have "bit ((x - 1) AND x) j" by (simp add: bit_and_iff)
  then show ?thesis by auto
qed

lemma parity_bits:
  "bit (parity_word p) (8 + k) \<longleftrightarrow> bit p k" "bit (parity_word p) (24 + k) \<longleftrightarrow> \<not> bit p k" if "k < 8"
  using that by (auto simp: parity_word_def bit_simps)

lemma parity_not_single: "(parity_word p - 1) AND parity_word p \<noteq> 0" "parity_word p \<noteq> 0"
proof -
  have "\<exists>i j. i < j \<and> bit (parity_word p) i \<and> bit (parity_word p) j"
    using parity_bits [of 0 p] parity_bits [of 1 p]
    by (cases "bit p 0"; cases "bit p 1") (force intro: exI [of _ 8] exI [of _ 9] exI [of _ 24] exI [of _ 25])+
  then show "(parity_word p - 1) AND parity_word p \<noteq> 0" using two_bits by blast
  then show "parity_word p \<noteq> 0" by auto
qed

section \<open>A flipped bit in the code\<close>

lemma bit_at_flip:
  assumes "p div 8 < length b" "q div 8 < length b"
  shows "bit_at (flip b p) q = (bit_at b q \<noteq> (q = p))"
proof (cases "q div 8 = p div 8")
  case True
  then have "q = p \<longleftrightarrow> q mod 8 = p mod 8" by (metis div_mult_mod_eq)
  with True assms show ?thesis
    by (auto simp: bit_at_def flip_def bit_simps)
next
  case False
  then show ?thesis by (auto simp: bit_at_def flip_def)
qed

lemma hamming_over_flip:
  assumes "length b = 512" "p < 4096" "distinct ps" "set ps \<subseteq> {..<4096}"
  shows "hamming_over ps (flip b p) =
    (if p \<in> set ps then parity_word (of_nat p) XOR hamming_over ps b else hamming_over ps b)"
  using assms(3,4)
proof (induction ps)
  case Nil
  then show ?case by (simp add: hamming_over_def)
next
  case (Cons q ps)
  have step: "hamming_over (q # ps) c =
      (if bit_at c q then parity_word (of_nat q) XOR hamming_over ps c else hamming_over ps c)" for c
    by (simp add: hamming_over_def)
  have "bit_at (flip b p) q = (bit_at b q \<noteq> (q = p))"
    using assms(1,2) Cons.prems by (intro bit_at_flip) auto
  with Cons show ?case by (auto simp: step xor.left_commute simp flip: xor.assoc)
qed

lemma hamming_flip:
  "length b = 512 \<Longrightarrow> p < 4096 \<Longrightarrow> hamming (flip b p) = parity_word (of_nat p) XOR hamming b"
  unfolding hamming_def by (subst hamming_over_flip) auto

text \<open>No block has the code of an erased page.\<close>

lemma hamming_not_erased: "hamming b \<noteq> 0xFFFFFFFF"
proof -
  have "\<not> bit (parity_word p) 4" for p by (simp add: parity_word_def bit_simps)
  then have "\<not> bit (hamming_over ps b) 4" for ps
    by (induction ps) (auto simp: hamming_over_def bit_simps)
  moreover have "bit (0xFFFFFFFF :: u32) 4" by simp
  ultimately show ?thesis unfolding hamming_def by metis
qed

section \<open>Quarter pages\<close>

definition quarter :: "nat \<Rightarrow> u8 list \<Rightarrow> u8 list" where
  "quarter i d = take 512 (drop (512 * i) d)"

lemma quarter_update:
  assumes "length d = 2048" "i < 4" "j < 4" "q < 512"
  shows "quarter j (d[512 * i + q := v]) = (if j = i then (quarter i d)[q := v] else quarter j d)"
proof (rule nth_equalityI)
  show "length (quarter j (d[512 * i + q := v])) =
      length (if j = i then (quarter i d)[q := v] else quarter j d)"
    by (simp add: quarter_def)
  fix k assume "k < length (quarter j (d[512 * i + q := v]))"
  then have k: "k < 512" by (simp add: quarter_def)
  have "512 * i + q = 512 * j + k \<longleftrightarrow> i = j \<and> q = k"
  proof
    assume e: "512 * i + q = 512 * j + k"
    have "(512 * i + q) div 512 = i" "(512 * j + k) div 512 = j" using assms(4) k by simp_all
    with e show "i = j \<and> q = k" by auto
  qed simp
  with assms k show "quarter j (d[512 * i + q := v]) ! k =
      (if j = i then (quarter i d)[q := v] else quarter j d) ! k"
    by (auto simp: quarter_def nth_list_update)
qed

lemma page_of_quarters:
  assumes "length d = 2048" "length e = 2048" "\<And>i. i < 4 \<Longrightarrow> quarter i d = quarter i e"
  shows "d = e"
proof (rule nth_equalityI)
  show "length d = length e" using assms by simp
  fix k assume k: "k < length d"
  have "quarter (k div 512) d ! (k mod 512) = quarter (k div 512) e ! (k mod 512)"
    using assms k by (auto intro!: arg_cong2 [where f = nth])
  then show "d ! k = e ! k" using assms k by (simp add: quarter_def)
qed

lemma flip_flip: "p div 8 < length b \<Longrightarrow> flip (flip b p) p = b"
  by (simp add: flip_def xor.assoc)

lemma flip_bit_quarter:
  assumes "length d = 2048" "i < 4" "p < 4096"
  shows "\<exists>d'. flip_bit d (512 * i) (of_nat p) = Some d' \<and> length d' = 2048
     \<and> (\<forall>j < 4. quarter j d' = (if j = i then flip (quarter i d) p else quarter j d))"
proof -
  have p: "unat (drop_bit 3 (of_nat p :: u16)) = p div 8" "unat (of_nat p AND 7 :: u16) = p mod 8"
  proof -
    have up: "unat (of_nat p :: u16) = p" using assms(3) by (simp add: unat_of_nat take_bit_nat_eq_self)
    show "unat (drop_bit 3 (of_nat p :: u16)) = p div 8"
      by (subst unat_drop_bit_eq) (simp add: up drop_bit_eq_div)
    show "unat (of_nat p AND 7 :: u16) = p mod 8"
      using unat_and_mask [of "of_nat p :: u16" 3] up by (simp add: mask_eq_exp_minus_1)
  qed
  have q: "p div 8 < 512" "512 * i + p div 8 < 2048" using assms by auto
  let ?d = "d[512 * i + p div 8 := d ! (512 * i + p div 8) XOR push_bit (p mod 8) 1]"
  have "flip_bit d (512 * i) (of_nat p) = Some ?d"
    using assms q by (simp add: flip_bit_def p load_def store_def nat_add_distrib nat_mult_distrib)
  moreover have "quarter j ?d = (if j = i then flip (quarter i d) p else quarter j d)" if "j < 4" for j
    using quarter_update [OF assms(1,2) that q(1)] assms q by (simp add: flip_def) (simp add: quarter_def)
  ultimately show ?thesis using assms by auto
qed

section \<open>Correction of a page\<close>

text \<open>At most one flipped bit per quarter: \<open>errs i\<close> is its position, if there is one.\<close>

definition damaged :: "(nat \<Rightarrow> nat option) \<Rightarrow> u8 list \<Rightarrow> u8 list \<Rightarrow> bool" where
  "damaged errs orig data \<longleftrightarrow> length orig = 2048 \<and> length data = 2048 \<and>
     (\<forall>i < 4. case errs i of None \<Rightarrow> quarter i data = quarter i orig
        | Some p \<Rightarrow> p < 4096 \<and> quarter i data = flip (quarter i orig) p)"

text \<open>The spare area holds the stored codes; the controller appends the codes of what it read.\<close>

definition ecc_area :: "u8 list \<Rightarrow> u8 list \<Rightarrow> u8 list \<Rightarrow> bool" where
  "ecc_area ecc orig data \<longleftrightarrow> (\<forall>i < 4. rd_be32 ecc (0x30 + 4 * i) = Some (hamming (quarter i orig))
     \<and> rd_be32 ecc (0x40 + 4 * i) = Some (hamming (quarter i data)))"

definition errors_from :: "(nat \<Rightarrow> nat option) \<Rightarrow> nat \<Rightarrow> nat" where
  "errors_from errs i = length (filter (\<lambda>j. errs j \<noteq> None) [i..<4])"

lemma length_quarter: "length d = 2048 \<Longrightarrow> i < 4 \<Longrightarrow> length (quarter i d) = 512"
  by (simp add: quarter_def)

lemma nand_correct_loop_restores:
  assumes dmg: "damaged errs orig data" and area: "ecc_area ecc orig data"
    and "n + i = 4" "length dp = 2048"
    and "\<And>j. j < i \<Longrightarrow> quarter j dp = quarter j orig"
    and "\<And>j. i \<le> j \<Longrightarrow> j < 4 \<Longrightarrow> quarter j dp = quarter j data"
  shows "nand_correct_loop n i dp ecc unc cor = Some (unc, cor + errors_from errs i, orig)"
  using assms(3-)
proof (induction n arbitrary: i dp cor)
  case 0
  have "dp = orig"
  proof (rule page_of_quarters)
    show "length dp = 2048" by (rule 0)
    show "length orig = 2048" using dmg by (simp add: damaged_def)
    show "quarter j dp = quarter j orig" if "j < 4" for j using 0(1,3) that by simp
  qed
  with 0 show ?case by (simp add: errors_from_def)
next
  case (Suc n)
  then have i: "i < 4" by simp
  have len: "length (quarter i orig) = 512"
    using dmg i by (auto simp: damaged_def length_quarter)
  have rd: "rd_be32 ecc (0x30 + 4 * i) = Some (hamming (quarter i orig))"
    "rd_be32 ecc (0x40 + 4 * i) = Some (hamming (quarter i data))"
    using area i by (auto simp: ecc_area_def)
  have from_i: "[i..<4] = i # [Suc i..<4]" using i by (rule upt_conv_Cons)
  show ?case
  proof (cases "errs i")
    case None
    then have same: "quarter i data = quarter i orig" using dmg i by (auto simp: damaged_def split: option.splits)
    have next_loop: "nand_correct_loop n (Suc i) dp ecc unc cor = Some (unc, cor + errors_from errs (Suc i), orig)"
      using Suc.prems same by (intro Suc.IH) (auto simp: less_Suc_eq)
    show ?thesis using None next_loop by (simp add: rd same errors_from_def from_i)
  next
    case (Some p)
    then have p: "p < 4096" "quarter i data = flip (quarter i orig) p"
      using dmg i by (auto simp: damaged_def dest!: spec [of _ i])
    have syn: "hamming (quarter i orig) XOR hamming (quarter i data) = parity_word (of_nat p)"
      by (simp add: p(2) hamming_flip [OF len p(1)] xor.left_commute)
    have odd: "ecc_odd (parity_word (of_nat p)) = of_nat p"
      unfolding halves_of_parity take_bit_of_nat using p(1) by (simp add: take_bit_nat_eq_self)
    have comp: "ecc_even (parity_word (of_nat p)) XOR of_nat p = 0xfff"
      using halves_complement [of "of_nat p"] by (simp only: odd)
    obtain d' where d': "flip_bit dp (512 * i) (of_nat p) = Some d'" "length d' = 2048"
      "\<And>j. j < 4 \<Longrightarrow> quarter j d' = (if j = i then flip (quarter i dp) p else quarter j dp)"
      using flip_bit_quarter [OF Suc.prems(2) i p(1)] by blast
    have "quarter i d' = quarter i orig"
      using d'(3) [OF i] Suc.prems(4) [of i] i p len by (simp add: flip_flip)
    then have next_loop: "nand_correct_loop n (Suc i) d' ecc unc (Suc cor) =
        Some (unc, Suc cor + errors_from errs (Suc i), orig)"
      using Suc.prems d' by (intro Suc.IH) (auto simp: less_Suc_eq)
    show ?thesis
      using Some next_loop parity_not_single d'(1)
      by (simp add: rd syn odd comp hamming_not_erased errors_from_def from_i Let_def)
  qed
qed

text \<open>
  C4: When every quarter of a page has at most one flipped bit, and the spare area holds the codes
  of the original page next to the codes of what was read, \<^verbatim>\<open>nand_correct\<close> restores the original
  page. It reports OK and stays silent if nothing was flipped, and reports the number of corrected
  bits otherwise.
\<close>

theorem nand_correct_restores:
  assumes "damaged errs orig data" "ecc_area ecc orig data"
  shows "nand_correct pageno data ecc s = Some
    (if errors_from errs 0 = 0 then (NAND_ECC_OK, orig, s)
     else (NAND_ECC_CORRECTED, orig,
           gecko_msg ''ECC stats for NAND page 0x%X: %d uncorrectable, %d corrected''
             [VInt pageno, VInt 0, VInt (of_nat (errors_from errs 0))] s))"
proof -
  have "length data = 2048" using assms(1) by (simp add: damaged_def)
  then have "nand_correct_loop 4 0 data ecc 0 0 = Some (0, 0 + errors_from errs 0, orig)"
    by (intro nand_correct_loop_restores [OF assms]) auto
  then show ?thesis by (simp add: nand_correct_def Let_def)
qed

lemma parity_word_0: "parity_word 0 = 0xFF0F0000"
  by (simp add: parity_word_def mask_eq_exp_minus_1)

lemma hamming_zero: "hamming (replicate 512 0) = 0"
proof -
  have "hamming_over ps (replicate 512 0) = 0" if "set ps \<subseteq> {..<4096}" for ps
    using that by (induction ps) (auto simp: hamming_over_def bit_at_def)
  then show ?thesis unfolding hamming_def by (rule meta_mp) auto
qed

text \<open>An erased-to-zero page whose very first bit came back set.\<close>

theorem nand_correct_restores_witness:
  "nand_correct 7 (1 # replicate 2047 0)
      (replicate 0x40 0 @ [0xFF, 0x0F, 0, 0] @ replicate 12 0 @ replicate 16 0) nand_reset_st
   = Some (NAND_ECC_CORRECTED, replicate 2048 0,
       gecko_msg ''ECC stats for NAND page 0x%X: %d uncorrectable, %d corrected''
         [VInt 7, VInt 0, VInt 1] nand_reset_st)"
proof -
  let ?errs = "\<lambda>i :: nat. if i = 0 then Some (0 :: nat) else None"
  let ?orig = "replicate 2048 0 :: u8 list" and ?data = "1 # replicate 2047 0 :: u8 list"
  let ?ecc = "replicate 0x40 0 @ [0xFF, 0x0F, 0, 0] @ replicate 12 0 @ replicate 16 0 :: u8 list"
  have q: "quarter i ?orig = replicate 512 0" if "i < 4" for i
    using that by (auto simp: quarter_def)
  have data: "?data = ?orig[0 := 1]" by (simp add: numeral_eq_Suc)
  have qd: "quarter i ?data = (if i = 0 then flip (replicate 512 0) 0 else replicate 512 0)" if "i < 4" for i
    using quarter_update [of ?orig 0 i 0 1] that q [of 0] q [OF that] unfolding data
    by (auto simp: flip_def)
  have 1: "damaged ?errs ?orig ?data"
    unfolding damaged_def using q qd by auto
  have h: "hamming (flip (replicate 512 0) 0) = 0xFF0F0000"
    by (simp add: hamming_flip hamming_zero parity_word_0)
  have "i = 0 \<or> i = 1 \<or> i = 2 \<or> i = 3" if "i < 4" for i :: nat using that by arith
  then have 2: "ecc_area ?ecc ?orig ?data"
    unfolding ecc_area_def using q qd
    by (auto simp: hamming_zero h rd_be32_def nth_append be32_def)
  have "errors_from ?errs 0 = 1" by (simp add: errors_from_def upt_rec)
  then show ?thesis using nand_correct_restores [OF 1 2, of 7 nand_reset_st] by simp
qed

text \<open>What one iteration may do to the page, whatever the codes are.\<close>

definition touched_once :: "u8 list \<Rightarrow> u8 list \<Rightarrow> bool" where
  "touched_once q q' \<longleftrightarrow> q' = q \<or> (\<exists>p < 4096. q' = flip q p)"

lemma ecc_odd_range: "\<exists>p < 4096. ecc_odd x = of_nat p"
proof -
  have "take_bit 12 (ecc_odd x) = ecc_odd x"
  proof -
    have m: "(0xf00 :: u32) = push_bit 8 (mask 4)" "(0x0ff :: u32) = mask 8"
      by (simp_all add: mask_eq_exp_minus_1)
    show ?thesis unfolding ecc_odd_def m by (rule bit_word_eqI) (auto simp: bit_simps)
  qed
  then have "unat (ecc_odd x) = take_bit 12 (unat (ecc_odd x))" by (metis unsigned_take_bit_eq)
  also have "\<dots> < 2 ^ 12" by (rule take_bit_nat_less_exp)
  finally show ?thesis by (intro exI [of _ "unat (ecc_odd x)"]) simp
qed

definition unformatted :: "u8 list \<Rightarrow> nat \<Rightarrow> bool" where
  "unformatted ecc i \<longleftrightarrow> rd_be32 ecc (0x30 + 4 * i) = Some 0xFFFFFFFF"

lemma touched_once_refl [simp]: "touched_once q q"
  by (simp add: touched_once_def)

lemma nand_correct_loop_total:
  assumes "80 \<le> length ecc" "n + i = 4" "length dp = 2048"
  shows "\<exists>unc' cor' dp'. nand_correct_loop n i dp ecc unc cor = Some (unc', cor', dp')
    \<and> length dp' = 2048 \<and> unc \<le> unc' \<and> cor \<le> cor' \<and> (unc' = unc \<and> cor' = cor \<longrightarrow> dp' = dp)
    \<and> (\<forall>j < 4. touched_once (quarter j dp) (quarter j dp')
        \<and> (j < i \<or> unformatted ecc j \<longrightarrow> quarter j dp' = quarter j dp))"
  using assms(2,3)
proof (induction n arbitrary: i dp unc cor)
  case 0
  then show ?case by simp
next
  case (Suc n)
  then have i: "i < 4" "n + Suc i = 4" by simp_all
  from i assms(1) obtain r c where rc: "rd_be32 ecc (0x30 + 4 * i) = Some r" "rd_be32 ecc (0x40 + 4 * i) = Some c"
    by (auto simp: rd_be32_def)
  let ?syn = "r XOR c"
  let ?fix = "r \<noteq> 0xFFFFFFFF \<and> ?syn \<noteq> 0 \<and> (?syn - 1) AND ?syn \<noteq> 0 \<and> ecc_even ?syn XOR ecc_odd ?syn = 0xfff"
  note IH = Suc.IH [OF i(2)]
  show ?case
  proof (cases ?fix)
    case False
    then obtain unc1 cor1 where step: "nand_correct_loop (Suc n) i dp ecc unc cor = nand_correct_loop n (Suc i) dp ecc unc1 cor1"
      and le: "unc \<le> unc1" "cor \<le> cor1"
      using rc that by (auto simp: Let_def) (metis le_refl le_SucI)+
    from IH [OF Suc.prems(2), of unc1 cor1] show ?thesis unfolding step
      using le by (fastforce intro: order_trans)
  next
    case True
    obtain p where p: "p < 4096" "ecc_odd ?syn = of_nat p" using ecc_odd_range by blast
    obtain d' where d': "flip_bit dp (512 * i) (of_nat p) = Some d'" "length d' = 2048"
      "\<And>j. j < 4 \<Longrightarrow> quarter j d' = (if j = i then flip (quarter i dp) p else quarter j dp)"
      using flip_bit_quarter [OF Suc.prems(2) i(1) p(1)] by blast
    have step: "nand_correct_loop (Suc n) i dp ecc unc cor = nand_correct_loop n (Suc i) d' ecc unc (Suc cor)"
      using True rc p d'(1) by (simp add: Let_def)
    have fmt: "\<not> unformatted ecc i" using True rc by (simp add: unformatted_def)
    obtain unc' cor' dp' where r: "nand_correct_loop n (Suc i) d' ecc unc (Suc cor) = Some (unc', cor', dp')"
      "length dp' = 2048" "unc \<le> unc'" "Suc cor \<le> cor'"
      "\<forall>j < 4. touched_once (quarter j d') (quarter j dp')
        \<and> (j < Suc i \<or> unformatted ecc j \<longrightarrow> quarter j dp' = quarter j d')"
      using IH [OF d'(2), of unc "Suc cor"] by blast
    have "touched_once (quarter j dp) (quarter j dp')
        \<and> (j < i \<or> unformatted ecc j \<longrightarrow> quarter j dp' = quarter j dp)" if "j < 4" for j
      using r(5) [rule_format, OF that] d'(3) [OF that] p(1) fmt
      by (cases "j = i") (auto simp: touched_once_def)
    then show ?thesis unfolding step using r by auto
  qed
qed

text \<open>
  C5: On any page buffer of 2048 bytes and any spare buffer of at least 80 bytes, \<^verbatim>\<open>nand_correct\<close>
  stays in bounds and returns one of its three codes. It changes at most one bit in each quarter
  page, never touches a quarter whose stored code is erased, and if it reports OK it changed nothing.
\<close>

theorem nand_correct_safe:
  assumes "length data = 2048" "80 \<le> length ecc"
  shows "\<exists>r data' s'. nand_correct pageno data ecc s = Some (r, data', s')
     \<and> r \<in> {NAND_ECC_OK, NAND_ECC_CORRECTED, NAND_ECC_UNCORRECTABLE}
     \<and> length data' = 2048 \<and> same s s' \<and> (r = NAND_ECC_OK \<longrightarrow> data' = data \<and> s' = s)
     \<and> (\<forall>j < 4. touched_once (quarter j data) (quarter j data')
          \<and> (unformatted ecc j \<longrightarrow> quarter j data' = quarter j data))"
proof -
  obtain unc cor data' where l: "nand_correct_loop 4 0 data ecc 0 0 = Some (unc, cor, data')"
    "length data' = 2048" "unc = 0 \<and> cor = 0 \<longrightarrow> data' = data"
    "\<forall>j < 4. touched_once (quarter j data) (quarter j data')
        \<and> (j < 0 \<or> unformatted ecc j \<longrightarrow> quarter j data' = quarter j data)"
    using nand_correct_loop_total [OF assms(2), of 4 0 data 0 0] assms(1) by auto
  have "same s (gecko_msg f a s)" for f a by (intro same_intro same_refl)
  with l show ?thesis by (auto simp: nand_correct_def Let_def)
qed

theorem nand_correct_safe_witness:
  "\<exists>r data' s'. nand_correct 0 (replicate 2048 0) (replicate 96 0xFF) nand_reset_st = Some (r, data', s')
     \<and> length data' = 2048 \<and> quarter 0 data' = quarter 0 (replicate 2048 0)"
proof -
  have "unformatted (replicate 96 0xFF) 0" by (simp add: unformatted_def rd_be32_def be32_def)
  with nand_correct_safe [of "replicate 2048 0" "replicate 96 0xFF" 0 nand_reset_st] show ?thesis
    by fastforce
qed

end
