(* ===== verification/NandWrite.thy ===== *)
theory NandWrite
  imports Nand
begin

text \<open>
  The write and erase commands of \<^verbatim>\<open>armboot/storage/nand.c\<close>, compiled in with \<^verbatim>\<open>NAND_SUPPORT_WRITE\<close> and
  \<^verbatim>\<open>NAND_SUPPORT_ERASE\<close>, and their guard, which keeps boot1 and boot2 out of reach.
\<close>

section \<open>The commands\<close>

abbreviation (input) "NAND_ERASE_PRE \<equiv> 0x60 :: u32"
abbreviation (input) "NAND_ERASE_POST \<equiv> 0xd0 :: u32"
abbreviation (input) "NAND_WRITE_PRE \<equiv> 0x80 :: u32"
abbreviation (input) "NAND_WRITE_POST \<equiv> 0x10 :: u32"
abbreviation (input) "NAND_FLAGS_WR \<equiv> 0x4000 :: u32"

text \<open>\<^verbatim>\<open>nand_min_page\<close> is a variable that nothing assigns.\<close>

definition nand_min_page :: u32 where
  "nand_min_page = 0x200"

text \<open>
  \<open>fla\<close> is the \<^verbatim>\<open>RB_FLA\<close> of the source, a bus device name that no header of the repository declares.
\<close>

definition nand_write_page ::
  "env \<Rightarrow> AHBDEV \<Rightarrow> u32 \<Rightarrow> u32 \<Rightarrow> u32 \<Rightarrow> 'a nand_st_scheme \<Rightarrow> 'a nand_st_scheme option" where
  "nand_write_page ev fla pageno data ecc s = do {
     let s = s\<lparr>irq_flag := 0\<rparr>;
     (if pageno < nand_min_page \<or> pageno \<ge> of_nat NAND_MAX_PAGE
      then Some (gecko_msg ''Error: nand_write to page %d forbidden'' [VInt pageno] s)
      else do {
        s \<leftarrow> (if data \<noteq> -1 then dc_flushrange ev data (of_nat PAGE_SIZE) s else Some s);
        s \<leftarrow> (if ecc \<noteq> -1 then dc_flushrange ev ecc (of_nat PAGE_SPARE_SIZE) s else Some s);
        s \<leftarrow> ahb_flush_to ev fla s;
        let s = nand_set_address 0 pageno s;
        let s = nand_setup_dma ev data ecc s;
        let s = nand_send_command NAND_WRITE_PRE 0x1f NAND_FLAGS_WR 0x840 s;
        s \<leftarrow> nand_wait_busy ev s;
        Some (nand_send_command NAND_WRITE_POST 0 (NAND_FLAGS_IRQ OR NAND_FLAGS_WAIT) 0 s) }) }"

definition nand_erase_block :: "env \<Rightarrow> u32 \<Rightarrow> 'a nand_st_scheme \<Rightarrow> 'a nand_st_scheme option" where
  "nand_erase_block ev pageno s = do {
     let s = s\<lparr>irq_flag := 0\<rparr>;
     (if pageno < nand_min_page \<or> pageno \<ge> of_nat NAND_MAX_PAGE
      then Some (gecko_msg ''Error: nand_erase to page %d forbidden'' [VInt pageno] s)
      else do {
        let s = nand_set_address 0 pageno s;
        let s = nand_send_command NAND_ERASE_PRE 0x1c 0 0 s;
        s \<leftarrow> nand_wait_busy ev s;
        Some (nand_send_command NAND_ERASE_POST 0 (NAND_FLAGS_IRQ OR NAND_FLAGS_WAIT) 0 s) }) }"

section \<open>The guard and the command sequences\<close>

definition writable_page :: "u32 \<Rightarrow> bool" where
  "writable_page p \<longleftrightarrow> 0x200 \<le> p \<and> p < 0x40000"

lemma guard_iff: "(pageno < nand_min_page \<or> pageno \<ge> of_nat NAND_MAX_PAGE) \<longleftrightarrow> \<not> writable_page pageno"
  by (auto simp: nand_min_page_def writable_page_def)

lemma writable_not_ones: "writable_page p \<Longrightarrow> p \<noteq> -1"
  by (auto simp: writable_page_def)

lemma dc_flushrange_step:
  "\<exists>s'. dc_flushrange ev a n s = Some s' \<and> same s s' \<and> writes nand_reg s' = writes nand_reg s"
proof -
  obtain es c where "dc_flushrange ev a n s = Some (s\<lparr>io_log := es @ Cp15 Drain_write_buffer # Cp15 c # io_log s\<rparr>)"
    "list_all (io_addr ahb_reg) es" using dc_flushrange_log by blast
  moreover from this have "io_step (io_addr ahb_reg) s (s\<lparr>io_log := es @ Cp15 Drain_write_buffer # Cp15 c # io_log s\<rparr>)"
    by (auto simp: io_step_def intro!: exI [of _ "es @ [Cp15 Drain_write_buffer, Cp15 c]"])
  ultimately show ?thesis using writes_io_step io_step_same ahb_not_nand by blast
qed

lemma nand_erase_block_runs:
  assumes "always_ready ev NAND_CTRL (\<lambda>v. v AND NAND_BUSY_MASK = 0)"
  shows "\<exists>s'. nand_erase_block ev pageno s = Some s' \<and> same (s\<lparr>irq_flag := 0\<rparr>) s'
     \<and> writes nand_reg s' = writes nand_reg s @ (if writable_page pageno
         then [(NAND_ADDR0, 0), (NAND_ADDR1, pageno), (NAND_CTRL, 0x7fffffff), (NAND_CTRL, 0), (NAND_CTRL, 0x9c600000),
               (NAND_CTRL, 0x7fffffff), (NAND_CTRL, 0), (NAND_CTRL, 0xC0d08000)]
         else [])"
proof (cases "writable_page pageno")
  case True
  let ?s = "s\<lparr>irq_flag := 0\<rparr>"
  let ?s1 = "nand_send_command NAND_ERASE_PRE 0x1c 0 0 (nand_set_address 0 pageno ?s)"
  obtain s2 where s2: "nand_wait_busy ev ?s1 = Some s2" using nand_wait_busy_returns [OF assms] by blast
  let ?s3 = "nand_send_command NAND_ERASE_POST 0 0x40008000 0 s2"
  have "nand_erase_block ev pageno s = Some ?s3"
    unfolding nand_erase_block_def guard_iff using True s2 by (simp add: Let_def)
  moreover have "same ?s ?s1" by (intro same_intro same_refl)
  then have "same ?s s2" using nand_wait_busy_writes(2) [OF s2] by (rule same_trans)
  then have "same ?s ?s3" by (intro same_intro)
  ultimately show ?thesis using True writable_not_ones [OF True] nand_wait_busy_writes(1) [OF s2] by simp
next
  case False
  then show ?thesis unfolding nand_erase_block_def guard_iff by (simp add: same_intro)
qed

lemma nand_write_page_runs:
  assumes "always_ready ev NAND_CTRL (\<lambda>v. v AND NAND_BUSY_MASK = 0)"
    and flush: "\<And>t :: 'a nand_st_scheme. \<exists>t'. ahb_flush_to ev fla t = Some t'"
    and "data \<noteq> -1" "ecc \<noteq> -1" "plain_addr data" "plain_addr ecc"
  shows "\<exists>s'. nand_write_page ev fla pageno data ecc (s :: 'a nand_st_scheme) = Some s' \<and> same (s\<lparr>irq_flag := 0\<rparr>) s'
     \<and> writes nand_reg s' = writes nand_reg s @ (if writable_page pageno
         then [(NAND_ADDR0, 0), (NAND_ADDR1, pageno), (NAND_DATA, data), (NAND_ECC, ecc),
               (NAND_CTRL, 0x7fffffff), (NAND_CTRL, 0), (NAND_CTRL, 0x9f804840),
               (NAND_CTRL, 0x7fffffff), (NAND_CTRL, 0), (NAND_CTRL, 0xC0108000)]
         else [])"
proof (cases "writable_page pageno")
  case True
  let ?s = "s\<lparr>irq_flag := 0\<rparr>"
  obtain s1 where s1: "dc_flushrange ev data 2048 ?s = Some s1" "same ?s s1" "writes nand_reg s1 = writes nand_reg s"
    using dc_flushrange_step [of ev data 2048 ?s] by auto
  obtain s2 where s2: "dc_flushrange ev ecc 64 s1 = Some s2" "same s1 s2" "writes nand_reg s2 = writes nand_reg s1"
    using dc_flushrange_step by blast
  obtain s3 where s3: "ahb_flush_to ev fla s2 = Some s3" using flush by blast
  let ?s4 = "nand_send_command NAND_WRITE_PRE 0x1f NAND_FLAGS_WR 0x840
      (nand_setup_dma ev data ecc (nand_set_address 0 pageno s3))"
  obtain s5 where s5: "nand_wait_busy ev ?s4 = Some s5" using nand_wait_busy_returns [OF assms(1)] by blast
  let ?s6 = "nand_send_command NAND_WRITE_POST 0 0x40008000 0 s5"
  have "nand_write_page ev fla pageno data ecc s = Some ?s6"
    unfolding nand_write_page_def guard_iff using True assms(3,4) s1(1) s2(1) s3 s5 by (simp add: Let_def)
  moreover have "same ?s s3"
    using s1(2) s2(2) io_step_same [OF ahb_flush_to_step [OF s3]] by (meson same_trans)
  then have "same ?s ?s4" by (intro same_intro)
  then have "same ?s s5" using nand_wait_busy_writes(2) [OF s5] by (rule same_trans)
  then have "same ?s ?s6" by (intro same_intro)
  ultimately show ?thesis
    using True writable_not_ones [OF True] assms(3-6) nand_wait_busy_writes(1) [OF s5] writes_ahb(2) [OF s3] s1(3) s2(3)
    by (simp add: writes_setup_dma)
next
  case False
  then show ?thesis unfolding nand_write_page_def guard_iff by (simp add: same_intro)
qed

text \<open>
  C8: with a ready controller and a bus flush that returns, writing a page and erasing a block return, and issue
  their command sequence exactly when the page number lies in [0x200, 0x40000): no page number reaches the boot
  blocks or leaves the chip, and a refused call sends nothing to the controller. Nothing but the completion flag
  changes besides.
\<close>

theorem nand_write_guarded:
  assumes "always_ready ev NAND_CTRL (\<lambda>v. v AND NAND_BUSY_MASK = 0)"
    and "\<And>t :: 'a nand_st_scheme. \<exists>t'. ahb_flush_to ev fla t = Some t'"
    and "data \<noteq> -1" "ecc \<noteq> -1" "plain_addr data" "plain_addr ecc"
  shows "(\<exists>s'. nand_erase_block ev pageno (s :: 'a nand_st_scheme) = Some s' \<and> same (s\<lparr>irq_flag := 0\<rparr>) s'
     \<and> writes nand_reg s' = writes nand_reg s @ (if 0x200 \<le> pageno \<and> pageno < 0x40000
         then [(NAND_ADDR0, 0), (NAND_ADDR1, pageno), (NAND_CTRL, 0x7fffffff), (NAND_CTRL, 0), (NAND_CTRL, 0x9c600000),
               (NAND_CTRL, 0x7fffffff), (NAND_CTRL, 0), (NAND_CTRL, 0xC0d08000)]
         else []))
   \<and> (\<exists>s'. nand_write_page ev fla pageno data ecc s = Some s' \<and> same (s\<lparr>irq_flag := 0\<rparr>) s'
     \<and> writes nand_reg s' = writes nand_reg s @ (if 0x200 \<le> pageno \<and> pageno < 0x40000
         then [(NAND_ADDR0, 0), (NAND_ADDR1, pageno), (NAND_DATA, data), (NAND_ECC, ecc),
               (NAND_CTRL, 0x7fffffff), (NAND_CTRL, 0), (NAND_CTRL, 0x9f804840),
               (NAND_CTRL, 0x7fffffff), (NAND_CTRL, 0), (NAND_CTRL, 0xC0108000)]
         else []))"
  using nand_erase_block_runs [OF assms(1), of pageno s] nand_write_page_runs [OF assms, of pageno s]
  unfolding writable_page_def by (rule conjI)

text \<open>A controller that is idle and a bus whose NAND port is already invalidated.\<close>

definition flushed_env :: env where
  "flushed_env l a = (if a = 0x0d8b0008 then 0xffff else 0)"

lemma flushed_env_flush: "\<exists>t'. ahb_flush_to flushed_env AHB_NAND t = Some t'"
  by (simp add: ahb_flush_to_def ahb_flush_to_raw_def ahb_mask_def access_unfold mc_read32_def read32_def flushed_env_def)

theorem nand_write_guarded_witness:
  "(\<exists>s'. nand_erase_block flushed_env 0x1ff nand_reset_st = Some s' \<and> writes nand_reg s' = [])
   \<and> (\<exists>s'. nand_write_page flushed_env AHB_NAND 0x200 0x10200000 0x10300000 nand_reset_st = Some s'
        \<and> length (writes nand_reg s') = 10)"
proof -
  have "writes nand_reg nand_reset_st = []" by (simp add: nand_reset_st_def writes_def)
  note empty = this
  have plain: "plain_addr 0x10200000" "plain_addr 0x10300000" by (simp_all add: plain_addr_def)
  have ready: "always_ready flushed_env NAND_CTRL (\<lambda>v. v AND NAND_BUSY_MASK = 0)"
    by (simp add: always_ready_def flushed_env_def)
  note run = nand_write_guarded [OF ready flushed_env_flush _ _ plain, where s = nand_reset_st]
  have "\<exists>s'. nand_erase_block flushed_env 0x1ff nand_reset_st = Some s' \<and> writes nand_reg s' = []"
    using run [where pageno = "0x1ff"] by (auto simp: empty)
  moreover have "\<exists>s'. nand_write_page flushed_env AHB_NAND 0x200 0x10200000 0x10300000 nand_reset_st = Some s'
      \<and> length (writes nand_reg s') = 10"
    using run [where pageno = "0x200"] by (auto simp: empty)
  ultimately show ?thesis by (rule conjI)
qed

end
