(* ===== verification/Sdhc.thy ===== *)
theory Sdhc
  imports Nand
begin

text \<open>
  \<^verbatim>\<open>armboot/storage/sdhc.c\<close>, first part: the register access of the SD host controller, which the
  code performs in 32-bit units, the controller reset, power and clock, and the interrupt service
  routine. Command execution waits for interrupts and is in theory \<^verbatim>\<open>SdhcCommand\<close>.
\<close>

section \<open>Host state\<close>

text \<open>\<^verbatim>\<open>struct sdhc_host\<close>, without its unused \<^verbatim>\<open>regs\<close> array; the code only ever uses the one host
  \<^verbatim>\<open>sc_host\<close>.\<close>

record sdhc_host =
  iot :: u32
  ioh :: u32
  clkbase :: u32
  hflags :: u32
  ocr :: u32
  intr_status :: u16
  intr_error_status :: u16
  data_command :: int

definition zero_host :: sdhc_host where
  "zero_host = \<lparr>iot = 0, ioh = 0, clkbase = 0, hflags = 0, ocr = 0, intr_status = 0,
     intr_error_status = 0, data_command = 0\<rparr>"

record host_st = nand_st +
  sc_host :: sdhc_host

definition upd_host :: "(sdhc_host \<Rightarrow> sdhc_host) \<Rightarrow> 'a host_st_scheme \<Rightarrow> 'a host_st_scheme" where
  "upd_host f s = s\<lparr>sc_host := f (sc_host s)\<rparr>"

section \<open>Registers\<close>

abbreviation (input) "SDHC_REG_BASE \<equiv> 0x0d070000 :: u32"
abbreviation (input) "SDHC_DMA_ADDR \<equiv> 0x00 :: u32"
abbreviation (input) "SDHC_BLOCK_SIZE \<equiv> 0x04 :: u32"
abbreviation (input) "SDHC_BLOCK_COUNT \<equiv> 0x06 :: u32"
abbreviation (input) "SDHC_ARGUMENT \<equiv> 0x08 :: u32"
abbreviation (input) "SDHC_TRANSFER_MODE \<equiv> 0x0c :: u32"
abbreviation (input) "SDHC_RESPONSE \<equiv> 0x10 :: u32"
abbreviation (input) "SDHC_PRESENT_STATE \<equiv> 0x24 :: u32"
abbreviation (input) "SDHC_POWER_CTL \<equiv> 0x29 :: u32"
abbreviation (input) "SDHC_CLOCK_CTL \<equiv> 0x2c :: u32"
abbreviation (input) "SDHC_TIMEOUT_CTL \<equiv> 0x2e :: u32"
abbreviation (input) "SDHC_SOFTWARE_RESET \<equiv> 0x2f :: u32"
abbreviation (input) "SDHC_NINTR_STATUS \<equiv> 0x30 :: u32"
abbreviation (input) "SDHC_EINTR_STATUS \<equiv> 0x32 :: u32"
abbreviation (input) "SDHC_NINTR_STATUS_EN \<equiv> 0x34 :: u32"
abbreviation (input) "SDHC_EINTR_STATUS_EN \<equiv> 0x36 :: u32"
abbreviation (input) "SDHC_NINTR_SIGNAL_EN \<equiv> 0x38 :: u32"
abbreviation (input) "SDHC_EINTR_SIGNAL_EN \<equiv> 0x3a :: u32"
abbreviation (input) "SDHC_CAPABILITIES \<equiv> 0x40 :: u32"

abbreviation (input) "SDHC_ERROR_INTERRUPT \<equiv> 0x8000 :: u16"
abbreviation (input) "SDHC_ERROR_TIMEOUT \<equiv> 0x4000 :: u16"
abbreviation (input) "SDHC_CARD_INTERRUPT \<equiv> 0x100 :: u16"
abbreviation (input) "SDHC_DMA_INTERRUPT \<equiv> 0x8 :: u16"
abbreviation (input) "SDHC_TRANSFER_COMPLETE \<equiv> 0x2 :: u16"
abbreviation (input) "SDHC_COMMAND_COMPLETE \<equiv> 0x1 :: u16"
abbreviation (input) "SDHC_NINTR_STATUS_MASK \<equiv> 0x81ff :: u16"
abbreviation (input) "SDHC_EINTR_STATUS_MASK \<equiv> 0x03ff :: u16"
abbreviation (input) "SDHC_RESET_DAT \<equiv> 4 :: u8"
abbreviation (input) "SDHC_RESET_CMD \<equiv> 2 :: u8"
abbreviation (input) "SDHC_RESET_ALL \<equiv> 1 :: u8"
abbreviation (input) "SDHC_CMD_INHIBIT_MASK \<equiv> 3 :: u32"
abbreviation (input) "SHF_USE_DMA \<equiv> 1 :: u32"

abbreviation (input) "ENXIO \<equiv> 6 :: int"
abbreviation (input) "EINVAL \<equiv> 22 :: int"
abbreviation (input) "ETIMEDOUT \<equiv> 60 :: int"

section \<open>Register access in 32-bit units\<close>

definition bus_space_read_4 :: "env \<Rightarrow> u32 \<Rightarrow> u32 \<Rightarrow> 'a mach_scheme \<Rightarrow> u32 \<times> 'a mach_scheme" where
  "bus_space_read_4 ev h reg s = read32 ev (h + reg) s"

definition bus_space_read_2 :: "env \<Rightarrow> u32 \<Rightarrow> u32 \<Rightarrow> 'a mach_scheme \<Rightarrow> u16 \<times> 'a mach_scheme" where
  "bus_space_read_2 ev h reg s =
    (if reg AND 3 \<noteq> 0
     then (let (v, s) = read32 ev ((h + reg) AND NOT 3) s in (ucast (drop_bit 16 (v AND 0xffff0000)), s))
     else (let (v, s) = read32 ev (h + reg) s in (ucast (v AND 0xffff), s)))"

definition bus_space_read_1 :: "env \<Rightarrow> u32 \<Rightarrow> u32 \<Rightarrow> 'a mach_scheme \<Rightarrow> u8 \<times> 'a mach_scheme" where
  "bus_space_read_1 ev h reg s =
    (let shift = unat ((reg AND 3) * 8);
         msk = push_bit shift 0xFF;
         addr = h + reg;
         (v, s) = read32 ev (addr AND NOT 3) s
     in (ucast (drop_bit shift (v AND msk)), s))"

definition bus_space_write_4 :: "u32 \<Rightarrow> u32 \<Rightarrow> u32 \<Rightarrow> 'a mach_scheme \<Rightarrow> 'a mach_scheme" where
  "bus_space_write_4 h r v s = write32 (h + r) v s"

definition bus_space_write_2 :: "env \<Rightarrow> u32 \<Rightarrow> u32 \<Rightarrow> u16 \<Rightarrow> 'a mach_scheme \<Rightarrow> 'a mach_scheme" where
  "bus_space_write_2 ev h r v s =
    (if r AND 3 \<noteq> 0 then mask32 ev ((h + r) AND NOT 3) 0xffff0000 (push_bit 16 (ucast v)) s
     else mask32 ev (h + r) 0xffff (ucast v) s)"

definition bus_space_write_1 :: "env \<Rightarrow> u32 \<Rightarrow> u32 \<Rightarrow> u8 \<Rightarrow> 'a mach_scheme \<Rightarrow> 'a mach_scheme" where
  "bus_space_write_1 ev h r v s =
    (let shift = unat ((r AND 3) * 8);
         msk = push_bit shift 0xFF;
         addr = h + r
     in mask32 ev (addr AND NOT 3) msk (push_bit shift (ucast v)) s)"

definition HREAD1 :: "env \<Rightarrow> u32 \<Rightarrow> 'a host_st_scheme \<Rightarrow> u8 \<times> 'a host_st_scheme" where
  "HREAD1 ev reg s = bus_space_read_1 ev (ioh (sc_host s)) reg s"

definition HREAD2 :: "env \<Rightarrow> u32 \<Rightarrow> 'a host_st_scheme \<Rightarrow> u16 \<times> 'a host_st_scheme" where
  "HREAD2 ev reg s = bus_space_read_2 ev (ioh (sc_host s)) reg s"

definition HREAD4 :: "env \<Rightarrow> u32 \<Rightarrow> 'a host_st_scheme \<Rightarrow> u32 \<times> 'a host_st_scheme" where
  "HREAD4 ev reg s = bus_space_read_4 ev (ioh (sc_host s)) reg s"

definition HWRITE1 :: "env \<Rightarrow> u32 \<Rightarrow> u8 \<Rightarrow> 'a host_st_scheme \<Rightarrow> 'a host_st_scheme" where
  "HWRITE1 ev reg v s = bus_space_write_1 ev (ioh (sc_host s)) reg v s"

definition HWRITE2 :: "env \<Rightarrow> u32 \<Rightarrow> u16 \<Rightarrow> 'a host_st_scheme \<Rightarrow> 'a host_st_scheme" where
  "HWRITE2 ev reg v s = bus_space_write_2 ev (ioh (sc_host s)) reg v s"

definition HWRITE4 :: "u32 \<Rightarrow> u32 \<Rightarrow> 'a host_st_scheme \<Rightarrow> 'a host_st_scheme" where
  "HWRITE4 reg v s = bus_space_write_4 (ioh (sc_host s)) reg v s"

definition HCLR2 :: "env \<Rightarrow> u32 \<Rightarrow> u16 \<Rightarrow> 'a host_st_scheme \<Rightarrow> 'a host_st_scheme" where
  "HCLR2 ev reg bits s = (let (v, s) = HREAD2 ev reg s in HWRITE2 ev reg (v AND NOT bits) s)"

definition HSET2 :: "env \<Rightarrow> u32 \<Rightarrow> u16 \<Rightarrow> 'a host_st_scheme \<Rightarrow> 'a host_st_scheme" where
  "HSET2 ev reg bits s = (let (v, s) = HREAD2 ev reg s in HWRITE2 ev reg (v OR bits) s)"

section \<open>Reset, power, clock\<close>

text \<open>The reset loop with \<open>timo\<close> rounds left; the flag says whether the bit cleared in time.\<close>

fun soft_reset_loop :: "env \<Rightarrow> u8 \<Rightarrow> nat \<Rightarrow> 'a host_st_scheme \<Rightarrow> bool \<times> 'a host_st_scheme" where
  "soft_reset_loop ev msk 0 s = (False, s)"
| "soft_reset_loop ev msk (Suc timo) s =
    (let (v, s) = HREAD1 ev SDHC_SOFTWARE_RESET s in
     if v AND msk = 0 then (True, s)
     else soft_reset_loop ev msk timo (HWRITE1 ev SDHC_SOFTWARE_RESET 0 (udelay_ev 10000 s)))"

definition sdhc_soft_reset :: "env \<Rightarrow> u8 \<Rightarrow> 'a host_st_scheme \<Rightarrow> int \<times> 'a host_st_scheme" where
  "sdhc_soft_reset ev msk s =
    (let s = HWRITE1 ev SDHC_SOFTWARE_RESET msk s;
         (ok, s) = soft_reset_loop ev msk 10 s
     in if \<not> ok then (ETIMEDOUT, HWRITE1 ev SDHC_SOFTWARE_RESET 0 s) else (0, s))"

text \<open>Card removal and insertion, buffer ready, DMA, block gap, transfer and command complete.\<close>

abbreviation (input) "SDHC_IMASK \<equiv> 0xff :: u16"

definition sdhc_host_reset :: "env \<Rightarrow> 'a host_st_scheme \<Rightarrow> int \<times> 'a host_st_scheme" where
  "sdhc_host_reset ev s =
    (let s = HWRITE2 ev SDHC_NINTR_SIGNAL_EN 0 s;
         (error, s) = sdhc_soft_reset ev SDHC_RESET_ALL s
     in if error \<noteq> 0 then (error, s)
        else
         (let s = HWRITE1 ev SDHC_TIMEOUT_CTL 0x0e s;
              s = HWRITE2 ev SDHC_NINTR_STATUS_EN SDHC_IMASK s;
              s = HWRITE2 ev SDHC_EINTR_STATUS_EN SDHC_EINTR_STATUS_MASK s;
              s = HWRITE2 ev SDHC_NINTR_SIGNAL_EN SDHC_IMASK s;
              s = HWRITE2 ev SDHC_EINTR_SIGNAL_EN SDHC_EINTR_STATUS_MASK s
          in (0, s)))"

definition sdhc_shutdown :: "env \<Rightarrow> 'a host_st_scheme \<Rightarrow> 'a host_st_scheme" where
  "sdhc_shutdown ev s = snd (sdhc_host_reset ev s)"

definition sdhc_card_detect :: "env \<Rightarrow> 'a host_st_scheme \<Rightarrow> bool \<times> 'a host_st_scheme" where
  "sdhc_card_detect ev s =
    (let (v, s) = HREAD4 ev SDHC_PRESENT_STATE s in (v AND 0x10000 \<noteq> 0, s))"

definition sdhc_bus_power :: "env \<Rightarrow> u32 \<Rightarrow> 'a host_st_scheme \<Rightarrow> int \<times> 'a host_st_scheme" where
  "sdhc_bus_power ev o_cr s =
    (let s = gecko_msg ''sdhc_bus_power(%u)'' [VInt o_cr] s;
         s = HWRITE1 ev SDHC_POWER_CTL 0 s
     in if o_cr = 0 then (0, snd (sdhc_host_reset ev s))
        else
         (let s = HWRITE1 ev SDHC_POWER_CTL 0x0f s;
              s = udelay_ev 10000 s;
              (v, s) = HREAD1 ev SDHC_POWER_CTL s
          in if v AND 1 = 0
             then (ENXIO, gecko_msg ''Host controller failed to enable bus power'' [] s)
             else (0, s)))"

text \<open>\<^verbatim>\<open>for (div = 1; div <= 256; div *= 2)\<close>: nine divisors.\<close>

fun clock_divisor_loop :: "nat \<Rightarrow> u32 \<Rightarrow> u32 \<Rightarrow> u32 \<Rightarrow> int" where
  "clock_divisor_loop 0 cb freq dv = -1"
| "clock_divisor_loop (Suc n) cb freq dv =
    (if cb div dv \<le> freq then uint (dv div 2) else clock_divisor_loop n cb freq (dv * 2))"

definition sdhc_clock_divisor :: "u32 \<Rightarrow> u32 \<Rightarrow> int" where
  "sdhc_clock_divisor cb freq = clock_divisor_loop 9 cb freq 1"

fun clock_stable_loop :: "env \<Rightarrow> nat \<Rightarrow> 'a host_st_scheme \<Rightarrow> bool \<times> 'a host_st_scheme" where
  "clock_stable_loop ev 0 s = (False, s)"
| "clock_stable_loop ev (Suc timo) s =
    (let (v, s) = HREAD2 ev SDHC_CLOCK_CTL s in
     if v AND 2 \<noteq> 0 then (True, s) else clock_stable_loop ev timo (udelay_ev 10 s))"

definition sdhc_bus_clock :: "env \<Rightarrow> u32 \<Rightarrow> 'a host_st_scheme \<Rightarrow> int \<times> 'a host_st_scheme" where
  "sdhc_bus_clock ev freq s =
    (let s = gecko_msg ''%s(%d)'' [VStr (Some ''sdhc_bus_clock''), VInt freq] s;
         s = HWRITE2 ev SDHC_CLOCK_CTL 0 s
     in if freq = 0 then (0, s)
        else
         (let dv = sdhc_clock_divisor (clkbase (sc_host s)) freq in
          if dv < 0 then (EINVAL, s)
          else
           (let s = HWRITE2 ev SDHC_CLOCK_CTL (push_bit 8 (word_of_int dv)) s;
                s = HSET2 ev SDHC_CLOCK_CTL 1 s;
                (ok, s) = clock_stable_loop ev 1000 s
            in if \<not> ok then (ETIMEDOUT, gecko_msg ''sdhc: internal clock never stabilized'' [] s)
               else (0, HSET2 ev SDHC_CLOCK_CTL 4 s))))"

definition sdhc_card_intr_mask :: "env \<Rightarrow> bool \<Rightarrow> 'a host_st_scheme \<Rightarrow> 'a host_st_scheme" where
  "sdhc_card_intr_mask ev enable s =
    (if enable
     then HSET2 ev SDHC_NINTR_SIGNAL_EN SDHC_CARD_INTERRUPT (HSET2 ev SDHC_NINTR_STATUS_EN SDHC_CARD_INTERRUPT s)
     else HCLR2 ev SDHC_NINTR_STATUS_EN SDHC_CARD_INTERRUPT (HCLR2 ev SDHC_NINTR_SIGNAL_EN SDHC_CARD_INTERRUPT s))"

definition sdhc_card_intr_ack :: "env \<Rightarrow> 'a host_st_scheme \<Rightarrow> 'a host_st_scheme" where
  "sdhc_card_intr_ack ev s = HSET2 ev SDHC_NINTR_STATUS_EN SDHC_CARD_INTERRUPT s"

fun sdhc_wait_state_loop :: "env \<Rightarrow> u32 \<Rightarrow> u32 \<Rightarrow> nat \<Rightarrow> 'a host_st_scheme \<Rightarrow> int \<times> 'a host_st_scheme" where
  "sdhc_wait_state_loop ev msk v 0 s = (ETIMEDOUT, s)"
| "sdhc_wait_state_loop ev msk v (Suc timeout) s =
    (let (state, s) = HREAD4 ev SDHC_PRESENT_STATE s in
     if state AND msk = v then (0, s) else sdhc_wait_state_loop ev msk v timeout (udelay_ev 10000 s))"

definition sdhc_wait_state :: "env \<Rightarrow> u32 \<Rightarrow> u32 \<Rightarrow> 'a host_st_scheme \<Rightarrow> int \<times> 'a host_st_scheme" where
  "sdhc_wait_state ev msk v s = sdhc_wait_state_loop ev msk v 500 s"

section \<open>Interrupt service\<close>

text \<open>The error branch of \<^verbatim>\<open>sdhc_intr\<close>.\<close>

definition sdhc_intr_error :: "env \<Rightarrow> u16 \<Rightarrow> 'a host_st_scheme \<Rightarrow> 'a host_st_scheme" where
  "sdhc_intr_error ev status s =
    (let (error, s) = HREAD2 ev SDHC_EINTR_STATUS s;
         (signal, s) = HREAD2 ev SDHC_EINTR_SIGNAL_EN s;
         s = HWRITE2 ev SDHC_EINTR_SIGNAL_EN 0 s;
         s = snd (sdhc_soft_reset ev (SDHC_RESET_DAT OR SDHC_RESET_CMD) s);
         s = (if data_command (sc_host s) = 1 then upd_host (data_command_update (\<lambda>_. 0)) s else s);
         s = HWRITE2 ev SDHC_EINTR_STATUS error s;
         s = HWRITE2 ev SDHC_EINTR_SIGNAL_EN signal s
     in if error AND 0x11 \<noteq> 0
        then upd_host (\<lambda>h. h\<lparr>intr_error_status := intr_error_status h OR error,
                              intr_status := intr_status h OR status\<rparr>) s
        else s)"

definition sdhc_intr :: "env \<Rightarrow> 'a host_st_scheme \<Rightarrow> bool \<times> 'a host_st_scheme" where
  "sdhc_intr ev s =
    (let (status, s) = HREAD2 ev SDHC_NINTR_STATUS s in
     if status AND SDHC_NINTR_STATUS_MASK = 0 then (False, s)
     else
      (let s = HWRITE2 ev SDHC_NINTR_STATUS status s;
           s = (if status AND SDHC_ERROR_INTERRUPT \<noteq> 0 then sdhc_intr_error ev status s else s);
           s = (if status AND 0x3b \<noteq> 0
                then upd_host (\<lambda>h. h\<lparr>intr_status := intr_status h OR status\<rparr>) s else s);
           s = (if status AND SDHC_CARD_INTERRUPT \<noteq> 0
                then HCLR2 ev SDHC_NINTR_STATUS_EN SDHC_CARD_INTERRUPT s else s)
       in (True, s)))"

definition sdhc_irq :: "env \<Rightarrow> 'a host_st_scheme \<Rightarrow> 'a host_st_scheme" where
  "sdhc_irq ev s = snd (sdhc_intr ev s)"

section \<open>What the host functions touch\<close>

definition sdhc_reg :: "u32 \<Rightarrow> bool" where
  "sdhc_reg a \<longleftrightarrow> SDHC_REG_BASE \<le> a \<and> a < SDHC_REG_BASE + 0x100"

definition host_ok :: "'a host_st_scheme \<Rightarrow> bool" where
  "host_ok s \<longleftrightarrow> ioh (sc_host s) = SDHC_REG_BASE"

lemma sdhc_reg_addr:
  assumes "r < 0x100"
  shows "sdhc_reg (SDHC_REG_BASE + r)" "sdhc_reg ((SDHC_REG_BASE + r) AND NOT 3)"
proof -
  have r: "unat r < 256" using assms by (simp add: word_less_nat_alt)
  then have u: "unat (SDHC_REG_BASE + r) = 0x0d070000 + unat r"
    by (simp add: unat_word_ariths)
  with r show "sdhc_reg (SDHC_REG_BASE + r)" by (simp add: sdhc_reg_def word_less_nat_alt word_le_nat_alt)
  have "unat ((SDHC_REG_BASE + r) AND NOT (mask 2)) = unat (SDHC_REG_BASE + r) div 4 * 4"
    using unat_and_not_mask [of "SDHC_REG_BASE + r" 2] by simp
  then have "unat ((SDHC_REG_BASE + r) AND NOT 3) = (0x0d070000 + unat r) div 4 * 4"
    by (simp add: u mask_eq_exp_minus_1)
  with r show "sdhc_reg ((SDHC_REG_BASE + r) AND NOT 3)"
    by (simp add: sdhc_reg_def word_less_nat_alt word_le_nat_alt) linarith
qed

text \<open>
  \<open>sd_frame s s'\<close>: only controller registers were accessed, and of the state only the host's interrupt
  bookkeeping changed.
\<close>

definition sd_frame :: "'a host_st_scheme \<Rightarrow> 'a host_st_scheme \<Rightarrow> bool" where
  "sd_frame s s' \<longleftrightarrow> (\<exists>es i e d. s' = s\<lparr>io_log := es @ io_log s,
      sc_host := (sc_host s)\<lparr>intr_status := i, intr_error_status := e, data_command := d\<rparr>\<rparr>
      \<and> list_all (io_addr sdhc_reg) es)"

lemma sd_frame_refl [simp, intro]: "sd_frame s s"
  unfolding sd_frame_def
  by (rule exI [of _ "[]"], rule exI [of _ "intr_status (sc_host s)"],
      rule exI [of _ "intr_error_status (sc_host s)"], rule exI [of _ "data_command (sc_host s)"]) simp

lemma sd_frame_trans [trans]: "sd_frame s t \<Longrightarrow> sd_frame t u \<Longrightarrow> sd_frame s u"
  unfolding sd_frame_def by (elim exE conjE) (simp, metis append.assoc list_all_append)

lemma io_step_sd_frame:
  assumes "io_step (io_addr sdhc_reg) s s'"
  shows "sd_frame s s'"
proof -
  obtain es where "s' = s\<lparr>io_log := es @ io_log s\<rparr>" "list_all (io_addr sdhc_reg) es"
    using assms by (rule io_stepD)
  then show ?thesis
    unfolding sd_frame_def
    by (intro exI [of _ es] exI [of _ "intr_status (sc_host s)"]
        exI [of _ "intr_error_status (sc_host s)"] exI [of _ "data_command (sc_host s)"]) simp
qed

lemma sd_frame_host_ok: "sd_frame s s' \<Longrightarrow> host_ok s' = host_ok s"
  by (auto simp: sd_frame_def host_ok_def)

named_theorems sd_intro

lemma sd_frame_access [sd_intro]:
  assumes "sd_frame s t" "host_ok s"
  shows "r < 0x100 \<Longrightarrow> sd_frame s (snd (HREAD1 ev r t))" "r < 0x100 \<Longrightarrow> sd_frame s (snd (HREAD2 ev r t))"
    "r < 0x100 \<Longrightarrow> sd_frame s (snd (HREAD4 ev r t))" "r < 0x100 \<Longrightarrow> sd_frame s (HWRITE1 ev r v1 t)"
    "r < 0x100 \<Longrightarrow> sd_frame s (HWRITE2 ev r v2 t)" "r < 0x100 \<Longrightarrow> sd_frame s (HWRITE4 r v4 t)"
    "sd_frame s (udelay_ev d t)" "sd_frame s (gecko_msg fmt args t)"
proof -
  have "host_ok t" using assms sd_frame_host_ok by blast
  then have h: "ioh (sc_host t) = SDHC_REG_BASE" by (simp add: host_ok_def)
  note step = sd_frame_trans [OF assms(1) io_step_sd_frame]
  show "sd_frame s (udelay_ev d t)" "sd_frame s (gecko_msg fmt args t)"
    by (rule step, rule frame)+
  assume r: "r < 0x100"
  note a = sdhc_reg_addr [OF r] sdhc_reg_addr(2) [OF r, simplified]
  show "sd_frame s (snd (HREAD1 ev r t))" "sd_frame s (snd (HREAD2 ev r t))"
    "sd_frame s (snd (HREAD4 ev r t))" "sd_frame s (HWRITE1 ev r v1 t)"
    "sd_frame s (HWRITE2 ev r v2 t)" "sd_frame s (HWRITE4 r v4 t)"
    by (auto simp: HREAD1_def HREAD2_def HREAD4_def HWRITE1_def HWRITE2_def HWRITE4_def
        bus_space_read_1_def bus_space_read_2_def bus_space_read_4_def bus_space_write_1_def
        bus_space_write_2_def bus_space_write_4_def h access_unfold a intro!: step frame)
qed

lemma sd_frame_modify [sd_intro]:
  assumes "sd_frame s t" "host_ok s"
  shows "r < 0x100 \<Longrightarrow> sd_frame s (HSET2 ev r v2 t)" "r < 0x100 \<Longrightarrow> sd_frame s (HCLR2 ev r v2 t)"
  using assms by (auto simp: HSET2_def HCLR2_def access_unfold intro!: sd_intro)

lemma sd_frame_host:
  assumes "sd_frame s t"
  shows "sd_frame s (t\<lparr>sc_host := (sc_host t)\<lparr>intr_status := x, intr_error_status := y, data_command := z\<rparr>\<rparr>)"
    (is "sd_frame s ?u")
proof (rule sd_frame_trans [OF assms])
  have "?u = t\<lparr>io_log := [] @ io_log t,
      sc_host := (sc_host t)\<lparr>intr_status := x, intr_error_status := y, data_command := z\<rparr>\<rparr>" by simp
  moreover have "list_all (io_addr sdhc_reg) []" by simp
  ultimately show "sd_frame t ?u" unfolding sd_frame_def by blast
qed

lemma host_upd_swap:
  fixes h :: sdhc_host
  shows "h\<lparr>intr_error_status := a, intr_status := b\<rparr> = h\<lparr>intr_status := b, intr_error_status := a\<rparr>"
  by simp

lemma sd_frame_upd [sd_intro]:
  assumes "sd_frame s t"
  shows "sd_frame s (upd_host (data_command_update (\<lambda>_. d)) t)"
    "sd_frame s (upd_host (\<lambda>h. h\<lparr>intr_status := i h\<rparr>) t)"
    "sd_frame s (upd_host (\<lambda>h. h\<lparr>intr_error_status := e h, intr_status := i h\<rparr>) t)"
    "sd_frame s (upd_host (\<lambda>h. h\<lparr>intr_error_status := e h\<rparr>) t)"
  using sd_frame_host [OF assms, where x = "intr_status (sc_host t)"
      and y = "intr_error_status (sc_host t)" and z = "d"]
    sd_frame_host [OF assms, where x = "i (sc_host t)"
      and y = "intr_error_status (sc_host t)" and z = "data_command (sc_host t)"]
    sd_frame_host [OF assms, where x = "i (sc_host t)"
      and y = "e (sc_host t)" and z = "data_command (sc_host t)"]
    sd_frame_host [OF assms, where x = "intr_status (sc_host t)"
      and y = "e (sc_host t)" and z = "data_command (sc_host t)"]
  by (simp_all add: upd_host_def host_upd_swap)

lemma soft_reset_loop_frame:
  "sd_frame s t \<Longrightarrow> host_ok s \<Longrightarrow> sd_frame s (snd (soft_reset_loop ev m n t))"
proof (induction n arbitrary: t)
  case (Suc n)
  have "sd_frame s (snd (HREAD1 ev SDHC_SOFTWARE_RESET t))"
    using Suc.prems by (intro sd_intro) simp_all
  moreover from this have "sd_frame s (HWRITE1 ev SDHC_SOFTWARE_RESET 0
      (udelay_ev 10000 (snd (HREAD1 ev SDHC_SOFTWARE_RESET t))))"
    using Suc.prems by (intro sd_intro) simp_all
  ultimately show ?case using Suc.IH Suc.prems by (simp add: access_unfold)
qed simp

lemma sdhc_soft_reset_frame [sd_intro]:
  "sd_frame s t \<Longrightarrow> host_ok s \<Longrightarrow> sd_frame s (snd (sdhc_soft_reset ev m t))"
  by (auto simp: sdhc_soft_reset_def access_unfold intro!: sd_intro soft_reset_loop_frame)

lemma sdhc_host_reset_frame [sd_intro]:
  "sd_frame s t \<Longrightarrow> host_ok s \<Longrightarrow> sd_frame s (snd (sdhc_host_reset ev t))"
  by (auto simp: sdhc_host_reset_def access_unfold intro!: sd_intro)

lemma sdhc_intr_frame [sd_intro]:
  assumes "sd_frame s t" "host_ok s"
  shows "sd_frame s (snd (sdhc_intr ev t))" "sd_frame s (sdhc_irq ev t)"
proof -
  have e: "sd_frame s (sdhc_intr_error ev st u)" if "sd_frame s u" for st u
    using that assms(2) by (auto simp: sdhc_intr_error_def access_unfold intro!: sd_intro)
  show "sd_frame s (snd (sdhc_intr ev t))"
    using assms by (auto simp: sdhc_intr_def access_unfold intro!: sd_intro e)
  then show "sd_frame s (sdhc_irq ev t)" by (simp add: sdhc_irq_def)
qed

lemma writes_sd_frame:
  assumes "sd_frame s s'" "\<And>a. Q a \<Longrightarrow> \<not> sdhc_reg a"
  shows "writes Q s' = writes Q s"
proof -
  obtain es where es: "io_log s' = es @ io_log s" "list_all (io_addr sdhc_reg) es"
    using assms(1) by (auto simp: sd_frame_def)
  then have "io_step (io_addr sdhc_reg) s (s\<lparr>io_log := io_log s'\<rparr>)" by (simp add: io_step_def)
  from writes_io_step [OF this assms(2)] show ?thesis by (simp add: writes_def)
qed

lemma sd_frame_fields:
  assumes "sd_frame s s'"
  shows "cpsr s' = cpsr s" "irq_flag s' = irq_flag s" "initialized s' = initialized s"
    "page_table s' = page_table s" "last_page_read s' = last_page_read s"
    "clkbase (sc_host s') = clkbase (sc_host s)" "ocr (sc_host s') = ocr (sc_host s)"
    "hflags (sc_host s') = hflags (sc_host s)" "ioh (sc_host s') = ioh (sc_host s)"
    "host_st.more s' = host_st.more s"
  using assms by (auto simp: sd_frame_def)

end
