(* ===== verification/Irq.thy ===== *)
theory Irq
  imports Sdhc
begin

text \<open>
  \<^verbatim>\<open>armboot/system/irq.c\<close>: the interrupt controller, and \<^verbatim>\<open>nand_wait\<close> of
  \<^verbatim>\<open>armboot/storage/nand.c\<close>, which sleeps until the handler has signalled completion. The hardware
  raises an interrupt when an enabled line is pending and the processor does not mask it; the model
  takes interrupts at the points where the code waits for one.
\<close>

section \<open>State and registers\<close>

record irq_st = host_st +
  alarm_frequency :: u32

abbreviation (input) "HW_ALARM \<equiv> 0x0d800014 :: u32"
abbreviation (input) "HW_GPIO1BINTFLAG \<equiv> 0x0d8000d0 :: u32"
abbreviation (input) "HW_GPIO1INTFLAG \<equiv> 0x0d8000f0 :: u32"
abbreviation (input) "IRQF_TIMER \<equiv> 0x1 :: u32"
abbreviation (input) "IRQF_NAND \<equiv> 0x2 :: u32"
abbreviation (input) "IRQF_AES \<equiv> 0x4 :: u32"
abbreviation (input) "IRQF_SDHC \<equiv> 0x80 :: u32"
abbreviation (input) "IRQF_GPIO1B \<equiv> 0x400 :: u32"
abbreviation (input) "IRQF_GPIO1 \<equiv> 0x800 :: u32"
abbreviation (input) "IRQF_RESET \<equiv> 0x20000 :: u32"
abbreviation (input) "IRQF_IPC \<equiv> 0x80000000 :: u32"
abbreviation (input) "IRQF_ALL \<equiv> 0x80020c87 :: u32"
abbreviation (input) "IRQ_TIMER \<equiv> 0 :: nat"
abbreviation (input) "IRQ_SDHC \<equiv> 7 :: nat"
abbreviation (input) "IRQ_GPIO1 \<equiv> 11 :: nat"
abbreviation (input) "IRQ_RESET \<equiv> 17 :: nat"

section \<open>The code\<close>

definition irq_initialize :: "'a mach_scheme \<Rightarrow> 'a mach_scheme" where
  "irq_initialize s =
    (let s = write32 HW_ARMIRQMASK 0 s;
         s = write32 HW_ARMIRQFLAG 0xffffffff s;
         s = irq_restore CPSR_FIQDIS s;
         s = write32 (HW_ARMIRQMASK + 0x04) 0 s;
         s = write32 (HW_ARMIRQMASK + 0x20) 0 s
     in write32 HW_ALARM 0 s)"

definition irq_shutdown :: "'a mach_scheme \<Rightarrow> 'a mach_scheme" where
  "irq_shutdown s =
    (let s = write32 HW_ARMIRQMASK 0 s;
         s = write32 HW_ARMIRQFLAG 0xffffffff s
     in snd (irq_kill s))"

definition irq_handler :: "env \<Rightarrow> 'a irq_st_scheme \<Rightarrow> 'a irq_st_scheme option" where
  "irq_handler ev s = do {
     let (enabled, s) = read32 ev HW_ARMIRQMASK s;
     let (flags, s) = read32 ev HW_ARMIRQFLAG s;
     let flags = flags AND enabled;
     let s = (if flags AND IRQF_TIMER \<noteq> 0 then
                (let s = (if alarm_frequency s \<noteq> 0
                          then (let (t, s) = read32 ev HW_TIMER s in write32 HW_ALARM (t + alarm_frequency s) s)
                          else s)
                 in write32 HW_ARMIRQFLAG IRQF_TIMER s)
              else s);
     s \<leftarrow> (if flags AND IRQF_NAND \<noteq> 0 then
            (let s = write32 NAND_CTRL 0x7fffffff s;
                 s = write32 HW_ARMIRQFLAG IRQF_NAND s
             in nand_irq ev s)
           else Some s);
     let s = (if flags AND IRQF_GPIO1B \<noteq> 0
              then write32 HW_ARMIRQFLAG IRQF_GPIO1B (write32 HW_GPIO1BINTFLAG 0xFFFFFF s) else s);
     let s = (if flags AND IRQF_GPIO1 \<noteq> 0
              then write32 HW_ARMIRQFLAG IRQF_GPIO1 (write32 HW_GPIO1INTFLAG 0xFFFFFF s) else s);
     let s = (if flags AND IRQF_RESET \<noteq> 0 then write32 HW_ARMIRQFLAG IRQF_RESET s else s);
     let s = (if flags AND IRQF_IPC \<noteq> 0 then write32 HW_ARMIRQFLAG IRQF_IPC s else s);
     let s = (if flags AND IRQF_AES \<noteq> 0 then write32 HW_ARMIRQFLAG IRQF_AES s else s);
     let s = (if flags AND IRQF_SDHC \<noteq> 0
              then sdhc_irq ev (write32 HW_ARMIRQFLAG IRQF_SDHC s) else s);
     let flags = flags AND NOT IRQF_ALL;
     Some (if flags \<noteq> 0
           then write32 HW_ARMIRQFLAG flags (gecko_msg ''IRQ: unknown 0x%08x'' [VInt flags] s)
           else s) }"

definition irq_set_alarm :: "env \<Rightarrow> u32 \<Rightarrow> bool \<Rightarrow> 'a irq_st_scheme \<Rightarrow> 'a irq_st_scheme" where
  "irq_set_alarm ev ms enable s =
    (let s = s\<lparr>alarm_frequency := 1898 * ms\<rparr>
     in if enable
        then (let (t, s) = read32 ev HW_TIMER s in write32 HW_ALARM (t + alarm_frequency s) s)
        else s)"

section \<open>Taking interrupts\<close>

text \<open>An enabled line is pending: the state of the controller, which the processor does not read here.\<close>

definition irq_pending :: "env \<Rightarrow> 'a mach_scheme \<Rightarrow> bool" where
  "irq_pending ev s \<longleftrightarrow> ev (io_log s) HW_ARMIRQFLAG AND ev (io_log s) HW_ARMIRQMASK \<noteq> 0"

text \<open>
  \<^verbatim>\<open>v_irq\<close> of \<^verbatim>\<open>system/irq_asm.S\<close>: the processor enters the handler with interrupts masked and restores
  its status register on return.
\<close>

definition take_irq :: "env \<Rightarrow> 'a irq_st_scheme \<Rightarrow> 'a irq_st_scheme option" where
  "take_irq ev s =
    (if \<not> irqs_masked s \<and> irq_pending ev s
     then do {
       t \<leftarrow> irq_handler ev (s\<lparr>cpsr := cpsr s OR CPSR_IRQDIS\<rparr>);
       Some (t\<lparr>cpsr := cpsr s\<rparr>) }
     else Some s)"

text \<open>
  \<^verbatim>\<open>nand_wait\<close>: the flag is tested again with interrupts masked before the processor sleeps; a pending
  interrupt ends the sleep and is taken when the mask is restored.
\<close>

partial_function (option) nand_wait :: "env \<Rightarrow> 'a irq_st_scheme \<Rightarrow> 'a irq_st_scheme option" where
  "nand_wait ev s =
    (if irq_flag s \<noteq> 0 then Some s
     else do {
       let (cookie, s) = irq_kill s;
       let s = (if irq_flag s = 0 then cp15_op Wait_for_interrupt s else s);
       let s = irq_restore cookie s;
       s \<leftarrow> take_irq ev s;
       nand_wait ev s })"

section \<open>The handler acknowledges what it saw\<close>

definition flag_reg :: "u32 \<Rightarrow> bool" where
  "flag_reg a \<longleftrightarrow> a = HW_ARMIRQFLAG"

definition acks :: "u32 \<Rightarrow> u32 list" where
  "acks fl = filter (\<lambda>b. fl AND b \<noteq> 0)
      [IRQF_TIMER, IRQF_NAND, IRQF_GPIO1B, IRQF_GPIO1, IRQF_RESET, IRQF_IPC, IRQF_AES, IRQF_SDHC]
    @ (if fl AND NOT IRQF_ALL \<noteq> 0 then [fl AND NOT IRQF_ALL] else [])"

lemma and_single: "(fl :: u32) AND 2 ^ n = (if bit fl n then 2 ^ n else 0)"
  by (rule bit_word_eqI) (auto simp: bit_simps)

lemma irq_lines:
  "(fl :: u32) = fl AND 1 OR (fl AND 2 OR (fl AND 0x400 OR (fl AND 0x800 OR (fl AND 0x20000
     OR (fl AND 0x80000000 OR (fl AND 4 OR (fl AND 0x80 OR fl AND NOT IRQF_ALL)))))))"
proof -
  have "fl AND 1 OR (fl AND 2 OR (fl AND 0x400 OR (fl AND 0x800 OR (fl AND 0x20000
     OR (fl AND 0x80000000 OR (fl AND 4 OR (fl AND 0x80 OR fl AND NOT IRQF_ALL))))))) =
     fl AND (1 OR (2 OR (0x400 OR (0x800 OR (0x20000 OR (0x80000000 OR (4 OR (0x80 OR NOT IRQF_ALL))))))))"
    by (simp only: bit.conj_disj_distrib)
  also have "\<dots> = fl AND (- 1)" by (rule arg_cong [where f = "\<lambda>m. fl AND m"]) simp
  finally show ?thesis by simp
qed

lemma acks_or: "foldr (OR) (acks fl) 0 = fl"
proof -
  have b: "fl AND 1 = (if fl AND 1 \<noteq> 0 then 1 else 0)" "fl AND 2 = (if fl AND 2 \<noteq> 0 then 2 else 0)"
    "fl AND 0x400 = (if fl AND 0x400 \<noteq> 0 then 0x400 else 0)"
    "fl AND 0x800 = (if fl AND 0x800 \<noteq> 0 then 0x800 else 0)"
    "fl AND 0x20000 = (if fl AND 0x20000 \<noteq> 0 then 0x20000 else 0)"
    "fl AND 0x80000000 = (if fl AND 0x80000000 \<noteq> 0 then 0x80000000 else 0)"
    "fl AND 4 = (if fl AND 4 \<noteq> 0 then 4 else 0)" "fl AND 0x80 = (if fl AND 0x80 \<noteq> 0 then 0x80 else 0)"
    using and_single [of fl 0] and_single [of fl 1] and_single [of fl 10] and_single [of fl 11]
      and_single [of fl 17] and_single [of fl 31] and_single [of fl 2] and_single [of fl 7]
    by (auto split: if_splits)
  have f: "foldr (OR) (filter P xs @ ys) (0 :: u32) = foldr (\<lambda>b w. (if P b then b else 0) OR w) xs (foldr (OR) ys 0)" for P xs ys
    by (induction xs) auto
  show ?thesis
    unfolding acks_def f by (subst (9) irq_lines) (simp add: b [symmetric])
qed

lemma nand_irq_ok:
  "\<exists>s'. nand_irq ev s = Some s' \<and> same (s\<lparr>irq_flag := 1\<rparr>) s'
     \<and> writes flag_reg s' = writes flag_reg s"
proof -
  define t where "t = (let (v, s) = read32 ev NAND_CTRL s in
       if v AND NAND_ERROR \<noteq> 0 then gecko_msg ''NAND: Error on IRQ'' [] s else s)"
  obtain u where u: "ahb_flush_from ev AHB_NAND t = Some u" using ahb_flush_from_returns by blast
  obtain w where w: "ahb_flush_to ev AHB_STARLET u = Some w" using ahb_flush_to_starlet by blast
  have "nand_irq ev s = Some (w\<lparr>irq_flag := 1\<rparr>)"
    using u w by (simp add: nand_irq_def t_def access_unfold split: if_splits)
  moreover have "same s t" by (auto simp: t_def access_unfold intro!: same_intro)
  then have "same s w"
    using io_step_same [OF ahb_flush_from_step [OF u]] io_step_same [OF ahb_flush_to_step [OF w]]
    by (meson same_trans)
  then obtain l where "w = s\<lparr>io_log := l\<rparr>" by (auto simp: same_def)
  then have "same (s\<lparr>irq_flag := 1\<rparr>) (w\<lparr>irq_flag := 1\<rparr>)"
    unfolding same_def by (intro exI [of _ l]) simp
  moreover have "writes flag_reg w = writes flag_reg s"
    using writes_io_step [OF ahb_flush_from_step [OF u], of flag_reg]
      writes_io_step [OF ahb_flush_to_step [OF w], of flag_reg]
    by (simp add: flag_reg_def ahb_reg_def t_def access_unfold split: if_splits)
  ultimately show ?thesis by simp
qed

lemma nand_irq_host: "nand_irq ev s = Some s' \<Longrightarrow> sc_host s' = sc_host s \<and> cpsr s' = cpsr s \<and> irq_flag s' = 1"
  for s :: "'a host_st_scheme"
  using nand_irq_ok [of ev s] by (auto simp: same_def)

text \<open>
  The part of the state an interrupt leaves alone: the interrupt mask, the host's parameters, the
  bookkeeping of the NAND driver apart from its completion flag, and whatever other components keep.
\<close>

definition settled :: "'a irq_st_scheme \<Rightarrow> u32 \<times> (u32 \<times> u32 \<times> u32 \<times> u32) \<times> (u32 \<times> u32 \<times> u32) \<times> 'a" where
  "settled s = (cpsr s, (ioh (sc_host s), clkbase (sc_host s), hflags (sc_host s), ocr (sc_host s)),
     (initialized s, last_page_read s, alarm_frequency s), irq_st.more s)"

definition tracks ::
  "'a irq_st_scheme \<Rightarrow> u32 \<times> (u32 \<times> u32 \<times> u32 \<times> u32) \<times> (u32 \<times> u32 \<times> u32) \<times> 'a \<Rightarrow> u32 \<Rightarrow> (u32 \<times> u32) list \<Rightarrow> bool" where
  "tracks s c f w \<longleftrightarrow> settled s = c \<and> irq_flag s = f \<and> writes flag_reg s = w \<and> host_ok s"

lemma tracks_access:
  "tracks s c f w \<Longrightarrow> tracks (write32 a v s) c f (w @ (if flag_reg a then [(a, v)] else []))"
  "tracks s c f w \<Longrightarrow> tracks (snd (read32 ev a s)) c f w"
  "tracks s c f w \<Longrightarrow> tracks (gecko_msg fmt args s) c f w"
  by (auto simp: tracks_def settled_def host_ok_def write32_def read32_def gecko_msg_def emit_def Let_def writes_def)

lemma tracks_ack_simple:
  assumes "tracks s c f w"
  shows "tracks (if p then write32 HW_ARMIRQFLAG b s else s) c f (w @ (if p then [(HW_ARMIRQFLAG, b)] else []))"
  using tracks_access(1) [OF assms, of HW_ARMIRQFLAG b] assms by (simp add: flag_reg_def)

lemma tracks_ack_after:
  assumes "tracks s c f w" "\<not> flag_reg a"
  shows "tracks (if p then write32 HW_ARMIRQFLAG b (write32 a v s) else s) c f
     (w @ (if p then [(HW_ARMIRQFLAG, b)] else []))"
  using tracks_access(1) [OF tracks_access(1) [OF assms(1), of a v], of HW_ARMIRQFLAG b] assms
  by (simp add: flag_reg_def)

lemma tracks_sdhc:
  assumes "tracks s c f w"
  shows "tracks (sdhc_irq ev s) c f w"
proof -
  have "host_ok s" using assms by (simp add: tracks_def)
  then have fr: "sd_frame s (sdhc_irq ev s)" by (intro sd_intro) auto
  have "writes flag_reg (sdhc_irq ev s) = writes flag_reg s"
    using fr by (rule writes_sd_frame) (auto simp: flag_reg_def sdhc_reg_def)
  moreover have "alarm_frequency (sdhc_irq ev s) = alarm_frequency s"
    "irq_st.more (sdhc_irq ev s) = irq_st.more s" using fr by (auto simp: sd_frame_def)
  ultimately show ?thesis using assms sd_frame_fields [OF fr]
    by (auto simp: tracks_def settled_def host_ok_def)
qed

lemma tracks_ack_sdhc:
  assumes "tracks s c f w"
  shows "tracks (if p then sdhc_irq ev (write32 HW_ARMIRQFLAG IRQF_SDHC s) else s) c f
     (w @ (if p then [(HW_ARMIRQFLAG, IRQF_SDHC)] else []))"
  using tracks_sdhc [OF tracks_access(1) [OF assms, of HW_ARMIRQFLAG IRQF_SDHC], of ev] assms
  by (simp add: flag_reg_def)

lemma tracks_ack_unknown:
  assumes "tracks s c f w"
  shows "tracks (if p then write32 HW_ARMIRQFLAG b (gecko_msg m as s) else s) c f
     (w @ (if p then [(HW_ARMIRQFLAG, b)] else []))"
  using tracks_access(1) [OF tracks_access(3) [OF assms], of HW_ARMIRQFLAG b] assms
  by (simp add: flag_reg_def)

lemma tracks_nand:
  assumes "tracks s c f w"
  shows "\<exists>s'. (if p then nand_irq ev (write32 HW_ARMIRQFLAG IRQF_NAND (write32 NAND_CTRL 0x7fffffff s)) else Some s) = Some s'
     \<and> tracks s' c (if p then 1 else f) (w @ (if p then [(HW_ARMIRQFLAG, IRQF_NAND)] else []))"
proof (cases p)
  case True
  let ?t = "write32 HW_ARMIRQFLAG IRQF_NAND (write32 NAND_CTRL 0x7fffffff s)"
  obtain s' where s': "nand_irq ev ?t = Some s'" "same (?t\<lparr>irq_flag := 1\<rparr>) s'"
    "writes flag_reg s' = writes flag_reg ?t" using nand_irq_ok by blast
  have "tracks ?t c f (w @ [(HW_ARMIRQFLAG, IRQF_NAND)])"
    using tracks_access(1) [OF tracks_access(1) [OF assms, of NAND_CTRL "0x7fffffff"], of HW_ARMIRQFLAG IRQF_NAND]
    by (simp add: flag_reg_def)
  with s' True show ?thesis by (auto simp: tracks_def settled_def same_def host_ok_def)
next
  case False
  with assms show ?thesis by simp
qed

lemma tracks_timer:
  assumes "tracks s c f w"
  shows "tracks (if p then write32 HW_ARMIRQFLAG IRQF_TIMER
      (if alarm_frequency s \<noteq> 0
       then write32 HW_ALARM (fst (read32 ev HW_TIMER s) + alarm_frequency (snd (read32 ev HW_TIMER s)))
              (snd (read32 ev HW_TIMER s)) else s) else s)
     c f (w @ (if p then [(HW_ARMIRQFLAG, IRQF_TIMER)] else []))"
proof -
  let ?t = "if alarm_frequency s \<noteq> 0
       then write32 HW_ALARM (fst (read32 ev HW_TIMER s) + alarm_frequency (snd (read32 ev HW_TIMER s)))
              (snd (read32 ev HW_TIMER s)) else s"
  have "\<not> flag_reg HW_ALARM" by (simp add: flag_reg_def)
  then have "tracks ?t c f w"
    using tracks_access(1) [OF tracks_access(2) [OF assms, of ev HW_TIMER], of HW_ALARM] assms by simp
  from tracks_access(1) [OF this, of HW_ARMIRQFLAG IRQF_TIMER] assms show ?thesis
    by (simp add: flag_reg_def)
qed

lemma map_acks:
  "map (Pair HW_ARMIRQFLAG) (acks fl) =
     ((((((((if fl AND IRQF_TIMER \<noteq> 0 then [(HW_ARMIRQFLAG, IRQF_TIMER)] else [])
     @ (if fl AND IRQF_NAND \<noteq> 0 then [(HW_ARMIRQFLAG, IRQF_NAND)] else []))
     @ (if fl AND IRQF_GPIO1B \<noteq> 0 then [(HW_ARMIRQFLAG, IRQF_GPIO1B)] else []))
     @ (if fl AND IRQF_GPIO1 \<noteq> 0 then [(HW_ARMIRQFLAG, IRQF_GPIO1)] else []))
     @ (if fl AND IRQF_RESET \<noteq> 0 then [(HW_ARMIRQFLAG, IRQF_RESET)] else []))
     @ (if fl AND IRQF_IPC \<noteq> 0 then [(HW_ARMIRQFLAG, IRQF_IPC)] else []))
     @ (if fl AND IRQF_AES \<noteq> 0 then [(HW_ARMIRQFLAG, IRQF_AES)] else []))
     @ (if fl AND IRQF_SDHC \<noteq> 0 then [(HW_ARMIRQFLAG, IRQF_SDHC)] else []))
     @ (if fl AND NOT IRQF_ALL \<noteq> 0 then [(HW_ARMIRQFLAG, fl AND NOT IRQF_ALL)] else [])"
proof -
  have f: "map g (filter P (x # xs)) = (if P x then [g x] else []) @ map g (filter P xs)"
    for g :: "u32 \<Rightarrow> u32 \<times> u32" and P x xs by simp
  show ?thesis unfolding acks_def map_append f append_assoc by simp
qed

lemma irq_handler_tracks:
  fixes ev :: env and s :: "'a irq_st_scheme"
  assumes "host_ok s"
  defines "fl \<equiv> ev (Rd32 HW_ARMIRQMASK (ev (io_log s) HW_ARMIRQMASK) # io_log s) HW_ARMIRQFLAG
                 AND ev (io_log s) HW_ARMIRQMASK"
  shows "\<exists>s'. irq_handler ev s = Some s' \<and> tracks s' (settled s)
     (if fl AND IRQF_NAND \<noteq> 0 then 1 else irq_flag s)
     (writes flag_reg s @ map (Pair HW_ARMIRQFLAG) (acks fl))"
proof -
  define s0 where "s0 = snd (read32 ev HW_ARMIRQFLAG (snd (read32 ev HW_ARMIRQMASK s)))"
  have fl: "fst (read32 ev HW_ARMIRQFLAG (snd (read32 ev HW_ARMIRQMASK s))) AND fst (read32 ev HW_ARMIRQMASK s) = fl"
    by (simp add: read32_def emit_def Let_def fl_def)
  have "tracks s (settled s) (irq_flag s) (writes flag_reg s)" using assms(1) by (simp add: tracks_def)
  then have t0: "tracks s0 (settled s) (irq_flag s) (writes flag_reg s)"
    unfolding s0_def by (intro tracks_access)
  note t1 = tracks_timer [OF t0, where ev = ev and p = "fl AND IRQF_TIMER \<noteq> 0"]
  obtain s2 where s2: "(if fl AND IRQF_NAND \<noteq> 0
      then nand_irq ev (write32 HW_ARMIRQFLAG IRQF_NAND (write32 NAND_CTRL 0x7fffffff
        (if fl AND IRQF_TIMER \<noteq> 0 then write32 HW_ARMIRQFLAG IRQF_TIMER
      (if alarm_frequency s0 \<noteq> 0
       then write32 HW_ALARM (fst (read32 ev HW_TIMER s0) + alarm_frequency (snd (read32 ev HW_TIMER s0)))
              (snd (read32 ev HW_TIMER s0)) else s0) else s0)))
      else Some (if fl AND IRQF_TIMER \<noteq> 0 then write32 HW_ARMIRQFLAG IRQF_TIMER
      (if alarm_frequency s0 \<noteq> 0
       then write32 HW_ALARM (fst (read32 ev HW_TIMER s0) + alarm_frequency (snd (read32 ev HW_TIMER s0)))
              (snd (read32 ev HW_TIMER s0)) else s0) else s0)) = Some s2"
    and t2: "tracks s2 (settled s) (if fl AND IRQF_NAND \<noteq> 0 then 1 else irq_flag s)
      ((writes flag_reg s @ (if fl AND IRQF_TIMER \<noteq> 0 then [(HW_ARMIRQFLAG, IRQF_TIMER)] else []))
       @ (if fl AND IRQF_NAND \<noteq> 0 then [(HW_ARMIRQFLAG, IRQF_NAND)] else []))"
    using tracks_nand [OF t1, where ev = ev and p = "fl AND IRQF_NAND \<noteq> 0"] by blast
  have nf: "\<not> flag_reg HW_GPIO1BINTFLAG" "\<not> flag_reg HW_GPIO1INTFLAG" by (simp_all add: flag_reg_def)
  note t3 = tracks_ack_after [OF t2 nf(1), where v = "0xFFFFFF" and b = IRQF_GPIO1B and p = "fl AND IRQF_GPIO1B \<noteq> 0"]
  note t4 = tracks_ack_after [OF t3 nf(2), where v = "0xFFFFFF" and b = IRQF_GPIO1 and p = "fl AND IRQF_GPIO1 \<noteq> 0"]
  note t5 = tracks_ack_simple [OF t4, where b = IRQF_RESET and p = "fl AND IRQF_RESET \<noteq> 0"]
  note t6 = tracks_ack_simple [OF t5, where b = IRQF_IPC and p = "fl AND IRQF_IPC \<noteq> 0"]
  note t7 = tracks_ack_simple [OF t6, where b = IRQF_AES and p = "fl AND IRQF_AES \<noteq> 0"]
  note t8 = tracks_ack_sdhc [OF t7, where ev = ev and p = "fl AND IRQF_SDHC \<noteq> 0"]
  note t9 = tracks_ack_unknown [OF t8, where b = "fl AND NOT IRQF_ALL" and p = "fl AND NOT IRQF_ALL \<noteq> 0"
      and m = "''IRQ: unknown 0x%08x''" and as = "[VInt (fl AND NOT IRQF_ALL)]"]
  show ?thesis
    unfolding irq_handler_def access_unfold fl s0_def [symmetric] map_acks
    using s2 t9 by (simp only: append_assoc option.sel bind.bind_lunit) auto
qed

text \<open>
  C11: The interrupt handler always returns, with the processor's interrupt mask unchanged, and
  acknowledges exactly the lines that it found pending and enabled: the values it writes to the flag
  register are the known lines among them, one by one, and the unknown rest in one write. A pending
  NAND line leaves the completion flag set.
\<close>

theorem irq_handler_acks:
  assumes "host_ok s"
  shows "\<exists>s'. irq_handler ev s = Some s' \<and> cpsr s' = cpsr s
    \<and> (let enabled = ev (io_log s) HW_ARMIRQMASK;
           flags = ev (Rd32 HW_ARMIRQMASK enabled # io_log s) HW_ARMIRQFLAG AND enabled
       in writes flag_reg s' = writes flag_reg s @ map (Pair HW_ARMIRQFLAG) (acks flags)
          \<and> foldr (OR) (acks flags) 0 = flags
          \<and> irq_flag s' = (if flags AND IRQF_NAND \<noteq> 0 then 1 else irq_flag s))"
  using irq_handler_tracks [OF assms, of ev] by (auto simp: tracks_def settled_def acks_or Let_def)

definition irq_reset_st :: irq_st where
  "irq_reset_st = \<lparr>io_log = [], cpsr = 0x53, cp_cr = 0, cp_ttbr = 0, cp_dacr = 0,
     page_table = [], initialized = 0, irq_flag = 0, last_page_read = 0,
     sc_host = zero_host\<lparr>ioh := SDHC_REG_BASE\<rparr>, alarm_frequency = 0\<rparr>"

theorem irq_handler_acks_witness:
  "\<exists>s'. irq_handler (\<lambda>l a. 0x2) irq_reset_st = Some s' \<and> irq_flag s' = 1
     \<and> writes flag_reg s' = [(HW_ARMIRQFLAG, IRQF_NAND)]"
proof -
  have "host_ok irq_reset_st" by (simp add: irq_reset_st_def host_ok_def)
  from irq_handler_acks [OF this, of "\<lambda>l a. 0x2"] show ?thesis
    by (auto simp: irq_reset_st_def writes_def acks_def)
qed

section \<open>Waiting for the NAND interrupt\<close>

text \<open>\<open>wait_rounds ev n s\<close>: the state after \<open>n\<close> rounds of the sleep loop of \<^const>\<open>nand_wait\<close>.\<close>

definition wait_round :: "env \<Rightarrow> 'a irq_st_scheme \<Rightarrow> 'a irq_st_scheme option" where
  "wait_round ev s = do {
     let (cookie, s) = irq_kill s;
     let s = (if irq_flag s = 0 then cp15_op Wait_for_interrupt s else s);
     take_irq ev (irq_restore cookie s) }"

fun wait_rounds :: "env \<Rightarrow> nat \<Rightarrow> 'a irq_st_scheme \<Rightarrow> 'a irq_st_scheme option" where
  "wait_rounds ev 0 s = Some s"
| "wait_rounds ev (Suc n) s = do { s \<leftarrow> wait_round ev s; wait_rounds ev n s }"

lemma nand_wait_unfold:
  "nand_wait ev s = (if irq_flag s \<noteq> 0 then Some s else do { s \<leftarrow> wait_round ev s; nand_wait ev s })"
  by (subst nand_wait.simps) (simp add: wait_round_def access_unfold)

lemma nand_wait_returnsI:
  "wait_rounds ev n s = Some s' \<Longrightarrow> irq_flag s' \<noteq> 0 \<Longrightarrow> \<exists>t. nand_wait ev s = Some t"
proof (induction n arbitrary: s)
  case 0
  then show ?case by (subst nand_wait_unfold) simp
next
  case (Suc n)
  then show ?case by (subst nand_wait_unfold) auto
qed

lemma nand_wait_returnsD:
  assumes "nand_wait ev s = Some s'"
  shows "irq_flag s' \<noteq> 0 \<and> (\<exists>n. wait_rounds ev n s = Some s')"
proof (rule nand_wait.raw_induct [where P = "\<lambda>ev s s'. irq_flag s' \<noteq> 0 \<and> (\<exists>n. wait_rounds ev n s = Some s')", OF _ assms])
  fix f :: "env \<Rightarrow> 'a irq_st_scheme \<Rightarrow> 'a irq_st_scheme option" and ev s s'
  assume IH: "\<And>ev s s'. f ev s = Some s' \<Longrightarrow> irq_flag s' \<noteq> 0 \<and> (\<exists>n. wait_rounds ev n s = Some s')"
    and eq: "(if irq_flag s \<noteq> 0 then Some s else do {
       let (cookie, s) = irq_kill s;
       let s = (if irq_flag s = 0 then cp15_op Wait_for_interrupt s else s);
       let s = irq_restore cookie s;
       s \<leftarrow> take_irq ev s;
       f ev s }) = Some s'"
  show "irq_flag s' \<noteq> 0 \<and> (\<exists>n. wait_rounds ev n s = Some s')"
  proof (cases "irq_flag s = 0")
    case False
    with eq show ?thesis by (auto intro: exI [of _ 0])
  next
    case True
    with eq obtain t where t: "wait_round ev s = Some t" "f ev t = Some s'"
      by (auto simp: wait_round_def access_unfold)
    with IH [OF t(2)] obtain n where "irq_flag s' \<noteq> 0" "wait_rounds ev n t = Some s'" by blast
    with t(1) show ?thesis by (auto intro: exI [of _ "Suc n"])
  qed
qed

lemma take_irq_ok:
  assumes "host_ok s"
  shows "\<exists>s'. take_irq ev s = Some s' \<and> host_ok s' \<and> settled s' = settled s"
proof -
  have "host_ok (s\<lparr>cpsr := cpsr s OR CPSR_IRQDIS\<rparr>)" using assms by (simp add: host_ok_def)
  from irq_handler_tracks [OF this, of ev] assms show ?thesis
    by (auto simp: take_irq_def tracks_def settled_def host_ok_def)
qed

lemma restore_killed: "irq_restore (fst (irq_kill s)) (cp15_op c (snd (irq_kill s))) = cp15_op c s"
    "irq_restore (fst (irq_kill s)) (snd (irq_kill s)) = s"
  by (simp_all add: irq_restore_def irq_kill_def cp15_op_def emit_def kill_restore_bits [of "cpsr s" 192, simplified])

lemma wait_round_ok:
  assumes "host_ok s"
  shows "\<exists>s'. wait_round ev s = Some s' \<and> host_ok s' \<and> settled s' = settled s"
proof -
  have k: "irq_flag (snd (irq_kill s)) = irq_flag s" by (simp add: irq_kill_def)
  have st: "settled (cp15_op Wait_for_interrupt s) = settled s"
    by (simp add: settled_def cp15_op_def emit_def)
  have "host_ok (cp15_op Wait_for_interrupt s)" using assms by (simp add: host_ok_def cp15_op_def emit_def)
  with take_irq_ok [of "cp15_op Wait_for_interrupt s" ev] take_irq_ok [OF assms, of ev] show ?thesis
    by (auto simp: wait_round_def access_unfold restore_killed k st)
qed

lemma wait_rounds_settled:
  "host_ok s \<Longrightarrow> wait_rounds ev n s = Some s' \<Longrightarrow> settled s' = settled s \<and> host_ok s'"
proof (induction n arbitrary: s)
  case (Suc n)
  from Suc.prems obtain t where t: "wait_round ev s = Some t" "wait_rounds ev n t = Some s'" by auto
  moreover have "host_ok t \<and> settled t = settled s" using wait_round_ok [OF Suc.prems(1), of ev] t(1) by auto
  ultimately show ?case using Suc.IH [of t] by simp
qed simp

text \<open>
  The NAND line is pending and enabled when the processor wakes from its next sleep, and still is
  when the handler looks.
\<close>

definition nand_wakes :: "env \<Rightarrow> io list \<Rightarrow> bool" where
  "nand_wakes ev l \<longleftrightarrow> (let l' = Cp15 Wait_for_interrupt # l; en = ev l' HW_ARMIRQMASK in
     ev l' HW_ARMIRQFLAG AND en \<noteq> 0
     \<and> ev (Rd32 HW_ARMIRQMASK en # l') HW_ARMIRQFLAG AND en AND IRQF_NAND \<noteq> 0)"

lemma nand_wait_spec:
  assumes "host_ok s"
  shows "(\<forall>s'. nand_wait ev s = Some s' \<longrightarrow> irq_flag s' \<noteq> 0 \<and> cpsr s' = cpsr s)
    \<and> ((\<exists>s'. nand_wait ev s = Some s') \<longleftrightarrow>
        (\<exists>n s'. wait_rounds ev n s = Some s' \<and> irq_flag s' \<noteq> 0))
    \<and> (\<not> irqs_masked s \<and> nand_wakes ev (io_log s) \<longrightarrow> (\<exists>s'. nand_wait ev s = Some s'))"
proof -
  have 1: "irq_flag s' \<noteq> 0 \<and> cpsr s' = cpsr s" if "nand_wait ev s = Some s'" for s'
    using nand_wait_returnsD [OF that] wait_rounds_settled [OF assms] by (auto simp: settled_def)
  have 2: "(\<exists>s'. nand_wait ev s = Some s') \<longleftrightarrow> (\<exists>n s'. wait_rounds ev n s = Some s' \<and> irq_flag s' \<noteq> 0)"
    using nand_wait_returnsI nand_wait_returnsD by blast
  have 3: "\<exists>n s'. wait_rounds ev n s = Some s' \<and> irq_flag s' \<noteq> 0"
    if "\<not> irqs_masked s" "nand_wakes ev (io_log s)"
  proof (cases "irq_flag s = 0")
    case False
    then show ?thesis by (intro exI [of _ 0]) auto
  next
    case True
    have k: "irq_flag (snd (irq_kill s)) = irq_flag s" by (simp add: irq_kill_def)
    let ?t = "cp15_op Wait_for_interrupt s"
    let ?m = "?t\<lparr>cpsr := cpsr ?t OR CPSR_IRQDIS\<rparr>"
    have "host_ok ?m" using assms by (simp add: host_ok_def cp15_op_def emit_def)
    from irq_handler_tracks [OF this, of ev] that(2) obtain u
      where u: "irq_handler ev ?m = Some u" "irq_flag u = 1"
      by (auto simp: tracks_def nand_wakes_def Let_def cp15_op_def emit_def and.assoc)
    have "take_irq ev ?t = Some (u\<lparr>cpsr := cpsr s\<rparr>)"
      using that u(1) by (simp add: take_irq_def irqs_masked_def irq_pending_def nand_wakes_def Let_def
          cp15_op_def emit_def)
    then have "wait_round ev s = Some (u\<lparr>cpsr := cpsr s\<rparr>)"
      using True k by (simp add: wait_round_def access_unfold restore_killed)
    then show ?thesis using u(2) by (intro exI [of _ 1]) simp
  qed
  show ?thesis using 1 2 3 by blast
qed

text \<open>
  C10: \<^verbatim>\<open>nand_wait\<close> returns only after the completion flag was set, with the interrupt mask as before;
  it returns exactly when finitely many wake-ups set the flag, in particular when the NAND line is
  pending at the first one and interrupts are enabled.
\<close>

theorem nand_wait_correct:
  assumes "host_ok s"
  shows "(\<forall>s'. nand_wait ev s = Some s' \<longrightarrow> irq_flag s' \<noteq> 0 \<and> cpsr s' = cpsr s)
    \<and> ((\<exists>s'. nand_wait ev s = Some s') \<longleftrightarrow>
        (\<exists>n s'. wait_rounds ev n s = Some s' \<and> irq_flag s' \<noteq> 0))
    \<and> (\<not> irqs_masked s \<and> nand_wakes ev (io_log s) \<longrightarrow> (\<exists>s'. nand_wait ev s = Some s'))"
  by (rule nand_wait_spec [OF assms])

theorem nand_wait_correct_witness:
  "\<exists>s'. nand_wait (\<lambda>l a. 0x2) irq_reset_st = Some s' \<and> irq_flag s' \<noteq> 0 \<and> cpsr s' = 0x53"
proof -
  have "host_ok irq_reset_st" by (simp add: irq_reset_st_def host_ok_def)
  moreover have "\<not> irqs_masked irq_reset_st" by (simp add: irq_reset_st_def irqs_masked_def)
  moreover have "nand_wakes (\<lambda>l a. 0x2) (io_log irq_reset_st)" by (simp add: nand_wakes_def)
  ultimately show ?thesis using nand_wait_correct [of irq_reset_st "\<lambda>l a. 0x2"]
    by (auto simp: irq_reset_st_def)
qed

section \<open>No lost wake-up\<close>

text \<open>
  The same loop interleaved with the device: the lines of \<^verbatim>\<open>nand_wait\<close> as program points, the device
  raising its completion once at any moment, and the processor taking a pending interrupt before its
  next instruction whenever interrupts are not masked. Sleeping ends when an interrupt is pending,
  masked or not.
\<close>

datatype wait_pc = W_test | W_kill | W_retest | W_sleep | W_restore | W_done

record wait_st =
  pc :: wait_pc
  masked :: bool
  flag :: bool
  pending :: bool
  raised :: bool

inductive wait_step :: "wait_st \<Rightarrow> wait_st \<Rightarrow> bool" where
  w_exit: "pc w = W_test \<Longrightarrow> masked w \<or> \<not> pending w \<Longrightarrow> flag w \<Longrightarrow> wait_step w (w\<lparr>pc := W_done\<rparr>)"
| w_enter: "pc w = W_test \<Longrightarrow> masked w \<or> \<not> pending w \<Longrightarrow> \<not> flag w \<Longrightarrow> wait_step w (w\<lparr>pc := W_kill\<rparr>)"
| w_kill: "pc w = W_kill \<Longrightarrow> masked w \<or> \<not> pending w \<Longrightarrow> wait_step w (w\<lparr>pc := W_retest, masked := True\<rparr>)"
| w_skip: "pc w = W_retest \<Longrightarrow> masked w \<or> \<not> pending w \<Longrightarrow> flag w \<Longrightarrow> wait_step w (w\<lparr>pc := W_restore\<rparr>)"
| w_sleep: "pc w = W_retest \<Longrightarrow> masked w \<or> \<not> pending w \<Longrightarrow> \<not> flag w \<Longrightarrow> wait_step w (w\<lparr>pc := W_sleep\<rparr>)"
| w_wake: "pc w = W_sleep \<Longrightarrow> masked w \<Longrightarrow> pending w \<Longrightarrow> wait_step w (w\<lparr>pc := W_restore\<rparr>)"
| w_restore: "pc w = W_restore \<Longrightarrow> masked w \<or> \<not> pending w \<Longrightarrow> wait_step w (w\<lparr>pc := W_test, masked := False\<rparr>)"
| w_raise: "\<not> raised w \<Longrightarrow> wait_step w (w\<lparr>raised := True, pending := True\<rparr>)"
| w_take: "pending w \<Longrightarrow> \<not> masked w \<Longrightarrow> wait_step w (w\<lparr>pending := False, flag := True\<rparr>)"

inductive_cases wait_stepE: "wait_step w w'"

code_pred wait_step .

definition wait_init :: wait_st where
  "wait_init = \<lparr>pc = W_test, masked = False, flag = False, pending = False, raised = False\<rparr>"

definition wait_inv :: "wait_st \<Rightarrow> bool" where
  "wait_inv w \<longleftrightarrow> (masked w \<longleftrightarrow> pc w \<in> {W_retest, W_sleep, W_restore})
     \<and> (raised w \<longleftrightarrow> flag w \<or> pending w) \<and> \<not> (flag w \<and> pending w)
     \<and> (pc w = W_sleep \<longrightarrow> \<not> flag w) \<and> (pc w = W_done \<longrightarrow> flag w)"

lemma wait_inv_step: "wait_step w w' \<Longrightarrow> wait_inv w \<Longrightarrow> wait_inv w'"
  by (erule wait_stepE) (auto simp: wait_inv_def)

lemma wait_inv_reachable: "wait_step\<^sup>*\<^sup>* wait_init w \<Longrightarrow> wait_inv w"
proof (induction rule: rtranclp_induct)
  case base
  show ?case by (simp add: wait_inv_def wait_init_def)
next
  case (step y z)
  then show ?case using wait_inv_step by blast
qed

text \<open>Steps left once the device has completed.\<close>

definition wait_rank :: "wait_st \<Rightarrow> nat" where
  "wait_rank w = (if flag w
     then (case pc w of W_kill \<Rightarrow> 4 | W_retest \<Rightarrow> 3 | W_sleep \<Rightarrow> 0 | W_restore \<Rightarrow> 2 | W_test \<Rightarrow> 1 | W_done \<Rightarrow> 0)
     else (case pc w of W_kill \<Rightarrow> 5 | W_retest \<Rightarrow> 5 | W_sleep \<Rightarrow> 4 | W_restore \<Rightarrow> 3 | W_test \<Rightarrow> 2 | W_done \<Rightarrow> 0))"

lemma wait_rank_step: "wait_step w w' \<Longrightarrow> wait_inv w \<Longrightarrow> raised w \<Longrightarrow> wait_rank w' < wait_rank w"
proof (induction rule: wait_step.induct)
  case (w_take w)
  then show ?case by (cases "pc w") (auto simp: wait_inv_def wait_rank_def)
qed (auto simp: wait_inv_def wait_rank_def)

text \<open>
  C9: No wake-up is lost. In every reachable state in which the device has completed, the loop is
  finished or can take a step; every step from there brings it closer to its end, which is at most
  five steps away; and the loop finishes only after the completion was seen.
\<close>

theorem nand_wait_no_lost_wakeup:
  assumes "wait_step\<^sup>*\<^sup>* wait_init w"
  shows "(raised w \<longrightarrow> pc w = W_done \<or> (\<exists>w'. wait_step w w'))
    \<and> (\<forall>w'. raised w \<longrightarrow> wait_step w w' \<longrightarrow> wait_rank w' < wait_rank w)
    \<and> wait_rank w \<le> 5
    \<and> (pc w = W_done \<longrightarrow> raised w \<and> flag w)"
proof -
  have inv: "wait_inv w" using assms by (rule wait_inv_reachable)
  have "\<exists>w'. wait_step w w'" if "raised w" "pc w \<noteq> W_done"
    using inv that unfolding wait_inv_def
    by (cases "pc w"; cases "pending w"; auto intro: wait_step.intros)
  moreover have "wait_rank w' < wait_rank w" if "raised w" "wait_step w w'" for w'
    by (rule wait_rank_step [OF that(2) inv that(1)])
  moreover have "wait_rank w \<le> 5" by (auto simp: wait_rank_def split: wait_pc.splits)
  moreover have "pc w = W_done \<longrightarrow> raised w \<and> flag w" using inv by (auto simp: wait_inv_def)
  ultimately show ?thesis by blast
qed

theorem nand_wait_no_lost_wakeup_witness:
  "wait_step\<^sup>*\<^sup>* wait_init \<lparr>pc = W_sleep, masked = True, flag = False, pending = True, raised = True\<rparr>
   \<and> (\<exists>w'. wait_step \<lparr>pc = W_sleep, masked = True, flag = False, pending = True, raised = True\<rparr> w')"
proof -
  let ?w1 = "\<lparr>pc = W_kill, masked = False, flag = False, pending = False, raised = False\<rparr>"
  let ?w2 = "\<lparr>pc = W_retest, masked = True, flag = False, pending = False, raised = False\<rparr>"
  let ?w3 = "\<lparr>pc = W_sleep, masked = True, flag = False, pending = False, raised = False\<rparr>"
  let ?w4 = "\<lparr>pc = W_sleep, masked = True, flag = False, pending = True, raised = True\<rparr>"
  have "wait_step wait_init ?w1" using w_enter [of wait_init] by (simp add: wait_init_def)
  moreover have "wait_step ?w1 ?w2" using w_kill [of ?w1] by simp
  moreover have "wait_step ?w2 ?w3" using w_sleep [of ?w2] by simp
  moreover have "wait_step ?w3 ?w4" using w_raise [of ?w3] by simp
  ultimately have r: "wait_step\<^sup>*\<^sup>* wait_init ?w4"
    by (meson rtranclp.rtrancl_into_rtrancl rtranclp.rtrancl_refl)
  from nand_wait_no_lost_wakeup [OF r] r show ?thesis by auto
qed

end
