(* ===== verification/SdhcCommand.thy ===== *)
theory SdhcCommand
  imports Irq
begin

text \<open>
  \<^verbatim>\<open>armboot/storage/sdhc.c\<close>, second part: command execution. A command is started by register
  writes; its completion is reported by the interrupt handler through \<^const>\<open>intr_status\<close>, which the
  code polls between delays. Pending interrupts are taken at the start of every polling round. The
  data of a transfer moves by DMA.
\<close>

section \<open>Commands\<close>

text \<open>
  \<^verbatim>\<open>struct sdmmc_command\<close> of \<^verbatim>\<open>sdmmc.h\<close>. The response buffer is kept as its sixteen bytes: the code
  reads it both as bytes and as (big-endian) words. Buffers are addresses.
\<close>

record sdmmc_command =
  c_opcode :: u16
  c_arg :: u32
  c_resp :: "u8 list"
  c_data :: u32
  c_datalen :: int
  c_blklen :: int
  c_flags :: u32
  c_error :: int
  c_timeout :: int
  c_resid :: int
  c_buf :: u32

definition zero_cmd :: sdmmc_command where
  "zero_cmd = \<lparr>c_opcode = 0, c_arg = 0, c_resp = replicate 16 0, c_data = 0, c_datalen = 0, c_blklen = 0,
     c_flags = 0, c_error = 0, c_timeout = 0, c_resid = 0, c_buf = 0\<rparr>"

abbreviation (input) "SCF_ITSDONE \<equiv> 0x0001 :: u32"
abbreviation (input) "SCF_CMD_READ \<equiv> 0x0040 :: u32"
abbreviation (input) "SCF_RSP_BSY \<equiv> 0x0100 :: u32"
abbreviation (input) "SCF_RSP_136 \<equiv> 0x0200 :: u32"
abbreviation (input) "SCF_RSP_CRC \<equiv> 0x0400 :: u32"
abbreviation (input) "SCF_RSP_IDX \<equiv> 0x0800 :: u32"
abbreviation (input) "SCF_RSP_PRESENT \<equiv> 0x1000 :: u32"

definition word_bytes :: "u32 \<Rightarrow> u8 list" where
  "word_bytes w = [ucast (drop_bit 24 w), ucast (drop_bit 16 w), ucast (drop_bit 8 w), ucast w]"

definition MMC_R1 :: "u8 list \<Rightarrow> u32" where
  "MMC_R1 resp = be32 (resp ! 0) (resp ! 1) (resp ! 2) (resp ! 3)"

section \<open>Waiting for a host interrupt\<close>

text \<open>
  The polling loop of \<^verbatim>\<open>sdhc_wait_intr_debug\<close> with \<open>timo\<close> rounds left: the status it leaves with and
  whether it ran out of rounds.
\<close>

fun wait_intr_loop ::
  "env \<Rightarrow> u16 \<Rightarrow> u16 \<Rightarrow> nat \<Rightarrow> 'a irq_st_scheme \<Rightarrow> (u16 \<times> bool \<times> 'a irq_st_scheme) option" where
  "wait_intr_loop ev msk status 0 s = Some (status, True, s)"
| "wait_intr_loop ev msk status (Suc timo) s = do {
     s \<leftarrow> take_irq ev s;
     if intr_status (sc_host s) \<noteq> 0 then Some (intr_status (sc_host s) AND msk, False, s)
     else wait_intr_loop ev msk status timo (udelay_ev 1000 s) }"

text \<open>What follows the loop: clear the bits seen, then the error and timeout priorities.\<close>

definition wait_intr_finish :: "env \<Rightarrow> u16 \<Rightarrow> 'a host_st_scheme \<Rightarrow> u16 \<times> 'a host_st_scheme" where
  "wait_intr_finish ev status s =
    (let s = upd_host (\<lambda>h. h\<lparr>intr_status := intr_status h AND NOT status\<rparr>) s;
         (status, s) = (if status AND SDHC_ERROR_INTERRUPT \<noteq> 0
            then (let s = gecko_msg ''resetting due to error interrupt'' [] s;
                      s = upd_host (\<lambda>h. h\<lparr>intr_error_status := 0\<rparr>) s
                  in (0, snd (sdhc_soft_reset ev (SDHC_RESET_DAT OR SDHC_RESET_CMD) s)))
            else (status, s))
     in if status AND SDHC_ERROR_TIMEOUT \<noteq> 0
        then (let s = gecko_msg ''not resetting due to timeout'' [] s
              in (0, upd_host (\<lambda>h. h\<lparr>intr_error_status := 0\<rparr>) s))
        else (status, s))"

definition sdhc_wait_intr ::
  "env \<Rightarrow> u16 \<Rightarrow> int \<Rightarrow> 'a irq_st_scheme \<Rightarrow> (u16 \<times> 'a irq_st_scheme) option" where
  "sdhc_wait_intr ev msk timo s = do {
     let msk = msk OR SDHC_ERROR_INTERRUPT OR SDHC_ERROR_TIMEOUT;
     let status = intr_status (sc_host s) AND msk;
     (status, timed_out, s) \<leftarrow> wait_intr_loop ev msk status (nat timo) s;
     let status = (if timed_out \<and> 0 \<le> timo then status OR SDHC_ERROR_TIMEOUT else status);
     Some (wait_intr_finish ev status s) }"

section \<open>Starting a command\<close>

text \<open>
  Block size and count, or \<open>None\<close> where the data is not a whole number of blocks. The code computes
  the size with \<^verbatim>\<open>MIN\<close> on ints and keeps it in 16 bits; a size of zero would divide by zero and is an
  error of the caller, which the model also reports as \<open>None\<close> of the outer option.
\<close>

definition cmd_blocks :: "sdmmc_command \<Rightarrow> (u16 \<times> u16) option option" where
  "cmd_blocks cmd =
    (if c_datalen cmd > 0 then
      (let blksize = word_of_int (min (c_datalen cmd) (c_blklen cmd)) :: u16 in
       if blksize = 0 then None
       else if c_datalen cmd mod uint blksize > 0 then Some None
       else Some (Some (blksize, word_of_int (c_datalen cmd div uint blksize))))
     else Some (Some (0, 0)))"

definition cmd_mode :: "u32 \<Rightarrow> sdmmc_command \<Rightarrow> u16 \<Rightarrow> u16" where
  "cmd_mode hf cmd blkcount =
    (let mode = 0;
         mode = (if c_flags cmd AND SCF_CMD_READ \<noteq> 0 then mode OR 0x10 else mode);
         mode = (if blkcount > 0 then mode OR 0x02 OR 0x20 OR 0x04 else mode)
     in if hf AND SHF_USE_DMA \<noteq> 0 then mode OR 0x01 else mode)"

definition cmd_word :: "sdmmc_command \<Rightarrow> u16" where
  "cmd_word cmd =
    (let command = push_bit 8 (c_opcode cmd AND 0x3f);
         command = (if c_flags cmd AND SCF_RSP_CRC \<noteq> 0 then command OR 0x08 else command);
         command = (if c_flags cmd AND SCF_RSP_IDX \<noteq> 0 then command OR 0x10 else command);
         command = (if c_data cmd \<noteq> 0 then command OR 0x20 else command)
     in if c_flags cmd AND SCF_RSP_PRESENT = 0 then command
        else if c_flags cmd AND SCF_RSP_136 \<noteq> 0 then command OR 1
        else if c_flags cmd AND SCF_RSP_BSY \<noteq> 0 then command OR 3
        else command OR 2)"

text \<open>Cache maintenance and DMA address of a data command.\<close>

definition cmd_setup_dma :: "env \<Rightarrow> sdmmc_command \<Rightarrow> 'a host_st_scheme \<Rightarrow> 'a host_st_scheme option" where
  "cmd_setup_dma ev cmd s = do {
     s \<leftarrow> (if c_flags cmd AND SCF_CMD_READ \<noteq> 0
           then dc_invalidaterange ev (c_data cmd) (word_of_int (c_datalen cmd)) s
           else do {
             s \<leftarrow> dc_flushrange ev (c_data cmd) (word_of_int (c_datalen cmd)) s;
             ahb_flush_to ev AHB_SDHC s });
     Some (HWRITE4 SDHC_DMA_ADDR (c_data cmd) s) }"

text \<open>The registers of a command; the last write triggers it.\<close>

definition cmd_issue :: "env \<Rightarrow> u16 \<Rightarrow> u16 \<Rightarrow> u16 \<Rightarrow> u16 \<Rightarrow> u32 \<Rightarrow> 'a host_st_scheme \<Rightarrow> 'a host_st_scheme" where
  "cmd_issue ev blksize blkcount command mode arg s =
    (let s = HWRITE2 ev SDHC_BLOCK_SIZE (blksize OR 0x7000) s;
         s = (if blkcount > 0 then HWRITE2 ev SDHC_BLOCK_COUNT blkcount s else s);
         s = HWRITE4 SDHC_ARGUMENT arg s
     in HWRITE4 SDHC_TRANSFER_MODE (push_bit 16 (ucast command) OR ucast mode) s)"

definition sdhc_start_command ::
  "env \<Rightarrow> sdmmc_command \<Rightarrow> 'a host_st_scheme \<Rightarrow> (int \<times> sdmmc_command \<times> 'a host_st_scheme) option" where
  "sdhc_start_command ev cmd s = do {
     blocks \<leftarrow> cmd_blocks cmd;
     case blocks of
       None \<Rightarrow> Some (EINVAL, cmd, gecko_msg ''sdhc: data not a multiple of %d bytes''
                 [VInt (word_of_int (min (c_datalen cmd) (c_blklen cmd)))] s)
     | Some (blksize, blkcount) \<Rightarrow>
         if blkcount > 512 then Some (EINVAL, cmd, gecko_msg ''sdhc: too much data'' [] s)
         else do {
           let mode = cmd_mode (hflags (sc_host s)) cmd blkcount;
           let command = cmd_word cmd;
           let (error, s) = sdhc_wait_state ev SDHC_CMD_INHIBIT_MASK 0 s;
           if error \<noteq> 0 then Some (error, cmd, s)
           else if hflags (sc_host s) AND SHF_USE_DMA \<noteq> 0 \<and> c_datalen cmd > 0
           then do {
             let cmd = cmd\<lparr>c_resid := uint blkcount, c_buf := c_data cmd\<rparr>;
             s \<leftarrow> cmd_setup_dma ev cmd s;
             Some (0, cmd, cmd_issue ev blksize blkcount command mode (c_arg cmd) s) }
           else Some (0, cmd, cmd_issue ev blksize blkcount command mode (c_arg cmd) s) } }"

section \<open>Transferring data\<close>

text \<open>The DMA loop: the error it ends with. Every DMA interrupt restarts the transfer where it stopped.\<close>

partial_function (option) transfer_loop ::
  "env \<Rightarrow> 'a irq_st_scheme \<Rightarrow> (int \<times> 'a irq_st_scheme) option" where
  "transfer_loop ev s = do {
     (status, s) \<leftarrow> sdhc_wait_intr ev (SDHC_TRANSFER_COMPLETE OR SDHC_DMA_INTERRUPT) 5000 s;
     if status = 0 then Some (ETIMEDOUT, gecko_msg ''DMA timeout %08x'' [VInt (ucast status)] s)
     else if status AND SDHC_TRANSFER_COMPLETE \<noteq> 0 then Some (0, s)
     else if status AND SDHC_DMA_INTERRUPT \<noteq> 0
     then transfer_loop ev
        (HWRITE4 SDHC_DMA_ADDR (fst (HREAD4 ev SDHC_DMA_ADDR s)) (snd (HREAD4 ev SDHC_DMA_ADDR s)))
     else transfer_loop ev s }"

definition sdhc_transfer_data ::
  "env \<Rightarrow> sdmmc_command \<Rightarrow> 'a irq_st_scheme \<Rightarrow> (sdmmc_command \<times> 'a irq_st_scheme) option" where
  "sdhc_transfer_data ev cmd s = do {
     (error, s) \<leftarrow> (if hflags (sc_host s) AND SHF_USE_DMA \<noteq> 0 then transfer_loop ev s
                   else Some (0, gecko_msg ''fail.'' [] s));
     s \<leftarrow> (if c_flags cmd AND SCF_CMD_READ \<noteq> 0 then ahb_flush_from ev AHB_SDHC s else Some s);
     let cmd = (if error \<noteq> 0 then cmd\<lparr>c_error := error\<rparr> else cmd);
     Some (cmd\<lparr>c_flags := c_flags cmd OR SCF_ITSDONE\<rparr>, s) }"

section \<open>Executing a command\<close>

fun read_resp136 :: "env \<Rightarrow> u32 \<Rightarrow> nat \<Rightarrow> 'a host_st_scheme \<Rightarrow> u8 list \<times> 'a host_st_scheme" where
  "read_resp136 ev i 0 s = ([], s)"
| "read_resp136 ev i (Suc n) s =
    (let (b, s) = HREAD1 ev (SDHC_RESPONSE + i) s;
         (bs, s) = read_resp136 ev (i + 1) n s
     in (b # bs, s))"

definition read_response :: "env \<Rightarrow> sdmmc_command \<Rightarrow> 'a host_st_scheme \<Rightarrow> sdmmc_command \<times> 'a host_st_scheme" where
  "read_response ev cmd s =
    (if c_error cmd = 0 \<and> c_flags cmd AND SCF_RSP_PRESENT \<noteq> 0 then
       if c_flags cmd AND SCF_RSP_136 \<noteq> 0
       then (let (bs, s) = read_resp136 ev 0 15 s in (cmd\<lparr>c_resp := bs @ drop 15 (c_resp cmd)\<rparr>, s))
       else (let (v, s) = HREAD4 ev SDHC_RESPONSE s
             in (cmd\<lparr>c_resp := word_bytes v @ drop 4 (c_resp cmd)\<rparr>, s))
     else (cmd, s))"

definition set_timeout :: "sdmmc_command \<Rightarrow> sdmmc_command" where
  "set_timeout cmd =
    (if c_timeout cmd = 0
     then cmd\<lparr>c_timeout := (if c_datalen cmd > 0 then 5000 else 500)\<rparr> else cmd)"

definition sdhc_exec_command ::
  "env \<Rightarrow> sdmmc_command \<Rightarrow> 'a irq_st_scheme \<Rightarrow> (sdmmc_command \<times> 'a irq_st_scheme) option" where
  "sdhc_exec_command ev cmd s = do {
     let s = (if c_datalen cmd > 0 then upd_host (data_command_update (\<lambda>_. 1)) s else s);
     let cmd = set_timeout cmd;
     let s = upd_host (\<lambda>h. h\<lparr>intr_status := 0\<rparr>) s;
     (error, cmd, s) \<leftarrow> sdhc_start_command ev cmd s;
     if error \<noteq> 0
     then Some (cmd\<lparr>c_error := error, c_flags := c_flags cmd OR SCF_ITSDONE\<rparr>,
                upd_host (data_command_update (\<lambda>_. 0)) s)
     else do {
       (status, s) \<leftarrow> sdhc_wait_intr ev SDHC_COMMAND_COMPLETE (c_timeout cmd) s;
       if status AND SDHC_COMMAND_COMPLETE = 0
       then Some (cmd\<lparr>c_error := ETIMEDOUT, c_flags := c_flags cmd OR SCF_ITSDONE\<rparr>,
                  upd_host (data_command_update (\<lambda>_. 0))
                   (gecko_msg ''timeout dump: error_intr: 0x%x intr: 0x%x''
                      [VInt (ucast (intr_error_status (sc_host s))), VInt (ucast (intr_status (sc_host s)))] s))
       else do {
         let (cmd, s) = read_response ev cmd s;
         (cmd, s) \<leftarrow> (if c_error cmd = 0 \<and> c_datalen cmd > 0
                      then sdhc_transfer_data ev cmd s else Some (cmd, s));
         Some (cmd\<lparr>c_flags := c_flags cmd OR SCF_ITSDONE\<rparr>,
               upd_host (data_command_update (\<lambda>_. 0)) s) } } }"

section \<open>Commands keep the driver state and return\<close>

definition keeps :: "'a irq_st_scheme \<Rightarrow> 'a irq_st_scheme \<Rightarrow> bool" where
  "keeps s s' \<longleftrightarrow> host_ok s' \<and> settled s' = settled s"

lemma keeps_trans [trans]: "keeps s t \<Longrightarrow> keeps t u \<Longrightarrow> keeps s u"
  by (simp add: keeps_def)

lemma keeps_refl: "host_ok s \<Longrightarrow> keeps s s"
  by (simp add: keeps_def)

lemma sd_frame_keeps: "sd_frame s s' \<Longrightarrow> host_ok s \<Longrightarrow> keeps s s'"
  using sd_frame_fields [of s s'] by (auto simp: keeps_def settled_def host_ok_def sd_frame_def)

lemma same_keeps: "same s s' \<Longrightarrow> host_ok s \<Longrightarrow> keeps s s'"
  by (auto simp: keeps_def settled_def host_ok_def same_def)

lemma take_irq_keeps: "host_ok s \<Longrightarrow> \<exists>s'. take_irq ev s = Some s' \<and> keeps s s'"
  using take_irq_ok [of s ev] by (auto simp: keeps_def)

lemma wait_intr_loop_keeps:
  "host_ok s \<Longrightarrow> \<exists>st b s'. wait_intr_loop ev msk status n s = Some (st, b, s') \<and> keeps s s'"
proof (induction n arbitrary: s)
  case 0
  then show ?case by (auto simp: keeps_refl)
next
  case (Suc n)
  obtain t where t: "take_irq ev s = Some t" "keeps s t" using take_irq_keeps [OF Suc.prems] by blast
  then have ht: "host_ok t" by (simp add: keeps_def)
  then have u: "keeps t (udelay_ev 1000 t)" by (intro same_keeps same_intro same_refl)
  then have "host_ok (udelay_ev 1000 t)" by (simp add: keeps_def)
  from Suc.IH [OF this] t keeps_trans [OF t(2) u] show ?case by (auto intro: keeps_trans)
qed

lemma sdhc_wait_intr_keeps:
  assumes "host_ok s"
  shows "\<exists>st s'. sdhc_wait_intr ev msk timo s = Some (st, s') \<and> keeps s s'"
proof -
  obtain st b t where t: "wait_intr_loop ev (msk OR SDHC_ERROR_INTERRUPT OR SDHC_ERROR_TIMEOUT)
      (intr_status (sc_host s) AND (msk OR SDHC_ERROR_INTERRUPT OR SDHC_ERROR_TIMEOUT)) (nat timo) s = Some (st, b, t)"
    and k: "keeps s t" using wait_intr_loop_keeps [OF assms] by blast
  have ht: "host_ok t" using k by (simp add: keeps_def)
  have fin: "sd_frame t (snd (wait_intr_finish ev x t))" for x
    using ht by (auto simp: wait_intr_finish_def access_unfold intro!: sd_intro)
  obtain x where "sdhc_wait_intr ev msk timo s = Some (wait_intr_finish ev x t)"
    using t by (auto simp: sdhc_wait_intr_def Let_def)
  moreover have "keeps s (snd (wait_intr_finish ev x t))"
    using sd_frame_keeps [OF fin ht] k keeps_trans by blast
  ultimately show ?thesis by (metis prod.collapse)
qed

lemma sdhc_wait_state_keeps:
  assumes "host_ok s"
  shows "sd_frame s (snd (sdhc_wait_state ev msk v s))"
proof -
  have "sd_frame s (snd (sdhc_wait_state_loop ev msk v n t))" if "sd_frame s t" for n t
    using that
  proof (induction n arbitrary: t)
    case (Suc n)
    have "sd_frame s (snd (HREAD4 ev SDHC_PRESENT_STATE t))" using Suc.prems assms by (intro sd_intro) simp_all
    moreover from this have "sd_frame s (udelay_ev 10000 (snd (HREAD4 ev SDHC_PRESENT_STATE t)))"
      using assms by (rule sd_frame_access(7))
    ultimately show ?case using Suc.IH by (simp add: access_unfold)
  qed simp
  then show ?thesis by (simp add: sdhc_wait_state_def)
qed

lemma cmd_issue_frame:
  assumes "sd_frame s t" "host_ok s"
  shows "sd_frame s (cmd_issue ev a b c m g t)"
proof -
  have 1: "sd_frame s (HWRITE2 ev SDHC_BLOCK_SIZE (a OR 0x7000) t)" using assms by (rule sd_frame_access) simp
  then have "sd_frame s (HWRITE2 ev SDHC_BLOCK_COUNT b (HWRITE2 ev SDHC_BLOCK_SIZE (a OR 0x7000) t))"
    using assms(2) by (rule sd_frame_access) simp
  with 1 have "sd_frame s (if b > 0 then HWRITE2 ev SDHC_BLOCK_COUNT b (HWRITE2 ev SDHC_BLOCK_SIZE (a OR 0x7000) t)
      else HWRITE2 ev SDHC_BLOCK_SIZE (a OR 0x7000) t)" by simp
  then show ?thesis unfolding cmd_issue_def Let_def using assms(2) by (intro sd_frame_access) simp_all
qed

text \<open>Commands without data start without waiting for the bus.\<close>

lemma sdhc_start_command_nodata:
  assumes "host_ok s" "c_datalen cmd \<le> 0"
  shows "\<exists>e s'. sdhc_start_command ev cmd s = Some (e, cmd, s') \<and> keeps s s' \<and> e \<in> {0, ETIMEDOUT}"
proof -
  let ?w = "sdhc_wait_state ev SDHC_CMD_INHIBIT_MASK 0 s"
  have e: "fst ?w \<in> {0, ETIMEDOUT}"
  proof -
    have "fst (sdhc_wait_state_loop ev m v n t) \<in> {0, ETIMEDOUT}" for m v n and t :: "'a irq_st_scheme"
      by (induction n arbitrary: t) (auto simp: access_unfold)
    then show ?thesis by (simp add: sdhc_wait_state_def)
  qed
  have f: "sd_frame s (snd ?w)" using assms(1) by (rule sdhc_wait_state_keeps)
  define s' where "s' = cmd_issue ev 0 0 (cmd_word cmd) (cmd_mode (hflags (sc_host s)) cmd 0) (c_arg cmd) (snd ?w)"
  have "sd_frame s s'" unfolding s'_def using f assms(1) by (rule cmd_issue_frame)
  moreover have "sdhc_start_command ev cmd s =
      Some (if fst ?w \<noteq> 0 then (fst ?w, cmd, snd ?w) else (0, cmd, s'))"
    using assms(2) by (simp add: sdhc_start_command_def cmd_blocks_def access_unfold s'_def)
  ultimately show ?thesis
    using e f assms(1) by (auto intro: sd_frame_keeps)
qed

lemma read_response_frame:
  assumes "host_ok s"
  shows "sd_frame s (snd (read_response ev cmd s))" "c_error (fst (read_response ev cmd s)) = c_error cmd"
    "c_datalen (fst (read_response ev cmd s)) = c_datalen cmd"
    "length (c_resp cmd) = 16 \<Longrightarrow> length (c_resp (fst (read_response ev cmd s))) = 16"
proof -
  have r: "sd_frame s (snd (read_resp136 ev i n t)) \<and> length (fst (read_resp136 ev i n t)) = n"
    if "sd_frame s t" "unat i + n \<le> 15" for i n t
    using that
  proof (induction n arbitrary: i t)
    case (Suc n)
    have "SDHC_RESPONSE + i < 0x100"
      using Suc.prems(2) by (simp add: word_less_nat_alt unat_word_ariths)
    then have "sd_frame s (snd (HREAD1 ev (SDHC_RESPONSE + i) t))"
      using Suc.prems assms by (intro sd_intro) simp_all
    moreover have "unat (i + 1) + n \<le> 15" using Suc.prems(2) by (simp add: unat_word_ariths)
    ultimately show ?case using Suc.IH by (simp add: access_unfold)
  qed simp
  show "sd_frame s (snd (read_response ev cmd s))"
    using r [of s 0 15] assms by (auto simp: read_response_def access_unfold intro!: sd_intro)
  show "c_error (fst (read_response ev cmd s)) = c_error cmd"
    "c_datalen (fst (read_response ev cmd s)) = c_datalen cmd"
    by (simp_all add: read_response_def access_unfold)
  show "length (c_resp (fst (read_response ev cmd s))) = 16" if "length (c_resp cmd) = 16"
    using that r [of s 0 15] by (simp add: read_response_def access_unfold word_bytes_def)
qed

lemma upd_host_keeps:
  "host_ok s \<Longrightarrow> keeps s (upd_host (data_command_update (\<lambda>_. d)) s)"
  "host_ok s \<Longrightarrow> keeps s (upd_host (\<lambda>h. h\<lparr>intr_status := i\<rparr>) s)"
  by (auto simp: keeps_def settled_def host_ok_def upd_host_def)

lemma sdhc_exec_nodata:
  assumes "host_ok s" "c_datalen cmd \<le> 0" "c_error cmd = 0" "length (c_resp cmd) = 16"
  shows "\<exists>cmd' s'. sdhc_exec_command ev cmd s = Some (cmd', s') \<and> keeps s s'
    \<and> c_flags cmd' = c_flags cmd OR SCF_ITSDONE \<and> data_command (sc_host s') = 0
    \<and> c_error cmd' \<in> {0, ETIMEDOUT} \<and> length (c_resp cmd') = 16"
proof -
  define s1 where "s1 = upd_host (\<lambda>h. h\<lparr>intr_status := 0\<rparr>) s"
  have k1: "keeps s s1" unfolding s1_def using assms(1) by (rule upd_host_keeps)
  then have h1: "host_ok s1" by (simp add: keeps_def)
  let ?cmd = "set_timeout cmd"
  have c: "c_datalen ?cmd \<le> 0" "c_error ?cmd = 0" "c_flags ?cmd = c_flags cmd" "length (c_resp ?cmd) = 16"
    using assms by (auto simp: set_timeout_def)
  obtain e s2 where s2: "sdhc_start_command ev ?cmd s1 = Some (e, ?cmd, s2)" "keeps s1 s2" "e \<in> {0, ETIMEDOUT}"
    using sdhc_start_command_nodata [OF h1 c(1)] by blast
  then have h2: "host_ok s2" by (simp add: keeps_def)
  have fin: "keeps t (upd_host (data_command_update (\<lambda>_. 0)) t)
      \<and> data_command (sc_host (upd_host (data_command_update (\<lambda>_. 0)) t)) = 0" if "host_ok t" for t :: "'a irq_st_scheme"
    using upd_host_keeps(1) [OF that, of 0] by (simp add: upd_host_def)
  show ?thesis
  proof (cases "e = 0")
    case False
    then show ?thesis
      using assms(2) s2 k1 fin [OF h2] c keeps_trans
      by (auto simp: sdhc_exec_command_def Let_def s1_def [symmetric]) blast
  next
    case True
    obtain st s3 where s3: "sdhc_wait_intr ev SDHC_COMMAND_COMPLETE (c_timeout ?cmd) s2 = Some (st, s3)" "keeps s2 s3"
      using sdhc_wait_intr_keeps [OF h2] by blast
    then have h3: "host_ok s3" by (simp add: keeps_def)
    have k3: "keeps s s3" using k1 s2(2) s3(2) keeps_trans by blast
    define cmd4 where "cmd4 = fst (read_response ev ?cmd s3)"
    define s4 where "s4 = snd (read_response ev ?cmd s3)"
    have c4: "c_error cmd4 = 0" "c_datalen cmd4 \<le> 0" "length (c_resp cmd4) = 16" "c_flags cmd4 = c_flags cmd"
      using read_response_frame [OF h3, where ev = ev and cmd = ?cmd] c
      by (auto simp: cmd4_def read_response_def access_unfold)
    have k4: "keeps s3 s4" unfolding s4_def by (rule sd_frame_keeps [OF read_response_frame(1) [OF h3] h3])
    then have h4: "host_ok s4" by (simp add: keeps_def)
    define g where "g = gecko_msg ''timeout dump: error_intr: 0x%x intr: 0x%x''
       [VInt (ucast (intr_error_status (sc_host s3))), VInt (ucast (intr_status (sc_host s3)))] s3"
    have kg: "keeps s3 g" unfolding g_def by (intro same_keeps same_intro same_refl h3)
    then have hg: "host_ok g" by (simp add: keeps_def)
    have "sdhc_exec_command ev cmd s = Some (if st AND SDHC_COMMAND_COMPLETE = 0
        then (?cmd\<lparr>c_error := ETIMEDOUT, c_flags := c_flags ?cmd OR SCF_ITSDONE\<rparr>, upd_host (data_command_update (\<lambda>_. 0)) g)
        else (cmd4\<lparr>c_flags := c_flags cmd4 OR SCF_ITSDONE\<rparr>, upd_host (data_command_update (\<lambda>_. 0)) s4))"
      using assms(2) s2(1) s3(1) True c4
      by (simp add: sdhc_exec_command_def access_unfold s1_def [symmetric] cmd4_def s4_def g_def)
    moreover have "keeps s (upd_host (data_command_update (\<lambda>_. 0)) g)"
      "keeps s (upd_host (data_command_update (\<lambda>_. 0)) s4)"
      using fin [OF hg] fin [OF h4] k3 kg k4 keeps_trans by blast+
    ultimately show ?thesis using fin [OF hg] fin [OF h4] c c4 by auto
  qed
qed

text \<open>
  C27: A command without data always returns, whatever the controller does: all its waits are bounded.
  It is marked done, no data command is left pending, its error is none or a timeout, and the
  driver's state outside the interrupt bookkeeping is untouched.
\<close>

theorem sdhc_exec_command_total:
  assumes "host_ok s" "c_datalen cmd \<le> 0" "c_error cmd = 0" "length (c_resp cmd) = 16"
  shows "\<exists>cmd' s'. sdhc_exec_command ev cmd s = Some (cmd', s') \<and> keeps s s'
    \<and> c_flags cmd' = c_flags cmd OR SCF_ITSDONE \<and> data_command (sc_host s') = 0
    \<and> c_error cmd' \<in> {0, ETIMEDOUT} \<and> length (c_resp cmd') = 16"
  by (rule sdhc_exec_nodata [OF assms])

theorem sdhc_exec_command_total_witness:
  "\<exists>cmd' s'. sdhc_exec_command (\<lambda>l a. 0) zero_cmd irq_reset_st = Some (cmd', s')
     \<and> c_flags cmd' = SCF_ITSDONE \<and> c_error cmd' \<in> {0, ETIMEDOUT}"
proof -
  have "host_ok irq_reset_st" by (simp add: irq_reset_st_def host_ok_def)
  from sdhc_exec_command_total [OF this, of zero_cmd "\<lambda>l a. 0"] show ?thesis
    by (auto simp: zero_cmd_def)
qed

section \<open>Data commands keep the driver state\<close>

lemma cmd_setup_dma_keeps:
  assumes "host_ok s" "cmd_setup_dma ev cmd s = Some s'"
  shows "keeps s s'"
proof -
  have fr: "same u u'" if "dc_flushrange ev a n u = Some u'" for a n and u u' :: "'a irq_st_scheme"
    using that dc_flushrange_log [of ev a n u] by (auto simp: same_def)
  have inv: "same u u'" if "dc_invalidaterange ev a n u = Some u'" for a n and u u' :: "'a irq_st_scheme"
    using that dc_invalidaterange_log [of ev a n u] by (auto simp: same_def)
  have fl: "same u u'" if "ahb_flush_to ev d u = Some u'" for d and u u' :: "'a irq_st_scheme"
    using io_step_same [OF ahb_flush_to_step [OF that]] .
  obtain t where t: "same s t" "s' = HWRITE4 SDHC_DMA_ADDR (c_data cmd) t"
    using assms(2) same_trans [OF fr fl]
    by (auto simp: cmd_setup_dma_def split: if_splits dest: inv) blast
  have "keeps s t" using t(1) assms(1) by (rule same_keeps)
  moreover from this have "host_ok t" by (simp add: keeps_def)
  then have "keeps t s'" unfolding t(2) by (intro sd_frame_keeps sd_intro) simp_all
  ultimately show ?thesis by (rule keeps_trans)
qed

lemma sdhc_start_command_keeps:
  assumes "host_ok s" "sdhc_start_command ev cmd s = Some (e, cmd', s')"
  shows "keeps s s'"
proof -
  let ?w = "sdhc_wait_state ev SDHC_CMD_INHIBIT_MASK 0 s"
  have f: "keeps s (snd ?w)" using sd_frame_keeps [OF sdhc_wait_state_keeps [OF assms(1)] assms(1)] .
  have g: "keeps s (gecko_msg m as s)" for m as by (intro same_keeps same_intro same_refl assms(1))
  have h: "host_ok (snd ?w)" using f by (simp add: keeps_def)
  have issue: "keeps s (cmd_issue ev a b c m x t)" if "keeps s t" for a b c m x t
    using that sd_frame_keeps [OF cmd_issue_frame [OF sd_frame_refl]] keeps_trans
    by (metis keeps_def)
  have dma: "keeps s t" if "cmd_setup_dma ev c (snd ?w) = Some t" for c t
    using keeps_trans [OF f cmd_setup_dma_keeps [OF h that]] .
  obtain blocks where b: "cmd_blocks cmd = Some blocks" using assms(2) by (auto simp: sdhc_start_command_def)
  show ?thesis
  proof (cases blocks)
    case None
    with b assms(2) g show ?thesis by (auto simp: sdhc_start_command_def)
  next
    case (Some bb)
    obtain sz ct where bb: "bb = (sz, ct)" by (cases bb)
    note st = assms(2) [unfolded sdhc_start_command_def access_unfold b Some bb]
    show ?thesis
    proof (cases "ct > 512")
      case True
      with st g show ?thesis by auto
    next
      case small: False
      show ?thesis
      proof (cases "fst ?w = 0")
        case False
        with st small f show ?thesis by auto
      next
        case ok: True
        show ?thesis
        proof (cases "hflags (sc_host (snd ?w)) AND SHF_USE_DMA \<noteq> 0 \<and> c_datalen cmd > 0")
          case True
          with st small ok issue [OF dma] show ?thesis by auto
        next
          case False
          with st small ok issue [OF f] show ?thesis by (auto split: if_splits)
        qed
      qed
    qed
  qed
qed

lemma transfer_loop_keeps:
  assumes "transfer_loop ev s = Some (e, s')" "host_ok s"
  shows "keeps s s'"
proof -
  have "host_ok s \<longrightarrow> keeps s (snd (e, s'))"
  proof (rule transfer_loop.raw_induct [where P = "\<lambda>ev s r. host_ok s \<longrightarrow> keeps s (snd r)", OF _ assms(1)])
    fix f :: "env \<Rightarrow> 'a irq_st_scheme \<Rightarrow> (int \<times> 'a irq_st_scheme) option" and ev s r
    assume IH: "\<And>ev s r. f ev s = Some r \<Longrightarrow> host_ok s \<longrightarrow> keeps s (snd r)"
      and eq: "do {
       (status, s) \<leftarrow> sdhc_wait_intr ev (SDHC_TRANSFER_COMPLETE OR SDHC_DMA_INTERRUPT) 5000 s;
       if status = 0 then Some (ETIMEDOUT, gecko_msg ''DMA timeout %08x'' [VInt (ucast status)] s)
       else if status AND SDHC_TRANSFER_COMPLETE \<noteq> 0 then Some (0, s)
       else if status AND SDHC_DMA_INTERRUPT \<noteq> 0
       then f ev (HWRITE4 SDHC_DMA_ADDR (fst (HREAD4 ev SDHC_DMA_ADDR s)) (snd (HREAD4 ev SDHC_DMA_ADDR s)))
       else f ev s } = Some r"
    show "host_ok s \<longrightarrow> keeps s (snd r)"
    proof
      assume h: "host_ok s"
      obtain st t where t: "sdhc_wait_intr ev (SDHC_TRANSFER_COMPLETE OR SDHC_DMA_INTERRUPT) 5000 s = Some (st, t)"
        "keeps s t" using sdhc_wait_intr_keeps [OF h] by blast
      have ht: "host_ok t" using t(2) by (simp add: keeps_def)
      let ?u = "HWRITE4 SDHC_DMA_ADDR (fst (HREAD4 ev SDHC_DMA_ADDR t)) (snd (HREAD4 ev SDHC_DMA_ADDR t))"
      have "sd_frame t (snd (HREAD4 ev SDHC_DMA_ADDR t))" using sd_frame_refl ht by (rule sd_frame_access) simp
      then have "sd_frame t ?u" using ht by (rule sd_frame_access) simp
      then have u: "keeps t ?u" "host_ok ?u" using ht sd_frame_keeps by (auto simp: keeps_def)
      have g: "keeps t (gecko_msg m as t)" for m as by (intro same_keeps same_intro same_refl ht)
      have "keeps t (snd r)"
        using eq t(1) IH [of ev ?u r] IH [of ev t r] u ht g keeps_refl [OF ht] keeps_trans
        by (auto split: if_splits)
      with t(2) show "keeps s (snd r)" by (rule keeps_trans)
    qed
  qed
  with assms(2) show ?thesis by simp
qed

lemma sdhc_transfer_data_keeps:
  assumes "sdhc_transfer_data ev cmd s = Some (cmd', s')" "host_ok s"
  shows "keeps s s'"
proof -
  obtain e t where t: "(if hflags (sc_host s) AND SHF_USE_DMA \<noteq> 0 then transfer_loop ev s
       else Some (0, gecko_msg ''fail.'' [] s)) = Some (e, t)"
    and s': "(if c_flags cmd AND SCF_CMD_READ \<noteq> 0 then ahb_flush_from ev AHB_SDHC t else Some t) = Some s'"
    using assms(1) by (auto simp: sdhc_transfer_data_def Let_def)
  have "keeps s (gecko_msg ''fail.'' [] s)" by (intro same_keeps same_intro same_refl assms(2))
  then have k: "keeps s t" using t transfer_loop_keeps [OF _ assms(2)] by (auto split: if_splits)
  then have "host_ok t" by (simp add: keeps_def)
  then have "keeps t s'"
    using s' same_keeps [OF io_step_same [OF ahb_flush_from_step]] keeps_refl
    by (auto split: if_splits)
  with k show ?thesis by (rule keeps_trans)
qed

lemma sdhc_exec_keeps:
  assumes "sdhc_exec_command ev cmd s = Some (cmd', s')" "host_ok s"
  shows "keeps s s'"
proof -
  define s1 where "s1 = upd_host (\<lambda>h. h\<lparr>intr_status := 0\<rparr>)
     (if c_datalen cmd > 0 then upd_host (data_command_update (\<lambda>_. 1)) s else s)"
  have k1: "keeps s s1"
    using upd_host_keeps(1) [OF assms(2), of 1] upd_host_keeps(2) [of _ 0] assms(2) keeps_trans
    unfolding s1_def by (auto simp: keeps_def)
  have h1: "host_ok s1" using k1 by (simp add: keeps_def)
  obtain e c2 s2 where s2: "sdhc_start_command ev (set_timeout cmd) s1 = Some (e, c2, s2)"
    using assms(1) by (auto simp: sdhc_exec_command_def Let_def s1_def)
  have k2: "keeps s1 s2" using sdhc_start_command_keeps [OF h1 s2] .
  have h2: "host_ok s2" using k2 by (simp add: keeps_def)
  have fin: "keeps t (upd_host (data_command_update (\<lambda>_. 0)) t)" if "host_ok t" for t :: "'a irq_st_scheme"
    using upd_host_keeps(1) [OF that] .
  have "keeps s2 s'"
  proof (cases "e = 0")
    case False
    with assms(1) s2 fin [OF h2] show ?thesis by (auto simp: sdhc_exec_command_def Let_def s1_def)
  next
    case True
    obtain st s3 where s3: "sdhc_wait_intr ev SDHC_COMMAND_COMPLETE (c_timeout c2) s2 = Some (st, s3)" "keeps s2 s3"
      using sdhc_wait_intr_keeps [OF h2] by blast
    have h3: "host_ok s3" using s3(2) by (simp add: keeps_def)
    have g: "keeps s3 (gecko_msg m as s3)" for m as by (intro same_keeps same_intro same_refl h3)
    have hg: "host_ok (gecko_msg m as s3)" for m as using g by (simp add: keeps_def)
    let ?c4 = "fst (read_response ev c2 s3)" and ?s4 = "snd (read_response ev c2 s3)"
    have k4: "keeps s3 ?s4" using sd_frame_keeps [OF read_response_frame(1) [OF h3] h3] .
    have h4: "host_ok ?s4" using k4 by (simp add: keeps_def)
    have tr: "keeps ?s4 t" if "(if c_error ?c4 = 0 \<and> c_datalen ?c4 > 0 then sdhc_transfer_data ev ?c4 ?s4
        else Some (?c4, ?s4)) = Some (c, t)" for c t
      using that sdhc_transfer_data_keeps [OF _ h4] keeps_refl [OF h4] by (auto split: if_splits)
    have "(if st AND SDHC_COMMAND_COMPLETE = 0
        then s' = upd_host (data_command_update (\<lambda>_. 0)) (gecko_msg ''timeout dump: error_intr: 0x%x intr: 0x%x''
                      [VInt (ucast (intr_error_status (sc_host s3))), VInt (ucast (intr_status (sc_host s3)))] s3)
        else \<exists>c t. (if c_error ?c4 = 0 \<and> c_datalen ?c4 > 0 then sdhc_transfer_data ev ?c4 ?s4
            else Some (?c4, ?s4)) = Some (c, t) \<and> s' = upd_host (data_command_update (\<lambda>_. 0)) t)"
      using assms(1) s2 s3(1) True
      by (auto simp: sdhc_exec_command_def access_unfold s1_def split: if_splits)
    moreover have "keeps s3 (upd_host (data_command_update (\<lambda>_. 0)) t)"
      if "keeps ?s4 t" for t
      using that k4 fin keeps_trans by (metis keeps_def)
    moreover have "keeps s3 (upd_host (data_command_update (\<lambda>_. 0)) (gecko_msg m as s3))" for m as
      using g fin [OF hg] keeps_trans by blast
    ultimately have "keeps s3 s'" using tr by (metis (no_types, lifting))
    with s3(2) show ?thesis by (rule keeps_trans)
  qed
  with k1 k2 show ?thesis using keeps_trans by blast
qed

section \<open>Encoding of a command\<close>

lemma cmd_word_index: "drop_bit 8 (cmd_word cmd) = c_opcode cmd AND 0x3f"
proof -
  have "drop_bit 8 (push_bit 8 w :: u16) = w" if "w = x AND 0x3f" for w x :: u16
  proof -
    have m: "(0x3f :: u16) = mask 6" by (simp add: mask_eq_exp_minus_1)
    show ?thesis unfolding that m by (rule bit_word_eqI) (auto simp: bit_simps)
  qed
  moreover have "drop_bit 8 (w OR k) = drop_bit 8 (w :: u16)" if "drop_bit 8 k = 0" for w k
    using that by (simp add: drop_bit_or)
  ultimately show ?thesis by (simp add: cmd_word_def Let_def)
qed



text \<open>The limit of 512 blocks is checked after the count was cut to 16 bits.\<close>

lemma cmd_blocks_truncated:
  "cmd_blocks (zero_cmd\<lparr>c_datalen := 512 * 65537, c_blklen := 512\<rparr>) = Some (Some (512, 1))"
  by (simp add: cmd_blocks_def)

text \<open>Acknowledging normal interrupts writes the pending error bits back in the same 32-bit access.\<close>

lemma ack_rewrites_error_status:
  assumes "host_ok s"
  shows "writes sdhc_reg (HWRITE2 ev SDHC_NINTR_STATUS v s) = writes sdhc_reg s @
     [(0x0d070030, (ev (io_log s) 0x0d070030 AND NOT 0xFFFF) OR ucast v)]"
  using assms by (simp add: HWRITE2_def bus_space_write_2_def host_ok_def mask32_def access_unfold
      sdhc_reg_def) (simp add: read32_def Let_def)

end
