(* ===== verification/Sdmmc.thy ===== *)
theory Sdmmc
  imports SdhcCommand
begin

text \<open>
  \<^verbatim>\<open>armboot/storage/sdmmc.c\<close>: the SD card. Discovery powers the card up, negotiates and decodes its
  size; reads and writes are guarded by the card's state. Also \<^verbatim>\<open>sdhc_host_found\<close>, \<^verbatim>\<open>sdhc_init\<close> and
  \<^verbatim>\<open>sdhc_exit\<close> of \<^verbatim>\<open>sdhc.c\<close>, which attach the card to the host. The code has one card and one host,
  so the handle is only remembered as attached or not.
\<close>

section \<open>State\<close>

record sdmmc_card =
  attached :: bool
  inserted :: int
  sdhc_blockmode :: int
  selected :: int
  new_card :: int
  timeout :: u32
  num_sectors :: u32
  cid :: u32
  rca :: u16

definition zero_card :: sdmmc_card where
  "zero_card = \<lparr>attached = False, inserted = 0, sdhc_blockmode = 0, selected = 0, new_card = 0,
     timeout = 0, num_sectors = 0, cid = 0, rca = 0\<rparr>"

record card_st = irq_st +
  card :: sdmmc_card

definition upd_card :: "(sdmmc_card \<Rightarrow> sdmmc_card) \<Rightarrow> 'a card_st_scheme \<Rightarrow> 'a card_st_scheme" where
  "upd_card f s = s\<lparr>card := f (card s)\<rparr>"

abbreviation (input) "SCF_RSP_R0 \<equiv> 0 :: u32"
abbreviation (input) "SCF_RSP_R1 \<equiv> 0x1c00 :: u32"
abbreviation (input) "SCF_RSP_R1B \<equiv> 0x1d00 :: u32"
abbreviation (input) "SCF_RSP_R2 \<equiv> 0x1600 :: u32"
abbreviation (input) "SCF_RSP_R3 \<equiv> 0x1000 :: u32"
abbreviation (input) "SCF_RSP_R6 \<equiv> 0x1c00 :: u32"
abbreviation (input) "SCF_RSP_R7 \<equiv> 0x1c00 :: u32"
abbreviation (input) "MMC_OCR_MEM_READY \<equiv> 0x80000000 :: u32"
abbreviation (input) "SD_OCR_SDHC_CAP \<equiv> 0x40000000 :: u32"
abbreviation (input) "SDMMC_DEFAULT_BLOCKLEN \<equiv> 512 :: u32"
abbreviation (input) "SDMMC_DEFAULT_CLOCK \<equiv> 25000 :: u32"

definition mk_cmd :: "u16 \<Rightarrow> u32 \<Rightarrow> u32 \<Rightarrow> sdmmc_command" where
  "mk_cmd opcode arg flags = zero_cmd\<lparr>c_opcode := opcode, c_arg := arg, c_flags := flags\<rparr>"

section \<open>Selecting, status\<close>

definition sdmmc_abort :: "env \<Rightarrow> 'a card_st_scheme \<Rightarrow> 'a card_st_scheme option" where
  "sdmmc_abort ev s = do {
     let s = gecko_msg ''abortion kthx'' [] s;
     (cmd, s) \<leftarrow> sdhc_exec_command ev (mk_cmd 12 0 SCF_RSP_R1B) s;
     Some s }"

definition sdmmc_select :: "env \<Rightarrow> 'a card_st_scheme \<Rightarrow> (int \<times> 'a card_st_scheme) option" where
  "sdmmc_select ev s = do {
     (cmd, s) \<leftarrow> sdhc_exec_command ev (mk_cmd 7 (push_bit 16 (ucast (rca (card s)))) SCF_RSP_R1B) s;
     let s = gecko_msg ''%s: resp=%x'' [VStr (Some ''sdmmc_select''), VInt (MMC_R1 (c_resp cmd))] s;
     Some (if c_error cmd \<noteq> 0
           then (-1, gecko_msg ''sdmmc: MMC_SELECT card failed with %d.'' [VInt (word_of_int (c_error cmd))] s)
           else (0, upd_card (\<lambda>c. c\<lparr>selected := 1\<rparr>) s)) }"

datatype card_state = SDMMC_NO_CARD | SDMMC_NEW_CARD | SDMMC_INSERTED

definition sdmmc_check_card :: "'a card_st_scheme \<Rightarrow> card_state" where
  "sdmmc_check_card s =
    (if inserted (card s) = 0 then SDMMC_NO_CARD
     else if new_card (card s) = 1 then SDMMC_NEW_CARD else SDMMC_INSERTED)"

definition sdmmc_ack_card :: "'a card_st_scheme \<Rightarrow> int \<times> 'a card_st_scheme" where
  "sdmmc_ack_card s =
    (if new_card (card s) = 1 then (0, upd_card (\<lambda>c. c\<lparr>new_card := 0\<rparr>) s) else (-1, s))"

section \<open>Discovery\<close>

definition out_power :: "env \<Rightarrow> 'a card_st_scheme \<Rightarrow> 'a card_st_scheme" where
  "out_power ev s = snd (sdhc_bus_power ev 0 s)"

definition out_clock :: "env \<Rightarrow> 'a card_st_scheme \<Rightarrow> 'a card_st_scheme" where
  "out_clock ev s = out_power ev (snd (sdhc_bus_clock ev 0 s))"

text \<open>The loop that repeats \<^verbatim>\<open>SD_APP_OP_COND\<close>; it leaves with the last command executed.\<close>

fun op_cond_loop ::
  "env \<Rightarrow> u32 \<Rightarrow> nat \<Rightarrow> sdmmc_command \<Rightarrow> 'a card_st_scheme \<Rightarrow> (sdmmc_command \<times> 'a card_st_scheme) option" where
  "op_cond_loop ev o_cr 0 cmd s = Some (cmd, s)"
| "op_cond_loop ev o_cr (Suc tries) cmd s = do {
     let s = udelay_ev 100000 s;
     (cmd, s) \<leftarrow> sdhc_exec_command ev (mk_cmd 55 0 SCF_RSP_R1) s;
     if c_error cmd \<noteq> 0 then op_cond_loop ev o_cr tries cmd s
     else do {
       (cmd, s) \<leftarrow> sdhc_exec_command ev (mk_cmd 41 o_cr SCF_RSP_R3) s;
       if c_error cmd \<noteq> 0 then op_cond_loop ev o_cr tries cmd s
       else if MMC_R1 (c_resp cmd) AND MMC_OCR_MEM_READY \<noteq> 0 then Some (cmd, s)
       else op_cond_loop ev o_cr tries cmd s } }"

definition rb :: "u8 list \<Rightarrow> nat \<Rightarrow> u32" where
  "rb resp i = ucast (resp ! i)"

definition time_unit :: "u32 list" where
  "time_unit = [1, 10, 100, 1000, 10000, 100000, 1000000, 10000000]"

definition time_value :: "u32 list" where
  "time_value = [1, 10, 12, 13, 15, 20, 25, 30, 35, 40, 45, 50, 55, 60, 70, 80]"

text \<open>The card size and timeout from the CSD bytes, and the messages that report them.\<close>

definition csd_c_size :: "u8 list \<Rightarrow> u32" where
  "csd_c_size resp = push_bit 10 (rb resp 8 AND 3) OR push_bit 2 (rb resp 7) OR drop_bit 6 (rb resp 6)"

definition csd_c_size_mult :: "u8 list \<Rightarrow> u32" where
  "csd_c_size_mult resp = push_bit 1 (rb resp 5 AND 3) OR drop_bit 7 (rb resp 4)"

definition csd_v1_bytes :: "u8 list \<Rightarrow> u32" where
  "csd_v1_bytes resp = (csd_c_size resp + 1) * push_bit (unat (csd_c_size_mult resp)) 4
     * push_bit (unat (rb resp 9 AND 0xF)) 1"

definition decode_csd :: "u8 list \<Rightarrow> 'a card_st_scheme \<Rightarrow> 'a card_st_scheme" where
  "decode_csd resp s =
    (if resp ! 13 = 0xe then
       (let c_size = push_bit 16 (rb resp 7) OR push_bit 8 (rb resp 6) OR rb resp 5;
            s = gecko_msg ''sdmmc: sdhc mode, c_size=%u, card size = %uk'' [VInt c_size, VInt ((c_size + 1) * 512)] s
        in upd_card (\<lambda>c. c\<lparr>timeout := 250000000, num_sectors := (c_size + 1) * 1024\<rparr>) s)
     else
       (let taac = rb resp 13; nsac = rb resp 12; read_bl_len = rb resp 9 AND 0xF;
            s = gecko_msg ''taac=%u nsac=%u read_bl_len=%u c_size=%u c_size_mult=%u card size=%u bytes''
                  [VInt taac, VInt nsac, VInt read_bl_len, VInt (csd_c_size resp),
                   VInt (csd_c_size_mult resp), VInt (csd_v1_bytes resp)] s;
            tmo = time_unit ! unat (taac AND 7) * time_value ! unat (drop_bit 3 taac AND 0xf) div 10;
            s = upd_card (\<lambda>c. c\<lparr>timeout := tmo\<rparr>) s;
            s = gecko_msg ''calculated timeout =  %uns'' [VInt tmo] s
        in upd_card (\<lambda>c. c\<lparr>num_sectors := csd_v1_bytes resp div 512\<rparr>) s))"

definition cid_msg :: "u8 list \<Rightarrow> 'a mach_scheme \<Rightarrow> 'a mach_scheme" where
  "cid_msg resp s = gecko_msg
     ''CID: mid=%02x name='%c%c%c%c%c%c%c' prv=%d.%d psn=%02x%02x%02x%02x mdt=%d/%d''
     [VInt (rb resp 14), VInt (rb resp 13), VInt (rb resp 12), VInt (rb resp 11), VInt (rb resp 10),
      VInt (rb resp 9), VInt (rb resp 8), VInt (rb resp 7), VInt (rb resp 6),
      VInt (drop_bit 4 (rb resp 5)), VInt (rb resp 5 AND 0xf), VInt (rb resp 4), VInt (rb resp 3),
      VInt (rb resp 2), VInt (rb resp 0 AND 0xf), VInt (2000 + drop_bit 4 (rb resp 0))] s"

text \<open>The dump of the sixteen CSD bytes, last byte first.\<close>

fun csd_dump :: "nat \<Rightarrow> u8 list \<Rightarrow> 'a mach_scheme \<Rightarrow> 'a mach_scheme" where
  "csd_dump 0 resp s = gecko_msg '''' [] s"
| "csd_dump (Suc i) resp s = csd_dump i resp (gecko_msg ''%02x '' [VInt (rb resp i)] s)"

text \<open>From the card's identification on: everything after the power-up negotiation.\<close>

definition discover_identify :: "env \<Rightarrow> 'a card_st_scheme \<Rightarrow> 'a card_st_scheme option" where
  "discover_identify ev s = do {
     (cmd, s) \<leftarrow> sdhc_exec_command ev (mk_cmd 2 0 SCF_RSP_R2) s;
     if c_error cmd \<noteq> 0
     then Some (out_clock ev (gecko_msg ''sdmmc: MMC_ALL_SEND_CID failed with %d'' [VInt (word_of_int (c_error cmd))] s))
     else do {
       let s = upd_card (\<lambda>c. c\<lparr>cid := MMC_R1 (c_resp cmd)\<rparr>) s;
       let s = cid_msg (c_resp cmd) s;
       (cmd, s) \<leftarrow> sdhc_exec_command ev (mk_cmd 3 0 SCF_RSP_R6) s;
       if c_error cmd \<noteq> 0
       then Some (out_clock ev (gecko_msg ''sdmmc: SD_SEND_RCA failed with %d'' [VInt (word_of_int (c_error cmd))] s))
       else do {
         let s = upd_card (\<lambda>c. c\<lparr>rca := ucast (drop_bit 16 (MMC_R1 (c_resp cmd))), selected := 0, inserted := 1\<rparr>) s;
         (cmd, s) \<leftarrow> sdhc_exec_command ev (mk_cmd 9 (push_bit 16 (ucast (rca (card s)))) SCF_RSP_R2) s;
         if c_error cmd \<noteq> 0
         then Some (out_power ev (gecko_msg ''sdmmc: MMC_SEND_CSD failed with %d'' [VInt (word_of_int (c_error cmd))] s))
         else do {
           let s = csd_dump 16 (c_resp cmd) (gecko_msg ''csd: '' [] s);
           let s = decode_csd (c_resp cmd) s;
           (_, s) \<leftarrow> sdmmc_select ev s;
           (cmd, s) \<leftarrow> sdhc_exec_command ev (mk_cmd 16 SDMMC_DEFAULT_BLOCKLEN SCF_RSP_R1) s;
           Some (if c_error cmd \<noteq> 0
             then (let s = gecko_msg ''sdmmc: MMC_SET_BLOCKLEN failed with %d'' [VInt (word_of_int (c_error cmd))] s;
                       s = upd_card (\<lambda>c. c\<lparr>inserted := 0, selected := 0\<rparr>) s
                   in out_clock ev s)
             else s) } } } }"

definition sdmmc_needs_discover :: "env \<Rightarrow> 'a card_st_scheme \<Rightarrow> 'a card_st_scheme option" where
  "sdmmc_needs_discover ev s = do {
     let s = snd (sdhc_host_reset ev s);
     let s = upd_card (\<lambda>c. c\<lparr>new_card := 1\<rparr>) s;
     let (present, s) = sdhc_card_detect ev s;
     if \<not> present then Some (upd_card (\<lambda>c. c\<lparr>inserted := 0\<rparr>) s)
     else do {
       let (r, s) = sdhc_bus_power ev 1 s;
       if r \<noteq> 0 then Some (gecko_msg ''sdmmc: powerup failed for card'' [] s)
       else do {
         let (r, s) = sdhc_bus_clock ev SDMMC_DEFAULT_CLOCK s;
         if r \<noteq> 0 then Some (out_power ev (gecko_msg ''sdmmc: could not enable clock for card'' [] s))
         else do {
           (cmd, s) \<leftarrow> sdhc_exec_command ev (mk_cmd 0 0 SCF_RSP_R0) s;
           if c_error cmd \<noteq> 0
           then Some (out_clock ev (gecko_msg ''sdmmc: GO_IDLE_STATE failed with %d'' [VInt (word_of_int (c_error cmd))] s))
           else do {
             (cmd, s) \<leftarrow> sdhc_exec_command ev ((mk_cmd 8 0x1aa SCF_RSP_R7)\<lparr>c_timeout := 100\<rparr>) s;
             let o_cr = ocr (sc_host s);
             let o_cr = (if c_error cmd \<noteq> 0 \<or> MMC_R1 (c_resp cmd) AND 0xff \<noteq> 0xaa
                        then o_cr AND NOT SD_OCR_SDHC_CAP else o_cr OR SD_OCR_SDHC_CAP);
             (cmd, s) \<leftarrow> op_cond_loop ev o_cr 100 cmd s;
             if MMC_R1 (c_resp cmd) AND MMC_OCR_MEM_READY = 0
             then Some (out_power ev (gecko_msg ''sdmmc: card failed to powerup.'' [] s))
             else do {
               let s = upd_card (\<lambda>c. c\<lparr>sdhc_blockmode :=
                  (if MMC_R1 (c_resp cmd) AND SD_OCR_SDHC_CAP \<noteq> 0 then 1 else 0)\<rparr>) s;
               discover_identify ev s } } } } } }"

definition sdmmc_attach :: "env \<Rightarrow> 'a card_st_scheme \<Rightarrow> 'a card_st_scheme option" where
  "sdmmc_attach ev s = do {
     let s = upd_card (\<lambda>_. zero_card\<lparr>attached := True\<rparr>) s;
     let s = snd (sdhc_host_reset ev s);
     let (present, s) = sdhc_card_detect ev s;
     if present then sdmmc_needs_discover ev s else Some s }"

section \<open>Attaching the host\<close>

definition SDHC_BASE_FREQ_KHZ :: "u32 \<Rightarrow> u32" where
  "SDHC_BASE_FREQ_KHZ cap = (drop_bit 8 cap AND 0x3f) * 1000"

definition sdhc_host_found :: "env \<Rightarrow> u32 \<Rightarrow> u32 \<Rightarrow> bool \<Rightarrow> 'a card_st_scheme \<Rightarrow> (int \<times> 'a card_st_scheme) option" where
  "sdhc_host_found ev tag h usedma s = do {
     let s = upd_host (\<lambda>_. zero_host\<lparr>iot := tag, ioh := h, data_command := 0\<rparr>) s;
     let s = snd (sdhc_host_reset ev s);
     let (caps, s) = HREAD4 ev SDHC_CAPABILITIES s;
     let s = (if usedma \<and> caps AND 0x400000 \<noteq> 0
              then upd_host (\<lambda>h. h\<lparr>hflags := hflags h OR SHF_USE_DMA\<rparr>) s else s);
     let s = (if SDHC_BASE_FREQ_KHZ caps \<noteq> 0
              then upd_host (\<lambda>h. h\<lparr>clkbase := SDHC_BASE_FREQ_KHZ caps\<rparr>) s else s);
     if clkbase (sc_host s) = 0
     then Some (1, gecko_msg ''sdhc: base clock frequency unknown'' [] s)
     else if clkbase (sc_host s) < 10000 \<or> clkbase (sc_host s) > 63000
     then Some (1, gecko_msg ''sdhc: base clock frequency out of range: %u MHz''
                [VInt (clkbase (sc_host s) div 1000)] s)
     else do {
       let s = upd_host (\<lambda>h. h\<lparr>ocr := ocr h OR 0x300000\<rparr>) s;
       s \<leftarrow> sdmmc_attach ev s;
       Some (0, s) } }"

definition sdhc_init :: "env \<Rightarrow> 'a card_st_scheme \<Rightarrow> 'a card_st_scheme option" where
  "sdhc_init ev s = do {
     let s = irq_enable ev IRQ_SDHC s;
     (_, s) \<leftarrow> sdhc_host_found ev 0 SDHC_REG_BASE True s;
     Some s }"

definition sdhc_exit :: "env \<Rightarrow> 'a card_st_scheme \<Rightarrow> 'a card_st_scheme" where
  "sdhc_exit ev s = sdhc_shutdown ev (irq_disable ev IRQ_SDHC s)"

section \<open>Reading and writing\<close>

text \<open>The data command both directions build.\<close>

definition rw_command :: "u16 \<Rightarrow> u32 \<Rightarrow> u32 \<Rightarrow> u32 \<Rightarrow> u32 \<Rightarrow> sdmmc_card \<Rightarrow> sdmmc_command" where
  "rw_command opcode flags blk_start blk_count data c = zero_cmd\<lparr>c_opcode := opcode,
     c_arg := (if sdhc_blockmode c \<noteq> 0 then blk_start else blk_start * SDMMC_DEFAULT_BLOCKLEN),
     c_data := data, c_datalen := sint (blk_count * SDMMC_DEFAULT_BLOCKLEN), c_blklen := 512, c_flags := flags\<rparr>"

definition sdmmc_read :: "env \<Rightarrow> u32 \<Rightarrow> u32 \<Rightarrow> u32 \<Rightarrow> 'a card_st_scheme \<Rightarrow> (int \<times> 'a card_st_scheme) option" where
  "sdmmc_read ev blk_start blk_count data s =
    (if inserted (card s) = 0 then Some (-1, gecko_msg ''sdmmc: READ: no card inserted.'' [] s)
     else do {
       (r, s) \<leftarrow> (if selected (card s) = 0 then sdmmc_select ev s else Some (0, s));
       if r < 0 then Some (-1, gecko_msg ''sdmmc: READ: cannot select card.'' [] s)
       else if new_card (card s) = 1
       then Some (-1, gecko_msg ''sdmmc: new card inserted but not acknowledged yet.'' [] s)
       else do {
         (cmd, s) \<leftarrow> sdhc_exec_command ev
            (rw_command 18 (SCF_RSP_R1 OR SCF_CMD_READ) blk_start blk_count data (card s)) s;
         Some (if c_error cmd \<noteq> 0
               then (-1, gecko_msg ''sdmmc: MMC_READ_BLOCK_MULTIPLE failed with %d'' [VInt (word_of_int (c_error cmd))] s)
               else (0, s)) } })"

definition sdmmc_write :: "env \<Rightarrow> u32 \<Rightarrow> u32 \<Rightarrow> u32 \<Rightarrow> 'a card_st_scheme \<Rightarrow> (int \<times> 'a card_st_scheme) option" where
  "sdmmc_write ev blk_start blk_count data s =
    (if inserted (card s) = 0 then Some (-1, gecko_msg ''sdmmc: READ: no card inserted.'' [] s)
     else do {
       (r, s) \<leftarrow> (if selected (card s) = 0 then sdmmc_select ev s else Some (0, s));
       if r < 0 then Some (-1, gecko_msg ''sdmmc: READ: cannot select card.'' [] s)
       else if new_card (card s) = 1
       then Some (-1, gecko_msg ''sdmmc: new card inserted but not acknowledged yet.'' [] s)
       else do {
         (cmd, s) \<leftarrow> sdhc_exec_command ev
            (rw_command 25 SCF_RSP_R1 blk_start blk_count data (card s)) s;
         Some (if c_error cmd \<noteq> 0
               then (-1, gecko_msg ''sdmmc: MMC_READ_BLOCK_MULTIPLE failed with %d'' [VInt (word_of_int (c_error cmd))] s)
               else (0, s)) } })"

definition sdmmc_get_sectors :: "'a card_st_scheme \<Rightarrow> int \<times> 'a card_st_scheme" where
  "sdmmc_get_sectors s =
    (if inserted (card s) = 0 then (-1, gecko_msg ''sdmmc: READ: no card inserted.'' [] s)
     else if new_card (card s) = 1
     then (-1, gecko_msg ''sdmmc: new card inserted but not acknowledged yet.'' [] s)
     else (sint (num_sectors (card s)), s))"

section \<open>Discovery returns\<close>

lemma mk_cmd_fields [simp]:
  "c_datalen (mk_cmd op a f) = 0" "c_error (mk_cmd op a f) = 0" "length (c_resp (mk_cmd op a f)) = 16"
  by (simp_all add: mk_cmd_def zero_cmd_def)

lemma keeps_card: "keeps s s' \<Longrightarrow> card s' = card s \<and> host_ok s'" for s :: "'a card_st_scheme"
  by (cases s; cases s') (simp add: keeps_def settled_def)

lemma exec_mk_cmd:
  assumes "host_ok s"
  shows "\<exists>cmd s'. sdhc_exec_command ev (mk_cmd op a f) s = Some (cmd, s') \<and> keeps s s'
     \<and> length (c_resp cmd) = 16"
  using sdhc_exec_nodata [OF assms, of "mk_cmd op a f" ev] by auto

lemma host_functions_frame:
  assumes "sd_frame s t" "host_ok s"
  shows "sd_frame s (snd (sdhc_bus_power ev o_cr t))" "sd_frame s (snd (sdhc_bus_clock ev f t))"
    "sd_frame s (snd (sdhc_card_detect ev t))"
proof -
  have st: "sd_frame s (snd (clock_stable_loop ev n u))" if "sd_frame s u" for n u
    using that
  proof (induction n arbitrary: u)
    case (Suc n)
    have "sd_frame s (snd (HREAD2 ev SDHC_CLOCK_CTL u))" using Suc.prems assms by (intro sd_intro) simp_all
    moreover from this have "sd_frame s (udelay_ev 10 (snd (HREAD2 ev SDHC_CLOCK_CTL u)))"
      using assms(2) by (rule sd_frame_access(7))
    ultimately show ?case using Suc.IH by (simp add: access_unfold)
  qed simp
  show "sd_frame s (snd (sdhc_bus_power ev o_cr t))" "sd_frame s (snd (sdhc_bus_clock ev f t))"
    "sd_frame s (snd (sdhc_card_detect ev t))"
    using assms by (auto simp: sdhc_bus_power_def sdhc_bus_clock_def sdhc_card_detect_def access_unfold
        intro!: sd_intro st)
qed

text \<open>\<open>dkeeps s s'\<close>: the driver state is kept up to the card's record, whose \<open>new_card\<close> stays.\<close>

definition dkeeps :: "'a card_st_scheme \<Rightarrow> 'a card_st_scheme \<Rightarrow> bool" where
  "dkeeps s s' \<longleftrightarrow> host_ok s' \<and> cpsr s' = cpsr s \<and> initialized s' = initialized s
     \<and> new_card (card s') = new_card (card s)
     \<and> hflags (sc_host s') = hflags (sc_host s) \<and> card_st.more s' = card_st.more s"

lemma dkeeps_trans [trans]: "dkeeps s t \<Longrightarrow> dkeeps t u \<Longrightarrow> dkeeps s u"
  by (simp add: dkeeps_def)

lemma keeps_dkeeps: "keeps s s' \<Longrightarrow> dkeeps s s'"
  by (cases s; cases s') (simp add: keeps_def dkeeps_def settled_def)

lemma dkeeps_host: "dkeeps s s' \<Longrightarrow> host_ok s'"
  by (simp add: dkeeps_def)

lemma dkeeps_refl: "host_ok s \<Longrightarrow> dkeeps s s"
  by (simp add: dkeeps_def)

lemma sd_frame_dkeeps: "sd_frame s s' \<Longrightarrow> host_ok s \<Longrightarrow> dkeeps s s'"
  by (rule keeps_dkeeps [OF sd_frame_keeps])

named_theorems dk_intro

lemma dkeeps_steps [dk_intro]:
  assumes "dkeeps s t"
  shows "dkeeps s (gecko_msg m as t)" "dkeeps s (udelay_ev d t)" "dkeeps s (out_power ev t)"
    "dkeeps s (out_clock ev t)" "dkeeps s (snd (sdhc_bus_power ev o_cr t))"
    "dkeeps s (snd (sdhc_bus_clock ev f t))" "dkeeps s (snd (sdhc_card_detect ev t))"
    "dkeeps s (snd (sdhc_host_reset ev t))"
proof -
  have h: "host_ok t" using assms by (rule dkeeps_host)
  note go = dkeeps_trans [OF assms sd_frame_dkeeps [OF _ h]]
  have p: "dkeeps s (snd (sdhc_bus_power ev o_cr u))" if "dkeeps s u" for o_cr u
    using dkeeps_trans [OF that sd_frame_dkeeps [OF host_functions_frame(1) [OF sd_frame_refl dkeeps_host [OF that]] dkeeps_host [OF that]]] .
  show "dkeeps s (gecko_msg m as t)" "dkeeps s (udelay_ev d t)" "dkeeps s (snd (sdhc_bus_power ev o_cr t))"
    "dkeeps s (snd (sdhc_card_detect ev t))" "dkeeps s (snd (sdhc_host_reset ev t))"
    by (rule go, (rule sd_intro host_functions_frame)?; (rule sd_frame_refl h)?)+
  show c: "dkeeps s (snd (sdhc_bus_clock ev f t))" for f
    by (rule go, rule host_functions_frame [OF sd_frame_refl h])
  show "dkeeps s (out_power ev t)" unfolding out_power_def by (rule p [OF assms])
  show "dkeeps s (out_clock ev t)" unfolding out_clock_def out_power_def by (rule p [OF c])
qed

lemma dkeeps_card [dk_intro]:
  assumes "dkeeps s t" "\<And>c. new_card (g c) = new_card c"
  shows "dkeeps s (upd_card g t)"
  using assms by (simp add: dkeeps_def upd_card_def host_ok_def)

lemma csd_dump_dkeeps [dk_intro]: "dkeeps s t \<Longrightarrow> dkeeps s (csd_dump n resp t)"
proof (induction n arbitrary: t)
  case 0
  then show ?case by (simp add: dk_intro)
next
  case (Suc n)
  from Suc.IH [OF dkeeps_steps(1) [OF Suc.prems]] show ?case by simp
qed

lemma decode_csd_dkeeps [dk_intro]: "dkeeps s t \<Longrightarrow> dkeeps s (decode_csd resp t)"
  by (auto simp: decode_csd_def Let_def intro!: dk_intro)

lemma cid_msg_dkeeps [dk_intro]: "dkeeps s t \<Longrightarrow> dkeeps s (cid_msg resp t)"
  by (simp add: cid_msg_def dk_intro)

lemma exec_dkeeps:
  assumes "dkeeps s t"
  obtains cmd t' where "sdhc_exec_command ev (mk_cmd op a f) t = Some (cmd, t')" "dkeeps s t'"
  using exec_mk_cmd [OF dkeeps_host [OF assms], of ev op a f] dkeeps_trans [OF assms keeps_dkeeps] by blast

lemma sdmmc_select_dkeeps:
  assumes "dkeeps s t"
  shows "\<exists>r t'. sdmmc_select ev t = Some (r, t') \<and> dkeeps s t'"
proof -
  obtain cmd u where u: "sdhc_exec_command ev (mk_cmd 7 (push_bit 16 (ucast (rca (card t)))) SCF_RSP_R1B) t = Some (cmd, u)"
    "dkeeps s u" using exec_dkeeps [OF assms] by blast
  then show ?thesis by (auto simp: sdmmc_select_def Let_def intro!: dk_intro)
qed

lemma op_cond_loop_dkeeps:
  "dkeeps s t \<Longrightarrow> \<exists>cmd' t'. op_cond_loop ev o_cr n cmd t = Some (cmd', t') \<and> dkeeps s t'"
proof (induction n arbitrary: cmd t)
  case 0
  then show ?case by simp
next
  case (Suc n)
  have "dkeeps s (udelay_ev 100000 t)" using Suc.prems by (rule dkeeps_steps)
  then obtain c1 t1 where 1: "sdhc_exec_command ev (mk_cmd 55 0 SCF_RSP_R1) (udelay_ev 100000 t) = Some (c1, t1)"
    "dkeeps s t1" using exec_dkeeps by blast
  obtain c2 t2 where 2: "sdhc_exec_command ev (mk_cmd 41 o_cr SCF_RSP_R3) t1 = Some (c2, t2)" "dkeeps s t2"
    using exec_dkeeps [OF 1(2)] by blast
  show ?case using 1 2 Suc.IH [OF 1(2), of c1] Suc.IH [OF 2(2), of c2] by (auto simp: Let_def)
qed

lemma discover_identify_dkeeps:
  assumes "dkeeps s t"
  shows "\<exists>t'. discover_identify ev t = Some t' \<and> dkeeps s t'"
proof -
  obtain c1 t1 where 1: "sdhc_exec_command ev (mk_cmd 2 0 SCF_RSP_R2) t = Some (c1, t1)" "dkeeps s t1"
    using exec_dkeeps [OF assms] by blast
  let ?t1 = "cid_msg (c_resp c1) (upd_card (\<lambda>c. c\<lparr>cid := MMC_R1 (c_resp c1)\<rparr>) t1)"
  have "dkeeps s ?t1" using 1(2) by (intro dk_intro) simp_all
  then obtain c2 t2 where 2: "sdhc_exec_command ev (mk_cmd 3 0 SCF_RSP_R6) ?t1 = Some (c2, t2)" "dkeeps s t2"
    using exec_dkeeps by blast
  let ?t2 = "upd_card (\<lambda>c. c\<lparr>rca := ucast (drop_bit 16 (MMC_R1 (c_resp c2))), selected := 0, inserted := 1\<rparr>) t2"
  have "dkeeps s ?t2" using 2(2) by (intro dk_intro) simp_all
  then obtain c3 t3 where 3: "sdhc_exec_command ev (mk_cmd 9 (push_bit 16 (ucast (rca (card ?t2)))) SCF_RSP_R2) ?t2 = Some (c3, t3)"
    "dkeeps s t3" using exec_dkeeps by blast
  let ?t3 = "decode_csd (c_resp c3) (csd_dump 16 (c_resp c3) (gecko_msg ''csd: '' [] t3))"
  have "dkeeps s ?t3" using 3(2) by (intro dk_intro)
  then obtain r t4 where 4: "sdmmc_select ev ?t3 = Some (r, t4)" "dkeeps s t4"
    using sdmmc_select_dkeeps by blast
  obtain c5 t5 where 5: "sdhc_exec_command ev (mk_cmd 16 SDMMC_DEFAULT_BLOCKLEN SCF_RSP_R1) t4 = Some (c5, t5)" "dkeeps s t5"
    using exec_dkeeps [OF 4(2)] by blast
  show ?thesis
    using 1 2 3 4 5 by (auto simp: discover_identify_def Let_def intro!: dk_intro)
qed

lemma sdmmc_needs_discover_dkeeps:
  assumes "host_ok s"
  shows "\<exists>s'. sdmmc_needs_discover ev s = Some s' \<and> dkeeps (upd_card (\<lambda>c. c\<lparr>new_card := 1\<rparr>) s) s'"
proof -
  let ?s = "upd_card (\<lambda>c. c\<lparr>new_card := 1\<rparr>) s"
  let ?s1 = "upd_card (\<lambda>c. c\<lparr>new_card := 1\<rparr>) (snd (sdhc_host_reset ev s))"
  have "dkeeps s (snd (sdhc_host_reset ev s))" using assms by (intro dk_intro dkeeps_refl)
  then have k1: "dkeeps ?s ?s1" by (simp add: dkeeps_def upd_card_def host_ok_def)
  let ?s2 = "snd (sdhc_card_detect ev ?s1)"
  have k2: "dkeeps ?s ?s2" using k1 by (rule dk_intro)
  let ?s3 = "snd (sdhc_bus_power ev 1 ?s2)"
  have k3: "dkeeps ?s ?s3" using k2 by (rule dk_intro)
  let ?s4 = "snd (sdhc_bus_clock ev SDMMC_DEFAULT_CLOCK ?s3)"
  have k4: "dkeeps ?s ?s4" using k3 by (rule dk_intro)
  obtain c5 s5 where 5: "sdhc_exec_command ev (mk_cmd 0 0 SCF_RSP_R0) ?s4 = Some (c5, s5)" "dkeeps ?s s5"
    using exec_dkeeps [OF k4] by blast
  obtain c6 s6 where 6: "sdhc_exec_command ev ((mk_cmd 8 0x1aa SCF_RSP_R7)\<lparr>c_timeout := 100\<rparr>) s5 = Some (c6, s6)" "dkeeps ?s s6"
    using sdhc_exec_nodata [OF dkeeps_host [OF 5(2)], of "(mk_cmd 8 0x1aa SCF_RSP_R7)\<lparr>c_timeout := 100\<rparr>" ev]
      dkeeps_trans [OF 5(2) keeps_dkeeps] by auto
  define o_cr where "o_cr = (if c_error c6 \<noteq> 0 \<or> MMC_R1 (c_resp c6) AND 0xff \<noteq> 0xaa
     then ocr (sc_host s6) AND NOT SD_OCR_SDHC_CAP else ocr (sc_host s6) OR SD_OCR_SDHC_CAP)"
  obtain c7 s7 where 7: "op_cond_loop ev o_cr 100 c6 s6 = Some (c7, s7)" "dkeeps ?s s7"
    using op_cond_loop_dkeeps [OF 6(2)] by blast
  let ?s8 = "upd_card (\<lambda>c. c\<lparr>sdhc_blockmode := (if MMC_R1 (c_resp c7) AND SD_OCR_SDHC_CAP \<noteq> 0 then 1 else 0)\<rparr>) s7"
  have "dkeeps ?s ?s8" using 7(2) by (intro dk_intro) simp_all
  then obtain s9 where 9: "discover_identify ev ?s8 = Some s9" "dkeeps ?s s9"
    using discover_identify_dkeeps by blast
  define res where "res = (if \<not> fst (sdhc_card_detect ev ?s1) then upd_card (\<lambda>c. c\<lparr>inserted := 0\<rparr>) ?s2
     else if fst (sdhc_bus_power ev 1 ?s2) \<noteq> 0 then gecko_msg ''sdmmc: powerup failed for card'' [] ?s3
     else if fst (sdhc_bus_clock ev SDMMC_DEFAULT_CLOCK ?s3) \<noteq> 0
     then out_power ev (gecko_msg ''sdmmc: could not enable clock for card'' [] ?s4)
     else if c_error c5 \<noteq> 0
     then out_clock ev (gecko_msg ''sdmmc: GO_IDLE_STATE failed with %d'' [VInt (word_of_int (c_error c5))] s5)
     else if MMC_R1 (c_resp c7) AND MMC_OCR_MEM_READY = 0
     then out_power ev (gecko_msg ''sdmmc: card failed to powerup.'' [] s7) else s9)"
  have "sdmmc_needs_discover ev s = Some res"
    using 5(1) 6(1) 7(1) 9(1)
    by (simp add: sdmmc_needs_discover_def access_unfold res_def o_cr_def)
  moreover have "dkeeps ?s (upd_card (\<lambda>c. c\<lparr>inserted := 0\<rparr>) ?s2)" using k2 by (rule dkeeps_card) simp
  then have "dkeeps ?s res"
    unfolding res_def using dkeeps_steps(1) [OF k3] dkeeps_steps(3) [OF dkeeps_steps(1) [OF k4]]
      dkeeps_steps(4) [OF dkeeps_steps(1) [OF 5(2)]] dkeeps_steps(3) [OF dkeeps_steps(1) [OF 7(2)]] 9(2)
    by presburger
  ultimately show ?thesis by blast
qed

text \<open>
  Card discovery always returns, whatever the controller and the card do, and leaves a card that
  still has to be acknowledged; with no card in the slot it reports none. The interrupt mask and the
  state of other components are as before.
\<close>

theorem sdmmc_needs_discover_total:
  assumes "host_ok s"
  shows "\<exists>s'. sdmmc_needs_discover ev s = Some s' \<and> host_ok s' \<and> cpsr s' = cpsr s
    \<and> card_st.more s' = card_st.more s \<and> new_card (card s') = 1
    \<and> sdmmc_check_card s' \<noteq> SDMMC_INSERTED
    \<and> (\<not> fst (sdhc_card_detect ev (upd_card (\<lambda>c. c\<lparr>new_card := 1\<rparr>) (snd (sdhc_host_reset ev s))))
        \<longrightarrow> sdmmc_check_card s' = SDMMC_NO_CARD)"
proof -
  obtain s' where s': "sdmmc_needs_discover ev s = Some s'"
    "dkeeps (upd_card (\<lambda>c. c\<lparr>new_card := 1\<rparr>) s) s'"
    using sdmmc_needs_discover_dkeeps [OF assms] by blast
  have "inserted (card s') = 0"
    if "\<not> fst (sdhc_card_detect ev (upd_card (\<lambda>c. c\<lparr>new_card := 1\<rparr>) (snd (sdhc_host_reset ev s))))"
    using s'(1) that by (auto simp: sdmmc_needs_discover_def access_unfold upd_card_def)
  with s' show ?thesis by (auto simp: dkeeps_def upd_card_def sdmmc_check_card_def)
qed

definition card_reset_st :: card_st where
  "card_reset_st = \<lparr>io_log = [], cpsr = 0x53, cp_cr = 0, cp_ttbr = 0, cp_dacr = 0,
     page_table = [], initialized = 0, irq_flag = 0, last_page_read = 0,
     sc_host = zero_host\<lparr>ioh := SDHC_REG_BASE\<rparr>, alarm_frequency = 0, card = zero_card\<rparr>"

theorem sdmmc_needs_discover_total_witness:
  "\<exists>s'. sdmmc_needs_discover (\<lambda>l a. 0) card_reset_st = Some s' \<and> sdmmc_check_card s' \<noteq> SDMMC_INSERTED"
proof -
  have "host_ok card_reset_st" by (simp add: card_reset_st_def host_ok_def)
  from sdmmc_needs_discover_total [OF this] show ?thesis by blast
qed

section \<open>Guards of reading and writing\<close>



section \<open>Size of the card\<close>

lemma of_nat_unat_word: "of_nat (unat w) = (w :: u32)"
  by simp

lemma unat_rb: "unat (rb resp i) = unat (resp ! i)" and rb_less: "unat (rb resp i) < 256"
proof -
  have b: "unat (resp ! i) < 2 ^ 8" by (rule less_le_trans [OF unsigned_less]) simp
  then have "unat (resp ! i) < 2 ^ 32" by (rule less_le_trans) simp
  then show e: "unat (rb resp i) = unat (resp ! i)"
    by (simp add: rb_def unsigned_ucast_eq take_bit_nat_eq_self)
  show "unat (rb resp i) < 256" using b by (simp add: e)
qed

lemma rb_bit: "bit (rb resp i) n \<Longrightarrow> n < 8"
  by (auto simp: rb_def bit_simps dest: bit_imp_le_length)

text \<open>The fields of the CSD as numbers.\<close>

definition csd_size_field :: "u8 list \<Rightarrow> nat" where
  "csd_size_field resp = 1024 * (unat (resp ! 8) mod 4) + 4 * unat (resp ! 7) + unat (resp ! 6) div 64"

definition csd_mult_field :: "u8 list \<Rightarrow> nat" where
  "csd_mult_field resp = 2 * (unat (resp ! 5) mod 4) + unat (resp ! 4) div 128"

lemma and_low: "unat (rb resp i AND 3) = unat (resp ! i) mod 4" "unat (rb resp i AND 0xF) = unat (resp ! i) mod 16"
  using unat_and_mask [of "rb resp i" 2] unat_and_mask [of "rb resp i" 4]
  by (simp_all add: mask_eq_exp_minus_1 unat_rb)

lemma unat_drop_rb: "unat (drop_bit k (rb resp i)) = unat (resp ! i) div 2 ^ k"
  by (subst unat_drop_bit_eq) (simp add: drop_bit_eq_div unat_rb)

lemma unat_push:
  assumes "unat w * 2 ^ k < 2 ^ 32"
  shows "unat (push_bit k w :: u32) = unat w * 2 ^ k"
proof -
  have "unat (push_bit k w) = take_bit 32 (push_bit k (unat w))" by (simp add: unsigned_push_bit_eq)
  then show ?thesis using assms by (simp add: push_bit_eq_mult take_bit_nat_eq_self)
qed

lemma or_disjoint:
  fixes a b :: u32
  assumes "a AND b = 0" "unat a + unat b < 4294967296"
  shows "unat (a OR b) = unat a + unat b"
proof -
  have "a OR b = a + b" using assms(1) by (simp add: disjunctive_add_eq_or)
  then show ?thesis using assms(2) by (simp add: unat_word_ariths)
qed

lemma unat_csd_c_size: "unat (csd_c_size resp) = csd_size_field resp"
proof -
  let ?a = "push_bit 10 (rb resp 8 AND 3)" and ?b = "push_bit 2 (rb resp 7)" and ?c = "drop_bit 6 (rb resp 6)"
  have a: "unat ?a = 1024 * (unat (resp ! 8) mod 4)" by (subst unat_push) (simp_all add: and_low)
  have b: "unat ?b = 4 * unat (resp ! 7)"
    using rb_less [of resp 7] by (subst unat_push) (simp_all add: unat_rb)
  have c: "unat ?c = unat (resp ! 6) div 64" by (simp only: unat_drop_rb) simp
  have lt: "unat (resp ! 8) mod 4 < 4" "unat (resp ! 7) < 256" "unat (resp ! 6) div 64 < 4"
    using rb_less [of resp 7] rb_less [of resp 6] by (simp_all add: unat_rb)
  have d1: "?a AND ?b = 0" "(?a OR ?b) AND ?c = 0"
    by (rule bit_word_eqI; auto simp: bit_simps dest: rb_bit)+
  have "unat (?a OR ?b) = unat ?a + unat ?b" using lt a b by (intro or_disjoint d1) linarith
  moreover have "unat ((?a OR ?b) OR ?c) = unat (?a OR ?b) + unat ?c"
    using lt a b c calculation by (intro or_disjoint d1) linarith
  ultimately show ?thesis unfolding csd_c_size_def csd_size_field_def a b c or.assoc by linarith
qed

lemma unat_csd_c_size_mult: "unat (csd_c_size_mult resp) = csd_mult_field resp"
proof -
  let ?a = "push_bit 1 (rb resp 5 AND 3)" and ?b = "drop_bit 7 (rb resp 4)"
  have a: "unat ?a = 2 * (unat (resp ! 5) mod 4)" by (subst unat_push) (simp_all add: and_low)
  have b: "unat ?b = unat (resp ! 4) div 128" by (simp only: unat_drop_rb) simp
  have "?a AND ?b = 0" by (rule bit_word_eqI) (auto simp: bit_simps dest: rb_bit)
  moreover have "unat (resp ! 5) mod 4 < 4" "unat (resp ! 4) div 128 < 2"
    using rb_less [of resp 4] by (simp_all add: unat_rb)
  ultimately have "unat (?a OR ?b) = unat ?a + unat ?b" using a b by (intro or_disjoint) linarith+
  then show ?thesis unfolding csd_c_size_mult_def csd_mult_field_def a b .
qed

text \<open>
  The number of 512-byte sectors decoded from a standard-capacity CSD with blocks of at most
  1024 bytes (cards up to 2 GiB) is exactly the capacity formula of the specification,
  \<open>(C_SIZE + 1) * 2^(C_SIZE_MULT + 2) * 2^READ_BL_LEN / 512\<close>, with no overflow; for a high-capacity
  CSD (cards below 2 TiB) it is \<open>(C_SIZE + 1) * 1024\<close>.
\<close>

theorem decode_csd_capacity:
  assumes "if resp ! 13 = 0xe then unat (resp ! 7) < 63 else unat (resp ! 9) mod 16 \<le> 10"
  shows "unat (num_sectors (card (decode_csd resp s))) =
    (if resp ! 13 = 0xe
     then (unat (resp ! 7) * 65536 + unat (resp ! 6) * 256 + unat (resp ! 5) + 1) * 1024
     else (csd_size_field resp + 1) * 2 ^ (csd_mult_field resp + 2) * 2 ^ (unat (resp ! 9) mod 16) div 512)"
proof (cases "resp ! 13 = 0xe")
  case True
  let ?a = "push_bit 16 (rb resp 7)" and ?b = "push_bit 8 (rb resp 6)" and ?c = "rb resp 5"
  have lt: "unat (resp ! 7) < 63" "unat (resp ! 6) < 256" "unat (resp ! 5) < 256"
    using assms True rb_less [of resp 6] rb_less [of resp 5] by (simp_all add: unat_rb)
  have a: "unat ?a = unat (resp ! 7) * 65536" "unat ?b = unat (resp ! 6) * 256"
    using lt by (subst unat_push; simp add: unat_rb)+
  have d: "?a AND ?b = 0" "(?a OR ?b) AND ?c = 0"
    by (rule bit_word_eqI; auto simp: bit_simps dest: rb_bit)+
  have 1: "unat (?a OR ?b) = unat ?a + unat ?b" using lt a by (intro or_disjoint d) linarith
  have 2: "unat ((?a OR ?b) OR ?c) = unat (?a OR ?b) + unat ?c"
    using lt a 1 by (intro or_disjoint d) (simp add: unat_rb)
  let ?n = "unat (resp ! 7) * 65536 + unat (resp ! 6) * 256 + unat (resp ! 5)"
  have w: "?a OR (?b OR ?c) = of_nat ?n"
  proof -
    have "unat (?a OR (?b OR ?c)) = ?n" using 1 2 a by (simp add: or.assoc unat_rb)
    then show ?thesis by (metis of_nat_unat_word)
  qed
  have "num_sectors (card (decode_csd resp s)) = of_nat ((?n + 1) * 1024)"
    using True by (simp add: decode_csd_def Let_def upd_card_def w or.assoc)
  moreover have "(?n + 1) * 1024 < 2 ^ 32" using lt by simp
  ultimately show ?thesis using True by (simp only: unat_of_nat if_True) simp
next
  case False
  let ?r = "unat (resp ! 9) mod 16"
  let ?n = "(csd_size_field resp + 1) * 2 ^ (csd_mult_field resp + 2) * 2 ^ ?r"
  have c: "csd_c_size resp = of_nat (csd_size_field resp)"
    by (metis unat_csd_c_size of_nat_unat_word)
  have w: "csd_v1_bytes resp = of_nat ?n"
    by (simp add: csd_v1_bytes_def unat_csd_c_size_mult and_low push_bit_eq_mult c algebra_simps)
  have "csd_size_field resp + 1 \<le> 4096" "csd_mult_field resp + 2 \<le> 9" "?r \<le> 10"
    using rb_less [of resp 7] rb_less [of resp 6] rb_less [of resp 4] assms False
    by (auto simp: csd_size_field_def csd_mult_field_def unat_rb)
  then have "?n \<le> 4096 * 2 ^ 9 * 2 ^ 10" by (intro mult_le_mono power_increasing) auto
  then have n: "?n < 2 ^ 32" by (rule le_less_trans) simp
  then have "unat (csd_v1_bytes resp) = ?n" unfolding w by (simp only: unat_of_nat) simp
  then show ?thesis using False by (simp add: decode_csd_def Let_def upd_card_def unat_div)
qed

theorem decode_csd_capacity_witness:
  "unat (num_sectors (card (decode_csd ([0, 0, 0, 0, 0x80, 0xff, 0xff, 0xff, 0x03, 0x59, 0, 0, 0, 0x7f, 0x00, 0]) card_reset_st)))
     = 2097152"
  using decode_csd_capacity [of "[0, 0, 0, 0, 0x80, 0xff, 0xff, 0xff, 0x03, 0x59, 0, 0, 0, 0x7f, 0x00, 0]" card_reset_st]
  by (simp add: csd_size_field_def csd_mult_field_def)

end
