(* ===== verification/Diskio.thy ===== *)
theory Diskio
  imports Sdmmc
begin

text \<open>
  \<^verbatim>\<open>armboot/storage/diskio.c\<close>: the sector interface the file system is built on. Every sector passes
  through the static \<^verbatim>\<open>buffer\<close>, which is the target of the card's DMA.

  The card's contents are hardware state. After a read that succeeded, the buffer holds the sector; after
  a write that succeeded, the sector holds the buffer; a transfer that failed leaves arbitrary bytes
  (\<open>torn\<close>) behind. The interface is stated as the locale \<open>block_device\<close>, interpreted here on the
  code's own functions.
\<close>

section \<open>State\<close>

record disk_st = card_st +
  dbuf :: "u8 list"
  image :: "u32 \<Rightarrow> u8 list"

type_synonym torn = "io list \<Rightarrow> u8 list"

text \<open>A DMA target of the wrong size cannot occur: the hardware transfers 512 bytes.\<close>

definition fit :: "u8 list \<Rightarrow> u8 list" where
  "fit d = take 512 (d @ replicate 512 0)"

lemma length_fit [simp]: "length (fit d) = 512"
  by (simp add: fit_def)

datatype DRESULT = RES_OK | RES_ERROR | RES_WRPRT | RES_NOTRDY | RES_PARERR

type_synonym DSTATUS = u8

abbreviation (input) "STA_NOINIT \<equiv> 0x01 :: DSTATUS"
abbreviation (input) "STA_NODISK \<equiv> 0x02 :: DSTATUS"

section \<open>The code\<close>

definition disk_status :: "'a disk_st_scheme \<Rightarrow> DSTATUS" where
  "disk_status s = (if sdmmc_check_card s = SDMMC_INSERTED then 0 else STA_NODISK)"

definition disk_initialize :: "'a disk_st_scheme \<Rightarrow> DSTATUS \<times> 'a disk_st_scheme" where
  "disk_initialize s =
    (if sdmmc_check_card s = SDMMC_NO_CARD then (STA_NOINIT, s)
     else (let s = snd (sdmmc_ack_card s) in (disk_status s, s)))"

text \<open>Data moves only by DMA; a host without it only prints a message.\<close>

definition by_dma :: "'a host_st_scheme \<Rightarrow> bool" where
  "by_dma s \<longleftrightarrow> hflags (sc_host s) AND SHF_USE_DMA \<noteq> 0"

definition read_sector :: "env \<Rightarrow> torn \<Rightarrow> u32 \<Rightarrow> u32 \<Rightarrow> 'a disk_st_scheme \<Rightarrow> (int \<times> 'a disk_st_scheme) option" where
  "read_sector ev torn buffer sector s = do {
     (r, s) \<leftarrow> sdmmc_read ev sector 1 buffer s;
     Some (r, s\<lparr>dbuf := (if r = 0 \<and> by_dma s then image s sector else fit (torn (io_log s)))\<rparr>) }"

definition write_sector :: "env \<Rightarrow> torn \<Rightarrow> u32 \<Rightarrow> u32 \<Rightarrow> 'a disk_st_scheme \<Rightarrow> (int \<times> 'a disk_st_scheme) option" where
  "write_sector ev torn buffer sector s = do {
     (r, s) \<leftarrow> sdmmc_write ev sector 1 buffer s;
     Some (r, s\<lparr>image := (image s)(sector := (if r = 0 \<and> by_dma s then dbuf s else fit (torn (io_log s))))\<rparr>) }"

text \<open>\<^verbatim>\<open>memcpy(buff + i * 512, buffer, 512)\<close> and \<^verbatim>\<open>memcpy(buffer, buff + i * 512, 512)\<close>.\<close>

definition copy_out :: "u8 list \<Rightarrow> nat \<Rightarrow> u8 list \<Rightarrow> u8 list option" where
  "copy_out buff i b = (if 512 * i + 512 \<le> length buff \<and> length b = 512
     then Some (take (512 * i) buff @ b @ drop (512 * i + 512) buff) else None)"

definition copy_in :: "u8 list \<Rightarrow> nat \<Rightarrow> u8 list option" where
  "copy_in buff i = (if 512 * i + 512 \<le> length buff then Some (take 512 (drop (512 * i) buff)) else None)"

text \<open>The loops, with \<open>n\<close> sectors left of which \<open>i\<close> is the next.\<close>

fun disk_read_loop ::
  "env \<Rightarrow> torn \<Rightarrow> u32 \<Rightarrow> u32 \<Rightarrow> nat \<Rightarrow> nat \<Rightarrow> u8 list \<Rightarrow> 'a disk_st_scheme \<Rightarrow> (DRESULT \<times> u8 list \<times> 'a disk_st_scheme) option" where
  "disk_read_loop ev torn ba sector 0 i buff s = Some (RES_OK, buff, s)"
| "disk_read_loop ev torn ba sector (Suc n) i buff s = do {
     (r, s) \<leftarrow> read_sector ev torn ba (sector + of_nat i) s;
     if r \<noteq> 0 then Some (RES_ERROR, buff, s)
     else do {
       buff \<leftarrow> copy_out buff i (dbuf s);
       disk_read_loop ev torn ba sector n (Suc i) buff s } }"

definition disk_read ::
  "env \<Rightarrow> torn \<Rightarrow> u32 \<Rightarrow> u8 list \<Rightarrow> u32 \<Rightarrow> u8 \<Rightarrow> 'a disk_st_scheme \<Rightarrow> (DRESULT \<times> u8 list \<times> 'a disk_st_scheme) option" where
  "disk_read ev torn ba buff sector count s = disk_read_loop ev torn ba sector (unat count) 0 buff s"

fun disk_write_loop ::
  "env \<Rightarrow> torn \<Rightarrow> u32 \<Rightarrow> u32 \<Rightarrow> nat \<Rightarrow> nat \<Rightarrow> u8 list \<Rightarrow> 'a disk_st_scheme \<Rightarrow> (DRESULT \<times> 'a disk_st_scheme) option" where
  "disk_write_loop ev torn ba sector 0 i buff s = Some (RES_OK, s)"
| "disk_write_loop ev torn ba sector (Suc n) i buff s = do {
     b \<leftarrow> copy_in buff i;
     let s = s\<lparr>dbuf := b\<rparr>;
     (r, s) \<leftarrow> write_sector ev torn ba (sector + of_nat i) s;
     if r \<noteq> 0 then Some (RES_ERROR, s)
     else disk_write_loop ev torn ba sector n (Suc i) buff s }"

definition disk_write ::
  "env \<Rightarrow> torn \<Rightarrow> u32 \<Rightarrow> u8 list \<Rightarrow> u32 \<Rightarrow> u8 \<Rightarrow> 'a disk_st_scheme \<Rightarrow> (DRESULT \<times> 'a disk_st_scheme) option" where
  "disk_write ev torn ba buff sector count s = disk_write_loop ev torn ba sector (unat count) 0 buff s"

abbreviation (input) "CTRL_SYNC \<equiv> 0 :: u8"

definition disk_ioctl :: "u8 \<Rightarrow> DRESULT" where
  "disk_ioctl ctrl = (if ctrl = CTRL_SYNC then RES_OK else RES_PARERR)"

section \<open>The interface of the file system\<close>

text \<open>The five functions \<^verbatim>\<open>ff.c\<close> is linked against, for a device state of type \<open>'d\<close>.\<close>

record 'd device =
  d_initialize :: "'d \<Rightarrow> DSTATUS \<times> 'd"
  d_status :: "'d \<Rightarrow> DSTATUS"
  d_read :: "u8 list \<Rightarrow> u32 \<Rightarrow> u8 \<Rightarrow> 'd \<Rightarrow> (DRESULT \<times> u8 list \<times> 'd) option"
  d_write :: "u8 list \<Rightarrow> u32 \<Rightarrow> u8 \<Rightarrow> 'd \<Rightarrow> (DRESULT \<times> 'd) option"
  d_ioctl :: "u8 \<Rightarrow> DRESULT"

definition sd_device :: "env \<Rightarrow> torn \<Rightarrow> u32 \<Rightarrow> 'a disk_st_scheme device" where
  "sd_device ev torn ba = \<lparr>d_initialize = disk_initialize, d_status = disk_status,
     d_read = disk_read ev torn ba, d_write = disk_write ev torn ba, d_ioctl = disk_ioctl\<rparr>"

text \<open>Consecutive sectors of a volume as one buffer, and a buffer stored to consecutive sectors.\<close>

fun gather :: "(u32 \<Rightarrow> u8 list) \<Rightarrow> u32 \<Rightarrow> nat \<Rightarrow> u8 list" where
  "gather v sec 0 = []"
| "gather v sec (Suc n) = v sec @ gather v (sec + 1) n"

fun scatter :: "(u32 \<Rightarrow> u8 list) \<Rightarrow> u32 \<Rightarrow> nat \<Rightarrow> u8 list \<Rightarrow> u32 \<Rightarrow> u8 list" where
  "scatter v sec 0 b = v"
| "scatter v sec (Suc n) b = scatter (v(sec := take 512 b)) (sec + 1) n (drop 512 b)"

text \<open>The sectors a transfer of \<open>n\<close> sectors from \<open>sec\<close> on touches.\<close>

definition span :: "u32 \<Rightarrow> nat \<Rightarrow> u32 set" where
  "span sec n = (\<lambda>i. sec + of_nat i) ` {..<n}"

text \<open>
  What \<^verbatim>\<open>ff.c\<close> relies on: a transfer returns; a read changes no sector and delivers the sectors'
  contents when it reports success, and a failed read of one sector leaves the buffer alone; a write changes no sector outside its range, stores the buffer when
  it reports success, and leaves arbitrary sectors in the range otherwise.
\<close>

locale block_device =
  fixes dev :: "'d device"
    and sectors :: "'d \<Rightarrow> u32 \<Rightarrow> u8 list"
    and good :: "'d \<Rightarrow> bool"
  assumes sector_size: "good d \<Longrightarrow> length (sectors d sec) = 512"
    and read_law: "good d \<Longrightarrow> length b = 512 * unat n \<Longrightarrow>
      \<exists>r b' d'. d_read dev b sec n d = Some (r, b', d') \<and> good d' \<and> sectors d' = sectors d
        \<and> length b' = length b \<and> (r = RES_OK \<longrightarrow> b' = gather (sectors d) sec (unat n))
        \<and> (r \<noteq> RES_OK \<longrightarrow> n = 1 \<longrightarrow> b' = b)"
    and write_law: "good d \<Longrightarrow> length b = 512 * unat n \<Longrightarrow>
      \<exists>r d'. d_write dev b sec n d = Some (r, d') \<and> good d'
        \<and> (\<forall>x. x \<notin> span sec (unat n) \<longrightarrow> sectors d' x = sectors d x)
        \<and> (r = RES_OK \<longrightarrow> sectors d' = scatter (sectors d) sec (unat n) b)"
    and init_law: "good d \<Longrightarrow> good (snd (d_initialize dev d)) \<and> sectors (snd (d_initialize dev d)) = sectors d"
    and sync_law: "d_ioctl dev CTRL_SYNC = RES_OK"

section \<open>Card access keeps the disk\<close>

lemma sdmmc_rw_dkeeps:
  assumes "host_ok s"
  shows "sdmmc_read ev b n d s = Some (r, s') \<Longrightarrow> dkeeps s s'"
    and "sdmmc_write ev b n d s = Some (r, s') \<Longrightarrow> dkeeps s s'"
proof -
  have refl: "dkeeps s s" using assms by (rule dkeeps_refl)
  have sel: "dkeeps s t" if "(if selected (card s) = 0 then sdmmc_select ev s else Some (0, s)) = Some (q, t)" for q t
    using that sdmmc_select_dkeeps [OF refl, of ev] refl by (auto split: if_splits)
  have ex: "dkeeps s u" if "dkeeps s t" "sdhc_exec_command ev cmd t = Some (c, u)" for t u cmd c
    using that sdhc_exec_keeps [OF that(2) dkeeps_host] keeps_dkeeps dkeeps_trans by blast
  show "sdmmc_read ev b n d s = Some (r, s') \<Longrightarrow> dkeeps s s'"
    using sel ex by (auto simp: sdmmc_read_def intro!: dk_intro refl split: if_splits; metis)
  show "sdmmc_write ev b n d s = Some (r, s') \<Longrightarrow> dkeeps s s'"
    using sel ex by (auto simp: sdmmc_write_def intro!: dk_intro refl split: if_splits; metis)
qed


text \<open>
  A usable disk: the host is attached and uses DMA, sectors and buffer have their size. It is responsive when data
  commands for one sector return (the controller eventually completes or fails a transfer; the DMA loop
  of \<^verbatim>\<open>sdhc_transfer_data\<close> has no bound of its own).
\<close>

definition disk_inv :: "'a disk_st_scheme \<Rightarrow> bool" where
  "disk_inv s \<longleftrightarrow> host_ok s \<and> by_dma s \<and> (\<forall>sec. length (image s sec) = 512) \<and> length (dbuf s) = 512"

definition disk_ok :: "env \<Rightarrow> u32 \<Rightarrow> 'a disk_st_scheme \<Rightarrow> bool" where
  "disk_ok ev ba s \<longleftrightarrow> disk_inv s \<and> (\<forall>op f blk c t. host_ok (t :: 'a disk_st_scheme) \<longrightarrow>
     sdhc_exec_command ev (rw_command op f blk 1 ba c) t \<noteq> None)"

lemma disk_ok_inv: "disk_ok ev ba s \<Longrightarrow> disk_inv s"
  by (simp add: disk_ok_def)

lemma disk_ok_transfer: "disk_ok ev ba s \<Longrightarrow> disk_inv s' \<Longrightarrow> disk_ok ev ba s'" for s s' :: "'a disk_st_scheme"
  by (simp add: disk_ok_def)

lemma disk_inv_dkeeps:
  "dkeeps s s' \<Longrightarrow> disk_inv s \<Longrightarrow> disk_inv s' \<and> image s' = image s \<and> dbuf s' = dbuf s" for s :: "'a disk_st_scheme"
  by (cases s; cases s') (simp add: dkeeps_def disk_inv_def by_dma_def)

lemma disk_inv_upd:
  "disk_inv s \<Longrightarrow> length b = 512 \<Longrightarrow> disk_inv (s\<lparr>dbuf := b\<rparr>)"
  "disk_inv s \<Longrightarrow> (\<And>x. length (v x) = 512) \<Longrightarrow> disk_inv (s\<lparr>image := v\<rparr>)"
  by (simp_all add: disk_inv_def host_ok_def by_dma_def)

lemma read_sector_ok:
  assumes "disk_inv s" "read_sector ev torn ba sec s = Some (r, s')"
  shows "disk_inv s' \<and> image s' = image s \<and> (r = 0 \<longrightarrow> dbuf s' = image s sec)"
proof -
  obtain t where t: "sdmmc_read ev sec 1 ba s = Some (r, t)"
    "s' = t\<lparr>dbuf := (if r = 0 \<and> by_dma t then image t sec else fit (torn (io_log t)))\<rparr>"
    using assms(2) by (auto simp: read_sector_def)
  have "dkeeps s t" using assms(1) t(1) sdmmc_rw_dkeeps(1) by (auto simp: disk_inv_def)
  from disk_inv_dkeeps [OF this assms(1)] t(2) show ?thesis
    using disk_inv_upd(1) [of t] by (auto simp: disk_inv_def)
qed

lemma write_sector_ok:
  assumes "disk_inv s" "write_sector ev torn ba sec s = Some (r, s')"
  shows "disk_inv s' \<and> (\<forall>x. x \<noteq> sec \<longrightarrow> image s' x = image s x) \<and> (r = 0 \<longrightarrow> image s' = (image s)(sec := dbuf s))"
proof -
  obtain t where t: "sdmmc_write ev sec 1 ba s = Some (r, t)"
    "s' = t\<lparr>image := (image t)(sec := (if r = 0 \<and> by_dma t then dbuf t else fit (torn (io_log t))))\<rparr>"
    using assms(2) by (auto simp: write_sector_def)
  have "dkeeps s t" using assms(1) t(1) sdmmc_rw_dkeeps(2) by (auto simp: disk_inv_def)
  from disk_inv_dkeeps [OF this assms(1)] t(2) show ?thesis
    using disk_inv_upd(2) [of t] by (auto simp: disk_inv_def)
qed

text \<open>A responsive disk returns.\<close>

lemma sector_returns:
  assumes "disk_ok ev ba s"
  shows "read_sector ev torn ba sec s \<noteq> None" "write_sector ev torn ba sec s \<noteq> None"
proof -
  have h: "host_ok s" using assms by (simp add: disk_ok_def disk_inv_def)
  have cmd: "sdhc_exec_command ev (rw_command op f blk 1 ba c) t \<noteq> None" if "host_ok t"
    for op f blk c and t :: "'a disk_st_scheme"
    using assms that by (simp add: disk_ok_def)
  obtain q t where t: "(if selected (card s) = 0 then sdmmc_select ev s else Some (0, s)) = Some (q, t)" "host_ok t"
    using sdmmc_select_dkeeps [OF dkeeps_refl [OF h], of ev] h dkeeps_host
    by (cases "selected (card s) = 0") (simp, blast, simp)
  have "sdmmc_read ev sec 1 ba s \<noteq> None" "sdmmc_write ev sec 1 ba s \<noteq> None"
    using cmd [OF t(2)] unfolding sdmmc_read_def sdmmc_write_def t(1) by (auto simp del: not_None_eq)
  then show "read_sector ev torn ba sec s \<noteq> None" "write_sector ev torn ba sec s \<noteq> None"
    by (auto simp: read_sector_def write_sector_def)
qed

section \<open>The loops over sectors\<close>

lemma gather_snoc: "gather v sec (Suc n) = gather v sec n @ v (sec + of_nat n)"
proof (induction n arbitrary: sec)
  case (Suc n)
  have "gather v sec (Suc (Suc n)) = v sec @ gather v (sec + 1) (Suc n)" by simp
  also have "\<dots> = v sec @ gather v (sec + 1) n @ v (sec + 1 + of_nat n)" by (simp only: Suc.IH append_assoc)
  finally show ?case by (simp add: add.assoc)
qed simp

lemma length_gather: "(\<And>x. length (v x) = 512) \<Longrightarrow> length (gather v sec n) = 512 * n"
  by (induction n arbitrary: sec) simp_all

lemma span_Suc: "span sec (Suc n) = insert sec (span (sec + 1) n)"
  by (auto simp: span_def lessThan_Suc_eq_insert_0 image_image add.assoc)

lemma scatter_outside: "x \<notin> span sec n \<Longrightarrow> scatter v sec n b x = v x"
  by (induction n arbitrary: v sec b) (simp_all add: span_Suc)

lemma scatter_snoc:
  "512 * n \<le> length b \<Longrightarrow>
    scatter v sec (Suc n) b = (scatter v sec n b)(sec + of_nat n := take 512 (drop (512 * n) b))"
proof (induction n arbitrary: v sec b)
  case (Suc n)
  have "scatter v sec (Suc (Suc n)) b = scatter (v(sec := take 512 b)) (sec + 1) (Suc n) (drop 512 b)" by simp
  also have "\<dots> = (scatter (v(sec := take 512 b)) (sec + 1) n (drop 512 b))
      (sec + 1 + of_nat n := take 512 (drop (512 * n) (drop 512 b)))"
    using Suc.prems by (intro Suc.IH) simp
  finally show ?case by (simp add: ac_simps)
qed simp

lemma gather_scatter:
  assumes "length b = 512 * n" "n \<le> 2 ^ 32"
  shows "gather (scatter v sec n b) sec n = b"
  using assms
proof (induction n arbitrary: v sec b)
  case (Suc n)
  have "sec \<notin> span (sec + 1) n"
  proof
    assume "sec \<in> span (sec + 1) n"
    then obtain i where i: "i < n" "sec = sec + 1 + of_nat i" by (auto simp: span_def)
    from i(2) have "sec + (1 + of_nat i) = sec + 0" by (simp add: add.assoc)
    then have "1 + of_nat i = (0 :: u32)" by (simp only: add_left_cancel)
    then have "(of_nat (Suc i) :: u32) = 0" by simp
    then have "2 ^ 32 dvd Suc i" by (simp only: word_of_nat_eq_0_iff) simp
    then have "2 ^ 32 \<le> Suc i" by (rule dvd_imp_le) simp
    then show False using i(1) Suc.prems(2) by simp
  qed
  then have "scatter (v(sec := take 512 b)) (sec + 1) n (drop 512 b) sec = take 512 b"
    by (simp add: scatter_outside)
  moreover have "gather (scatter (v(sec := take 512 b)) (sec + 1) n (drop 512 b)) (sec + 1) n = drop 512 b"
    using Suc.prems by (intro Suc.IH) simp_all
  ultimately show ?case by simp
qed simp

lemma disk_read_loop_ok:
  assumes "disk_inv s" "512 * (i + n) \<le> length buff" "disk_read_loop ev torn ba sector n i buff s = Some (r, b, s')"
  shows "disk_inv s' \<and> image s' = image s \<and> length b = length buff
     \<and> (r = RES_OK \<longrightarrow> b = take (512 * i) buff @ gather (image s) (sector + of_nat i) n @ drop (512 * (i + n)) buff)
     \<and> (r \<noteq> RES_OK \<longrightarrow> n = 1 \<longrightarrow> b = buff)"
  using assms
proof (induction n arbitrary: i buff s)
  case (Suc n)
  obtain q t where t: "read_sector ev torn ba (sector + of_nat i) s = Some (q, t)"
    using Suc.prems(3) by auto
  note ok = read_sector_ok [OF Suc.prems(1) t]
  let ?b = "take (512 * i) buff @ dbuf t @ drop (512 * i + 512) buff"
  have len: "length (dbuf t) = 512" "length ?b = length buff"
    using ok Suc.prems(2) by (auto simp: disk_inv_def)
  have copy: "copy_out buff i (dbuf t) = Some ?b" using Suc.prems(2) len by (simp add: copy_out_def)
  show ?case
  proof (cases "q = 0")
    case True
    then have *: "disk_read_loop ev torn ba sector n (Suc i) ?b t = Some (r, b, s')"
      using Suc.prems(3) t copy by simp
    have "512 * (Suc i + n) \<le> length ?b" using Suc.prems(2) len(2) by simp
    note IH = Suc.IH [OF conjunct1 [OF ok] this *]
    have "take (512 * Suc i) ?b = take (512 * i) buff @ dbuf t" "drop (512 * (Suc i + n)) ?b = drop (512 * (i + Suc n)) buff"
      using Suc.prems(2) len(1) by (simp_all add: ac_simps)
    moreover have "r = RES_OK" if "n = 0" using * that by simp
    ultimately show ?thesis using IH ok True len(2) by (auto simp: ac_simps)
  next
    case False
    with Suc.prems(3) t ok show ?thesis by auto
  qed
qed simp

lemma disk_write_loop_ok:
  assumes "disk_inv s" "512 * (i + n) \<le> length buff" "disk_write_loop ev torn ba sector n i buff s = Some (r, s')"
  shows "disk_inv s' \<and> (\<forall>x. x \<notin> span (sector + of_nat i) n \<longrightarrow> image s' x = image s x)
     \<and> (r = RES_OK \<longrightarrow> image s' = scatter (image s) (sector + of_nat i) n (drop (512 * i) buff))"
  using assms
proof (induction n arbitrary: i s)
  case (Suc n)
  let ?b = "take 512 (drop (512 * i) buff)"
  have b: "copy_in buff i = Some ?b" "length ?b = 512" using Suc.prems(2) by (simp_all add: copy_in_def)
  obtain q t where t: "write_sector ev torn ba (sector + of_nat i) (s\<lparr>dbuf := ?b\<rparr>) = Some (q, t)"
    using Suc.prems(3) b by (auto simp: Let_def)
  note ok = write_sector_ok [OF disk_inv_upd(1) [OF Suc.prems(1) b(2)] t]
  have sp: "span (sector + of_nat i) (Suc n) = insert (sector + of_nat i) (span (sector + of_nat (Suc i)) n)"
    by (simp add: span_Suc ac_simps)
  show ?case
  proof (cases "q = 0")
    case True
    then have "disk_write_loop ev torn ba sector n (Suc i) buff t = Some (r, s')"
      using Suc.prems(3) t b by (simp add: Let_def)
    from Suc.IH [OF conjunct1 [OF ok] _ this] Suc.prems(2) ok True sp show ?thesis
      by (auto simp: ac_simps fun_upd_def)
  next
    case False
    with Suc.prems(3) t ok b sp show ?thesis by (auto simp: Let_def)
  qed
qed simp

lemma disk_loops_return:
  assumes "disk_ok ev ba s" "512 * (i + n) \<le> length buff"
  shows "disk_read_loop ev torn ba sector n i buff s \<noteq> None" "disk_write_loop ev torn ba sector n i buff s \<noteq> None"
proof -
  show "disk_read_loop ev torn ba sector n i buff s \<noteq> None" using assms
  proof (induction n arbitrary: i buff s)
    case (Suc n)
    obtain q t where t: "read_sector ev torn ba (sector + of_nat i) s = Some (q, t)"
      using sector_returns(1) [OF Suc.prems(1), of torn "sector + of_nat i"] by auto
    have ok: "disk_inv t" using read_sector_ok [OF disk_ok_inv [OF Suc.prems(1)] t] by blast
    let ?b = "take (512 * i) buff @ dbuf t @ drop (512 * i + 512) buff"
    have "copy_out buff i (dbuf t) = Some ?b" "length ?b = length buff"
      using ok Suc.prems(2) by (auto simp: copy_out_def disk_inv_def)
    then show ?case using t Suc.IH [OF disk_ok_transfer [OF Suc.prems(1) ok], of "Suc i" ?b] Suc.prems(2)
      by (auto simp del: not_None_eq)
  qed simp
  show "disk_write_loop ev torn ba sector n i buff s \<noteq> None" using assms
  proof (induction n arbitrary: i s)
    case (Suc n)
    let ?b = "take 512 (drop (512 * i) buff)"
    have b: "copy_in buff i = Some ?b" "length ?b = 512" using Suc.prems(2) by (simp_all add: copy_in_def)
    have s: "disk_inv (s\<lparr>dbuf := ?b\<rparr>)" using Suc.prems(1) b by (intro disk_inv_upd disk_ok_inv)
    obtain q t where t: "write_sector ev torn ba (sector + of_nat i) (s\<lparr>dbuf := ?b\<rparr>) = Some (q, t)"
      using sector_returns(2) [OF disk_ok_transfer [OF Suc.prems(1) s], of torn "sector + of_nat i"] by auto
    have "disk_ok ev ba t" using write_sector_ok [OF s t] disk_ok_transfer [OF Suc.prems(1)] by blast
    from Suc.IH [OF this, of "Suc i"] Suc.prems(2) b t show ?case by (auto simp: Let_def simp del: not_None_eq)
  qed simp
qed

lemma disk_read_ok:
  assumes "disk_inv s" "length b = 512 * unat n" "disk_read ev torn ba b sec n s = Some (r, b', s')"
  shows "disk_inv s' \<and> image s' = image s \<and> length b' = length b \<and> (r = RES_OK \<longrightarrow> b' = gather (image s) sec (unat n))
    \<and> (r \<noteq> RES_OK \<longrightarrow> n = 1 \<longrightarrow> b' = b)"
  using disk_read_loop_ok [of s 0 "unat n" b] assms by (auto simp: disk_read_def)

lemma disk_write_ok:
  assumes "disk_inv s" "length b = 512 * unat n" "disk_write ev torn ba b sec n s = Some (r, s')"
  shows "disk_inv s' \<and> (\<forall>x. x \<notin> span sec (unat n) \<longrightarrow> image s' x = image s x)
    \<and> (r = RES_OK \<longrightarrow> image s' = scatter (image s) sec (unat n) b)"
  using disk_write_loop_ok [of s 0 "unat n" b] assms by (simp add: disk_write_def)

text \<open>The code's own sector functions implement the interface.\<close>

interpretation sd: block_device "sd_device ev torn ba" image "disk_ok ev ba" for ev torn ba
proof
  fix d :: "'a disk_st_scheme" and b :: "u8 list" and n :: u8 and sec
  assume d: "disk_ok ev ba d"
  then show "length (image d sec) = 512" by (simp add: disk_ok_def disk_inv_def)
  show "disk_ok ev ba (snd (d_initialize (sd_device ev torn ba) d))
     \<and> image (snd (d_initialize (sd_device ev torn ba) d)) = image d"
    using d by (simp add: sd_device_def disk_initialize_def sdmmc_ack_card_def upd_card_def Let_def disk_ok_def
        disk_inv_def host_ok_def by_dma_def)
  assume len: "length b = 512 * unat n"
  note ret = disk_loops_return [OF d, of 0 "unat n" b torn sec]
  show "\<exists>r b' d'. d_read (sd_device ev torn ba) b sec n d = Some (r, b', d') \<and> disk_ok ev ba d' \<and> image d' = image d
      \<and> length b' = length b \<and> (r = RES_OK \<longrightarrow> b' = gather (image d) sec (unat n))
      \<and> (r \<noteq> RES_OK \<longrightarrow> n = 1 \<longrightarrow> b' = b)"
    using ret(1) len disk_read_ok [OF disk_ok_inv [OF d] len] disk_ok_transfer [OF d]
    by (fastforce simp: sd_device_def disk_read_def)
  show "\<exists>r d'. d_write (sd_device ev torn ba) b sec n d = Some (r, d') \<and> disk_ok ev ba d'
      \<and> (\<forall>x. x \<notin> span sec (unat n) \<longrightarrow> image d' x = image d x)
      \<and> (r = RES_OK \<longrightarrow> image d' = scatter (image d) sec (unat n) b)"
    using ret(2) len disk_write_ok [OF disk_ok_inv [OF d] len] disk_ok_transfer [OF d]
    by (fastforce simp: sd_device_def disk_write_def)
qed (simp add: sd_device_def disk_ioctl_def)

section \<open>Reading back what was written\<close>

text \<open>A controller that completes every command, for the concrete run below.\<close>

fun last_req :: "io list \<Rightarrow> u32" where
  "last_req [] = 0"
| "last_req (e # l) = (case e of Wr16 a v \<Rightarrow> if a = MEM_FLUSHREQ then ucast v else last_req l | _ \<Rightarrow> last_req l)"

definition done_env :: env where
  "done_env l a = (if a = HW_ARMIRQFLAG \<or> a = HW_ARMIRQMASK then 0x80
     else if a = 0x0d070030 then 3 else if a = MEM_FLUSHACK then last_req l
     else if a = AHB_INVAL then 0xffffffff else 0)"

definition disk_reset_st :: disk_st where
  "disk_reset_st = \<lparr>io_log = [], cpsr = 0x53, cp_cr = 0, cp_ttbr = 0, cp_dacr = 0,
     page_table = [], initialized = 0, irq_flag = 0, last_page_read = 0,
     sc_host = zero_host\<lparr>ioh := SDHC_REG_BASE, hflags := SHF_USE_DMA\<rparr>, alarm_frequency = 0,
     card = zero_card\<lparr>attached := True, inserted := 1, selected := 1, sdhc_blockmode := 1\<rparr>,
     dbuf = replicate 512 0, image = (\<lambda>_. replicate 512 0)\<rparr>"

text \<open>Evaluation of such a run.\<close>

lemmas loop_numeral =
  flush_ack_loop.simps(2) [of _ _ "pred_numeral k" for k, folded numeral_eq_Suc]
  sdhc_wait_state_loop.simps(2) [of _ _ _ "pred_numeral k" for k, folded numeral_eq_Suc]
  wait_intr_loop.simps(2) [of _ _ _ "pred_numeral k" for k, folded numeral_eq_Suc]
lemmas mem_eval = dc_flushrange_def dc_invalidaterange_def ahb_flush_from_def ahb_flush_to_def ahb_flush_to_raw_def
  loop_numeral mc_read32_def read32_def write32_def set32_def clear32_def mask32_def read16_def write16_def
  emit_def irq_kill_def irq_restore_def cp15_op_def flush_req_def ahb_mask_def done_env_def disk_reset_st_def
  ALIGN_FORWARD_def ALIGN_BACKWARD_def lines_between_def gecko_msg_def udelay_ev_def dummy_reads4_def
lemmas sd_eval = bus_space_read_4_def bus_space_read_2_def bus_space_read_1_def bus_space_write_4_def bus_space_write_2_def
  bus_space_write_1_def HREAD1_def HREAD2_def HREAD4_def HWRITE1_def HWRITE2_def HWRITE4_def upd_host_def
  zero_host_def zero_card_def sdhc_wait_state_def sdhc_intr_def sdhc_irq_def sdhc_wait_intr_def wait_intr_finish_def
  cmd_blocks_def cmd_mode_def cmd_word_def cmd_setup_dma_def cmd_issue_def sdhc_start_command_def transfer_loop.simps
  sdhc_transfer_data_def read_response_def set_timeout_def sdhc_exec_command_def zero_cmd_def word_bytes_def
  rw_command_def irq_handler_def irq_pending_def take_irq_def irqs_masked_def

section \<open>The completing controller is responsive\<close>

text \<open>Pending bits are among command and transfer complete.\<close>

definition only_done :: "'a host_st_scheme \<Rightarrow> bool" where
  "only_done s \<longleftrightarrow> host_ok s \<and> intr_status (sc_host s) AND 0xFFFC = 0"

lemma access_host [simp]:
  "sc_host (snd (HREAD4 ev r s)) = sc_host s" "sc_host (snd (HREAD1 ev r s)) = sc_host s"
  "sc_host (HWRITE2 ev r v16 s) = sc_host s" "sc_host (HWRITE4 r v s) = sc_host s"
  "sc_host (udelay_ev d s) = sc_host s" "sc_host (gecko_msg m as s) = sc_host s" "sc_host (upd_host f s) = f (sc_host s)"
  by (simp_all add: upd_host_def HREAD4_def HREAD1_def HWRITE2_def HWRITE4_def bus_space_read_4_def bus_space_read_1_def
      bus_space_write_2_def bus_space_write_4_def access_unfold emit_def read32_def write32_def mask32_def
      udelay_ev_def gecko_msg_def)

lemma take_irq_done:
  assumes "only_done s"
  shows "\<exists>t. take_irq done_env s = Some t \<and> only_done t"
proof -
  have h: "ioh (sc_host s) = 0x0d070000" using assms by (simp add: only_done_def host_ok_def)
  have b: "(x OR 3) AND 0xFFFC = (0 :: u16)" if "x AND 0xFFFC = 0" for x
    using that by (simp add: bit.conj_disj_distrib2)
  show ?thesis using assms h b
    by (simp add: take_irq_def mem_eval sd_eval only_done_def host_ok_def)
qed

lemma only_done_steps [simp]:
  "only_done (udelay_ev d s) = only_done s" "only_done (gecko_msg m as s) = only_done s"
  "only_done (snd (HREAD4 ev r s)) = only_done s" "only_done (snd (HREAD1 ev r s)) = only_done s"
  "only_done (upd_host f s) \<longleftrightarrow> ioh (f (sc_host s)) = SDHC_REG_BASE \<and> intr_status (f (sc_host s)) AND 0xFFFC = 0"
  by (simp_all add: only_done_def host_ok_def upd_host_def)

lemma and_fffc: "x AND 0xFFFC = 0 \<Longrightarrow> (x AND y) AND 0xFFFC = (0 :: u16)"
  "x AND 0xFFFC = 0 \<Longrightarrow> x AND 0x8000 = (0 :: u16)" "x AND 0xFFFC = 0 \<Longrightarrow> x AND 8 = (0 :: u16)"
proof -
  assume x: "x AND 0xFFFC = (0 :: u16)"
  have "(x AND y) AND 0xFFFC = (x AND 0xFFFC) AND y" by (simp only: ac_simps)
  then show "(x AND y) AND 0xFFFC = 0" by (simp add: x)
  have "x AND 0x8000 = (x AND 0xFFFC) AND 0x8000" "x AND 8 = (x AND 0xFFFC) AND 8"
    by (simp_all add: and.assoc)
  then show "x AND 0x8000 = 0" "x AND 8 = 0" by (simp_all add: x)
qed

lemma wait_intr_loop_done:
  fixes s :: "'a irq_st_scheme"
  assumes take: "\<And>s :: 'a irq_st_scheme. only_done s \<Longrightarrow> \<exists>t. take_irq ev s = Some t \<and> only_done t"
    and "only_done s" "st AND 0xFFFC = 0" "st AND msk = st"
  shows "\<exists>q b t. wait_intr_loop ev msk st n s = Some (q, b, t) \<and> only_done t \<and> q AND 0xFFFC = 0 \<and> q AND msk = q"
  using assms(2-)
proof (induction n arbitrary: s)
  case (Suc n)
  obtain t where t: "take_irq ev s = Some t" "only_done t" using take [OF Suc.prems(1)] by blast
  then have "(intr_status (sc_host t) AND msk) AND 0xFFFC = 0" by (simp add: only_done_def and_fffc)
  then show ?case using t Suc.IH [of "udelay_ev 1000 t"] Suc.prems(2,3) by (auto simp: and.assoc)
qed auto

lemma sdhc_wait_intr_done:
  fixes s :: "'a irq_st_scheme"
  assumes take: "\<And>s :: 'a irq_st_scheme. only_done s \<Longrightarrow> \<exists>t. take_irq ev s = Some t \<and> only_done t"
    and "only_done s"
  shows "\<exists>q t. sdhc_wait_intr ev msk n s = Some (q, t) \<and> only_done t \<and> q AND 0xFFFC = 0
    \<and> q AND (msk OR SDHC_ERROR_INTERRUPT OR SDHC_ERROR_TIMEOUT) = q"
proof -
  let ?m = "msk OR SDHC_ERROR_INTERRUPT OR SDHC_ERROR_TIMEOUT"
  have "(intr_status (sc_host s) AND ?m) AND 0xFFFC = 0" using assms(2) by (simp only: only_done_def and_fffc)
  moreover have idem: "(x AND ?m) AND ?m = x AND ?m" for x by (simp only: and.assoc and.idem)
  ultimately obtain q b t where t: "wait_intr_loop ev ?m (intr_status (sc_host s) AND ?m) (nat n) s = Some (q, b, t)"
    "only_done t" "q AND 0xFFFC = 0" "q AND ?m = q" using wait_intr_loop_done [OF take assms(2)] idem by blast
  have q: "q AND 0x8000 = 0" "q AND 8 = 0" using t(3) by (rule and_fffc)+
  have h: "ioh (sc_host t) = SDHC_REG_BASE" "(intr_status (sc_host t) AND p) AND 0xFFFC = 0" for p
    using t(2) and_fffc(1) by (auto simp: only_done_def host_ok_def)
  let ?q = "if b \<and> 0 \<le> n then q OR SDHC_ERROR_TIMEOUT else q"
  have "sdhc_wait_intr ev msk n s = Some (wait_intr_finish ev ?q t)"
    using t(1) by (simp add: sdhc_wait_intr_def Let_def)
  moreover have "only_done (snd (wait_intr_finish ev ?q t)) \<and> fst (wait_intr_finish ev ?q t) AND 0xFFFC = 0
      \<and> fst (wait_intr_finish ev ?q t) AND ?m = fst (wait_intr_finish ev ?q t)"
    using t(3,4) q h by (auto simp: wait_intr_finish_def Let_def bit.conj_disj_distrib2)
  ultimately show ?thesis by (metis prod.collapse)
qed

lemma sdhc_wait_state_host [simp]: "sc_host (snd (sdhc_wait_state ev msk v s)) = sc_host s"
proof -
  have "sc_host (snd (sdhc_wait_state_loop ev msk v n t)) = sc_host t" for n t
    by (induction n arbitrary: t) (simp_all add: access_unfold)
  then show ?thesis by (simp add: sdhc_wait_state_def)
qed

lemma cmd_issue_host [simp]: "sc_host (cmd_issue ev a b c m x s) = sc_host s"
  by (simp add: cmd_issue_def Let_def)

lemma cmd_setup_dma_done:
  fixes s :: "'a irq_st_scheme"
  assumes "\<And>u :: 'a irq_st_scheme. ahb_flush_to_raw ev AHB_SDHC u \<noteq> None"
  shows "\<exists>t. cmd_setup_dma ev cmd s = Some t \<and> sc_host t = sc_host s"
proof -
  have same: "same u u' \<Longrightarrow> sc_host u' = sc_host u" for u u' :: "'a irq_st_scheme" by (auto simp: same_def)
  obtain t where t: "dc_flushrange ev (c_data cmd) (word_of_int (c_datalen cmd)) s = Some t" "same s t"
    using dc_flushrange_log [of ev "c_data cmd" "word_of_int (c_datalen cmd)" s] by (auto simp: same_def)
  obtain v where v: "dc_invalidaterange ev (c_data cmd) (word_of_int (c_datalen cmd)) s = Some v" "same s v"
    using dc_invalidaterange_log [of ev "c_data cmd" "word_of_int (c_datalen cmd)" s] by (auto simp: same_def)
  obtain u where u: "ahb_flush_to ev AHB_SDHC t = Some u"
    using assms ahb_flush_to_raw_starlet by (fastforce simp: ahb_flush_to_def access_unfold)
  show ?thesis
  proof (cases "c_flags cmd AND SCF_CMD_READ = 0")
    case True
    have "same s u" using t(2) io_step_same [OF ahb_flush_to_step [OF u]] by (rule same_trans)
    then show ?thesis using True t u same by (simp add: cmd_setup_dma_def)
  next
    case False
    then show ?thesis using v same by (simp add: cmd_setup_dma_def)
  qed
qed

lemma responsive_returns:
  fixes s :: "'a irq_st_scheme"
  assumes take: "\<And>s :: 'a irq_st_scheme. only_done s \<Longrightarrow> \<exists>t. take_irq ev s = Some t \<and> only_done t"
    and flush: "\<And>u :: 'a irq_st_scheme. ahb_flush_to_raw ev AHB_SDHC u \<noteq> None"
    and "host_ok s"
  shows "sdhc_exec_command ev (rw_command op f blk 1 ba c) s \<noteq> None"
proof -
  let ?cmd = "set_timeout (rw_command op f blk 1 ba c)"
  define s1 where "s1 = upd_host (\<lambda>h. h\<lparr>intr_status := 0\<rparr>) (upd_host (data_command_update (\<lambda>_. 1)) s)"
  have q1: "only_done s1" using assms(3) by (simp add: s1_def host_ok_def)
  have blocks: "cmd_blocks ?cmd = Some (Some (512, 1))"
    by (simp add: set_timeout_def rw_command_def zero_cmd_def cmd_blocks_def)
  obtain e cmd t where t: "sdhc_start_command ev ?cmd s1 = Some (e, cmd, t)" "sc_host t = sc_host s1"
  proof -
    let ?w = "snd (sdhc_wait_state ev SDHC_CMD_INHIBIT_MASK 0 s1)"
    obtain u where u: "cmd_setup_dma ev (?cmd\<lparr>c_resid := 1, c_buf := c_data ?cmd\<rparr>) ?w = Some u" "sc_host u = sc_host ?w"
      using cmd_setup_dma_done [OF flush] by blast
    have "\<exists>e cmd t. sdhc_start_command ev ?cmd s1 = Some (e, cmd, t) \<and> sc_host t = sc_host s1"
      using u by (auto simp: sdhc_start_command_def blocks access_unfold)
    then show thesis using that by blast
  qed
  have q2: "only_done t" using q1 t(2) by (simp add: only_done_def host_ok_def)
  have wait: "\<exists>q u. sdhc_wait_intr ev m n v = Some (q, u) \<and> only_done u" if "only_done v" for m n and v :: "'a irq_st_scheme"
    using sdhc_wait_intr_done [OF take that] by blast
  have loop: "\<exists>r u. transfer_loop ev v = Some (r, u) \<and> only_done u" if v: "only_done v" for v :: "'a irq_st_scheme"
  proof -
    obtain q u where u: "sdhc_wait_intr ev (SDHC_TRANSFER_COMPLETE OR SDHC_DMA_INTERRUPT) 5000 v = Some (q, u)"
      "only_done u" "q AND 0xFFFC = 0"
      "q AND ((SDHC_TRANSFER_COMPLETE OR SDHC_DMA_INTERRUPT) OR SDHC_ERROR_INTERRUPT OR SDHC_ERROR_TIMEOUT) = q"
      using sdhc_wait_intr_done [OF take v] by blast
    have "q = q AND (0xC008 OR 2)" using u(4) by simp
    also have "\<dots> = q AND 0xC008 OR q AND 2" by (rule bit.conj_disj_distrib)
    also have "q AND 0xC008 = (q AND 0xFFFC) AND 0xC008" by (simp add: and.assoc)
    finally have "q = 0 \<or> q AND 2 \<noteq> 0" using u(3) by auto
    then show ?thesis using u by (subst transfer_loop.simps) auto
  qed
  have data: "\<exists>r. sdhc_transfer_data ev cmd' v = Some r" if "only_done v" for cmd' and v :: "'a irq_st_scheme"
    using loop [OF that] ahb_flush_from_returns by (fastforce simp: sdhc_transfer_data_def)
  have resp: "only_done (snd (read_response ev cmd' v))" if "only_done v" for cmd' and v :: "'a irq_st_scheme"
  proof -
    have "only_done (snd (read_resp136 ev i n v))" if "only_done v" for i n
      using that by (induction n arbitrary: i v) (simp_all add: access_unfold)
    then show ?thesis using that by (auto simp: read_response_def access_unfold)
  qed
  show ?thesis
  proof (cases "e = 0")
    case False
    then show ?thesis using t(1) by (simp add: sdhc_exec_command_def s1_def rw_command_def)
  next
    case True
    obtain q u where u: "sdhc_wait_intr ev SDHC_COMMAND_COMPLETE (c_timeout cmd) t = Some (q, u)" "only_done u"
      using wait [OF q2] by blast
    have "sdhc_transfer_data ev (fst (read_response ev cmd u)) (snd (read_response ev cmd u)) \<noteq> None"
      using data [OF resp [OF u(2)]] by fastforce
    then show ?thesis using t(1) u(1) True
      by (auto simp: sdhc_exec_command_def s1_def rw_command_def split_beta)
  qed
qed

text \<open>Any disk in front of it is usable.\<close>

lemma done_env_disk_ok: "disk_inv s \<Longrightarrow> disk_ok done_env ba s"
proof -
  have "ahb_flush_to_raw done_env AHB_SDHC u \<noteq> None" for u :: "'a disk_st_scheme"
    by (simp add: ahb_flush_to_raw_def ahb_mask_def mc_read32_def mem_eval)
  then show "disk_inv s \<Longrightarrow> disk_ok done_env ba s" for s :: "'a disk_st_scheme"
    unfolding disk_ok_def using responsive_returns [OF take_irq_done] by blast
qed

section \<open>A run\<close>



end
