(* ===== verification/Fat.thy ===== *)
theory Fat
  imports Diskio
begin

text \<open>
  \<^verbatim>\<open>armboot/storage/ff.c\<close>, first part: the sector window, the allocation table and cluster chains.
  The configuration is the one of \<^verbatim>\<open>ff.h\<close>: one volume on one drive, 512-byte sectors, read-write,
  \<^verbatim>\<open>_FS_TINY\<close> (file data passes through the window too), no long names, not re-entrant.

  The file system object is the record \<open>fatfs\<close>; it carries the state of the device it is mounted on,
  which is reached only through the functions of a \<open>device\<close>. Functions return the new object. The window
  is a byte list, pointers into it are offsets. \<^const>\<open>None\<close> is a device that does not return or a loop
  that does not end.
\<close>

section \<open>Data\<close>

datatype FRESULT = FR_OK | FR_DISK_ERR | FR_INT_ERR | FR_NOT_READY | FR_NO_FILE | FR_NO_PATH
  | FR_INVALID_NAME | FR_DENIED | FR_EXIST | FR_INVALID_OBJECT | FR_WRITE_PROTECTED | FR_INVALID_DRIVE
  | FR_NOT_ENABLED | FR_NO_FILESYSTEM | FR_MKFS_ABORTED | FR_TIMEOUT

record 'd fatfs =
  fs_type :: u8
  csize :: u8
  n_fats :: u8
  wflag :: u8
  fs_id :: u16
  n_rootdir :: u16
  fsi_flag :: u8
  last_clust :: u32
  free_clust :: u32
  fsi_sector :: u32
  sects_fat :: u32
  max_clust :: u32
  fatbase :: u32
  dirbase :: u32
  database :: u32
  winsect :: u32
  win :: "u8 list"
  disk :: 'd

abbreviation (input) "FS_FAT12 \<equiv> 1 :: u8"
abbreviation (input) "FS_FAT16 \<equiv> 2 :: u8"
abbreviation (input) "FS_FAT32 \<equiv> 3 :: u8"

text \<open>Little-endian access, byte by byte (\<^verbatim>\<open>_WORD_ACCESS 0\<close>).\<close>

definition LD_WORD :: "u8 list \<Rightarrow> nat \<Rightarrow> u16" where
  "LD_WORD w p = push_bit 8 (ucast (w ! (p + 1))) OR ucast (w ! p)"

definition LD_DWORD :: "u8 list \<Rightarrow> nat \<Rightarrow> u32" where
  "LD_DWORD w p = push_bit 24 (ucast (w ! (p + 3))) OR push_bit 16 (ucast (w ! (p + 2)))
     OR push_bit 8 (ucast (w ! (p + 1))) OR ucast (w ! p)"

definition ST_WORD :: "nat \<Rightarrow> u16 \<Rightarrow> u8 list \<Rightarrow> u8 list" where
  "ST_WORD p v w = w[p := ucast v, p + 1 := ucast (drop_bit 8 v)]"

definition ST_DWORD :: "nat \<Rightarrow> u32 \<Rightarrow> u8 list \<Rightarrow> u8 list" where
  "ST_DWORD p v w = w[p := ucast v, p + 1 := ucast (drop_bit 8 v), p + 2 := ucast (drop_bit 16 v),
     p + 3 := ucast (drop_bit 24 v)]"

section \<open>The window\<close>

text \<open>The copies of the allocation table; a failure to write one is ignored.\<close>

fun mirror_loop :: "'d device \<Rightarrow> u8 list \<Rightarrow> u32 \<Rightarrow> nat \<Rightarrow> u32 \<Rightarrow> 'd \<Rightarrow> 'd option" where
  "mirror_loop dev w sects 0 wsect d = Some d"
| "mirror_loop dev w sects (Suc nf) wsect d = do {
     let wsect = wsect + sects;
     (_, d) \<leftarrow> d_write dev w wsect 1 d;
     mirror_loop dev w sects nf wsect d }"

definition flush_window :: "'d device \<Rightarrow> 'd fatfs \<Rightarrow> (FRESULT \<times> 'd fatfs) option" where
  "flush_window dev fs = do {
     (r, d) \<leftarrow> d_write dev (win fs) (winsect fs) 1 (disk fs);
     let fs = fs\<lparr>disk := d\<rparr>;
     if r \<noteq> RES_OK then Some (FR_DISK_ERR, fs)
     else do {
       let fs = fs\<lparr>wflag := 0\<rparr>;
       if winsect fs < fatbase fs + sects_fat fs
       then do {
         d \<leftarrow> mirror_loop dev (win fs) (sects_fat fs) (unat (n_fats fs) - 1) (winsect fs) (disk fs);
         Some (FR_OK, fs\<lparr>disk := d\<rparr>) }
       else Some (FR_OK, fs) } }"

definition move_window :: "'d device \<Rightarrow> u32 \<Rightarrow> 'd fatfs \<Rightarrow> (FRESULT \<times> 'd fatfs) option" where
  "move_window dev sector fs =
    (if winsect fs \<noteq> sector then do {
       (res, fs) \<leftarrow> (if wflag fs \<noteq> 0 then flush_window dev fs else Some (FR_OK, fs));
       if res \<noteq> FR_OK then Some (FR_DISK_ERR, fs)
       else if sector \<noteq> 0 then do {
         (r, w, d) \<leftarrow> d_read dev (win fs) sector 1 (disk fs);
         let fs = fs\<lparr>win := w, disk := d\<rparr>;
         Some (if r \<noteq> RES_OK then (FR_DISK_ERR, fs) else (FR_OK, fs\<lparr>winsect := sector\<rparr>)) }
       else Some (FR_OK, fs) }
     else Some (FR_OK, fs))"

abbreviation (input) "BS_55AA \<equiv> 510 :: nat"
abbreviation (input) "FSI_LeadSig \<equiv> 0 :: nat"
abbreviation (input) "FSI_StrucSig \<equiv> 484 :: nat"
abbreviation (input) "FSI_Free_Count \<equiv> 488 :: nat"
abbreviation (input) "FSI_Nxt_Free \<equiv> 492 :: nat"

text \<open>The FSInfo sector as \<^verbatim>\<open>sync\<close> builds it.\<close>

definition fsinfo :: "u32 \<Rightarrow> u32 \<Rightarrow> u8 list" where
  "fsinfo free nxt = ST_DWORD FSI_Nxt_Free nxt (ST_DWORD FSI_Free_Count free
     (ST_DWORD FSI_StrucSig 0x61417272 (ST_DWORD FSI_LeadSig 0x41615252
       (ST_WORD BS_55AA 0xAA55 (replicate 512 0)))))"

definition sync :: "'d device \<Rightarrow> 'd fatfs \<Rightarrow> (FRESULT \<times> 'd fatfs) option" where
  "sync dev fs = do {
     (res, fs) \<leftarrow> move_window dev 0 fs;
     if res = FR_OK then do {
       fs \<leftarrow> (if fs_type fs = FS_FAT32 \<and> fsi_flag fs \<noteq> 0 then do {
               let fs = fs\<lparr>winsect := 0, win := fsinfo (free_clust fs) (last_clust fs)\<rparr>;
               (_, d) \<leftarrow> d_write dev (win fs) (fsi_sector fs) 1 (disk fs);
               Some (fs\<lparr>disk := d, fsi_flag := 0\<rparr>) }
             else Some fs);
       Some (if d_ioctl dev CTRL_SYNC \<noteq> RES_OK then FR_DISK_ERR else FR_OK, fs) }
     else Some (res, fs) }"

section \<open>The allocation table\<close>

text \<open>
  Byte offset of an entry of the FAT12 table, computed in 16 bits; sector and offset of an entry of the
  others. Masking with 511 is the remainder modulo the sector size.
\<close>

definition fat12_bc :: "u32 \<Rightarrow> u16" where
  "fat12_bc clst = of_nat (unat (ucast clst :: u16) * 3 div 2)"

definition fat12_sect :: "u32 \<Rightarrow> u16 \<Rightarrow> u32" where
  "fat12_sect fsect bc = fsect + ucast (bc div 512)"

definition fat12_ofs :: "u16 \<Rightarrow> nat" where
  "fat12_ofs bc = unat bc mod 512"

definition fat_ofs :: "u32 \<Rightarrow> nat \<Rightarrow> nat" where
  "fat_ofs clst k = (unat (ucast clst :: u16) * k) mod 512"

definition fat12_pick :: "u32 \<Rightarrow> u16 \<Rightarrow> u32" where
  "fat12_pick clst wc = ucast (if clst AND 1 \<noteq> 0 then drop_bit 4 wc else wc AND 0xFFF)"

definition get_cluster :: "'d device \<Rightarrow> u32 \<Rightarrow> 'd fatfs \<Rightarrow> (u32 \<times> 'd fatfs) option" where
  "get_cluster dev clst fs =
    (if clst < 2 \<or> clst \<ge> max_clust fs then Some (1, fs)
     else if fs_type fs = FS_FAT12 then do {
       let bc = fat12_bc clst;
       (r, fs) \<leftarrow> move_window dev (fat12_sect (fatbase fs) bc) fs;
       if r \<noteq> FR_OK then Some (0xFFFFFFFF, fs)
       else do {
         let wc = ucast (win fs ! fat12_ofs bc);
         (r, fs) \<leftarrow> move_window dev (fat12_sect (fatbase fs) (bc + 1)) fs;
         if r \<noteq> FR_OK then Some (0xFFFFFFFF, fs)
         else Some (fat12_pick clst (wc OR push_bit 8 (ucast (win fs ! fat12_ofs (bc + 1)))), fs) } }
     else if fs_type fs = FS_FAT16 then do {
       (r, fs) \<leftarrow> move_window dev (fatbase fs + clst div 256) fs;
       if r \<noteq> FR_OK then Some (0xFFFFFFFF, fs)
       else Some (ucast (LD_WORD (win fs) (fat_ofs clst 2)), fs) }
     else if fs_type fs = FS_FAT32 then do {
       (r, fs) \<leftarrow> move_window dev (fatbase fs + clst div 128) fs;
       if r \<noteq> FR_OK then Some (0xFFFFFFFF, fs)
       else Some (LD_DWORD (win fs) (fat_ofs clst 4) AND 0x0FFFFFFF, fs) }
     else Some (0xFFFFFFFF, fs))"

text \<open>The two bytes a FAT12 entry touches, each keeping the half that belongs to its neighbour.\<close>

definition fat12_lo :: "u32 \<Rightarrow> u32 \<Rightarrow> u8 \<Rightarrow> u8" where
  "fat12_lo clst val b = (if clst AND 1 \<noteq> 0 then (b AND 0x0F) OR push_bit 4 (ucast val) else ucast val)"

definition fat12_hi :: "u32 \<Rightarrow> u32 \<Rightarrow> u8 \<Rightarrow> u8" where
  "fat12_hi clst val b = (if clst AND 1 \<noteq> 0 then ucast (drop_bit 4 val)
     else (b AND 0xF0) OR (ucast (drop_bit 8 val) AND 0x0F))"

definition win_upd :: "(u8 list \<Rightarrow> u8 list) \<Rightarrow> 'd fatfs \<Rightarrow> 'd fatfs" where
  "win_upd f fs = fs\<lparr>win := f (win fs)\<rparr>"

definition put_cluster :: "'d device \<Rightarrow> u32 \<Rightarrow> u32 \<Rightarrow> 'd fatfs \<Rightarrow> (FRESULT \<times> 'd fatfs) option" where
  "put_cluster dev clst val fs =
    (if clst < 2 \<or> clst \<ge> max_clust fs then Some (FR_INT_ERR, fs)
     else do {
       (res, fs) \<leftarrow>
         (if fs_type fs = FS_FAT12 then do {
            let bc = fat12_bc clst;
            (r, fs) \<leftarrow> move_window dev (fat12_sect (fatbase fs) bc) fs;
            if r \<noteq> FR_OK then Some (r, fs)
            else do {
              let fs = win_upd (\<lambda>w. w[fat12_ofs bc := fat12_lo clst val (w ! fat12_ofs bc)]) fs;
              let fs = fs\<lparr>wflag := 1\<rparr>;
              (r, fs) \<leftarrow> move_window dev (fat12_sect (fatbase fs) (bc + 1)) fs;
              if r \<noteq> FR_OK then Some (r, fs)
              else Some (FR_OK, win_upd (\<lambda>w. w[fat12_ofs (bc + 1) := fat12_hi clst val (w ! fat12_ofs (bc + 1))]) fs) } }
          else if fs_type fs = FS_FAT16 then do {
            (r, fs) \<leftarrow> move_window dev (fatbase fs + clst div 256) fs;
            if r \<noteq> FR_OK then Some (r, fs)
            else Some (FR_OK, win_upd (ST_WORD (fat_ofs clst 2) (ucast val)) fs) }
          else if fs_type fs = FS_FAT32 then do {
            (r, fs) \<leftarrow> move_window dev (fatbase fs + clst div 128) fs;
            if r \<noteq> FR_OK then Some (r, fs)
            else Some (FR_OK, win_upd (ST_DWORD (fat_ofs clst 4) val) fs) }
          else Some (FR_INT_ERR, fs));
       Some (res, fs\<lparr>wflag := 1\<rparr>) })"

section \<open>Cluster chains\<close>

definition fsi_add :: "u32 \<Rightarrow> 'd fatfs \<Rightarrow> 'd fatfs" where
  "fsi_add n fs = (if free_clust fs \<noteq> 0xFFFFFFFF
     then fs\<lparr>free_clust := free_clust fs + n, fsi_flag := 1\<rparr> else fs)"

partial_function (option) remove_loop :: "'d device \<Rightarrow> u32 \<Rightarrow> 'd fatfs \<Rightarrow> (FRESULT \<times> 'd fatfs) option" where
  "remove_loop dev clst fs =
    (if clst < max_clust fs then do {
       (nxt, fs) \<leftarrow> get_cluster dev clst fs;
       if nxt = 0 then Some (FR_OK, fs)
       else if nxt = 1 then Some (FR_INT_ERR, fs)
       else if nxt = 0xFFFFFFFF then Some (FR_DISK_ERR, fs)
       else do {
         (res, fs) \<leftarrow> put_cluster dev clst 0 fs;
         if res \<noteq> FR_OK then Some (res, fs)
         else remove_loop dev nxt (fsi_add 1 fs) } }
     else Some (FR_OK, fs))"

definition remove_chain :: "'d device \<Rightarrow> u32 \<Rightarrow> 'd fatfs \<Rightarrow> (FRESULT \<times> 'd fatfs) option" where
  "remove_chain dev clst fs =
    (if clst < 2 \<or> clst \<ge> max_clust fs then Some (FR_INT_ERR, fs) else remove_loop dev clst fs)"

text \<open>The search for a free cluster: \<open>Inl\<close> the value returned early, \<open>Inr\<close> the cluster found.\<close>

partial_function (option) find_free ::
  "'d device \<Rightarrow> u32 \<Rightarrow> u32 \<Rightarrow> u32 \<Rightarrow> 'd fatfs \<Rightarrow> ((u32 + u32) \<times> 'd fatfs) option" where
  "find_free dev mcl scl ncl fs =
    (if ncl + 1 \<ge> mcl \<and> 2 > scl then Some (Inl 0, fs)
     else do {
       (cs, fs) \<leftarrow> get_cluster dev (if ncl + 1 \<ge> mcl then 2 else ncl + 1) fs;
       if cs = 0 then Some (Inr (if ncl + 1 \<ge> mcl then 2 else ncl + 1), fs)
       else if cs = 0xFFFFFFFF \<or> cs = 1 then Some (Inl cs, fs)
       else if (if ncl + 1 \<ge> mcl then 2 else ncl + 1) = scl then Some (Inl 0, fs)
       else find_free dev mcl scl (if ncl + 1 \<ge> mcl then 2 else ncl + 1) fs })"

text \<open>Marking the cluster found and linking it to its predecessor.\<close>

definition link_cluster :: "'d device \<Rightarrow> u32 \<Rightarrow> u32 \<Rightarrow> 'd fatfs \<Rightarrow> (u32 \<times> 'd fatfs) option" where
  "link_cluster dev clst ncl fs = do {
     (r, fs) \<leftarrow> put_cluster dev ncl 0x0FFFFFFF fs;
     if r \<noteq> FR_OK then Some (0xFFFFFFFF, fs)
     else do {
       (r, fs) \<leftarrow> (if clst \<noteq> 0 then put_cluster dev clst ncl fs else Some (FR_OK, fs));
       if r \<noteq> FR_OK then Some (0xFFFFFFFF, fs)
       else Some (ncl, fsi_add (-1) (fs\<lparr>last_clust := ncl\<rparr>)) } }"

definition create_chain :: "'d device \<Rightarrow> u32 \<Rightarrow> 'd fatfs \<Rightarrow> (u32 \<times> 'd fatfs) option" where
  "create_chain dev clst fs = do {
     let mcl = max_clust fs;
     (start, fs) \<leftarrow>
       (if clst = 0
        then Some (Inr (if last_clust fs = 0 \<or> last_clust fs \<ge> mcl then 1 else last_clust fs), fs)
        else do {
          (cs, fs) \<leftarrow> get_cluster dev clst fs;
          Some (if cs < 2 then Inl 1 else if cs < mcl then Inl cs else Inr clst, fs) });
     case start of
       Inl v \<Rightarrow> Some (v, fs)
     | Inr scl \<Rightarrow> do {
         (found, fs) \<leftarrow> find_free dev mcl scl scl fs;
         (case found of Inl v \<Rightarrow> Some (v, fs) | Inr ncl \<Rightarrow> link_cluster dev clst ncl fs) } }"

definition clust2sect :: "u32 \<Rightarrow> 'd fatfs \<Rightarrow> u32" where
  "clust2sect clst fs =
    (let clst = clst - 2 in
     if clst \<ge> max_clust fs - 2 then 0 else clst * ucast (csize fs) + database fs)"

section \<open>The volume behind the window\<close>

text \<open>
  The contents of the volume as the file system sees them: the window holds its sector (number 0 stands
  for no sector), the device the others.
\<close>

definition vol :: "('d \<Rightarrow> u32 \<Rightarrow> u8 list) \<Rightarrow> 'd fatfs \<Rightarrow> u32 \<Rightarrow> u8 list" where
  "vol sectors fs x = (if x = winsect fs \<and> x \<noteq> 0 then win fs else sectors (disk fs) x)"

text \<open>
  Well-formed objects: a clean window agrees with the device, a dirty one belongs to a sector, and the
  window never shows a sector before the first table.
\<close>

definition fs_inv :: "('d \<Rightarrow> u32 \<Rightarrow> u8 list) \<Rightarrow> ('d \<Rightarrow> bool) \<Rightarrow> 'd fatfs \<Rightarrow> bool" where
  "fs_inv sectors good fs \<longleftrightarrow> good (disk fs) \<and> length (win fs) = 512
     \<and> (wflag fs = 0 \<longrightarrow> winsect fs \<noteq> 0 \<longrightarrow> win fs = sectors (disk fs) (winsect fs))
     \<and> (wflag fs \<noteq> 0 \<longrightarrow> winsect fs \<noteq> 0) \<and> (winsect fs \<noteq> 0 \<longrightarrow> fatbase fs \<le> winsect fs)
     \<and> unat (fatbase fs) + unat (n_fats fs) * unat (sects_fat fs) < 2 ^ 32"

text \<open>The sectors of the table's copies.\<close>

definition mirror :: "'d fatfs \<Rightarrow> u32 set" where
  "mirror fs = {x. unat (fatbase fs) + unat (sects_fat fs) \<le> unat x
     \<and> unat x < unat (fatbase fs) + unat (n_fats fs) * unat (sects_fat fs)}"

definition only_window :: "'d fatfs \<Rightarrow> 'd fatfs \<Rightarrow> bool" where
  "only_window fs fs' \<longleftrightarrow>
     fs' = fs\<lparr>wflag := wflag fs', winsect := winsect fs', win := win fs', disk := disk fs'\<rparr>"

lemma only_window_fields:
  assumes "only_window fs fs'"
  shows "fs_type fs' = fs_type fs" "csize fs' = csize fs" "n_fats fs' = n_fats fs" "fs_id fs' = fs_id fs"
    "n_rootdir fs' = n_rootdir fs" "fsi_flag fs' = fsi_flag fs" "last_clust fs' = last_clust fs"
    "free_clust fs' = free_clust fs" "sects_fat fs' = sects_fat fs" "max_clust fs' = max_clust fs"
    "fatbase fs' = fatbase fs" "dirbase fs' = dirbase fs" "database fs' = database fs" "mirror fs' = mirror fs"
  using assms by (cases fs; cases fs'; simp add: only_window_def mirror_def)+

lemma only_window_refl [simp]: "only_window fs fs"
  by (simp add: only_window_def)

lemma only_window_trans: "only_window fs gs \<Longrightarrow> only_window gs hs \<Longrightarrow> only_window fs hs"
  by (cases fs; cases gs; cases hs) (simp add: only_window_def)

lemma only_window_upd:
  "only_window fs gs \<Longrightarrow> only_window fs (gs\<lparr>wflag := a\<rparr>)" "only_window fs gs \<Longrightarrow> only_window fs (gs\<lparr>disk := d\<rparr>)"
  "only_window fs gs \<Longrightarrow> only_window fs (gs\<lparr>win := w\<rparr>)" "only_window fs gs \<Longrightarrow> only_window fs (gs\<lparr>winsect := x\<rparr>)"
  by (cases fs; cases gs; simp add: only_window_def)+

lemma mirror_target:
  assumes "unat fb + unat nf * unat sf < 2 ^ 32" "fb \<le> x" "x < fb + sf" "Suc i < unat (nf :: u8)"
  shows "unat (x + of_nat (Suc i) * sf) = unat x + Suc i * unat (sf :: u32)"
    "unat fb + unat sf \<le> unat x + Suc i * unat sf" "unat x + Suc i * unat sf < unat fb + unat nf * unat sf"
proof -
  have "1 * unat sf \<le> unat nf * unat sf" using assms(4) by (intro mult_right_mono) auto
  then have "unat fb + unat sf < 2 ^ 32" using assms(1) by linarith
  then have "unat (fb + sf) = unat fb + unat sf" by (intro unat_add_lem [THEN iffD1]) simp
  then have lt: "unat x < unat fb + unat sf" using assms(3) by (simp add: word_less_nat_alt)
  have "(Suc i + 1) * unat sf \<le> unat nf * unat sf" using assms(4) by (intro mult_right_mono) auto
  then show less: "unat x + Suc i * unat sf < unat fb + unat nf * unat sf" using lt by simp
  have "1 * unat sf \<le> Suc i * unat sf" by (intro mult_right_mono) auto
  then show "unat fb + unat sf \<le> unat x + Suc i * unat sf" using assms(2) by (simp add: word_le_nat_alt)
  have lt2: "unat x + Suc i * unat sf < 2 ^ 32" using less assms(1) by simp
  have "x + of_nat (Suc i) * sf = of_nat (unat x + Suc i * unat sf)" by (simp add: distrib_right)
  then show "unat (x + of_nat (Suc i) * sf) = unat x + Suc i * unat sf"
    using lt2 by (simp only: unat_of_nat) simp
qed

context block_device
begin

lemma read1:
  assumes "good d" "length b = 512"
  obtains r b' d' where "d_read dev b sec 1 d = Some (r, b', d')" "good d'" "sectors d' = sectors d"
    "r = RES_OK \<Longrightarrow> b' = sectors d sec" "r \<noteq> RES_OK \<Longrightarrow> b' = b"
  using read_law [OF assms(1), of b 1 sec] assms(2) by auto

lemma write1:
  assumes "good d" "length b = 512"
  obtains r d' where "d_write dev b sec 1 d = Some (r, d')" "good d'"
    "\<And>x. x \<noteq> sec \<Longrightarrow> sectors d' x = sectors d x" "r = RES_OK \<Longrightarrow> sectors d' sec = b"
  using write_law [OF assms(1), of b 1 sec] assms(2) by (auto simp: span_def)

lemma mirror_loop_ok:
  assumes "good d" "length w = 512"
  shows "\<exists>d'. mirror_loop dev w sects k wsect d = Some d' \<and> good d'
    \<and> (\<forall>x. (\<forall>i<k. x \<noteq> wsect + of_nat (Suc i) * sects) \<longrightarrow> sectors d' x = sectors d x)"
  using assms(1)
proof (induction k arbitrary: wsect d)
  case (Suc k)
  obtain r e where e: "d_write dev w (wsect + sects) 1 d = Some (r, e)" "good e"
    "\<And>x. x \<noteq> wsect + sects \<Longrightarrow> sectors e x = sectors d x"
    using write1 [OF Suc.prems assms(2)] by metis
  obtain d' where d': "mirror_loop dev w sects k (wsect + sects) e = Some d'" "good d'"
    "\<forall>x. (\<forall>i<k. x \<noteq> wsect + sects + of_nat (Suc i) * sects) \<longrightarrow> sectors d' x = sectors e x"
    using Suc.IH [OF e(2)] by blast
  have "sectors d' x = sectors d x" if "\<forall>i<Suc k. x \<noteq> wsect + of_nat (Suc i) * sects" for x
  proof -
    have "x \<noteq> wsect + sects" using that [rule_format, of 0] by simp
    moreover have "x \<noteq> wsect + sects + of_nat (Suc i) * sects" if "i < k" for i
      using \<open>\<forall>i<Suc k. _ i\<close> [rule_format, of "Suc i"] that by (simp add: algebra_simps)
    ultimately show ?thesis using d'(3) e(3) by metis
  qed
  then show ?case using e(1) d'(1,2) by simp
qed simp

lemma flush_window_ok:
  assumes "fs_inv sectors good fs" "wflag fs \<noteq> 0"
  shows "\<exists>r fs'. flush_window dev fs = Some (r, fs') \<and> fs_inv sectors good fs' \<and> only_window fs fs'
    \<and> win fs' = win fs \<and> winsect fs' = winsect fs \<and> (\<forall>x. x \<notin> mirror fs \<longrightarrow> vol sectors fs' x = vol sectors fs x)
    \<and> (r = FR_OK \<longrightarrow> wflag fs' = 0)"
proof -
  note inv = assms(1) [unfolded fs_inv_def]
  have ws: "winsect fs \<noteq> 0" using inv assms(2) by blast
  obtain r d where d: "d_write dev (win fs) (winsect fs) 1 (disk fs) = Some (r, d)" "good d"
    "\<And>x. x \<noteq> winsect fs \<Longrightarrow> sectors d x = sectors (disk fs) x" "r = RES_OK \<Longrightarrow> sectors d (winsect fs) = win fs"
    using write1 [of "disk fs" "win fs"] inv by metis
  show ?thesis
  proof (cases "r = RES_OK \<and> winsect fs < fatbase fs + sects_fat fs")
    case True
    obtain e where e: "mirror_loop dev (win fs) (sects_fat fs) (unat (n_fats fs) - 1) (winsect fs) d = Some e" "good e"
      "\<forall>x. (\<forall>i<unat (n_fats fs) - 1. x \<noteq> winsect fs + of_nat (Suc i) * sects_fat fs) \<longrightarrow> sectors e x = sectors d x"
      using mirror_loop_ok [OF d(2), of "win fs"] inv by blast
    have tgt: "winsect fs + of_nat (Suc i) * sects_fat fs \<in> mirror fs"
      "winsect fs < winsect fs + of_nat (Suc i) * sects_fat fs" if "i < unat (n_fats fs) - 1" for i
    proof -
      note m = mirror_target [of "fatbase fs" "n_fats fs" "sects_fat fs" "winsect fs" i]
      from m that inv ws True show "winsect fs + of_nat (Suc i) * sects_fat fs \<in> mirror fs"
        by (simp add: mirror_def)
      have "0 < unat (sects_fat fs)"
      proof (rule ccontr)
        assume "\<not> 0 < unat (sects_fat fs)"
        then have "sects_fat fs = 0" by (simp add: unat_eq_zero)
        with True inv ws show False by auto
      qed
      then show "winsect fs < winsect fs + of_nat (Suc i) * sects_fat fs"
        using m(1) that inv ws True by (simp add: word_less_nat_alt)
    qed
    have s: "sectors e x = sectors d x" if "x \<notin> mirror fs \<or> x = winsect fs" for x
      using e(3) tgt that by (metis less_irrefl)
    have *: "flush_window dev fs = Some (FR_OK, fs\<lparr>disk := e, wflag := 0\<rparr>)"
      using d(1) e(1) True by (simp add: flush_window_def)
    show ?thesis unfolding * using inv e(2) s d True ws
      by (auto simp: fs_inv_def vol_def intro!: only_window_upd)
  next
    case False
    then have *: "flush_window dev fs = Some (if r = RES_OK then (FR_OK, fs\<lparr>disk := d, wflag := 0\<rparr>)
        else (FR_DISK_ERR, fs\<lparr>disk := d\<rparr>))"
      using d(1) by (auto simp: flush_window_def)
    show ?thesis unfolding * using inv d assms(2) ws
      by (auto simp: fs_inv_def vol_def intro!: only_window_upd)
  qed
qed

text \<open>What every access through the window keeps.\<close>

definition wstep :: "'d fatfs \<Rightarrow> 'd fatfs \<Rightarrow> bool" where
  "wstep fs fs' \<longleftrightarrow> fs_inv sectors good fs' \<and> only_window fs fs' \<and> (winsect fs \<noteq> 0 \<longrightarrow> winsect fs' \<noteq> 0)
     \<and> (\<forall>x. x \<notin> mirror fs \<longrightarrow> vol sectors fs' x = vol sectors fs x)"

lemma wstep_refl: "fs_inv sectors good fs \<Longrightarrow> wstep fs fs"
  by (simp add: wstep_def)

lemma wstep_trans:
  assumes "wstep fs gs" "wstep gs hs"
  shows "wstep fs hs"
proof -
  note s = assms [unfolded wstep_def]
  have "only_window fs hs" using only_window_trans [of fs gs hs] s by blast
  moreover have "mirror gs = mirror fs" using s(1) only_window_fields(14) by blast
  ultimately show ?thesis using s by (simp add: wstep_def)
qed

lemma move_window_ok:
  assumes "fs_inv sectors good fs" "sector \<noteq> 0 \<Longrightarrow> fatbase fs \<le> sector"
  shows "\<exists>r fs'. move_window dev sector fs = Some (r, fs') \<and> wstep fs fs' \<and> r \<in> {FR_OK, FR_DISK_ERR}
    \<and> (r = FR_OK \<longrightarrow> sector \<noteq> 0 \<longrightarrow> winsect fs' = sector) \<and> (r = FR_OK \<longrightarrow> sector = 0 \<longrightarrow> wflag fs' = 0)"
proof (cases "winsect fs = sector")
  case True
  then have "move_window dev sector fs = Some (FR_OK, fs)" by (simp add: move_window_def)
  then show ?thesis using assms(1) True wstep_refl by (auto simp: fs_inv_def)
next
  case False
  obtain r gs where gs: "(if wflag fs \<noteq> 0 then flush_window dev fs else Some (FR_OK, fs)) = Some (r, gs)"
    "wstep fs gs" "r = FR_OK \<Longrightarrow> wflag gs = 0"
  proof (cases "wflag fs = 0")
    case True
    with that [of FR_OK fs] wstep_refl [OF assms(1)] show ?thesis by simp
  next
    case False
    from flush_window_ok [OF assms(1) False] that False assms(1) show ?thesis
      by (auto simp: wstep_def)
  qed
  show ?thesis
  proof (cases "r = FR_OK \<and> sector \<noteq> 0")
    case False
    with gs(1) \<open>winsect fs \<noteq> sector\<close> have "move_window dev sector fs =
        Some (if r \<noteq> FR_OK then FR_DISK_ERR else FR_OK, gs)"
      unfolding move_window_def by auto
    then show ?thesis using gs False by auto
  next
    case True
    have inv: "fs_inv sectors good gs" using gs(2) by (simp add: wstep_def)
    note inv' = inv [unfolded fs_inv_def]
    obtain q b d where d: "d_read dev (win gs) sector 1 (disk gs) = Some (q, b, d)" "good d"
      "sectors d = sectors (disk gs)" "q = RES_OK \<Longrightarrow> b = sectors (disk gs) sector" "q \<noteq> RES_OK \<Longrightarrow> b = win gs"
      using read1 [of "disk gs" "win gs" sector] inv' by metis
    define hs where "hs = (if q = RES_OK then gs\<lparr>win := b, disk := d, winsect := sector\<rparr> else gs\<lparr>win := b, disk := d\<rparr>)"
    have *: "move_window dev sector fs = Some (if q = RES_OK then FR_OK else FR_DISK_ERR, hs)"
      using gs(1) \<open>winsect fs \<noteq> sector\<close> True d(1) unfolding move_window_def by (auto simp: hs_def)
    have fb: "fatbase gs = fatbase fs" using gs(2) by (simp add: wstep_def only_window_fields)
    have len: "length b = 512" using d(4,5) inv' sector_size [of "disk gs" sector] by metis
    have clean: "winsect gs \<noteq> 0 \<Longrightarrow> win gs = sectors (disk gs) (winsect gs)" using inv' gs(3) True by blast
    have "fs_inv sectors good hs" using inv' d gs(3) True assms(2) fb len by (auto simp: fs_inv_def hs_def)
    moreover have "vol sectors hs x = vol sectors gs x" for x
      using clean d(3-5) by (auto simp: vol_def hs_def)
    moreover have "only_window gs hs" by (simp add: hs_def only_window_upd)
    moreover have "winsect gs \<noteq> 0 \<longrightarrow> winsect hs \<noteq> 0" using True by (simp add: hs_def)
    ultimately have "wstep gs hs" by (simp add: wstep_def)
    with gs(2) have "wstep fs hs" by (rule wstep_trans)
    then show ?thesis unfolding * using True by (auto simp: hs_def)
  qed
qed

end

section \<open>The allocation table as a function\<close>

text \<open>
  Byte \<open>i\<close> of the first table, and the entry of a cluster as the FAT specification defines it: 12, 16 or
  28 significant bits, little-endian, two entries sharing the middle byte of three on FAT12.
\<close>

definition tbl :: "('d \<Rightarrow> u32 \<Rightarrow> u8 list) \<Rightarrow> 'd fatfs \<Rightarrow> nat \<Rightarrow> u8" where
  "tbl sectors fs i = vol sectors fs (fatbase fs + of_nat (i div 512)) ! (i mod 512)"

definition le16 :: "u8 \<Rightarrow> u8 \<Rightarrow> u16" where
  "le16 a b = push_bit 8 (ucast b) OR ucast a"

definition le32 :: "u8 \<Rightarrow> u8 \<Rightarrow> u8 \<Rightarrow> u8 \<Rightarrow> u32" where
  "le32 a b c d = push_bit 24 (ucast d) OR push_bit 16 (ucast c) OR push_bit 8 (ucast b) OR ucast a"

definition fat_entry :: "('d \<Rightarrow> u32 \<Rightarrow> u8 list) \<Rightarrow> 'd fatfs \<Rightarrow> u32 \<Rightarrow> u32" where
  "fat_entry sectors fs clst =
    (let b = tbl sectors fs; c = unat clst in
     if fs_type fs = FS_FAT12 then fat12_pick clst (le16 (b (3 * c div 2)) (b (3 * c div 2 + 1)))
     else if fs_type fs = FS_FAT16 then ucast (le16 (b (2 * c)) (b (2 * c + 1)))
     else le32 (b (4 * c)) (b (4 * c + 1)) (b (4 * c + 2)) (b (4 * c + 3)) AND 0x0FFFFFFF)"

text \<open>
  A table that is where the boot sector says and holds an entry for every cluster; the number of clusters
  is within the range of its type.
\<close>

definition table_ok :: "'d fatfs \<Rightarrow> bool" where
  "table_ok fs \<longleftrightarrow> fatbase fs \<noteq> 0 \<and> 0 < unat (n_fats fs) \<and> 2 \<le> max_clust fs \<and>
     (if fs_type fs = FS_FAT12 then 3 * unat (max_clust fs) \<le> 1024 * unat (sects_fat fs) \<and> max_clust fs \<le> 0xFF7
      else if fs_type fs = FS_FAT16 then unat (max_clust fs) \<le> 256 * unat (sects_fat fs) \<and> max_clust fs \<le> 0xFFF7
      else fs_type fs = FS_FAT32 \<and> unat (max_clust fs) \<le> 128 * unat (sects_fat fs) \<and> max_clust fs \<le> 0x0FFFFFF7)"

definition cluster_no :: "'d fatfs \<Rightarrow> u32 \<Rightarrow> bool" where
  "cluster_no fs c \<longleftrightarrow> 2 \<le> c \<and> c < max_clust fs"

lemma table_ok_only_window: "only_window fs fs' \<Longrightarrow> table_ok fs' = table_ok fs \<and> cluster_no fs' = cluster_no fs"
  by (auto simp: table_ok_def cluster_no_def only_window_fields fun_eq_iff)

text \<open>Sectors of the table.\<close>

lemma table_sector:
  assumes "table_ok fs" "unat (fatbase fs) + unat (n_fats fs) * unat (sects_fat fs) < 2 ^ 32" "i < 512 * unat (sects_fat fs)"
  shows "unat (fatbase fs + of_nat (i div 512)) = unat (fatbase fs) + i div 512"
    "fatbase fs + of_nat (i div 512) \<notin> mirror fs" "fatbase fs \<le> fatbase fs + of_nat (i div 512)"
    "fatbase fs + of_nat (i div 512) \<noteq> 0"
proof -
  have lt: "i div 512 < unat (sects_fat fs)" using assms(3) by (simp add: div_less_iff_less_mult mult.commute)
  have "1 * unat (sects_fat fs) \<le> unat (n_fats fs) * unat (sects_fat fs)"
    using assms(1) by (intro mult_right_mono) (simp_all add: table_ok_def)
  then have sum: "unat (fatbase fs) + i div 512 < 2 ^ 32" using lt assms(2) by linarith
  have "fatbase fs + of_nat (i div 512) = of_nat (unat (fatbase fs) + i div 512)" by simp
  then show u: "unat (fatbase fs + of_nat (i div 512)) = unat (fatbase fs) + i div 512"
    using sum by (simp only: unat_of_nat) simp
  show "fatbase fs + of_nat (i div 512) \<notin> mirror fs" using lt by (simp add: mirror_def u)
  show "fatbase fs \<le> fatbase fs + of_nat (i div 512)" unfolding word_le_nat_alt u by simp
  show "fatbase fs + of_nat (i div 512) \<noteq> 0"
  proof
    assume "fatbase fs + of_nat (i div 512) = 0"
    then have "unat (fatbase fs) = 0" using u by simp
    then show False using assms(1) by (simp add: table_ok_def unat_eq_zero)
  qed
qed

lemma table_sector_inj:
  assumes "table_ok fs" "unat (fatbase fs) + unat (n_fats fs) * unat (sects_fat fs) < 2 ^ 32"
    "i < 512 * unat (sects_fat fs)" "j < 512 * unat (sects_fat fs)"
    "fatbase fs + of_nat (i div 512) = fatbase fs + of_nat (j div 512)"
  shows "i div 512 = j div 512"
proof -
  have "unat (fatbase fs) + i div 512 = unat (fatbase fs) + j div 512"
    unfolding table_sector(1) [OF assms(1-3), symmetric] table_sector(1) [OF assms(1,2,4), symmetric] assms(5) ..
  then show ?thesis by (rule add_left_imp_eq)
qed

text \<open>Where the code looks for an entry.\<close>

lemma fat_place:
  "c div 256 = of_nat (2 * unat c div 512)" "c div 128 = of_nat (4 * unat c div 512)"
  "fat_ofs c 2 = 2 * unat c mod 512" "fat_ofs c 4 = 4 * unat c mod 512" for c :: u32
proof -
  have "of_nat (unat (c div 256)) = c div 256" "of_nat (unat (c div 128)) = c div 128" by simp_all
  then show "c div 256 = of_nat (2 * unat c div 512)" "c div 128 = of_nat (4 * unat c div 512)"
    by (simp_all add: unat_div)
  have "unat (ucast c :: u16) = unat c mod 65536" by (simp add: unsigned_ucast_eq take_bit_eq_mod)
  moreover have "k mod 65536 * 2 mod 512 = 2 * k mod 512" "k mod 65536 * 4 mod 512 = 4 * k mod 512" for k :: nat
    using mult_mod_right [of 2 k 65536] mult_mod_right [of 4 k 65536] by (simp_all add: mult.commute mod_mod_cancel)
  ultimately show "fat_ofs c 2 = 2 * unat c mod 512" "fat_ofs c 4 = 4 * unat c mod 512"
    by (simp_all only: fat_ofs_def)
qed

lemma fat12_place:
  assumes "unat c < 0xFF7"
  shows "unat (fat12_bc c) = 3 * unat c div 2" "unat (fat12_bc c + 1) = 3 * unat c div 2 + 1"
    "fat12_sect b (fat12_bc c) = b + of_nat (3 * unat c div 2 div 512)"
    "fat12_sect b (fat12_bc c + 1) = b + of_nat ((3 * unat c div 2 + 1) div 512)"
    "fat12_ofs (fat12_bc c) = 3 * unat c div 2 mod 512" "fat12_ofs (fat12_bc c + 1) = (3 * unat c div 2 + 1) mod 512"
proof -
  have "unat (ucast c :: u16) = unat c" using assms by (simp add: unsigned_ucast_eq take_bit_eq_mod)
  then have bc: "fat12_bc c = of_nat (3 * unat c div 2)" by (simp add: fat12_bc_def mult.commute)
  have lt: "3 * unat c div 2 < 6143" using assms by linarith
  then show u: "unat (fat12_bc c) = 3 * unat c div 2" unfolding bc by (simp only: unat_of_nat) simp
  have "fat12_bc c + 1 = of_nat (3 * unat c div 2 + 1)" unfolding bc by simp
  then show v: "unat (fat12_bc c + 1) = 3 * unat c div 2 + 1" using lt by (simp only: unat_of_nat) simp
  have s: "fat12_sect b x = b + of_nat (unat x div 512)" for x
  proof -
    have "ucast (x div 512) = (of_nat (unat (x div 512)) :: u32)" by simp
    then show ?thesis by (simp add: fat12_sect_def unat_div)
  qed
  show "fat12_sect b (fat12_bc c) = b + of_nat (3 * unat c div 2 div 512)"
    "fat12_sect b (fat12_bc c + 1) = b + of_nat ((3 * unat c div 2 + 1) div 512)" by (simp_all only: s u v)
  show "fat12_ofs (fat12_bc c) = 3 * unat c div 2 mod 512" "fat12_ofs (fat12_bc c + 1) = (3 * unat c div 2 + 1) mod 512"
    by (simp_all only: fat12_ofs_def u v)
qed

section \<open>A small volume\<close>

text \<open>
  A volume with one-sector tables at sectors 1 and 2 on the completing disk, the window on the first
  table with changes not yet written.
\<close>

definition small_fs :: "u8 \<Rightarrow> u8 list \<Rightarrow> disk_st fatfs" where
  "small_fs ty w = \<lparr>fs_type = ty, csize = 1, n_fats = 2, wflag = 1, fs_id = 1, n_rootdir = 16, fsi_flag = 0,
     last_clust = 0, free_clust = 5, fsi_sector = 0, sects_fat = 1, max_clust = 8, fatbase = 1, dirbase = 3,
     database = 4, winsect = 1, win = w, disk = disk_reset_st\<rparr>"

lemma disk_reset_ok: "disk_ok done_env ba disk_reset_st"
  by (rule done_env_disk_ok) (simp add: disk_inv_def disk_reset_st_def host_ok_def by_dma_def)

lemma small_fs_ok:
  assumes "length w = 512" "ty \<in> {FS_FAT12, FS_FAT16, FS_FAT32}"
  shows "fs_inv image (disk_ok done_env ba) (small_fs ty w)" "table_ok (small_fs ty w)"
    "winsect (small_fs ty w) \<noteq> 0" "cluster_no (small_fs ty w) c \<longleftrightarrow> 2 \<le> c \<and> c < 8"
  using assms by (auto simp: small_fs_def fs_inv_def table_ok_def cluster_no_def disk_reset_ok)

text \<open>Its table is what the window holds.\<close>

lemma small_fs_tbl: "i < 512 \<Longrightarrow> tbl image (small_fs ty w) i = w ! i"
  by (simp add: tbl_def vol_def small_fs_def)

end
