(* ===== verification/FatTable.thy ===== *)
theory FatTable
  imports Fat
begin

text \<open>
  The allocation table of \<^verbatim>\<open>ff.c\<close> as a function from cluster numbers to entries: what a store changes in the
  bytes of the table, and that \<^const>\<open>get_cluster\<close> and \<^const>\<open>put_cluster\<close> read and update that function.
\<close>

section \<open>Bytes and entries\<close>

lemma nibble_masks: "(0xFFF :: u16) = mask 12" "(0xFFF :: u32) = mask 12" "(0x0F :: u8) = mask 4" "(0xF0 :: u8) = push_bit 4 (mask 4)"
  "(0xFFFF :: u32) = mask 16" "(0x0FFFFFFF :: u32) = mask 28"
  by (simp_all add: mask_eq_exp_minus_1 push_bit_eq_mult)

lemma fat12_pick_even:
  "\<not> clst AND 1 \<noteq> 0 \<Longrightarrow> b AND 0x0F = b' AND 0x0F \<Longrightarrow> fat12_pick clst (le16 a b) = fat12_pick clst (le16 a b')"
proof -
  assume e: "\<not> clst AND 1 \<noteq> 0" and m: "b AND 0x0F = b' AND 0x0F"
  have "le16 a b AND 0xFFF = le16 a b' AND 0xFFF"
  proof (rule bit_word_eqI)
    fix n assume "n < LENGTH(16)"
    have "bit (b AND 0x0F) (n - 8) = bit (b' AND 0x0F) (n - 8)" using m by simp
    then show "bit (le16 a b AND 0xFFF) n = bit (le16 a b' AND 0xFFF) n"
      unfolding nibble_masks le16_def by (auto simp: bit_simps)
  qed
  then show ?thesis using e by (simp add: fat12_pick_def)
qed

lemma fat12_pick_odd:
  "clst AND 1 \<noteq> 0 \<Longrightarrow> a AND 0xF0 = a' AND 0xF0 \<Longrightarrow> fat12_pick clst (le16 a b) = fat12_pick clst (le16 a' b)"
proof -
  assume e: "clst AND 1 \<noteq> 0" and m: "a AND 0xF0 = a' AND 0xF0"
  have "drop_bit 4 (le16 a b) = drop_bit 4 (le16 a' b)"
  proof (rule bit_word_eqI)
    fix n assume "n < LENGTH(16)"
    have "bit (a AND 0xF0) (4 + n) = bit (a' AND 0xF0) (4 + n)" using m by simp
    then show "bit (drop_bit 4 (le16 a b)) n = bit (drop_bit 4 (le16 a' b)) n"
      unfolding nibble_masks le16_def by (auto simp: bit_simps dest: bit_imp_le_length)
  qed
  then show ?thesis using e by (simp add: fat12_pick_def)
qed

lemma fat12_pick_put:
  "fat12_pick clst (le16 (fat12_lo clst v a) (fat12_hi clst v b)) = v AND 0xFFF"
  unfolding nibble_masks fat12_pick_def le16_def fat12_lo_def fat12_hi_def
  by (rule bit_word_eqI) (auto simp: bit_simps)

lemma fat12_neighbours:
  "clst AND 1 \<noteq> 0 \<Longrightarrow> fat12_lo clst v a AND 0x0F = a AND 0x0F"
  "\<not> clst AND 1 \<noteq> 0 \<Longrightarrow> fat12_hi clst v b AND 0xF0 = b AND 0xF0"
  unfolding nibble_masks fat12_lo_def fat12_hi_def
  by (auto intro!: bit_word_eqI simp: bit_simps)

lemma le16_split: "le16 (ucast v) (ucast (drop_bit 8 v)) = v" for v :: u16
  unfolding le16_def by (rule bit_word_eqI) (auto simp: bit_simps)

lemma le32_split: "le32 (ucast v) (ucast (drop_bit 8 v)) (ucast (drop_bit 16 v)) (ucast (drop_bit 24 v)) = v"
proof (rule bit_word_eqI)
  fix n assume "n < LENGTH(32)"
  then consider "n < 8" | "8 \<le> n" "n < 16" | "16 \<le> n" "n < 24" | "24 \<le> n" "n < 32" by force
  then show "bit (le32 (ucast v) (ucast (drop_bit 8 v)) (ucast (drop_bit 16 v)) (ucast (drop_bit 24 v))) n = bit v n"
    by cases (auto simp: le32_def bit_simps)
qed

lemma ucast_ucast_16: "ucast (ucast v :: u16) = v AND (0xFFFF :: u32)"
  unfolding nibble_masks by (rule bit_word_eqI) (auto simp: bit_simps)

lemma aligned_block:
  fixes m n c k :: nat
  assumes "k < m" "m * n = 512"
  shows "(m * c + k) div 512 = m * c div 512" "(m * c + k) mod 512 = m * c mod 512 + k"
proof -
  have d: "(m * c + j) div m = c" "(m * c + j) mod m = j" if "j < m" for j using that by simp_all
  have z: "0 < m" using assms(1) by simp
  show "(m * c + k) div 512 = m * c div 512"
    unfolding assms(2) [symmetric] using d(1) [OF assms(1)] d(1) [OF z] by (simp add: div_mult2_eq)
  show "(m * c + k) mod 512 = m * c mod 512 + k"
    unfolding assms(2) [symmetric] using d [OF assms(1)] d [OF z] by (simp add: mod_mult2_eq)
qed

text \<open>The sectors of the tables and their copies: all a change of an entry can touch.\<close>

definition fat_area :: "'d fatfs \<Rightarrow> u32 set" where
  "fat_area fs = {x. unat (fatbase fs) \<le> unat x \<and> unat x < unat (fatbase fs) + unat (n_fats fs) * unat (sects_fat fs)}"

lemma mirror_fat_area: "x \<in> mirror fs \<Longrightarrow> x \<in> fat_area fs"
  by (simp add: mirror_def fat_area_def)

lemma fat_area_only_window: "only_window fs fs' \<Longrightarrow> fat_area fs' = fat_area fs"
  by (simp add: fat_area_def only_window_fields)

text \<open>The significant bits of an entry.\<close>

definition fat_val :: "'d fatfs \<Rightarrow> u32 \<Rightarrow> u32" where
  "fat_val fs v = (if fs_type fs = FS_FAT12 then v AND 0xFFF else if fs_type fs = FS_FAT16 then v AND 0xFFFF
     else v AND 0x0FFFFFFF)"

text \<open>FAT12: changing the two bytes of one entry, or only the first, leaves the other entries.\<close>

lemma fat12_others:
  assumes "c \<noteq> c'" "i = 3 * unat c div 2"
    and "t' i = t i \<or> t' i = fat12_lo c v (t i)" "t' (i + 1) = t (i + 1) \<or> t' (i + 1) = fat12_hi c v (t (i + 1))"
    and "\<And>j. j \<in> {3 * unat c' div 2, 3 * unat c' div 2 + 1} \<Longrightarrow> j \<noteq> i \<Longrightarrow> j \<noteq> i + 1 \<Longrightarrow> t' j = t j"
  shows "fat12_pick c' (le16 (t' (3 * unat c' div 2)) (t' (3 * unat c' div 2 + 1)))
    = fat12_pick c' (le16 (t (3 * unat c' div 2)) (t (3 * unat c' div 2 + 1)))"
proof -
  have o: "c AND 1 \<noteq> 0 \<longleftrightarrow> odd (unat c)" for c :: u32
  proof -
    have "c AND 1 = of_bool (odd c)" by (simp add: and_one_eq mod_2_eq_odd)
    moreover have "odd c \<longleftrightarrow> odd (unat c)" by transfer (simp add: even_nat_iff)
    ultimately show ?thesis by simp
  qed
  have ne: "unat c \<noteq> unat c'" using assms(1) word_unat_eq_iff [of c c'] by blast
  consider (prev) "odd (unat c)" "unat c = unat c' + 1" | (succ) "even (unat c)" "unat c' = unat c + 1"
    | (far) "3 * unat c' div 2 + 1 < i \<or> i + 1 < 3 * unat c' div 2"
  proof -
    consider (1) "unat c + 2 \<le> unat c'" | (2) "unat c' + 2 \<le> unat c" | (3) "unat c' = unat c + 1" | (4) "unat c = unat c' + 1"
      using ne by linarith
    then show thesis
    proof cases
      case 1 then show ?thesis using that(3) assms(2) by linarith
    next
      case 2 then show ?thesis using that(3) assms(2) by linarith
    next
      case 3
      show ?thesis
      proof (cases "even (unat c)")
        case False
        then obtain k where "unat c = 2 * k + 1" by (rule oddE)
        then have "i = 3 * k + 1" "3 * unat c' div 2 = 3 * k + 3" using 3 assms(2) by simp_all
        then have "i + 1 < 3 * unat c' div 2" by linarith
        then show ?thesis using that(3) by blast
      qed (use 3 that(2) in blast)
    next
      case 4
      show ?thesis
      proof (cases "odd (unat c)")
        case False
        then obtain k where "unat c = 2 * k" by (auto elim: evenE)
        then have k: "2 * k = unat c' + 1" using 4 by linarith
        then have "1 \<le> k" by linarith
        with k have "unat c' = 2 * (k - 1) + 1" by linarith
        then have "3 * unat c' div 2 = 3 * (k - 1) + 1" by simp
        moreover have "i = 3 * k" using \<open>unat c = 2 * k\<close> assms(2) by simp
        ultimately have "3 * unat c' div 2 + 1 < i" using \<open>1 \<le> k\<close> by linarith
        then show ?thesis using that(3) by blast
      qed (use 4 that(1) in blast)
    qed
  qed
  then show ?thesis
  proof cases
    case far
    then show ?thesis using assms(5) [of "3 * unat c' div 2"] assms(5) [of "3 * unat c' div 2 + 1"] by auto
  next
    case prev
    then obtain k where k: "unat c' = 2 * k" "unat c = 2 * k + 1" by (auto elim: oddE)
    then have i: "i = 3 * k + 1" "3 * unat c' div 2 = 3 * k" using assms(2) by simp_all
    have "t' (3 * k) = t (3 * k)" using assms(5) [of "3 * k"] i by simp
    moreover have "t' i AND 0x0F = t i AND 0x0F" using assms(3) fat12_neighbours(1) [of c v "t i"] prev(1) o [of c] by metis
    moreover have "\<not> c' AND 1 \<noteq> 0" using o [of c'] k(1) by simp
    ultimately show ?thesis using fat12_pick_even [of c' "t' i" "t i" "t (3 * k)"] unfolding i(2) i(1) by metis
  next
    case succ
    then obtain k where k: "unat c = 2 * k" "unat c' = 2 * k + 1" by (auto elim: evenE)
    then have i: "i = 3 * k" "3 * unat c' div 2 = 3 * k + 1" using assms(2) by simp_all
    have "t' (3 * k + 2) = t (3 * k + 2)" using assms(5) [of "3 * k + 2"] i by simp
    moreover have "t' (i + 1) AND 0xF0 = t (i + 1) AND 0xF0"
      using assms(4) fat12_neighbours(2) [of c v "t (i + 1)"] succ(1) o [of c] by metis
    moreover have "c' AND 1 \<noteq> 0" using o [of c'] k(2) by simp
    moreover have "3 * k + 1 + 1 = 3 * k + 2" by simp
    ultimately show ?thesis using fat12_pick_odd [of c' "t' (i + 1)" "t (i + 1)" "t (3 * k + 2)"] unfolding i(2) i(1) by metis
  qed
qed

text \<open>The bytes the stores put.\<close>

abbreviation "le_bytes2 v \<equiv> [ucast v, ucast (drop_bit 8 v)] :: u8 list"

abbreviation "le_bytes4 v \<equiv> [ucast v, ucast (drop_bit 8 v), ucast (drop_bit 16 v), ucast (drop_bit 24 v)] :: u8 list"

lemma ST_WORD_nth:
  assumes "p + 2 \<le> length w"
  shows "ST_WORD p v w ! q = (if p \<le> q \<and> q < p + length (le_bytes2 v) then le_bytes2 v ! (q - p) else w ! q)"
proof -
  consider "q = p" | "q = p + 1" | "q < p \<or> p + 1 < q" by linarith
  then show ?thesis using assms by cases (auto simp: ST_WORD_def nth_list_update)
qed

lemma ST_DWORD_nth:
  assumes "p + 4 \<le> length w"
  shows "ST_DWORD p v w ! q = (if p \<le> q \<and> q < p + length (le_bytes4 v) then le_bytes4 v ! (q - p) else w ! q)"
proof -
  consider "q = p" | "q = p + 1" | "q = p + 2" | "q = p + 3" | "q < p \<or> p + 3 < q" by linarith
  then show ?thesis using assms by cases (auto simp: ST_DWORD_def nth_list_update)
qed

lemma ST_length [simp]: "length (ST_WORD p v w) = length w" "length (ST_DWORD p u w) = length w"
  by (simp_all add: ST_WORD_def ST_DWORD_def)

context block_device
begin

lemma wstep_tbl:
  assumes "wstep fs gs" "table_ok fs" "fs_inv sectors good fs" "i < 512 * unat (sects_fat fs)"
  shows "tbl sectors gs i = tbl sectors fs i"
proof -
  have "only_window fs gs" using assms(1) by (simp add: wstep_def)
  then have fb: "fatbase gs = fatbase fs" by (rule only_window_fields)
  have "fatbase fs + of_nat (i div 512) \<notin> mirror fs"
    using table_sector(2) [OF assms(2) _ assms(4)] assms(3) by (simp add: fs_inv_def)
  then show ?thesis using assms(1) by (simp add: tbl_def wstep_def fb)
qed

text \<open>Moving the window to the sector of byte \<open>i\<close> of the table.\<close>

lemma move_to_tbl:
  assumes "fs_inv sectors good fs" "table_ok fs" "i < 512 * unat (sects_fat fs)"
  shows "\<exists>r gs. move_window dev (fatbase fs + of_nat (i div 512)) fs = Some (r, gs) \<and> wstep fs gs
    \<and> r \<in> {FR_OK, FR_DISK_ERR} \<and> (r = FR_OK \<longrightarrow> winsect gs = fatbase fs + of_nat (i div 512)
      \<and> (\<forall>j. j div 512 = i div 512 \<longrightarrow> win gs ! (j mod 512) = tbl sectors fs j))"
proof -
  have lt: "unat (fatbase fs) + unat (n_fats fs) * unat (sects_fat fs) < 2 ^ 32" using assms(1) by (simp add: fs_inv_def)
  note ts = table_sector [OF assms(2) lt assms(3)]
  obtain r gs where gs: "move_window dev (fatbase fs + of_nat (i div 512)) fs = Some (r, gs)" "wstep fs gs"
    "r \<in> {FR_OK, FR_DISK_ERR}" "r = FR_OK \<Longrightarrow> winsect gs = fatbase fs + of_nat (i div 512)"
    using move_window_ok [OF assms(1) ts(3)] ts(4) by blast
  have "win gs ! (j mod 512) = tbl sectors fs j" if "r = FR_OK" "j div 512 = i div 512" for j
  proof -
    have "vol sectors gs (fatbase fs + of_nat (i div 512)) = win gs" using gs(4) that(1) ts(4) by (simp add: vol_def)
    then show ?thesis using gs(2) ts(2) that(2) by (simp add: tbl_def wstep_def)
  qed
  then show ?thesis using gs by blast
qed

text \<open>Changing the window while it shows that sector.\<close>

lemma tbl_modify:
  assumes "fs_inv sectors good fs" "table_ok fs" "i < 512 * unat (sects_fat fs)"
    "winsect fs = fatbase fs + of_nat (i div 512)" "length (f (win fs)) = 512"
    "gs = (win_upd f fs)\<lparr>wflag := 1\<rparr>"
  shows "fs_inv sectors good gs" "only_window fs gs" "winsect gs = winsect fs"
    "\<And>x. x \<notin> fat_area fs \<Longrightarrow> vol sectors gs x = vol sectors fs x"
    "\<And>j. j < 512 * unat (sects_fat fs) \<Longrightarrow>
       tbl sectors gs j = (if j div 512 = i div 512 then f (win fs) ! (j mod 512) else tbl sectors fs j)"
proof -
  have lt: "unat (fatbase fs) + unat (n_fats fs) * unat (sects_fat fs) < 2 ^ 32" using assms(1) by (simp add: fs_inv_def)
  note ts = table_sector [OF assms(2) lt assms(3)]
  note inv = assms(1) [unfolded fs_inv_def]
  have g: "winsect gs = winsect fs" "disk gs = disk fs" "win gs = f (win fs)" "fatbase gs = fatbase fs"
    "sects_fat gs = sects_fat fs" "n_fats gs = n_fats fs" "wflag gs = 1"
    by (simp_all add: assms(6) win_upd_def)
  have w: "winsect fs \<noteq> 0" "winsect fs \<in> fat_area fs"
  proof -
    show "winsect fs \<noteq> 0" using ts(4) assms(4) by simp
    have "i div 512 < unat (sects_fat fs)" using assms(3) by (simp add: div_less_iff_less_mult mult.commute)
    moreover have "1 * unat (sects_fat fs) \<le> unat (n_fats fs) * unat (sects_fat fs)"
      using assms(2) by (intro mult_right_mono) (simp_all add: table_ok_def)
    ultimately show "winsect fs \<in> fat_area fs" unfolding fat_area_def assms(4) mem_Collect_eq ts(1) by linarith
  qed
  show "fs_inv sectors good gs" using inv w(1) g assms(5) by (simp add: fs_inv_def)
  show "only_window fs gs" by (simp add: assms(6) win_upd_def only_window_upd)
  show "winsect gs = winsect fs" by (rule g)
  show "vol sectors gs x = vol sectors fs x" if "x \<notin> fat_area fs" for x
    using that w g by (auto simp: vol_def)
  show "tbl sectors gs j = (if j div 512 = i div 512 then f (win fs) ! (j mod 512) else tbl sectors fs j)"
    if "j < 512 * unat (sects_fat fs)" for j
  proof (cases "j div 512 = i div 512")
    case True
    then show ?thesis using w(1) g assms(4) by (simp add: tbl_def vol_def)
  next
    case False
    then have "fatbase fs + of_nat (j div 512) \<noteq> winsect fs"
      using table_sector_inj [OF assms(2) lt that assms(3)] assms(4) by metis
    then show ?thesis using False g by (simp add: tbl_def vol_def)
  qed
qed

text \<open>Bytes of the entry of a cluster are in the table.\<close>

lemma entry_bytes:
  assumes "table_ok fs" "cluster_no fs c"
  shows "fs_type fs = FS_FAT12 \<Longrightarrow> 3 * unat c div 2 + 1 < 512 * unat (sects_fat fs) \<and> unat c < 0xFF7"
    "fs_type fs = FS_FAT16 \<Longrightarrow> 2 * unat c + 1 < 512 * unat (sects_fat fs)"
    "fs_type fs \<noteq> FS_FAT12 \<Longrightarrow> fs_type fs \<noteq> FS_FAT16 \<Longrightarrow> 4 * unat c + 3 < 512 * unat (sects_fat fs) \<and> fs_type fs = FS_FAT32"
proof -
  have c: "unat c + 1 \<le> unat (max_clust fs)" using assms(2) by (simp add: cluster_no_def word_less_nat_alt)
  note t = assms(1) [unfolded table_ok_def]
  show "3 * unat c div 2 + 1 < 512 * unat (sects_fat fs) \<and> unat c < 0xFF7" if "fs_type fs = FS_FAT12"
  proof -
    have m: "3 * unat (max_clust fs) \<le> 1024 * unat (sects_fat fs)" "unat (max_clust fs) \<le> 0xFF7"
      using t that by (simp_all add: word_le_nat_alt)
    then show ?thesis using c by linarith
  qed
  show "2 * unat c + 1 < 512 * unat (sects_fat fs)" if "fs_type fs = FS_FAT16"
    using t that c by simp
  show "4 * unat c + 3 < 512 * unat (sects_fat fs) \<and> fs_type fs = FS_FAT32"
    if "fs_type fs \<noteq> FS_FAT12" "fs_type fs \<noteq> FS_FAT16"
    using t that c by simp
qed

lemma wstep_entry:
  assumes "wstep fs gs" "table_ok fs" "fs_inv sectors good fs" "cluster_no fs c"
  shows "fat_entry sectors gs c = fat_entry sectors fs c"
proof -
  have "only_window fs gs" using assms(1) by (simp add: wstep_def)
  then have ty: "fs_type gs = fs_type fs" by (rule only_window_fields)
  note b = wstep_tbl [OF assms(1-3)]
  note e = entry_bytes [OF assms(2,4)]
  show ?thesis
  proof (cases "fs_type fs = FS_FAT12 \<or> fs_type fs = FS_FAT16")
    case True
    then show ?thesis using e(1,2) by (auto simp: fat_entry_def Let_def ty b)
  next
    case False
    then have "4 * unat c + 3 < 512 * unat (sects_fat fs)" using e(3) by blast
    then have "\<And>k. k \<le> 3 \<Longrightarrow> tbl sectors gs (4 * unat c + k) = tbl sectors fs (4 * unat c + k)" by (simp add: b)
    from this [of 0] this [of 1] this [of 2] this [of 3] False show ?thesis
      by (simp add: fat_entry_def Let_def ty)
  qed
qed

lemma get_cluster_ok:
  assumes "fs_inv sectors good fs" "table_ok fs" "cluster_no fs c"
  shows "\<exists>v gs. get_cluster dev c fs = Some (v, gs) \<and> wstep fs gs \<and> (v = fat_entry sectors fs c \<and> winsect gs \<noteq> 0 \<or> v = 0xFFFFFFFF)"
proof -
  have c: "\<not> (c < 2 \<or> max_clust fs \<le> c)" using assms(3) by (auto simp: cluster_no_def)
  have lt: "unat (fatbase fs) + unat (n_fats fs) * unat (sects_fat fs) < 2 ^ 32" using assms(1) by (simp add: fs_inv_def)
  note nz = table_sector(4) [OF assms(2) lt]
  note e = entry_bytes [OF assms(2,3)]
  consider (12) "fs_type fs = FS_FAT12" | (16) "fs_type fs = FS_FAT16" | (32) "fs_type fs \<noteq> FS_FAT12" "fs_type fs \<noteq> FS_FAT16"
    by blast
  then show ?thesis
  proof cases
    case 12
    let ?i = "3 * unat c div 2"
    have i: "?i + 1 < 512 * unat (sects_fat fs)" "unat c < 0xFF7" using e(1) [OF 12] by auto
    note place = fat12_place [OF i(2)]
    obtain r gs where gs: "move_window dev (fatbase fs + of_nat (?i div 512)) fs = Some (r, gs)" "wstep fs gs"
      "r = FR_OK \<Longrightarrow> win gs ! (?i mod 512) = tbl sectors fs ?i"
      using move_to_tbl [OF assms(1,2), of ?i] i by auto
    have inv: "fs_inv sectors good gs" "table_ok gs" "sects_fat gs = sects_fat fs" "fatbase gs = fatbase fs"
      using gs(2) assms(2) table_ok_only_window [of fs gs] only_window_fields [of fs gs] by (auto simp: wstep_def)
    obtain q hs where hs: "move_window dev (fatbase fs + of_nat ((?i + 1) div 512)) gs = Some (q, hs)" "wstep gs hs"
      "q = FR_OK \<Longrightarrow> win hs ! ((?i + 1) mod 512) = tbl sectors gs (?i + 1) \<and> winsect hs \<noteq> 0"
      using move_to_tbl [OF inv(1,2), of "?i + 1"] i inv(3,4) nz [of "?i + 1"] by auto
    have "tbl sectors gs (?i + 1) = tbl sectors fs (?i + 1)" using wstep_tbl [OF gs(2) assms(2,1) i(1)] .
    then show ?thesis using c 12 gs hs inv(4) wstep_trans [OF gs(2) hs(2)]
      by (auto simp: get_cluster_def place fat_entry_def Let_def le16_def or.commute)
  next
    case 16
    let ?i = "2 * unat c"
    have i: "?i + 1 < 512 * unat (sects_fat fs)" using e(2) [OF 16] .
    obtain r gs where gs: "move_window dev (fatbase fs + of_nat (?i div 512)) fs = Some (r, gs)" "wstep fs gs"
      "r = FR_OK \<Longrightarrow> winsect gs \<noteq> 0 \<and> (\<forall>j. j div 512 = ?i div 512 \<longrightarrow> win gs ! (j mod 512) = tbl sectors fs j)"
      using move_to_tbl [OF assms(1,2), of ?i] i nz [of ?i] by auto
    note a = aligned_block [of 1 2 256 "unat c"]
    have "(?i + 1) div 512 = ?i div 512" "(?i + 1) mod 512 = ?i mod 512 + 1" using a by simp_all
    then have "LD_WORD (win gs) (?i mod 512) = le16 (tbl sectors fs ?i) (tbl sectors fs (?i + 1))" if "r = FR_OK"
      using gs(3) [OF that] by (metis LD_WORD_def le16_def)
    then show ?thesis using c 16 gs by (auto simp: get_cluster_def fat_place fat_entry_def Let_def)
  next
    case 32
    let ?i = "4 * unat c"
    have i: "?i < 512 * unat (sects_fat fs)" "fs_type fs = FS_FAT32" using e(3) [OF 32] by auto
    obtain r gs where gs: "move_window dev (fatbase fs + of_nat (?i div 512)) fs = Some (r, gs)" "wstep fs gs"
      "r = FR_OK \<Longrightarrow> winsect gs \<noteq> 0 \<and> (\<forall>j. j div 512 = ?i div 512 \<longrightarrow> win gs ! (j mod 512) = tbl sectors fs j)"
      using move_to_tbl [OF assms(1,2) i(1)] nz [of ?i] i by auto
    have "(?i + k) div 512 = ?i div 512 \<and> (?i + k) mod 512 = ?i mod 512 + k" if "k < 4" for k
      using aligned_block [of k 4 128 "unat c"] that by simp
    then have b: "win gs ! (?i mod 512 + k) = tbl sectors fs (?i + k)" if "r = FR_OK" "k < 4" for k
      using gs(3) [OF that(1)] that(2) by metis
    then have "LD_DWORD (win gs) (?i mod 512) = le32 (tbl sectors fs ?i) (tbl sectors fs (?i + 1))
        (tbl sectors fs (?i + 2)) (tbl sectors fs (?i + 3))" if "r = FR_OK"
      using b [OF that, of 0] b [OF that, of 1] b [OF that, of 2] b [OF that, of 3]
      by (simp add: LD_DWORD_def le32_def)
    then show ?thesis using c 32 i(2) gs by (auto simp: get_cluster_def fat_place fat_entry_def Let_def)
  qed
qed

text \<open>What a change of the table keeps.\<close>

definition tstep :: "'d fatfs \<Rightarrow> 'd fatfs \<Rightarrow> bool" where
  "tstep fs gs \<longleftrightarrow> fs_inv sectors good gs \<and> only_window fs gs \<and> winsect gs \<noteq> 0
     \<and> (\<forall>x. x \<notin> fat_area fs \<longrightarrow> vol sectors gs x = vol sectors fs x)"

lemma wstep_tstep: "wstep fs gs \<Longrightarrow> winsect gs \<noteq> 0 \<Longrightarrow> tstep fs gs"
  using mirror_fat_area by (auto simp: wstep_def tstep_def)

lemma tstep_trans:
  assumes "tstep fs gs" "tstep gs hs"
  shows "tstep fs hs"
proof -
  note s = assms [unfolded tstep_def]
  have "only_window fs hs" using only_window_trans [of fs gs hs] s by blast
  moreover have "fat_area gs = fat_area fs" using s(1) fat_area_only_window by blast
  ultimately show ?thesis using s by (simp add: tstep_def)
qed

lemma tstep_dirty:
  assumes "wstep fs gs" "winsect gs \<noteq> 0"
  shows "tstep fs (gs\<lparr>wflag := 1\<rparr>)" "tbl sectors (gs\<lparr>wflag := 1\<rparr>) = tbl sectors gs"
proof -
  have v: "vol sectors (gs\<lparr>wflag := 1\<rparr>) x = vol sectors gs x" for x by (auto simp: vol_def)
  show "tbl sectors (gs\<lparr>wflag := 1\<rparr>) = tbl sectors gs" by (simp add: fun_eq_iff tbl_def v)
  show "tstep fs (gs\<lparr>wflag := 1\<rparr>)" using wstep_tstep [OF assms] assms(2)
    by (simp add: tstep_def v only_window_upd) (simp add: fs_inv_def)
qed

text \<open>Storing bytes into the window.\<close>

lemma block_pos:
  fixes i j k :: nat
  assumes "i mod 512 + k \<le> 512"
  shows "j div 512 = i div 512 \<and> i mod 512 \<le> j mod 512 \<and> j mod 512 < i mod 512 + k \<longleftrightarrow> i \<le> j \<and> j < i + k"
    "i \<le> j \<and> j < i + k \<Longrightarrow> j mod 512 - i mod 512 = j - i"
proof -
  have aux: "(b = a \<and> r \<le> q \<and> q < r + k \<longleftrightarrow> 512 * a + r \<le> 512 * b + q \<and> 512 * b + q < 512 * a + r + k)
      \<and> (b = a \<longrightarrow> q - r = (512 * b + q) - (512 * a + r))"
    if "r < 512" "q < 512" "r + k \<le> 512" for a b r q :: nat
  proof -
    have "b = a" if "512 * a + r \<le> 512 * b + q" "512 * b + q < 512 * a + r + k"
    proof -
      have "512 * a < 512 * (b + 1)" using that \<open>q < 512\<close> by simp
      moreover have "512 * b < 512 * (a + 1)" using that \<open>r + k \<le> 512\<close> by simp
      ultimately show ?thesis by simp
    qed
    then show ?thesis by auto
  qed
  note x = aux [of "i mod 512" "j mod 512" "j div 512" "i div 512"] assms
  show iff: "j div 512 = i div 512 \<and> i mod 512 \<le> j mod 512 \<and> j mod 512 < i mod 512 + k \<longleftrightarrow> i \<le> j \<and> j < i + k"
    using x by simp
  show "i \<le> j \<and> j < i + k \<Longrightarrow> j mod 512 - i mod 512 = j - i"
    using x iff mult_div_mod_eq [of 512 j] by simp
qed

lemma tbl_store:
  assumes "fs_inv sectors good fs" "table_ok fs" "i + length bs \<le> 512 * unat (sects_fat fs)" "bs \<noteq> []"
    and "i mod 512 + length bs \<le> 512"
    and gs: "wstep fs gs" "winsect gs = fatbase fs + of_nat (i div 512)"
    and f: "length (f (win gs)) = 512"
      "\<And>q. f (win gs) ! q = (if i mod 512 \<le> q \<and> q < i mod 512 + length bs then bs ! (q - i mod 512) else win gs ! q)"
    and hs: "hs = (win_upd f gs)\<lparr>wflag := 1\<rparr>"
  shows "tstep fs hs"
    and "j < 512 * unat (sects_fat fs) \<Longrightarrow>
      tbl sectors hs j = (if i \<le> j \<and> j < i + length bs then bs ! (j - i) else tbl sectors fs j)"
proof -
  have inv: "fs_inv sectors good gs" "table_ok gs" "sects_fat gs = sects_fat fs" "fatbase gs = fatbase fs"
    "fat_area gs = fat_area fs"
    using gs(1) assms(2) table_ok_only_window [of fs gs] only_window_fields [of fs gs] fat_area_only_window [of fs gs]
    by (auto simp: wstep_def)
  have i: "i < 512 * unat (sects_fat gs)" using assms(3,4) inv(3) by (cases bs) simp_all
  have ws: "winsect gs = fatbase gs + of_nat (i div 512)" using gs(2) inv(4) by simp
  note m = tbl_modify [OF inv(1,2) i ws f(1) hs]
  have w: "winsect hs \<noteq> 0"
    using m(3) gs(2) table_sector(4) [OF assms(2) _ i [unfolded inv(3)]] assms(1) by (simp add: fs_inv_def)
  have "tstep gs hs" using m(1-4) w by (simp add: tstep_def)
  moreover have "tstep fs gs" using wstep_tstep [OF gs(1)] w m(3) by simp
  ultimately show "tstep fs hs" by (rule tstep_trans [rotated])
  assume j: "j < 512 * unat (sects_fat fs)"
  have blk: "win gs ! (j mod 512) = tbl sectors gs j" if "j div 512 = i div 512"
    using that w m(3) ws by (simp add: tbl_def vol_def)
  have keep: "tbl sectors gs j = tbl sectors fs j" using wstep_tbl [OF gs(1) assms(2,1) j] .
  show "tbl sectors hs j = (if i \<le> j \<and> j < i + length bs then bs ! (j - i) else tbl sectors fs j)"
    using m(5) [OF j [folded inv(3)]] f(2) [of "j mod 512"] blk keep block_pos [OF assms(5), of j]
    by (auto split: if_splits)
qed

text \<open>What \<^const>\<open>put_cluster\<close> promises.\<close>

definition put_post :: "'d fatfs \<Rightarrow> u32 \<Rightarrow> u32 \<Rightarrow> FRESULT \<times> 'd fatfs \<Rightarrow> bool" where
  "put_post fs c v = (\<lambda>(r, gs). tstep fs gs \<and> r \<in> {FR_OK, FR_DISK_ERR}
     \<and> (r = FR_OK \<longrightarrow> fat_entry sectors gs c = fat_val fs v)
     \<and> (\<forall>c'. cluster_no fs c' \<longrightarrow> c' \<noteq> c \<longrightarrow> fat_entry sectors gs c' = fat_entry sectors fs c'))"

lemma put_failed:
  assumes "wstep fs gs" "winsect fs \<noteq> 0" "table_ok fs" "fs_inv sectors good fs"
  shows "put_post fs c v (FR_DISK_ERR, gs\<lparr>wflag := 1\<rparr>)"
proof -
  have w: "winsect gs \<noteq> 0" using assms(1,2) by (simp add: wstep_def)
  have "fat_entry sectors (gs\<lparr>wflag := 1\<rparr>) c' = fat_entry sectors gs c'" for c'
    by (simp add: fat_entry_def tstep_dirty(2) [OF assms(1) w] Let_def)
  then show ?thesis using tstep_dirty(1) [OF assms(1) w] wstep_entry [OF assms(1,3,4)]
    by (simp add: put_post_def)
qed

lemma put16_ok:
  assumes "fs_inv sectors good fs" "table_ok fs" "cluster_no fs c" "winsect fs \<noteq> 0" "fs_type fs = FS_FAT16"
  shows "\<exists>res. put_cluster dev c v fs = Some res \<and> put_post fs c v res"
proof -
  have c: "\<not> (c < 2 \<or> max_clust fs \<le> c)" using assms(3) by (auto simp: cluster_no_def)
  let ?i = "2 * unat c"
  let ?bs = "le_bytes2 (ucast v :: u16)"
  have i: "?i + 1 < 512 * unat (sects_fat fs)" using entry_bytes(2) [OF assms(2,3,5)] .
  obtain r gs where gs: "move_window dev (fatbase fs + of_nat (?i div 512)) fs = Some (r, gs)" "wstep fs gs"
    "r \<in> {FR_OK, FR_DISK_ERR}" "r = FR_OK \<Longrightarrow> winsect gs = fatbase fs + of_nat (?i div 512)"
    using move_to_tbl [OF assms(1,2), of ?i] i by auto
  show ?thesis
  proof (cases "r = FR_OK")
    case False
    then show ?thesis using c assms(5) gs put_failed [OF gs(2) assms(4,2,1)]
      by (simp add: put_cluster_def fat_place)
  next
    case True
    let ?f = "ST_WORD (?i mod 512) (ucast v)"
    let ?hs = "(win_upd ?f gs)\<lparr>wflag := 1\<rparr>"
    have b: "?i mod 512 + 2 \<le> 512" using aligned_block(2) [of 1 2 256 "unat c"] mod_less_divisor [of 512 "?i + 1"] by simp
    have len: "length (?f (win gs)) = 512" using gs(2) by (simp add: wstep_def fs_inv_def)
    have w: "?i mod 512 + 2 \<le> length (win gs)" using b gs(2) by (simp add: wstep_def fs_inv_def)
    note t = tbl_store [where i = ?i and bs = ?bs and f = ?f and hs = ?hs, OF assms(1,2) _ _ _ gs(2) gs(4) [OF True] len ST_WORD_nth [OF w] refl]
    have st: "tstep fs ?hs" using t(1) i b by simp
    have ty: "fs_type ?hs = FS_FAT16" using st assms(5) only_window_fields(1) [of fs ?hs] by (simp add: tstep_def)
    have tb: "tbl sectors ?hs j = (if ?i \<le> j \<and> j < ?i + 2 then ?bs ! (j - ?i) else tbl sectors fs j)"
      if "j < 512 * unat (sects_fat fs)" for j
      using t(2) [of j] that i b by simp
    have e1: "fat_entry sectors ?hs c = fat_val fs v"
      using i by (simp add: fat_entry_def ty tb fat_val_def assms(5) le16_split ucast_ucast_16)
    have e2: "fat_entry sectors ?hs c' = fat_entry sectors fs c'" if "cluster_no fs c'" "c' \<noteq> c" for c'
    proof -
      have ne: "unat c' \<noteq> unat c" using that(2) by (simp add: word_unat_eq_iff)
      have "tbl sectors ?hs (2 * unat c' + k) = tbl sectors fs (2 * unat c' + k)" if "k < 2" for k
      proof -
        have "\<not> (?i \<le> 2 * unat c' + k \<and> 2 * unat c' + k < ?i + 2)" using ne that by presburger
        moreover have "2 * unat c' + k < 512 * unat (sects_fat fs)"
          using entry_bytes(2) [OF assms(2) \<open>cluster_no fs c'\<close> assms(5)] that by linarith
        ultimately show ?thesis by (metis tb)
      qed
      from this [of 0] this [of 1] show ?thesis by (simp add: fat_entry_def ty assms(5) Let_def)
    qed
    have "put_cluster dev c v fs = Some (FR_OK, ?hs)"
      using c assms(5) gs(1) True by (simp add: put_cluster_def fat_place)
    then show ?thesis using st e1 e2 by (simp add: put_post_def)
  qed
qed

lemma put32_ok:
  assumes "fs_inv sectors good fs" "table_ok fs" "cluster_no fs c" "winsect fs \<noteq> 0"
    "fs_type fs \<noteq> FS_FAT12" "fs_type fs \<noteq> FS_FAT16"
  shows "\<exists>res. put_cluster dev c v fs = Some res \<and> put_post fs c v res"
proof -
  have c: "\<not> (c < 2 \<or> max_clust fs \<le> c)" using assms(3) by (auto simp: cluster_no_def)
  let ?i = "4 * unat c"
  let ?bs = "le_bytes4 v"
  have i: "?i + 3 < 512 * unat (sects_fat fs)" "fs_type fs = FS_FAT32"
    using entry_bytes(3) [OF assms(2,3,5,6)] by auto
  obtain r gs where gs: "move_window dev (fatbase fs + of_nat (?i div 512)) fs = Some (r, gs)" "wstep fs gs"
    "r \<in> {FR_OK, FR_DISK_ERR}" "r = FR_OK \<Longrightarrow> winsect gs = fatbase fs + of_nat (?i div 512)"
    using move_to_tbl [OF assms(1,2), of ?i] i(1) by auto
  show ?thesis
  proof (cases "r = FR_OK")
    case False
    then show ?thesis using c i(2) gs put_failed [OF gs(2) assms(4,2,1)]
      by (simp add: put_cluster_def fat_place)
  next
    case True
    let ?f = "ST_DWORD (?i mod 512) v"
    let ?hs = "(win_upd ?f gs)\<lparr>wflag := 1\<rparr>"
    have b: "?i mod 512 + 4 \<le> 512" using aligned_block(2) [of 3 4 128 "unat c"] mod_less_divisor [of 512 "?i + 3"] by simp
    have len: "length (?f (win gs)) = 512" using gs(2) by (simp add: wstep_def fs_inv_def)
    have w: "?i mod 512 + 4 \<le> length (win gs)" using b gs(2) by (simp add: wstep_def fs_inv_def)
    note t = tbl_store [where i = ?i and bs = ?bs and f = ?f and hs = ?hs, OF assms(1,2) _ _ _ gs(2) gs(4) [OF True] len ST_DWORD_nth [OF w] refl]
    have st: "tstep fs ?hs" using t(1) i b by simp
    have ty: "fs_type ?hs = FS_FAT32" using st i(2) only_window_fields(1) [of fs ?hs] by (simp add: tstep_def)
    have tb: "tbl sectors ?hs j = (if ?i \<le> j \<and> j < ?i + 4 then ?bs ! (j - ?i) else tbl sectors fs j)"
      if "j < 512 * unat (sects_fat fs)" for j
      using t(2) [of j] that i b by simp
    have e1: "fat_entry sectors ?hs c = fat_val fs v"
      using i by (simp add: fat_entry_def ty tb fat_val_def le32_split)
    have e2: "fat_entry sectors ?hs c' = fat_entry sectors fs c'" if "cluster_no fs c'" "c' \<noteq> c" for c'
    proof -
      have ne: "unat c' \<noteq> unat c" using that(2) by (simp add: word_unat_eq_iff)
      have "tbl sectors ?hs (4 * unat c' + k) = tbl sectors fs (4 * unat c' + k)" if "k < 4" for k
      proof -
        have "\<not> (?i \<le> 4 * unat c' + k \<and> 4 * unat c' + k < ?i + 4)" using ne that by presburger
        moreover have "4 * unat c' + k < 512 * unat (sects_fat fs)"
          using entry_bytes(3) [OF assms(2) \<open>cluster_no fs c'\<close> assms(5,6)] that by linarith
        ultimately show ?thesis by (metis tb)
      qed
      from this [of 0] this [of 1] this [of 2] this [of 3] show ?thesis
        by (simp add: fat_entry_def ty i(2) Let_def)
    qed
    have "put_cluster dev c v fs = Some (FR_OK, ?hs)"
      using c i(2) gs(1) True by (simp add: put_cluster_def fat_place)
    then show ?thesis using st e1 e2 by (simp add: put_post_def)
  qed
qed

lemma tbl_store_byte:
  assumes "fs_inv sectors good fs" "table_ok fs" "i < 512 * unat (sects_fat fs)"
    and gs: "wstep fs gs" "winsect gs = fatbase fs + of_nat (i div 512)" "win gs ! (i mod 512) = tbl sectors fs i"
    and hs: "hs = (win_upd (\<lambda>w. w[i mod 512 := g (w ! (i mod 512))]) gs)\<lparr>wflag := 1\<rparr>"
  shows "tstep fs hs"
    and "j < 512 * unat (sects_fat fs) \<Longrightarrow> tbl sectors hs j = (if j = i then g (tbl sectors fs i) else tbl sectors fs j)"
proof -
  let ?f = "\<lambda>w. w[i mod 512 := g (w ! (i mod 512))]"
  have len: "length (win gs) = 512" using gs(1) by (simp add: wstep_def fs_inv_def)
  have nth: "?f (win gs) ! q = (if i mod 512 \<le> q \<and> q < i mod 512 + length [g (tbl sectors fs i)]
      then [g (tbl sectors fs i)] ! (q - i mod 512) else win gs ! q)" for q
    using len gs(3) by (auto simp: nth_list_update)
  have b: "i mod 512 < 512" by simp
  note t = tbl_store [where i = i and bs = "[g (tbl sectors fs i)]" and f = ?f and hs = hs, OF assms(1,2) _ _ _ gs(1,2) _ nth hs]
  show "tstep fs hs" using t(1) assms(3) b len by simp
  show "tbl sectors hs j = (if j = i then g (tbl sectors fs i) else tbl sectors fs j)" if "j < 512 * unat (sects_fat fs)"
    using t(2) [of j] that assms(3) b len by auto
qed

lemma tstep_keeps:
  assumes "tstep fs gs"
  shows "fs_inv sectors good gs" "only_window fs gs" "winsect gs \<noteq> 0" "table_ok gs = table_ok fs"
    "cluster_no gs = cluster_no fs" "fs_type gs = fs_type fs" "fatbase gs = fatbase fs" "sects_fat gs = sects_fat fs"
  using assms table_ok_only_window [of fs gs] only_window_fields [of fs gs] by (auto simp: tstep_def)

lemma fat12_kept:
  assumes "fs_inv sectors good fs" "table_ok fs" "cluster_no fs c" "fs_type fs = FS_FAT12" "i = 3 * unat c div 2"
    and gs: "tstep fs gs"
      "\<And>j. j < 512 * unat (sects_fat fs) \<Longrightarrow> j \<noteq> i \<Longrightarrow> j \<noteq> i + 1 \<Longrightarrow> tbl sectors gs j = tbl sectors fs j"
      "tbl sectors gs i = tbl sectors fs i \<or> tbl sectors gs i = fat12_lo c v (tbl sectors fs i)"
      "tbl sectors gs (i + 1) = tbl sectors fs (i + 1) \<or> tbl sectors gs (i + 1) = fat12_hi c v (tbl sectors fs (i + 1))"
    and c': "cluster_no fs c'" "c' \<noteq> c"
  shows "fat_entry sectors gs c' = fat_entry sectors fs c'"
proof -
  have e: "3 * unat c' div 2 + 1 < 512 * unat (sects_fat fs)" using entry_bytes(1) [OF assms(2) c'(1) assms(4)] by simp
  have "fat12_pick c' (le16 (tbl sectors gs (3 * unat c' div 2)) (tbl sectors gs (3 * unat c' div 2 + 1)))
    = fat12_pick c' (le16 (tbl sectors fs (3 * unat c' div 2)) (tbl sectors fs (3 * unat c' div 2 + 1)))"
    by (rule fat12_others [OF c'(2) [symmetric] assms(5) gs(3,4)]) (use gs(2) e in auto)
  then show ?thesis using tstep_keeps(6) [OF gs(1)] assms(4) by (simp add: fat_entry_def Let_def)
qed

lemma put12_ok:
  assumes "fs_inv sectors good fs" "table_ok fs" "cluster_no fs c" "winsect fs \<noteq> 0" "fs_type fs = FS_FAT12"
  shows "\<exists>res. put_cluster dev c v fs = Some res \<and> put_post fs c v res"
proof -
  have c: "\<not> (c < 2 \<or> max_clust fs \<le> c)" using assms(3) by (auto simp: cluster_no_def)
  let ?i = "3 * unat c div 2"
  have i: "?i + 1 < 512 * unat (sects_fat fs)" "unat c < 0xFF7" using entry_bytes(1) [OF assms(2,3,5)] by auto
  note place = fat12_place [OF i(2)]
  obtain r gs where gs: "move_window dev (fatbase fs + of_nat (?i div 512)) fs = Some (r, gs)" "wstep fs gs"
    "r \<in> {FR_OK, FR_DISK_ERR}" "r = FR_OK \<Longrightarrow> winsect gs = fatbase fs + of_nat (?i div 512)"
    "r = FR_OK \<Longrightarrow> win gs ! (?i mod 512) = tbl sectors fs ?i"
    using move_to_tbl [OF assms(1,2), of ?i] i by auto
  show ?thesis
  proof (cases "r = FR_OK")
    case False
    then show ?thesis using c assms(5) gs put_failed [OF gs(2) assms(4,2,1)]
      by (simp add: put_cluster_def place)
  next
    case True
    define hs where "hs = (win_upd (\<lambda>w. w[?i mod 512 := fat12_lo c v (w ! (?i mod 512))]) gs)\<lparr>wflag := 1\<rparr>"
    note lo = tbl_store_byte [OF assms(1,2) _ gs(2) gs(4) [OF True] gs(5) [OF True] hs_def]
    have st: "tstep fs hs" using lo(1) i by simp
    have tb: "tbl sectors hs j = (if j = ?i then fat12_lo c v (tbl sectors fs ?i) else tbl sectors fs j)"
      if "j < 512 * unat (sects_fat fs)" for j using lo(2) that i by simp
    note k = tstep_keeps [OF st]
    have tk: "table_ok hs" using k(4) assms(2) by simp
    obtain q ks where ks: "move_window dev (fatbase fs + of_nat ((?i + 1) div 512)) hs = Some (q, ks)" "wstep hs ks"
      "q \<in> {FR_OK, FR_DISK_ERR}" "q = FR_OK \<Longrightarrow> winsect ks = fatbase hs + of_nat ((?i + 1) div 512)"
      "q = FR_OK \<Longrightarrow> win ks ! ((?i + 1) mod 512) = tbl sectors hs (?i + 1)"
      using move_to_tbl [OF k(1) tk, of "?i + 1"] i k(7,8) by auto
    have w: "winsect ks \<noteq> 0" using ks(2) k(3) by (simp add: wstep_def)
    have fb: "fatbase (win_upd f gs) = fatbase fs" for f using k(7) by (simp add: win_upd_def hs_def)
    show ?thesis
    proof (cases "q = FR_OK")
      case False
      let ?ks = "ks\<lparr>wflag := 1\<rparr>"
      have st': "tstep fs ?ks" using tstep_trans [OF st tstep_dirty(1) [OF ks(2) w]] .
      have tb': "tbl sectors ?ks j = tbl sectors hs j" if "j < 512 * unat (sects_fat fs)" for j
        using wstep_tbl [OF ks(2) tk k(1)] that k(8) tstep_dirty(2) [OF ks(2) w] by simp
      have "fat_entry sectors ?ks c' = fat_entry sectors fs c'" if "cluster_no fs c'" "c' \<noteq> c" for c'
        by (rule fat12_kept [OF assms(1-3,5) refl st' _ _ _ that, of v]) (use tb tb' i in auto)
      moreover have "put_cluster dev c v fs = Some (FR_DISK_ERR, ?ks)"
        using c assms(5) gs(1) True ks(1,3) False fb by (simp add: put_cluster_def place Let_def hs_def)
      ultimately show ?thesis using st' by (simp add: put_post_def)
    next
      case ok: True
      define ls where "ls = (win_upd (\<lambda>w. w[(?i + 1) mod 512 := fat12_hi c v (w ! ((?i + 1) mod 512))]) ks)\<lparr>wflag := 1\<rparr>"
      have i': "?i + 1 < 512 * unat (sects_fat hs)" using i(1) k(8) by simp
      note hi = tbl_store_byte [OF k(1) tk i' ks(2) ks(4) [OF ok] ks(5) [OF ok] ls_def]
      have st': "tstep fs ls" using tstep_trans [OF st hi(1)] .
      have tb': "tbl sectors ls j = (if j = ?i then fat12_lo c v (tbl sectors fs ?i)
          else if j = ?i + 1 then fat12_hi c v (tbl sectors fs (?i + 1)) else tbl sectors fs j)"
        if "j < 512 * unat (sects_fat fs)" for j
        using hi(2) [of j] that k(8) tb [OF that] tb [OF i(1)] by (cases "j = ?i") simp_all
      have "fat_entry sectors ls c' = fat_entry sectors fs c'" if "cluster_no fs c'" "c' \<noteq> c" for c'
        by (rule fat12_kept [OF assms(1-3,5) refl st' _ _ _ that, of v]) (use tb' i in auto)
      moreover have "fat_entry sectors ls c = fat_val fs v"
        using tstep_keeps(6) [OF st'] assms(5) tb' i(1)
        by (simp add: fat_entry_def Let_def fat12_pick_put fat_val_def)
      moreover have "put_cluster dev c v fs = Some (FR_OK, ls)"
        using c assms(5) gs(1) True ks(1) ok fb by (simp add: put_cluster_def place Let_def hs_def ls_def)
      ultimately show ?thesis using st' by (simp add: put_post_def)
    qed
  qed
qed

lemma put_cluster_ok:
  assumes "fs_inv sectors good fs" "table_ok fs" "cluster_no fs c" "winsect fs \<noteq> 0"
  obtains r gs where "put_cluster dev c v fs = Some (r, gs)" "tstep fs gs" "r = FR_OK \<or> r = FR_DISK_ERR"
    "r = FR_OK \<Longrightarrow> fat_entry sectors gs c = fat_val fs v"
    "\<And>c'. cluster_no fs c' \<Longrightarrow> c' \<noteq> c \<Longrightarrow> fat_entry sectors gs c' = fat_entry sectors fs c'"
proof -
  have "\<exists>res. put_cluster dev c v fs = Some res \<and> put_post fs c v res"
    using put12_ok put16_ok put32_ok assms by (cases "fs_type fs = FS_FAT12 \<or> fs_type fs = FS_FAT16") blast+
  then show thesis using that by (auto simp: put_post_def)
qed

end

section \<open>Entries on the SD card\<close>



text \<open>
  C22: Storing an entry: on success the entry reads back as the significant bits of the value; on success and
  on failure no other entry changes, FAT12 neighbours in the same byte included, and nothing outside the
  tables does.
\<close>

theorem put_cluster_stores:
  fixes fs :: "'a disk_st_scheme fatfs"
  assumes "fs_inv image (disk_ok ev ba) fs" "table_ok fs" "cluster_no fs c" "winsect fs \<noteq> 0"
  shows "\<exists>r gs. put_cluster (sd_device ev torn ba) c v fs = Some (r, gs) \<and> fs_inv image (disk_ok ev ba) gs
    \<and> only_window fs gs \<and> r \<in> {FR_OK, FR_DISK_ERR} \<and> (r = FR_OK \<longrightarrow> fat_entry image gs c = fat_val fs v)
    \<and> (\<forall>c'. cluster_no fs c' \<longrightarrow> c' \<noteq> c \<longrightarrow> fat_entry image gs c' = fat_entry image fs c')
    \<and> (\<forall>x. x \<notin> fat_area fs \<longrightarrow> vol image gs x = vol image fs x)"
  by (rule sd.put_cluster_ok [OF assms, of torn v]) (auto simp: sd.tstep_def)

theorem put_cluster_stores_witness:
  "\<exists>r gs. put_cluster (sd_device done_env (\<lambda>_. []) 0x10000000) 5 0xABC (small_fs FS_FAT12 (replicate 512 0x23)) = Some (r, gs)
    \<and> (r = FR_OK \<longrightarrow> fat_entry image gs 5 = 0xABC) \<and> fat_entry image gs 4 = 0x323"
proof -
  let ?fs = "small_fs FS_FAT12 (replicate 512 0x23)"
  have "fat_entry image ?fs 4 = 0x323" "fat_val ?fs 0xABC = 0xABC"
    by (simp_all add: fat_entry_def Let_def small_fs_tbl) (simp_all add: small_fs_def fat12_pick_def le16_def fat_val_def)
  then show ?thesis
    using put_cluster_stores [where ev = done_env and ba = "0x10000000" and fs = ?fs and c = 5 and torn = "\<lambda>_. []" and v = "0xABC"] by (auto simp: small_fs_ok)
qed

end
