(* ===== verification/FatChain.thy ===== *)
theory FatChain
  imports FatTable
begin

text \<open>
  Cluster chains: lists of clusters linked by the table. Freeing a chain and extending it, over any device
  that keeps the laws of \<^verbatim>\<open>block_device\<close>, and on the SD card.
\<close>

section \<open>Chains\<close>

text \<open>
  \<open>chain nx m c cs\<close>: following \<open>nx\<close> from \<open>c\<close> visits the clusters \<open>cs\<close> and ends at a value that is no
  cluster number of the volume.
\<close>

fun chain :: "(u32 \<Rightarrow> u32) \<Rightarrow> u32 \<Rightarrow> u32 \<Rightarrow> u32 list \<Rightarrow> bool" where
  "chain nx m c [] \<longleftrightarrow> m \<le> c"
| "chain nx m c (x # xs) \<longleftrightarrow> x = c \<and> 2 \<le> c \<and> c < m \<and> chain nx m (nx c) xs"

lemma chain_unique: "chain nx m c xs \<Longrightarrow> chain nx m c ys \<Longrightarrow> xs = ys"
proof (induction xs arbitrary: c ys)
  case Nil
  then show ?case by (cases ys) auto
next
  case (Cons x xs)
  then show ?case by (cases ys) auto
qed

lemma chain_suffix: "chain nx m c (xs @ y # ys) \<Longrightarrow> chain nx m y (y # ys)"
  by (induction xs arbitrary: c) auto

lemma chain_distinct: "chain nx m c xs \<Longrightarrow> distinct xs"
proof (induction xs arbitrary: c)
  case (Cons x xs)
  have "x \<notin> set xs"
  proof
    assume "x \<in> set xs"
    then obtain as bs where xs: "xs = as @ x # bs" by (auto simp: in_set_conv_decomp)
    have "chain nx m c ((x # as) @ x # bs)" using Cons.prems unfolding xs by auto
    then have "chain nx m x (x # bs)" by (rule chain_suffix)
    moreover have "chain nx m x (x # xs)" using Cons.prems by simp
    ultimately have "x # bs = x # xs" by (rule chain_unique)
    then show False using xs by auto
  qed
  then show ?case using Cons by auto
qed simp

lemma chain_cong: "chain nx m c xs \<Longrightarrow> (\<And>x. x \<in> set xs \<Longrightarrow> nx' x = nx x) \<Longrightarrow> chain nx' m c xs"
  by (induction xs arbitrary: c) auto

lemma chain_members: "chain nx m c xs \<Longrightarrow> x \<in> set xs \<Longrightarrow> 2 \<le> x \<and> x < m \<and> nx x \<noteq> 0"
proof (induction xs arbitrary: c)
  case (Cons y ys)
  have "nx c \<noteq> 0" using Cons.prems by (cases ys) (auto simp: not_less dest: order.strict_trans2)
  then show ?case using Cons by auto
qed simp

lemma chain_next: "chain nx m c (x # xs) \<Longrightarrow> nx c \<noteq> 0 \<and> nx c \<noteq> 1"
  by (cases xs) (auto simp: word_le_nat_alt word_less_nat_alt)

lemma two_le: "x \<noteq> 0 \<Longrightarrow> x \<noteq> 1 \<Longrightarrow> 2 \<le> x" for x :: u32
proof -
  assume "x \<noteq> 0" "x \<noteq> 1"
  then have "unat x \<noteq> 0" "unat x \<noteq> 1" using word_unat_eq_iff [of x 1] by (simp_all add: unat_eq_zero)
  then show ?thesis by (simp add: word_le_nat_alt)
qed

lemma chain_extend:
  assumes "chain nx m c (xs @ [y])" "2 \<le> v" "v < m" "v \<notin> set (xs @ [y])"
    and "nx' y = v" "m \<le> nx' v" "\<And>x. x \<in> set xs \<Longrightarrow> nx' x = nx x"
  shows "chain nx' m c (xs @ [y, v])"
  using assms(1,4,7) assms(2,3,5,6)
proof (induction xs arbitrary: c)
  case (Cons x xs)
  then show ?case by auto
qed auto

text \<open>Cluster numbers and the end mark fit into an entry.\<close>

lemma fat_val_cluster:
  assumes "table_ok fs" "cluster_no fs c"
  shows "fat_val fs c = c" "max_clust fs \<le> fat_val fs 0x0FFFFFFF"
proof -
  have lt: "unat c < unat (max_clust fs)" using assms(2) by (simp add: cluster_no_def word_less_nat_alt)
  note t = assms(1) [unfolded table_ok_def]
  have m: "c AND mask n = c" if "unat c < 2 ^ n" "n < 32" for n
    using that by (simp add: take_bit_eq_mask [symmetric] word_unat_eq_iff unsigned_take_bit_eq take_bit_nat_eq_self)
  show "max_clust fs \<le> fat_val fs 0x0FFFFFFF" using t by (auto simp: fat_val_def word_le_nat_alt split: if_splits)
  show "fat_val fs c = c" using t lt m [of 12] m [of 16] m [of 28] unfolding fat_val_def nibble_masks
    by (auto simp: word_le_nat_alt split: if_splits)
qed

section \<open>Counters\<close>

text \<open>The bookkeeping of free clusters is no part of the volume.\<close>

definition recount :: "u8 \<Rightarrow> u32 \<Rightarrow> u32 \<Rightarrow> 'd fatfs \<Rightarrow> 'd fatfs" where
  "recount f l n fs = fs\<lparr>fsi_flag := f, last_clust := l, free_clust := n\<rparr>"

lemma recount_same [simp]:
  "vol sectors (recount f l n fs) = vol sectors fs" "fs_inv sectors good (recount f l n fs) = fs_inv sectors good fs"
  "fat_entry sectors (recount f l n fs) = fat_entry sectors fs" "table_ok (recount f l n fs) = table_ok fs"
  "cluster_no (recount f l n fs) = cluster_no fs" "fat_area (recount f l n fs) = fat_area fs"
  "fat_val (recount f l n fs) = fat_val fs" "winsect (recount f l n fs) = winsect fs"
  "max_clust (recount f l n fs) = max_clust fs" "recount f l n (recount f' l' n' fs) = recount f l n fs"
  "free_clust (recount f l n fs) = n" "last_clust (recount f l n fs) = l" "mirror (recount f l n fs) = mirror fs"
proof -
  show v: "vol sectors (recount f l n fs) = vol sectors fs" by (rule ext) (auto simp: vol_def recount_def)
  then have "tbl sectors (recount f l n fs) = tbl sectors fs" by (simp add: tbl_def fun_eq_iff) (simp add: recount_def)
  then show "fat_entry sectors (recount f l n fs) = fat_entry sectors fs"
    by (simp add: fat_entry_def fun_eq_iff Let_def) (simp add: recount_def)
  show "fs_inv sectors good (recount f l n fs) = fs_inv sectors good fs" by (simp add: fs_inv_def recount_def)
  show "table_ok (recount f l n fs) = table_ok fs" by (simp add: table_ok_def recount_def)
  show "cluster_no (recount f l n fs) = cluster_no fs" by (simp add: cluster_no_def recount_def fun_eq_iff)
qed (simp_all add: recount_def fat_area_def fat_val_def fun_eq_iff mirror_def)

lemma fsi_add_recount: "fsi_add k fs = recount (if free_clust fs \<noteq> 0xFFFFFFFF then 1 else fsi_flag fs) (last_clust fs)
    (if free_clust fs \<noteq> 0xFFFFFFFF then free_clust fs + k else 0xFFFFFFFF) fs"
  by (simp add: fsi_add_def recount_def)

lemma recount_last: "fs\<lparr>last_clust := l\<rparr> = recount (fsi_flag fs) l (free_clust fs) fs"
  by (simp add: recount_def)

lemma recount_id: "recount (fsi_flag fs) (last_clust fs) (free_clust fs) fs = fs"
  by (simp add: recount_def)

context block_device
begin

definition cstep :: "'d fatfs \<Rightarrow> 'd fatfs \<Rightarrow> bool" where
  "cstep fs gs \<longleftrightarrow> (\<exists>f l n. tstep (recount f l n fs) gs)"

lemma cstep_tstep: "tstep fs gs \<Longrightarrow> cstep fs gs"
  unfolding cstep_def using recount_id [of fs] by metis

lemma cstep_keeps:
  assumes "cstep fs gs"
  shows "fs_inv sectors good gs" "winsect gs \<noteq> 0" "table_ok gs = table_ok fs" "cluster_no gs = cluster_no fs"
    "max_clust gs = max_clust fs" "fs_type gs = fs_type fs" "fat_area gs = fat_area fs"
proof -
  obtain f l n where t: "tstep (recount f l n fs) gs" using assms unfolding cstep_def by blast
  note k = tstep_keeps [OF t] only_window_fields(10) [OF tstep_keeps(2) [OF t]] fat_area_only_window [OF tstep_keeps(2) [OF t]]
  show "fs_inv sectors good gs" "winsect gs \<noteq> 0" using k by blast+
  show "table_ok gs = table_ok fs" "cluster_no gs = cluster_no fs" "max_clust gs = max_clust fs" "fat_area gs = fat_area fs"
    using k by simp_all
  show "fs_type gs = fs_type fs" using k(6) by (simp add: recount_def)
qed

lemma tstep_recount: "tstep fs gs \<Longrightarrow> tstep (recount f l n fs) (recount f l n gs)"
proof -
  assume t: "tstep fs gs"
  then have "only_window (recount f l n fs) (recount f l n gs)"
    by (cases fs; cases gs) (simp add: tstep_def only_window_def recount_def)
  then show ?thesis using t by (simp add: tstep_def)
qed

lemma cstep_trans: "cstep fs gs \<Longrightarrow> cstep gs hs \<Longrightarrow> cstep fs hs"
  unfolding cstep_def
proof (elim exE)
  fix f l n f' l' n'
  assume t: "tstep (recount f l n fs) gs" "tstep (recount f' l' n' gs) hs"
  have "tstep (recount f' l' n' fs) (recount f' l' n' gs)" using tstep_recount [OF t(1), of f' l' n'] by simp
  from tstep_trans [OF this t(2)] show "\<exists>f l n. tstep (recount f l n fs) hs" by blast
qed

lemma cstep_recount: "cstep fs gs \<Longrightarrow> cstep fs (recount f l n gs)"
  unfolding cstep_def using tstep_recount by fastforce

lemma cstep_vol: "cstep fs gs \<Longrightarrow> x \<notin> fat_area fs \<Longrightarrow> vol sectors gs x = vol sectors fs x"
  by (auto simp: cstep_def tstep_def)


text \<open>One step of the loop that frees a chain.\<close>

lemma remove_step:
  assumes "fs_inv sectors good fs" "table_ok fs" "winsect fs \<noteq> 0" "cluster_no fs c"
  obtains (stop) r gs where "remove_loop dev c fs = Some (r, gs)" "cstep fs gs" "r \<in> {FR_OK, FR_INT_ERR, FR_DISK_ERR}"
      "r = FR_OK \<Longrightarrow> fat_entry sectors fs c = 0" "r = FR_INT_ERR \<Longrightarrow> fat_entry sectors fs c = 1"
      "\<And>c'. cluster_no fs c' \<Longrightarrow> c' \<noteq> c \<Longrightarrow> fat_entry sectors gs c' = fat_entry sectors fs c'"
      "r \<noteq> FR_DISK_ERR \<Longrightarrow> fat_entry sectors gs c = fat_entry sectors fs c"
    | (go) gs where "remove_loop dev c fs = remove_loop dev (fat_entry sectors fs c) gs" "cstep fs gs"
      "fat_entry sectors fs c \<notin> {0, 1}" "fat_entry sectors gs c = 0" "free_clust gs = free_clust (fsi_add 1 fs)"
      "\<And>c'. cluster_no fs c' \<Longrightarrow> c' \<noteq> c \<Longrightarrow> fat_entry sectors gs c' = fat_entry sectors fs c'"
proof -
  obtain v g1 where g1: "get_cluster dev c fs = Some (v, g1)" "wstep fs g1"
    "v = fat_entry sectors fs c \<or> v = 0xFFFFFFFF"
    using get_cluster_ok [OF assms(1,2,4)] by blast
  have w1: "winsect g1 \<noteq> 0" using g1(2) assms(3) by (simp add: wstep_def)
  note t1 = wstep_tstep [OF g1(2) w1]
  note k1 = tstep_keeps [OF t1]
  have e1: "fat_entry sectors g1 x = fat_entry sectors fs x" if "cluster_no fs x" for x
    using wstep_entry [OF g1(2) assms(2,1) that] .
  have lt: "c < max_clust fs" using assms(4) by (simp add: cluster_no_def)
  have ne: "(0xFFFFFFFF :: u32) \<noteq> 1" by simp
  show thesis
  proof (cases "v = 0 \<or> v = 1 \<or> v = 0xFFFFFFFF")
    case True
    have "remove_loop dev c fs = Some (if v = 0 then FR_OK else if v = 1 then FR_INT_ERR else FR_DISK_ERR, g1)"
      using True g1(1) lt by (subst remove_loop.simps) auto
    then show ?thesis using stop cstep_tstep [OF t1] g1(3) e1 assms(4) True by (auto split: if_splits)
  next
    case False
    then have v: "v = fat_entry sectors fs c" "v \<notin> {0, 1}" using g1(3) by auto
    have tk: "table_ok g1" "cluster_no g1 c" using k1 assms(2,4) by simp_all
    obtain r g2 where g2: "put_cluster dev c 0 g1 = Some (r, g2)" "tstep g1 g2" "r = FR_OK \<or> r = FR_DISK_ERR"
      "r = FR_OK \<Longrightarrow> fat_entry sectors g2 c = fat_val g1 0"
      "\<And>c'. cluster_no g1 c' \<Longrightarrow> c' \<noteq> c \<Longrightarrow> fat_entry sectors g2 c' = fat_entry sectors g1 c'"
      using put_cluster_ok [OF k1(1) tk k1(3)] by blast
    have keep: "fat_entry sectors g2 c' = fat_entry sectors fs c'" if "cluster_no fs c'" "c' \<noteq> c" for c'
      using g2(5) e1 that k1(5) by simp
    note t2 = tstep_trans [OF t1 g2(2)]
    show ?thesis
    proof (cases "r = FR_OK")
      case True
      have "remove_loop dev c fs = remove_loop dev (fat_entry sectors fs c) (fsi_add 1 g2)"
        using False g1(1) lt g2(1) True v by (subst remove_loop.simps) simp
      moreover have "cstep fs (fsi_add 1 g2)" unfolding fsi_add_recount by (intro cstep_recount cstep_tstep t2)
      moreover have "free_clust (fsi_add 1 g2) = free_clust (fsi_add 1 fs)"
        using only_window_fields(8) [OF tstep_keeps(2) [OF t2]] by (simp add: fsi_add_recount)
      ultimately show ?thesis using go keep v g2(4) [OF True] by (simp add: fsi_add_recount fat_val_def)
    next
      case err: False
      then have "remove_loop dev c fs = Some (FR_DISK_ERR, g2)"
        using False g1(1) lt g2(1,3) by (subst remove_loop.simps) auto
      then show ?thesis using stop [OF _ cstep_tstep [OF t2]] keep by auto
    qed
  qed
qed

text \<open>The loop ends on every table, also on one with cycles: it never meets a cluster it has freed.\<close>

lemma remove_loop_returns:
  assumes "fs_inv sectors good fs" "table_ok fs" "winsect fs \<noteq> 0" "2 \<le> c"
  shows "\<exists>r gs. remove_loop dev c fs = Some (r, gs) \<and> cstep fs gs \<and> r \<in> {FR_OK, FR_INT_ERR, FR_DISK_ERR}"
  using assms
proof (induction "Finite_Set.card {x. cluster_no fs x \<and> fat_entry sectors fs x \<noteq> 0}" arbitrary: fs c rule: less_induct)
  case less
  have refl: "cstep fs fs"
    using less.prems(1,3) wstep_tstep [OF wstep_refl] by (blast intro: cstep_tstep)
  show ?case
  proof (cases "c < max_clust fs")
    case False
    then have "remove_loop dev c fs = Some (FR_OK, fs)" by (subst remove_loop.simps) simp
    then show ?thesis using refl by simp
  next
    case True
    then have cl: "cluster_no fs c" using less.prems(4) by (simp add: cluster_no_def)
    from less.prems(1-3) cl show ?thesis
    proof (cases rule: remove_step)
      case (go gs)
      note k = cstep_keeps [OF go(2)]
      have "{x. cluster_no gs x \<and> fat_entry sectors gs x \<noteq> 0} \<subset> {x. cluster_no fs x \<and> fat_entry sectors fs x \<noteq> 0}"
      proof (rule psubsetI)
        show "{x. cluster_no gs x \<and> fat_entry sectors gs x \<noteq> 0} \<subseteq> {x. cluster_no fs x \<and> fat_entry sectors fs x \<noteq> 0}"
          using go(4,6) k(4) by (auto; metis)
        have "c \<in> {x. cluster_no fs x \<and> fat_entry sectors fs x \<noteq> 0}" using go(3) cl by simp
        moreover have "c \<notin> {x. cluster_no gs x \<and> fat_entry sectors gs x \<noteq> 0}" using go(4) by simp
        ultimately show "{x. cluster_no gs x \<and> fat_entry sectors gs x \<noteq> 0} \<noteq> {x. cluster_no fs x \<and> fat_entry sectors fs x \<noteq> 0}" by blast
      qed
      then have "Finite_Set.card {x. cluster_no gs x \<and> fat_entry sectors gs x \<noteq> 0} < Finite_Set.card {x. cluster_no fs x \<and> fat_entry sectors fs x \<noteq> 0}"
        by (intro psubset_card_mono) simp_all
      moreover have "2 \<le> fat_entry sectors fs c" using go(3) by (auto intro: two_le)
      ultimately show ?thesis
        using less.hyps [of gs "fat_entry sectors fs c"] k less.prems(2) go(1) cstep_trans [OF go(2)] by metis
    qed auto
  qed
qed

lemma remove_loop_chain:
  assumes "fs_inv sectors good fs" "table_ok fs" "winsect fs \<noteq> 0" "chain (fat_entry sectors fs) (max_clust fs) c cs"
  shows "\<exists>r gs. remove_loop dev c fs = Some (r, gs) \<and> cstep fs gs \<and> r \<in> {FR_OK, FR_DISK_ERR}
    \<and> (\<forall>x. cluster_no fs x \<longrightarrow> x \<notin> set cs \<longrightarrow> fat_entry sectors gs x = fat_entry sectors fs x)
    \<and> (r = FR_OK \<longrightarrow> (\<forall>x\<in>set cs. fat_entry sectors gs x = 0)
        \<and> (unat (free_clust fs) + length cs < 0xFFFFFFFF \<longrightarrow> free_clust gs = free_clust fs + of_nat (length cs)))"
  using assms
proof (induction cs arbitrary: c fs)
  case Nil
  then have "\<not> c < max_clust fs" by auto
  then have "remove_loop dev c fs = Some (FR_OK, fs)" by (subst remove_loop.simps) simp
  moreover have "cstep fs fs"
    using Nil.prems(1,3) wstep_tstep [OF wstep_refl] by (blast intro: cstep_tstep)
  ultimately show ?case by simp
next
  case (Cons x xs)
  have d: "x \<notin> set xs" using chain_distinct [OF Cons.prems(4)] by simp
  have m: "fat_entry sectors fs y \<noteq> 0 \<and> cluster_no fs y" if "y \<in> set (x # xs)" for y
    using chain_members [OF Cons.prems(4) that] by (simp add: cluster_no_def)
  have x: "x = c" "cluster_no fs c" "chain (fat_entry sectors fs) (max_clust fs) (fat_entry sectors fs c) xs"
    using Cons.prems(4) by (auto simp: cluster_no_def)
  from Cons.prems(1-3) x(2) show ?case
  proof (cases rule: remove_step)
    case (stop r gs)
    have "fat_entry sectors fs c \<noteq> 0" "fat_entry sectors fs c \<noteq> 1"
      using chain_next [OF Cons.prems(4)] by simp_all
    then show ?thesis using stop x(1) by auto
  next
    case (go gs)
    note k = cstep_keeps [OF go(2)]
    have "chain (fat_entry sectors gs) (max_clust gs) (fat_entry sectors fs c) xs"
      unfolding k(5) by (rule chain_cong [OF x(3)]) (use go(6) m d x(1) in auto)
    then obtain r hs where hs: "remove_loop dev (fat_entry sectors fs c) gs = Some (r, hs)" "cstep gs hs"
      "r \<in> {FR_OK, FR_DISK_ERR}"
      "\<And>y. cluster_no gs y \<Longrightarrow> y \<notin> set xs \<Longrightarrow> fat_entry sectors hs y = fat_entry sectors gs y"
      "r = FR_OK \<Longrightarrow> (\<forall>x\<in>set xs. fat_entry sectors hs x = 0)
        \<and> (unat (free_clust gs) + length xs < 0xFFFFFFFF \<longrightarrow> free_clust hs = free_clust gs + of_nat (length xs))"
      using Cons.IH [of gs "fat_entry sectors fs c"] k(1-3) Cons.prems(2) by blast
    have "fat_entry sectors hs x = 0" using hs(4) [of x] d go(4) k(4) x(1,2) by simp
    moreover have "fat_entry sectors hs y = fat_entry sectors fs y" if "cluster_no fs y" "y \<notin> set (x # xs)" for y
      using hs(4) [of y] go(6) [of y] that k(4) x(1) by simp
    moreover have "free_clust gs = free_clust fs + 1 \<and> unat (free_clust gs) + length xs < 0xFFFFFFFF"
      if "unat (free_clust fs) + length (x # xs) < 0xFFFFFFFF"
    proof -
      have f: "free_clust gs = free_clust fs + 1" using go(5) that by (auto simp: fsi_add_recount)
      then show ?thesis using that by (simp add: unat_word_ariths)
    qed
    ultimately show ?thesis using hs(1,3,5) cstep_trans [OF go(2) hs(2)] go(1) by (auto simp: add.assoc)
  qed
qed


text \<open>The clusters a search from \<open>scl\<close> that has come to \<open>ncl\<close> has looked at.\<close>

definition searched :: "u32 \<Rightarrow> u32 \<Rightarrow> u32 \<Rightarrow> bool" where
  "searched scl ncl x \<longleftrightarrow> (if scl \<le> ncl then scl < x \<and> x \<le> ncl else scl < x \<or> x \<le> ncl)"

lemma search_step:
  assumes "1 \<le> scl" "scl < m" "1 \<le> ncl" "ncl < m" "\<not> (ncl + 1 \<ge> m \<and> 2 > scl)"
    and "nx = (if ncl + 1 \<ge> m then 2 else ncl + 1)"
  shows "2 \<le> nx" "nx < m"
    "2 \<le> x \<Longrightarrow> x < m \<Longrightarrow> searched scl nx x \<Longrightarrow> nx \<noteq> scl \<Longrightarrow> searched scl ncl x \<or> x = nx"
    "2 \<le> x \<Longrightarrow> x < m \<Longrightarrow> nx = scl \<Longrightarrow> searched scl ncl x \<or> x = nx"
    "nx \<noteq> scl \<Longrightarrow> (if scl \<le> nx then unat m - unat nx + unat scl else unat scl - unat nx)
      < (if scl \<le> ncl then unat m - unat ncl + unat scl else unat scl - unat ncl)"
proof -
  have "unat (ncl + 1) = unat ncl + 1"
    using assms(4) unsigned_less [of m, where ?'a = nat] by (simp add: unat_word_ariths word_less_nat_alt)
  note u = this word_le_nat_alt word_less_nat_alt searched_def word_unat_eq_iff
  show "2 \<le> nx" "nx < m"
    "2 \<le> x \<Longrightarrow> x < m \<Longrightarrow> searched scl nx x \<Longrightarrow> nx \<noteq> scl \<Longrightarrow> searched scl ncl x \<or> x = nx"
    "2 \<le> x \<Longrightarrow> x < m \<Longrightarrow> nx = scl \<Longrightarrow> searched scl ncl x \<or> x = nx"
    "nx \<noteq> scl \<Longrightarrow> (if scl \<le> nx then unat m - unat nx + unat scl else unat scl - unat nx)
      < (if scl \<le> ncl then unat m - unat ncl + unat scl else unat scl - unat ncl)"
    using assms by (auto simp: u split: if_splits)
qed

lemma find_free_ok:
  assumes "fs_inv sectors good fs" "table_ok fs" "winsect fs \<noteq> 0" "m = max_clust fs"
    and "1 \<le> scl" "scl < m" "1 \<le> ncl" "ncl < m"
    and "\<And>x. cluster_no fs x \<Longrightarrow> searched scl ncl x \<Longrightarrow> fat_entry sectors fs x \<noteq> 0"
  shows "\<exists>res gs. find_free dev m scl ncl fs = Some (res, gs) \<and> wstep fs gs
    \<and> (\<forall>n. res = Inr n \<longrightarrow> cluster_no fs n \<and> fat_entry sectors fs n = 0)
    \<and> (\<forall>v. res = Inl v \<longrightarrow> v \<in> {0, 1, 0xFFFFFFFF} \<and> (v = 0 \<longrightarrow> (\<forall>x. cluster_no fs x \<longrightarrow> fat_entry sectors fs x \<noteq> 0)))"
  using assms
proof (induction "if scl \<le> ncl then unat m - unat ncl + unat scl else unat scl - unat ncl" arbitrary: ncl fs rule: less_induct)
  case less
  have cn: "cluster_no fs x \<longleftrightarrow> 2 \<le> x \<and> x < m" for x using less.prems(4) by (simp add: cluster_no_def)
  show ?case
  proof (cases "ncl + 1 \<ge> m \<and> 2 > scl")
    case True
    have "fat_entry sectors fs x \<noteq> 0" if "cluster_no fs x" for x
    proof -
      have "unat (ncl + 1) = unat ncl + 1"
        using less.prems(8) unsigned_less [of m, where ?'a = nat] by (simp add: unat_word_ariths word_less_nat_alt)
      then have "searched scl ncl x"
        using True that less.prems(5-8) by (auto simp: cn searched_def word_le_nat_alt word_less_nat_alt)
      then show ?thesis using less.prems(9) that by blast
    qed
    then show ?thesis using True wstep_refl [OF less.prems(1)] by (subst find_free.simps) simp
  next
    case False
    define nx where "nx = (if ncl + 1 \<ge> m then 2 else ncl + 1)"
    note st = search_step [OF less.prems(5-8) False nx_def]
    have cl: "cluster_no fs nx" using st(1,2) cn by simp
    obtain cs gs where gs: "get_cluster dev nx fs = Some (cs, gs)" "wstep fs gs"
      "cs = fat_entry sectors fs nx \<or> cs = 0xFFFFFFFF"
      using get_cluster_ok [OF less.prems(1,2) cl] by blast
    have w: "winsect gs \<noteq> 0" using gs(2) less.prems(3) by (simp add: wstep_def)
    note k = tstep_keeps [OF wstep_tstep [OF gs(2) w]]
    have e: "fat_entry sectors gs x = fat_entry sectors fs x" if "cluster_no fs x" for x
      using wstep_entry [OF gs(2) less.prems(2,1) that] .
    have run: "find_free dev m scl ncl fs =
       (if cs = 0 then Some (Inr nx, gs) else if cs = 0xFFFFFFFF \<or> cs = 1 then Some (Inl cs, gs)
        else if nx = scl then Some (Inl 0, gs) else find_free dev m scl nx gs)"
      using False gs(1) by (subst find_free.simps) (auto simp: nx_def split: if_splits)
    consider (zero) "cs = 0" | (bad) "cs = 0xFFFFFFFF \<or> cs = 1" | (full) "cs \<notin> {0, 1, 0xFFFFFFFF}" "nx = scl"
      | (next_one) "cs \<notin> {0, 1, 0xFFFFFFFF}" "nx \<noteq> scl" by blast
    then show ?thesis
    proof cases
      case zero
      then show ?thesis using run gs(2,3) cl by simp
    next
      case bad
      then show ?thesis using run gs(2) by auto
    next
      case full
      have "fat_entry sectors fs x \<noteq> 0" if "cluster_no fs x" for x
        using st(4) [of x] that cn less.prems(9) [OF that] full gs(3) by auto
      then show ?thesis using run full gs(2) by simp
    next
      case next_one
      have m: "m = max_clust gs" using only_window_fields(10) [OF k(2)] less.prems(4) by simp
      have tk: "table_ok gs" using k(4) less.prems(2) by simp
      have seen: "fat_entry sectors gs x \<noteq> 0" if "cluster_no gs x" "searched scl nx x" for x
      proof -
        have c: "cluster_no fs x" using that(1) k(5) by simp
        then have "searched scl ncl x \<or> x = nx" using st(3) [of x] that(2) next_one(2) cn by blast
        then show ?thesis using less.prems(9) [OF c] e [OF c] next_one(1) gs(3) by auto
      qed
      have nx1: "1 \<le> nx" using st(1) by (simp add: word_le_nat_alt)
      from less.hyps [OF st(5) [OF next_one(2)] k(1) tk k(3) m less.prems(5,6) nx1 st(2) seen]
      obtain res hs where hs: "find_free dev m scl nx gs = Some (res, hs)" "wstep gs hs"
        "\<And>n. res = Inr n \<Longrightarrow> cluster_no gs n \<and> fat_entry sectors gs n = 0"
        "\<And>v. res = Inl v \<Longrightarrow> v \<in> {0, 1, 0xFFFFFFFF} \<and> (v = 0 \<longrightarrow> (\<forall>x. cluster_no gs x \<longrightarrow> fat_entry sectors gs x \<noteq> 0))"
        by blast
      have "find_free dev m scl ncl fs = Some (res, hs)" using run next_one hs(1) by auto
      then show ?thesis using hs(3,4) e wstep_trans [OF gs(2) hs(2)] unfolding k(5) by auto
    qed
  qed
qed

lemma link_cluster_ok:
  assumes "fs_inv sectors good fs" "table_ok fs" "winsect fs \<noteq> 0" "cluster_no fs n" "fat_entry sectors fs n = 0"
    and "c = 0 \<or> cluster_no fs c \<and> fat_entry sectors fs c \<noteq> 0"
  shows "\<exists>v gs. link_cluster dev c n fs = Some (v, gs) \<and> cstep fs gs \<and> (v = n \<or> v = 0xFFFFFFFF)
    \<and> (\<forall>x. cluster_no fs x \<longrightarrow> x \<noteq> n \<longrightarrow> x \<noteq> c \<longrightarrow> fat_entry sectors gs x = fat_entry sectors fs x)
    \<and> (v = n \<longrightarrow> fat_entry sectors gs n = fat_val fs 0x0FFFFFFF \<and> (c \<noteq> 0 \<longrightarrow> fat_entry sectors gs c = fat_val fs n)
        \<and> last_clust gs = n)"
proof -
  have nc: "c \<noteq> n" using assms(4-6) by (auto simp: cluster_no_def)
  obtain r gs where gs: "put_cluster dev n 0x0FFFFFFF fs = Some (r, gs)" "tstep fs gs" "r = FR_OK \<or> r = FR_DISK_ERR"
    "r = FR_OK \<Longrightarrow> fat_entry sectors gs n = fat_val fs 0x0FFFFFFF"
    "\<And>x. cluster_no fs x \<Longrightarrow> x \<noteq> n \<Longrightarrow> fat_entry sectors gs x = fat_entry sectors fs x"
    using put_cluster_ok [OF assms(1,2,4,3)] by blast
  note k = tstep_keeps [OF gs(2)]
  have big: "n \<noteq> 0xFFFFFFFF"
    using assms(4) unsigned_less [of "max_clust fs", where ?'a = nat] by (auto simp: cluster_no_def word_less_nat_alt)
  show ?thesis
  proof (cases "r = FR_OK")
    case False
    then show ?thesis using gs cstep_tstep [OF gs(2)] big by (simp add: link_cluster_def)
  next
    case ok: True
    show ?thesis
    proof (cases "c = 0")
      case True
      have "link_cluster dev c n fs = Some (n, fsi_add (-1) (gs\<lparr>last_clust := n\<rparr>))"
        using gs(1) ok True by (simp add: link_cluster_def)
      moreover have "cstep fs (fsi_add (-1) (gs\<lparr>last_clust := n\<rparr>))"
        unfolding fsi_add_recount recount_last by (intro cstep_recount cstep_tstep gs)
      ultimately show ?thesis using gs(4,5) ok True by (auto simp: fsi_add_recount recount_last)
    next
      case False
      have c: "cluster_no gs c" "table_ok gs" using False assms(2,6) k(4,5) by simp_all
      obtain q hs where hs: "put_cluster dev c n gs = Some (q, hs)" "tstep gs hs" "q = FR_OK \<or> q = FR_DISK_ERR"
        "q = FR_OK \<Longrightarrow> fat_entry sectors hs c = fat_val gs n"
        "\<And>x. cluster_no gs x \<Longrightarrow> x \<noteq> c \<Longrightarrow> fat_entry sectors hs x = fat_entry sectors gs x"
        using put_cluster_ok [OF k(1) c(2,1) k(3)] by blast
      note t = tstep_trans [OF gs(2) hs(2)]
      have old: "fat_entry sectors hs x = fat_entry sectors fs x" if "cluster_no fs x" "x \<noteq> n" "x \<noteq> c" for x
        using hs(5) gs(5) that k(5) by simp
      have fv: "fat_val gs = fat_val fs" using k(6) by (simp add: fat_val_def fun_eq_iff)
      show ?thesis
      proof (cases "q = FR_OK")
        case True
        have "link_cluster dev c n fs = Some (n, fsi_add (-1) (hs\<lparr>last_clust := n\<rparr>))"
          using gs(1) ok False hs(1) True by (simp add: link_cluster_def)
        moreover have "cstep fs (fsi_add (-1) (hs\<lparr>last_clust := n\<rparr>))"
          unfolding fsi_add_recount recount_last by (intro cstep_recount cstep_tstep t)
        moreover have "fat_entry sectors hs n = fat_val fs 0x0FFFFFFF" using hs(5) [of n] k(5) assms(4) nc gs(4) [OF ok] by simp
        ultimately show ?thesis using hs(4) [OF True] fv old by (auto simp: fsi_add_recount recount_last)
      next
        case err: False
        then have "link_cluster dev c n fs = Some (0xFFFFFFFF, hs)"
          using gs(1) ok False hs(1) by (simp add: link_cluster_def)
        then show ?thesis using cstep_tstep [OF t] old big by simp
      qed
    qed
  qed
qed


lemma wstep_cstep: "wstep fs gs \<Longrightarrow> winsect fs \<noteq> 0 \<Longrightarrow> cstep fs gs"
  by (rule cstep_tstep [OF wstep_tstep]) (auto simp: wstep_def)

text \<open>The outcomes of an allocation: a cluster, no free cluster, a bad table, a disk error.\<close>

definition alloc_post :: "'d fatfs \<Rightarrow> u32 \<Rightarrow> u32 \<Rightarrow> 'd fatfs \<Rightarrow> bool" where
  "alloc_post fs c v gs \<longleftrightarrow> cstep fs gs \<and>
    (cluster_no fs v \<and> fat_entry sectors fs v = 0 \<and> max_clust fs \<le> fat_entry sectors gs v
        \<and> (c \<noteq> 0 \<longrightarrow> fat_entry sectors gs c = v) \<and> last_clust gs = v
        \<and> (\<forall>x. cluster_no fs x \<longrightarrow> x \<noteq> v \<longrightarrow> x \<noteq> c \<longrightarrow> fat_entry sectors gs x = fat_entry sectors fs x)
     \<or> v \<in> {0, 1, 0xFFFFFFFF} \<and> (\<forall>x. cluster_no fs x \<longrightarrow> fat_entry sectors gs x = fat_entry sectors fs x)
        \<and> (v = 0 \<longrightarrow> (\<forall>x. cluster_no fs x \<longrightarrow> fat_entry sectors fs x \<noteq> 0))
     \<or> v = 0xFFFFFFFF \<and> (\<exists>n. cluster_no fs n \<and> fat_entry sectors fs n = 0
        \<and> (\<forall>x. cluster_no fs x \<longrightarrow> x \<noteq> n \<longrightarrow> x \<noteq> c \<longrightarrow> fat_entry sectors gs x = fat_entry sectors fs x)))"

lemma search_and_link:
  assumes "fs_inv sectors good fs" "table_ok fs" "winsect fs \<noteq> 0" "1 \<le> scl" "scl < max_clust fs"
    and "c = 0 \<or> cluster_no fs c \<and> fat_entry sectors fs c \<noteq> 0"
  shows "\<exists>v gs. (do { (found, fs) \<leftarrow> find_free dev (max_clust fs) scl scl fs;
         (case found of Inl v \<Rightarrow> Some (v, fs) | Inr ncl \<Rightarrow> link_cluster dev c ncl fs) }) = Some (v, gs)
    \<and> alloc_post fs c v gs"
proof -
  have "searched scl scl x \<longleftrightarrow> False" for x by (auto simp: searched_def)
  then obtain res gs where gs: "find_free dev (max_clust fs) scl scl fs = Some (res, gs)" "wstep fs gs"
    "\<And>n. res = Inr n \<Longrightarrow> cluster_no fs n \<and> fat_entry sectors fs n = 0"
    "\<And>v. res = Inl v \<Longrightarrow> v \<in> {0, 1, 0xFFFFFFFF} \<and> (v = 0 \<longrightarrow> (\<forall>x. cluster_no fs x \<longrightarrow> fat_entry sectors fs x \<noteq> 0))"
    using find_free_ok [OF assms(1-3) refl assms(4,5,4,5)] by blast
  have w: "winsect gs \<noteq> 0" using gs(2) assms(3) by (simp add: wstep_def)
  note k = tstep_keeps [OF wstep_tstep [OF gs(2) w]]
  have e: "fat_entry sectors gs x = fat_entry sectors fs x" if "cluster_no fs x" for x
    using wstep_entry [OF gs(2) assms(2,1) that] .
  show ?thesis
  proof (cases res)
    case (Inl v)
    then show ?thesis using gs(1) gs(4) [OF Inl] e wstep_cstep [OF gs(2) assms(3)] by (auto simp: alloc_post_def)
  next
    case (Inr n)
    note n = gs(3) [OF Inr]
    have pre: "table_ok gs" "cluster_no gs n" "fat_entry sectors gs n = 0"
      "c = 0 \<or> cluster_no gs c \<and> fat_entry sectors gs c \<noteq> 0"
      using k(4,5) assms(2,6) n e by auto
    obtain v hs where hs: "link_cluster dev c n gs = Some (v, hs)" "cstep gs hs" "v = n \<or> v = 0xFFFFFFFF"
      "\<And>x. cluster_no gs x \<Longrightarrow> x \<noteq> n \<Longrightarrow> x \<noteq> c \<Longrightarrow> fat_entry sectors hs x = fat_entry sectors gs x"
      "v = n \<Longrightarrow> fat_entry sectors hs n = fat_val gs 0x0FFFFFFF \<and> (c \<noteq> 0 \<longrightarrow> fat_entry sectors hs c = fat_val gs n) \<and> last_clust hs = n"
      using link_cluster_ok [OF k(1) pre(1) k(3) pre(2-4)] by blast
    have old: "fat_entry sectors hs x = fat_entry sectors fs x" if "cluster_no fs x" "x \<noteq> n" "x \<noteq> c" for x
      using hs(4) e that k(5) by simp
    have cs: "cstep fs hs" using cstep_trans [OF wstep_cstep [OF gs(2) assms(3)] hs(2)] .
    have "max_clust fs \<le> fat_val gs 0x0FFFFFFF" "fat_val gs n = n"
      using fat_val_cluster [OF pre(1,2)] only_window_fields(10) [OF k(2)] by simp_all
    then show ?thesis using gs(1) Inr hs(1,3,5) n old cs by (auto simp: alloc_post_def)
  qed
qed

lemma create_chain_ok:
  assumes "fs_inv sectors good fs" "table_ok fs" "winsect fs \<noteq> 0"
    and "c = 0 \<or> cluster_no fs c \<and> max_clust fs \<le> fat_entry sectors fs c"
  shows "\<exists>v gs. create_chain dev c fs = Some (v, gs) \<and> alloc_post fs c v gs"
proof -
  have m2: "2 \<le> max_clust fs" using assms(2) by (simp add: table_ok_def)
  show ?thesis
  proof (cases "c = 0")
    case True
    define scl where "scl = (if last_clust fs = 0 \<or> last_clust fs \<ge> max_clust fs then 1 else last_clust fs)"
    have "1 \<le> scl" "scl < max_clust fs"
      using m2 by (auto simp: scl_def word_le_nat_alt word_less_nat_alt Suc_le_eq unat_gt_0)
    note sl = search_and_link [OF assms(1-3) this, of c]
    have "create_chain dev c fs = (do { (found, fs) \<leftarrow> find_free dev (max_clust fs) scl scl fs;
         (case found of Inl v \<Rightarrow> Some (v, fs) | Inr ncl \<Rightarrow> link_cluster dev c ncl fs) })"
      unfolding True by (simp add: create_chain_def scl_def Let_def)
    with sl True show ?thesis by simp
  next
    case False
    then have c: "cluster_no fs c" "max_clust fs \<le> fat_entry sectors fs c" using assms(4) by auto
    obtain cs gs where gs: "get_cluster dev c fs = Some (cs, gs)" "wstep fs gs"
      "cs = fat_entry sectors fs c \<or> cs = 0xFFFFFFFF"
      using get_cluster_ok [OF assms(1,2) c(1)] by blast
    have w: "winsect gs \<noteq> 0" using gs(2) assms(3) by (simp add: wstep_def)
    note k = tstep_keeps [OF wstep_tstep [OF gs(2) w]]
    have mx: "max_clust gs = max_clust fs" using only_window_fields(10) [OF k(2)] .
    have big: "\<not> cs < 2" "\<not> cs < max_clust fs"
      using gs(3) c(2) m2 unsigned_less [of "max_clust fs", where ?'a = nat] by (auto simp: word_less_nat_alt word_le_nat_alt)
    have e: "fat_entry sectors gs x = fat_entry sectors fs x" if "cluster_no fs x" for x
      using wstep_entry [OF gs(2) assms(2,1) that] .
    have pre: "table_ok gs" "1 \<le> c" "c < max_clust gs" "cluster_no gs c \<and> fat_entry sectors gs c \<noteq> 0"
      using k(4,5) assms(2) c m2 mx e [OF c(1)] by (auto simp: cluster_no_def word_le_nat_alt)
    obtain v hs where hs: "(do { (found, fs) \<leftarrow> find_free dev (max_clust gs) c c gs;
         (case found of Inl v \<Rightarrow> Some (v, fs) | Inr ncl \<Rightarrow> link_cluster dev c ncl fs) }) = Some (v, hs)" "alloc_post gs c v hs"
      using search_and_link [OF k(1) pre(1) k(3) pre(2,3)] pre(4) by blast
    have "create_chain dev c fs = Some (v, hs)"
      using gs(1) False big hs(1) mx by (simp add: create_chain_def Let_def)
    moreover have "alloc_post fs c v hs"
      using hs(2) e cstep_trans [OF wstep_cstep [OF gs(2) assms(3)]] unfolding alloc_post_def mx k(5) by auto
    ultimately show ?thesis by blast
  qed
qed

end

section \<open>Chains on the SD card\<close>

text \<open>
  C25: Freeing a chain: every cluster of it becomes free and the count of free clusters grows by their number,
  unless the disk fails; entries outside the chain and sectors outside the tables never change.
\<close>

theorem remove_chain_frees:
  fixes fs :: "'a disk_st_scheme fatfs"
  assumes "fs_inv image (disk_ok ev ba) fs" "table_ok fs" "winsect fs \<noteq> 0"
    and "chain (fat_entry image fs) (max_clust fs) c cs" "cs \<noteq> []" "unat (free_clust fs) + length cs < 0xFFFFFFFF"
  shows "\<exists>r gs. remove_chain (sd_device ev torn ba) c fs = Some (r, gs) \<and> fs_inv image (disk_ok ev ba) gs \<and> r \<in> {FR_OK, FR_DISK_ERR}
    \<and> (r = FR_OK \<longrightarrow> (\<forall>x\<in>set cs. fat_entry image gs x = 0) \<and> free_clust gs = free_clust fs + of_nat (length cs))
    \<and> (\<forall>x. cluster_no fs x \<longrightarrow> x \<notin> set cs \<longrightarrow> fat_entry image gs x = fat_entry image fs x)
    \<and> (\<forall>x. x \<notin> fat_area fs \<longrightarrow> vol image gs x = vol image fs x)"
proof -
  have "\<not> (c < 2 \<or> c \<ge> max_clust fs)" using assms(4,5) by (cases cs) auto
  then have "remove_chain (sd_device ev torn ba) c fs = remove_loop (sd_device ev torn ba) c fs"
    by (simp add: remove_chain_def)
  then show ?thesis using sd.remove_loop_chain [OF assms(1-4), of torn] assms(6) sd.cstep_keeps(1) sd.cstep_vol by metis
qed

text \<open>A FAT16 table with the chain 2, 5, 3.\<close>

definition chain_table :: "u8 list" where
  "chain_table = [0xF8, 0xFF, 0xFF, 0xFF, 5, 0, 0xFF, 0xFF, 0, 0, 3, 0] @ replicate 500 0"

lemma chain_table_entries:
  "fat_entry image (small_fs FS_FAT16 chain_table) 2 = 5" "fat_entry image (small_fs FS_FAT16 chain_table) 5 = 3"
  "fat_entry image (small_fs FS_FAT16 chain_table) 3 = 0xFFFF" "fat_entry image (small_fs FS_FAT16 chain_table) 4 = 0"
  by (simp_all add: fat_entry_def Let_def small_fs_tbl) (simp_all add: small_fs_def chain_table_def le16_def)

lemma chain_table_chain:
  "chain (fat_entry image (small_fs FS_FAT16 chain_table)) (max_clust (small_fs FS_FAT16 chain_table)) 2 [2, 5, 3]"
  by (simp add: chain_table_entries) (simp add: small_fs_def)

theorem remove_chain_frees_witness:
  "\<exists>r gs. remove_chain (sd_device done_env (\<lambda>_. []) 0x10000000) 2 (small_fs FS_FAT16 chain_table) = Some (r, gs)
    \<and> (r = FR_OK \<longrightarrow> fat_entry image gs 5 = 0 \<and> free_clust gs = 8)"
proof -
  have "free_clust (small_fs FS_FAT16 chain_table) = 5" by (simp add: small_fs_def)
  then show ?thesis
    using remove_chain_frees [OF _ _ _ chain_table_chain, where ev = done_env and ba = "0x10000000" and torn = "\<lambda>_. []"]
    by (auto simp: small_fs_ok chain_table_def)
qed

text \<open>
  C26: Freeing from a cluster returns on every table, also on a damaged one whose chain runs in a circle: no
  cluster is freed twice.
\<close>

theorem remove_chain_returns:
  fixes fs :: "'a disk_st_scheme fatfs"
  assumes "fs_inv image (disk_ok ev ba) fs" "table_ok fs" "winsect fs \<noteq> 0"
  shows "\<exists>r gs. remove_chain (sd_device ev torn ba) c fs = Some (r, gs) \<and> r \<in> {FR_OK, FR_INT_ERR, FR_DISK_ERR}"
proof (cases "c < 2 \<or> c \<ge> max_clust fs")
  case True
  then show ?thesis by (simp add: remove_chain_def)
next
  case False
  then have "2 \<le> c" by (simp add: not_less)
  with sd.remove_loop_returns [OF assms this, of torn] False show ?thesis by (auto simp: remove_chain_def)
qed

theorem remove_chain_returns_witness:
  "\<exists>r gs. remove_chain (sd_device done_env (\<lambda>_. []) 0x10000000) 3
     (small_fs FS_FAT16 (chain_table[6 := 2, 7 := 0])) = Some (r, gs)"
  using remove_chain_returns [where ev = done_env and ba = "0x10000000" and fs = "small_fs FS_FAT16 (chain_table[6 := 2, 7 := 0])"
    and torn = "\<lambda>_. []" and c = 3]
  by (auto simp: small_fs_ok chain_table_def)

text \<open>
  C24: Extending a chain by a cluster (or starting one): a cluster is returned only if it was free; it becomes the
  last of the chain and no entry beside it and its predecessor changes. 0 is returned only when every
  cluster is in use.
\<close>

theorem create_chain_extends:
  fixes fs :: "'a disk_st_scheme fatfs"
  assumes "fs_inv image (disk_ok ev ba) fs" "table_ok fs" "winsect fs \<noteq> 0"
    and "chain (fat_entry image fs) (max_clust fs) c0 (cs @ [c])"
  shows "\<exists>v gs. create_chain (sd_device ev torn ba) c fs = Some (v, gs) \<and> fs_inv image (disk_ok ev ba) gs
    \<and> (\<forall>x. x \<notin> fat_area fs \<longrightarrow> vol image gs x = vol image fs x)
    \<and> (v = 0 \<longrightarrow> (\<forall>x. cluster_no fs x \<longrightarrow> fat_entry image fs x \<noteq> 0))
    \<and> (v \<notin> {0, 1, 0xFFFFFFFF} \<longrightarrow> cluster_no fs v \<and> fat_entry image fs v = 0 \<and> last_clust gs = v
        \<and> chain (fat_entry image gs) (max_clust gs) c0 (cs @ [c, v])
        \<and> (\<forall>x. cluster_no fs x \<longrightarrow> x \<noteq> v \<longrightarrow> x \<noteq> c \<longrightarrow> fat_entry image gs x = fat_entry image fs x))"
proof -
  have d: "c \<notin> set cs" using chain_distinct [OF assms(4)] by simp
  have m: "cluster_no fs x \<and> fat_entry image fs x \<noteq> 0" if "x \<in> set (cs @ [c])" for x
    using chain_members [OF assms(4) that] by (simp add: cluster_no_def)
  have "chain (fat_entry image fs) (max_clust fs) c [c]" by (rule chain_suffix) (rule assms(4))
  then have "c = 0 \<or> cluster_no fs c \<and> max_clust fs \<le> fat_entry image fs c" by (simp add: cluster_no_def)
  from sd.create_chain_ok [OF assms(1-3) this, of torn]
  obtain v gs where gs: "create_chain (sd_device ev torn ba) c fs = Some (v, gs)" "sd.alloc_post ev ba fs c v gs"
    by blast
  have cs: "sd.cstep ev ba fs gs" using gs(2) by (simp add: sd.alloc_post_def)
  note k = sd.cstep_keeps [OF cs]
  have z: "v = 0 \<longrightarrow> (\<forall>x. cluster_no fs x \<longrightarrow> fat_entry image fs x \<noteq> 0)"
    using gs(2) by (auto simp: sd.alloc_post_def cluster_no_def)
  show ?thesis
  proof (cases "v \<in> {0, 1, 0xFFFFFFFF}")
    case True
    then show ?thesis using gs(1) k(1) sd.cstep_vol [OF cs] z by auto
  next
    case False
    then have a: "cluster_no fs v" "fat_entry image fs v = 0" "max_clust fs \<le> fat_entry image gs v"
      "c \<noteq> 0 \<longrightarrow> fat_entry image gs c = v" "last_clust gs = v"
      "\<And>x. cluster_no fs x \<Longrightarrow> x \<noteq> v \<Longrightarrow> x \<noteq> c \<Longrightarrow> fat_entry image gs x = fat_entry image fs x"
      using gs(2) by (auto simp: sd.alloc_post_def)
    have "c \<noteq> 0" using m [of c] by (auto simp: cluster_no_def)
    moreover have v: "v \<notin> set (cs @ [c])" using m a(2) by blast
    ultimately have "chain (fat_entry image gs) (max_clust gs) c0 (cs @ [c, v])"
      using a(1,3,4,6) m d unfolding k(5)
      by (intro chain_extend [OF assms(4)]) (auto simp: cluster_no_def)
    then show ?thesis using gs(1) k(1) sd.cstep_vol [OF cs] z a by auto
  qed
qed

theorem create_chain_extends_witness:
  "\<exists>v gs. create_chain (sd_device done_env (\<lambda>_. []) 0x10000000) 3 (small_fs FS_FAT16 chain_table) = Some (v, gs)
    \<and> v \<noteq> 0 \<and> (v \<notin> {1, 0xFFFFFFFF} \<longrightarrow> chain (fat_entry image gs) (max_clust gs) 2 [2, 5, 3, v])"
proof -
  have ch: "chain (fat_entry image (small_fs FS_FAT16 chain_table)) (max_clust (small_fs FS_FAT16 chain_table)) 2 ([2, 5] @ [3])"
    unfolding append.simps by (rule chain_table_chain)
  from create_chain_extends [OF _ _ _ ch, where ev = done_env and ba = "0x10000000" and torn = "\<lambda>_. []"]
  obtain v gs where gs: "create_chain (sd_device done_env (\<lambda>_. []) 0x10000000) 3 (small_fs FS_FAT16 chain_table) = Some (v, gs)"
    "v = 0 \<Longrightarrow> (\<forall>x. cluster_no (small_fs FS_FAT16 chain_table) x \<longrightarrow> fat_entry image (small_fs FS_FAT16 chain_table) x \<noteq> 0)"
    "v \<notin> {0, 1, 0xFFFFFFFF} \<Longrightarrow> chain (fat_entry image gs) (max_clust gs) 2 [2, 5, 3, v]"
    by (auto simp: small_fs_ok chain_table_def)
  have "v \<noteq> 0"
  proof
    assume "v = 0"
    moreover have "cluster_no (small_fs FS_FAT16 chain_table) 4" by (simp add: small_fs_ok chain_table_def)
    ultimately show False using gs(2) chain_table_entries(4) by blast
  qed
  then show ?thesis using gs by auto
qed

section \<open>A read error while extending\<close>

text \<open>
  \<^verbatim>\<open>create_chain\<close> takes the value \<^verbatim>\<open>0xFFFFFFFF\<close> of a failed \<^verbatim>\<open>get_cluster\<close> for an end mark. On a device
  whose first read fails and which works from then on, extending at cluster 2 of the chain 2, 5, 3 reports
  success and cuts clusters 5 and 3 off.
\<close>

definition flaky :: "(bool \<times> (u32 \<Rightarrow> u8 list)) device" where
  "flaky = \<lparr>d_initialize = (\<lambda>d. (0, d)), d_status = (\<lambda>_. 0),
     d_read = (\<lambda>b sec n (bad, v). Some (if bad then (RES_ERROR, b, (False, v)) else (RES_OK, gather v sec (unat n), (False, v)))),
     d_write = (\<lambda>b sec n (bad, v). Some (RES_OK, (bad, scatter v sec (unat n) b))), d_ioctl = (\<lambda>_. RES_OK)\<rparr>"

definition flaky_fs :: "(bool \<times> (u32 \<Rightarrow> u8 list)) fatfs" where
  "flaky_fs = \<lparr>fs_type = FS_FAT16, csize = 1, n_fats = 1, wflag = 0, fs_id = 1, n_rootdir = 16, fsi_flag = 0,
     last_clust = 0, free_clust = 5, fsi_sector = 0, sects_fat = 1, max_clust = 8, fatbase = 1, dirbase = 2,
     database = 3, winsect = 3, win = replicate 512 0, disk = (True, (\<lambda>_. replicate 512 0)(1 := chain_table))\<rparr>"

lemma create_chain_cuts_tail:
  "\<exists>gs. create_chain flaky 2 flaky_fs = Some (4, gs) \<and> LD_WORD (win gs) 4 = 4 \<and> winsect gs = 1"
  by (simp add: create_chain_def Let_def get_cluster_def move_window_def flaky_def flaky_fs_def,
      (subst find_free.simps, simp add: get_cluster_def move_window_def fat_ofs_def LD_WORD_def chain_table_def)+,
      simp add: link_cluster_def put_cluster_def move_window_def fat_ofs_def win_upd_def ST_WORD_def LD_WORD_def fsi_add_def)

end
