(* ===== verification/FatDir.thy ===== *)
theory FatDir
  imports FatChain
begin

text \<open>
  \<^verbatim>\<open>armboot/storage/ff.c\<close>, second part: directories, file names and paths. A directory object points to an
  entry by its offset in the window; it is returned also where the code fails, with the fields it has
  changed by then. Names are byte lists; the end of the list is the terminator of the C string.
\<close>

section \<open>Memory functions\<close>

fun mem_cpy :: "nat \<Rightarrow> u8 list \<Rightarrow> nat \<Rightarrow> nat \<Rightarrow> u8 list \<Rightarrow> u8 list" where
  "mem_cpy d src s 0 w = w"
| "mem_cpy d src s (Suc cnt) w = mem_cpy (d + 1) src (s + 1) cnt (w[d := src ! s])"

fun mem_set :: "nat \<Rightarrow> u8 \<Rightarrow> nat \<Rightarrow> u8 list \<Rightarrow> u8 list" where
  "mem_set d val 0 w = w"
| "mem_set d val (Suc cnt) w = mem_set (d + 1) val cnt (w[d := val])"

fun mem_cmp :: "u8 list \<Rightarrow> nat \<Rightarrow> u8 list \<Rightarrow> nat \<Rightarrow> nat \<Rightarrow> int" where
  "mem_cmp dst d src s 0 = 0"
| "mem_cmp dst d src s (Suc cnt) = (let r = uint (dst ! d) - uint (src ! s) in
     if r = 0 then mem_cmp dst (d + 1) src (s + 1) cnt else r)"

fun chk_chr :: "u8 list \<Rightarrow> u8 \<Rightarrow> u8" where
  "chk_chr [] chr = 0"
| "chk_chr (x # str) chr = (if x \<noteq> chr then chk_chr str chr else x)"

section \<open>Directory objects\<close>

record DIR =
  dj_index :: u16
  sclust :: u32
  clust :: u32
  dj_sect :: u32
  dj_dir :: "nat option"
  dj_fn :: "u8 list"

abbreviation (input) "DIR_Attr \<equiv> 11 :: nat"
abbreviation (input) "DIR_NTres \<equiv> 12 :: nat"
abbreviation (input) "DIR_CrtTime \<equiv> 14 :: nat"
abbreviation (input) "DIR_FstClusHI \<equiv> 20 :: nat"
abbreviation (input) "DIR_WrtTime \<equiv> 22 :: nat"
abbreviation (input) "DIR_FstClusLO \<equiv> 26 :: nat"
abbreviation (input) "DIR_FileSize \<equiv> 28 :: nat"
abbreviation (input) "AM_RDO \<equiv> 0x01 :: u8"
abbreviation (input) "AM_VOL \<equiv> 0x08 :: u8"
abbreviation (input) "AM_DIR \<equiv> 0x10 :: u8"
abbreviation (input) "AM_ARC \<equiv> 0x20 :: u8"
abbreviation (input) "AM_MASK \<equiv> 0x3F :: u8"

text \<open>Offset of the entry with a given index, 16 entries in a sector.\<close>

definition entry_ofs :: "u16 \<Rightarrow> nat" where
  "entry_ofs idx = unat (idx mod 16) * 32"

section \<open>Moving in a directory\<close>

text \<open>The loop that follows the chain of a directory: \<open>Inl\<close> a failure, \<open>Inr\<close> the cluster and the rest of the index.\<close>

partial_function (option) seek_loop ::
  "'d device \<Rightarrow> u16 \<Rightarrow> u32 \<Rightarrow> u16 \<Rightarrow> 'd fatfs \<Rightarrow> ((FRESULT + u32 \<times> u16) \<times> 'd fatfs) option" where
  "seek_loop dev ic clst idx fs =
    (if idx \<ge> ic then do {
       (clst, fs) \<leftarrow> get_cluster dev clst fs;
       if clst = 0xFFFFFFFF then Some (Inl FR_DISK_ERR, fs)
       else if clst < 2 \<or> clst \<ge> max_clust fs then Some (Inl FR_INT_ERR, fs)
       else seek_loop dev ic clst (idx - ic) fs }
     else Some (Inr (clst, idx), fs))"

definition dir_seek :: "'d device \<Rightarrow> DIR \<Rightarrow> u16 \<Rightarrow> 'd fatfs \<Rightarrow> (FRESULT \<times> DIR \<times> 'd fatfs) option" where
  "dir_seek dev dj idx fs =
    (let dj = dj\<lparr>dj_index := idx\<rparr>; clst = sclust dj in
     if clst = 1 \<or> clst \<ge> max_clust fs then Some (FR_INT_ERR, dj, fs)
     else if clst = 0 then
       (if idx \<ge> n_rootdir fs then Some (FR_INT_ERR, dj, fs)
        else Some (FR_OK, dj\<lparr>dj_sect := dirbase fs + ucast (idx div 16), dj_dir := Some (entry_ofs idx)\<rparr>, fs))
     else do {
       (r, fs) \<leftarrow> seek_loop dev (16 * ucast (csize fs)) clst idx fs;
       Some (case r of Inl e \<Rightarrow> (e, dj, fs)
        | Inr (clst, idx) \<Rightarrow> (FR_OK, dj\<lparr>clust := clst, dj_sect := clust2sect clst fs + ucast (idx div 16),
            dj_dir := Some (entry_ofs idx)\<rparr>, fs)) })"

text \<open>The loop that fills a new cluster with the cleared window; the flag says whether it got through.\<close>

fun clear_loop :: "'d device \<Rightarrow> nat \<Rightarrow> 'd fatfs \<Rightarrow> (bool \<times> 'd fatfs) option" where
  "clear_loop dev 0 fs = Some (True, fs)"
| "clear_loop dev (Suc n) fs = do {
     (r, fs) \<leftarrow> move_window dev 0 (fs\<lparr>wflag := 1\<rparr>);
     if r \<noteq> FR_OK then Some (False, fs)
     else clear_loop dev n (fs\<lparr>winsect := winsect fs + 1\<rparr>) }"

definition clear_cluster :: "'d device \<Rightarrow> u32 \<Rightarrow> 'd fatfs \<Rightarrow> (FRESULT \<times> 'd fatfs) option" where
  "clear_cluster dev clst fs = do {
     (r, fs) \<leftarrow> move_window dev 0 fs;
     if r \<noteq> FR_OK then Some (FR_DISK_ERR, fs)
     else do {
       let fs = win_upd (mem_set 0 0 512) fs;
       let fs = fs\<lparr>winsect := clust2sect clst fs\<rparr>;
       (ok, fs) \<leftarrow> clear_loop dev (unat (csize fs)) fs;
       if \<not> ok then Some (FR_DISK_ERR, fs)
       else Some (FR_OK, fs\<lparr>winsect := winsect fs - ucast (csize fs)\<rparr>) } }"

text \<open>The next cluster of a dynamic table, added and cleared if needed: \<open>Inl\<close> the result returned early.\<close>

definition next_dir_cluster :: "'d device \<Rightarrow> u32 \<Rightarrow> bool \<Rightarrow> 'd fatfs \<Rightarrow> ((FRESULT + u32) \<times> 'd fatfs) option" where
  "next_dir_cluster dev cur streach fs = do {
     (clst, fs) \<leftarrow> get_cluster dev cur fs;
     if clst \<le> 1 then Some (Inl FR_INT_ERR, fs)
     else if clst = 0xFFFFFFFF then Some (Inl FR_DISK_ERR, fs)
     else if clst \<ge> max_clust fs then
       (if \<not> streach then Some (Inl FR_NO_FILE, fs)
        else do {
          (clst, fs) \<leftarrow> create_chain dev cur fs;
          if clst = 0 then Some (Inl FR_DENIED, fs)
          else if clst = 1 then Some (Inl FR_INT_ERR, fs)
          else if clst = 0xFFFFFFFF then Some (Inl FR_DISK_ERR, fs)
          else do {
            (r, fs) \<leftarrow> clear_cluster dev clst fs;
            Some (if r \<noteq> FR_OK then Inl r else Inr clst, fs) } })
     else Some (Inr clst, fs) }"

definition dir_next :: "'d device \<Rightarrow> DIR \<Rightarrow> bool \<Rightarrow> 'd fatfs \<Rightarrow> (FRESULT \<times> DIR \<times> 'd fatfs) option" where
  "dir_next dev dj streach fs = do {
     let i = dj_index dj + 1;
     if i = 0 \<or> dj_sect dj = 0 then Some (FR_NO_FILE, dj, fs)
     else do {
       (res, dj, fs) \<leftarrow>
         (if i mod 16 = 0 then do {
            let dj = dj\<lparr>dj_sect := dj_sect dj + 1\<rparr>;
            if sclust dj = 0 then Some (if i \<ge> n_rootdir fs then FR_NO_FILE else FR_OK, dj, fs)
            else if ucast (i div 16) AND (ucast (csize fs) - 1) = (0 :: u32) then do {
              (r, fs) \<leftarrow> next_dir_cluster dev (clust dj) streach fs;
              Some (case r of Inl e \<Rightarrow> (e, dj, fs)
                | Inr clst \<Rightarrow> (FR_OK, dj\<lparr>clust := clst, dj_sect := clust2sect clst fs\<rparr>, fs)) }
            else Some (FR_OK, dj, fs) }
          else Some (FR_OK, dj, fs));
       Some (if res \<noteq> FR_OK then (res, dj, fs)
         else (FR_OK, dj\<lparr>dj_index := i, dj_dir := Some (entry_ofs i)\<rparr>, fs)) } }"

section \<open>Finding, reading and registering entries\<close>

text \<open>A valid entry whose name is the one looked for.\<close>

definition valid_entry :: "u8 list \<Rightarrow> nat \<Rightarrow> bool" where
  "valid_entry w d \<longleftrightarrow> w ! d \<noteq> 0xE5 \<and> w ! d \<noteq> 0x2E \<and> (w ! (d + DIR_Attr) AND AM_MASK) AND AM_VOL = 0"

partial_function (option) find_loop ::
  "'d device \<Rightarrow> DIR \<Rightarrow> 'd fatfs \<Rightarrow> (FRESULT \<times> DIR \<times> 'd fatfs) option" where
  "find_loop dev dj fs = do {
     (res, fs) \<leftarrow> move_window dev (dj_sect dj) fs;
     if res \<noteq> FR_OK then Some (res, dj, fs)
     else do {
       d \<leftarrow> dj_dir dj;
       if win fs ! d = 0 then Some (FR_NO_FILE, dj, fs)
       else if valid_entry (win fs) d \<and> mem_cmp (win fs) d (dj_fn dj) 0 11 = 0 then Some (FR_OK, dj, fs)
       else do {
         (res, dj, fs) \<leftarrow> dir_next dev dj False fs;
         if res = FR_OK then find_loop dev dj fs else Some (res, dj, fs) } } }"

definition dir_find :: "'d device \<Rightarrow> DIR \<Rightarrow> 'd fatfs \<Rightarrow> (FRESULT \<times> DIR \<times> 'd fatfs) option" where
  "dir_find dev dj fs = do {
     (res, dj, fs) \<leftarrow> dir_seek dev dj 0 fs;
     if res \<noteq> FR_OK then Some (res, dj, fs) else find_loop dev dj fs }"

partial_function (option) read_loop ::
  "'d device \<Rightarrow> FRESULT \<Rightarrow> DIR \<Rightarrow> 'd fatfs \<Rightarrow> (FRESULT \<times> DIR \<times> 'd fatfs) option" where
  "read_loop dev res dj fs =
    (if dj_sect dj \<noteq> 0 then do {
       (res, fs) \<leftarrow> move_window dev (dj_sect dj) fs;
       if res \<noteq> FR_OK then Some (res, dj, fs)
       else do {
         d \<leftarrow> dj_dir dj;
         if win fs ! d = 0 then Some (FR_NO_FILE, dj, fs)
         else if valid_entry (win fs) d then Some (res, dj, fs)
         else do {
           (res, dj, fs) \<leftarrow> dir_next dev dj False fs;
           if res \<noteq> FR_OK then Some (res, dj, fs) else read_loop dev res dj fs } } }
     else Some (res, dj, fs))"

definition dir_read :: "'d device \<Rightarrow> DIR \<Rightarrow> 'd fatfs \<Rightarrow> (FRESULT \<times> DIR \<times> 'd fatfs) option" where
  "dir_read dev dj fs = do {
     (res, dj, fs) \<leftarrow> read_loop dev FR_NO_FILE dj fs;
     Some (res, if res \<noteq> FR_OK then dj\<lparr>dj_sect := 0\<rparr> else dj, fs) }"

partial_function (option) blank_loop ::
  "'d device \<Rightarrow> DIR \<Rightarrow> 'd fatfs \<Rightarrow> (FRESULT \<times> DIR \<times> 'd fatfs) option" where
  "blank_loop dev dj fs = do {
     (res, fs) \<leftarrow> move_window dev (dj_sect dj) fs;
     if res \<noteq> FR_OK then Some (res, dj, fs)
     else do {
       d \<leftarrow> dj_dir dj;
       if win fs ! d = 0xE5 \<or> win fs ! d = 0 then Some (FR_OK, dj, fs)
       else do {
         (res, dj, fs) \<leftarrow> dir_next dev dj True fs;
         if res = FR_OK then blank_loop dev dj fs else Some (res, dj, fs) } } }"

text \<open>The fields of a new entry: cleared, the name, the capitalisation flags.\<close>

definition init_entry :: "nat \<Rightarrow> u8 list \<Rightarrow> u8 list \<Rightarrow> u8 list" where
  "init_entry d fn w = (mem_cpy d fn 0 11 (mem_set d 0 32 w))[d + DIR_NTres := fn ! 11 AND 0x18]"

definition dir_register :: "'d device \<Rightarrow> DIR \<Rightarrow> 'd fatfs \<Rightarrow> (FRESULT \<times> DIR \<times> 'd fatfs) option" where
  "dir_register dev dj fs = do {
     (res, dj, fs) \<leftarrow> dir_seek dev dj 0 fs;
     (res, dj, fs) \<leftarrow> (if res = FR_OK then blank_loop dev dj fs else Some (res, dj, fs));
     if res \<noteq> FR_OK then Some (res, dj, fs)
     else do {
       (res, fs) \<leftarrow> move_window dev (dj_sect dj) fs;
       if res \<noteq> FR_OK then Some (res, dj, fs)
       else do {
         d \<leftarrow> dj_dir dj;
         Some (FR_OK, dj, (win_upd (init_entry d (dj_fn dj)) fs)\<lparr>wflag := 1\<rparr>) } } }"

section \<open>Names and paths\<close>

definition IsUpper :: "u8 \<Rightarrow> bool" where "IsUpper c \<longleftrightarrow> 0x41 \<le> c \<and> c \<le> 0x5A"
definition IsLower :: "u8 \<Rightarrow> bool" where "IsLower c \<longleftrightarrow> 0x61 \<le> c \<and> c \<le> 0x7A"
definition IsDBCS1 :: "u8 \<Rightarrow> bool" where "IsDBCS1 c \<longleftrightarrow> 0x81 \<le> c \<and> c \<le> 0x9F \<or> 0xE0 \<le> c \<and> c \<le> 0xFC"
definition IsDBCS2 :: "u8 \<Rightarrow> bool" where "IsDBCS2 c \<longleftrightarrow> 0x40 \<le> c \<and> c \<le> 0x7E \<or> 0x80 \<le> c \<and> c \<le> 0xFC"

text \<open>The characters no short name may have.\<close>

definition bad_chars :: "u8 list" where
  "bad_chars = [0x20, 0x2B, 0x2C, 0x3B, 0x5B, 0x3D, 0x5D, 0x22, 0x2A, 0x3A, 0x3C, 0x3E, 0x3F, 0x7C, 0x7F]"

text \<open>One character of a string and what follows it; the terminator is the last.\<close>

definition next_chr :: "u8 list \<Rightarrow> u8 \<times> u8 list" where
  "next_chr p = (case p of [] \<Rightarrow> (0, []) | c # p \<Rightarrow> (c, p))"

definition is_sep :: "u8 \<Rightarrow> bool" where
  "is_sep c \<longleftrightarrow> c = 0x2F \<or> c = 0x5C"

text \<open>
  The loop of \<^verbatim>\<open>create_name\<close>: position, limit, capitalisation bits and the name so far. It ends with the
  character that ends the segment and the rest of the path, \<open>None\<close> for an invalid name.
\<close>

function name_loop ::
  "u8 list \<Rightarrow> nat \<Rightarrow> nat \<Rightarrow> u8 \<Rightarrow> u8 list \<Rightarrow> (u8 \<times> nat \<times> nat \<times> u8 \<times> u8 list \<times> u8 list) option" where
  "name_loop p i ni b sfn =
    (let (c, p') = next_chr p in
     if c < 0x20 \<or> is_sep c then Some (c, i, ni, b, sfn, p')
     else if c = 0x2E \<or> i \<ge> ni then
       (if ni \<noteq> 8 \<or> c \<noteq> 0x2E then None else name_loop p' 8 11 (push_bit 2 b) sfn)
     else
       (let b = (if c \<ge> 0x80 then b OR 3 else b) in
        if IsDBCS1 c then
          (let (d, p'') = next_chr p' in
           if \<not> IsDBCS2 d \<or> i + 1 \<ge> ni then None
           else name_loop p'' (i + 2) ni b (sfn[i := c, i + 1 := d]))
        else if chk_chr bad_chars c \<noteq> 0 then None
        else
          (let (b, c) = (if IsUpper c then (b OR 2, c) else if IsLower c then (b OR 1, c - 0x20) else (b, c))
           in name_loop p' (i + 1) ni b (sfn[i := c]))))"
  by pat_completeness auto

lemma next_chr_shorter:
  "next_chr p = (c, p') \<Longrightarrow> length p' \<le> length p \<and> (0x20 \<le> c \<longrightarrow> length p' < length p)"
  by (auto simp: next_chr_def split: list.splits)

termination name_loop
  by (relation "measure (\<lambda>(p, _). length p)")
    (auto dest!: next_chr_shorter [OF sym] simp: not_less)

text \<open>The name buffer is of no further use when the name is refused.\<close>

definition create_name :: "DIR \<Rightarrow> u8 list \<Rightarrow> FRESULT \<times> DIR \<times> u8 list" where
  "create_name dj path =
    (case name_loop path 0 8 0 (mem_set 0 0x20 11 (dj_fn dj)) of
       None \<Rightarrow> (FR_INVALID_NAME, dj, path)
     | Some (c, i, ni, b, sfn, rest) \<Rightarrow>
        (let c = (if c < 0x20 then 4 else 0) in
         if i = 0 then (FR_INVALID_NAME, dj\<lparr>dj_fn := sfn\<rparr>, rest)
         else
          (let sfn = (if sfn ! 0 = 0xE5 then sfn[0 := 0x05] else sfn);
               b = (if ni = 8 then push_bit 2 b else b);
               c = (if b AND 0x03 = 0x01 then c OR 0x10 else c);
               c = (if b AND 0x0C = 0x04 then c OR 0x08 else c)
           in (FR_OK, dj\<lparr>dj_fn := sfn[11 := c]\<rparr>, rest))))"

text \<open>Following a path, segment by segment.\<close>

partial_function (option) follow_loop ::
  "'d device \<Rightarrow> u8 list \<Rightarrow> DIR \<Rightarrow> 'd fatfs \<Rightarrow> (FRESULT \<times> DIR \<times> 'd fatfs) option" where
  "follow_loop dev path dj fs = do {
     let (res, dj, path) = create_name dj path;
     if res \<noteq> FR_OK then Some (res, dj, fs)
     else do {
       (res, dj, fs) \<leftarrow> dir_find dev dj fs;
       let final = dj_fn dj ! 11 AND 4;
       if res \<noteq> FR_OK then Some (if res = FR_NO_FILE \<and> final = 0 then FR_NO_PATH else res, dj, fs)
       else if final \<noteq> 0 then Some (FR_OK, dj, fs)
       else do {
         d \<leftarrow> dj_dir dj;
         if win fs ! (d + DIR_Attr) AND AM_DIR = 0 then Some (FR_NO_PATH, dj, fs)
         else follow_loop dev path
           (dj\<lparr>sclust := push_bit 16 (ucast (LD_WORD (win fs) (d + DIR_FstClusHI)))
              OR ucast (LD_WORD (win fs) (d + DIR_FstClusLO))\<rparr>) fs } } }"

definition follow_path :: "'d device \<Rightarrow> DIR \<Rightarrow> u8 list \<Rightarrow> 'd fatfs \<Rightarrow> (FRESULT \<times> DIR \<times> 'd fatfs) option" where
  "follow_path dev dj path fs = do {
     let path = (if path \<noteq> [] \<and> is_sep (hd path) then tl path else path);
     let dj = dj\<lparr>sclust := (if fs_type fs = FS_FAT32 then dirbase fs else 0)\<rparr>;
     if fst (next_chr path) < 0x20
     then do {
       (res, dj, fs) \<leftarrow> dir_seek dev dj 0 fs;
       Some (res, dj\<lparr>dj_dir := None\<rparr>, fs) }
     else follow_loop dev path dj fs }"

end
