(* ===== verification/FatFile.thy ===== *)
theory FatFile
  imports FatDir
begin

text \<open>
  \<^verbatim>\<open>armboot/storage/ff.c\<close>, third part: mounting, files and the string functions. The program has one file
  system object; \<open>ff\<close> is the module's state, the object and whether it is registered. Buffers of the
  caller are byte lists; an access past their end is \<^const>\<open>None\<close>.
\<close>

section \<open>Mounting\<close>

record 'd ff =
  FatFs :: bool
  Fsid :: u16
  obj :: "'d fatfs"

abbreviation (input) "BPB_BytsPerSec \<equiv> 11 :: nat"
abbreviation (input) "BPB_SecPerClus \<equiv> 13 :: nat"
abbreviation (input) "BPB_RsvdSecCnt \<equiv> 14 :: nat"
abbreviation (input) "BPB_NumFATs \<equiv> 16 :: nat"
abbreviation (input) "BPB_RootEntCnt \<equiv> 17 :: nat"
abbreviation (input) "BPB_TotSec16 \<equiv> 19 :: nat"
abbreviation (input) "BPB_FATSz16 \<equiv> 22 :: nat"
abbreviation (input) "BPB_TotSec32 \<equiv> 32 :: nat"
abbreviation (input) "BPB_FATSz32 \<equiv> 36 :: nat"
abbreviation (input) "BPB_ExtFlags \<equiv> 40 :: nat"
abbreviation (input) "BPB_RootClus \<equiv> 44 :: nat"
abbreviation (input) "BPB_FSInfo \<equiv> 48 :: nat"
abbreviation (input) "BS_FilSysType \<equiv> 54 :: nat"
abbreviation (input) "BS_FilSysType32 \<equiv> 82 :: nat"
abbreviation (input) "MBR_Table \<equiv> 446 :: nat"
abbreviation (input) "STA_PROTECT \<equiv> 0x04 :: u8"

definition check_fs :: "'d device \<Rightarrow> u32 \<Rightarrow> 'd fatfs \<Rightarrow> (u8 \<times> 'd fatfs) option" where
  "check_fs dev sect fs = do {
     (r, w, d) \<leftarrow> d_read dev (win fs) sect 1 (disk fs);
     let fs = fs\<lparr>win := w, disk := d\<rparr>;
     Some (if r \<noteq> RES_OK then 3
           else if LD_WORD w BS_55AA \<noteq> 0xAA55 then 2
           else if mem_cmp w BS_FilSysType [0x46, 0x41, 0x54] 0 3 = 0 then 0
           else if mem_cmp w BS_FilSysType32 [0x46, 0x41, 0x54, 0x33, 0x32] 0 5 = 0 \<and> w ! BPB_ExtFlags AND 0x80 = 0 then 0
           else 1, fs) }"

text \<open>The boot record: the volume itself or the first partition, \<open>bsect\<close> is where it was found.\<close>

definition find_volume :: "'d device \<Rightarrow> 'd fatfs \<Rightarrow> (u8 \<times> u32 \<times> 'd fatfs) option" where
  "find_volume dev fs = do {
     (fmt, fs) \<leftarrow> check_fs dev 0 fs;
     if fmt = 1 \<and> win fs ! (MBR_Table + 4) \<noteq> 0
     then do {
       let bsect = LD_DWORD (win fs) (MBR_Table + 8);
       (fmt, fs) \<leftarrow> check_fs dev bsect fs;
       Some (fmt, bsect, fs) }
     else Some (fmt, 0, fs) }"

text \<open>The geometry from the boot record in the window; a cluster size of zero divides by zero.\<close>

definition fat_size :: "u8 list \<Rightarrow> u32" where
  "fat_size w = (if LD_WORD w BPB_FATSz16 = 0 then LD_DWORD w BPB_FATSz32 else ucast (LD_WORD w BPB_FATSz16))"

definition total_sectors :: "u8 list \<Rightarrow> u32" where
  "total_sectors w = (if LD_WORD w BPB_TotSec16 = 0 then LD_DWORD w BPB_TotSec32 else ucast (LD_WORD w BPB_TotSec16))"

definition mount_clusters :: "u8 list \<Rightarrow> u32" where
  "mount_clusters w = (total_sectors w - ucast (LD_WORD w BPB_RsvdSecCnt) - fat_size w * ucast (w ! BPB_NumFATs)
     - ucast (LD_WORD w BPB_RootEntCnt div 16)) div ucast (w ! BPB_SecPerClus) + 2"

definition fat_type :: "u32 \<Rightarrow> u8" where
  "fat_type mclst = (if mclst \<ge> 0xFFF7 then FS_FAT32 else if mclst \<ge> 0xFF7 then FS_FAT16 else FS_FAT12)"

definition mount_geometry :: "u32 \<Rightarrow> 'd fatfs \<Rightarrow> 'd fatfs option" where
  "mount_geometry bsect fs =
    (let w = win fs;
         fsize = fat_size w * ucast (w ! BPB_NumFATs);
         fs = fs\<lparr>sects_fat := fat_size w, n_fats := w ! BPB_NumFATs,
                fatbase := bsect + ucast (LD_WORD w BPB_RsvdSecCnt),
                csize := w ! BPB_SecPerClus, n_rootdir := LD_WORD w BPB_RootEntCnt\<rparr>
     in if w ! BPB_SecPerClus = 0 then None
        else Some (fs\<lparr>max_clust := mount_clusters w,
          dirbase := (if fat_type (mount_clusters w) = FS_FAT32 then LD_DWORD w BPB_RootClus else fatbase fs + fsize),
          database := fatbase fs + fsize + ucast (n_rootdir fs div 16)\<rparr>))"

definition mount_fsinfo :: "'d device \<Rightarrow> u8 \<Rightarrow> u32 \<Rightarrow> 'd fatfs \<Rightarrow> 'd fatfs option" where
  "mount_fsinfo dev fmt bsect fs = do {
     let sec = bsect + ucast (LD_WORD (win fs) BPB_FSInfo);
     let fs = fs\<lparr>free_clust := 0xFFFFFFFF, wflag := 0\<rparr>;
     if fmt = FS_FAT32 then do {
       let fs = fs\<lparr>fsi_sector := sec, fsi_flag := 0\<rparr>;
       (r, w, d) \<leftarrow> d_read dev (win fs) sec 1 (disk fs);
       let fs = fs\<lparr>win := w, disk := d\<rparr>;
       Some (if r = RES_OK \<and> LD_WORD w BS_55AA = 0xAA55 \<and> LD_DWORD w FSI_LeadSig = 0x41615252
               \<and> LD_DWORD w FSI_StrucSig = 0x61417272
             then fs\<lparr>last_clust := LD_DWORD w FSI_Nxt_Free, free_clust := LD_DWORD w FSI_Free_Count\<rparr> else fs) }
     else Some fs }"

text \<open>The logical drive number at the head of a path.\<close>

definition drive_of :: "u8 list \<Rightarrow> u8 \<times> u8 list" where
  "drive_of p = (let (c, p') = next_chr p; vol = c - 0x30 in
     if vol \<le> 9 \<and> fst (next_chr p') = 0x3A then (vol, snd (next_chr p')) else (0, p))"

definition mount_volume :: "'d device \<Rightarrow> bool \<Rightarrow> 'd ff \<Rightarrow> (FRESULT \<times> 'd ff) option" where
  "mount_volume dev chk_wp m = do {
     let fs = (obj m)\<lparr>fs_type := 0\<rparr>;
     let (stat, d) = d_initialize dev (disk fs);
     let fs = fs\<lparr>disk := d\<rparr>;
     if stat AND STA_NOINIT \<noteq> 0 then Some (FR_NOT_READY, m\<lparr>obj := fs\<rparr>)
     else if chk_wp \<and> stat AND STA_PROTECT \<noteq> 0 then Some (FR_WRITE_PROTECTED, m\<lparr>obj := fs\<rparr>)
     else do {
       (fmt, bsect, fs) \<leftarrow> find_volume dev fs;
       if fmt = 3 then Some (FR_DISK_ERR, m\<lparr>obj := fs\<rparr>)
       else if fmt \<noteq> 0 \<or> LD_WORD (win fs) BPB_BytsPerSec \<noteq> 512 then Some (FR_NO_FILESYSTEM, m\<lparr>obj := fs\<rparr>)
       else do {
         fs \<leftarrow> mount_geometry bsect fs;
         let fmt = fat_type (max_clust fs);
         fs \<leftarrow> mount_fsinfo dev fmt bsect fs;
         let n = Fsid m + 1;
         Some (FR_OK, m\<lparr>Fsid := n, obj := fs\<lparr>winsect := 0, fs_type := fmt, fs_id := n\<rparr>\<rparr>) } } }"

definition auto_mount :: "'d device \<Rightarrow> u8 list \<Rightarrow> bool \<Rightarrow> 'd ff \<Rightarrow> (FRESULT \<times> u8 list \<times> 'd ff) option" where
  "auto_mount dev path chk_wp m = do {
     let (vol, path) = drive_of path;
     if vol \<ge> 1 then Some (FR_INVALID_DRIVE, path, m)
     else if \<not> FatFs m then Some (FR_NOT_ENABLED, path, m)
     else if fs_type (obj m) \<noteq> 0 \<and> d_status dev (disk (obj m)) AND STA_NOINIT = 0
     then Some (if chk_wp \<and> d_status dev (disk (obj m)) AND STA_PROTECT \<noteq> 0 then FR_WRITE_PROTECTED else FR_OK, path, m)
     else do {
       (res, m) \<leftarrow> mount_volume dev chk_wp m;
       Some (res, path, m) } }"

text \<open>Registering the object, or none.\<close>

definition f_mount :: "u8 \<Rightarrow> bool \<Rightarrow> 'd ff \<Rightarrow> FRESULT \<times> 'd ff" where
  "f_mount drv fs m =
    (if drv \<ge> 1 then (FR_INVALID_DRIVE, m)
     else
      (let m = (if FatFs m then m\<lparr>obj := (obj m)\<lparr>fs_type := 0\<rparr>\<rparr> else m);
           m = (if fs then m\<lparr>obj := (obj m)\<lparr>fs_type := 0\<rparr>\<rparr> else m)
       in (FR_OK, m\<lparr>FatFs := fs\<rparr>)))"

section \<open>File objects\<close>

record FIL =
  f_fs :: bool
  f_id :: u16
  flag :: u8
  csect :: u8
  fptr :: u32
  fsize :: u32
  org_clust :: u32
  curr_clust :: u32
  dsect :: u32
  dir_sect :: u32
  dir_ptr :: nat

abbreviation (input) "FA_READ \<equiv> 0x01 :: u8"
abbreviation (input) "FA_WRITE \<equiv> 0x02 :: u8"
abbreviation (input) "FA_CREATE_NEW \<equiv> 0x04 :: u8"
abbreviation (input) "FA_CREATE_ALWAYS \<equiv> 0x08 :: u8"
abbreviation (input) "FA_OPEN_ALWAYS \<equiv> 0x10 :: u8"
abbreviation (input) "FA__WRITTEN \<equiv> 0x20 :: u8"
abbreviation (input) "FA__ERROR \<equiv> 0x80 :: u8"

definition validate :: "'d device \<Rightarrow> FIL \<Rightarrow> 'd fatfs \<Rightarrow> FRESULT" where
  "validate dev fp fs =
    (if \<not> f_fs fp \<or> fs_type fs = 0 \<or> fs_id fs \<noteq> f_id fp then FR_INVALID_OBJECT
     else if d_status dev (disk fs) AND STA_NOINIT \<noteq> 0 then FR_NOT_READY else FR_OK)"

definition abort_file :: "FIL \<Rightarrow> FIL" where
  "abort_file fp = fp\<lparr>flag := flag fp OR FA__ERROR\<rparr>"

section \<open>Opening\<close>

definition start_cluster :: "u8 list \<Rightarrow> nat \<Rightarrow> u32" where
  "start_cluster w d = push_bit 16 (ucast (LD_WORD w (d + DIR_FstClusHI))) OR ucast (LD_WORD w (d + DIR_FstClusLO))"

text \<open>An existing file is cut to length zero; its clusters are freed.\<close>

definition truncate_entry :: "nat \<Rightarrow> u8 list \<Rightarrow> u8 list" where
  "truncate_entry d w = ST_DWORD (d + DIR_FileSize) 0 (ST_WORD (d + DIR_FstClusLO) 0 (ST_WORD (d + DIR_FstClusHI) 0 w))"

definition open_truncate :: "'d device \<Rightarrow> nat \<Rightarrow> 'd fatfs \<Rightarrow> (FRESULT \<times> 'd fatfs) option" where
  "open_truncate dev d fs = do {
     let cl = start_cluster (win fs) d;
     let fs = (win_upd (truncate_entry d) fs)\<lparr>wflag := 1\<rparr>;
     let ps = winsect fs;
     (res, fs) \<leftarrow> (if cl \<noteq> 0 then do {
          (res, fs) \<leftarrow> remove_chain dev cl fs;
          Some (if res \<noteq> FR_OK then (res, fs) else (FR_OK, fs\<lparr>last_clust := cl - 1\<rparr>)) }
        else Some (FR_OK, fs));
     if res \<noteq> FR_OK then Some (res, fs) else move_window dev ps fs }"

text \<open>The creating modes: the mode and the entry to go on with.\<close>

definition open_create ::
  "'d device \<Rightarrow> u8 \<Rightarrow> FRESULT \<Rightarrow> DIR \<Rightarrow> 'd fatfs \<Rightarrow> (FRESULT \<times> u8 \<times> DIR \<times> 'd fatfs) option" where
  "open_create dev mode res dj fs = do {
     (res, mode, dj, fs) \<leftarrow>
       (if res \<noteq> FR_OK then do {
          (res, dj, fs) \<leftarrow> (if res = FR_NO_FILE then dir_register dev dj fs else Some (res, dj, fs));
          Some (res, mode OR FA_CREATE_ALWAYS, dj, fs) }
        else if mode AND FA_CREATE_NEW \<noteq> 0 then Some (FR_EXIST, mode, dj, fs)
        else case dj_dir dj of
          None \<Rightarrow> Some (FR_DENIED, mode, dj, fs)
        | Some d \<Rightarrow>
            if win fs ! (d + DIR_Attr) AND (AM_RDO OR AM_DIR) \<noteq> 0 then Some (FR_DENIED, mode, dj, fs)
            else if mode AND FA_CREATE_ALWAYS \<noteq> 0 then do {
              (res, fs) \<leftarrow> open_truncate dev d fs;
              Some (res, mode, dj, fs) }
            else Some (FR_OK, mode, dj, fs));
     if res \<noteq> FR_OK then Some (res, mode, dj, fs)
     else if mode AND FA_CREATE_ALWAYS \<noteq> 0 then do {
       d \<leftarrow> dj_dir dj;
       Some (FR_OK, mode OR FA__WRITTEN, dj,
         (win_upd (\<lambda>w. ST_DWORD (d + DIR_CrtTime) 0 (w[d + DIR_Attr := 0])) fs)\<lparr>wflag := 1\<rparr>) }
     else Some (FR_OK, mode, dj, fs) }"

definition open_existing :: "u8 \<Rightarrow> FRESULT \<Rightarrow> DIR \<Rightarrow> 'd fatfs \<Rightarrow> FRESULT" where
  "open_existing mode res dj fs =
    (if res \<noteq> FR_OK then res
     else case dj_dir dj of None \<Rightarrow> FR_NO_FILE
     | Some d \<Rightarrow> if win fs ! (d + DIR_Attr) AND AM_DIR \<noteq> 0 then FR_NO_FILE
         else if mode AND FA_WRITE \<noteq> 0 \<and> win fs ! (d + DIR_Attr) AND AM_RDO \<noteq> 0 then FR_DENIED else FR_OK)"

text \<open>The file object of the entry found.\<close>

definition open_file :: "u8 \<Rightarrow> nat \<Rightarrow> 'd fatfs \<Rightarrow> FIL \<Rightarrow> FIL" where
  "open_file mode d fs fp = fp\<lparr>dir_sect := winsect fs, dir_ptr := d, flag := mode, org_clust := start_cluster (win fs) d,
     fsize := LD_DWORD (win fs) (d + DIR_FileSize), fptr := 0, csect := 255, dsect := 0, f_fs := True, f_id := fs_id fs\<rparr>"

text \<open>The directory object and the name buffer \<open>dj0\<close> are uninitialised stack memory.\<close>

definition f_open :: "'d device \<Rightarrow> DIR \<Rightarrow> FIL \<Rightarrow> u8 list \<Rightarrow> u8 \<Rightarrow> 'd ff \<Rightarrow> (FRESULT \<times> FIL \<times> 'd ff) option" where
  "f_open dev dj0 fp path mode m = do {
     let fp = fp\<lparr>f_fs := False\<rparr>;
     let mode = mode AND (FA_READ OR FA_WRITE OR FA_CREATE_ALWAYS OR FA_OPEN_ALWAYS OR FA_CREATE_NEW);
     let creating = mode AND (FA_CREATE_ALWAYS OR FA_OPEN_ALWAYS OR FA_CREATE_NEW) \<noteq> 0;
     (res, path, m) \<leftarrow> auto_mount dev path
        (mode AND (FA_WRITE OR FA_CREATE_ALWAYS OR FA_OPEN_ALWAYS OR FA_CREATE_NEW) \<noteq> 0) m;
     if res \<noteq> FR_OK then Some (res, fp, m)
     else do {
       (res, dj, fs) \<leftarrow> follow_path dev dj0 path (obj m);
       (res, mode, dj, fs) \<leftarrow> (if creating then open_create dev mode res dj fs
          else Some (open_existing mode res dj fs, mode, dj, fs));
       let m = m\<lparr>obj := fs\<rparr>;
       if res \<noteq> FR_OK then Some (res, fp, m)
       else do {
         d \<leftarrow> dj_dir dj;
         Some (FR_OK, open_file mode d fs fp, m) } } }"

section \<open>Reading\<close>

text \<open>On a cluster boundary the next cluster of the chain; a result other than \<open>FR_OK\<close> aborts.\<close>

definition read_cluster :: "'d device \<Rightarrow> FIL \<Rightarrow> 'd fatfs \<Rightarrow> (FRESULT \<times> FIL \<times> 'd fatfs) option" where
  "read_cluster dev fp fs =
    (if csect fp \<ge> csize fs then do {
       (clst, fs) \<leftarrow> (if fptr fp = 0 then Some (org_clust fp, fs) else get_cluster dev (curr_clust fp) fs);
       Some (if clst \<le> 1 then (FR_INT_ERR, fp, fs)
             else if clst = 0xFFFFFFFF then (FR_DISK_ERR, fp, fs)
             else (FR_OK, fp\<lparr>curr_clust := clst, csect := 0\<rparr>, fs)) }
     else Some (FR_OK, fp, fs))"

text \<open>How many whole sectors are transferred directly, clipped at the cluster boundary.\<close>

definition direct_sectors :: "FIL \<Rightarrow> u32 \<Rightarrow> 'd fatfs \<Rightarrow> u32" where
  "direct_sectors fp n fs = (let cc = n div 512 in
     if ucast (csect fp) + cc > ucast (csize fs) then ucast (csize fs) - ucast (csect fp) else cc)"

definition advance :: "u32 \<Rightarrow> FIL \<Rightarrow> FIL" where
  "advance n fp = fp\<lparr>fptr := fptr fp + n\<rparr>"

text \<open>A part of a buffer, and storing into it.\<close>

definition slice :: "nat \<Rightarrow> nat \<Rightarrow> u8 list \<Rightarrow> u8 list option" where
  "slice p n b = (if p + n \<le> length b then Some (take n (drop p b)) else None)"

definition splice :: "nat \<Rightarrow> u8 list \<Rightarrow> u8 list \<Rightarrow> u8 list" where
  "splice p x b = take p b @ x @ drop (p + length x) b"

text \<open>The bytes of the sector in the window, from the file pointer on.\<close>

definition partial_count :: "FIL \<Rightarrow> u32 \<Rightarrow> u32" where
  "partial_count fp n = (let c = 512 - fptr fp mod 512 in if c > n then n else c)"

definition read_partial ::
  "'d device \<Rightarrow> FIL \<Rightarrow> u8 list \<Rightarrow> u32 \<Rightarrow> u32 \<Rightarrow> 'd fatfs \<Rightarrow> (FRESULT \<times> u32 \<times> u8 list \<times> 'd fatfs) option" where
  "read_partial dev fp buff pos btr fs = do {
     let rcnt = partial_count fp btr;
     (r, fs) \<leftarrow> move_window dev (dsect fp) fs;
     if r \<noteq> FR_OK then Some (FR_DISK_ERR, 0, buff, fs)
     else do {
       x \<leftarrow> slice (unat (fptr fp mod 512)) (unat rcnt) (win fs);
       if unat pos + unat rcnt \<le> length buff then Some (FR_OK, rcnt, splice (unat pos) x buff, fs) else None } }"

text \<open>One round of the loop: the number of bytes transferred.\<close>

definition read_round ::
  "'d device \<Rightarrow> FIL \<Rightarrow> u8 list \<Rightarrow> u32 \<Rightarrow> u32 \<Rightarrow> 'd fatfs \<Rightarrow> (FRESULT \<times> u32 \<times> u8 list \<times> FIL \<times> 'd fatfs) option" where
  "read_round dev fp buff pos btr fs =
    (if fptr fp mod 512 = 0 then do {
       (r, fp, fs) \<leftarrow> read_cluster dev fp fs;
       if r \<noteq> FR_OK then Some (r, 0, buff, fp, fs)
       else if clust2sect (curr_clust fp) fs = 0 then Some (FR_INT_ERR, 0, buff, fp, fs)
       else do {
         let sect = clust2sect (curr_clust fp) fs + ucast (csect fp);
         if btr div 512 \<noteq> 0 then do {
           let cc = direct_sectors fp btr fs;
           b \<leftarrow> slice (unat pos) (512 * unat cc) buff;
           (r, b, d) \<leftarrow> d_read dev b sect (ucast cc) (disk fs);
           let fs = fs\<lparr>disk := d\<rparr>;
           let buff = splice (unat pos) b buff;
           Some (if r \<noteq> RES_OK then (FR_DISK_ERR, 0, buff, fp, fs)
                 else (FR_OK, 512 * cc, buff, fp\<lparr>csect := csect fp + ucast cc\<rparr>, fs)) }
         else do {
           let fp = fp\<lparr>dsect := sect, csect := csect fp + 1\<rparr>;
           (r, n, buff, fs) \<leftarrow> read_partial dev fp buff pos btr fs;
           Some (r, n, buff, fp, fs) } } }
     else do {
       (r, n, buff, fs) \<leftarrow> read_partial dev fp buff pos btr fs;
       Some (r, n, buff, fp, fs) })"

partial_function (option) fread_loop ::
  "'d device \<Rightarrow> FIL \<Rightarrow> u8 list \<Rightarrow> u32 \<Rightarrow> u32 \<Rightarrow> 'd fatfs \<Rightarrow> (FRESULT \<times> u32 \<times> u8 list \<times> FIL \<times> 'd fatfs) option" where
  "fread_loop dev fp buff pos btr fs =
    (if btr \<noteq> 0 then do {
       (r, n, buff, fp, fs) \<leftarrow> read_round dev fp buff pos btr fs;
       if r \<noteq> FR_OK then Some (r, pos, buff, abort_file fp, fs)
       else fread_loop dev (advance n fp) buff (pos + n) (btr - n) fs }
     else Some (FR_OK, pos, buff, fp, fs))"

text \<open>The result is the code, the number of bytes read, the caller's buffer, the file and the volume.\<close>

definition f_read ::
  "'d device \<Rightarrow> FIL \<Rightarrow> u8 list \<Rightarrow> u32 \<Rightarrow> 'd fatfs \<Rightarrow> (FRESULT \<times> u32 \<times> u8 list \<times> FIL \<times> 'd fatfs) option" where
  "f_read dev fp buff btr fs =
    (let res = validate dev fp fs in
     if res \<noteq> FR_OK then Some (res, 0, buff, fp, fs)
     else if flag fp AND FA__ERROR \<noteq> 0 then Some (FR_INT_ERR, 0, buff, fp, fs)
     else if flag fp AND FA_READ = 0 then Some (FR_DENIED, 0, buff, fp, fs)
     else (let remaining = fsize fp - fptr fp;
               btr = (if btr > remaining then remaining else btr)
           in fread_loop dev fp buff 0 btr fs))"

section \<open>Writing\<close>

text \<open>\<open>None\<close> in the first component: the disk is full and the loop ends.\<close>

definition write_cluster :: "'d device \<Rightarrow> FIL \<Rightarrow> 'd fatfs \<Rightarrow> (FRESULT option \<times> FIL \<times> 'd fatfs) option" where
  "write_cluster dev fp fs =
    (if csect fp \<ge> csize fs then do {
       (clst, fp, fs) \<leftarrow>
         (if fptr fp = 0 then
            (if org_clust fp = 0 then do {
               (c, fs) \<leftarrow> create_chain dev 0 fs;
               Some (c, fp\<lparr>org_clust := c\<rparr>, fs) }
             else Some (org_clust fp, fp, fs))
          else do {
            (c, fs) \<leftarrow> create_chain dev (curr_clust fp) fs;
            Some (c, fp, fs) });
       Some (if clst = 0 then (None, fp, fs)
             else if clst = 1 then (Some FR_INT_ERR, fp, fs)
             else if clst = 0xFFFFFFFF then (Some FR_DISK_ERR, fp, fs)
             else (Some FR_OK, fp\<lparr>curr_clust := clst, csect := 0\<rparr>, fs)) }
     else Some (Some FR_OK, fp, fs))"

definition write_partial ::
  "'d device \<Rightarrow> FIL \<Rightarrow> u8 list \<Rightarrow> u32 \<Rightarrow> u32 \<Rightarrow> 'd fatfs \<Rightarrow> (FRESULT \<times> u32 \<times> 'd fatfs) option" where
  "write_partial dev fp buff pos btw fs = do {
     let wcnt = partial_count fp btw;
     (r, fs) \<leftarrow> move_window dev (dsect fp) fs;
     if r \<noteq> FR_OK then Some (FR_DISK_ERR, 0, fs)
     else do {
       x \<leftarrow> slice (unat pos) (unat wcnt) buff;
       Some (FR_OK, wcnt, (win_upd (splice (unat (fptr fp mod 512)) x) fs)\<lparr>wflag := 1\<rparr>) } }"

text \<open>A direct write, and the window refilled where it shows a sector written.\<close>

definition write_direct ::
  "'d device \<Rightarrow> FIL \<Rightarrow> u8 list \<Rightarrow> u32 \<Rightarrow> u32 \<Rightarrow> u32 \<Rightarrow> 'd fatfs \<Rightarrow> (FRESULT \<times> u32 \<times> FIL \<times> 'd fatfs) option" where
  "write_direct dev fp buff pos btw sect fs = do {
     let cc = direct_sectors fp btw fs;
     b \<leftarrow> slice (unat pos) (512 * unat cc) buff;
     (r, d) \<leftarrow> d_write dev b sect (ucast cc) (disk fs);
     let fs = fs\<lparr>disk := d\<rparr>;
     if r \<noteq> RES_OK then Some (FR_DISK_ERR, 0, fp, fs)
     else do {
       fs \<leftarrow> (if winsect fs - sect < cc then do {
                w \<leftarrow> slice (unat pos + unat ((winsect fs - sect) * 512)) 512 buff;
                Some (fs\<lparr>win := w, wflag := 0\<rparr>) }
              else Some fs);
       Some (FR_OK, 512 * cc, fp\<lparr>csect := csect fp + ucast cc\<rparr>, fs) } }"

definition write_round ::
  "'d device \<Rightarrow> FIL \<Rightarrow> u8 list \<Rightarrow> u32 \<Rightarrow> u32 \<Rightarrow> 'd fatfs \<Rightarrow> (FRESULT option \<times> u32 \<times> FIL \<times> 'd fatfs) option" where
  "write_round dev fp buff pos btw fs =
    (if fptr fp mod 512 = 0 then do {
       (r, fp, fs) \<leftarrow> write_cluster dev fp fs;
       if r \<noteq> Some FR_OK then Some (r, 0, fp, fs)
       else do {
         (r, fs) \<leftarrow> (if winsect fs = dsect fp then move_window dev 0 fs else Some (FR_OK, fs));
         if r \<noteq> FR_OK then Some (Some FR_DISK_ERR, 0, fp, fs)
         else if clust2sect (curr_clust fp) fs = 0 then Some (Some FR_INT_ERR, 0, fp, fs)
         else do {
           let sect = clust2sect (curr_clust fp) fs + ucast (csect fp);
           if btw div 512 \<noteq> 0 then do {
             (r, n, fp, fs) \<leftarrow> write_direct dev fp buff pos btw sect fs;
             Some (Some r, n, fp, fs) }
           else do {
             (r, fs) \<leftarrow> (if fptr fp \<ge> fsize fp then do {
                  (r, fs) \<leftarrow> move_window dev 0 fs;
                  Some (if r \<noteq> FR_OK then (FR_DISK_ERR, fs) else (FR_OK, fs\<lparr>winsect := sect\<rparr>)) }
                else Some (FR_OK, fs));
             if r \<noteq> FR_OK then Some (Some r, 0, fp, fs)
             else do {
               let fp = fp\<lparr>dsect := sect, csect := csect fp + 1\<rparr>;
               (r, n, fs) \<leftarrow> write_partial dev fp buff pos btw fs;
               Some (Some r, n, fp, fs) } } } } }
     else do {
       (r, n, fs) \<leftarrow> write_partial dev fp buff pos btw fs;
       Some (Some r, n, fp, fs) })"

text \<open>The loop tells whether it was left by an abort.\<close>

partial_function (option) fwrite_loop ::
  "'d device \<Rightarrow> FIL \<Rightarrow> u8 list \<Rightarrow> u32 \<Rightarrow> u32 \<Rightarrow> 'd fatfs \<Rightarrow> (FRESULT \<times> u32 \<times> FIL \<times> 'd fatfs) option" where
  "fwrite_loop dev fp buff pos btw fs =
    (if btw \<noteq> 0 then do {
       (r, n, fp, fs) \<leftarrow> write_round dev fp buff pos btw fs;
       (case r of None \<Rightarrow> Some (FR_OK, pos, fp, fs)
        | Some r \<Rightarrow> if r \<noteq> FR_OK then Some (r, pos, abort_file fp, fs)
            else fwrite_loop dev (advance n fp) buff (pos + n) (btw - n) fs) }
     else Some (FR_OK, pos, fp, fs))"

definition f_write ::
  "'d device \<Rightarrow> FIL \<Rightarrow> u8 list \<Rightarrow> u32 \<Rightarrow> 'd fatfs \<Rightarrow> (FRESULT \<times> u32 \<times> FIL \<times> 'd fatfs) option" where
  "f_write dev fp buff btw fs =
    (let res = validate dev fp fs in
     if res \<noteq> FR_OK then Some (res, 0, fp, fs)
     else if flag fp AND FA__ERROR \<noteq> 0 then Some (FR_INT_ERR, 0, fp, fs)
     else if flag fp AND FA_WRITE = 0 then Some (FR_DENIED, 0, fp, fs)
     else do {
       let btw = (if fsize fp + btw < fsize fp then 0 else btw);
       (res, bw, fp, fs) \<leftarrow> fwrite_loop dev fp buff 0 btw fs;
       if res \<noteq> FR_OK then Some (res, bw, fp, fs)
       else Some (FR_OK, bw, fp\<lparr>fsize := (if fptr fp > fsize fp then fptr fp else fsize fp),
               flag := flag fp OR FA__WRITTEN\<rparr>, fs) })"

section \<open>Synchronizing and closing\<close>

definition sync_entry :: "FIL \<Rightarrow> u8 list \<Rightarrow> u8 list" where
  "sync_entry fp w = (let d = dir_ptr fp in
     ST_DWORD (d + DIR_WrtTime) 0 (ST_WORD (d + DIR_FstClusHI) (ucast (drop_bit 16 (org_clust fp)))
       (ST_WORD (d + DIR_FstClusLO) (ucast (org_clust fp)) (ST_DWORD (d + DIR_FileSize) (fsize fp)
         (w[d + DIR_Attr := w ! (d + DIR_Attr) OR AM_ARC])))))"

definition f_sync :: "'d device \<Rightarrow> FIL \<Rightarrow> 'd fatfs \<Rightarrow> (FRESULT \<times> FIL \<times> 'd fatfs) option" where
  "f_sync dev fp fs =
    (let res = validate dev fp fs in
     if res = FR_OK \<and> flag fp AND FA__WRITTEN \<noteq> 0 then do {
       (res, fs) \<leftarrow> move_window dev (dir_sect fp) fs;
       if res = FR_OK then do {
         let fs = (win_upd (sync_entry fp) fs)\<lparr>wflag := 1\<rparr>;
         (res, fs) \<leftarrow> sync dev fs;
         Some (res, fp\<lparr>flag := flag fp AND NOT FA__WRITTEN\<rparr>, fs) }
       else Some (res, fp, fs) }
     else Some (res, fp, fs))"

definition f_close :: "'d device \<Rightarrow> FIL \<Rightarrow> 'd fatfs \<Rightarrow> (FRESULT \<times> FIL \<times> 'd fatfs) option" where
  "f_close dev fp fs = do {
     (res, fp, fs) \<leftarrow> f_sync dev fp fs;
     Some (res, if res = FR_OK then fp\<lparr>f_fs := False\<rparr> else fp, fs) }"

section \<open>Seeking\<close>

text \<open>
  The loop over the clusters: the result, the offset left in the last cluster and that cluster. The cluster
  is 0 after a stretch on a full disk.
\<close>

partial_function (option) seek_clusters ::
  "'d device \<Rightarrow> u32 \<Rightarrow> u32 \<Rightarrow> u32 \<Rightarrow> FIL \<Rightarrow> 'd fatfs \<Rightarrow> (FRESULT \<times> u32 \<times> u32 \<times> FIL \<times> 'd fatfs) option" where
  "seek_clusters dev bcs ofs clst fp fs =
    (if ofs > bcs then do {
       (clst, fs) \<leftarrow> (if flag fp AND FA_WRITE \<noteq> 0 then create_chain dev clst fs else get_cluster dev clst fs);
       if flag fp AND FA_WRITE \<noteq> 0 \<and> clst = 0 then Some (FR_OK, bcs, clst, fp, fs)
       else if clst = 0xFFFFFFFF then Some (FR_DISK_ERR, ofs, clst, fp, fs)
       else if clst \<le> 1 \<or> clst \<ge> max_clust fs then Some (FR_INT_ERR, ofs, clst, fp, fs)
       else seek_clusters dev bcs (ofs - bcs) clst (fp\<lparr>curr_clust := clst, fptr := fptr fp + bcs\<rparr>) fs }
     else Some (FR_OK, ofs, clst, fp, fs))"

text \<open>Where following starts: the offset left, the cluster and the file.\<close>

definition seek_start ::
  "'d device \<Rightarrow> u32 \<Rightarrow> u32 \<Rightarrow> u32 \<Rightarrow> FIL \<Rightarrow> 'd fatfs \<Rightarrow> (FRESULT \<times> u32 \<times> u32 \<times> FIL \<times> 'd fatfs) option" where
  "seek_start dev bcs ofs ifptr fp fs =
    (if ifptr > 0 \<and> bcs = 0 then None
     else if ifptr > 0 \<and> (ofs - 1) div bcs \<ge> (ifptr - 1) div bcs
     then (let p = (ifptr - 1) AND NOT (bcs - 1)
           in Some (FR_OK, ofs - p, curr_clust fp, fp\<lparr>fptr := p\<rparr>, fs))
     else if org_clust fp = 0 then do {
       (clst, fs) \<leftarrow> create_chain dev 0 fs;
       Some (if clst = 1 then (FR_INT_ERR, ofs, clst, fp, fs)
             else if clst = 0xFFFFFFFF then (FR_DISK_ERR, ofs, clst, fp, fs)
             else (FR_OK, ofs, clst, fp\<lparr>org_clust := clst, curr_clust := clst\<rparr>, fs)) }
     else Some (FR_OK, ofs, org_clust fp, fp\<lparr>curr_clust := org_clust fp\<rparr>, fs))"

text \<open>The position within the last cluster: the result, the sector or 0, and the file.\<close>

definition seek_finish :: "u32 \<Rightarrow> u32 \<Rightarrow> FIL \<Rightarrow> 'd fatfs \<Rightarrow> FRESULT \<times> u32 \<times> FIL" where
  "seek_finish ofs clst fp fs =
    (let fp = fp\<lparr>fptr := fptr fp + ofs, csect := ucast (ofs div 512)\<rparr> in
     if ofs mod 512 \<noteq> 0 then
       (if clust2sect clst fs = 0 then (FR_INT_ERR, 0, fp)
        else (FR_OK, clust2sect clst fs + ucast (csect fp), fp\<lparr>csect := csect fp + 1\<rparr>))
     else (FR_OK, 0, fp))"

definition seek_chain :: "'d device \<Rightarrow> u32 \<Rightarrow> u32 \<Rightarrow> FIL \<Rightarrow> 'd fatfs \<Rightarrow> (FRESULT \<times> u32 \<times> FIL \<times> 'd fatfs) option" where
  "seek_chain dev ofs ifptr fp fs = do {
     let bcs = ucast (csize fs) * 512;
     (r, ofs, clst, fp, fs) \<leftarrow> seek_start dev bcs ofs ifptr fp fs;
     if r \<noteq> FR_OK then Some (r, 0, fp, fs)
     else if clst = 0 then Some (FR_OK, 0, fp, fs)
     else do {
       (r, ofs, clst, fp, fs) \<leftarrow> seek_clusters dev bcs ofs clst fp fs;
       if r \<noteq> FR_OK then Some (r, 0, fp, fs)
       else (let (r, nsect, fp) = seek_finish ofs clst fp fs in Some (r, nsect, fp, fs)) } }"

definition f_lseek :: "'d device \<Rightarrow> FIL \<Rightarrow> u32 \<Rightarrow> 'd fatfs \<Rightarrow> (FRESULT \<times> FIL \<times> 'd fatfs) option" where
  "f_lseek dev fp ofs fs =
    (let res = validate dev fp fs in
     if res \<noteq> FR_OK then Some (res, fp, fs)
     else if flag fp AND FA__ERROR \<noteq> 0 then Some (FR_INT_ERR, fp, fs)
     else do {
       let ofs = (if ofs > fsize fp \<and> flag fp AND FA_WRITE = 0 then fsize fp else ofs);
       let ifptr = fptr fp;
       let fp = fp\<lparr>fptr := 0, csect := 255\<rparr>;
       (r, nsect, fp, fs) \<leftarrow> (if ofs > 0 then seek_chain dev ofs ifptr fp fs else Some (FR_OK, 0, fp, fs));
       if r \<noteq> FR_OK then Some (r, abort_file fp, fs)
       else do {
         let fp = (if nsect \<noteq> 0 \<and> nsect \<noteq> dsect fp \<and> fptr fp mod 512 \<noteq> 0 then fp\<lparr>dsect := nsect\<rparr> else fp);
         Some (FR_OK, if fptr fp > fsize fp then fp\<lparr>fsize := fptr fp, flag := flag fp OR FA__WRITTEN\<rparr> else fp, fs) } })"

end
