(* ===== verification/FatString.thy ===== *)
theory FatString
  imports FatFile
begin

text \<open>
  \<^verbatim>\<open>armboot/storage/ff.c\<close>, last part: reading lines and writing characters, strings and formatted text
  (\<^verbatim>\<open>_USE_STRFUNC 1\<close>, no line end conversion). Strings are byte lists whose end is the terminator; \<^verbatim>\<open>EOF\<close>
  is -1.
\<close>

section \<open>Lines\<close>

text \<open>The loop of \<^verbatim>\<open>f_gets\<close> with \<open>n\<close> rounds left: the bytes stored, the file and the volume.\<close>

fun gets_loop :: "'d device \<Rightarrow> nat \<Rightarrow> u8 list \<Rightarrow> FIL \<Rightarrow> 'd fatfs \<Rightarrow> (u8 list \<times> FIL \<times> 'd fatfs) option" where
  "gets_loop dev 0 got fp fs = Some (got, fp, fs)"
| "gets_loop dev (Suc n) got fp fs = do {
     (_, rc, b, fp, fs) \<leftarrow> f_read dev fp [0] 1 fs;
     if rc \<noteq> 1 then Some (got, fp, fs)
     else if hd b = 0x0A then Some (got @ b, fp, fs)
     else gets_loop dev n (got @ b) fp fs }"

text \<open>The buffer \<open>b\<close> after the call and whether a string is returned; a buffer without room is not written.\<close>

definition f_gets :: "'d device \<Rightarrow> u8 list \<Rightarrow> int \<Rightarrow> FIL \<Rightarrow> 'd fatfs \<Rightarrow> (bool \<times> u8 list \<times> FIL \<times> 'd fatfs) option" where
  "f_gets dev b len fp fs = do {
     (got, fp, fs) \<leftarrow> gets_loop dev (nat (len - 1)) [] fp fs;
     if length got < length b then Some (got \<noteq> [], splice 0 (got @ [0]) b, fp, fs) else None }"

section \<open>Characters and strings\<close>

definition f_putc :: "'d device \<Rightarrow> int \<Rightarrow> FIL option \<Rightarrow> 'd fatfs \<Rightarrow> (int \<times> FIL option \<times> 'd fatfs) option" where
  "f_putc dev chr fil fs = (case fil of
     None \<Rightarrow> Some (chr, None, fs)
   | Some fp \<Rightarrow> do {
       (_, bw, fp, fs) \<leftarrow> f_write dev fp [word_of_int chr] 1 fs;
       Some (if bw \<noteq> 0 then chr else -1, Some fp, fs) })"

fun puts_loop :: "'d device \<Rightarrow> int \<Rightarrow> u8 list \<Rightarrow> FIL option \<Rightarrow> 'd fatfs \<Rightarrow> (int \<times> FIL option \<times> 'd fatfs) option" where
  "puts_loop dev n [] fil fs = Some (n, fil, fs)"
| "puts_loop dev n (c # str) fil fs = do {
     (r, fil, fs) \<leftarrow> f_putc dev (uint c) fil fs;
     if r = -1 then Some (-1, fil, fs) else puts_loop dev (n + 1) str fil fs }"

definition f_puts :: "'d device \<Rightarrow> u8 list \<Rightarrow> FIL option \<Rightarrow> 'd fatfs \<Rightarrow> (int \<times> FIL option \<times> 'd fatfs) option" where
  "f_puts dev str fil fs = puts_loop dev 0 str fil fs"

section \<open>Formatted text\<close>

datatype farg = FInt u32 | FStr "u8 list"

text \<open>The digits of a value, at most \<open>n\<close> of them, last one first in the recursion.\<close>

fun num_digits :: "nat \<Rightarrow> u32 \<Rightarrow> u32 \<Rightarrow> u8 list \<Rightarrow> u8 list" where
  "num_digits 0 r v s = s"
| "num_digits (Suc n) r v s =
    (let c = ucast (v mod r + 0x30); c = (if c > 0x39 then c + 7 else c); v = v div r
     in if v \<noteq> 0 then num_digits n r v (c # s) else c # s)"

text \<open>Padding in front while the 15 characters of the buffer and the width allow it.\<close>

fun num_pad :: "nat \<Rightarrow> int \<Rightarrow> u8 \<Rightarrow> u8 list \<Rightarrow> u8 list" where
  "num_pad 0 w c s = s"
| "num_pad (Suc i) w c s = (if int (Suc i) > w then num_pad i w c (c # s) else s)"

definition num_string :: "u8 \<Rightarrow> u32 \<Rightarrow> u32 \<Rightarrow> u8 \<Rightarrow> u32 \<Rightarrow> u8 list" where
  "num_string f w r c val =
    (let (val, neg) = (if c = 0x64 \<and> val AND 0x80000000 \<noteq> 0 then (0 - val, True) else (val, False));
         s = num_digits 15 r val [];
         s = (if length s < 15 \<and> neg then 0x2D # s else s)
     in num_pad (15 - length s) (sint (15 - w)) (if f AND 1 \<noteq> 0 then 0x30 else 0x20) s)"

text \<open>The width after a percent sign: its value, the character that ends it and the rest.\<close>

fun width_loop :: "u8 \<Rightarrow> u8 list \<Rightarrow> u32 \<Rightarrow> u32 \<times> u8 \<times> u8 list" where
  "width_loop c s w =
    (if 0x30 \<le> c \<and> c \<le> 0x39 then
       (case s of [] \<Rightarrow> (w * 10 + ucast (c - 0x30), 0, [])
        | c' # s' \<Rightarrow> width_loop c' s' (w * 10 + ucast (c - 0x30)))
     else (w, c, s))"

definition parse_spec :: "u8 list \<Rightarrow> u8 \<times> u32 \<times> u8 \<times> u8 list" where
  "parse_spec s =
    (let (c, s) = next_chr s;
         (f, c, s) = (if c = 0x30 then (1, next_chr s) else (0, c, s));
         (w, c, s) = width_loop c s 0;
         (f, c, s) = (if c = 0x6C then (f OR 2, next_chr s) else (f, c, s))
     in (f, w, c, s))"

declare width_loop.simps [simp del]

lemma width_loop_shorter: "width_loop c s w = (w', c', s') \<Longrightarrow> length s' \<le> length s"
proof (induction s arbitrary: c w)
  case Nil
  then show ?case by (subst (asm) width_loop.simps) (auto split: if_splits)
next
  case (Cons x xs)
  from Cons.prems Cons.IH [of x "w * 10 + ucast (c - 0x30)"] show ?case
    by (subst (asm) width_loop.simps) (auto split: if_splits)
qed

lemma next_chr_len: "length (snd (next_chr s)) \<le> length s"
  by (simp add: next_chr_def split: list.split)

lemma parse_spec_shorter: "parse_spec s = (f, w, c, s') \<Longrightarrow> length s' \<le> length s"
proof -
  assume p: "parse_spec s = (f, w, c, s')"
  define p1 where "p1 = (if fst (next_chr s) = 0x30 then next_chr (snd (next_chr s)) else next_chr s)"
  have 1: "length (snd p1) \<le> length s"
    using next_chr_len [of s] next_chr_len [of "snd (next_chr s)"] by (auto simp: p1_def)
  obtain w1 c1 s1 where 2: "width_loop (fst p1) (snd p1) 0 = (w1, c1, s1)" by (cases "width_loop (fst p1) (snd p1) 0")
  have "s' = (if c1 = 0x6C then snd (next_chr s1) else s1)"
    using p 2 by (auto simp: parse_spec_def p1_def Let_def split_beta split: if_splits)
  then show ?thesis using 1 width_loop_shorter [OF 2] next_chr_len [of s1] by (auto split: if_splits)
qed

text \<open>
  The loop of \<^verbatim>\<open>f_printf\<close>: the value of the last output and the count so far. An argument of the wrong kind or
  a missing one is \<^const>\<open>None\<close>.
\<close>

function fprintf_loop ::
  "'d device \<Rightarrow> int \<Rightarrow> int \<Rightarrow> u8 list \<Rightarrow> farg list \<Rightarrow> FIL option \<Rightarrow> 'd fatfs \<Rightarrow> (int \<times> FIL option \<times> 'd fatfs) option" where
  "fprintf_loop dev cc res str args fil fs =
    (if cc = -1 then Some (-1, fil, fs)
     else case str of
       [] \<Rightarrow> Some (res, fil, fs)
     | c # str \<Rightarrow>
         if c \<noteq> 0x25 then do {
           (cc, fil, fs) \<leftarrow> f_putc dev (uint c) fil fs;
           let cc = (if cc \<noteq> -1 then 1 else cc);
           fprintf_loop dev cc (res + cc) str args fil fs }
         else
          (case parse_spec str of (f, w, c, str) \<Rightarrow>
           if c = 0x73 then
             (case args of FStr x # args \<Rightarrow> do {
                (cc, fil, fs) \<leftarrow> f_puts dev x fil fs;
                fprintf_loop dev cc (res + cc) str args fil fs } | _ \<Rightarrow> None)
           else if c = 0x63 then
             (case args of FInt v # args \<Rightarrow> do {
                (cc, fil, fs) \<leftarrow> f_putc dev (sint v) fil fs;
                let cc = (if cc \<noteq> -1 then 1 else cc);
                fprintf_loop dev cc (res + cc) str args fil fs } | _ \<Rightarrow> None)
           else if c = 0x64 \<or> c = 0x75 \<or> c = 0x58 then
             (case args of FInt v # args \<Rightarrow> do {
                (cc, fil, fs) \<leftarrow> f_puts dev (num_string f w (if c = 0x58 then 16 else 10) c v) fil fs;
                fprintf_loop dev cc (res + cc) str args fil fs } | _ \<Rightarrow> None)
           else Some (res, fil, fs)))"
  by pat_completeness auto

termination fprintf_loop
  by (relation "measure (\<lambda>(_, _, _, str, _). length str)")
    (auto dest!: parse_spec_shorter [OF sym] simp: less_Suc_eq_le)

definition f_printf :: "'d device \<Rightarrow> FIL option \<Rightarrow> u8 list \<Rightarrow> farg list \<Rightarrow> 'd fatfs \<Rightarrow> (int \<times> FIL option \<times> 'd fatfs) option" where
  "f_printf dev fil str args fs = fprintf_loop dev 0 0 str args fil fs"

text \<open>Zeros pad in front of the sign: -5 in five columns is \<open>000-5\<close>.\<close>

lemma num_string_sign_padding: "num_string 1 5 10 0x64 0xFFFFFFFB = [0x30, 0x30, 0x30, 0x2D, 0x35]"
  by code_simp

end
