(* ===== verification/FatWrite.thy ===== *)
theory FatWrite
  imports FatFile
begin

text \<open>
  What \<^verbatim>\<open>f_write\<close> does to the volume when whole sectors are appended to a file, the only way the
  dumper writes: the clusters of the file, the sectors they consist of, and the data they hold. The
  result is a theorem about the bytes of the file, through every layer down to the sectors of the card.
\<close>

section \<open>The data area\<close>

text \<open>The data area follows the tables and holds all clusters; a cluster has at most 128 sectors.\<close>

definition data_ok :: "'d fatfs \<Rightarrow> bool" where
  "data_ok fs \<longleftrightarrow> 0 < csize fs \<and> csize fs \<le> 128
     \<and> unat (fatbase fs) + unat (n_fats fs) * unat (sects_fat fs) \<le> unat (database fs)
     \<and> unat (database fs) + unat (max_clust fs) * unat (csize fs) < 2 ^ 32"

definition cluster_sectors :: "'d fatfs \<Rightarrow> u32 \<Rightarrow> u32 list" where
  "cluster_sectors fs c = map (\<lambda>i. clust2sect c fs + of_nat i) [0..<unat (csize fs)]"

definition chain_sectors :: "'d fatfs \<Rightarrow> u32 list \<Rightarrow> u32 list" where
  "chain_sectors fs cs = concat (map (cluster_sectors fs) cs)"

text \<open>The first \<open>k\<close> sectors of a file as one byte string.\<close>

definition file_data :: "(u32 \<Rightarrow> u8 list) \<Rightarrow> 'd fatfs \<Rightarrow> u32 list \<Rightarrow> nat \<Rightarrow> u8 list" where
  "file_data v fs cs k = concat (map v (take k (chain_sectors fs cs)))"

lemma clust2sect_unat:
  assumes "data_ok fs" "cluster_no fs c"
  shows "clust2sect c fs = of_nat (unat (database fs) + (unat c - 2) * unat (csize fs))"
    "unat (database fs) + (unat c - 2) * unat (csize fs) + unat (csize fs) \<le> unat (database fs) + unat (max_clust fs) * unat (csize fs)"
proof -
  have c: "2 \<le> unat c" "unat c < unat (max_clust fs)"
    using assms(2) by (simp_all add: cluster_no_def word_le_nat_alt word_less_nat_alt)
  have sub: "unat (c - 2) = unat c - 2" "unat (max_clust fs - 2) = unat (max_clust fs) - 2"
    using c by (simp_all add: unat_sub word_le_nat_alt)
  have "\<not> c - 2 \<ge> max_clust fs - 2" using c by (simp add: not_le word_less_nat_alt sub)
  then have "clust2sect c fs = (c - 2) * ucast (csize fs) + database fs" by (simp add: clust2sect_def Let_def)
  also have "c - 2 = of_nat (unat c - 2)" unfolding sub(1) [symmetric] by simp
  also have "ucast (csize fs) = (of_nat (unat (csize fs)) :: u32)" by simp
  finally show "clust2sect c fs = of_nat (unat (database fs) + (unat c - 2) * unat (csize fs))" by (simp add: add.commute)
  have "unat c - 2 + 1 \<le> unat (max_clust fs)" using c by simp
  then have "(unat c - 2 + 1) * unat (csize fs) \<le> unat (max_clust fs) * unat (csize fs)" by (rule mult_le_mono1)
  then show "unat (database fs) + (unat c - 2) * unat (csize fs) + unat (csize fs) \<le> unat (database fs) + unat (max_clust fs) * unat (csize fs)"
    by (simp add: algebra_simps)
qed

lemma sector_unat:
  assumes "data_ok fs" "cluster_no fs c" "i < unat (csize fs)"
  shows "unat (clust2sect c fs + of_nat i) = unat (database fs) + (unat c - 2) * unat (csize fs) + i"
proof -
  have "clust2sect c fs + of_nat i = of_nat (unat (database fs) + (unat c - 2) * unat (csize fs) + i)"
    by (simp add: clust2sect_unat(1) [OF assms(1,2)])
  moreover have "unat (database fs) + (unat c - 2) * unat (csize fs) + i < 2 ^ 32"
    using clust2sect_unat(2) [OF assms(1,2)] assms(1,3) unfolding data_ok_def by linarith
  ultimately show ?thesis by (simp only: unat_of_nat) simp
qed

lemma sector_outside_tables:
  assumes "data_ok fs" "cluster_no fs c" "x \<in> set (cluster_sectors fs c)"
  shows "x \<notin> fat_area fs" "database fs \<le> x"
proof -
  obtain i where i: "i < unat (csize fs)" "x = clust2sect c fs + of_nat i"
    using assms(3) by (auto simp: cluster_sectors_def)
  have ge: "unat (database fs) \<le> unat x" unfolding i(2) sector_unat [OF assms(1,2) i(1)] by simp
  then show "x \<notin> fat_area fs" using assms(1) by (simp add: data_ok_def fat_area_def)
  show "database fs \<le> x" using ge by (simp add: word_le_nat_alt)
qed

lemma sectors_disjoint:
  assumes "data_ok fs" "cluster_no fs c" "cluster_no fs d" "x \<in> set (cluster_sectors fs c)" "x \<in> set (cluster_sectors fs d)"
  shows "c = d"
proof -
  let ?n = "unat (csize fs)"
  obtain i j where ij: "i < ?n" "x = clust2sect c fs + of_nat i" "j < ?n" "x = clust2sect d fs + of_nat j"
    using assms(4,5) by (auto simp: cluster_sectors_def)
  have "(unat c - 2) * ?n + i = (unat d - 2) * ?n + j"
    using sector_unat [OF assms(1,2) ij(1)] sector_unat [OF assms(1,3) ij(3)] ij(2,4) by simp
  then have "((unat c - 2) * ?n + i) div ?n = ((unat d - 2) * ?n + j) div ?n" by simp
  then have "unat c - 2 = unat d - 2" using ij(1,3) by simp
  moreover have "2 \<le> unat c" "2 \<le> unat d" using assms(2,3) by (simp_all add: cluster_no_def word_le_nat_alt)
  ultimately show ?thesis by (simp add: word_unat_eq_iff)
qed

lemma length_cluster_sectors [simp]: "length (cluster_sectors fs c) = unat (csize fs)"
  by (simp add: cluster_sectors_def)

lemma length_chain_sectors [simp]: "length (chain_sectors fs cs) = length cs * unat (csize fs)"
  by (induction cs) (simp_all add: chain_sectors_def)

lemma distinct_chain_sectors:
  assumes "data_ok fs" "distinct cs" "\<forall>c \<in> set cs. cluster_no fs c"
  shows "distinct (chain_sectors fs cs)"
proof -
  have one: "distinct (cluster_sectors fs c)" if "cluster_no fs c" for c
    unfolding cluster_sectors_def distinct_map
    using sector_unat [OF assms(1) that] by (auto intro!: inj_onI) (metis add_left_imp_eq)
  show ?thesis using assms(2,3)
  proof (induction cs)
    case (Cons c cs)
    have "set (cluster_sectors fs c) \<inter> set (chain_sectors fs cs) = {}"
      using sectors_disjoint [OF assms(1)] Cons.prems by (fastforce simp: chain_sectors_def)
    then show ?case using Cons one by (simp add: chain_sectors_def)
  qed (simp add: chain_sectors_def)
qed

text \<open>Same geometry, same sectors.\<close>

lemma chain_sectors_cong:
  assumes "csize gs = csize fs" "database gs = database fs" "max_clust gs = max_clust fs"
  shows "chain_sectors gs cs = chain_sectors fs cs" "cluster_sectors gs = cluster_sectors fs"
    "clust2sect c gs = clust2sect c fs"
proof -
  show c: "clust2sect c gs = clust2sect c fs" for c using assms by (simp add: clust2sect_def Let_def)
  then show "cluster_sectors gs = cluster_sectors fs" by (simp add: cluster_sectors_def fun_eq_iff assms)
  then show "chain_sectors gs cs = chain_sectors fs cs" by (simp add: chain_sectors_def)
qed

lemma file_data_more:
  assumes "k \<le> length (chain_sectors fs cs)"
  shows "file_data v fs (cs @ ds) k = file_data v fs cs k"
  using assms by (simp add: file_data_def chain_sectors_def)

text \<open>The sectors after the first \<open>k\<close> of the last cluster.\<close>

lemma gather_map: "gather v sec n = concat (map (\<lambda>i. v (sec + of_nat i)) [0..<n])"
  by (induction n) (simp_all only: gather_snoc, simp_all)

lemma take_last_cluster:
  assumes "j + n \<le> unat (csize fs)"
  shows "take (length cs * unat (csize fs) + j + n) (chain_sectors fs (cs @ [c])) =
    take (length cs * unat (csize fs) + j) (chain_sectors fs (cs @ [c]))
      @ map (\<lambda>i. clust2sect c fs + of_nat j + of_nat i) [0..<n]"
proof -
  have "take (j + n) (cluster_sectors fs c) = take j (cluster_sectors fs c) @ map (\<lambda>i. clust2sect c fs + of_nat j + of_nat i) [0..<n]"
    using assms by (intro nth_equalityI) (auto simp: cluster_sectors_def nth_append add.assoc simp flip: of_nat_add)
  then show ?thesis
    by (simp add: chain_sectors_def add.assoc comp_def flip: length_chain_sectors [of fs cs, unfolded chain_sectors_def])
qed

lemma file_data_last:
  assumes "j + n \<le> unat (csize fs)"
  shows "file_data v fs (cs @ [c]) (length cs * unat (csize fs) + j + n) =
    file_data v fs (cs @ [c]) (length cs * unat (csize fs) + j) @ gather v (clust2sect c fs + of_nat j) n"
  unfolding file_data_def take_last_cluster [OF assms] by (simp add: gather_map comp_def)

section \<open>The write position\<close>

text \<open>
  \<open>at_cluster nx fs fp cs\<close>: the file consists of the clusters \<open>cs\<close> (by the allocation table \<open>nx\<close>) and its
  position is \<open>csect\<close> sectors into the last of them; \<open>append_at\<close> adds the empty file, which has no cluster.
\<close>

definition at_cluster :: "(u32 \<Rightarrow> u32) \<Rightarrow> 'd fatfs \<Rightarrow> FIL \<Rightarrow> u32 list \<Rightarrow> bool" where
  "at_cluster nx fs fp cs \<longleftrightarrow> cs \<noteq> [] \<and> chain nx (max_clust fs) (org_clust fp) cs
     \<and> curr_clust fp = last cs \<and> csect fp \<le> csize fs
     \<and> unat (fptr fp) = 512 * ((length cs - 1) * unat (csize fs) + unat (csect fp))"

definition append_at :: "(u32 \<Rightarrow> u32) \<Rightarrow> 'd fatfs \<Rightarrow> FIL \<Rightarrow> u32 list \<Rightarrow> bool" where
  "append_at nx fs fp cs \<longleftrightarrow> (if cs = [] then org_clust fp = 0 \<and> fptr fp = 0 \<and> csize fs \<le> csect fp
     else at_cluster nx fs fp cs \<and> fptr fp \<noteq> 0)"

text \<open>What the loop leaves alone in the file object.\<close>

definition same_file :: "FIL \<Rightarrow> FIL \<Rightarrow> bool" where
  "same_file fp fp' \<longleftrightarrow> f_fs fp' = f_fs fp \<and> f_id fp' = f_id fp \<and> flag fp' = flag fp \<and> fsize fp' = fsize fp
     \<and> dsect fp' = dsect fp \<and> dir_sect fp' = dir_sect fp \<and> dir_ptr fp' = dir_ptr fp"

text \<open>Fields of the volume that never change while it is mounted.\<close>

definition same_volume :: "'d fatfs \<Rightarrow> 'd fatfs \<Rightarrow> bool" where
  "same_volume fs gs \<longleftrightarrow> fs_type gs = fs_type fs \<and> csize gs = csize fs \<and> n_fats gs = n_fats fs \<and> fs_id gs = fs_id fs
     \<and> n_rootdir gs = n_rootdir fs \<and> fsi_sector gs = fsi_sector fs \<and> sects_fat gs = sects_fat fs
     \<and> max_clust gs = max_clust fs \<and> fatbase gs = fatbase fs \<and> dirbase gs = dirbase fs \<and> database gs = database fs"

lemma same_volume_recount [simp]: "same_volume fs (recount f l n fs)"
  unfolding same_volume_def recount_def by simp

lemma same_volume_refl [simp]: "same_volume fs fs"
  by (simp add: same_volume_def)

lemma same_volume_trans: "same_volume fs gs \<Longrightarrow> same_volume gs hs \<Longrightarrow> same_volume fs hs"
  by (simp add: same_volume_def)

lemma same_volume_cong:
  assumes "same_volume fs gs"
  shows "max_clust gs = max_clust fs" "csize gs = csize fs" "database gs = database fs" "fatbase gs = fatbase fs"
    "sects_fat gs = sects_fat fs" "n_fats gs = n_fats fs" "fs_type gs = fs_type fs" "fsi_sector gs = fsi_sector fs"
  using assms by (simp_all add: same_volume_def)

lemma same_volume_keeps:
  assumes "same_volume fs gs"
  shows "table_ok gs = table_ok fs" "cluster_no gs = cluster_no fs" "fat_area gs = fat_area fs" "data_ok gs = data_ok fs"
    "mirror gs = mirror fs" "chain_sectors gs cs = chain_sectors fs cs" "cluster_sectors gs = cluster_sectors fs"
    "clust2sect c gs = clust2sect c fs" "file_data v gs = file_data v fs"
proof -
  note k = same_volume_cong [OF assms]
  show s: "cluster_sectors gs = cluster_sectors fs"
    by (rule ext) (simp only: cluster_sectors_def clust2sect_def k)
  show "table_ok gs = table_ok fs" by (simp only: table_ok_def k)
  show "cluster_no gs = cluster_no fs" by (rule ext) (simp only: cluster_no_def k)
  show "fat_area gs = fat_area fs" by (simp only: fat_area_def k)
  show "data_ok gs = data_ok fs" by (simp only: data_ok_def k)
  show "mirror gs = mirror fs" by (simp only: mirror_def k)
  show c: "chain_sectors gs cs = chain_sectors fs cs" for cs by (simp only: chain_sectors_def s)
  show "clust2sect c gs = clust2sect c fs" by (simp only: clust2sect_def k)
  show "file_data v gs = file_data v fs" by (intro ext) (simp only: file_data_def c)
qed

lemma only_window_volume: "only_window fs gs \<Longrightarrow> same_volume fs gs"
proof -
  assume w: "only_window fs gs"
  then have "fsi_sector gs = fsi_sector fs" by (cases fs; cases gs) (simp add: only_window_def)
  then show ?thesis using only_window_fields [OF w] unfolding same_volume_def by metis
qed

lemma at_cluster_cong:
  assumes "at_cluster nx fs fp cs" "same_volume fs gs" "\<And>x. cluster_no fs x \<Longrightarrow> x \<in> set cs \<Longrightarrow> nx' x = nx x"
  shows "at_cluster nx' gs fp cs"
proof -
  have c: "chain nx (max_clust fs) (org_clust fp) cs" using assms(1) by (simp add: at_cluster_def)
  have "chain nx' (max_clust fs) (org_clust fp) cs"
  proof (rule chain_cong [OF c])
    fix x assume "x \<in> set cs"
    with chain_members [OF c this] show "nx' x = nx x" by (intro assms(3)) (simp_all add: cluster_no_def)
  qed
  then show ?thesis using assms(1) unfolding at_cluster_def same_volume_cong [OF assms(2)] by blast
qed

lemma append_at_cong:
  assumes "append_at nx fs fp cs" "same_volume fs gs" "\<And>x. cluster_no fs x \<Longrightarrow> x \<in> set cs \<Longrightarrow> nx' x = nx x"
  shows "append_at nx' gs fp cs"
  using assms(1) at_cluster_cong [OF _ assms(2,3)] same_volume_cong(2) [OF assms(2)]
  by (auto simp: append_at_def split: if_splits)

lemma last_cluster_fresh:
  assumes "j + n \<le> unat (csize fs)" "data_ok fs" "distinct (cs @ [c])" "\<forall>x \<in> set (cs @ [c]). cluster_no fs x"
  shows "set (take (length cs * unat (csize fs) + j) (chain_sectors fs (cs @ [c]))) \<inter> span (clust2sect c fs + of_nat j) n = {}"
proof -
  have "distinct (take (length cs * unat (csize fs) + j + n) (chain_sectors fs (cs @ [c])))"
    using distinct_chain_sectors [OF assms(2-4)] by simp
  then show ?thesis unfolding take_last_cluster [OF assms(1)] by (auto simp: span_def)
qed

lemma unat_u8_u32: "unat (ucast x :: u32) = unat x" for x :: u8
  using unsigned_less [of x, where ?'a = nat] by (simp add: unsigned_ucast_eq take_bit_nat_eq_self)

section \<open>Appending\<close>

text \<open>The state in which whole sectors are appended: \<open>fp\<close> is at the end of the clusters \<open>cs\<close> of its file.\<close>

definition appending :: "('d \<Rightarrow> u32 \<Rightarrow> u8 list) \<Rightarrow> ('d \<Rightarrow> bool) \<Rightarrow> 'd fatfs \<Rightarrow> FIL \<Rightarrow> u32 list \<Rightarrow> bool" where
  "appending sectors good fs fp cs \<longleftrightarrow> fs_inv sectors good fs \<and> table_ok fs \<and> data_ok fs \<and> winsect fs \<noteq> 0
     \<and> append_at (fat_entry sectors fs) fs fp cs"

text \<open>
  What appending promises: the file's clusters go on with \<open>ds\<close>, which were free, its bytes with \<open>bytes\<close>; no
  other entry of the table and no sector outside the file and the tables changes.
\<close>

definition grown :: "('d \<Rightarrow> u32 \<Rightarrow> u8 list) \<Rightarrow> 'd fatfs \<Rightarrow> FIL \<Rightarrow> u32 list \<Rightarrow> 'd fatfs \<Rightarrow> FIL \<Rightarrow> u32 list \<Rightarrow> u8 list \<Rightarrow> bool" where
  "grown sectors fs fp cs gs fp' ds bytes \<longleftrightarrow> same_volume fs gs
     \<and> unat (fptr fp') = unat (fptr fp) + length bytes
     \<and> file_data (vol sectors gs) fs (cs @ ds) (unat (fptr fp') div 512)
       = file_data (vol sectors fs) fs cs (unat (fptr fp) div 512) @ bytes
     \<and> (\<forall>x \<in> set ds. cluster_no fs x \<and> fat_entry sectors fs x = 0)
     \<and> (\<forall>x. cluster_no fs x \<longrightarrow> x \<notin> set (cs @ ds) \<longrightarrow> fat_entry sectors gs x = fat_entry sectors fs x)
     \<and> (\<forall>x. x \<notin> fat_area fs \<longrightarrow> x \<notin> set (chain_sectors fs (cs @ ds)) \<longrightarrow> vol sectors gs x = vol sectors fs x)"

definition appended :: "('d \<Rightarrow> u32 \<Rightarrow> u8 list) \<Rightarrow> 'd fatfs \<Rightarrow> FIL \<Rightarrow> u32 list \<Rightarrow> 'd fatfs \<Rightarrow> FIL \<Rightarrow> u32 list \<Rightarrow> u8 list \<Rightarrow> bool" where
  "appended sectors fs fp cs gs fp' ds bytes \<longleftrightarrow> same_file fp fp' \<and> grown sectors fs fp cs gs fp' ds bytes"

text \<open>What even a failed transfer keeps.\<close>

definition usable :: "('d \<Rightarrow> bool) \<Rightarrow> 'd fatfs \<Rightarrow> bool" where
  "usable good fs \<longleftrightarrow> good (disk fs) \<and> length (win fs) = 512"

lemma fs_inv_usable: "fs_inv sectors good fs \<Longrightarrow> usable good fs"
  by (simp add: fs_inv_def usable_def)

text \<open>No free cluster is left.\<close>

definition disk_full :: "('d \<Rightarrow> u32 \<Rightarrow> u8 list) \<Rightarrow> 'd fatfs \<Rightarrow> bool" where
  "disk_full sectors fs \<longleftrightarrow> (\<forall>x. cluster_no fs x \<longrightarrow> fat_entry sectors fs x \<noteq> 0)"

lemma same_file_trans: "same_file f g \<Longrightarrow> same_file g h \<Longrightarrow> same_file f h"
  by (simp add: same_file_def)

lemma appending_members:
  assumes "appending sectors good fs fp cs"
  shows "distinct cs" "\<forall>x \<in> set cs. cluster_no fs x \<and> fat_entry sectors fs x \<noteq> 0"
proof -
  have "cs = [] \<or> chain (fat_entry sectors fs) (max_clust fs) (org_clust fp) cs"
    using assms by (auto simp: appending_def append_at_def at_cluster_def split: if_splits)
  then show "distinct cs" "\<forall>x \<in> set cs. cluster_no fs x \<and> fat_entry sectors fs x \<noteq> 0"
    using chain_distinct chain_members by (fastforce simp: cluster_no_def)+
qed

lemma append_at_position:
  assumes "append_at nx fs fp cs"
  shows "unat (fptr fp) mod 512 = 0" "unat (fptr fp) div 512 \<le> length (chain_sectors fs cs)" "fptr fp mod 512 = 0"
proof -
  show m: "unat (fptr fp) mod 512 = 0"
    using assms by (auto simp: append_at_def at_cluster_def split: if_splits)
  then show "fptr fp mod 512 = 0" by (simp add: word_unat_eq_iff unat_mod)
  show "unat (fptr fp) div 512 \<le> length (chain_sectors fs cs)"
  proof (cases cs)
    case (Cons c ds)
    then have "unat (fptr fp) = 512 * (length ds * unat (csize fs) + unat (csect fp))" "unat (csect fp) \<le> unat (csize fs)"
      using assms by (auto simp: append_at_def at_cluster_def word_le_nat_alt split: if_splits)
    then show ?thesis by (simp add: Cons)
  qed (use assms in \<open>simp add: append_at_def\<close>)
qed

lemma grown_trans:
  assumes "grown sectors fs fp cs gs fq ds b" "grown sectors gs fq (cs @ ds) hs fr es b'" "\<forall>x \<in> set (cs @ ds). fat_entry sectors gs x \<noteq> 0"
  shows "grown sectors fs fp cs hs fr (ds @ es) (b @ b')"
proof -
  note a = assms(1) [unfolded grown_def]
  have sv: "same_volume fs gs" using a by blast
  note k = same_volume_keeps [OF sv]
  note c = assms(2) [unfolded grown_def k]
  have free: "cluster_no fs x \<and> fat_entry sectors fs x = 0" if "x \<in> set es" for x
  proof -
    have x: "cluster_no fs x" "fat_entry sectors gs x = 0" using c that by blast+
    then have "x \<notin> set (cs @ ds)" using assms(3) by blast
    then show ?thesis using a x by metis
  qed
  have out: "vol sectors hs x = vol sectors fs x" if "x \<notin> fat_area fs" "x \<notin> set (chain_sectors fs (cs @ ds @ es))" for x
  proof -
    have "x \<notin> set (chain_sectors fs (cs @ ds))" "x \<notin> set (chain_sectors fs ((cs @ ds) @ es))"
      using that(2) by (auto simp: chain_sectors_def)
    then show ?thesis using a c that(1) by metis
  qed
  have ent: "fat_entry sectors hs x = fat_entry sectors fs x" if "cluster_no fs x" "x \<notin> set (cs @ ds @ es)" for x
    using a c that by (metis Un_iff append_assoc set_append)
  have "same_volume fs hs" using a c same_volume_trans by blast
  moreover have "unat (fptr fr) = unat (fptr fp) + length (b @ b')" using a c by simp
  moreover have "file_data (vol sectors hs) fs (cs @ ds @ es) (unat (fptr fr) div 512)
      = file_data (vol sectors fs) fs cs (unat (fptr fp) div 512) @ b @ b'"
    using a c by (metis append_assoc)
  ultimately show ?thesis unfolding grown_def using a free ent out by auto
qed

lemma appended_trans:
  assumes "appended sectors fs fp cs gs fq ds b" "appended sectors gs fq (cs @ ds) hs fr es b'" "\<forall>x \<in> set (cs @ ds). fat_entry sectors gs x \<noteq> 0"
  shows "appended sectors fs fp cs hs fr (ds @ es) (b @ b')"
  using assms grown_trans same_file_trans unfolding appended_def by blast

section \<open>Sectors written\<close>

lemma scatter_inside:
  assumes "i < n" "n \<le> 2 ^ 32" "512 * n \<le> length b"
  shows "scatter v sec n b (sec + of_nat i) = take 512 (drop (512 * i) b)"
  using assms
proof (induction n arbitrary: b)
  case (Suc n)
  have "scatter v sec (Suc n) b = (scatter v sec n b)(sec + of_nat n := take 512 (drop (512 * n) b))"
    using Suc.prems(3) by (intro scatter_snoc) simp
  moreover have "sec + of_nat i \<noteq> sec + (of_nat n :: u32)" if "i < n"
  proof
    assume "sec + of_nat i = sec + (of_nat n :: u32)"
    then have "unat (of_nat i :: u32) = unat (of_nat n :: u32)" by simp
    then have "i mod 2 ^ 32 = n mod 2 ^ 32" by (simp only: unat_of_nat) simp
    then show False using that Suc.prems(2) by simp
  qed
  ultimately show ?case using Suc by (cases "i = n") simp_all
qed simp

lemma span_diff: "x - sec < n \<longleftrightarrow> x \<in> span sec (unat n)" for n :: u32
proof
  assume "x - sec < n"
  then show "x \<in> span sec (unat n)"
    by (auto simp: span_def word_less_nat_alt intro!: image_eqI [of _ _ "unat (x - sec)"])
next
  assume "x \<in> span sec (unat n)"
  then obtain i where i: "i < unat n" "x = sec + of_nat i" by (auto simp: span_def)
  have "i < 2 ^ 32" using i(1) unsigned_less [of n, where ?'a = nat] by simp
  then have "unat (of_nat i :: u32) = i" by (simp only: unat_of_nat) simp
  then show "x - sec < n" using i by (simp add: word_less_nat_alt)
qed

context block_device
begin

text \<open>Contents that agree on the tables give the same entries.\<close>

lemma fat_entry_vol:
  assumes "same_volume fs gs" "table_ok fs" "unat (fatbase fs) + unat (n_fats fs) * unat (sects_fat fs) < 2 ^ 32"
    and "\<And>x. x \<in> fat_area fs \<Longrightarrow> x \<notin> mirror fs \<Longrightarrow> vol v gs x = vol u fs x" "cluster_no fs c"
  shows "fat_entry v gs c = fat_entry u fs c"
proof -
  note k = same_volume_cong [OF assms(1)]
  have b: "tbl v gs i = tbl u fs i" if i: "i < 512 * unat (sects_fat fs)" for i
  proof -
    have "1 * unat (sects_fat fs) \<le> unat (n_fats fs) * unat (sects_fat fs)"
      using assms(2) by (intro mult_right_mono) (simp_all add: table_ok_def)
    moreover have "i div 512 < unat (sects_fat fs)" using i by (simp add: div_less_iff_less_mult mult.commute)
    ultimately have "fatbase fs + of_nat (i div 512) \<in> fat_area fs"
      unfolding fat_area_def mem_Collect_eq table_sector(1) [OF assms(2,3) i] by linarith
    then show ?thesis using table_sector(2) [OF assms(2,3) i] by (simp add: tbl_def k(4) assms(4))
  qed
  note e = entry_bytes [OF assms(2,5)]
  show ?thesis
  proof (cases "fs_type fs = FS_FAT12 \<or> fs_type fs = FS_FAT16")
    case True
    then show ?thesis using e(1,2) by (auto simp: fat_entry_def Let_def k(7) b)
  next
    case False
    then have "4 * unat c + 3 < 512 * unat (sects_fat fs)" using e(3) by blast
    then have "\<And>k. k \<le> 3 \<Longrightarrow> tbl v gs (4 * unat c + k) = tbl u fs (4 * unat c + k)" by (simp add: b)
    from this [of 0] this [of 1] this [of 2] this [of 3] False show ?thesis
      by (simp add: fat_entry_def Let_def k(7))
  qed
qed

lemma cstep_volume: "cstep fs gs \<Longrightarrow> same_volume fs gs"
proof -
  assume "cstep fs gs"
  then obtain f l n where "only_window (recount f l n fs) gs" by (auto simp: cstep_def tstep_def)
  then have "same_volume (recount f l n fs) gs" by (rule only_window_volume)
  then show ?thesis by (rule same_volume_trans [OF same_volume_recount])
qed

lemma alloc_extends:
  assumes "alloc_post fs c v gs" "v \<notin> {0, 1, 0xFFFFFFFF}" "c \<noteq> 0"
    and "chain (fat_entry sectors fs) (max_clust fs) c0 (cs @ [c])"
  shows "chain (fat_entry sectors gs) (max_clust gs) c0 (cs @ [c, v])"
proof -
  have a: "cluster_no fs v" "fat_entry sectors fs v = 0" "max_clust fs \<le> fat_entry sectors gs v" "fat_entry sectors gs c = v"
    "\<And>x. cluster_no fs x \<Longrightarrow> x \<noteq> v \<Longrightarrow> x \<noteq> c \<Longrightarrow> fat_entry sectors gs x = fat_entry sectors fs x" "cstep fs gs"
    using assms(1,2,3) by (auto simp: alloc_post_def)
  have m: "cluster_no fs x \<and> fat_entry sectors fs x \<noteq> 0" if "x \<in> set (cs @ [c])" for x
    using chain_members [OF assms(4) that] by (simp add: cluster_no_def)
  have d: "c \<notin> set cs" using chain_distinct [OF assms(4)] by simp
  have v: "v \<notin> set (cs @ [c])" using m a(2) by blast
  have "max_clust gs = max_clust fs" using cstep_keeps(5) [OF a(6)] .
  then show ?thesis
    using a m d v by (auto intro!: chain_extend [OF assms(4)] simp: cluster_no_def)
qed

text \<open>What a round may change: the tables and, beside them, nothing.\<close>

lemma write_cluster_ok:
  assumes "fs_inv sectors good fs" "table_ok fs" "data_ok fs" "winsect fs \<noteq> 0" "append_at (fat_entry sectors fs) fs fp cs"
  shows "\<exists>r fp' gs. write_cluster dev fp fs = Some (r, fp', gs) \<and> cstep fs gs \<and> same_file fp fp' \<and> fptr fp' = fptr fp
    \<and> (r = Some FR_OK \<longrightarrow> (\<exists>ds. at_cluster (fat_entry sectors gs) gs fp' (cs @ ds) \<and> csect fp' < csize gs
         \<and> (\<forall>x \<in> set ds. cluster_no fs x \<and> fat_entry sectors fs x = 0)
         \<and> (\<forall>x. cluster_no fs x \<longrightarrow> x \<notin> set (cs @ ds) \<longrightarrow> fat_entry sectors gs x = fat_entry sectors fs x)))
    \<and> (r = None \<longrightarrow> append_at (fat_entry sectors gs) gs fp' cs
         \<and> (\<forall>x. cluster_no fs x \<longrightarrow> fat_entry sectors gs x = fat_entry sectors fs x \<and> fat_entry sectors fs x \<noteq> 0))"
proof (cases "csect fp < csize fs")
  case True
  then have "cs \<noteq> []" "at_cluster (fat_entry sectors fs) fs fp cs"
    using assms(5) by (auto simp: append_at_def split: if_splits)
  moreover have "write_cluster dev fp fs = Some (Some FR_OK, fp, fs)"
    using leD [of "csize fs" "csect fp"] True by (auto simp: write_cluster_def)
  moreover have "cstep fs fs" using assms(1,4) by (intro wstep_cstep wstep_refl)
  ultimately show ?thesis using True by (auto simp: same_file_def intro!: exI [of _ "[]"])
next
  case False
  define c where "c = (if cs = [] then 0 else last cs)"
  have full: "csize fs \<le> csect fp" using False by simp
  have c: "c = 0 \<or> cluster_no fs c \<and> max_clust fs \<le> fat_entry sectors fs c"
  proof (cases "cs = []")
    case False
    then have "chain (fat_entry sectors fs) (max_clust fs) (org_clust fp) (butlast cs @ [last cs])"
      using assms(5) by (simp add: append_at_def at_cluster_def)
    then have "chain (fat_entry sectors fs) (max_clust fs) (last cs) [last cs]" by (rule chain_suffix)
    then show ?thesis using False by (simp add: c_def cluster_no_def)
  qed (simp add: c_def)
  obtain v gs where gs: "create_chain dev c fs = Some (v, gs)" "alloc_post fs c v gs"
    using create_chain_ok [OF assms(1,2,4) c] by blast
  define fq where "fq = (if cs = [] then fp\<lparr>org_clust := v\<rparr> else fp)"
  have cstep: "cstep fs gs" using gs(2) by (simp add: alloc_post_def)
  note sv = same_volume_keeps [OF cstep_volume [OF cstep]] same_volume_cong [OF cstep_volume [OF cstep]]
  have run: "write_cluster dev fp fs = Some (if v = 0 then (None, fq, gs) else if v = 1 then (Some FR_INT_ERR, fq, gs)
      else if v = 0xFFFFFFFF then (Some FR_DISK_ERR, fq, gs) else (Some FR_OK, fq\<lparr>curr_clust := v, csect := 0\<rparr>, gs))"
  proof (cases "cs = []")
    case True
    then show ?thesis using full gs(1) assms(5) by (simp add: write_cluster_def append_at_def c_def fq_def)
  next
    case False
    then have "fptr fp \<noteq> 0" "curr_clust fp = c" using assms(5) by (simp_all add: append_at_def at_cluster_def c_def)
    then show ?thesis using full gs(1) False by (simp add: write_cluster_def fq_def)
  qed
  have none: "append_at (fat_entry sectors gs) gs fq cs
      \<and> (\<forall>x. cluster_no fs x \<longrightarrow> fat_entry sectors gs x = fat_entry sectors fs x \<and> fat_entry sectors fs x \<noteq> 0)" if "v = 0"
  proof -
    have e: "\<forall>x. cluster_no fs x \<longrightarrow> fat_entry sectors gs x = fat_entry sectors fs x"
      "\<forall>x. cluster_no fs x \<longrightarrow> fat_entry sectors fs x \<noteq> 0"
      using gs(2) that by (auto simp: alloc_post_def cluster_no_def)
    have "append_at (fat_entry sectors fs) fs fq cs" using assms(5) that by (auto simp: fq_def append_at_def)
    then show ?thesis using e append_at_cong [OF _ cstep_volume [OF cstep]] by blast
  qed
  have ok: "at_cluster (fat_entry sectors gs) gs (fq\<lparr>curr_clust := v, csect := 0\<rparr>) (cs @ [v])
      \<and> cluster_no fs v \<and> fat_entry sectors fs v = 0" if nv: "v \<notin> {0, 1, 0xFFFFFFFF}"
  proof -
    have a: "cluster_no fs v" "fat_entry sectors fs v = 0" "max_clust fs \<le> fat_entry sectors gs v"
      using gs(2) nv by (auto simp: alloc_post_def)
    show ?thesis
    proof (cases "cs = []")
      case True
      then show ?thesis using a assms(5) sv by (simp add: at_cluster_def fq_def append_at_def cluster_no_def)
    next
      case ne: False
      then have at: "at_cluster (fat_entry sectors fs) fs fp cs" using assms(5) by (simp add: append_at_def)
      then have "chain (fat_entry sectors fs) (max_clust fs) (org_clust fp) (butlast cs @ [last cs])"
        using ne by (simp add: at_cluster_def)
      note ch = this [unfolded append_butlast_last_id [OF ne]]
      have c0: "last cs \<noteq> 0" using chain_members [OF ch, of "last cs"] ne by auto
      have "alloc_post fs (last cs) v gs" using gs(2) ne by (simp add: c_def)
      from alloc_extends [OF this nv c0, of "org_clust fp" "butlast cs"] ch
      have "chain (fat_entry sectors gs) (max_clust gs) (org_clust fp) (butlast cs @ [last cs, v])"
        by (simp add: ne)
      moreover have "butlast cs @ [last cs, v] = cs @ [v]"
        using append_butlast_last_id [OF ne] by (metis append_Cons append_Nil append_assoc)
      moreover have "csect fp = csize fs" using full at by (simp add: at_cluster_def)
      then have "unat (fptr fp) = 512 * (length cs * unat (csize fs))"
        using at ne by (cases cs) (simp_all add: at_cluster_def algebra_simps)
      ultimately show ?thesis using a ne sv by (simp add: at_cluster_def fq_def)
    qed
  qed
  have others: "\<forall>x. cluster_no fs x \<longrightarrow> x \<notin> set (cs @ [v]) \<longrightarrow> fat_entry sectors gs x = fat_entry sectors fs x"
    if "v \<notin> {0, 1, 0xFFFFFFFF}"
  proof (intro allI impI)
    fix x assume x: "cluster_no fs x" "x \<notin> set (cs @ [v])"
    have "x \<noteq> c" using x last_in_set [of cs] by (cases "cs = []") (auto simp: c_def cluster_no_def)
    then show "fat_entry sectors gs x = fat_entry sectors fs x" using gs(2) that x by (simp add: alloc_post_def)
  qed
  have "same_file fp fq" "fptr fq = fptr fp" "same_file fp (fq\<lparr>curr_clust := v, csect := 0\<rparr>)"
    by (simp_all add: same_file_def fq_def)
  moreover have "0 < csize gs" using assms(3) sv by (simp add: data_ok_def)
  ultimately show ?thesis unfolding run using cstep none ok others
    by (cases "v = 0"; cases "v = 1"; cases "v = 0xFFFFFFFF") (auto intro!: exI [of _ "[v]"])
qed

text \<open>A direct write of whole sectors.\<close>

lemma write_direct_ok:
  fixes fs :: "'d fatfs"
  assumes "fs_inv sectors good fs" "winsect fs \<noteq> 0" "unat pos + 512 * unat (direct_sectors fp btw fs) \<le> length buff"
    and cc: "cc = direct_sectors fp btw fs" "unat cc < 256"
  defines "b \<equiv> take (512 * unat cc) (drop (unat pos) buff)"
  shows "\<exists>r n fp' gs. write_direct dev fp buff pos btw sect fs = Some (r, n, fp', gs) \<and> r \<in> {FR_OK, FR_DISK_ERR}
    \<and> same_volume fs gs \<and> same_file fp fp' \<and> usable good gs \<and> (r = FR_OK \<longrightarrow> n = 512 * cc \<and> fp' = fp\<lparr>csect := csect fp + ucast cc\<rparr>
      \<and> fs_inv sectors good gs \<and> winsect gs = winsect fs \<and> vol sectors gs = scatter (vol sectors fs) sect (unat cc) b)"
proof -
  note inv = assms(1) [unfolded fs_inv_def]
  have len: "length b = 512 * unat cc" using assms(3) cc(1) by (simp add: b_def)
  have sl: "slice (unat pos) (512 * unat cc) buff = Some b" using assms(3) cc(1) by (simp add: slice_def b_def)
  have uc: "unat (ucast cc :: u8) = unat cc" using cc(2) by (simp add: unsigned_ucast_eq take_bit_eq_mod)
  obtain r d where d: "d_write dev b sect (ucast cc) (disk fs) = Some (r, d)" "good d"
    "\<And>x. x \<notin> span sect (unat cc) \<Longrightarrow> sectors d x = sectors (disk fs) x"
    "r = RES_OK \<Longrightarrow> sectors d = scatter (sectors (disk fs)) sect (unat cc) b"
    using write_law [of "disk fs" b "ucast cc" sect] inv len unfolding uc by auto
  have outside: "scatter v sect (unat cc) b x = v x" if "x \<notin> span sect (unat cc)" for v x
    using scatter_outside [OF that] .
  have same: "scatter v sect (unat cc) b x = scatter v' sect (unat cc) b x" if x: "x \<in> span sect (unat cc)" for v v' x
  proof -
    obtain i where "i < unat cc" "x = sect + of_nat i" using x by (auto simp: span_def)
    then show ?thesis using scatter_inside [of i "unat cc" b] len cc(2) by simp
  qed
  have agree: "scatter v sect (unat cc) b x = scatter v' sect (unat cc) b x" if "v x = v' x" for v v' x
    using that same outside by (cases "x \<in> span sect (unat cc)") auto
  have other: "scatter (sectors (disk fs)) sect (unat cc) b x = scatter (vol sectors fs) sect (unat cc) b x"
    if "x \<noteq> winsect fs" for x
    using that by (intro agree) (simp add: vol_def)
  show ?thesis
  proof (cases "r = RES_OK")
    case False
    then have "write_direct dev fp buff pos btw sect fs = Some (FR_DISK_ERR, 0, fp, fs\<lparr>disk := d\<rparr>)"
      by (simp add: write_direct_def flip: cc(1)) (simp add: sl d(1))
    then show ?thesis using inv d(2) by (simp add: same_volume_def same_file_def usable_def)
  next
    case ok: True
    show ?thesis
    proof (cases "winsect fs \<in> span sect (unat cc)")
      case True
      define i where "i = unat (winsect fs - sect)"
      have lt: "winsect fs - sect < cc" using True by (simp add: span_diff)
      then have i: "i < unat cc" by (simp add: i_def word_less_nat_alt)
      have "winsect fs = sect + of_nat i" by (simp add: i_def)
      then have hit: "scatter v sect (unat cc) b (winsect fs) = take 512 (drop (512 * i) b)" for v
        using scatter_inside [of i "unat cc" b v sect] i len cc(2) by simp
      have "unat ((winsect fs - sect) * 512) = 512 * i"
        using i cc(2) unfolding unat_word_ariths(2) i_def [symmetric] by simp
      moreover have "slice (unat pos + 512 * i) 512 buff = Some (take 512 (drop (512 * i) b))" 
      proof -
        have "512 \<le> 512 * unat cc - 512 * i" using i by simp
        then have "take 512 (drop (512 * i) b) = take 512 (drop (unat pos + 512 * i) buff)"
          by (simp add: b_def drop_take add.commute)
        moreover have "unat pos + 512 * i + 512 \<le> length buff" using assms(3) i unfolding cc(1) by linarith
        ultimately show ?thesis by (simp add: slice_def)
      qed
      ultimately have run: "write_direct dev fp buff pos btw sect fs = Some (FR_OK, 512 * cc, fp\<lparr>csect := csect fp + ucast cc\<rparr>,
          fs\<lparr>disk := d, win := take 512 (drop (512 * i) b), wflag := 0\<rparr>)"
        using ok lt by (simp add: write_direct_def flip: cc(1)) (simp add: sl d(1))
      have "length (take 512 (drop (512 * i) b)) = 512" using i len by simp
      then show ?thesis unfolding run using inv d(2) d(4) [OF ok] hit other assms(2)
        by (auto simp: same_volume_def same_file_def usable_def fs_inv_def vol_def fun_eq_iff)
    next
      case False
      then have "\<not> winsect fs - sect < cc" by (simp add: span_diff)
      then have run: "write_direct dev fp buff pos btw sect fs = Some (FR_OK, 512 * cc, fp\<lparr>csect := csect fp + ucast cc\<rparr>, fs\<lparr>disk := d\<rparr>)"
        using ok by (simp add: write_direct_def flip: cc(1)) (simp add: sl d(1))
      show ?thesis unfolding run using inv d(2) d(4) [OF ok] other outside assms(2) False
        by (auto simp: same_volume_def same_file_def usable_def fs_inv_def vol_def fun_eq_iff)
    qed
  qed
qed

text \<open>How many sectors a round writes.\<close>

lemma direct_sectors_bound:
  assumes "csect fp < csize fs" "csize fs \<le> 128" "btw div 512 \<noteq> 0"
  shows "0 < unat (direct_sectors fp btw fs)" "unat (csect fp) + unat (direct_sectors fp btw fs) \<le> unat (csize fs)"
    "512 * unat (direct_sectors fp btw fs) \<le> unat btw"
proof -
  have lt: "unat (csect fp) < unat (csize fs)" "unat (csize fs) \<le> 128"
    using assms(1,2) by (simp_all add: word_less_nat_alt word_le_nat_alt)
  have q: "unat (btw div 512) = unat btw div 512" "0 < unat btw div 512"
    using assms(3) by (simp_all add: unat_div word_unat_eq_iff)
  have cs: "unat (ucast (csize fs) :: u32) = unat (csize fs)" "unat (ucast (csect fp) :: u32) = unat (csect fp)"
    by (rule unat_u8_u32)+
  have sum: "unat (ucast (csect fp) + btw div 512) = unat (csect fp) + unat btw div 512"
  proof -
    have "unat (csect fp) + unat btw div 512 < 2 ^ 32" using lt unsigned_less [of btw, where ?'a = nat] by simp
    then show ?thesis unfolding unat_word_ariths(1) q(1) cs by simp
  qed
  have dif: "unat (ucast (csize fs) - ucast (csect fp) :: u32) = unat (csize fs) - unat (csect fp)"
    using lt by (subst unat_sub) (simp_all add: word_le_nat_alt cs)
  have gt: "ucast (csect fp) + btw div 512 > (ucast (csize fs) :: u32) \<longleftrightarrow> unat (csize fs) < unat (csect fp) + unat btw div 512"
    by (simp add: word_less_nat_alt sum cs)
  have "unat (direct_sectors fp btw fs) = min (unat btw div 512) (unat (csize fs) - unat (csect fp))"
    unfolding direct_sectors_def Let_def gt using dif q(1) by (auto simp: min_def)
  then show "0 < unat (direct_sectors fp btw fs)" "unat (csect fp) + unat (direct_sectors fp btw fs) \<le> unat (csize fs)"
    "512 * unat (direct_sectors fp btw fs) \<le> unat btw"
    using lt q(2) by auto
qed

lemma clust2sect_nonzero:
  assumes "table_ok fs" "data_ok fs" "cluster_no fs c"
  shows "clust2sect c fs \<noteq> 0"
proof -
  have "unat (fatbase fs) \<noteq> 0" using assms(1) by (simp add: table_ok_def unat_eq_0)
  then have "0 < unat (database fs)" using assms(2) by (simp add: data_ok_def)
  moreover have "0 < unat (csize fs)" using assms(2) by (simp add: data_ok_def word_less_nat_alt)
  ultimately have "unat (clust2sect c fs) \<noteq> 0" using sector_unat [OF assms(2,3), of 0] by simp
  then show ?thesis by (auto simp: unat_eq_0)
qed

text \<open>Storing \<open>b\<close> in the next \<open>n\<close> sectors of the last cluster.\<close>

lemma store_sectors:
  assumes "fs_inv sectors good fs" "table_ok fs" "data_ok fs" "at_cluster (fat_entry sectors fs) fs fp (cs @ [c])"
    and "unat (csect fp) + unat cc \<le> unat (csize fs)" "length b = 512 * unat cc" "0 < unat cc"
    and "unat (fptr fp) + 512 * unat cc < 2 ^ 32"
    and "same_volume fs gs" "fs_inv sectors good gs" "winsect gs \<noteq> 0"
    and "vol sectors gs = scatter (vol sectors fs) (clust2sect c fs + ucast (csect fp)) (unat cc) b"
  defines "fp' \<equiv> advance (512 * cc) (fp\<lparr>csect := csect fp + ucast cc\<rparr>)"
  shows "appending sectors good gs fp' (cs @ [c]) \<and> appended sectors fs fp (cs @ [c]) gs fp' [] b"
proof -
  let ?sect = "clust2sect c fs + ucast (csect fp)" and ?cs = "cs @ [c]"
  note k = same_volume_keeps [OF assms(9)] same_volume_cong [OF assms(9)]
  note at = assms(4) [unfolded at_cluster_def]
  have mem: "distinct ?cs" "\<forall>x \<in> set ?cs. cluster_no fs x"
    using at chain_distinct chain_members by (fastforce simp: cluster_no_def)+
  have se: "?sect = clust2sect c fs + of_nat (unat (csect fp))" by simp
  have span: "span ?sect (unat cc) \<subseteq> set (cluster_sectors fs c)"
  proof
    fix x assume "x \<in> span ?sect (unat cc)"
    then obtain i where "i < unat cc" "x = clust2sect c fs + of_nat (unat (csect fp) + i)" by (auto simp: span_def add.assoc)
    then show "x \<in> set (cluster_sectors fs c)" using assms(5) unfolding cluster_sectors_def set_map
      by (intro image_eqI [where x = "unat (csect fp) + i"]) auto
  qed
  have vo: "vol sectors gs x = vol sectors fs x" if "x \<notin> span ?sect (unat cc)" for x
    unfolding assms(12) by (rule scatter_outside [OF that])
  have area: "x \<notin> span ?sect (unat cc)" if "x \<in> fat_area fs" for x
    using that span sector_outside_tables(1) [OF assms(3)] mem(2) by fastforce
  have lt: "unat (fatbase fs) + unat (n_fats fs) * unat (sects_fat fs) < 2 ^ 32" using assms(1) by (simp add: fs_inv_def)
  have ent: "fat_entry sectors gs x = fat_entry sectors fs x" if "cluster_no fs x" for x
    using fat_entry_vol [OF assms(9,2) lt _ that] vo area by blast
  have c256: "unat (csect fp) + unat cc < 256"
    using assms(5) unsigned_less [of "csize fs", where ?'a = nat] by simp
  have uc: "unat (csect fp + ucast cc) = unat (csect fp) + unat cc"
    using c256 by (simp add: unat_word_ariths unsigned_ucast_eq take_bit_eq_mod)
  have fp: "unat (fptr fp') = unat (fptr fp) + 512 * unat cc"
    using assms(8) by (simp add: fp'_def advance_def unat_word_ariths)
  have pos: "unat (fptr fp) div 512 = length cs * unat (csize fs) + unat (csect fp)"
    "unat (fptr fp') div 512 = length cs * unat (csize fs) + unat (csect fp) + unat cc"
    using at unfolding fp by simp_all
  have at': "at_cluster (fat_entry sectors gs) gs fp' ?cs"
  proof (rule at_cluster_cong [OF _ assms(9)])
    show "at_cluster (fat_entry sectors fs) fs fp' ?cs"
      using at uc assms(5) fp by (simp add: at_cluster_def fp'_def advance_def word_le_nat_alt)
  qed (rule ent)
  have "unat (fptr fp') \<noteq> 0" using fp assms(7) by simp
  then have "appending sectors good gs fp' ?cs"
    using at' assms(2,3,10,11) by (auto simp: appending_def append_at_def k unat_eq_0)
  moreover have "file_data (vol sectors gs) fs ?cs (unat (fptr fp') div 512)
      = file_data (vol sectors fs) fs ?cs (unat (fptr fp) div 512) @ b"
  proof -
    have "gather (vol sectors gs) ?sect (unat cc) = b"
      unfolding assms(12) using c256 by (intro gather_scatter [OF assms(6)]) simp
    moreover have "file_data (vol sectors gs) fs ?cs (length cs * unat (csize fs) + unat (csect fp))
        = file_data (vol sectors fs) fs ?cs (length cs * unat (csize fs) + unat (csect fp))"
      using last_cluster_fresh [OF assms(5,3) mem] vo unfolding file_data_def se
      by (intro arg_cong [where f = concat] map_cong) auto
    ultimately show ?thesis unfolding pos file_data_last [OF assms(5)] by simp
  qed
  moreover have "vol sectors gs x = vol sectors fs x" if "x \<notin> set (chain_sectors fs ?cs)" for x
    using that span by (intro vo) (auto simp: chain_sectors_def)
  ultimately show ?thesis using ent fp assms(6,9) by (auto simp: appended_def grown_def same_file_def fp'_def advance_def)
qed

lemma cstep_then_wstep:
  assumes "cstep fs gs" "wstep gs hs"
  shows "cstep fs hs"
  using assms cstep_keeps(2) [OF assms(1)] wstep_cstep cstep_trans by blast

lemma cstep_file_data:
  assumes "cstep fs gs" "data_ok fs" "\<forall>x \<in> set cs. cluster_no fs x"
  shows "file_data (vol sectors gs) fs cs n = file_data (vol sectors fs) fs cs n"
proof -
  have "vol sectors gs x = vol sectors fs x" if x: "x \<in> set (chain_sectors fs cs)" for x
  proof -
    obtain c where "c \<in> set cs" "x \<in> set (cluster_sectors fs c)" using x by (auto simp: chain_sectors_def)
    then show ?thesis using sector_outside_tables(1) [OF assms(2)] assms(3) cstep_vol [OF assms(1)] by blast
  qed
  then show ?thesis unfolding file_data_def by (intro arg_cong [where f = concat] map_cong) (auto dest: in_set_takeD)
qed

text \<open>From the change of the tables alone.\<close>

lemma cstep_appended:
  assumes "appending sectors good fs fp cs" "cstep fs gs" "same_file fp fp'" "fptr fp' = fptr fp"
    and "\<forall>x \<in> set ds. cluster_no fs x \<and> fat_entry sectors fs x = 0"
    and "\<forall>x. cluster_no fs x \<longrightarrow> x \<notin> set (cs @ ds) \<longrightarrow> fat_entry sectors gs x = fat_entry sectors fs x"
  shows "appended sectors fs fp cs gs fp' ds []"
proof -
  have d: "data_ok fs" "append_at (fat_entry sectors fs) fs fp cs" using assms(1) by (simp_all add: appending_def)
  have "file_data (vol sectors gs) fs (cs @ ds) n = file_data (vol sectors fs) fs (cs @ ds) n" for n
    using assms(5) appending_members(2) [OF assms(1)] by (intro cstep_file_data [OF assms(2) d(1)]) auto
  then have "file_data (vol sectors gs) fs (cs @ ds) (unat (fptr fp) div 512) = file_data (vol sectors fs) fs cs (unat (fptr fp) div 512)"
    using file_data_more [OF append_at_position(2) [OF d(2)]] by metis
  then show ?thesis using assms(3-6) cstep_volume [OF assms(2)] cstep_vol [OF assms(2)] by (simp add: appended_def grown_def)
qed

lemma write_round_ok:
  assumes "appending sectors good fs fp cs" "512 dvd unat btw" "btw \<noteq> 0" "unat pos + unat btw \<le> length buff"
    and "unat (fptr fp) + unat btw < 2 ^ 32"
  shows "\<exists>r n fp' gs. write_round dev fp buff pos btw fs = Some (r, n, fp', gs) \<and> usable good gs
    \<and> (r = Some FR_OK \<longrightarrow> 0 < unat n \<and> unat n \<le> unat btw \<and> 512 dvd unat n
        \<and> (\<exists>ds. appending sectors good gs (advance n fp') (cs @ ds)
             \<and> appended sectors fs fp cs gs (advance n fp') ds (take (unat n) (drop (unat pos) buff))))
    \<and> (r = None \<longrightarrow> appending sectors good gs fp' cs \<and> appended sectors fs fp cs gs fp' [] [] \<and> disk_full sectors gs)"
proof -
  note a = assms(1) [unfolded appending_def]
  obtain r f1 g1 where g1: "write_cluster dev fp fs = Some (r, f1, g1)" "cstep fs g1" "same_file fp f1" "fptr f1 = fptr fp"
    "r = Some FR_OK \<Longrightarrow> \<exists>ds. at_cluster (fat_entry sectors g1) g1 f1 (cs @ ds) \<and> csect f1 < csize g1
         \<and> (\<forall>x \<in> set ds. cluster_no fs x \<and> fat_entry sectors fs x = 0)
         \<and> (\<forall>x. cluster_no fs x \<longrightarrow> x \<notin> set (cs @ ds) \<longrightarrow> fat_entry sectors g1 x = fat_entry sectors fs x)"
    "r = None \<Longrightarrow> append_at (fat_entry sectors g1) g1 f1 cs
         \<and> (\<forall>x. cluster_no fs x \<longrightarrow> fat_entry sectors g1 x = fat_entry sectors fs x \<and> fat_entry sectors fs x \<noteq> 0)"
    using write_cluster_ok [of fs fp cs] a by blast
  note k1 = cstep_keeps [OF g1(2)] same_volume_keeps [OF cstep_volume [OF g1(2)]] same_volume_cong [OF cstep_volume [OF g1(2)]]
  have m: "fptr fp mod 512 = 0" using a append_at_position(3) by blast
  show ?thesis
  proof (cases "r = Some FR_OK")
    case False
    then have run: "write_round dev fp buff pos btw fs = Some (r, 0, f1, g1)"
      using m g1(1) by (simp add: write_round_def)
    have "appended sectors fs fp cs g1 f1 [] []" if "r = None"
      using g1(6) [OF that] by (intro cstep_appended [OF assms(1) g1(2-4)]) auto
    moreover have "appending sectors good g1 f1 cs" "disk_full sectors g1" if "r = None"
      using g1(6) [OF that] a k1 by (auto simp: appending_def disk_full_def)
    ultimately show ?thesis unfolding run using False fs_inv_usable [OF k1(1)] by blast
  next
    case True
    obtain ds where ds: "at_cluster (fat_entry sectors g1) g1 f1 (cs @ ds)" "csect f1 < csize g1"
      "\<forall>x \<in> set ds. cluster_no fs x \<and> fat_entry sectors fs x = 0"
      "\<forall>x. cluster_no fs x \<longrightarrow> x \<notin> set (cs @ ds) \<longrightarrow> fat_entry sectors g1 x = fat_entry sectors fs x"
      using g1(5) [OF True] by blast
    obtain q g2 where g2: "(if winsect g1 = dsect f1 then move_window dev 0 g1 else Some (FR_OK, g1)) = Some (q, g2)" "wstep g1 g2"
    proof (cases "winsect g1 = dsect f1")
      case True
      then show ?thesis using move_window_ok [of g1 0] k1(1) that by auto
    next
      case False
      then show ?thesis using wstep_refl [OF k1(1)] that by auto
    qed
    have c2: "cstep fs g2" using cstep_then_wstep [OF g1(2) g2(2)] .
    note k2 = cstep_keeps [OF c2] same_volume_keeps [OF cstep_volume [OF c2]] same_volume_cong [OF cstep_volume [OF c2]]
    have e2: "fat_entry sectors g2 x = fat_entry sectors g1 x" if "cluster_no fs x" for x
      using wstep_entry [OF g2(2) _ k1(1)] a k1 that by simp
    show ?thesis
    proof (cases "q = FR_OK")
      case False
      then have "write_round dev fp buff pos btw fs = Some (Some FR_DISK_ERR, 0, f1, g2)"
        using m g1(1) True g2(1) by (simp add: write_round_def)
      then show ?thesis using fs_inv_usable [OF k2(1)] by simp
    next
      case ok: True
      have v12: "same_volume g1 g2" using cstep_volume [OF wstep_cstep [OF g2(2) k1(2)]] .
      have at: "at_cluster (fat_entry sectors g2) g2 f1 (cs @ ds)"
        by (rule at_cluster_cong [OF ds(1) v12]) (simp add: e2 k1)
      obtain bs c where bc: "cs @ ds = bs @ [c]" using at by (metis at_cluster_def append_butlast_last_id)
      have c: "cluster_no g2 c" "curr_clust f1 = c"
        using at chain_members [of _ _ _ "bs @ [c]" c] unfolding bc by (auto simp: at_cluster_def cluster_no_def)
      have geo: "table_ok g2" "data_ok g2" "csize g2 \<le> 128" "csect f1 < csize g2" "btw div 512 \<noteq> 0"
      proof -
        show "table_ok g2" "data_ok g2" using a k2 by simp_all
        then show "csize g2 \<le> 128" by (simp add: data_ok_def)
        show "csect f1 < csize g2" using ds(2) same_volume_cong(2) [OF v12] by simp
        have "unat btw div 512 \<noteq> 0" using assms(2,3) by (auto simp: unat_eq_0 dvd_div_eq_0_iff)
        moreover have "unat (btw div 512) = unat btw div 512" by (simp add: unat_div)
        ultimately show "btw div 512 \<noteq> 0" by auto
      qed
      let ?cc = "direct_sectors f1 btw g2" and ?sect = "clust2sect c g2 + ucast (csect f1)"
      note ds' = direct_sectors_bound [OF geo(4,3,5)]
      define b where "b = take (512 * unat ?cc) (drop (unat pos) buff)"
      have len: "unat pos + 512 * unat ?cc \<le> length buff" using ds'(3) assms(4) by simp
      have cc: "unat ?cc < 256" using ds'(2) unsigned_less [of "csize g2", where ?'a = nat] by simp
      obtain s n f3 g3 where g3: "write_direct dev f1 buff pos btw ?sect g2 = Some (s, n, f3, g3)" "s \<in> {FR_OK, FR_DISK_ERR}"
        "same_volume g2 g3" "usable good g3"
        "s = FR_OK \<Longrightarrow> n = 512 * ?cc \<and> f3 = f1\<lparr>csect := csect f1 + ucast ?cc\<rparr> \<and> fs_inv sectors good g3
            \<and> winsect g3 = winsect g2 \<and> vol sectors g3 = scatter (vol sectors g2) ?sect (unat ?cc) b"
        using write_direct_ok [OF k2(1,2) len refl cc, of ?sect] unfolding b_def by blast
      have run: "write_round dev fp buff pos btw fs = Some (Some s, n, f3, g3)"
        using m g1(1) True g2(1) ok clust2sect_nonzero [OF geo(1,2) c(1)] c(2) geo(5) g3(1)
        by (simp add: write_round_def g1(4))
      show ?thesis
      proof (cases "s = FR_OK")
        case False
        then show ?thesis unfolding run using g3(4) by simp
      next
        case True
        note g3' = g3(5) [OF True]
        have n: "unat n = 512 * unat ?cc" using g3' cc by (simp add: unat_word_ariths)
        have b: "length b = 512 * unat ?cc" "b = take (unat n) (drop (unat pos) buff)" using len by (simp_all add: b_def n)
        have lt: "unat (fptr f1) + 512 * unat ?cc < 2 ^ 32" using assms(5) ds'(3) g1(4) by simp
        have st: "appending sectors good g3 (advance n f3) (bs @ [c]) \<and> appended sectors g2 f1 (bs @ [c]) g3 (advance n f3) [] b"
          using store_sectors [OF k2(1) geo(1,2) at [unfolded bc] ds'(2) b(1) ds'(1) lt g3(3)] g3' k2(2) by simp
        have "appended sectors fs fp cs g2 f1 ds []"
          using ds(3,4) e2 by (intro cstep_appended [OF assms(1) c2 g1(3,4)]) auto
        moreover have "\<forall>x \<in> set (cs @ ds). fat_entry sectors g2 x \<noteq> 0"
          using at chain_members by (fastforce simp: at_cluster_def)
        ultimately have "appended sectors fs fp cs g3 (advance n f3) (ds @ []) ([] @ b)"
          using st unfolding bc [symmetric] by (blast intro: appended_trans)
        then show ?thesis unfolding run using st n ds'(1,3) b(2) g3(4) by (auto simp: bc intro!: exI [of _ ds])
      qed
    qed
  qed
qed

text \<open>The loop: it returns; when it does so with \<open>FR_OK\<close>, the bytes counted were appended.\<close>

lemma fwrite_loop_ok:
  assumes "appending sectors good fs fp cs" "512 dvd unat btw" "unat pos + unat btw \<le> length buff"
    and "unat (fptr fp) + unat btw < 2 ^ 32" "unat pos + unat btw < 2 ^ 32"
  shows "\<exists>r q fp' gs. fwrite_loop dev fp buff pos btw fs = Some (r, q, fp', gs) \<and> usable good gs
    \<and> (r = FR_OK \<longrightarrow> unat pos \<le> unat q \<and> unat q \<le> unat pos + unat btw
        \<and> (\<exists>ds. appending sectors good gs fp' (cs @ ds)
             \<and> appended sectors fs fp cs gs fp' ds (take (unat q - unat pos) (drop (unat pos) buff)))
        \<and> (unat q = unat pos + unat btw \<or> disk_full sectors gs))"
  using assms
proof (induction "unat btw" arbitrary: fs fp cs pos btw rule: less_induct)
  case less
  show ?case
  proof (cases "btw = 0")
    case True
    have "appended sectors fs fp cs fs fp [] []"
      by (simp add: appended_def grown_def same_file_def)
    moreover have "fwrite_loop dev fp buff pos btw fs = Some (FR_OK, pos, fp, fs)"
      by (subst fwrite_loop.simps) (simp add: True)
    moreover have "usable good fs" using less.prems(1) unfolding appending_def by (blast intro: fs_inv_usable)
    ultimately show ?thesis using less.prems(1) True by (auto intro!: exI [of _ "[]"])
  next
    case False
    obtain r n f1 g1 where g1: "write_round dev fp buff pos btw fs = Some (r, n, f1, g1)" "usable good g1"
      "r = Some FR_OK \<Longrightarrow> 0 < unat n \<and> unat n \<le> unat btw \<and> 512 dvd unat n
        \<and> (\<exists>ds. appending sectors good g1 (advance n f1) (cs @ ds)
             \<and> appended sectors fs fp cs g1 (advance n f1) ds (take (unat n) (drop (unat pos) buff)))"
      "r = None \<Longrightarrow> appending sectors good g1 f1 cs \<and> appended sectors fs fp cs g1 f1 [] [] \<and> disk_full sectors g1"
      using write_round_ok [OF less.prems(1,2) False less.prems(3,4)] by blast
    have step: "fwrite_loop dev fp buff pos btw fs = (case r of None \<Rightarrow> Some (FR_OK, pos, f1, g1)
        | Some r \<Rightarrow> if r \<noteq> FR_OK then Some (r, pos, abort_file f1, g1)
            else fwrite_loop dev (advance n f1) buff (pos + n) (btw - n) g1)"
      by (subst fwrite_loop.simps) (simp add: False g1(1))
    consider "r = None" | "r = Some FR_OK" | e where "r = Some e" "e \<noteq> FR_OK" by (cases r) auto
    then show ?thesis
    proof cases
      case 1
      then show ?thesis unfolding step using g1(2,4) by (auto intro!: exI [of _ "[]"])
    next
      case 3
      then show ?thesis unfolding step using g1(2) by simp
    next
      case 2
      obtain ds where n: "0 < unat n" "unat n \<le> unat btw" "512 dvd unat n" and
        ds: "appending sectors good g1 (advance n f1) (cs @ ds)"
          "appended sectors fs fp cs g1 (advance n f1) ds (take (unat n) (drop (unat pos) buff))"
        using g1(3) [OF 2] by blast
      have u: "unat (btw - n) = unat btw - unat n" "unat (pos + n) = unat pos + unat n"
        using n(2) less.prems(5) by (simp_all add: unat_sub word_le_nat_alt unat_word_ariths)
      have ptr: "unat (fptr (advance n f1)) = unat (fptr fp) + unat n"
        using ds(2) n(2) less.prems(3) by (simp add: appended_def grown_def)
      have "unat (btw - n) < unat btw" using n u by simp
      moreover have "512 dvd unat (btw - n)" using n less.prems(2) u by simp
      moreover have "unat (pos + n) + unat (btw - n) \<le> length buff" "unat (pos + n) + unat (btw - n) < 2 ^ 32"
        "unat (fptr (advance n f1)) + unat (btw - n) < 2 ^ 32"
        using n(2) u ptr less.prems(3-5) by simp_all
      ultimately obtain s q f2 g2 where g2: "fwrite_loop dev (advance n f1) buff (pos + n) (btw - n) g1 = Some (s, q, f2, g2)" "usable good g2"
        "s = FR_OK \<Longrightarrow> unat (pos + n) \<le> unat q \<and> unat q \<le> unat (pos + n) + unat (btw - n)
          \<and> (\<exists>es. appending sectors good g2 f2 ((cs @ ds) @ es)
             \<and> appended sectors g1 (advance n f1) (cs @ ds) g2 f2 es (take (unat q - unat (pos + n)) (drop (unat (pos + n)) buff)))
          \<and> (unat q = unat (pos + n) + unat (btw - n) \<or> disk_full sectors g2)"
        using less.hyps ds(1) by blast
      have run: "fwrite_loop dev fp buff pos btw fs = Some (s, q, f2, g2)" unfolding step 2 using g2(1) by simp
      show ?thesis
      proof (cases "s = FR_OK")
        case True
        obtain es where es: "appending sectors good g2 f2 ((cs @ ds) @ es)"
          "appended sectors g1 (advance n f1) (cs @ ds) g2 f2 es (take (unat q - unat (pos + n)) (drop (unat (pos + n)) buff))"
          and q: "unat pos + unat n \<le> unat q" "unat q \<le> unat pos + unat btw" 
            "unat q = unat pos + unat btw \<or> disk_full sectors g2"
          using g2(3) [OF True] u n(2) by auto
        have "appended sectors fs fp cs g2 f2 (ds @ es)
          (take (unat n) (drop (unat pos) buff) @ take (unat q - unat (pos + n)) (drop (unat (pos + n)) buff))"
          using appending_members(2) [OF ds(1)] by (intro appended_trans [OF ds(2) es(2)]) blast
        also have "take (unat n) (drop (unat pos) buff) @ take (unat q - unat (pos + n)) (drop (unat (pos + n)) buff)
          = take (unat q - unat pos) (drop (unat pos) buff)"
          using take_add [of "unat n" "unat q - unat (pos + n)" "drop (unat pos) buff"] q(1) u(2) by (simp add: add.commute)
        finally show ?thesis unfolding run using es(1) q g2(2) by auto
      qed (simp add: run g2(2))
    qed
  qed
qed

end

lemma appending_flags: "appending sectors good fs (fp\<lparr>fsize := a, flag := b\<rparr>) cs = appending sectors good fs fp cs"
  unfolding appending_def append_at_def at_cluster_def by simp

lemma grown_flags: "grown sectors fs fp cs gs (fp'\<lparr>fsize := a, flag := b\<rparr>) ds bytes = grown sectors fs fp cs gs fp' ds bytes"
  unfolding grown_def by simp

context block_device
begin

text \<open>The whole call.\<close>

lemma f_write_ok:
  assumes "appending sectors good fs fp cs" "fsize fp = fptr fp"
    and "512 dvd unat btw" "unat btw \<le> length buff" "unat (fptr fp) + unat btw < 2 ^ 32"
  shows "\<exists>r n fp' gs. f_write dev fp buff btw fs = Some (r, n, fp', gs) \<and> usable good gs
    \<and> (r = FR_OK \<longrightarrow> n \<le> btw \<and> (n = btw \<or> disk_full sectors gs) \<and> fptr fp' = fptr fp + n \<and> fsize fp' = fptr fp'
        \<and> flag fp' = flag fp OR FA__WRITTEN \<and> dir_sect fp' = dir_sect fp \<and> dir_ptr fp' = dir_ptr fp
        \<and> (\<exists>ds. appending sectors good gs fp' (cs @ ds) \<and> grown sectors fs fp cs gs fp' ds (take (unat n) buff)))"
proof -
  have z: "unat 0 + unat btw \<le> length buff" "unat (0 :: u32) + unat btw < 2 ^ 32" using assms(4,5) by simp_all
  obtain r n fp' gs where run: "fwrite_loop dev fp buff 0 btw fs = Some (r, n, fp', gs)" "usable good gs"
    "r = FR_OK \<longrightarrow> unat n \<le> unat btw \<and> (\<exists>ds. appending sectors good gs fp' (cs @ ds)
          \<and> appended sectors fs fp cs gs fp' ds (take (unat n) buff)) \<and> (unat n = unat btw \<or> disk_full sectors gs)"
    using fwrite_loop_ok [OF assms(1,3) z(1) assms(5) z(2)]
    unfolding unat_0 add_0 diff_zero drop_0 by blast
  have "\<not> fsize fp + btw < fsize fp"
    using assms(2,5) by (simp add: word_less_nat_alt unat_word_ariths)
  then have f: "f_write dev fp buff btw fs = (let res = validate dev fp fs in
     if res \<noteq> FR_OK then Some (res, 0, fp, fs)
     else if flag fp AND FA__ERROR \<noteq> 0 then Some (FR_INT_ERR, 0, fp, fs)
     else if flag fp AND FA_WRITE = 0 then Some (FR_DENIED, 0, fp, fs)
     else if r \<noteq> FR_OK then Some (r, n, fp', gs)
     else Some (FR_OK, n, fp'\<lparr>fsize := (if fptr fp' > fsize fp' then fptr fp' else fsize fp'),
               flag := flag fp' OR FA__WRITTEN\<rparr>, gs))"
    by (simp add: f_write_def run(1) Let_def)
  have old: "usable good fs" using assms(1) unfolding appending_def by (blast intro: fs_inv_usable)
  show ?thesis
  proof (cases "r = FR_OK")
    case False
    then show ?thesis unfolding f using run(2) old by (auto simp: Let_def)
  next
    case True
    obtain ds where ds: "appending sectors good gs fp' (cs @ ds)" "appended sectors fs fp cs gs fp' ds (take (unat n) buff)"
      and n: "unat n \<le> unat btw" "unat n = unat btw \<or> disk_full sectors gs"
      using run(3) True by blast
    have ptr: "unat (fptr fp') = unat (fptr fp) + unat n" "same_file fp fp'"
      using ds(2) n(1) assms(4) by (simp_all add: appended_def grown_def)
    have "unat (fptr fp') = unat (fptr fp + n)" using ptr(1) n(1) assms(5) by (simp add: unat_word_ariths)
    then have e: "fptr fp' = fptr fp + n" by (simp only: word_unat_eq_iff)
    have "fsize fp' \<le> fptr fp'" using ptr assms(2) by (simp add: same_file_def word_le_nat_alt)
    then have "(if fptr fp' > fsize fp' then fptr fp' else fsize fp') = fptr fp'" by auto
    moreover have "flag fp' = flag fp" "dir_sect fp' = dir_sect fp" "dir_ptr fp' = dir_ptr fp" using ptr(2) by (simp_all add: same_file_def)
    moreover have "appending sectors good gs (fp'\<lparr>fsize := a, flag := b\<rparr>) (cs @ ds)" for a b
      using ds(1) by (simp add: appending_flags)
    moreover have "grown sectors fs fp cs gs (fp'\<lparr>fsize := a, flag := b\<rparr>) ds (take (unat n) buff)" for a b
      using ds(2) by (simp add: appended_def grown_flags)
    moreover have "n \<le> btw" "n = btw \<or> disk_full sectors gs" using n by (auto simp: word_le_nat_alt word_unat_eq_iff)
    ultimately have "\<exists>ds. appending sectors good gs (fp'\<lparr>fsize := fptr fp', flag := flag fp' OR FA__WRITTEN\<rparr>) (cs @ ds)
        \<and> grown sectors fs fp cs gs (fp'\<lparr>fsize := fptr fp', flag := flag fp' OR FA__WRITTEN\<rparr>) ds (take (unat n) buff)"
      "flag fp' = flag fp" "dir_sect fp' = dir_sect fp" "dir_ptr fp' = dir_ptr fp" "n \<le> btw" "n = btw \<or> disk_full sectors gs"
      "(if fptr fp' > fsize fp' then fptr fp' else fsize fp') = fptr fp'" by blast+
    then show ?thesis unfolding f Let_def using True e run(2) old by (cases "validate dev fp fs = FR_OK") simp_all
  qed
qed

end

section \<open>Writing to the card\<close>

text \<open>
  C15: appending whole sectors to a file on the card, at its end: \<^verbatim>\<open>f_write\<close> returns. When the result is
  \<open>FR_OK\<close>, the bytes counted, all of them unless the disk is full, follow the file's bytes in the sectors of
  its clusters, which are the old ones and clusters that were free; position and size grow by the count; no
  other entry of the allocation table, no sector of another file or directory changes.
\<close>

theorem f_write_appends:
  fixes fs :: "'a disk_st_scheme fatfs"
  assumes "appending image (disk_ok ev ba) fs fp cs" "fsize fp = fptr fp"
    and "512 dvd unat btw" "unat btw \<le> length buff" "unat (fptr fp) + unat btw < 2 ^ 32"
  shows "\<exists>r n fp' gs. f_write (sd_device ev torn ba) fp buff btw fs = Some (r, n, fp', gs)
    \<and> (r = FR_OK \<longrightarrow> n \<le> btw \<and> (n = btw \<or> disk_full image gs) \<and> fptr fp' = fptr fp + n \<and> fsize fp' = fptr fp'
        \<and> flag fp' = flag fp OR FA__WRITTEN
        \<and> (\<exists>ds. appending image (disk_ok ev ba) gs fp' (cs @ ds) \<and> grown image fs fp cs gs fp' ds (take (unat n) buff)))"
  using sd.f_write_ok [OF assms, of torn] by blast

text \<open>An empty file on the small volume of \<open>Fat\<close>, opened for writing.\<close>

definition small_file :: FIL where
  "small_file = \<lparr>f_fs = True, f_id = 1, flag = 0x03, csect = 255, fptr = 0, fsize = 0, org_clust = 0, curr_clust = 0,
     dsect = 0, dir_sect = 3, dir_ptr = 0\<rparr>"

lemma small_file_appending: "appending image (disk_ok done_env ba) (small_fs FS_FAT16 chain_table) small_file []"
  using small_fs_ok(1) [of chain_table FS_FAT16 ba] small_fs_ok(2,3) [of chain_table FS_FAT16]
  by (simp add: appending_def append_at_def small_file_def) (simp add: data_ok_def small_fs_def chain_table_def)

theorem f_write_appends_witness:
  "\<exists>r n fp' gs. f_write (sd_device done_env (\<lambda>_. []) 0x10000000) small_file (replicate 1024 7) 1024 (small_fs FS_FAT16 chain_table)
      = Some (r, n, fp', gs)
    \<and> (r = FR_OK \<longrightarrow> n \<le> 1024 \<and> fsize fp' = n \<and> (\<exists>ds. chain (fat_entry image gs) (max_clust gs) (org_clust fp') ds
        \<and> file_data (vol image gs) gs ds (unat n div 512) = replicate (unat n) 7) \<or> n = 0)"
proof -
  have pre: "512 dvd unat (1024 :: u32)" "unat (1024 :: u32) \<le> length (replicate 1024 (7 :: u8))"
    "unat (fptr small_file) + unat (1024 :: u32) < 2 ^ 32" "fsize small_file = fptr small_file"
    by (simp_all add: small_file_def)
  obtain r n fp' gs where run: "f_write (sd_device done_env (\<lambda>_. []) 0x10000000) small_file (replicate 1024 7) 1024
      (small_fs FS_FAT16 chain_table) = Some (r, n, fp', gs)"
    "r = FR_OK \<longrightarrow> n \<le> 1024 \<and> (n = 1024 \<or> disk_full image gs) \<and> fptr fp' = fptr small_file + n \<and> fsize fp' = fptr fp'
        \<and> flag fp' = flag small_file OR FA__WRITTEN
        \<and> (\<exists>ds. appending image (disk_ok done_env 0x10000000) gs fp' ([] @ ds)
          \<and> grown image (small_fs FS_FAT16 chain_table) small_file [] gs fp' ds (take (unat n) (replicate 1024 7)))"
    using f_write_appends [OF small_file_appending pre(4,1-3), where torn = "\<lambda>_. []"] by blast
  have z: "fptr small_file = 0" by (simp add: small_file_def)
  show ?thesis
  proof (intro exI conjI impI, rule run(1))
    assume "r = FR_OK"
    then obtain ds where ds: "n \<le> 1024" "fsize fp' = n" "fptr fp' = n" "appending image (disk_ok done_env 0x10000000) gs fp' ds"
      "grown image (small_fs FS_FAT16 chain_table) small_file [] gs fp' ds (take (unat n) (replicate 1024 7))"
      using run(2) z by auto
    have "unat n \<le> 1024" using ds(1) by (simp add: word_le_nat_alt)
    then have t: "take (unat n) (replicate 1024 (7 :: u8)) = replicate (unat n) 7" by simp
    have "file_data (vol image gs) gs ds (unat n div 512) = replicate (unat n) 7"
    proof -
      have "same_volume (small_fs FS_FAT16 chain_table) gs" using ds(5) by (simp add: grown_def)
      moreover have "file_data (vol image gs) (small_fs FS_FAT16 chain_table) ds (unat n div 512) = replicate (unat n) 7"
        using ds(5) unfolding grown_def t ds(3) z by (simp add: file_data_def)
      ultimately show ?thesis by (simp only: same_volume_keeps)
    qed
    moreover have "n = 0 \<or> chain (fat_entry image gs) (max_clust gs) (org_clust fp') ds"
      using ds(3,4) by (auto simp: appending_def append_at_def at_cluster_def split: if_splits)
    ultimately show "n \<le> 1024 \<and> fsize fp' = n \<and> (\<exists>ds. chain (fat_entry image gs) (max_clust gs) (org_clust fp') ds
        \<and> file_data (vol image gs) gs ds (unat n div 512) = replicate (unat n) 7) \<or> n = 0" using ds(1,2) by blast
  qed
qed

text \<open>On a device without faults the call succeeds: a sector written to an empty file.\<close>

definition ram_fs :: "(bool \<times> (u32 \<Rightarrow> u8 list)) fatfs" where
  "ram_fs = flaky_fs\<lparr>disk := (False, (\<lambda>_. replicate 512 0)(1 := chain_table)), winsect := 1, win := chain_table\<rparr>"

declare fwrite_loop.simps [code] find_free.simps [code]

lemma f_write_succeeds:
  "(case f_write flaky small_file (replicate 512 7) 512 ram_fs of
      Some (r, n, fp', gs) \<Rightarrow> r = FR_OK \<and> n = 512 \<and> org_clust fp' = 4 \<and> fsize fp' = 512 \<and> snd (disk gs) 5 = replicate 512 7
    | None \<Rightarrow> False)"
  by code_simp

end
