(* ===== verification/FatClose.thy ===== *)
theory FatClose
  imports FatWrite
begin

text \<open>
  \<^verbatim>\<open>sync\<close>, \<^verbatim>\<open>f_sync\<close> and \<^verbatim>\<open>f_close\<close> of \<^verbatim>\<open>armboot/storage/ff.c\<close>: what a successful close leaves on the card,
  not only in the window: the directory entry with the file's size and first cluster, the allocation table,
  and every sector as the file system last saw it.
\<close>

text \<open>The sector of the free cluster count, which only FAT32 has.\<close>

definition info_sector :: "'d fatfs \<Rightarrow> u32 \<Rightarrow> bool" where
  "info_sector fs x \<longleftrightarrow> fs_type fs = FS_FAT32 \<and> x = fsi_sector fs"

lemma info_sector_volume: "same_volume fs gs \<Longrightarrow> info_sector gs = info_sector fs"
  by (simp add: info_sector_def fun_eq_iff same_volume_def)

context block_device
begin

text \<open>A file can be closed after a failed transfer, too.\<close>

lemma move_window_usable:
  assumes "usable good fs"
  shows "\<exists>r gs. move_window dev sec fs = Some (r, gs) \<and> usable good gs"
proof -
  have flush: "\<exists>r gs. flush_window dev fs = Some (r, gs) \<and> usable good gs"
  proof -
    obtain r d where d: "d_write dev (win fs) (winsect fs) 1 (disk fs) = Some (r, d)" "good d"
      using write1 [of "disk fs" "win fs" "winsect fs"] assms by (metis usable_def)
    obtain e where "mirror_loop dev (win fs) (sects_fat fs) (unat (n_fats fs) - 1) (winsect fs) d = Some e" "good e"
      using mirror_loop_ok [OF d(2), of "win fs"] assms by (metis usable_def)
    then show ?thesis using d assms
      by (cases "r = RES_OK"; cases "winsect fs < fatbase fs + sects_fat fs") (simp_all add: flush_window_def Let_def usable_def)
  qed
  obtain r gs where gs: "(if wflag fs \<noteq> 0 then flush_window dev fs else Some (FR_OK, fs)) = Some (r, gs)" "usable good gs"
    using flush assms by (cases "wflag fs = 0") auto
  obtain q b d where d: "d_read dev (win gs) sec 1 (disk gs) = Some (q, b, d)" "good d" "length b = length (win gs)"
    using read_law [of "disk gs" "win gs" 1 sec] gs(2) by (auto simp: usable_def)
  then show ?thesis using gs assms by (auto simp: move_window_def usable_def Let_def)
qed

lemma f_close_usable:
  assumes "usable good fs"
  shows "\<exists>r fp' gs. f_close dev fp fs = Some (r, fp', gs) \<and> usable good gs"
proof -
  have sync: "\<exists>r gs. sync dev fs = Some (r, gs) \<and> usable good gs" if u: "usable good fs" for fs
  proof -
    obtain r gs where gs: "move_window dev 0 fs = Some (r, gs)" "usable good gs" using move_window_usable [OF u] by blast
    have len: "length (fsinfo (free_clust gs) (last_clust gs)) = 512" by (simp add: fsinfo_def)
    obtain q d where "d_write dev (fsinfo (free_clust gs) (last_clust gs)) (fsi_sector gs) 1 (disk gs) = Some (q, d)" "good d"
      using write1 [of "disk gs" "fsinfo (free_clust gs) (last_clust gs)" "fsi_sector gs"] gs(2) len
      by (metis usable_def)
    then show ?thesis using gs len by (auto simp: sync_def usable_def)
  qed
  obtain r gs where gs: "move_window dev (dir_sect fp) fs = Some (r, gs)" "usable good gs"
    using move_window_usable [OF assms] by blast
  have "usable good ((win_upd (sync_entry fp) gs)\<lparr>wflag := 1\<rparr>)"
    using gs(2) by (simp add: usable_def win_upd_def sync_entry_def Let_def)
  from sync [OF this] gs assms show ?thesis
    by (auto simp: f_close_def f_sync_def Let_def)
qed

text \<open>A clean window shows what is on the device.\<close>

lemma vol_clean: "fs_inv sectors good fs \<Longrightarrow> wflag fs = 0 \<Longrightarrow> vol sectors fs = sectors (disk fs)"
  by (auto simp: fs_inv_def vol_def fun_eq_iff)

lemma sync_ok:
  assumes "fs_inv sectors good fs"
  shows "\<exists>r gs. sync dev fs = Some (r, gs) \<and> fs_inv sectors good gs \<and> same_volume fs gs
    \<and> (r = FR_OK \<longrightarrow> wflag gs = 0 \<and> (\<forall>x. x \<notin> mirror fs \<longrightarrow> \<not> info_sector fs x \<longrightarrow> sectors (disk gs) x = vol sectors fs x))"
proof -
  obtain r g where g: "move_window dev 0 fs = Some (r, g)" "wstep fs g" "r = FR_OK \<Longrightarrow> wflag g = 0"
    using move_window_ok [OF assms, of 0] by auto
  have inv: "fs_inv sectors good g" "only_window fs g" and v: "\<And>x. x \<notin> mirror fs \<Longrightarrow> vol sectors g x = vol sectors fs x"
    using g(2) by (auto simp: wstep_def)
  have sv: "same_volume fs g" using only_window_volume [OF inv(2)] .
  show ?thesis
  proof (cases "r = FR_OK")
    case False
    then have "sync dev fs = Some (r, g)" using g(1) by (simp add: sync_def)
    then show ?thesis using False inv sv by simp
  next
    case True
    note c = g(3) [OF True] and vc = vol_clean [OF inv(1) g(3) [OF True]]
    show ?thesis
    proof (cases "fs_type g = FS_FAT32 \<and> fsi_flag g \<noteq> 0")
      case False
      then have "sync dev fs = Some (FR_OK, g)" using g(1) True sync_law by (auto simp: sync_def)
      then show ?thesis using inv sv c v by (simp add: vc)
    next
      case fat32: True
      let ?w = "fsinfo (free_clust g) (last_clust g)"
      have len: "length ?w = 512" by (simp add: fsinfo_def)
      obtain q d where d: "d_write dev ?w (fsi_sector g) 1 (disk g) = Some (q, d)" "good d"
        "\<And>x. x \<noteq> fsi_sector g \<Longrightarrow> sectors d x = sectors (disk g) x"
        using write1 [of "disk g" ?w] inv(1) len by (metis fs_inv_def)
      let ?h = "g\<lparr>winsect := 0, win := ?w, disk := d, fsi_flag := 0\<rparr>"
      have "sync dev fs = Some (FR_OK, ?h)" using g(1) True sync_law fat32 d(1) by (simp add: sync_def)
      moreover have "fs_inv sectors good ?h" using inv(1) d(2) len c by (simp add: fs_inv_def)
      moreover have "same_volume fs ?h" using sv by (simp add: same_volume_def)
      moreover have "x \<noteq> fsi_sector g" if "\<not> info_sector fs x" for x
        using that fat32 unfolding info_sector_volume [OF sv, symmetric] by (simp add: info_sector_def)
      ultimately show ?thesis using c v d(3) by (simp add: vc)
    qed
  qed
qed

lemma length_sync_entry [simp]: "length (sync_entry fp w) = length w"
  by (simp add: sync_entry_def Let_def)

lemma f_close_ok:
  assumes "fs_inv sectors good fs" "fatbase fs \<noteq> 0" "fatbase fs \<le> dir_sect fp" "dir_sect fp \<notin> mirror fs" "dir_sect fp \<noteq> fsi_sector fs"
  shows "\<exists>r fp' gs. f_close dev fp fs = Some (r, fp', gs) \<and> fs_inv sectors good gs \<and> same_volume fs gs
    \<and> (r = FR_OK \<longrightarrow> flag fp AND FA__WRITTEN \<noteq> 0 \<longrightarrow> \<not> f_fs fp' \<and> wflag gs = 0
        \<and> sectors (disk gs) (dir_sect fp) = sync_entry fp (vol sectors fs (dir_sect fp))
        \<and> (\<forall>x. x \<notin> mirror fs \<longrightarrow> \<not> info_sector fs x \<longrightarrow> x \<noteq> dir_sect fp \<longrightarrow> sectors (disk gs) x = vol sectors fs x))"
proof (cases "validate dev fp fs = FR_OK \<and> flag fp AND FA__WRITTEN \<noteq> 0")
  case False
  then have "f_close dev fp fs = Some (validate dev fp fs, if validate dev fp fs = FR_OK then fp\<lparr>f_fs := False\<rparr> else fp, fs)"
    by (auto simp: f_close_def f_sync_def Let_def)
  then show ?thesis using False assms(1) by auto
next
  case True
  have nz: "dir_sect fp \<noteq> 0" using assms(2,3) by auto
  obtain r g where g: "move_window dev (dir_sect fp) fs = Some (r, g)" "wstep fs g" "r = FR_OK \<Longrightarrow> winsect g = dir_sect fp"
    using move_window_ok [OF assms(1), of "dir_sect fp"] assms(3) nz by auto
  have inv: "fs_inv sectors good g" "only_window fs g" and v: "\<And>x. x \<notin> mirror fs \<Longrightarrow> vol sectors g x = vol sectors fs x"
    using g(2) by (auto simp: wstep_def)
  note sv = only_window_volume [OF inv(2)]
  show ?thesis
  proof (cases "r = FR_OK")
    case False
    then have "f_close dev fp fs = Some (r, fp, g)" using True g(1) by (simp add: f_close_def f_sync_def Let_def)
    then show ?thesis using False inv sv by simp
  next
    case ok: True
    define h where "h = (win_upd (sync_entry fp) g)\<lparr>wflag := 1\<rparr>"
    have ws: "winsect g = dir_sect fp" "length (win g) = 512" using g(3) [OF ok] inv(1) by (simp_all add: fs_inv_def)
    have hi: "fs_inv sectors good h" using inv(1) ws nz by (simp add: h_def fs_inv_def win_upd_def)
    have hv: "vol sectors h x = (if x = dir_sect fp then sync_entry fp (vol sectors fs x) else vol sectors g x)" for x
      using ws nz v [OF assms(4)] by (simp add: h_def vol_def win_upd_def)
    have hs: "same_volume g h" "mirror h = mirror fs" "info_sector h = info_sector fs"
      using sv by (simp_all add: h_def same_volume_def win_upd_def mirror_def info_sector_def fun_eq_iff)
    obtain q k where k: "sync dev h = Some (q, k)" "fs_inv sectors good k" "same_volume h k"
      "q = FR_OK \<Longrightarrow> wflag k = 0 \<and> (\<forall>x. x \<notin> mirror fs \<longrightarrow> \<not> info_sector fs x \<longrightarrow> sectors (disk k) x = vol sectors h x)"
      using sync_ok [OF hi] hs by auto
    have run: "f_close dev fp fs = Some (q, if q = FR_OK then fp\<lparr>flag := flag fp AND NOT FA__WRITTEN, f_fs := False\<rparr>
        else fp\<lparr>flag := flag fp AND NOT FA__WRITTEN\<rparr>, k)"
      using True g(1) ok k(1) by (simp add: f_close_def f_sync_def Let_def flip: h_def)
    have "same_volume fs k" using sv hs(1) k(3) same_volume_trans by blast
    then show ?thesis unfolding run using k(2,4) hv v assms(4,5) by (auto simp: info_sector_def)
  qed
qed

end

section \<open>The directory entry\<close>

lemma word_halves: "push_bit 16 (ucast (ucast (drop_bit 16 v) :: u16)) OR ucast (ucast v :: u16) = v" for v :: u32
  by (rule bit_word_eqI) (auto simp: bit_simps)

lemma sync_entry_fields:
  assumes "dir_ptr fp + 32 \<le> length w"
  shows "LD_DWORD (sync_entry fp w) (dir_ptr fp + DIR_FileSize) = fsize fp"
    "start_cluster (sync_entry fp w) (dir_ptr fp) = org_clust fp"
    "sync_entry fp w ! (dir_ptr fp + DIR_Attr) AND AM_ARC \<noteq> 0"
proof -
  let ?d = "dir_ptr fp" and ?w = "sync_entry fp w"
  have "le32 (?w ! (?d + 28)) (?w ! (?d + 29)) (?w ! (?d + 30)) (?w ! (?d + 31)) = fsize fp"
    using assms by (simp add: sync_entry_def Let_def ST_WORD_def ST_DWORD_def nth_list_update le32_split)
  then show "LD_DWORD ?w (?d + DIR_FileSize) = fsize fp" by (simp add: LD_DWORD_def le32_def ac_simps)
  have "le16 (?w ! (?d + 20)) (?w ! (?d + 21)) = ucast (drop_bit 16 (org_clust fp))"
    "le16 (?w ! (?d + 26)) (?w ! (?d + 27)) = ucast (org_clust fp)"
    using assms by (simp_all add: sync_entry_def Let_def ST_WORD_def ST_DWORD_def nth_list_update le16_split)
  then show "start_cluster ?w ?d = org_clust fp"
    by (simp add: start_cluster_def LD_WORD_def le16_def ac_simps word_halves [simplified ac_simps])
  have "?w ! (?d + DIR_Attr) = w ! (?d + DIR_Attr) OR AM_ARC"
    using assms by (simp add: sync_entry_def Let_def ST_WORD_def ST_DWORD_def nth_list_update)
  moreover have "(x OR AM_ARC) AND AM_ARC = AM_ARC" for x by (rule bit_word_eqI) (auto simp: bit_simps)
  ultimately show "?w ! (?d + DIR_Attr) AND AM_ARC \<noteq> 0" by simp
qed

section \<open>Closing a file on the card\<close>

text \<open>
  C16: closing a file that was written, with the result \<open>FR_OK\<close>: on the card (not only in the window) the
  directory entry has the archive bit, the size and the first cluster of the file object, and every other
  sector outside the mirror copies of the table and the FSInfo sector is as the file system last saw it.
\<close>

theorem f_close_stores:
  fixes fs :: "'a disk_st_scheme fatfs"
  assumes "fs_inv image (disk_ok ev ba) fs" "fatbase fs \<noteq> 0" "fatbase fs \<le> dir_sect fp" "dir_sect fp \<notin> mirror fs"
    and "dir_sect fp \<noteq> fsi_sector fs" "dir_ptr fp + 32 \<le> 512" "flag fp AND FA__WRITTEN \<noteq> 0"
  shows "\<exists>r fp' gs. f_close (sd_device ev torn ba) fp fs = Some (r, fp', gs)
    \<and> (r = FR_OK \<longrightarrow> \<not> f_fs fp'
        \<and> LD_DWORD (image (disk gs) (dir_sect fp)) (dir_ptr fp + DIR_FileSize) = fsize fp
        \<and> start_cluster (image (disk gs) (dir_sect fp)) (dir_ptr fp) = org_clust fp
        \<and> image (disk gs) (dir_sect fp) ! (dir_ptr fp + DIR_Attr) AND AM_ARC \<noteq> 0
        \<and> (\<forall>x. x \<notin> mirror fs \<longrightarrow> \<not> info_sector fs x \<longrightarrow> x \<noteq> dir_sect fp \<longrightarrow> image (disk gs) x = vol image fs x))"
proof -
  obtain r fp' gs where run: "f_close (sd_device ev torn ba) fp fs = Some (r, fp', gs)"
    "r = FR_OK \<longrightarrow> flag fp AND FA__WRITTEN \<noteq> 0 \<longrightarrow> \<not> f_fs fp' \<and> wflag gs = 0
        \<and> image (disk gs) (dir_sect fp) = sync_entry fp (vol image fs (dir_sect fp))
        \<and> (\<forall>x. x \<notin> mirror fs \<longrightarrow> \<not> info_sector fs x \<longrightarrow> x \<noteq> dir_sect fp \<longrightarrow> image (disk gs) x = vol image fs x)"
    using sd.f_close_ok [OF assms(1-5), of torn] by blast
  have "length (vol image fs (dir_sect fp)) = 512"
    using assms(1) sd.sector_size [of ev ba "disk fs"] by (auto simp: vol_def fs_inv_def)
  then show ?thesis using run assms(6,7) sync_entry_fields [of fp "vol image fs (dir_sect fp)"] by auto
qed

definition written_file :: FIL where
  "written_file = small_file\<lparr>flag := 0x23, fptr := 512, fsize := 512, csect := 1, org_clust := 4, curr_clust := 4\<rparr>"

theorem f_close_stores_witness:
  "\<exists>r fp' gs. f_close (sd_device done_env (\<lambda>_. []) 0x10000000) written_file (small_fs FS_FAT16 chain_table) = Some (r, fp', gs)
    \<and> (r = FR_OK \<longrightarrow> LD_DWORD (image (disk gs) 3) 28 = 512 \<and> start_cluster (image (disk gs) 3) 0 = 4
        \<and> image (disk gs) 1 = chain_table)"
proof -
  have "fatbase (small_fs FS_FAT16 chain_table) \<noteq> 0" "fatbase (small_fs FS_FAT16 chain_table) \<le> dir_sect written_file"
    "dir_sect written_file \<notin> mirror (small_fs FS_FAT16 chain_table)" "dir_sect written_file \<noteq> fsi_sector (small_fs FS_FAT16 chain_table)"
    "dir_ptr written_file + 32 \<le> 512" "flag written_file AND FA__WRITTEN \<noteq> 0"
    by (simp_all add: small_fs_def written_file_def small_file_def mirror_def)
  from f_close_stores [OF _ this, where ev = done_env and ba = "0x10000000" and torn = "\<lambda>_. []"]
  obtain r fp' gs where run: "f_close (sd_device done_env (\<lambda>_. []) 0x10000000) written_file (small_fs FS_FAT16 chain_table) = Some (r, fp', gs)"
    "r = FR_OK \<longrightarrow> LD_DWORD (image (disk gs) (dir_sect written_file)) (dir_ptr written_file + DIR_FileSize) = fsize written_file
        \<and> start_cluster (image (disk gs) (dir_sect written_file)) (dir_ptr written_file) = org_clust written_file
        \<and> (\<forall>x. x \<notin> mirror (small_fs FS_FAT16 chain_table) \<longrightarrow> \<not> info_sector (small_fs FS_FAT16 chain_table) x
             \<longrightarrow> x \<noteq> dir_sect written_file \<longrightarrow> image (disk gs) x = vol image (small_fs FS_FAT16 chain_table) x)"
    using small_fs_ok(1) [of chain_table FS_FAT16] by (auto simp: chain_table_def)
  have "dir_sect written_file = 3" "dir_ptr written_file = 0" "fsize written_file = 512" "org_clust written_file = 4"
    "1 \<notin> mirror (small_fs FS_FAT16 chain_table)" "\<not> info_sector (small_fs FS_FAT16 chain_table) 1"
    "vol image (small_fs FS_FAT16 chain_table) 1 = chain_table"
    by (simp_all add: written_file_def small_file_def small_fs_def mirror_def vol_def info_sector_def)
  then show ?thesis using run by fastforce
qed

end
