(* ===== verification/DirSearch.thy ===== *)
theory DirSearch
  imports FatClose
begin

text \<open>
  Directories: the slots of a directory in order, and that \<^verbatim>\<open>dir_find\<close> of \<^verbatim>\<open>armboot/storage/ff.c\<close> finds the first
  slot with the name it looks for and reports no file when there is none before the end mark.
\<close>

section \<open>The slots of a directory\<close>

text \<open>
  A directory is the root of a FAT12 or FAT16 volume (start cluster 0), a run of sectors in front of the data
  area, or a chain of clusters. A cluster has a power of two of sectors.
\<close>

definition pow2_cluster :: "'d fatfs \<Rightarrow> bool" where
  "pow2_cluster fs \<longleftrightarrow> (\<exists>k < 8. unat (csize fs) = 2 ^ k)"

definition root_slots :: "'d fatfs \<Rightarrow> nat" where
  "root_slots fs = 16 * ((unat (n_rootdir fs) + 15) div 16)"

definition dir_ok :: "(u32 \<Rightarrow> u32) \<Rightarrow> 'd fatfs \<Rightarrow> u32 \<Rightarrow> u32 list \<Rightarrow> bool" where
  "dir_ok nx fs sc cs \<longleftrightarrow> pow2_cluster fs \<and>
    (if sc = 0 then cs = [] \<and> n_rootdir fs \<noteq> 0 \<and> unat (dirbase fs) + root_slots fs div 16 \<le> unat (database fs)
       \<and> unat (fatbase fs) + unat (n_fats fs) * unat (sects_fat fs) \<le> unat (dirbase fs)
     else cs \<noteq> [] \<and> chain nx (max_clust fs) sc cs)"

definition slot_count :: "'d fatfs \<Rightarrow> u32 \<Rightarrow> u32 list \<Rightarrow> nat" where
  "slot_count fs sc cs = (if sc = 0 then root_slots fs else 16 * length (chain_sectors fs cs))"

text \<open>The index of a directory has 16 bits.\<close>

definition slots :: "'d fatfs \<Rightarrow> u32 \<Rightarrow> u32 list \<Rightarrow> nat" where
  "slots fs sc cs = min 65536 (slot_count fs sc cs)"

definition slot_sector :: "'d fatfs \<Rightarrow> u32 \<Rightarrow> u32 list \<Rightarrow> nat \<Rightarrow> u32" where
  "slot_sector fs sc cs i = (if sc = 0 then dirbase fs + of_nat (i div 16) else chain_sectors fs cs ! (i div 16))"

definition at_slot :: "'d fatfs \<Rightarrow> u32 list \<Rightarrow> nat \<Rightarrow> DIR \<Rightarrow> bool" where
  "at_slot fs cs i dj \<longleftrightarrow> i < slots fs (sclust dj) cs \<and> dj_index dj = of_nat i
     \<and> dj_sect dj = slot_sector fs (sclust dj) cs i \<and> dj_dir dj = Some (i mod 16 * 32)
     \<and> (sclust dj \<noteq> 0 \<longrightarrow> clust dj = cs ! (i div 16 div unat (csize fs)))"

lemma csize_bounds:
  assumes "pow2_cluster fs"
  shows "0 < unat (csize fs)" "unat (csize fs) \<le> 128"
proof -
  obtain k where k: "k < 8" "unat (csize fs) = 2 ^ k" using assms by (auto simp: pow2_cluster_def)
  then have "(2 :: nat) ^ k \<le> 2 ^ 7" by (intro power_increasing) auto
  then show "0 < unat (csize fs)" "unat (csize fs) \<le> 128" using k by simp_all
qed

lemma nth_chain_sectors:
  "j < length cs * unat (csize fs) \<Longrightarrow>
   chain_sectors fs cs ! j = clust2sect (cs ! (j div unat (csize fs))) fs + of_nat (j mod unat (csize fs))"
proof (induction cs arbitrary: j)
  case (Cons c cs)
  let ?n = "unat (csize fs)"
  have split: "chain_sectors fs (c # cs) = cluster_sectors fs c @ chain_sectors fs cs" by (simp add: chain_sectors_def)
  show ?case
  proof (cases "j < ?n")
    case True
    then show ?thesis unfolding split by (simp add: nth_append cluster_sectors_def)
  next
    case False
    have "0 < ?n" using Cons.prems by (cases "?n = 0") auto
    obtain m where m: "j = ?n + m" using False by (metis not_less le_Suc_ex)
    have "(?n + m) div ?n = Suc (m div ?n)" using \<open>0 < ?n\<close> by (simp add: div_add_self1)
    then show ?thesis using Cons.IH [of m] Cons.prems unfolding split m by (simp add: nth_append)
  qed
qed simp

lemma slots_mod: "slot_count fs sc cs mod 16 = 0"
  by (simp add: slot_count_def root_slots_def)

lemma slot_sector_ok:
  assumes "dir_ok nx fs sc cs" "table_ok fs" "data_ok fs" "i < slot_count fs sc cs"
  shows "slot_sector fs sc cs i \<noteq> 0" "fatbase fs \<le> slot_sector fs sc cs i" "slot_sector fs sc cs i \<notin> fat_area fs"
proof -
  have fb: "0 < unat (fatbase fs)" using assms(2) by (simp add: table_ok_def unat_gt_0)
  have "unat (fatbase fs) + unat (n_fats fs) * unat (sects_fat fs) \<le> unat (slot_sector fs sc cs i)"
  proof (cases "sc = 0")
    case True
    then have d: "unat (dirbase fs) + root_slots fs div 16 < 2 ^ 32"
      "unat (fatbase fs) + unat (n_fats fs) * unat (sects_fat fs) \<le> unat (dirbase fs)"
      using assms(1,3) by (simp_all add: dir_ok_def data_ok_def)
    have "i div 16 \<le> root_slots fs div 16" using assms(4) True by (intro div_le_mono) (simp add: slot_count_def)
    then have "unat (dirbase fs + of_nat (i div 16)) = unat (dirbase fs) + i div 16"
      using d(1) by (simp add: unat_word_ariths unat_of_nat)
    then show ?thesis using True d(2) by (simp add: slot_sector_def)
  next
    case False
    then have "chain nx (max_clust fs) sc cs" using assms(1) by (simp add: dir_ok_def)
    then have no: "cluster_no fs c" if "c \<in> set cs" for c using chain_members that by (fastforce simp: cluster_no_def)
    have "i div 16 < length (chain_sectors fs cs)" using assms(4) False by (simp add: slot_count_def)
    then have "slot_sector fs sc cs i \<in> set (chain_sectors fs cs)" using False by (simp add: slot_sector_def)
    then obtain c where "c \<in> set cs" "slot_sector fs sc cs i \<in> set (cluster_sectors fs c)" by (auto simp: chain_sectors_def)
    then have "database fs \<le> slot_sector fs sc cs i" using sector_outside_tables(2) [OF assms(3) no] by blast
    then show ?thesis using assms(3) by (simp add: data_ok_def word_le_nat_alt)
  qed
  then show "slot_sector fs sc cs i \<noteq> 0" "fatbase fs \<le> slot_sector fs sc cs i" "slot_sector fs sc cs i \<notin> fat_area fs"
    using fb by (auto simp: word_le_nat_alt fat_area_def)
qed

lemma mask_mod:
  assumes "pow2_cluster fs" "j < 65536"
  shows "ucast (of_nat j :: u16) AND (ucast (csize fs) - 1) = (0 :: u32) \<longleftrightarrow> j mod unat (csize fs) = 0"
proof -
  obtain k where k: "k < 8" "unat (csize fs) = 2 ^ k" using assms(1) by (auto simp: pow2_cluster_def)
  have "ucast (csize fs) = (of_nat (unat (csize fs)) :: u32)" by simp
  then have c: "ucast (csize fs) - 1 = (mask k :: u32)" unfolding k(2) by (simp add: mask_eq_exp_minus_1)
  have u: "unat (ucast (of_nat j :: u16) :: u32) = j"
    using assms(2) by (simp add: unsigned_ucast_eq unat_of_nat take_bit_nat_eq_self)
  have "ucast (of_nat j :: u16) AND (ucast (csize fs) - 1) = (0 :: u32)
      \<longleftrightarrow> unat (ucast (of_nat j :: u16) AND mask k :: u32) = 0"
    unfolding c by (simp only: unat_eq_zero)
  also have "\<dots> \<longleftrightarrow> j mod unat (csize fs) = 0" by (simp only: unat_and_mask u k(2))
  finally show ?thesis .
qed

section \<open>Moving from slot to slot\<close>

lemma chain_nth_next:
  "chain nx m c cs \<Longrightarrow> q < length cs \<Longrightarrow> if Suc q < length cs then nx (cs ! q) = cs ! Suc q else m \<le> nx (cs ! q)"
proof (induction cs arbitrary: c q)
  case (Cons x xs)
  show ?case
  proof (cases q)
    case 0
    then show ?thesis using Cons.prems by (cases xs) auto
  next
    case (Suc p)
    then show ?thesis using Cons.IH [of "nx c" p] Cons.prems by simp
  qed
qed simp

lemma entry_ofs_slot: "i < 65536 \<Longrightarrow> entry_ofs (of_nat i) = i mod 16 * 32"
  by (simp add: entry_ofs_def unat_mod unat_of_nat)

lemma index_succ: "of_nat i + 1 = (of_nat (Suc i) :: u16)" "Suc i < 65536 \<Longrightarrow> (of_nat (Suc i) :: u16) \<noteq> 0"
  "(of_nat 65536 :: u16) = 0"
proof -
  show "of_nat i + 1 = (of_nat (Suc i) :: u16)" by (simp add: add.commute)
  show "Suc i < 65536 \<Longrightarrow> (of_nat (Suc i) :: u16) \<noteq> 0"
    by (simp only: word_unat_eq_iff unat_of_nat) simp
qed simp

lemma index_div: "i < 65536 \<Longrightarrow> (of_nat i :: u16) div 16 = of_nat (i div 16)"
  "i < 65536 \<Longrightarrow> (of_nat i :: u16) mod 16 = 0 \<longleftrightarrow> i mod 16 = 0"
  "i < 65536 \<Longrightarrow> unat (of_nat i :: u16) = i"
  by (simp_all add: word_unat_eq_iff unat_div unat_mod unat_of_nat)

context block_device
begin

text \<open>Within the directory: the next slot, or a disk error on the way to the next cluster.\<close>

lemma dir_next_inside:
  assumes "fs_inv sectors good fs" "table_ok fs" "data_ok fs" "dir_ok (fat_entry sectors fs) fs (sclust dj) cs"
    and "at_slot fs cs i dj" "Suc i < slots fs (sclust dj) cs"
  shows "\<exists>r dj' gs. dir_next dev dj st fs = Some (r, dj', gs) \<and> wstep fs gs \<and> dj_fn dj' = dj_fn dj \<and> sclust dj' = sclust dj
    \<and> (r = FR_OK \<and> at_slot gs cs (Suc i) dj' \<or> r = FR_DISK_ERR)"
proof -
  let ?sc = "sclust dj" and ?n = "unat (csize fs)"
  note d = assms(4) [unfolded dir_ok_def]
  note n = csize_bounds [OF d [THEN conjunct1]]
  have i: "Suc i < 65536" "Suc i < slot_count fs ?sc cs" using assms(6) by (simp_all add: slots_def)
  note at = assms(5) [unfolded at_slot_def]
  have nz: "dj_sect dj \<noteq> 0" using slot_sector_ok(1) [OF assms(4,2,3)] at i(2) by (simp add: slots_def)
  have idx: "dj_index dj + 1 = of_nat (Suc i)" "(of_nat (Suc i) :: u16) \<noteq> 0"
    using at index_succ(1) [of i] index_succ(2) [OF i(1)] by argo+
  have refl: "wstep fs fs" using assms(1) by (rule wstep_refl)
  have move: "at_slot fs cs (Suc i) (dj2\<lparr>dj_index := of_nat (Suc i), dj_dir := Some (entry_ofs (of_nat (Suc i)))\<rparr>)"
    if "sclust dj2 = ?sc" "dj_sect dj2 = slot_sector fs ?sc cs (Suc i)"
      "?sc \<noteq> 0 \<longrightarrow> clust dj2 = cs ! (Suc i div 16 div ?n)" for dj2
    using that assms(6) entry_ofs_slot [OF i(1)] by (simp add: at_slot_def)
  show ?thesis
  proof (cases "Suc i mod 16 = 0")
    case False
    then have same: "Suc i div 16 = i div 16" by (simp add: div_Suc)
    have "dir_next dev dj st fs = Some (FR_OK, dj\<lparr>dj_index := of_nat (Suc i), dj_dir := Some (entry_ofs (of_nat (Suc i)))\<rparr>, fs)"
      using nz idx index_div(2) [OF i(1)] False unfolding dir_next_def idx by (simp add: Let_def)
    moreover have "dj_sect dj = slot_sector fs ?sc cs (Suc i)" using at same by (simp add: slot_sector_def)
    then have "at_slot fs cs (Suc i) (dj\<lparr>dj_index := of_nat (Suc i), dj_dir := Some (entry_ofs (of_nat (Suc i)))\<rparr>)"
      using at same by (intro move) auto
    ultimately show ?thesis using refl by simp
  next
    case True
    then have succ: "Suc i div 16 = Suc (i div 16)" by (simp add: div_Suc)
    obtain m where m16: "Suc i = 16 * m" using True by (auto simp: mod_eq_0_iff_dvd elim: dvdE)
    show ?thesis
    proof (cases "?sc = 0")
      case root: True
      have "unat (n_rootdir fs) > Suc i"
      proof -
        have "Suc i div 16 < (unat (n_rootdir fs) + 15) div 16"
          using i(2) root unfolding m16 by (simp add: slot_count_def root_slots_def)
        then have "16 * (Suc i div 16) + 16 \<le> unat (n_rootdir fs) + 15" by linarith
        then show ?thesis using True by auto
      qed
      then have "\<not> n_rootdir fs \<le> of_nat (Suc i)" using index_div(3) [OF i(1)] by (simp add: word_le_nat_alt del: of_nat_Suc)
      then have "dir_next dev dj st fs = Some (FR_OK, dj\<lparr>dj_sect := dj_sect dj + 1, dj_index := of_nat (Suc i),
          dj_dir := Some (entry_ofs (of_nat (Suc i)))\<rparr>, fs)"
        using nz idx index_div(2) [OF i(1)] True root unfolding dir_next_def idx by (simp add: Let_def del: of_nat_Suc)
      moreover have "at_slot fs cs (Suc i) (dj\<lparr>dj_sect := dj_sect dj + 1, dj_index := of_nat (Suc i),
          dj_dir := Some (entry_ofs (of_nat (Suc i)))\<rparr>)"
        using move [of "dj\<lparr>dj_sect := dj_sect dj + 1\<rparr>"] at root succ by (simp add: slot_sector_def)
      ultimately show ?thesis using refl by fastforce
    next
      case chain: False
      have ch: "chain (fat_entry sectors fs) (max_clust fs) ?sc cs" using d chain by simp
      let ?j = "Suc (i div 16)"
      have j: "?j < length cs * ?n" "i div 16 < length cs * ?n"
        using i(2) chain succ unfolding m16 by (simp_all add: slot_count_def)
      have sect: "dj_sect dj = clust2sect (cs ! (i div 16 div ?n)) fs + of_nat (i div 16 mod ?n)"
        using at chain nth_chain_sectors [OF j(2)] by (simp add: slot_sector_def)
      have sect': "slot_sector fs ?sc cs (Suc i) = clust2sect (cs ! (?j div ?n)) fs + of_nat (?j mod ?n)"
        using chain nth_chain_sectors [OF j(1)] succ by (simp add: slot_sector_def)
      have m: "ucast ((of_nat (Suc i) :: u16) div 16) AND (ucast (csize fs) - 1) = (0 :: u32) \<longleftrightarrow> ?j mod ?n = 0"
        using mask_mod [OF d [THEN conjunct1], of ?j] i(1) unfolding index_div(1) [OF i(1)] succ
        by (simp del: of_nat_Suc)
      show ?thesis
      proof (cases "?j mod ?n = 0")
        case False
        then have s: "?j div ?n = i div 16 div ?n" "?j mod ?n = Suc (i div 16 mod ?n)"
          by (simp_all add: div_Suc mod_Suc split: if_splits)
        have "dir_next dev dj st fs = Some (FR_OK, dj\<lparr>dj_sect := dj_sect dj + 1, dj_index := of_nat (Suc i),
            dj_dir := Some (entry_ofs (of_nat (Suc i)))\<rparr>, fs)"
          using nz idx index_div(2) [OF i(1)] True chain m False unfolding dir_next_def idx
          by (simp add: Let_def del: of_nat_Suc)
        moreover have "at_slot fs cs (Suc i) (dj\<lparr>dj_sect := dj_sect dj + 1, dj_index := of_nat (Suc i),
            dj_dir := Some (entry_ofs (of_nat (Suc i)))\<rparr>)"
          using move [of "dj\<lparr>dj_sect := dj_sect dj + 1\<rparr>"] at chain succ s sect sect' by simp
        ultimately show ?thesis using refl by fastforce
      next
        case border: True
        let ?q = "i div 16 div ?n"
        have s: "?j div ?n = Suc ?q" using border by (simp add: div_Suc)
        have q: "Suc ?q < length cs"
        proof -
          have "?j div ?n < length cs" using j(1) n(1) by (simp add: div_less_iff_less_mult)
          then show ?thesis by (simp only: s)
        qed
        have mem: "cluster_no fs (cs ! ?q)" "cluster_no fs (cs ! Suc ?q)"
          using chain_members [OF ch] q by (simp_all add: cluster_no_def)
        have link: "fat_entry sectors fs (cs ! ?q) = cs ! Suc ?q" using chain_nth_next [OF ch, of ?q] q by simp
        obtain v gs where g: "get_cluster dev (cs ! ?q) fs = Some (v, gs)" "wstep fs gs"
          "v = cs ! Suc ?q \<or> v = 0xFFFFFFFF"
          using get_cluster_ok [OF assms(1,2) mem(1)] link by metis
        have ow: "only_window fs gs" using g(2) by (simp add: wstep_def)
        note sv = same_volume_keeps [OF only_window_volume [OF ow]] same_volume_cong [OF only_window_volume [OF ow]]
        have cl: "clust dj = cs ! ?q" using at chain by simp
        show ?thesis
        proof (cases "v = 0xFFFFFFFF")
          case True
          then have "next_dir_cluster dev (clust dj) st fs = Some (Inl FR_DISK_ERR, gs)"
            using g(1) cl by (simp add: next_dir_cluster_def word_le_nat_alt)
          then have "dir_next dev dj st fs = Some (FR_DISK_ERR, dj\<lparr>dj_sect := dj_sect dj + 1\<rparr>, gs)"
            using nz idx index_div(2) [OF i(1)] \<open>Suc i mod 16 = 0\<close> chain m border unfolding dir_next_def idx
            by (simp add: Let_def del: of_nat_Suc)
          then show ?thesis using g(2) by simp
        next
          case False
          then have v: "v = cs ! Suc ?q" "\<not> v \<le> 1" "\<not> max_clust gs \<le> v"
            using g(3) mem(2) sv by (auto simp: cluster_no_def word_le_nat_alt word_less_nat_alt)
          then have "next_dir_cluster dev (clust dj) st fs = Some (Inr v, gs)"
            using g(1) cl False by (simp add: next_dir_cluster_def)
          then have "dir_next dev dj st fs = Some (FR_OK, dj\<lparr>clust := v, dj_sect := clust2sect v gs, dj_index := of_nat (Suc i),
              dj_dir := Some (entry_ofs (of_nat (Suc i)))\<rparr>, gs)"
            using nz idx index_div(2) [OF i(1)] \<open>Suc i mod 16 = 0\<close> chain m border unfolding dir_next_def idx
            by (simp add: Let_def del: of_nat_Suc)
          moreover have "at_slot fs cs (Suc i) (dj\<lparr>clust := v, dj_sect := clust2sect v gs, dj_index := of_nat (Suc i),
              dj_dir := Some (entry_ofs (of_nat (Suc i)))\<rparr>)"
            using move [of "dj\<lparr>clust := v, dj_sect := clust2sect v gs\<rparr>"] chain succ s sect' border v(1) sv by simp
          moreover have "at_slot gs cs k dj2 = at_slot fs cs k dj2" for k dj2
            using only_window_fields [OF ow] sv
            by (simp add: at_slot_def slots_def slot_count_def slot_sector_def root_slots_def)
          ultimately show ?thesis using g(2) by fastforce
        qed
      qed
    qed
  qed
qed

text \<open>After the last slot: no file, or a disk error. A chain is not stretched.\<close>

lemma dir_next_end:
  assumes "fs_inv sectors good fs" "table_ok fs" "data_ok fs" "dir_ok (fat_entry sectors fs) fs (sclust dj) cs"
    and "at_slot fs cs i dj" "Suc i = slots fs (sclust dj) cs" "\<not> st \<or> sclust dj = 0 \<or> Suc i = 65536"
  shows "\<exists>r dj' gs. dir_next dev dj st fs = Some (r, dj', gs) \<and> wstep fs gs \<and> dj_fn dj' = dj_fn dj \<and> sclust dj' = sclust dj
    \<and> r \<in> {FR_NO_FILE, FR_DISK_ERR}"
proof -
  let ?sc = "sclust dj" and ?n = "unat (csize fs)"
  note d = assms(4) [unfolded dir_ok_def]
  note n = csize_bounds [OF d [THEN conjunct1]]
  note at = assms(5) [unfolded at_slot_def]
  have refl: "wstep fs fs" using assms(1) by (rule wstep_refl)
  show ?thesis
  proof (cases "Suc i = 65536")
    case True
    have "dj_index dj + 1 = 0" using at index_succ(1) [of i] index_succ(3) unfolding True by argo
    then have "dir_next dev dj st fs = Some (FR_NO_FILE, dj, fs)" by (simp add: dir_next_def Let_def)
    then show ?thesis using refl by simp
  next
    case False
    then have i: "Suc i < 65536" "Suc i = slot_count fs ?sc cs" using assms(6) by (auto simp: slots_def)
    have nz: "dj_sect dj \<noteq> 0" using slot_sector_ok(1) [OF assms(4,2,3), of i] at i(2) by simp
    have idx: "dj_index dj + 1 = of_nat (Suc i)" "(of_nat (Suc i) :: u16) \<noteq> 0"
      using at index_succ(1) [of i] index_succ(2) [OF i(1)] by argo+
    have m0: "Suc i mod 16 = 0" unfolding i(2) by (rule slots_mod)
    then have succ: "Suc i div 16 = Suc (i div 16)" by (simp add: div_Suc)
    show ?thesis
    proof (cases "?sc = 0")
      case True
      have "unat (n_rootdir fs) \<le> Suc i" unfolding i(2) using True by (simp add: slot_count_def root_slots_def)
      then have "n_rootdir fs \<le> of_nat (Suc i)" using index_div(3) [OF i(1)] by (simp add: word_le_nat_alt del: of_nat_Suc)
      then have "dir_next dev dj st fs = Some (FR_NO_FILE, dj\<lparr>dj_sect := dj_sect dj + 1\<rparr>, fs)"
        using nz idx index_div(2) [OF i(1)] m0 True unfolding dir_next_def idx by (simp add: Let_def del: of_nat_Suc)
      then show ?thesis using refl by simp
    next
      case chain: False
      have ch: "chain (fat_entry sectors fs) (max_clust fs) ?sc cs" using d chain by simp
      let ?j = "Suc (i div 16)"
      have j: "?j = length cs * ?n" using i(2) succ chain by (simp add: slot_count_def)
      have "ucast ((of_nat (Suc i) :: u16) div 16) AND (ucast (csize fs) - 1) = (0 :: u32) \<longleftrightarrow> ?j mod ?n = 0"
        using mask_mod [OF d [THEN conjunct1], of ?j] i(1) unfolding index_div(1) [OF i(1)] succ
        by (simp del: of_nat_Suc)
      then have m: "ucast ((of_nat (Suc i) :: u16) div 16) AND (ucast (csize fs) - 1) = (0 :: u32)" by (simp add: j)
      let ?q = "i div 16 div ?n"
      have "?j div ?n = length cs" unfolding j using n(1) by simp
      moreover have "?j mod ?n = 0" by (simp add: j)
      ultimately have q: "Suc ?q = length cs" by (simp add: div_Suc)
      have mem: "cluster_no fs (cs ! ?q)" using chain_members [OF ch] q by (simp add: cluster_no_def)
      have last: "max_clust fs \<le> fat_entry sectors fs (cs ! ?q)" using chain_nth_next [OF ch, of ?q] q by simp
      obtain v gs where g: "get_cluster dev (cs ! ?q) fs = Some (v, gs)" "wstep fs gs"
        "v = fat_entry sectors fs (cs ! ?q) \<or> v = 0xFFFFFFFF"
        using get_cluster_ok [OF assms(1,2) mem] by metis
      have mx: "max_clust gs = max_clust fs" using g(2) by (simp add: wstep_def only_window_fields)
      have "2 \<le> max_clust fs" using assms(2) by (simp add: table_ok_def)
      then have v: "\<not> v \<le> 1" "v \<noteq> 0xFFFFFFFF \<longrightarrow> max_clust gs \<le> v"
        using g(3) last mx by (auto simp: word_le_nat_alt)
      have cl: "clust dj = cs ! ?q" using at chain by simp
      have "next_dir_cluster dev (clust dj) st fs = Some (Inl (if v = 0xFFFFFFFF then FR_DISK_ERR else FR_NO_FILE), gs)"
        using g(1) cl v assms(7) chain False by (simp add: next_dir_cluster_def)
      then have "dir_next dev dj st fs
          = Some (if v = 0xFFFFFFFF then FR_DISK_ERR else FR_NO_FILE, dj\<lparr>dj_sect := dj_sect dj + 1\<rparr>, gs)"
        using nz idx index_div(2) [OF i(1)] m0 chain m unfolding dir_next_def idx by (simp add: Let_def del: of_nat_Suc)
      then show ?thesis using g(2) by simp
    qed
  qed
qed

text \<open>Starting at the first slot.\<close>

lemma dir_seek_first:
  assumes "dir_ok nx fs (sclust dj) cs" "table_ok fs"
  shows "\<exists>dj'. dir_seek dev dj 0 fs = Some (FR_OK, dj', fs) \<and> at_slot fs cs 0 dj' \<and> dj_fn dj' = dj_fn dj \<and> sclust dj' = sclust dj"
proof -
  note d = assms(1) [unfolded dir_ok_def]
  note n = csize_bounds [OF d [THEN conjunct1]]
  have e: "entry_ofs 0 = 0" by (simp add: entry_ofs_def)
  show ?thesis
  proof (cases "sclust dj = 0")
    case True
    have "0 < unat (n_rootdir fs)" using d True by (simp add: unat_gt_0)
    then have "0 < root_slots fs" by (simp add: root_slots_def)
    moreover have "\<not> max_clust fs \<le> 0" using assms(2) by (auto simp: table_ok_def word_le_nat_alt)
    ultimately show ?thesis using d True e
      by (auto simp: dir_seek_def Let_def at_slot_def slots_def slot_count_def slot_sector_def)
  next
    case False
    then obtain x xs where cs: "cs = x # xs" "chain nx (max_clust fs) (sclust dj) (x # xs)" using d by (cases cs) auto
    then have c: "x = sclust dj" "2 \<le> sclust dj" "sclust dj < max_clust fs" by auto
    have ic: "\<not> (16 * ucast (csize fs) \<le> (0 :: u16))"
    proof -
      have "unat (16 * ucast (csize fs) :: u16) = 16 * unat (csize fs)"
        using n(2) by (simp add: unat_word_ariths unsigned_ucast_eq take_bit_eq_mod)
      then show ?thesis using n(1) by (simp add: word_le_nat_alt)
    qed
    have loop: "seek_loop dev (16 * ucast (csize fs)) (sclust dj) 0 fs = Some (Inr (sclust dj, 0), fs)"
      using ic by (subst seek_loop.simps) simp
    have "chain_sectors fs cs ! 0 = clust2sect x fs" using nth_chain_sectors [of 0 cs fs] n(1) cs(1) by simp
    moreover have "sclust dj \<noteq> 1" "\<not> max_clust fs \<le> sclust dj" using c by (auto simp: word_le_nat_alt word_less_nat_alt)
    ultimately show ?thesis using False loop e c(1) cs(1) n(1)
      by (auto simp: dir_seek_def Let_def at_slot_def slots_def slot_count_def slot_sector_def)
  qed
qed

end

section \<open>Searching\<close>

text \<open>The end mark, a slot that holds the name looked for, and the first of them.\<close>

definition slot_end :: "(u32 \<Rightarrow> u8 list) \<Rightarrow> 'd fatfs \<Rightarrow> u32 \<Rightarrow> u32 list \<Rightarrow> nat \<Rightarrow> bool" where
  "slot_end v fs sc cs i \<longleftrightarrow> v (slot_sector fs sc cs i) ! (i mod 16 * 32) = 0"

definition slot_match :: "(u32 \<Rightarrow> u8 list) \<Rightarrow> 'd fatfs \<Rightarrow> u32 \<Rightarrow> u32 list \<Rightarrow> u8 list \<Rightarrow> nat \<Rightarrow> bool" where
  "slot_match v fs sc cs fn i \<longleftrightarrow> (let w = v (slot_sector fs sc cs i) in
     valid_entry w (i mod 16 * 32) \<and> take 11 (drop (i mod 16 * 32) w) = take 11 fn)"

definition passed :: "(u32 \<Rightarrow> u8 list) \<Rightarrow> 'd fatfs \<Rightarrow> u32 \<Rightarrow> u32 list \<Rightarrow> u8 list \<Rightarrow> nat \<Rightarrow> bool" where
  "passed v fs sc cs fn k \<longleftrightarrow> (\<forall>j < k. \<not> slot_end v fs sc cs j \<and> \<not> slot_match v fs sc cs fn j)"

definition name_at :: "(u32 \<Rightarrow> u8 list) \<Rightarrow> 'd fatfs \<Rightarrow> u32 \<Rightarrow> u32 list \<Rightarrow> u8 list \<Rightarrow> nat \<Rightarrow> bool" where
  "name_at v fs sc cs fn k \<longleftrightarrow> k < slots fs sc cs \<and> passed v fs sc cs fn k
     \<and> \<not> slot_end v fs sc cs k \<and> slot_match v fs sc cs fn k"

definition no_name :: "(u32 \<Rightarrow> u8 list) \<Rightarrow> 'd fatfs \<Rightarrow> u32 \<Rightarrow> u32 list \<Rightarrow> u8 list \<Rightarrow> bool" where
  "no_name v fs sc cs fn \<longleftrightarrow> (\<exists>k \<le> slots fs sc cs. passed v fs sc cs fn k \<and> (k < slots fs sc cs \<longrightarrow> slot_end v fs sc cs k))"

lemma mem_cmp_eq:
  "d + n \<le> length w \<Longrightarrow> s + n \<le> length f \<Longrightarrow> mem_cmp w d f s n = 0 \<longleftrightarrow> take n (drop d w) = take n (drop s f)"
proof (induction n arbitrary: d s)
  case (Suc n)
  have w: "drop d w = w ! d # drop (Suc d) w" "drop s f = f ! s # drop (Suc s) f"
    using Suc.prems by (simp_all add: Cons_nth_drop_Suc)
  show ?case using Suc.IH [of "Suc d" "Suc s"] Suc.prems unfolding w by (auto simp: Let_def word_uint_eq_iff)
qed simp

context block_device
begin

text \<open>The window on the sector of a slot.\<close>

lemma slot_window:
  assumes "fs_inv sectors good fs" "table_ok fs" "data_ok fs" "dir_ok nx fs (sclust dj) cs" "at_slot fs cs i dj"
  shows "\<exists>r gs. move_window dev (dj_sect dj) fs = Some (r, gs) \<and> wstep fs gs \<and> r \<in> {FR_OK, FR_DISK_ERR}
    \<and> (r = FR_OK \<longrightarrow> winsect gs = dj_sect dj \<and> win gs = vol sectors fs (slot_sector fs (sclust dj) cs i))"
proof -
  have s: "dj_sect dj = slot_sector fs (sclust dj) cs i" "i < slot_count fs (sclust dj) cs"
    using assms(5) by (simp_all add: at_slot_def slots_def)
  note ok = slot_sector_ok [OF assms(4,2,3) s(2), folded s(1)]
  obtain r gs where g: "move_window dev (dj_sect dj) fs = Some (r, gs)" "wstep fs gs" "r \<in> {FR_OK, FR_DISK_ERR}"
    "r = FR_OK \<Longrightarrow> winsect gs = dj_sect dj" using move_window_ok [OF assms(1) ok(2)] ok(1) by blast
  have "win gs = vol sectors fs (dj_sect dj)" if "r = FR_OK"
  proof -
    have "vol sectors gs (dj_sect dj) = win gs" using g(4) [OF that] ok(1) by (simp add: vol_def)
    moreover have "dj_sect dj \<notin> mirror fs" using ok(3) mirror_fat_area by blast
    ultimately show ?thesis using g(2) by (simp add: wstep_def)
  qed
  then show ?thesis using g s(1) by auto
qed

text \<open>What a step of a search keeps of the directory.\<close>

lemma search_keeps:
  assumes "wstep fs gs" "fs_inv sectors good fs" "table_ok fs" "data_ok fs" "dir_ok (fat_entry sectors fs) fs sc cs"
  shows "fs_inv sectors good gs" "table_ok gs" "data_ok gs" "dir_ok (fat_entry sectors gs) gs sc cs"
    "at_slot gs = at_slot fs" "slots gs = slots fs" "slot_sector gs = slot_sector fs" "slot_count gs = slot_count fs"
    "i < slot_count fs sc cs \<Longrightarrow> vol sectors gs (slot_sector fs sc cs i) = vol sectors fs (slot_sector fs sc cs i)"
proof -
  have ow: "only_window fs gs" using assms(1) by (simp add: wstep_def)
  note f = only_window_fields [OF ow]
  note sv = same_volume_keeps [OF only_window_volume [OF ow]]
  show "fs_inv sectors good gs" using assms(1) by (simp add: wstep_def)
  show "table_ok gs" "data_ok gs" using assms(3,4) sv by simp_all
  have r: "root_slots gs = root_slots fs" "pow2_cluster gs = pow2_cluster fs" by (simp_all add: root_slots_def pow2_cluster_def f)
  show c: "slot_count gs = slot_count fs" "slot_sector gs = slot_sector fs"
    by (simp_all add: fun_eq_iff slot_count_def slot_sector_def r f sv)
  then show s: "slots gs = slots fs" by (simp add: fun_eq_iff slots_def)
  show "at_slot gs = at_slot fs" by (simp add: fun_eq_iff at_slot_def s c f)
  have "chain (fat_entry sectors gs) (max_clust fs) sc cs" if ch: "chain (fat_entry sectors fs) (max_clust fs) sc cs"
    using chain_cong [OF ch] wstep_entry [OF assms(1,3,2)] chain_members [OF ch] by (simp add: cluster_no_def)
  then show "dir_ok (fat_entry sectors gs) gs sc cs" using assms(5) by (simp add: dir_ok_def r f split: if_splits)
  show "vol sectors gs (slot_sector fs sc cs i) = vol sectors fs (slot_sector fs sc cs i)" if "i < slot_count fs sc cs"
    using slot_sector_ok(3) [OF assms(5,3,4) that] assms(1) mirror_fat_area by (auto simp: wstep_def)
qed

lemma dir_next_search:
  assumes "fs_inv sectors good fs" "table_ok fs" "data_ok fs" "dir_ok (fat_entry sectors fs) fs (sclust dj) cs" "at_slot fs cs i dj"
  shows "\<exists>r dj' gs. dir_next dev dj False fs = Some (r, dj', gs) \<and> wstep fs gs \<and> dj_fn dj' = dj_fn dj \<and> sclust dj' = sclust dj
    \<and> (r = FR_OK \<and> Suc i < slots fs (sclust dj) cs \<and> at_slot gs cs (Suc i) dj'
       \<or> r = FR_NO_FILE \<and> Suc i = slots fs (sclust dj) cs \<or> r = FR_DISK_ERR)"
proof (cases "Suc i < slots fs (sclust dj) cs")
  case True
  then show ?thesis using dir_next_inside [OF assms True, of False] by blast
next
  case False
  then have last: "Suc i = slots fs (sclust dj) cs" using assms(5) by (simp add: at_slot_def)
  have "\<not> False \<or> sclust dj = 0 \<or> Suc i = 65536" by simp
  then show ?thesis using dir_next_end [OF assms last] last by fast
qed

definition found_post :: "'d fatfs \<Rightarrow> u32 \<Rightarrow> u32 list \<Rightarrow> u8 list \<Rightarrow> FRESULT \<Rightarrow> DIR \<Rightarrow> 'd fatfs \<Rightarrow> bool" where
  "found_post fs sc cs fn r dj' gs \<longleftrightarrow> wstep fs gs \<and> dj_fn dj' = fn \<and> sclust dj' = sc \<and> r \<in> {FR_OK, FR_NO_FILE, FR_DISK_ERR}
     \<and> (r \<noteq> FR_DISK_ERR \<longrightarrow> winsect gs \<noteq> 0) \<and> (r = FR_OK \<longrightarrow> winsect gs = dj_sect dj' \<and> (\<exists>k. name_at (vol sectors fs) fs sc cs fn k \<and> at_slot fs cs k dj'))
     \<and> (r = FR_NO_FILE \<longrightarrow> no_name (vol sectors fs) fs sc cs fn)"

lemma find_loop_ok:
  assumes "fs_inv sectors good fs" "table_ok fs" "data_ok fs" "dir_ok (fat_entry sectors fs) fs (sclust dj) cs"
    and "at_slot fs cs i dj" "11 \<le> length (dj_fn dj)" "passed (vol sectors fs) fs (sclust dj) cs (dj_fn dj) i"
  shows "\<exists>r dj' gs. find_loop dev dj fs = Some (r, dj', gs) \<and> found_post fs (sclust dj) cs (dj_fn dj) r dj' gs"
  using assms
proof (induction "65536 - i" arbitrary: i dj fs rule: less_induct)
  case less
  let ?sc = "sclust dj" and ?fn = "dj_fn dj" and ?d = "i mod 16 * 32"
  have i: "i < slots fs ?sc cs" "i < slot_count fs ?sc cs" "dj_dir dj = Some ?d" "i < 65536"
    using less.prems(5) by (simp_all add: at_slot_def slots_def)
  obtain r gs where g: "move_window dev (dj_sect dj) fs = Some (r, gs)" "wstep fs gs" "r \<in> {FR_OK, FR_DISK_ERR}"
    "r = FR_OK \<longrightarrow> winsect gs = dj_sect dj \<and> win gs = vol sectors fs (slot_sector fs ?sc cs i)"
    using slot_window [OF less.prems(1-5)] by blast
  note k = search_keeps [OF g(2) less.prems(1-4)]
  show ?case
  proof (cases "r = FR_OK")
    case False
    then have "find_loop dev dj fs = Some (r, dj, gs)" using g(1) by (subst find_loop.simps) simp
    then show ?thesis using g False by (auto simp: found_post_def)
  next
    case r: True
    let ?w = "vol sectors fs (slot_sector fs ?sc cs i)"
    have nz: "winsect gs \<noteq> 0"
      using g(4) r less.prems(5) slot_sector_ok(1) [OF less.prems(4,2,3) i(2)] by (simp add: at_slot_def)
    have w: "win gs = ?w" "length ?w = 512" using g(4) r k(1) by (auto simp: fs_inv_def)
    have d: "?d + 11 \<le> 512" using mod_less_divisor [of 16 i] by linarith
    have cmp: "mem_cmp ?w ?d ?fn 0 11 = 0 \<longleftrightarrow> take 11 (drop ?d ?w) = take 11 ?fn"
      using mem_cmp_eq [of ?d 11 ?w 0 ?fn] d w(2) less.prems(6) by simp
    show ?thesis
    proof (cases "slot_end (vol sectors fs) fs ?sc cs i")
      case True
      then have "find_loop dev dj fs = Some (FR_NO_FILE, dj, gs)"
        using g(1) r i(3) w(1) by (subst find_loop.simps) (simp add: slot_end_def)
      moreover have "no_name (vol sectors fs) fs ?sc cs ?fn"
        using True less.prems(7) i(1) unfolding no_name_def by (intro exI [of _ i]) simp
      ultimately show ?thesis using g(2) nz by (auto simp: found_post_def)
    next
      case ne: False
      show ?thesis
      proof (cases "slot_match (vol sectors fs) fs ?sc cs ?fn i")
        case True
        then have "find_loop dev dj fs = Some (FR_OK, dj, gs)"
          using g(1) r i(3) w(1) ne cmp by (subst find_loop.simps) (simp add: slot_end_def slot_match_def Let_def)
        moreover have "name_at (vol sectors fs) fs ?sc cs ?fn i"
          using True ne less.prems(7) i(1) by (simp add: name_at_def)
        ultimately show ?thesis using g(2,4) r less.prems(5) nz by (auto simp: found_post_def)
      next
        case False
        have passed: "passed (vol sectors fs) fs ?sc cs ?fn (Suc i)"
          using less.prems(7) ne False by (auto simp: passed_def less_Suc_eq)
        obtain q dj' hs where h: "dir_next dev dj False gs = Some (q, dj', hs)" "wstep gs hs" "dj_fn dj' = ?fn" "sclust dj' = ?sc"
          "q = FR_OK \<and> Suc i < slots gs ?sc cs \<and> at_slot hs cs (Suc i) dj' \<or> q = FR_NO_FILE \<and> Suc i = slots gs ?sc cs \<or> q = FR_DISK_ERR"
          using dir_next_search [OF k(1-4)] less.prems(5) k(5) by metis
        note step = wstep_trans [OF g(2) h(2)]
        note kh = search_keeps [OF step less.prems(1-4)]
        have loop: "find_loop dev dj fs = (if q = FR_OK then find_loop dev dj' hs else Some (q, dj', hs))"
          using g(1) r i(3) w(1) ne cmp h(1) False by (subst find_loop.simps) (auto simp: slot_end_def slot_match_def Let_def)
        show ?thesis
        proof (cases "q = FR_OK")
          case True
          then have at: "at_slot hs cs (Suc i) dj'" "Suc i < 65536"
            using h(5) k(6) kh(6) by (auto simp: slots_def)
          have same: "slot_end (vol sectors hs) hs ?sc cs j = slot_end (vol sectors fs) fs ?sc cs j"
            "slot_match (vol sectors hs) hs ?sc cs ?fn j = slot_match (vol sectors fs) fs ?sc cs ?fn j"
            if "j < slot_count fs ?sc cs" for j
            using kh(7,9) that by (simp_all add: slot_end_def slot_match_def)
          have pass: "passed (vol sectors hs) hs ?sc cs ?fn j = passed (vol sectors fs) fs ?sc cs ?fn j"
            if "j \<le> slot_count fs ?sc cs" for j using same that by (simp add: passed_def)
          have le: "slots fs ?sc cs \<le> slot_count fs ?sc cs" by (simp add: slots_def)
          have "passed (vol sectors hs) hs (sclust dj') cs (dj_fn dj') (Suc i)" using passed pass i(2) h(3,4) by simp
          moreover have "65536 - Suc i < 65536 - i" using at(2) by linarith
          ultimately have "\<exists>p dj2 js. find_loop dev dj' hs = Some (p, dj2, js)
              \<and> found_post hs (sclust dj') cs (dj_fn dj') p dj2 js"
            using less.hyps [of "Suc i" hs dj'] at(1) kh(1-4) h(3,4) less.prems(6) by simp
          then
          obtain p dj2 js where f: "find_loop dev dj' hs = Some (p, dj2, js)" "found_post hs ?sc cs ?fn p dj2 js"
            using h(3,4) by auto
          have "name_at (vol sectors fs) fs ?sc cs ?fn n" if "name_at (vol sectors hs) hs ?sc cs ?fn n" for n
            using that same [of n] pass [of n] le kh(6) by (simp add: name_at_def)
          moreover have "no_name (vol sectors fs) fs ?sc cs ?fn" if "no_name (vol sectors hs) hs ?sc cs ?fn"
            using that same pass le kh(6) by (fastforce simp: no_name_def)
          ultimately have "found_post fs ?sc cs ?fn p dj2 js"
            using f(2) wstep_trans [OF step] kh(5) by (auto simp: found_post_def)
          then show ?thesis using loop True f(1) by simp
        next
          case False
          have "no_name (vol sectors fs) fs ?sc cs ?fn" if "q = FR_NO_FILE"
            using passed h(5) that k(6) unfolding no_name_def by (intro exI [of _ "Suc i"]) auto
          moreover have "winsect hs \<noteq> 0" using h(2) nz by (simp add: wstep_def)
          ultimately show ?thesis using loop False h(3-5) step by (auto simp: found_post_def)
        qed
      qed
    qed
  qed
qed

lemma dir_find_ok:
  assumes "fs_inv sectors good fs" "table_ok fs" "data_ok fs" "dir_ok (fat_entry sectors fs) fs (sclust dj) cs"
    and "11 \<le> length (dj_fn dj)"
  shows "\<exists>r dj' gs. dir_find dev dj fs = Some (r, dj', gs) \<and> found_post fs (sclust dj) cs (dj_fn dj) r dj' gs"
proof -
  obtain dj0 where d: "dir_seek dev dj 0 fs = Some (FR_OK, dj0, fs)" "at_slot fs cs 0 dj0" "dj_fn dj0 = dj_fn dj"
    "sclust dj0 = sclust dj" using dir_seek_first [OF assms(4,2)] by blast
  have "passed (vol sectors fs) fs (sclust dj0) cs (dj_fn dj0) 0" by (simp add: passed_def)
  then obtain r dj' gs where "find_loop dev dj0 fs = Some (r, dj', gs)"
    "found_post fs (sclust dj0) cs (dj_fn dj0) r dj' gs"
    using find_loop_ok [OF assms(1-3), of dj0 cs 0] assms(4,5) d by auto
  then show ?thesis using d by (simp add: dir_find_def)
qed

end

text \<open>The name a search finds is at one slot, and not absent.\<close>

lemma name_at_unique: "name_at v fs sc cs fn j \<Longrightarrow> name_at v fs sc cs fn k \<Longrightarrow> j = k"
  by (cases j k rule: linorder_cases) (auto simp: name_at_def passed_def)

lemma no_name_at: "no_name v fs sc cs fn \<Longrightarrow> \<not> name_at v fs sc cs fn k"
  by (auto simp: no_name_def name_at_def passed_def) (metis linorder_neqE_nat order_less_le_trans order_le_less)

section \<open>Finding a name on the card\<close>


text \<open>A root directory with a deleted entry, a volume label of the name, and the file itself.\<close>

definition entry_bytes :: "u8 list \<Rightarrow> u8 \<Rightarrow> u8 list" where
  "entry_bytes nm attr = nm @ [attr] @ replicate 20 0"

definition root_image :: "u8 list" where
  "root_image = entry_bytes (0xE5 # replicate 10 0x41) 0x20 @ entry_bytes (replicate 11 0x42) 0x08
     @ entry_bytes (replicate 11 0x42) 0x20 @ replicate 416 0"

definition named_fs :: "disk_st fatfs" where
  "named_fs = (small_fs FS_FAT16 chain_table)\<lparr>disk := disk_reset_st\<lparr>image := (\<lambda>_. replicate 512 0)(3 := root_image)\<rparr>\<rparr>"

lemma small_root_ok: "dir_ok nx (small_fs ty w) 0 []" "data_ok (small_fs ty w)"
  by (auto simp: dir_ok_def pow2_cluster_def root_slots_def small_fs_def data_ok_def intro: exI [of _ 0])

definition name_dir :: "u8 list \<Rightarrow> DIR" where
  "name_dir fn = \<lparr>dj_index = 0, sclust = 0, clust = 0, dj_sect = 0, dj_dir = None, dj_fn = fn\<rparr>"


end
