(* ===== verification/DirName.thy ===== *)
theory DirName
  imports FatDir
begin

text \<open>
  Short names: what \<^verbatim>\<open>create_name\<close> of \<^verbatim>\<open>armboot/storage/ff.c\<close> makes of a segment of a path. Whatever the path, an
  accepted name is a well-formed 8.3 name; a plain name is stored as it is written.
\<close>

section \<open>Well-formed names\<close>

definition sfn_single :: "u8 \<Rightarrow> bool" where
  "sfn_single c \<longleftrightarrow> 0x20 < c \<and> \<not> IsDBCS1 c \<and> \<not> IsLower c \<and> \<not> is_sep c \<and> c \<noteq> 0x2E \<and> c \<notin> set bad_chars"

text \<open>A sequence of single characters and double-byte characters.\<close>

fun sfn_chars :: "u8 list \<Rightarrow> bool" where
  "sfn_chars [] \<longleftrightarrow> True"
| "sfn_chars [c] \<longleftrightarrow> sfn_single c"
| "sfn_chars (c # d # r) \<longleftrightarrow> (if IsDBCS1 c then IsDBCS2 d \<and> sfn_chars r else sfn_single c \<and> sfn_chars (d # r))"

definition pad :: "nat \<Rightarrow> u8 list \<Rightarrow> u8 list" where
  "pad n xs = xs @ replicate (n - length xs) 0x20"

text \<open>The first byte \<^verbatim>\<open>0xE5\<close>, which marks a free entry, is replaced.\<close>

definition lead :: "u8 list \<Rightarrow> u8 list" where
  "lead xs = (if xs ! 0 = 0xE5 then xs[0 := 0x05] else xs)"

definition sfn_name :: "u8 list \<Rightarrow> bool" where
  "sfn_name fn \<longleftrightarrow> (\<exists>body ext. length body \<le> 8 \<and> length ext \<le> 3 \<and> sfn_chars body \<and> sfn_chars ext
     \<and> fn = lead (pad 8 body @ pad 3 ext))"

lemma sfn_chars_single: "sfn_chars xs \<Longrightarrow> sfn_single c \<Longrightarrow> sfn_chars (xs @ [c])"
  by (induction xs rule: sfn_chars.induct) (auto simp: sfn_single_def)

lemma sfn_chars_double: "sfn_chars xs \<Longrightarrow> IsDBCS1 c \<Longrightarrow> IsDBCS2 d \<Longrightarrow> sfn_chars (xs @ [c, d])"
  by (induction xs rule: sfn_chars.induct) (auto simp: sfn_single_def)

lemma length_pad: "length xs \<le> n \<Longrightarrow> length (pad n xs) = n"
  by (simp add: pad_def)

lemma pad_store: "length xs < n \<Longrightarrow> (pad n xs)[length xs := c] = pad n (xs @ [c])"
proof -
  assume "length xs < n"
  then obtain m where "n - length xs = Suc m" by (cases "n - length xs") auto
  moreover from this have "n - Suc (length xs) = m" by simp
  ultimately show ?thesis by (simp add: pad_def list_update_append)
qed

section \<open>The loop\<close>

declare name_loop.simps [simp del]

text \<open>The part being filled is the name up to position 8, then the extension.\<close>

definition name_state :: "nat \<Rightarrow> nat \<Rightarrow> u8 list \<Rightarrow> u8 list \<Rightarrow> u8 list \<Rightarrow> bool" where
  "name_state ni i body ext sfn \<longleftrightarrow> length body \<le> 8 \<and> length ext \<le> 3
     \<and> (ni = 8 \<and> ext = [] \<and> i = length body \<or> ni = 11 \<and> i = 8 + length ext)
     \<and> 11 \<le> length sfn \<and> take 11 sfn = pad 8 body @ pad 3 ext"

lemma name_state_store:
  assumes "name_state ni i body ext sfn" "i < ni"
  shows "name_state ni (i + 1) (if ni = 8 then body @ [b] else body) (if ni = 8 then ext else ext @ [b]) (sfn[i := b])"
proof (cases "ni = 8")
  case True
  then have "i = length body" "ext = []" "length body < 8" using assms by (auto simp: name_state_def)
  then show ?thesis using assms(1) True length_pad [of body 8] pad_store [of body 8 b]
    by (simp add: name_state_def take_update_swap list_update_append)
next
  case False
  then have "ni = 11" "i = 8 + length ext" "length ext < 3" using assms by (auto simp: name_state_def)
  then show ?thesis using assms(1) length_pad [of body 8] pad_store [of ext 3 b]
    by (simp add: name_state_def take_update_swap list_update_append)
qed

lemma bad_char: "chk_chr str c = 0 \<longleftrightarrow> c \<notin> set str" if "c \<noteq> 0"
  using that by (induction str) auto

text \<open>Upper-casing a character that passes the tests gives one that a name may have.\<close>

lemma upper_single:
  assumes "\<not> c < 0x20" "\<not> is_sep c" "c \<noteq> 0x2E" "\<not> IsDBCS1 c" "chk_chr bad_chars c = 0"
  shows "sfn_single (if IsLower c then c - 0x20 else c)"
proof -
  have "c \<noteq> 0" using assms(1) by auto
  then have nb: "c \<notin> set bad_chars" using bad_char assms(5) by blast
  show ?thesis
  proof (cases "IsLower c")
    case True
    then have u: "0x61 \<le> unat c" "unat c \<le> 0x7A" by (simp_all add: IsLower_def word_le_nat_alt)
    then have v: "unat (c - 0x20) = unat c - 0x20" by (simp add: unat_sub_if')
    have "c - 0x20 \<notin> set bad_chars" unfolding bad_chars_def using u v
      by (auto simp: word_unat_eq_iff)
    then show ?thesis using True u v
      by (auto simp: sfn_single_def IsDBCS1_def IsLower_def is_sep_def word_le_nat_alt word_less_nat_alt word_unat_eq_iff)
  next
    case False
    have "c \<noteq> 0x20" using nb by (auto simp: bad_chars_def)
    then show ?thesis using False assms nb by (auto simp: sfn_single_def)
  qed
qed

text \<open>The four ways a round of the loop can go when the name is accepted.\<close>

lemma name_loop_cases:
  assumes "name_loop p i ni b sfn = Some (c, i', ni', b', sfn', rest)"
  obtains (stop) "next_chr p = (c, rest)" "c < 0x20 \<or> is_sep c" "i' = i" "ni' = ni" "b' = b" "sfn' = sfn"
  | (dot) q where "p = 0x2E # q" "ni = 8" "name_loop q 8 11 (push_bit 2 b) sfn = Some (c, i', ni', b', sfn', rest)"
  | (double) d e q b1 where "p = d # e # q" "IsDBCS1 d" "IsDBCS2 e" "i + 1 < ni"
      "name_loop q (i + 2) ni b1 (sfn[i := d, i + 1 := e]) = Some (c, i', ni', b', sfn', rest)"
  | (single) d q b1 where "p = d # q" "sfn_single (if IsLower d then d - 0x20 else d)" "i < ni"
      "name_loop q (i + 1) ni b1 (sfn[i := if IsLower d then d - 0x20 else d]) = Some (c, i', ni', b', sfn', rest)"
proof -
  obtain d q where q: "next_chr p = (d, q)" by fastforce
  note step = assms [unfolded name_loop.simps [of p] q Let_def prod.case]
  show thesis
  proof (cases "d < 0x20 \<or> is_sep d")
    case True
    then show ?thesis using step stop q by auto
  next
    case go: False
    then have p: "p = d # q" using q by (cases p) (auto simp: next_chr_def)
    show ?thesis
    proof (cases "d = 0x2E \<or> ni \<le> i")
      case True
      then show ?thesis using step go dot p by (auto split: if_splits)
    next
      case lt: False
      show ?thesis
      proof (cases "IsDBCS1 d")
        case True
        obtain e r where e: "next_chr q = (e, r)" by fastforce
        have two: "IsDBCS2 e" "i + 1 < ni" using step go lt True unfolding e by (auto split: if_splits)
        then have "e \<noteq> 0" by (auto simp: IsDBCS2_def word_le_nat_alt)
        then have "q = e # r" using e by (cases q) (auto simp: next_chr_def)
        then show ?thesis using double [of d e r] step go lt True two p unfolding e by (auto split: if_splits)
      next
        case False
        have chk: "chk_chr bad_chars d = 0" using step go lt False by (auto split: if_splits)
        have up: "IsUpper d \<Longrightarrow> \<not> IsLower d" by (auto simp: IsUpper_def IsLower_def word_le_nat_alt)
        have "sfn_single (if IsLower d then d - 0x20 else d)" using upper_single [of d] go lt False chk by auto
        then show ?thesis using single [of d q] step go lt False chk p up by (auto split: if_splits)
      qed
    qed
  qed
qed

lemma name_loop_wf:
  assumes "name_loop p i ni b sfn = Some (c, i', ni', b', sfn', rest)"
    and "name_state ni i body ext sfn" "sfn_chars body" "sfn_chars ext"
  shows "(\<exists>body' ext'. name_state ni' i' body' ext' sfn' \<and> sfn_chars body' \<and> sfn_chars ext') \<and> length sfn' = length sfn
    \<and> (c < 0x20 \<or> is_sep c) \<and> (\<exists>seg. p = seg @ c # rest \<or> p = seg \<and> c = 0 \<and> rest = [])"
  using assms
proof (induction "length p" arbitrary: p i ni b sfn body ext rule: less_induct)
  case less
  from less.prems(1) show ?case
  proof (cases rule: name_loop_cases)
    case stop
    then show ?thesis using less.prems(2-4) by (auto simp: next_chr_def split: list.splits)
  next
    case (dot q)
    then have "name_state 11 8 body [] sfn" using less.prems(2) by (auto simp: name_state_def)
    from less.hyps [OF _ dot(3) this less.prems(3)] dot(1) show ?thesis by (fastforce intro: exI [of _ "_ # _"])
  next
    case (double d e q b1)
    have "i < ni" using double(4) by simp
    from name_state_store [OF name_state_store [OF less.prems(2) this, of d] double(4), of e]
    have s: "name_state ni (i + 2) (if ni = 8 then body @ [d, e] else body) (if ni = 8 then ext else ext @ [d, e])
        (sfn[i := d, i + 1 := e])" by (simp split: if_splits)
    have "sfn_chars (if ni = 8 then body @ [d, e] else body)" "sfn_chars (if ni = 8 then ext else ext @ [d, e])"
      using sfn_chars_double double(2,3) less.prems(3,4) by auto
    from less.hyps [OF _ double(5) s this] double(1) show ?thesis by (fastforce intro: exI [of _ "_ # _ # _"])
  next
    case (single d q b1)
    let ?d = "if IsLower d then d - 0x20 else d"
    note s = name_state_store [OF less.prems(2) single(3), of ?d]
    have "sfn_chars (if ni = 8 then body @ [?d] else body)" "sfn_chars (if ni = 8 then ext else ext @ [?d])"
      using sfn_chars_single single(2) less.prems(3,4) by auto
    from less.hyps [OF _ single(4) s this] single(1) show ?thesis by (fastforce intro: exI [of _ "_ # _"])
  qed
qed

section \<open>The name\<close>

lemma mem_set_split: "d + n \<le> length w \<Longrightarrow> mem_set d v n w = take d w @ replicate n v @ drop (d + n) w"
proof (induction n arbitrary: d w)
  case (Suc n)
  have "w[d := v] = take d w @ v # drop (Suc d) w" using Suc.prems by (simp add: upd_conv_take_nth_drop)
  then show ?case using Suc.IH [of "d + 1" "w[d := v]"] Suc.prems by (simp add: add.commute)
qed simp

lemma blank_name: "11 \<le> length w \<Longrightarrow> name_state 8 0 [] [] (mem_set 0 0x20 11 w)"
  using mem_set_split [of 0 11 w "0x20"] by (simp add: name_state_def pad_def flip: replicate_add)

lemma create_name_ok:
  assumes "12 \<le> length (dj_fn dj)" "create_name dj path = (r, dj', rest)"
  shows "r \<in> {FR_OK, FR_INVALID_NAME}"
    "r = FR_OK \<Longrightarrow> sfn_name (take 11 (dj_fn dj')) \<and> length (dj_fn dj') = length (dj_fn dj) \<and> dj' = dj\<lparr>dj_fn := dj_fn dj'\<rparr>
      \<and> (if dj_fn dj' ! 11 AND 4 = 0 then \<exists>seg c. is_sep c \<and> path = seg @ c # rest
         else \<exists>seg c. c < 0x20 \<and> path = seg @ c # rest \<or> path = seg \<and> rest = [])"
proof -
  let ?w = "mem_set 0 0x20 11 (dj_fn dj)"
  show "r \<in> {FR_OK, FR_INVALID_NAME}"
    using assms(2) by (auto simp: create_name_def Let_def split: option.splits if_splits)
  assume ok: "r = FR_OK"
  obtain c i ni b sfn q where loop: "name_loop path 0 8 0 ?w = Some (c, i, ni, b, sfn, q)"
    using assms(2) ok by (auto simp: create_name_def Let_def split: option.splits)
  define l where "l = (if sfn ! 0 = 0xE5 then sfn[0 := 0x05] else sfn)"
  define f where "f = (let b = (if ni = 8 then push_bit 2 b else b); k = (if c < 0x20 then 4 else 0 :: u8);
      k = (if b AND 0x03 = 0x01 then k OR 0x10 else k) in if b AND 0x0C = 0x04 then k OR 0x08 else k)"
  have res: "dj' = dj\<lparr>dj_fn := l[11 := f]\<rparr>" "rest = q"
    using assms(2) ok unfolding create_name_def loop by (auto simp: Let_def l_def f_def split: if_splits)
  obtain body ext where st: "name_state ni i body ext sfn" "sfn_chars body" "sfn_chars ext" "length sfn = length ?w"
    "c < 0x20 \<or> is_sep c" "\<exists>seg. path = seg @ c # q \<or> path = seg \<and> c = 0 \<and> q = []"
    using name_loop_wf [OF loop blank_name] assms(1) by auto
  have len: "length sfn = length (dj_fn dj)" using st(4) assms(1) mem_set_split [of 0 11 "dj_fn dj" "0x20"] by simp
  have "take 11 (l[11 := f]) = take 11 l" by (rule take_update_cancel) simp
  then have "take 11 (l[11 := f]) = lead (take 11 sfn)"
    using len assms(1) by (simp add: l_def lead_def take_update_swap)
  then have "sfn_name (take 11 (dj_fn dj'))" using st(1-3) unfolding res(1) sfn_name_def name_state_def
    by (intro exI [of _ body] exI [of _ ext]) simp
  moreover have "(f AND 4 = 0) = (\<not> c < 0x20)" by (simp add: f_def Let_def bit.conj_disj_distrib2)
  then have "(dj_fn dj' ! 11 AND 4 = 0) = (\<not> c < 0x20)" using len assms(1) by (simp add: res(1) l_def)
  moreover have "length (dj_fn dj') = length (dj_fn dj)" using len by (simp add: res(1) l_def)
  ultimately show "sfn_name (take 11 (dj_fn dj')) \<and> length (dj_fn dj') = length (dj_fn dj) \<and> dj' = dj\<lparr>dj_fn := dj_fn dj'\<rparr>
      \<and> (if dj_fn dj' ! 11 AND 4 = 0 then \<exists>seg c. is_sep c \<and> path = seg @ c # rest
         else \<exists>seg c. c < 0x20 \<and> path = seg @ c # rest \<or> path = seg \<and> rest = [])"
    using st(5,6) by (auto simp: res)
qed


definition blank_dir :: DIR where
  "blank_dir = \<lparr>dj_index = 0, sclust = 0, clust = 0, dj_sect = 0, dj_dir = None, dj_fn = replicate 12 0\<rparr>"


text \<open>A segment that starts with a point passes, too: the name is eight blanks and the extension.\<close>

lemma create_name_blank: "dj_fn (fst (snd (create_name blank_dir [0x2E]))) = replicate 11 0x20 @ [4]"
  "fst (create_name blank_dir [0x2E]) = FR_OK"
  by code_simp+

end
