(* ===== verification/DirCreate.thy ===== *)
theory DirCreate
  imports DirSearch DirName
begin

text \<open>
  Creating an entry: \<^verbatim>\<open>dir_register\<close> of \<^verbatim>\<open>armboot/storage/ff.c\<close> takes the first free slot of a directory,
  stretching a chain by a cleared cluster when there is none, and \<^verbatim>\<open>f_open\<close> makes it the entry of an empty file.
\<close>

section \<open>Clearing a cluster\<close>

abbreviation (input) "zeros \<equiv> replicate 512 (0 :: u8)"

context block_device
begin

lemma flush_zeros:
  assumes "fs_inv sectors good fs" "wflag fs \<noteq> 0"
  shows "\<exists>r g. move_window dev 0 fs = Some (r, g) \<and> fs_inv sectors good g \<and> only_window fs g \<and> r \<in> {FR_OK, FR_DISK_ERR}
    \<and> win g = win fs \<and> winsect g = winsect fs \<and> (\<forall>x. x \<notin> mirror fs \<longrightarrow> vol sectors g x = vol sectors fs x)
    \<and> (r = FR_OK \<longrightarrow> wflag g = 0)"
proof -
  obtain r g where g: "flush_window dev fs = Some (r, g)" "fs_inv sectors good g" "only_window fs g"
    "win g = win fs" "winsect g = winsect fs" "\<forall>x. x \<notin> mirror fs \<longrightarrow> vol sectors g x = vol sectors fs x" "r = FR_OK \<longrightarrow> wflag g = 0"
    using flush_window_ok [OF assms] by blast
  have "winsect fs \<noteq> 0" using assms by (simp add: fs_inv_def)
  then have "move_window dev 0 fs = Some (if r \<noteq> FR_OK then FR_DISK_ERR else FR_OK, g)"
    using g(1) assms(2) by (simp add: move_window_def)
  then show ?thesis using g by auto
qed

lemma clear_loop_ok:
  assumes "good (disk fs)" "win fs = zeros" "fatbase fs \<noteq> 0" "fatbase fs \<le> winsect fs" "unat (winsect fs) + n < 2 ^ 32"
    and "unat (fatbase fs) + unat (n_fats fs) * unat (sects_fat fs) < 2 ^ 32"
    and "span (winsect fs) n \<inter> mirror fs = {}" "n = 0 \<Longrightarrow> wflag fs = 0"
  shows "\<exists>ok gs. clear_loop dev n fs = Some (ok, gs) \<and> only_window fs gs \<and> good (disk gs) \<and> win gs = zeros
    \<and> (if ok then winsect gs = winsect fs + of_nat n \<and> wflag gs = 0 \<and> (\<forall>x. x \<notin> mirror fs \<longrightarrow>
         sectors (disk gs) x = (if x \<in> span (winsect fs) n then zeros else sectors (disk fs) x))
       else fs_inv sectors good gs \<and> winsect gs \<noteq> 0
         \<and> (\<forall>x. x \<notin> mirror fs \<longrightarrow> x \<notin> span (winsect fs) n \<longrightarrow> vol sectors gs x = sectors (disk fs) x))"
  using assms
proof (induction n arbitrary: fs)
  case 0
  then show ?case by (intro exI [of _ True] exI [of _ fs]) (simp add: span_def)
next
  case (Suc n)
  let ?f = "fs\<lparr>wflag := 1\<rparr>" and ?s = "winsect fs"
  have span: "span ?s (Suc n) = insert ?s (span (?s + 1) n)"
    unfolding span_def lessThan_Suc_eq_insert_0 by (auto simp: image_image add.assoc)
  have nz: "?s \<noteq> 0" using Suc.prems(3,4) by (auto simp: word_le_nat_alt unat_eq_zero)
  have inv: "fs_inv sectors good ?f" using Suc.prems nz by (simp add: fs_inv_def)
  obtain r g where g: "move_window dev 0 ?f = Some (r, g)" "fs_inv sectors good g" "only_window ?f g" "r = FR_OK \<or> r = FR_DISK_ERR"
    "win g = zeros" "winsect g = ?s" "\<And>x. x \<notin> mirror fs \<Longrightarrow> vol sectors g x = vol sectors ?f x" "r = FR_OK \<Longrightarrow> wflag g = 0"
    using flush_zeros [OF inv] Suc.prems(2) by (auto simp: mirror_def)
  have vol: "vol sectors g x = (if x = ?s then zeros else sectors (disk fs) x)" if "x \<notin> mirror fs" for x
    using g(7) [OF that] nz Suc.prems(2) by (simp add: vol_def)
  have ow: "only_window fs g" using g(3) by (cases fs; cases g) (simp add: only_window_def)
  show ?case
  proof (cases "r = FR_OK")
    case False
    then have run: "clear_loop dev (Suc n) fs = Some (False, g)" using g(1) by simp
    have "good (disk g)" using g(2) by (simp add: fs_inv_def)
    then show ?thesis using run g(2,5,6) nz ow vol span
      by (intro exI [of _ False] exI [of _ g]) (simp del: clear_loop.simps)
  next
    case True
    let ?g = "g\<lparr>winsect := winsect g + 1\<rparr>"
    have clean: "vol sectors g = sectors (disk g)" using vol_clean [OF g(2) g(8) [OF True]] .
    note f = only_window_fields [OF ow]
    have s1: "unat (?s + 1) = unat ?s + 1" using Suc.prems(5) by (simp add: unat_word_ariths)
    have "?s \<le> ?s + 1" using s1 by (simp add: word_le_nat_alt)
    then have pre: "good (disk ?g)" "win ?g = zeros" "fatbase ?g \<noteq> 0" "fatbase ?g \<le> winsect ?g" "unat (winsect ?g) + n < 2 ^ 32"
      "unat (fatbase ?g) + unat (n_fats ?g) * unat (sects_fat ?g) < 2 ^ 32" "span (winsect ?g) n \<inter> mirror ?g = {}"
      "n = 0 \<Longrightarrow> wflag ?g = 0"
      using Suc.prems g(2,5,6,8) True f s1 span by (auto simp: fs_inv_def mirror_def)
    obtain ok gs where h: "clear_loop dev n ?g = Some (ok, gs)" "only_window ?g gs" "good (disk gs)" "win gs = zeros"
      "if ok then winsect gs = winsect ?g + of_nat n \<and> wflag gs = 0 \<and> (\<forall>x. x \<notin> mirror ?g \<longrightarrow>
         sectors (disk gs) x = (if x \<in> span (winsect ?g) n then zeros else sectors (disk ?g) x))
       else fs_inv sectors good gs \<and> winsect gs \<noteq> 0
         \<and> (\<forall>x. x \<notin> mirror ?g \<longrightarrow> x \<notin> span (winsect ?g) n \<longrightarrow> vol sectors gs x = sectors (disk ?g) x)"
      using Suc.IH [OF pre] by blast
    have m: "mirror ?g = mirror fs" using f(14) by (simp add: mirror_def)
    have "only_window g ?g" by (simp add: only_window_upd)
    then have "only_window fs gs" using only_window_trans [OF only_window_trans [OF ow] h(2)] by blast
    moreover have "clear_loop dev (Suc n) fs = Some (ok, gs)" using g(1) True h(1) by simp
    moreover have "sectors (disk g) x = (if x = ?s then zeros else sectors (disk fs) x)" if "x \<notin> mirror fs" for x
      using vol [OF that] clean by simp
    ultimately show ?thesis using h(3-5) g(6) m span
      by (intro exI [of _ ok] exI [of _ gs]) (auto simp: add.assoc simp del: clear_loop.simps)
  qed
qed

lemma cluster_span: "set (cluster_sectors fs c) = span (clust2sect c fs) (unat (csize fs))"
  by (auto simp: cluster_sectors_def span_def)

lemma clear_cluster_ok:
  assumes "fs_inv sectors good fs" "table_ok fs" "data_ok fs" "cluster_no fs c" "winsect fs \<noteq> 0"
  shows "\<exists>r gs. clear_cluster dev c fs = Some (r, gs) \<and> r \<in> {FR_OK, FR_DISK_ERR} \<and> fs_inv sectors good gs \<and> only_window fs gs
    \<and> winsect gs \<noteq> 0
    \<and> (\<forall>x. x \<notin> mirror fs \<longrightarrow> x \<notin> set (cluster_sectors fs c) \<longrightarrow> vol sectors gs x = vol sectors fs x)
    \<and> (r = FR_OK \<longrightarrow> (\<forall>x \<in> set (cluster_sectors fs c). vol sectors gs x = zeros))"
proof -
  let ?n = "unat (csize fs)" and ?s = "clust2sect c fs"
  have inv: "unat (fatbase fs) + unat (n_fats fs) * unat (sects_fat fs) < 2 ^ 32" using assms(1) by (simp add: fs_inv_def)
  have n: "0 < ?n" using assms(3) by (simp add: data_ok_def word_less_nat_alt)
  obtain r f1 where f1: "move_window dev 0 fs = Some (r, f1)" "wstep fs f1" "r \<in> {FR_OK, FR_DISK_ERR}" "r = FR_OK \<longrightarrow> wflag f1 = 0"
    using move_window_ok [OF assms(1), of 0] by auto
  have w1: "fs_inv sectors good f1" "only_window fs f1" "winsect f1 \<noteq> 0"
    "\<And>x. x \<notin> mirror fs \<Longrightarrow> vol sectors f1 x = vol sectors fs x" using f1(2) assms(5) by (auto simp: wstep_def)
  show ?thesis
  proof (cases "r = FR_OK")
    case False
    then have "clear_cluster dev c fs = Some (FR_DISK_ERR, f1)" using f1(1) by (simp add: clear_cluster_def)
    then show ?thesis using w1 by simp
  next
    case True
    define f2 where "f2 = (win_upd (mem_set 0 0 512) f1)\<lparr>winsect := ?s\<rparr>"
    note f = only_window_fields [OF w1(2)]
    have len: "length (win f1) = 512" using w1(1) by (simp add: fs_inv_def)
    have win2: "win f2 = zeros" using mem_set_split [of 0 512 "win f1" 0] len by (simp add: f2_def win_upd_def)
    have ow2: "only_window fs f2" unfolding f2_def win_upd_def using w1(2) by (intro only_window_upd)
    have s: "clust2sect c f1 = ?s" "clust2sect c (win_upd (mem_set 0 0 512) f1) = ?s"
      using chain_sectors_cong(3) [of f1 fs c] f by (simp_all add: clust2sect_def Let_def win_upd_def)
    have out: "x \<notin> mirror fs" "database fs \<le> x" if "x \<in> span ?s ?n" for x
      using sector_outside_tables [OF assms(3,4)] that mirror_fat_area [of x fs] unfolding cluster_span by blast+
    have fits: "unat ?s + ?n < 2 ^ 32"
      using clust2sect_unat(2) [OF assms(3,4)] sector_unat [OF assms(3,4), of 0] n assms(3) by (simp add: data_ok_def)
    have ge: "fatbase fs \<le> ?s"
    proof -
      have "?s \<in> span ?s ?n" using n by (force simp: span_def)
      then have "database fs \<le> ?s" by (rule out)
      then show ?thesis using assms(3) by (simp add: data_ok_def word_le_nat_alt)
    qed
    have pre: "good (disk f2)" "fatbase f2 \<noteq> 0" "fatbase f2 \<le> winsect f2" "unat (winsect f2) + ?n < 2 ^ 32"
      "unat (fatbase f2) + unat (n_fats f2) * unat (sects_fat f2) < 2 ^ 32" "span (winsect f2) ?n \<inter> mirror f2 = {}"
      "?n = 0 \<Longrightarrow> wflag f2 = 0"
      using w1(1) assms(2) ge fits inv out(1) n only_window_fields [OF ow2]
      by (auto simp: f2_def win_upd_def fs_inv_def table_ok_def mirror_def)
    obtain ok gs where g: "clear_loop dev ?n f2 = Some (ok, gs)" "only_window f2 gs" "good (disk gs)" "win gs = zeros"
      "if ok then winsect gs = winsect f2 + of_nat ?n \<and> wflag gs = 0 \<and> (\<forall>x. x \<notin> mirror f2 \<longrightarrow>
         sectors (disk gs) x = (if x \<in> span (winsect f2) ?n then zeros else sectors (disk f2) x))
       else fs_inv sectors good gs \<and> winsect gs \<noteq> 0
         \<and> (\<forall>x. x \<notin> mirror f2 \<longrightarrow> x \<notin> span (winsect f2) ?n \<longrightarrow> vol sectors gs x = sectors (disk f2) x)"
      using clear_loop_ok [OF pre(1) win2 pre(2-7)] by blast
    have d2: "sectors (disk f2) x = vol sectors fs x" if "x \<notin> mirror fs" for x
      using vol_clean [OF w1(1)] f1(4) True w1(4) [OF that] by (simp add: f2_def win_upd_def)
    have m2: "mirror f2 = mirror fs" "winsect f2 = ?s" "csize f2 = csize fs"
      using only_window_fields [OF ow2] by (simp_all add: f2_def)
    have owg: "only_window fs gs" using only_window_trans [OF ow2 g(2)] .
    have run: "clear_cluster dev c fs = Some (if ok then (FR_OK, gs\<lparr>winsect := winsect gs - ucast (csize gs)\<rparr>) else (FR_DISK_ERR, gs))"
      using f1(1) True g(1) s f by (simp add: clear_cluster_def f2_def Let_def win_upd_def)
    show ?thesis
    proof (cases ok)
      case False
      then show ?thesis using run g(5) owg d2 m2 unfolding cluster_span by auto
    next
      case ok: True
      let ?g = "gs\<lparr>winsect := winsect gs - ucast (csize gs)\<rparr>"
      have "ucast (csize gs) = (of_nat ?n :: u32)" using only_window_fields(2) [OF owg] by simp
      then have ws: "winsect ?g = ?s" using g(5) ok m2 by simp
      have nz: "?s \<noteq> 0" using ge assms(2) by (auto simp: table_ok_def word_le_nat_alt unat_eq_zero)
      have d: "sectors (disk gs) x = (if x \<in> span ?s ?n then zeros else vol sectors fs x)" if "x \<notin> mirror fs" for x
        using g(5) ok m2 d2 that by simp
      have "?s \<in> span ?s ?n" using n by (force simp: span_def)
      then have at: "sectors (disk gs) ?s = zeros" using d out(1) by simp
      have v: "vol sectors ?g x = sectors (disk gs) x" for x using ws at g(4) by (simp add: vol_def)
      have "fs_inv sectors good ?g" using g(3,4,5) ok ws at nz ge inv only_window_fields [OF owg] by (simp add: fs_inv_def)
      moreover have "only_window fs ?g" using owg by (rule only_window_upd)
      ultimately show ?thesis using run ok ws nz v d out(1) unfolding cluster_span by auto
    qed
  qed
qed

text \<open>What a change of a directory's chain keeps: the clusters, the sectors and the entries of all others.\<close>

definition stretched :: "'d fatfs \<Rightarrow> u32 \<Rightarrow> u32 list \<Rightarrow> u32 list \<Rightarrow> 'd fatfs \<Rightarrow> bool" where
  "stretched fs sc cs cs' gs \<longleftrightarrow> fs_inv sectors good gs \<and> same_volume fs gs \<and> winsect gs \<noteq> 0
     \<and> dir_ok (fat_entry sectors gs) gs sc cs'
     \<and> (\<exists>ds. cs' = cs @ ds \<and> (\<forall>v \<in> set ds. cluster_no fs v \<and> fat_entry sectors fs v = 0)
        \<and> (\<forall>x. cluster_no fs x \<longrightarrow> x \<notin> set ds \<longrightarrow> (ds \<noteq> [] \<longrightarrow> x \<noteq> last cs) \<longrightarrow> fat_entry sectors gs x = fat_entry sectors fs x)
        \<and> (\<forall>x. x \<notin> fat_area fs \<longrightarrow> x \<notin> set (chain_sectors fs ds) \<longrightarrow> vol sectors gs x = vol sectors fs x)
        \<and> (\<forall>x \<in> set (chain_sectors fs ds). vol sectors gs x = zeros))"

lemma next_dir_cluster_ok:
  assumes "fs_inv sectors good fs" "table_ok fs" "data_ok fs" "winsect fs \<noteq> 0"
    and "dir_ok (fat_entry sectors fs) fs sc cs" "sc \<noteq> 0"
  shows "\<exists>r gs. next_dir_cluster dev (last cs) True fs = Some (r, gs) \<and> fs_inv sectors good gs \<and> same_volume fs gs \<and> winsect gs \<noteq> 0
    \<and> (case r of Inl e \<Rightarrow> e \<in> {FR_DENIED, FR_INT_ERR, FR_DISK_ERR} | Inr v \<Rightarrow> stretched fs sc cs (cs @ [v]) gs)"
proof -
  have cs: "cs \<noteq> []" and ch: "chain (fat_entry sectors fs) (max_clust fs) sc cs" using assms(5,6) by (simp_all add: dir_ok_def)
  let ?c = "last cs"
  have c: "cluster_no fs ?c" using chain_members [OF ch last_in_set [OF cs]] by (simp add: cluster_no_def)
  have final: "max_clust fs \<le> fat_entry sectors fs ?c"
    using chain_nth_next [OF ch, of "length cs - 1"] cs by (simp add: last_conv_nth)
  have m2: "2 \<le> max_clust fs" using assms(2) by (simp add: table_ok_def)
  obtain v f1 where f1: "get_cluster dev ?c fs = Some (v, f1)" "wstep fs f1" "v = fat_entry sectors fs ?c \<or> v = 0xFFFFFFFF"
    using get_cluster_ok [OF assms(1,2) c] by blast
  have cs1: "cstep fs f1" using wstep_cstep [OF f1(2) assms(4)] .
  note k1 = cstep_keeps [OF cs1]
  have big: "\<not> v \<le> 1" "v \<noteq> 0xFFFFFFFF \<longrightarrow> max_clust f1 \<le> v" using f1(3) final m2 k1(5) by (auto simp: word_le_nat_alt)
  have e1: "fat_entry sectors f1 x = fat_entry sectors fs x" if "cluster_no fs x" for x
    using wstep_entry [OF f1(2) assms(2,1) that] .
  show ?thesis
  proof (cases "v = 0xFFFFFFFF")
    case True
    then have "next_dir_cluster dev ?c True fs = Some (Inl FR_DISK_ERR, f1)"
      using f1(1) big by (simp add: next_dir_cluster_def)
    then show ?thesis using k1 cstep_volume [OF cs1] by simp
  next
    case False
    obtain n f2 where f2: "create_chain dev ?c f1 = Some (n, f2)" "alloc_post f1 ?c n f2"
      using create_chain_ok [OF k1(1) _ k1(2), of ?c] k1(3-5) assms(2) c final e1 by auto
    have cs2: "cstep f1 f2" using f2(2) by (auto simp: alloc_post_def)
    note k2 = cstep_keeps [OF cs2]
    have sv2: "same_volume fs f2" using same_volume_trans [OF cstep_volume [OF cs1] cstep_volume [OF cs2]] .
    show ?thesis
    proof (cases "n \<in> {0, 1, 0xFFFFFFFF}")
      case True
      then have "next_dir_cluster dev ?c True fs
          = Some (Inl (if n = 0 then FR_DENIED else if n = 1 then FR_INT_ERR else FR_DISK_ERR), f2)"
        using f1(1) big False f2(1) by (auto simp: next_dir_cluster_def)
      then show ?thesis using k2 sv2 by auto
    next
      case new: False
      have nf: "cluster_no fs n" "fat_entry sectors fs n = 0"
        using f2(2) new k1(4) e1 by (auto simp: alloc_post_def)
      have old: "fat_entry sectors f2 x = fat_entry sectors fs x" if "cluster_no fs x" "x \<noteq> n" "x \<noteq> ?c" for x
        using f2(2) new k1(4) e1 that by (auto simp: alloc_post_def)
      have ch1: "chain (fat_entry sectors f1) (max_clust f1) sc cs"
        unfolding k1(5) by (rule chain_cong [OF ch]) (use e1 chain_members [OF ch] in \<open>simp add: cluster_no_def\<close>)
      have ch2: "chain (fat_entry sectors f2) (max_clust f2) sc (cs @ [n])"
      proof -
        have eq: "cs @ [n] = butlast cs @ [?c, n]" using cs by (metis append_butlast_last_id append_assoc append_Cons append_Nil)
        have "?c \<noteq> 0" using c by (auto simp: cluster_no_def)
        then show ?thesis unfolding eq using alloc_extends [OF f2(2) new, of sc "butlast cs"] ch1 cs by simp
      qed
      have n2: "table_ok f2" "data_ok f2" "cluster_no f2 n"
        using same_volume_keeps [OF sv2] assms(2,3) nf(1) by simp_all
      obtain r f3 where f3: "clear_cluster dev n f2 = Some (r, f3)" "r \<in> {FR_OK, FR_DISK_ERR}" "fs_inv sectors good f3"
        "only_window f2 f3" "winsect f3 \<noteq> 0"
        "\<forall>x. x \<notin> mirror f2 \<longrightarrow> x \<notin> set (cluster_sectors f2 n) \<longrightarrow> vol sectors f3 x = vol sectors f2 x"
        "r = FR_OK \<longrightarrow> (\<forall>x \<in> set (cluster_sectors f2 n). vol sectors f3 x = zeros)"
        using clear_cluster_ok [OF k2(1) n2 k2(2)] by blast
      have sv3: "same_volume f2 f3" using only_window_volume [OF f3(4)] .
      note sv = same_volume_trans [OF sv2 sv3]
      note kk = same_volume_keeps [OF sv2]
      have out: "x \<notin> set (cluster_sectors f2 n)" if "x \<in> fat_area f2" for x
        using sector_outside_tables(1) [OF n2(2,3)] that by blast
      have lt: "unat (fatbase f2) + unat (n_fats f2) * unat (sects_fat f2) < 2 ^ 32" using k2(1) by (simp add: fs_inv_def)
      have ent: "fat_entry sectors f3 x = fat_entry sectors f2 x" if "cluster_no f2 x" for x
        using fat_entry_vol [OF sv3 n2(1) lt _ that, of sectors sectors] f3(6) out by blast
      have run: "next_dir_cluster dev ?c True fs = Some (if r \<noteq> FR_OK then Inl r else Inr n, f3)"
        using f1(1) big False f2(1) f3(1) new by (auto simp: next_dir_cluster_def)
      show ?thesis
      proof (cases "r = FR_OK")
        case False
        then show ?thesis using run f3 sv by auto
      next
        case True
        have mem: "cluster_no fs x" if "x \<in> set (cs @ [n])" for x
          using that nf(1) chain_members [OF ch] by (auto simp: cluster_no_def)
        have "chain (fat_entry sectors f3) (max_clust f2) sc (cs @ [n])"
          by (rule chain_cong [OF ch2]) (use ent mem kk(2) in simp)
        then have "dir_ok (fat_entry sectors f3) f3 sc (cs @ [n])"
          using assms(5,6) same_volume_cong [OF sv] same_volume_cong(1) [OF sv3] by (simp add: dir_ok_def pow2_cluster_def)
        moreover have "vol sectors f3 x = vol sectors fs x" if "x \<notin> fat_area fs" "x \<notin> set (cluster_sectors fs n)" for x
        proof -
          have "x \<notin> mirror f2" "x \<notin> set (cluster_sectors f2 n)" using that mirror_fat_area [of x f2] kk by auto
          then have "vol sectors f3 x = vol sectors f2 x" using f3(6) by blast
          then show ?thesis using cstep_vol [OF cs2, of x] cstep_vol [OF cs1, of x] that(1) k1(7) by simp
        qed
        moreover have "fat_entry sectors f3 x = fat_entry sectors fs x" if "cluster_no fs x" "x \<noteq> n" "x \<noteq> ?c" for x
          using ent old that kk(2) by simp
        moreover have "\<forall>x \<in> set (cluster_sectors fs n). vol sectors f3 x = zeros" using f3(7) True kk by simp
        ultimately have "stretched fs sc cs (cs @ [n]) f3"
          unfolding stretched_def using f3(3,5) sv nf by (intro conjI exI [of _ "[n]"]) (auto simp: chain_sectors_def)
        then show ?thesis using run True f3(3,5) sv by simp
      qed
    qed
  qed
qed

lemma dir_next_stretch:
  assumes "fs_inv sectors good fs" "table_ok fs" "data_ok fs" "winsect fs \<noteq> 0"
    and "dir_ok (fat_entry sectors fs) fs (sclust dj) cs" "sclust dj \<noteq> 0" "at_slot fs cs i dj"
    and "Suc i = slot_count fs (sclust dj) cs" "Suc i < 65536"
  shows "\<exists>r dj' gs. dir_next dev dj True fs = Some (r, dj', gs) \<and> fs_inv sectors good gs \<and> same_volume fs gs \<and> winsect gs \<noteq> 0
    \<and> dj_fn dj' = dj_fn dj \<and> sclust dj' = sclust dj \<and> r \<noteq> FR_NO_FILE
    \<and> (r = FR_OK \<longrightarrow> (\<exists>v. stretched fs (sclust dj) cs (cs @ [v]) gs \<and> at_slot gs (cs @ [v]) (Suc i) dj'))"
proof -
  let ?sc = "sclust dj" and ?n = "unat (csize fs)"
  note d = assms(5) [unfolded dir_ok_def]
  note n = csize_bounds [OF d [THEN conjunct1]]
  note at = assms(7) [unfolded at_slot_def]
  have nz: "dj_sect dj \<noteq> 0" using slot_sector_ok(1) [OF assms(5,2,3), of i] at assms(8) by simp
  have idx: "dj_index dj + 1 = of_nat (Suc i)" "(of_nat (Suc i) :: u16) \<noteq> 0"
    using at index_succ(1) [of i] index_succ(2) [OF assms(9)] by argo+
  have m0: "Suc i mod 16 = 0" unfolding assms(8) by (rule slots_mod)
  then have succ: "Suc i div 16 = Suc (i div 16)" by (simp add: div_Suc)
  let ?j = "Suc (i div 16)"
  have j: "?j = length cs * ?n" using assms(6,8) succ by (simp add: slot_count_def)
  have "ucast ((of_nat (Suc i) :: u16) div 16) AND (ucast (csize fs) - 1) = (0 :: u32) \<longleftrightarrow> ?j mod ?n = 0"
    using mask_mod [OF d [THEN conjunct1], of ?j] assms(9) unfolding index_div(1) [OF assms(9)] succ
    by (simp del: of_nat_Suc)
  then have m: "ucast ((of_nat (Suc i) :: u16) div 16) AND (ucast (csize fs) - 1) = (0 :: u32)" by (simp add: j)
  have q: "Suc (i div 16 div ?n) = length cs"
  proof -
    have "?j div ?n = length cs" unfolding j using n(1) by simp
    moreover have "?j mod ?n = 0" by (simp add: j)
    ultimately show ?thesis by (simp add: div_Suc)
  qed
  then have cl: "clust dj = last cs" using at assms(6) by (cases cs rule: rev_cases) auto
  obtain r gs where g: "next_dir_cluster dev (last cs) True fs = Some (r, gs)" "fs_inv sectors good gs" "same_volume fs gs" "winsect gs \<noteq> 0"
    "case r of Inl e \<Rightarrow> e \<in> {FR_DENIED, FR_INT_ERR, FR_DISK_ERR} | Inr v \<Rightarrow> stretched fs ?sc cs (cs @ [v]) gs"
    using next_dir_cluster_ok [OF assms(1-6)] by blast
  show ?thesis
  proof (cases r)
    case (Inl e)
    then have "dir_next dev dj True fs = Some (e, dj\<lparr>dj_sect := dj_sect dj + 1\<rparr>, gs)"
      using nz idx index_div(2) [OF assms(9)] m0 m assms(6) g(1,5) cl unfolding dir_next_def idx
      by (auto simp: Let_def simp del: of_nat_Suc)
    then show ?thesis using g(2-5) Inl by auto
  next
    case (Inr v)
    let ?dj = "dj\<lparr>clust := v, dj_sect := clust2sect v gs, dj_index := of_nat (Suc i), dj_dir := Some (entry_ofs (of_nat (Suc i)))\<rparr>"
    have run: "dir_next dev dj True fs = Some (FR_OK, ?dj, gs)"
      using nz idx index_div(2) [OF assms(9)] m0 m assms(6) g(1) cl Inr unfolding dir_next_def idx
      by (simp add: Let_def del: of_nat_Suc)
    have n': "csize gs = csize fs" using g(3) by (simp add: same_volume_def)
    have cnt: "Suc i < slot_count gs ?sc (cs @ [v])" using assms(6,8) n(1) n' by (simp add: slot_count_def)
    moreover have "chain_sectors gs (cs @ [v]) ! ?j = clust2sect v gs"
      using nth_chain_sectors [of ?j "cs @ [v]" gs] n' n(1) by (simp add: j)
    ultimately have "at_slot gs (cs @ [v]) (Suc i) ?dj"
      using assms(6,9) entry_ofs_slot [OF assms(9)] succ j n(1) n' by (simp add: at_slot_def slots_def slot_sector_def)
    then show ?thesis using run g(2-5) Inr by auto
  qed
qed

end

section \<open>A free slot\<close>

definition slot_free :: "(u32 \<Rightarrow> u8 list) \<Rightarrow> 'd fatfs \<Rightarrow> u32 \<Rightarrow> u32 list \<Rightarrow> nat \<Rightarrow> bool" where
  "slot_free v fs sc cs i \<longleftrightarrow> v (slot_sector fs sc cs i) ! (i mod 16 * 32) \<in> {0xE5, 0}"

context block_device
begin

lemma stretched_refl:
  assumes "fs_inv sectors good fs" "winsect fs \<noteq> 0" "dir_ok (fat_entry sectors fs) fs sc cs"
  shows "stretched fs sc cs cs fs"
  unfolding stretched_def using assms by (intro conjI exI [of _ "[]"]) (auto simp: chain_sectors_def)

lemma stretched_wstep:
  assumes "stretched fs sc cs cs' gs" "wstep gs hs" "table_ok fs" "data_ok fs"
  shows "stretched fs sc cs cs' hs"
proof -
  note s = assms(1) [unfolded stretched_def]
  have sv: "same_volume fs gs" using s by blast
  note k = same_volume_keeps [OF sv]
  have t: "table_ok gs" "data_ok gs" using k assms(3,4) by simp_all
  have inv: "fs_inv sectors good gs" and d: "dir_ok (fat_entry sectors gs) gs sc cs'" using s by blast+
  note w = search_keeps [OF assms(2) inv t d]
  have sv2: "same_volume gs hs" using assms(2) by (auto simp: wstep_def intro: only_window_volume)
  obtain ds where ds: "cs' = cs @ ds" "\<forall>v \<in> set ds. cluster_no fs v \<and> fat_entry sectors fs v = 0"
    "\<And>x. cluster_no fs x \<Longrightarrow> x \<notin> set ds \<Longrightarrow> (ds \<noteq> [] \<longrightarrow> x \<noteq> last cs) \<Longrightarrow> fat_entry sectors gs x = fat_entry sectors fs x"
    "\<And>x. x \<notin> fat_area fs \<Longrightarrow> x \<notin> set (chain_sectors fs ds) \<Longrightarrow> vol sectors gs x = vol sectors fs x"
    "\<And>x. x \<in> set (chain_sectors fs ds) \<Longrightarrow> vol sectors gs x = zeros" using s by auto
  have v: "vol sectors hs x = vol sectors gs x" if "x \<notin> fat_area fs" for x
    using assms(2) that mirror_fat_area [of x gs] k(3) by (auto simp: wstep_def)
  have e: "fat_entry sectors hs x = fat_entry sectors gs x" if "cluster_no fs x" for x
    using wstep_entry [OF assms(2) t(1) inv] that k(2) by simp
  have out: "x \<notin> fat_area fs" if x: "x \<in> set (chain_sectors fs ds)" for x
  proof -
    obtain c where "c \<in> set ds" "x \<in> set (cluster_sectors fs c)" using x by (auto simp: chain_sectors_def)
    then show ?thesis using sector_outside_tables(1) [OF assms(4)] ds(2) by blast
  qed
  show ?thesis unfolding stretched_def
  proof (intro conjI exI [of _ ds])
    show "fs_inv sectors good hs" "same_volume fs hs" "winsect hs \<noteq> 0" "dir_ok (fat_entry sectors hs) hs sc cs'"
      using w(1,4) same_volume_trans [OF sv sv2] assms(2) s by (auto simp: wstep_def)
  qed (use ds v e out in auto)
qed

lemma stretched_trans:
  assumes "stretched fs sc cs cs gs" "stretched gs sc cs cs' hs"
  shows "stretched fs sc cs cs' hs"
proof -
  have sv: "same_volume fs gs" "same_volume gs hs" using assms by (simp_all add: stretched_def)
  note k = same_volume_keeps [OF sv(1)]
  have g: "\<And>x. cluster_no fs x \<Longrightarrow> fat_entry sectors gs x = fat_entry sectors fs x"
    "\<And>x. x \<notin> fat_area fs \<Longrightarrow> vol sectors gs x = vol sectors fs x"
    using assms(1) by (auto simp: stretched_def chain_sectors_def)
  show ?thesis using assms(2) same_volume_trans [OF sv] unfolding stretched_def k
    by (elim conjE exE) (intro conjI exI; (assumption | use g in force)?)
qed

text \<open>The object after a change of the chain is a well-formed volume with the same directory, possibly longer.\<close>

lemma stretched_keeps:
  assumes "stretched fs sc cs cs' gs" "table_ok fs" "data_ok fs"
  shows "fs_inv sectors good gs" "table_ok gs" "data_ok gs" "winsect gs \<noteq> 0" "dir_ok (fat_entry sectors gs) gs sc cs'"
    "same_volume fs gs"
  using assms same_volume_keeps [of fs gs] by (simp_all add: stretched_def)

text \<open>The old slots stay where they are and as they are; the new ones are clear.\<close>

lemma stretched_slots:
  assumes "stretched fs sc cs cs' gs" "table_ok fs" "data_ok fs" "dir_ok (fat_entry sectors fs) fs sc cs"
  shows "j < slot_count fs sc cs \<Longrightarrow> slot_sector gs sc cs' j = slot_sector fs sc cs j
      \<and> vol sectors gs (slot_sector fs sc cs j) = vol sectors fs (slot_sector fs sc cs j)"
    "slot_count fs sc cs \<le> j \<Longrightarrow> j < slot_count gs sc cs' \<Longrightarrow> vol sectors gs (slot_sector gs sc cs' j) = zeros"
    "slot_count fs sc cs \<le> slot_count gs sc cs'"
proof -
  note s = assms(1) [unfolded stretched_def]
  have sv: "same_volume fs gs" using s by blast
  have dir: "dirbase gs = dirbase fs" "n_rootdir gs = n_rootdir fs" using sv by (simp_all add: same_volume_def)
  note k = same_volume_keeps [OF sv]
  obtain ds where ds: "cs' = cs @ ds" "\<forall>v \<in> set ds. cluster_no fs v \<and> fat_entry sectors fs v = 0"
    "\<And>x. x \<notin> fat_area fs \<Longrightarrow> x \<notin> set (chain_sectors fs ds) \<Longrightarrow> vol sectors gs x = vol sectors fs x"
    "\<And>x. x \<in> set (chain_sectors fs ds) \<Longrightarrow> vol sectors gs x = zeros" using s by auto
  have app: "chain_sectors fs cs' = chain_sectors fs cs @ chain_sectors fs ds" by (simp add: ds(1) chain_sectors_def)
  have root: "ds = []" "cs = []" if "sc = 0" using s assms(4) that ds(1) by (auto simp: dir_ok_def)
  show "slot_count fs sc cs \<le> slot_count gs sc cs'"
    using app k dir by (simp add: slot_count_def root_slots_def)
  show "slot_sector gs sc cs' j = slot_sector fs sc cs j
      \<and> vol sectors gs (slot_sector fs sc cs j) = vol sectors fs (slot_sector fs sc cs j)" if j: "j < slot_count fs sc cs"
  proof
    show "slot_sector gs sc cs' j = slot_sector fs sc cs j"
      using j app k dir by (auto simp: slot_sector_def slot_count_def nth_append)
    have "slot_sector fs sc cs j \<notin> set (chain_sectors fs ds)"
    proof (cases "sc = 0")
      case True
      then show ?thesis using root by (simp add: chain_sectors_def)
    next
      case False
      then have ch: "chain (fat_entry sectors fs) (max_clust fs) sc cs" using assms(4) by (simp add: dir_ok_def)
      have "j div 16 < length (chain_sectors fs cs)" using j False by (simp add: slot_count_def)
      then have "slot_sector fs sc cs j \<in> set (chain_sectors fs cs)" using False by (simp add: slot_sector_def)
      then obtain c where c: "c \<in> set cs" "slot_sector fs sc cs j \<in> set (cluster_sectors fs c)" by (auto simp: chain_sectors_def)
      then have "cluster_no fs c" "fat_entry sectors fs c \<noteq> 0" using chain_members [OF ch] by (simp_all add: cluster_no_def)
      then show ?thesis using sectors_disjoint [OF assms(3)] c(2) ds(2) by (fastforce simp: chain_sectors_def)
    qed
    then show "vol sectors gs (slot_sector fs sc cs j) = vol sectors fs (slot_sector fs sc cs j)"
      using ds(3) slot_sector_ok(3) [OF assms(4,2,3) j] by blast
  qed
  show "vol sectors gs (slot_sector gs sc cs' j) = zeros" if "slot_count fs sc cs \<le> j" "j < slot_count gs sc cs'"
  proof (cases "sc = 0")
    case True
    then show ?thesis using that dir by (simp add: slot_count_def root_slots_def)
  next
    case False
    have "length (chain_sectors fs cs) \<le> j div 16" "j div 16 < length (chain_sectors fs cs')"
      using that False k by (simp_all add: slot_count_def)
    then have "chain_sectors fs cs' ! (j div 16) \<in> set (chain_sectors fs ds)"
      unfolding app by (simp add: nth_append)
    then show ?thesis using ds(4) False k by (simp add: slot_sector_def)
  qed
qed

definition blank_post :: "'d fatfs \<Rightarrow> u32 \<Rightarrow> u32 list \<Rightarrow> u8 list \<Rightarrow> FRESULT \<Rightarrow> DIR \<Rightarrow> 'd fatfs \<Rightarrow> bool" where
  "blank_post fs sc cs fn r dj' gs \<longleftrightarrow> fs_inv sectors good gs \<and> same_volume fs gs \<and> dj_fn dj' = fn \<and> sclust dj' = sc
     \<and> (r = FR_OK \<longrightarrow> winsect gs = dj_sect dj' \<and> (\<exists>k cs'. stretched fs sc cs cs' gs \<and> at_slot gs cs' k dj'
         \<and> slot_free (vol sectors gs) gs sc cs' k \<and> (\<forall>j < k. \<not> slot_free (vol sectors gs) gs sc cs' j)))"

text \<open>A round that finds a free slot, and one that goes on.\<close>

lemma blank_loop_round:
  assumes "stretched f0 (sclust dj) cs cs' fs" "table_ok f0" "data_ok f0" "at_slot fs cs' i dj"
    and "\<forall>j < i. \<not> slot_free (vol sectors fs) fs (sclust dj) cs' j"
  shows "(\<exists>r gs. blank_loop dev dj fs = Some (r, dj, gs) \<and> blank_post f0 (sclust dj) cs (dj_fn dj) r dj gs)
    \<or> \<not> slot_free (vol sectors fs) fs (sclust dj) cs' i \<and> (\<exists>gs. wstep fs gs \<and> blank_loop dev dj fs = do {
         (res, dj, fs) \<leftarrow> dir_next dev dj True gs;
         if res = FR_OK then blank_loop dev dj fs else Some (res, dj, fs) })"
proof -
  let ?sc = "sclust dj" and ?d = "i mod 16 * 32"
  note k0 = stretched_keeps [OF assms(1-3)]
  have i: "i < slot_count fs ?sc cs'" "dj_dir dj = Some ?d" "dj_sect dj = slot_sector fs ?sc cs' i"
    using assms(4) by (simp_all add: at_slot_def slots_def)
  obtain r gs where g: "move_window dev (dj_sect dj) fs = Some (r, gs)" "wstep fs gs" "r \<in> {FR_OK, FR_DISK_ERR}"
    "r = FR_OK \<longrightarrow> winsect gs = dj_sect dj \<and> win gs = vol sectors fs (slot_sector fs ?sc cs' i)"
    using slot_window [OF k0(1-3) k0(5) assms(4)] by blast
  note k = search_keeps [OF g(2) k0(1-3) k0(5)]
  have st: "stretched f0 ?sc cs cs' gs" using stretched_wstep [OF assms(1) g(2) assms(2,3)] .
  note k1 = stretched_keeps [OF st assms(2,3)]
  show ?thesis
  proof (cases "r = FR_OK")
    case False
    then have "blank_loop dev dj fs = Some (r, dj, gs)" using g(1) by (subst blank_loop.simps) simp
    then show ?thesis using k1 False by (simp add: blank_post_def)
  next
    case r: True
    then have w: "win gs = vol sectors fs (slot_sector fs ?sc cs' i)" using g(4) by blast
    have same: "slot_free (vol sectors gs) gs ?sc cs' j = slot_free (vol sectors fs) fs ?sc cs' j" if "j \<le> i" for j
      using k(7,9) i(1) that by (simp add: slot_free_def)
    show ?thesis
    proof (cases "slot_free (vol sectors fs) fs ?sc cs' i")
      case True
      then have "blank_loop dev dj fs = Some (FR_OK, dj, gs)"
        using g(1) r i(2) w by (subst blank_loop.simps) (auto simp: slot_free_def)
      moreover have "blank_post f0 ?sc cs (dj_fn dj) FR_OK dj gs"
        using st k1 g(4) r assms(4,5) k(5) same True unfolding blank_post_def
        by (intro conjI impI exI [of _ i] exI [of _ cs']) auto
      ultimately show ?thesis by blast
    next
      case False
      then have "blank_loop dev dj fs = do {
         (res, dj, fs) \<leftarrow> dir_next dev dj True gs;
         if res = FR_OK then blank_loop dev dj fs else Some (res, dj, fs) }"
        using g(1) r i(2) w by (subst blank_loop.simps) (auto simp: slot_free_def)
      then show ?thesis using False g(2) by blast
    qed
  qed
qed

lemma blank_loop_ok:
  assumes "stretched f0 (sclust dj) cs cs fs" "table_ok f0" "data_ok f0" "at_slot fs cs i dj"
    and "\<forall>j < i. \<not> slot_free (vol sectors fs) fs (sclust dj) cs j"
  shows "\<exists>r dj' gs. blank_loop dev dj fs = Some (r, dj', gs) \<and> blank_post f0 (sclust dj) cs (dj_fn dj) r dj' gs"
  using assms
proof (induction "65536 - i" arbitrary: i dj fs rule: less_induct)
  case less
  let ?sc = "sclust dj" and ?fn = "dj_fn dj"
  from blank_loop_round [OF less.prems] show ?case
  proof (elim disjE conjE exE)
    fix gs assume busy: "\<not> slot_free (vol sectors fs) fs ?sc cs i" and g: "wstep fs gs"
      and loop: "blank_loop dev dj fs = do {
         (res, dj, fs) \<leftarrow> dir_next dev dj True gs;
         if res = FR_OK then blank_loop dev dj fs else Some (res, dj, fs) }"
    have st: "stretched f0 ?sc cs cs gs" using stretched_wstep [OF less.prems(1) g less.prems(2,3)] .
    note k = stretched_keeps [OF st less.prems(2,3)]
    note k0 = stretched_keeps [OF less.prems(1-3)]
    note sk = search_keeps [OF g k0(1-3) k0(5)]
    have at: "at_slot gs cs i dj" using less.prems(4) sk(5) by simp
    have i: "i < slot_count gs ?sc cs" "i < slots gs ?sc cs" using at by (simp_all add: at_slot_def slots_def)
    have same: "slot_free (vol sectors gs) gs ?sc cs j = slot_free (vol sectors fs) fs ?sc cs j" if "j \<le> i" for j
      using sk(7,8,9) i(1) that by (simp add: slot_free_def)
    have passed: "\<not> slot_free (vol sectors gs) gs ?sc cs j" if "j < Suc i" for j
      using same busy less.prems(5) that by (auto simp: less_Suc_eq)
    show ?thesis
    proof (cases "Suc i < slots gs ?sc cs")
      case True
      obtain r dj' hs where h: "dir_next dev dj True gs = Some (r, dj', hs)" "wstep gs hs" "dj_fn dj' = ?fn" "sclust dj' = ?sc"
        "r = FR_OK \<and> at_slot hs cs (Suc i) dj' \<or> r = FR_DISK_ERR"
        using dir_next_inside [OF k(1-3) k(5) at True, of True] by blast
      have st': "stretched f0 ?sc cs cs hs" using stretched_wstep [OF st h(2) less.prems(2,3)] .
      note kh = search_keeps [OF h(2) k(1-3) k(5)]
      show ?thesis
      proof (cases "r = FR_OK")
        case False
        then show ?thesis using loop h stretched_keeps [OF st' less.prems(2,3)] by (simp add: blank_post_def)
      next
        case ok: True
        have "\<forall>j < Suc i. \<not> slot_free (vol sectors hs) hs ?sc cs j"
          using passed kh(7,9) i(1) by (auto simp: slot_free_def)
        moreover have "65536 - Suc i < 65536 - i" using True by (auto simp: slots_def)
        ultimately have "\<exists>p dj2 js. blank_loop dev dj' hs = Some (p, dj2, js)
            \<and> blank_post f0 (sclust dj') cs (dj_fn dj') p dj2 js"
          using less.hyps [of "Suc i" dj' hs] st' less.prems(2,3) h(4,5) ok by simp
        then show ?thesis using loop h ok by auto
      qed
    next
      case False
      then have last: "Suc i = slots gs ?sc cs" using i(2) by simp
      show ?thesis
      proof (cases "?sc = 0 \<or> Suc i = 65536")
        case True
        then obtain r dj' hs where h: "dir_next dev dj True gs = Some (r, dj', hs)" "wstep gs hs" "dj_fn dj' = ?fn" "sclust dj' = ?sc"
          "r \<in> {FR_NO_FILE, FR_DISK_ERR}"
          using dir_next_end [OF k(1-3) k(5) at last, of True] by blast
        have "stretched f0 ?sc cs cs hs" using stretched_wstep [OF st h(2) less.prems(2,3)] .
        then show ?thesis using loop h stretched_keeps [OF _ less.prems(2,3)] by (auto simp: blank_post_def)
      next
        case grow: False
        then have cnt: "Suc i = slot_count gs ?sc cs" "Suc i < 65536" using last by (auto simp: slots_def)
        obtain r dj' hs where h: "dir_next dev dj True gs = Some (r, dj', hs)" "fs_inv sectors good hs" "same_volume gs hs"
          "winsect hs \<noteq> 0" "dj_fn dj' = ?fn" "sclust dj' = ?sc"
          "r = FR_OK \<longrightarrow> (\<exists>v. stretched gs ?sc cs (cs @ [v]) hs \<and> at_slot hs (cs @ [v]) (Suc i) dj')"
          using dir_next_stretch [OF k(1-5) _ at cnt] grow by blast
        show ?thesis
        proof (cases "r = FR_OK")
          case False
          then show ?thesis using loop h same_volume_trans [OF k(6) h(3)] by (simp add: blank_post_def)
        next
          case True
          then obtain v where v: "stretched gs ?sc cs (cs @ [v]) hs" "at_slot hs (cs @ [v]) (Suc i) dj'" using h(7) by blast
          have st': "stretched f0 ?sc cs (cs @ [v]) hs" using stretched_trans [OF st v(1)] .
          note sl = stretched_slots [OF v(1) k(2,3,5)]
          have "slot_free (vol sectors hs) hs ?sc (cs @ [v]) (Suc i)"
            using sl(2) [of "Suc i"] v(2) cnt(1) h(6) by (auto simp: slot_free_def at_slot_def slots_def)
          moreover have "\<forall>j < Suc i. \<not> slot_free (vol sectors hs) hs (sclust dj') (cs @ [v]) j"
            using passed sl(1) cnt(1) h(6) by (auto simp: slot_free_def)
          ultimately have "\<exists>p js. blank_loop dev dj' hs = Some (p, dj', js) \<and> blank_post f0 (sclust dj') cs (dj_fn dj') p dj' js"
            using blank_loop_round [of f0 dj' cs "cs @ [v]" hs "Suc i"] st' less.prems(2,3) v(2) h(6) by auto
          then show ?thesis using loop h(1,5,6) True by auto
        qed
      qed
    qed
  qed auto
qed

text \<open>Changing the window while it shows a sector outside the tables.\<close>

lemma slot_store:
  assumes "fs_inv sectors good fs" "table_ok fs" "winsect fs \<noteq> 0" "winsect fs \<notin> fat_area fs" "length (f (win fs)) = 512"
  defines "gs \<equiv> (win_upd f fs)\<lparr>wflag := 1\<rparr>"
  shows "fs_inv sectors good gs" "same_volume fs gs" "winsect gs = winsect fs" "win gs = f (win fs)"
    "vol sectors gs = (vol sectors fs)(winsect fs := f (vol sectors fs (winsect fs)))"
    "cluster_no fs c \<Longrightarrow> fat_entry sectors gs c = fat_entry sectors fs c"
proof -
  have g: "winsect gs = winsect fs" "disk gs = disk fs" "win gs = f (win fs)" by (simp_all add: gs_def win_upd_def)
  show sv: "same_volume fs gs" by (simp add: gs_def win_upd_def same_volume_def)
  note inv = assms(1) [unfolded fs_inv_def]
  show "fs_inv sectors good gs" using inv assms(3,5) by (simp add: fs_inv_def gs_def win_upd_def)
  show "winsect gs = winsect fs" "win gs = f (win fs)" by (fact g)+
  show v: "vol sectors gs = (vol sectors fs)(winsect fs := f (vol sectors fs (winsect fs)))"
    using assms(3) g by (auto simp: vol_def fun_eq_iff)
  show "cluster_no fs c \<Longrightarrow> fat_entry sectors gs c = fat_entry sectors fs c"
    using inv v assms(4) by (intro fat_entry_vol [OF sv assms(2)]) auto
qed

end

text \<open>The bytes of a new entry: the name, no attributes, no clusters, size zero.\<close>

definition blank_entry :: "u8 list \<Rightarrow> nat \<Rightarrow> u8 list \<Rightarrow> bool" where
  "blank_entry w d fn \<longleftrightarrow> take 11 (drop d w) = take 11 fn \<and> w ! (d + DIR_Attr) = 0 \<and> start_cluster w d = 0
     \<and> LD_DWORD w (d + DIR_FileSize) = 0"

lemma mem_cpy_split:
  "d + n \<le> length w \<Longrightarrow> s + n \<le> length src \<Longrightarrow> mem_cpy d src s n w = take d w @ take n (drop s src) @ drop (d + n) w"
proof (induction n arbitrary: d s w)
  case (Suc n)
  have "w[d := src ! s] = take d w @ src ! s # drop (Suc d) w" using Suc.prems by (simp add: upd_conv_take_nth_drop)
  moreover have "drop s src = src ! s # drop (Suc s) src" using Suc.prems by (simp add: Cons_nth_drop_Suc)
  ultimately show ?case using Suc.IH [of "d + 1" "w[d := src ! s]" "s + 1"] Suc.prems by (simp add: add.commute)
qed simp

lemma init_entry_nth:
  assumes "d + 32 \<le> length w" "12 \<le> length fn"
  shows "length (init_entry d fn w) = length w"
    "init_entry d fn w ! i = (if i < d \<or> d + 32 \<le> i then w ! i else if i < d + 11 then fn ! (i - d)
       else if i = d + 12 then fn ! 11 AND 0x18 else 0)"
proof -
  let ?z = "take d w @ replicate 32 0 @ drop (d + 32) w"
  have z: "mem_set d 0 32 w = ?z" using assms(1) by (rule mem_set_split)
  have "mem_cpy d fn 0 11 ?z = take d ?z @ take 11 fn @ drop (d + 11) ?z"
    using mem_cpy_split [of d 11 ?z 0 fn] assms by simp
  also have "\<dots> = take d w @ take 11 fn @ replicate 21 0 @ drop (d + 32) w" using assms(1) by simp
  finally have e: "init_entry d fn w = (take d w @ take 11 fn @ replicate 21 0 @ drop (d + 32) w)[d + 12 := fn ! 11 AND 0x18]"
    by (simp add: init_entry_def z)
  show "length (init_entry d fn w) = length w" unfolding e using assms by simp
  show "init_entry d fn w ! i = (if i < d \<or> d + 32 \<le> i then w ! i else if i < d + 11 then fn ! (i - d)
       else if i = d + 12 then fn ! 11 AND 0x18 else 0)"
    unfolding e using assms by (auto simp: nth_list_update nth_append nth_drop)
qed

text \<open>A name never starts with one of the marks of a free entry.\<close>

lemma sfn_name_lead:
  assumes "sfn_name fn"
  shows "length fn = 11" "fn ! 0 \<noteq> 0xE5" "fn ! 0 \<noteq> 0" "fn ! 0 \<noteq> 0x2E"
proof -
  obtain body ext where n: "length body \<le> 8" "length ext \<le> 3" "sfn_chars body" "fn = lead (pad 8 body @ pad 3 ext)"
    using assms by (auto simp: sfn_name_def)
  show "length fn = 11" using n by (simp add: lead_def pad_def)
  show "fn ! 0 \<noteq> 0xE5" using n by (auto simp: lead_def pad_def nth_append)
  have "hd (pad 8 body) \<noteq> 0 \<and> hd (pad 8 body) \<noteq> 0x2E"
    using n(3) by (cases body rule: sfn_chars.cases) (auto simp: pad_def sfn_single_def IsDBCS1_def split: if_splits)
  moreover have "pad 8 body \<noteq> []" using n(1) by (cases body) (simp_all add: pad_def)
  ultimately show "fn ! 0 \<noteq> 0" "fn ! 0 \<noteq> 0x2E" using n(4) by (auto simp: lead_def nth_append hd_conv_nth)
qed

context block_device
begin

section \<open>The new entry\<close>

text \<open>The volume after a new entry: \<open>hs\<close> is the volume with the directory long enough, slot \<open>k\<close> its first free one.\<close>

definition registered :: "'d fatfs \<Rightarrow> u32 \<Rightarrow> u32 list \<Rightarrow> u8 list \<Rightarrow> 'd fatfs \<Rightarrow> nat \<Rightarrow> u32 list \<Rightarrow> DIR \<Rightarrow> 'd fatfs \<Rightarrow> bool" where
  "registered fs sc cs fn hs k cs' dj' gs \<longleftrightarrow> stretched fs sc cs cs' hs \<and> at_slot hs cs' k dj' \<and> winsect hs = dj_sect dj'
     \<and> slot_free (vol sectors hs) hs sc cs' k \<and> (\<forall>j < k. \<not> slot_free (vol sectors hs) hs sc cs' j)
     \<and> gs = (win_upd (init_entry (k mod 16 * 32) fn) hs)\<lparr>wflag := 1\<rparr>"

lemma dir_register_ok:
  assumes "fs_inv sectors good fs" "table_ok fs" "data_ok fs" "winsect fs \<noteq> 0" "dir_ok (fat_entry sectors fs) fs (sclust dj) cs"
    and "12 \<le> length (dj_fn dj)"
  shows "\<exists>r dj' gs. dir_register dev dj fs = Some (r, dj', gs) \<and> fs_inv sectors good gs \<and> same_volume fs gs
    \<and> dj_fn dj' = dj_fn dj \<and> sclust dj' = sclust dj
    \<and> (r = FR_OK \<longrightarrow> (\<exists>hs k cs'. registered fs (sclust dj) cs (dj_fn dj) hs k cs' dj' gs))"
proof -
  let ?sc = "sclust dj" and ?fn = "dj_fn dj"
  obtain dj0 where d: "dir_seek dev dj 0 fs = Some (FR_OK, dj0, fs)" "at_slot fs cs 0 dj0" "dj_fn dj0 = ?fn" "sclust dj0 = ?sc"
    using dir_seek_first [OF assms(5,2)] by blast
  have st: "stretched fs (sclust dj0) cs cs fs" using stretched_refl [OF assms(1,4)] assms(5) d(4) by simp
  obtain r dj' hs where h: "blank_loop dev dj0 fs = Some (r, dj', hs)" "blank_post fs ?sc cs ?fn r dj' hs"
    using blank_loop_ok [OF st assms(2,3) d(2)] d(3,4) by auto
  note p = h(2) [unfolded blank_post_def]
  show ?thesis
  proof (cases "r = FR_OK")
    case False
    then show ?thesis using d(1) h(1) p by (simp add: dir_register_def)
  next
    case True
    then obtain k cs' where k: "stretched fs ?sc cs cs' hs" "at_slot hs cs' k dj'" "slot_free (vol sectors hs) hs ?sc cs' k"
      "\<forall>j < k. \<not> slot_free (vol sectors hs) hs ?sc cs' j" "winsect hs = dj_sect dj'" "sclust dj' = ?sc" "dj_fn dj' = ?fn"
      using p by blast
    note kk = stretched_keeps [OF k(1) assms(2,3)]
    let ?d = "k mod 16 * 32"
    define gs where "gs = (win_upd (init_entry ?d ?fn) hs)\<lparr>wflag := 1\<rparr>"
    have at: "k < slot_count hs ?sc cs'" "dj_dir dj' = Some ?d" "dj_sect dj' = slot_sector hs ?sc cs' k"
      using k(2,6) by (simp_all add: at_slot_def slots_def)
    have "move_window dev (dj_sect dj') hs = Some (FR_OK, hs)" using k(5) by (simp add: move_window_def)
    then have run: "dir_register dev dj fs = Some (FR_OK, dj', gs)"
      using d(1) h(1) True at(2) k(7) by (simp add: dir_register_def gs_def)
    have "length (win hs) = 512" "?d + 32 \<le> 512" using kk(1) mod_less_divisor [of 16 k] by (simp_all add: fs_inv_def)
    then have "length (init_entry ?d ?fn (win hs)) = 512" using init_entry_nth(1) [of ?d "win hs" ?fn] assms(6) by simp
    note sl = slot_store [where f = "init_entry ?d ?fn", OF kk(1,2,4) _ this, folded gs_def]
    have "winsect hs \<notin> fat_area hs" using slot_sector_ok(3) [OF kk(5,2,3) at(1)] k(5) at(3) by simp
    from sl(1,2) [OF this] have "fs_inv sectors good gs" "same_volume hs gs" .
    moreover have "registered fs ?sc cs ?fn hs k cs' dj' gs" using k by (simp add: registered_def gs_def)
    ultimately show ?thesis using run same_volume_trans [OF kk(6)] k(6,7) by blast
  qed
qed

end

end
