(* ===== verification/Dump.thy ===== *)
theory Dump
  imports NandEcc FatClose Printf
begin

text \<open>
  \<^verbatim>\<open>armboot/dump.c\<close>: reading every page of a NAND bank, correcting it, and writing pages and spare
  areas to a file on the SD card. The state is the file system object, which carries the state of the
  machine below it.

  The content of the flash chip is the parameter \<open>flash\<close>: for a bank and a page number the 2048 bytes of
  the page and the 80 bytes of the spare area with the controller's codes. A read command transfers those
  of the bank the controller was reset to and of the page last written to the address register.
\<close>

section \<open>One page\<close>

type_synonym flash = "u32 \<Rightarrow> u32 \<Rightarrow> u8 list \<times> u8 list"

text \<open>The last value written to a register.\<close>

definition reg_value :: "u32 \<Rightarrow> 'a mach_scheme \<Rightarrow> u32" where
  "reg_value a s = (case rev (writes (\<lambda>b. b = a) s) of [] \<Rightarrow> 0 | (_, v) # _ \<Rightarrow> v)"

text \<open>What the transfer leaves in \<^verbatim>\<open>page_buf\<close> and \<^verbatim>\<open>ecc_buf\<close>, whose last 16 bytes are never written.\<close>

definition sized :: "nat \<Rightarrow> u8 list \<Rightarrow> u8 list" where
  "sized n b = take n (b @ replicate n 0)"

definition nand_transfer :: "flash \<Rightarrow> 'a nand_st_scheme \<Rightarrow> u8 list \<times> u8 list" where
  "nand_transfer flash s = (let (page, spare) = flash (initialized s) (reg_value NAND_ADDR1 s)
     in (sized 2048 page, sized 80 spare @ replicate 16 0))"

text \<open>The row of \<^verbatim>\<open>file_buf\<close> for one page: \<^verbatim>\<open>PAGE_SIZE\<close> bytes of data, \<^verbatim>\<open>PAGE_SPARE_SIZE\<close> bytes of spare area.\<close>

definition dump_page ::
  "env \<Rightarrow> flash \<Rightarrow> u32 \<Rightarrow> u32 \<Rightarrow> u32 \<Rightarrow> 'a irq_st_scheme \<Rightarrow> (u8 list \<times> 'a irq_st_scheme) option" where
  "dump_page ev flash page_buf ecc_buf pageno s = do {
     s \<leftarrow> nand_read_page ev pageno page_buf ecc_buf s;
     let (page, ecc) = nand_transfer flash s;
     s \<leftarrow> nand_wait ev s;
     (_, page, s) \<leftarrow> nand_correct pageno page ecc s;
     Some (take 2048 page @ take 64 ecc, s) }"

fun dump_pages ::
  "env \<Rightarrow> flash \<Rightarrow> u32 \<Rightarrow> u32 \<Rightarrow> nat \<Rightarrow> u32 \<Rightarrow> 'a irq_st_scheme \<Rightarrow> (u8 list \<times> 'a irq_st_scheme) option" where
  "dump_pages ev flash page_buf ecc_buf 0 pageno s = Some ([], s)"
| "dump_pages ev flash page_buf ecc_buf (Suc n) pageno s = do {
     (row, s) \<leftarrow> dump_page ev flash page_buf ecc_buf pageno s;
     (rows, s) \<leftarrow> dump_pages ev flash page_buf ecc_buf n (pageno + 1) s;
     Some (row @ rows, s) }"

section \<open>The file\<close>

abbreviation (input) "PAGES_PER_ITERATION \<equiv> 0x10 :: nat"
abbreviation (input) "TOTAL_ITERATIONS \<equiv> 0x4000 :: nat"

definition disk_msg :: "string \<Rightarrow> varg list \<Rightarrow> 'a mach_scheme fatfs \<Rightarrow> 'a mach_scheme fatfs" where
  "disk_msg fmt args fs = fs\<lparr>disk := gecko_msg fmt args (disk fs)\<rparr>"

fun fres_code :: "FRESULT \<Rightarrow> u32" where
  "fres_code FR_OK = 0" | "fres_code FR_DISK_ERR = 1" | "fres_code FR_INT_ERR = 2" | "fres_code FR_NOT_READY = 3"
| "fres_code FR_NO_FILE = 4" | "fres_code FR_NO_PATH = 5" | "fres_code FR_INVALID_NAME = 6" | "fres_code FR_DENIED = 7"
| "fres_code FR_EXIST = 8" | "fres_code FR_INVALID_OBJECT = 9" | "fres_code FR_WRITE_PROTECTED = 10"
| "fres_code FR_INVALID_DRIVE = 11" | "fres_code FR_NOT_ENABLED = 12" | "fres_code FR_NO_FILESYSTEM = 13"
| "fres_code FR_MKFS_ABORTED = 14" | "fres_code FR_TIMEOUT = 15"

text \<open>The iterations from number \<open>i\<close> on, \<open>n\<close> of them; the result is 0 or the error code.\<close>

fun dump_loop ::
  "env \<Rightarrow> torn \<Rightarrow> u32 \<Rightarrow> flash \<Rightarrow> u32 \<Rightarrow> u32 \<Rightarrow> string \<Rightarrow> string \<Rightarrow> nat \<Rightarrow> u32 \<Rightarrow> FIL \<Rightarrow> 'a disk_st_scheme fatfs
    \<Rightarrow> (int \<times> FIL \<times> 'a disk_st_scheme fatfs) option" where
  "dump_loop ev torn ba flash pb eb name path 0 i file fs = Some (0, file, fs)"
| "dump_loop ev torn ba flash pb eb name path (Suc n) i file fs = do {
     let page_base = i * of_nat PAGES_PER_ITERATION;
     (file_buf, d) \<leftarrow> dump_pages ev flash pb eb PAGES_PER_ITERATION page_base (disk fs);
     let fs = fs\<lparr>disk := d\<rparr>;
     (fres, btx, file, fs) \<leftarrow> f_write (sd_device ev torn ba) file file_buf 33792 fs;
     if fres \<noteq> FR_OK \<or> btx \<noteq> 33792
     then do {
       (_, file, fs) \<leftarrow> f_close (sd_device ev torn ba) file fs;
       Some (-4, file, disk_msg ''Failed to write %s (%d).'' [VStr (Some path), VInt (fres_code fres)] fs) }
     else dump_loop ev torn ba flash pb eb name path n (i + 1) file
       (if i mod 0x100 = 0 then disk_msg ''%s-RAW: Page 0x%05lX completed'' [VStr (Some name), VInt page_base] fs else fs) }"

text \<open>What follows the opening of the file.\<close>

definition dump_file ::
  "env \<Rightarrow> torn \<Rightarrow> u32 \<Rightarrow> flash \<Rightarrow> u32 \<Rightarrow> u32 \<Rightarrow> string \<Rightarrow> string \<Rightarrow> u32 \<Rightarrow> FIL \<Rightarrow> 'a disk_st_scheme fatfs
    \<Rightarrow> (int \<times> 'a disk_st_scheme fatfs) option" where
  "dump_file ev torn ba flash pb eb name path bank file fs = do {
     let fs = disk_msg ''Initializing %s...'' [VStr (Some name)] fs;
     d \<leftarrow> nand_initialize ev bank (disk fs);
     let fs = fs\<lparr>disk := d\<rparr>;
     (r, file, fs) \<leftarrow> dump_loop ev torn ba flash pb eb name path TOTAL_ITERATIONS 0 file fs;
     if r \<noteq> 0 then Some (r, fs)
     else do {
       (fres, file, fs) \<leftarrow> f_close (sd_device ev torn ba) file fs;
       Some (if fres \<noteq> FR_OK
             then (-5, disk_msg ''Failed to close %s (%d).'' [VStr (Some path), VInt (fres_code fres)] fs)
             else (0, disk_msg ''SLC dump completed successfully!'' [] fs)) } }"

section \<open>The dump\<close>


definition bank_name :: "u32 \<Rightarrow> string option" where
  "bank_name bank = (if bank = NAND_BANK_SLC then Some ''SLC'' else if bank = NAND_BANK_SLCCMPT then Some ''SLCCMPT'' else None)"

definition zero_FIL :: FIL where
  "zero_FIL = \<lparr>f_fs = False, f_id = 0, flag = 0, csect = 0, fptr = 0, fsize = 0, org_clust = 0, curr_clust = 0,
     dsect = 0, dir_sect = 0, dir_ptr = 0\<rparr>"

definition dump_slc_raw ::
  "env \<Rightarrow> torn \<Rightarrow> u32 \<Rightarrow> flash \<Rightarrow> u32 \<Rightarrow> u32 \<Rightarrow> DIR \<Rightarrow> u32 \<Rightarrow> 'a disk_st_scheme ff \<Rightarrow> (int \<times> 'a disk_st_scheme ff) option" where
  "dump_slc_raw ev torn ba flash pb eb dj0 bank m =
    (case bank_name bank of
       None \<Rightarrow> Some (-2, m)
     | Some name \<Rightarrow> do {
         (buf, _) \<leftarrow> sprintf (replicate 64 CHR 0x00) ''%s.RAW'' [VStr (Some name)];
         let path = takeWhile (\<lambda>c. c \<noteq> CHR 0x00) buf;
         (fres, file, m) \<leftarrow> f_open (sd_device ev torn ba) dj0 zero_FIL (map of_char buf) (FA_READ OR FA_WRITE OR FA_CREATE_ALWAYS) m;
         if fres \<noteq> FR_OK
         then Some (-3, m\<lparr>obj := disk_msg ''Failed to open %s (%d).'' [VStr (Some path), VInt (fres_code fres)] (obj m)\<rparr>)
         else do {
           (r, fs) \<leftarrow> dump_file ev torn ba flash pb eb name path bank file (obj m);
           Some (r, m\<lparr>obj := fs\<rparr>) } })"

section \<open>A page is read and corrected\<close>

text \<open>
  What reading relies on: the controller becomes ready, the page and spare buffers are in plain memory, and
  when the processor sleeps after a read command with interrupt the NAND line wakes it.
\<close>

definition nand_responds :: "env \<Rightarrow> u32 \<Rightarrow> u32 \<Rightarrow> bool" where
  "nand_responds ev pb eb \<longleftrightarrow> nand_controller_ready ev \<and> (\<forall>l. nand_wakes ev (Wr32 NAND_CTRL 0xC030B840 # l))
     \<and> pb \<noteq> -1 \<and> eb \<noteq> -1 \<and> plain_addr pb \<and> plain_addr eb"

text \<open>The bytes the dump has for a page: the page as \<^const>\<open>nand_correct\<close> leaves it and the spare area.\<close>

definition corrected :: "u8 list \<Rightarrow> u8 list \<Rightarrow> u8 list" where
  "corrected page ecc = (case nand_correct_loop 4 0 page ecc 0 0 of Some (_, _, dp) \<Rightarrow> dp | None \<Rightarrow> [])"

definition page_image :: "flash \<Rightarrow> u32 \<Rightarrow> u32 \<Rightarrow> u8 list" where
  "page_image flash bank p = (let (page, spare) = flash bank p; ecc = sized 80 spare @ replicate 16 0
     in corrected (sized 2048 page) ecc @ take 64 ecc)"

definition pages_image :: "flash \<Rightarrow> u32 \<Rightarrow> nat \<Rightarrow> nat \<Rightarrow> u8 list" where
  "pages_image flash bank p n = concat (map (\<lambda>i. page_image flash bank (of_nat (p + i))) [0..<n])"

text \<open>What reading leaves alone.\<close>

definition nand_frame :: "'a irq_st_scheme \<Rightarrow> 'a irq_st_scheme \<Rightarrow> bool" where
  "nand_frame s s' \<longleftrightarrow> host_ok s' \<and> hflags (sc_host s') = hflags (sc_host s) \<and> cpsr s' = cpsr s
     \<and> initialized s' = initialized s \<and> irq_st.more s' = irq_st.more s"

lemma nand_frame_trans: "nand_frame s t \<Longrightarrow> nand_frame t u \<Longrightarrow> nand_frame s u"
  by (simp add: nand_frame_def)

lemma length_sized [simp]: "length (sized n b) = n"
  by (simp add: sized_def)

lemma reg_value_snoc:
  assumes "writes nand_reg s = w @ [(NAND_ADDR0, a), (NAND_ADDR1, p), (NAND_CTRL, c1), (NAND_CTRL, c2), (NAND_CTRL, c3),
      (NAND_DATA, d), (NAND_ECC, e), (NAND_CTRL, c4), (NAND_CTRL, c5), (NAND_CTRL, c6)]"
  shows "reg_value NAND_ADDR1 s = p"
proof -
  have "writes_of (\<lambda>b. b = NAND_ADDR1) l = filter (\<lambda>(b, _). b = NAND_ADDR1) (writes_of nand_reg l)" for l
    by (induction l) (auto simp: nand_reg_def split: io.splits)
  then have "writes (\<lambda>b. b = NAND_ADDR1) s = filter (\<lambda>(b, _). b = NAND_ADDR1) (writes nand_reg s)"
    by (simp add: writes_def)
  then show ?thesis unfolding assms by (simp add: reg_value_def)
qed

lemma nand_read_page_log:
  "nand_read_page ev p d e s = Some s' \<Longrightarrow> \<exists>l. io_log s' = Wr32 NAND_CTRL 0xC030B840 # l"
  by (auto simp: nand_read_page_def nand_send_command_def write32_def emit_def Let_def simp del: not_None_eq)

lemma length_page_image [simp]: "length (page_image flash bank p) = 2112"
proof -
  obtain page spare where f: "flash bank p = (page, spare)" by force
  obtain a b d where "nand_correct_loop 4 0 (sized 2048 page) (sized 80 spare @ replicate 16 0) 0 0 = Some (a, b, d)" "length d = 2048"
    using nand_correct_loop_total [of "sized 80 spare @ replicate 16 0" 4 0 "sized 2048 page" 0 0] by auto
  then show ?thesis by (simp add: page_image_def f corrected_def)
qed

lemma dump_page_ok:
  assumes "nand_responds ev pb eb" "host_ok s" "\<not> irqs_masked s" "pageno \<noteq> -1"
  shows "\<exists>s'. dump_page ev flash pb eb pageno s = Some (page_image flash (initialized s) pageno, s') \<and> nand_frame s s'"
proof -
  note env = assms(1) [unfolded nand_responds_def nand_controller_ready_def]
  obtain t where t: "nand_read_page ev pageno pb eb s = Some t" "same (s\<lparr>irq_flag := 0, last_page_read := pageno\<rparr>) t"
    and w: "reg_value NAND_ADDR1 t = pageno"
    using nand_read_page_runs [of ev pageno pb eb s] env assms(4) reg_value_snoc by metis
  have ft: "nand_frame s t" "initialized t = initialized s" "irqs_masked t = irqs_masked s"
    using t(2) assms(2) by (auto simp: same_def nand_frame_def host_ok_def irqs_masked_def)
  then have ht: "host_ok t" by (simp add: nand_frame_def)
  have "nand_wakes ev (io_log t)" using nand_read_page_log [OF t(1)] env by auto
  then obtain u where u: "nand_wait ev t = Some u" using nand_wait_spec [OF ht, of ev] ft(3) assms(3) by auto
  have "settled u = settled t" "host_ok u" using nand_wait_returnsD [OF u] wait_rounds_settled [OF ht] by blast+
  then have fu: "nand_frame s u" using ft(1) by (simp add: nand_frame_def settled_def)
  obtain page spare where f: "flash (initialized s) pageno = (page, spare)" by force
  let ?ecc = "sized 80 spare @ replicate 16 0"
  obtain a b d where c: "nand_correct_loop 4 0 (sized 2048 page) ?ecc 0 0 = Some (a, b, d)" "length d = 2048"
    using nand_correct_loop_total [of ?ecc 4 0 "sized 2048 page" 0 0] by auto
  have tr: "nand_transfer flash t = (sized 2048 page, ?ecc)" by (simp add: nand_transfer_def ft(2) w f)
  have row: "page_image flash (initialized s) pageno = d @ take 64 ?ecc" by (simp add: page_image_def f corrected_def c)
  let ?v = "if a \<noteq> 0 \<or> b \<noteq> 0 then gecko_msg ''ECC stats for NAND page 0x%X: %d uncorrectable, %d corrected''
      [VInt pageno, VInt (of_nat a), VInt (of_nat b)] u else u"
  have "dump_page ev flash pb eb pageno s = Some (d @ take 64 ?ecc, ?v)"
    using t(1) u tr c by (simp add: dump_page_def nand_correct_def Let_def)
  moreover have "nand_frame s ?v" using fu by (simp add: nand_frame_def gecko_msg_def emit_def host_ok_def)
  ultimately show ?thesis unfolding row by blast
qed

lemma pages_image_Suc: "pages_image flash bank p (Suc n) = page_image flash bank (of_nat p) @ pages_image flash bank (Suc p) n"
  unfolding pages_image_def upt_conv_Cons [OF zero_less_Suc] by (simp add: map_Suc_upt [symmetric] comp_def ac_simps del: upt_Suc map_Suc_upt)

lemma dump_pages_ok:
  assumes "nand_responds ev pb eb" "host_ok s" "\<not> irqs_masked s" "p + n < 2 ^ 32"
  shows "\<exists>s'. dump_pages ev flash pb eb n (of_nat p) s = Some (pages_image flash (initialized s) p n, s') \<and> nand_frame s s'"
  using assms(2-)
proof (induction n arbitrary: p s)
  case 0
  then show ?case by (simp add: pages_image_def nand_frame_def)
next
  case (Suc n)
  have "unat (of_nat p :: u32) = p" using Suc.prems(3) by (simp only: unat_of_nat) simp
  moreover have "unat (-1 :: u32) = 2 ^ 32 - 1" by (simp add: unsigned_minus_1_eq_mask mask_eq_exp_minus_1)
  ultimately have "(of_nat p :: u32) \<noteq> -1" using Suc.prems(3) by auto
  from dump_page_ok [OF assms(1) Suc.prems(1,2) this] obtain t
    where t: "dump_page ev flash pb eb (of_nat p) s = Some (page_image flash (initialized s) (of_nat p), t)" "nand_frame s t" by blast
  have "host_ok t" "\<not> irqs_masked t" "initialized t = initialized s" "Suc p + n < 2 ^ 32"
    using t(2) Suc.prems by (simp_all add: nand_frame_def irqs_masked_def)
  with Suc.IH [of t "Suc p"] obtain u
    where u: "dump_pages ev flash pb eb n (of_nat (Suc p)) t = Some (pages_image flash (initialized s) (Suc p) n, u)" "nand_frame t u"
    by metis
  then show ?case using t nand_frame_trans [OF t(2) u(2)] by (simp add: pages_image_Suc add.commute)
qed

section \<open>The card below keeps the NAND driver's state\<close>

definition driver :: "'a disk_st_scheme \<Rightarrow> u32 \<times> u32" where
  "driver s = (cpsr s, initialized s)"

lemma sector_driver:
  assumes "disk_inv s"
  shows "read_sector ev torn ba sec s = Some (r, s') \<Longrightarrow> driver s' = driver s"
    "write_sector ev torn ba sec s = Some (r, s') \<Longrightarrow> driver s' = driver s"
proof -
  have h: "host_ok s" using assms by (simp add: disk_inv_def)
  show "driver s' = driver s" if rd: "read_sector ev torn ba sec s = Some (r, s')"
  proof -
    obtain t x where "sdmmc_read ev sec 1 ba s = Some (r, t)" "s' = t\<lparr>dbuf := x\<rparr>" using rd by (auto simp: read_sector_def)
    with sdmmc_rw_dkeeps(1) [OF h] show ?thesis by (auto simp: dkeeps_def driver_def)
  qed
  show "driver s' = driver s" if wr: "write_sector ev torn ba sec s = Some (r, s')"
  proof -
    obtain t x where "sdmmc_write ev sec 1 ba s = Some (r, t)" "s' = t\<lparr>image := x\<rparr>" using wr by (auto simp: write_sector_def)
    with sdmmc_rw_dkeeps(2) [OF h] show ?thesis by (auto simp: dkeeps_def driver_def)
  qed
qed

lemma disk_read_loop_driver:
  "disk_inv s \<Longrightarrow> disk_read_loop ev torn ba sector n i buff s = Some (r, b, s') \<Longrightarrow> driver s' = driver s"
proof (induction n arbitrary: i buff s)
  case (Suc n)
  then obtain q t where t: "read_sector ev torn ba (sector + of_nat i) s = Some (q, t)" by auto
  have "disk_inv t" "driver t = driver s" using read_sector_ok [OF Suc.prems(1) t] sector_driver(1) [OF Suc.prems(1) t] by blast+
  then show ?case using Suc.prems(2) Suc.IH [of t] t by (auto split: if_splits)
qed simp

lemma disk_write_loop_driver:
  "disk_inv s \<Longrightarrow> disk_write_loop ev torn ba sector n i buff s = Some (r, s') \<Longrightarrow> driver s' = driver s"
proof (induction n arbitrary: i s)
  case (Suc n)
  then obtain b where b: "copy_in buff i = Some b" by auto
  then have "length b = 512" by (auto simp: copy_in_def split: if_splits)
  note inv = disk_inv_upd(1) [OF Suc.prems(1) this]
  obtain q t where t: "write_sector ev torn ba (sector + of_nat i) (s\<lparr>dbuf := b\<rparr>) = Some (q, t)"
    using Suc.prems(2) b by (auto simp: Let_def)
  have "disk_inv t" "driver t = driver (s\<lparr>dbuf := b\<rparr>)" using write_sector_ok [OF inv t] sector_driver(2) [OF inv t] by blast+
  then show ?case using Suc.prems(2) Suc.IH [of t] t b by (auto simp: Let_def driver_def split: if_splits)
qed simp

definition dump_good :: "env \<Rightarrow> u32 \<Rightarrow> u32 \<Rightarrow> u32 \<Rightarrow> 'a disk_st_scheme \<Rightarrow> bool" where
  "dump_good ev ba c b s \<longleftrightarrow> disk_ok ev ba s \<and> driver s = (c, b)"

interpretation nd: block_device "sd_device ev torn ba" image "dump_good ev ba c b" for ev torn ba c b
proof
  fix d :: "'a disk_st_scheme" and b' :: "u8 list" and n :: u8 and sec
  assume d: "dump_good ev ba c b d"
  then have ok: "disk_ok ev ba d" "driver d = (c, b)" by (simp_all add: dump_good_def)
  show "length (image d sec) = 512" using sd.sector_size [OF ok(1)] .
  show "dump_good ev ba c b (snd (d_initialize (sd_device ev torn ba) d))
     \<and> image (snd (d_initialize (sd_device ev torn ba) d)) = image d"
    using sd.init_law [OF ok(1), of torn] ok(2)
    by (simp add: dump_good_def sd_device_def disk_initialize_def sdmmc_ack_card_def upd_card_def Let_def driver_def)
  assume len: "length b' = 512 * unat n"
  obtain r x d' where rd: "disk_read ev torn ba b' sec n d = Some (r, x, d')" "disk_ok ev ba d'" "image d' = image d"
    "length x = length b'" "r = RES_OK \<longrightarrow> x = gather (image d) sec (unat n)" "r \<noteq> RES_OK \<longrightarrow> n = 1 \<longrightarrow> x = b'"
    using sd.read_law [OF ok(1) len, of torn sec] by (auto simp: sd_device_def)
  have "driver d' = driver d" using rd(1) disk_read_loop_driver [OF disk_ok_inv [OF ok(1)]] by (auto simp: disk_read_def)
  then show "\<exists>r b'' d'. d_read (sd_device ev torn ba) b' sec n d = Some (r, b'', d') \<and> dump_good ev ba c b d'
      \<and> image d' = image d \<and> length b'' = length b' \<and> (r = RES_OK \<longrightarrow> b'' = gather (image d) sec (unat n))
      \<and> (r \<noteq> RES_OK \<longrightarrow> n = 1 \<longrightarrow> b'' = b')"
    using rd ok(2) by (simp add: sd_device_def dump_good_def)
  obtain r e where wr: "disk_write ev torn ba b' sec n d = Some (r, e)" "disk_ok ev ba e"
    "\<forall>x. x \<notin> span sec (unat n) \<longrightarrow> image e x = image d x" "r = RES_OK \<longrightarrow> image e = scatter (image d) sec (unat n) b'"
    using sd.write_law [OF ok(1) len, of torn sec] by (auto simp: sd_device_def)
  have "driver e = driver d" using wr(1) disk_write_loop_driver [OF disk_ok_inv [OF ok(1)]] by (auto simp: disk_write_def)
  then show "\<exists>r d'. d_write (sd_device ev torn ba) b' sec n d = Some (r, d') \<and> dump_good ev ba c b d'
      \<and> (\<forall>x. x \<notin> span sec (unat n) \<longrightarrow> image d' x = image d x)
      \<and> (r = RES_OK \<longrightarrow> image d' = scatter (image d) sec (unat n) b')"
    using wr ok(2) by (simp add: sd_device_def dump_good_def)
qed (simp add: sd_device_def disk_ioctl_def)

text \<open>Reading pages is such a state change.\<close>

lemma nand_frame_good:
  assumes "nand_frame s s'" "dump_good ev ba c b s"
  shows "dump_good ev ba c b s'" "image s' = image s"
proof -
  have more: "irq_st.more s' = irq_st.more s" "host_ok s'" "hflags (sc_host s') = hflags (sc_host s)"
    "cpsr s' = cpsr s" "initialized s' = initialized s"
    using assms(1) by (simp_all add: nand_frame_def)
  have m: "image s' = image s" "dbuf s' = dbuf s" using more(1) by (cases s; cases s'; simp)+
  then show "image s' = image s" by simp
  have "disk_inv s" using assms(2) by (simp add: dump_good_def disk_ok_def)
  then have "disk_inv s'" using more m by (simp add: disk_inv_def by_dma_def)
  then show "dump_good ev ba c b s'" using assms(2) more disk_ok_transfer by (auto simp: dump_good_def driver_def)
qed

section \<open>The file grows by the pages\<close>

text \<open>Changing the machine below the file system, not the card.\<close>

lemma disk_upd:
  assumes "v d = v (disk fs)"
  shows "vol v (fs\<lparr>disk := d\<rparr>) = vol v fs" "fat_entry v (fs\<lparr>disk := d\<rparr>) = fat_entry v fs"
    "same_volume fs (fs\<lparr>disk := d\<rparr>)" "file_data u (fs\<lparr>disk := d\<rparr>) = file_data u fs"
proof -
  show vol: "vol v (fs\<lparr>disk := d\<rparr>) = vol v fs" by (rule ext) (auto simp: vol_def assms)
  then have "tbl v (fs\<lparr>disk := d\<rparr>) = tbl v fs" by (intro ext) (simp add: tbl_def)
  then show "fat_entry v (fs\<lparr>disk := d\<rparr>) = fat_entry v fs" by (intro ext) (simp add: fat_entry_def Let_def)
  show sv: "same_volume fs (fs\<lparr>disk := d\<rparr>)" by (simp add: same_volume_def)
  show "file_data u (fs\<lparr>disk := d\<rparr>) = file_data u fs" using same_volume_keeps(9) [OF sv] .
qed

lemma appending_disk:
  assumes "appending v good fs fp cs" "v d = v (disk fs)" "good' d"
  shows "appending v good' (fs\<lparr>disk := d\<rparr>) fp cs"
  using assms same_volume_keeps [OF disk_upd(3) [of v d fs, OF assms(2)]]
  by (simp add: appending_def disk_upd fs_inv_def append_at_def at_cluster_def cong: if_cong)

lemma grown_disk:
  assumes "v d = v (disk fs)"
  shows "grown v (fs\<lparr>disk := d\<rparr>) fp cs gs fp' ds b = grown v fs fp cs gs fp' ds b"
    "grown v hs fp cs (fs\<lparr>disk := d\<rparr>) fp' ds b = grown v hs fp cs fs fp' ds b"
proof -
  note k = disk_upd [of v d fs, OF assms] same_volume_keeps [OF disk_upd(3) [of v d fs, OF assms]]
  have s: "same_volume (fs\<lparr>disk := d\<rparr>) gs = same_volume fs gs" "same_volume hs (fs\<lparr>disk := d\<rparr>) = same_volume hs fs"
    by (simp_all add: same_volume_def)
  show "grown v (fs\<lparr>disk := d\<rparr>) fp cs gs fp' ds b = grown v fs fp cs gs fp' ds b"
    "grown v hs fp cs (fs\<lparr>disk := d\<rparr>) fp' ds b = grown v hs fp cs fs fp' ds b"
    unfolding grown_def s k by simp_all
qed

lemma disk_msg_keeps:
  fixes fs :: "'a disk_st_scheme fatfs"
  shows "image (disk (disk_msg m as fs)) = image (disk fs)" "dump_good ev ba c b (disk (disk_msg m as fs)) = dump_good ev ba c b (disk fs)"
    "disk_msg m as fs = fs\<lparr>disk := gecko_msg m as (disk fs)\<rparr>"
proof -
  let ?g = "gecko_msg m as (disk fs)"
  have k: "disk_inv ?g = disk_inv (disk fs)" "driver ?g = driver (disk fs)"
    by (simp_all add: gecko_msg_def emit_def disk_inv_def host_ok_def by_dma_def driver_def)
  show "image (disk (disk_msg m as fs)) = image (disk fs)" by (simp add: disk_msg_def gecko_msg_def emit_def)
  show "dump_good ev ba c b (disk (disk_msg m as fs)) = dump_good ev ba c b (disk fs)"
    using k by (simp add: disk_msg_def dump_good_def disk_ok_def)
qed (simp add: disk_msg_def)

lemma length_pages_image [simp]: "length (pages_image flash bank p n) = n * 2112"
  by (induction n arbitrary: p) (simp_all add: pages_image_Suc, simp add: pages_image_def)

lemma pages_image_add: "pages_image flash bank p (m + n) = pages_image flash bank p m @ pages_image flash bank (p + m) n"
  by (induction m arbitrary: p) (simp_all add: pages_image_Suc, simp add: pages_image_def)

lemma grown_refl: "same_volume fs fs \<Longrightarrow> grown v fs fp cs fs fp [] []"
  by (simp add: grown_def)

lemma dump_loop_ok:
  fixes fs :: "'a disk_st_scheme fatfs"
  assumes "nand_responds ev pb eb" "c AND CPSR_IRQDIS = 0"
    and "appending image (dump_good ev ba c b) fs fp cs" "fsize fp = fptr fp"
    and "unat (fptr fp) + n * 33792 < 2 ^ 32" "(i + n) * 16 < 2 ^ 32"
  shows "\<exists>r fp' gs. dump_loop ev torn ba flash pb eb name path n (of_nat i) fp fs = Some (r, fp', gs) \<and> r \<in> {0, -4}
    \<and> (r = 0 \<longrightarrow> fsize fp' = fptr fp' \<and> dir_sect fp' = dir_sect fp \<and> dir_ptr fp' = dir_ptr fp
        \<and> (flag fp AND FA__WRITTEN \<noteq> 0 \<or> n \<noteq> 0 \<longrightarrow> flag fp' AND FA__WRITTEN \<noteq> 0)
        \<and> (\<exists>ds. appending image (dump_good ev ba c b) gs fp' (cs @ ds)
             \<and> grown image fs fp cs gs fp' ds (pages_image flash b (16 * i) (16 * n))))"
  using assms(3-)
proof (induction n arbitrary: i fs fp cs)
  case 0
  then show ?case by (auto simp: pages_image_def grown_def intro!: exI [of _ "[]"])
next
  case (Suc n)
  let ?dev = "sd_device ev torn ba"
  have good: "dump_good ev ba c b (disk fs)" using Suc.prems(1) by (simp add: appending_def fs_inv_def)
  then have st: "host_ok (disk fs)" "\<not> irqs_masked (disk fs)" "initialized (disk fs) = b"
    using assms(2) by (auto simp: dump_good_def disk_ok_def disk_inv_def driver_def irqs_masked_def)
  have p: "of_nat i * of_nat 16 = (of_nat (16 * i) :: u32)" by simp
  obtain d where d: "dump_pages ev flash pb eb 16 (of_nat i * of_nat 16) (disk fs) = Some (pages_image flash b (16 * i) 16, d)"
    "nand_frame (disk fs) d"
    using dump_pages_ok [OF assms(1) st(1,2), of "16 * i" 16 flash] Suc.prems(4) unfolding st(3) p by fastforce
  note gd = nand_frame_good [OF d(2) good]
  define f1 where "f1 = fs\<lparr>disk := d\<rparr>"
  have a1: "appending image (dump_good ev ba c b) f1 fp cs"
    unfolding f1_def by (rule appending_disk [of image "dump_good ev ba c b" fs fp cs d "dump_good ev ba c b", OF Suc.prems(1) gd(2,1)])
  have sz: "512 dvd unat (33792 :: u32)" "unat (33792 :: u32) \<le> length (pages_image flash b (16 * i) 16)"
    "unat (fptr fp) + unat (33792 :: u32) < 2 ^ 32"
    using Suc.prems(3) by simp_all
  obtain r m f2 g2 where w: "f_write ?dev fp (pages_image flash b (16 * i) 16) 33792 f1 = Some (r, m, f2, g2)"
    "usable (dump_good ev ba c b) g2"
    "r = FR_OK \<longrightarrow> m \<le> 33792 \<and> (m = 33792 \<or> disk_full image g2) \<and> fptr f2 = fptr fp + m \<and> fsize f2 = fptr f2
        \<and> flag f2 = flag fp OR FA__WRITTEN \<and> dir_sect f2 = dir_sect fp \<and> dir_ptr f2 = dir_ptr fp
        \<and> (\<exists>ds. appending image (dump_good ev ba c b) g2 f2 (cs @ ds)
             \<and> grown image f1 fp cs g2 f2 ds (take (unat m) (pages_image flash b (16 * i) 16)))"
    using nd.f_write_ok [OF a1 Suc.prems(2) sz, of torn] by blast
  show ?case
  proof (cases "r = FR_OK \<and> m = 33792")
    case False
    obtain q f3 g3 where "f_close ?dev f2 g2 = Some (q, f3, g3)" using nd.f_close_usable [OF w(2), of torn f2] by blast
    then show ?thesis using d(1) w(1) False by (auto simp: Let_def simp flip: f1_def)
  next
    case True
    obtain ds where ds: "appending image (dump_good ev ba c b) g2 f2 (cs @ ds)"
      "grown image f1 fp cs g2 f2 ds (pages_image flash b (16 * i) 16)"
      using w(3) True by auto
    define h where "h = (if (of_nat i :: u32) mod 0x100 = 0
        then disk_msg ''%s-RAW: Page 0x%05lX completed'' [VStr (Some name), VInt (of_nat i * of_nat 16)] g2 else g2)"
    have step: "dump_loop ev torn ba flash pb eb name path (Suc n) (of_nat i) fp fs
        = dump_loop ev torn ba flash pb eb name path n (of_nat (Suc i)) f2 h"
      using d(1) w(1) True by (simp add: Let_def add.commute h_def flip: f1_def)
    obtain x where x: "h = g2\<lparr>disk := x\<rparr>" "image x = image (disk g2)" "dump_good ev ba c b x"
    proof -
      have g: "dump_good ev ba c b (disk g2)" using w(2) by (simp add: usable_def)
      show thesis
      proof (cases "(of_nat i :: u32) mod 0x100 = 0")
        case True
        let ?m = "gecko_msg ''%s-RAW: Page 0x%05lX completed'' [VStr (Some name), VInt (of_nat i * of_nat 16)] (disk g2)"
        have "h = g2\<lparr>disk := ?m\<rparr>" using True by (simp add: h_def disk_msg_def)
        moreover have "image ?m = image (disk g2)" by (simp add: gecko_msg_def emit_def)
        moreover have "dump_good ev ba c b ?m" using disk_msg_keeps(2) [of ev ba c b _ _ g2] g by (simp add: disk_msg_def)
        ultimately show ?thesis by (rule that)
      next
        case False
        then show ?thesis using g that [of "disk g2"] by (simp add: h_def)
      qed
    qed
    have ah: "appending image (dump_good ev ba c b) h f2 (cs @ ds)"
      unfolding x(1) by (rule appending_disk [of image "dump_good ev ba c b" g2 f2 "cs @ ds" x "dump_good ev ba c b", OF ds(1) x(2,3)])
    have ptr: "unat (fptr f2) = unat (fptr fp) + 33792" using ds(2) by (simp add: grown_def)
    have pre: "fsize f2 = fptr f2" "unat (fptr f2) + n * 33792 < 2 ^ 32" "(Suc i + n) * 16 < 2 ^ 32"
      using w(3) True ptr Suc.prems(3,4) by auto
    obtain r' f3 g3 where IH: "dump_loop ev torn ba flash pb eb name path n (of_nat (Suc i)) f2 h = Some (r', f3, g3)" "r' \<in> {0, -4}"
      "r' = 0 \<longrightarrow> fsize f3 = fptr f3 \<and> dir_sect f3 = dir_sect f2 \<and> dir_ptr f3 = dir_ptr f2
        \<and> (flag f2 AND FA__WRITTEN \<noteq> 0 \<or> n \<noteq> 0 \<longrightarrow> flag f3 AND FA__WRITTEN \<noteq> 0)
        \<and> (\<exists>es. appending image (dump_good ev ba c b) g3 f3 ((cs @ ds) @ es)
             \<and> grown image h f2 (cs @ ds) g3 f3 es (pages_image flash b (16 * Suc i) (16 * n)))"
      using Suc.IH [OF ah pre] by blast
    show ?thesis
    proof (cases "r' = 0")
      case False
      then show ?thesis unfolding step using IH(1,2) by blast
    next
      case True
      obtain es where es: "appending image (dump_good ev ba c b) g3 f3 ((cs @ ds) @ es)"
        "grown image h f2 (cs @ ds) g3 f3 es (pages_image flash b (16 * Suc i) (16 * n))"
        using IH(3) True by blast
      have A: "grown image fs fp cs h f2 ds (pages_image flash b (16 * i) 16)"
        using ds(2) grown_disk(1) [of image d fs, OF gd(2)] grown_disk(2) [of image x g2, OF x(2)] unfolding f1_def x(1) by simp
      have "\<forall>y \<in> set (cs @ ds). fat_entry image h y \<noteq> 0" using appending_members(2) [OF ah] by blast
      from grown_trans [OF A es(2) this] have "grown image fs fp cs g3 f3 (ds @ es) (pages_image flash b (16 * i) 16 @ pages_image flash b (16 * Suc i) (16 * n))" .
      also have "pages_image flash b (16 * i) 16 @ pages_image flash b (16 * Suc i) (16 * n) = pages_image flash b (16 * i) (16 * Suc n)"
        using pages_image_add [of flash b "16 * i" 16 "16 * n"] by (simp add: add.commute)
      finally have g: "grown image fs fp cs g3 f3 (ds @ es) (pages_image flash b (16 * i) (16 * Suc n))" .
      have "(flag fp OR FA__WRITTEN) AND FA__WRITTEN = FA__WRITTEN" by (rule bit_word_eqI) (auto simp: bit_simps)
      then have "flag f2 AND FA__WRITTEN \<noteq> 0" using w(3) \<open>r = FR_OK \<and> m = 33792\<close> by simp
      then show ?thesis unfolding step using IH True es(1) g w(3) \<open>r = FR_OK \<and> m = 33792\<close>
        by (auto intro!: exI [of _ "ds @ es"])
    qed
  qed
qed

section \<open>The dump on the card\<close>

text \<open>Where the entry of the new file is: a sector of a directory, not of a free cluster, the tables or the reserved area.\<close>

definition entry_place :: "('d \<Rightarrow> u32 \<Rightarrow> u8 list) \<Rightarrow> 'd fatfs \<Rightarrow> FIL \<Rightarrow> bool" where
  "entry_place v fs fp \<longleftrightarrow> fatbase fs \<le> dir_sect fp \<and> dir_sect fp \<notin> fat_area fs \<and> dir_ptr fp + 32 \<le> 512 \<and> fsi_sector fs < fatbase fs
     \<and> (\<forall>c. cluster_no fs c \<longrightarrow> fat_entry v fs c = 0 \<longrightarrow> dir_sect fp \<notin> set (cluster_sectors fs c))"

text \<open>
  What the card holds after a complete dump: the entry gives the size and the first cluster, the table the
  clusters, and these hold the image of the bank; the clusters were free, and nothing else has changed, in the
  sector of the entry nothing but what \<^const>\<open>sync_entry\<close> stores.
\<close>

definition dumped :: "flash \<Rightarrow> u32 \<Rightarrow> 'a disk_st_scheme fatfs \<Rightarrow> FIL \<Rightarrow> 'a disk_st_scheme fatfs \<Rightarrow> u32 list \<Rightarrow> bool" where
  "dumped flash bank fs fp gs cs \<longleftrightarrow>
     LD_DWORD (image (disk gs) (dir_sect fp)) (dir_ptr fp + DIR_FileSize) = 0x21000000
     \<and> (\<exists>f. dir_ptr f = dir_ptr fp \<and> image (disk gs) (dir_sect fp) = sync_entry f (vol image fs (dir_sect fp)))
     \<and> same_volume fs gs \<and> vol image gs = image (disk gs)
     \<and> chain (fat_entry image gs) (max_clust fs) (start_cluster (image (disk gs) (dir_sect fp)) (dir_ptr fp)) cs
     \<and> file_data (image (disk gs)) fs cs (0x21000000 div 512) = pages_image flash bank 0 0x40000
     \<and> (\<forall>c \<in> set cs. cluster_no fs c \<and> fat_entry image fs c = 0)
     \<and> (\<forall>c. cluster_no fs c \<longrightarrow> c \<notin> set cs \<longrightarrow> fat_entry image gs c = fat_entry image fs c)
     \<and> (\<forall>x. x \<notin> fat_area fs \<longrightarrow> x \<noteq> dir_sect fp \<longrightarrow> \<not> info_sector fs x \<longrightarrow> x \<notin> set (chain_sectors fs cs)
          \<longrightarrow> image (disk gs) x = vol image fs x)"

lemma dump_file_ok:
  fixes fs :: "'a disk_st_scheme fatfs"
  assumes "nand_responds ev pb eb" "\<not> irqs_masked (disk fs)"
    and "appending image (disk_ok ev ba) fs fp []" "fsize fp = 0" "entry_place image fs fp"
  shows "\<exists>r gs. dump_file ev torn ba flash pb eb name path bank fp fs = Some (r, gs) \<and> r \<in> {0, -4, -5}
    \<and> (r = 0 \<longrightarrow> (\<exists>cs. dumped flash bank fs fp gs cs))"
proof -
  let ?dev = "sd_device ev torn ba"
  define f0 where "f0 = disk_msg ''Initializing %s...'' [VStr (Some name)] fs"
  define c where "c = cpsr (disk fs)"
  have irq: "c AND CPSR_IRQDIS = 0" using assms(2) by (simp add: c_def irqs_masked_def)
  obtain d where d: "nand_initialize ev bank (disk f0) = Some d" "same ((disk f0)\<lparr>initialized := bank\<rparr>) d"
  proof -
    have "nand_controller_ready ev" using assms(1) by (simp add: nand_responds_def)
    from nand_initialize_runs [OF this, of bank "disk f0"] show ?thesis
      using that by (cases "initialized (disk f0) = bank") auto
  qed
  have ok: "disk_ok ev ba (disk fs)" using assms(3) by (simp add: appending_def fs_inv_def)
  have gd: "dump_good ev ba c bank d" "image d = image (disk fs)"
  proof -
    obtain l where l: "d = (disk fs)\<lparr>initialized := bank, io_log := l\<rparr>"
      using d(2) by (auto simp: same_def f0_def disk_msg_def gecko_msg_def emit_def)
    have "disk_inv d = disk_inv (disk fs)" unfolding l by (simp add: disk_inv_def host_ok_def by_dma_def)
    then show "dump_good ev ba c bank d" "image d = image (disk fs)"
      using ok by (simp_all add: dump_good_def disk_ok_def driver_def l c_def)
  qed
  define f1 where "f1 = fs\<lparr>disk := d\<rparr>"
  have f1: "f0\<lparr>disk := d\<rparr> = f1" by (simp add: f0_def f1_def disk_msg_def)
  have a1: "appending image (dump_good ev ba c bank) f1 fp []"
    unfolding f1_def by (rule appending_disk [of image "disk_ok ev ba" fs fp "[]" d "dump_good ev ba c bank", OF assms(3) gd(2,1)])
  have z: "fptr fp = 0" using assms(3) by (simp add: appending_def append_at_def)
  have pre: "fsize fp = fptr fp" "unat (fptr fp) + TOTAL_ITERATIONS * 33792 < 2 ^ 32" "(0 + TOTAL_ITERATIONS) * 16 < 2 ^ 32"
    using assms(4) z by simp_all
  obtain r f2 g2 where loop: "dump_loop ev torn ba flash pb eb name path TOTAL_ITERATIONS 0 fp f1 = Some (r, f2, g2)" "r \<in> {0, -4}"
    "r = 0 \<longrightarrow> fsize f2 = fptr f2 \<and> dir_sect f2 = dir_sect fp \<and> dir_ptr f2 = dir_ptr fp \<and> flag f2 AND FA__WRITTEN \<noteq> 0
        \<and> (\<exists>cs. appending image (dump_good ev ba c bank) g2 f2 cs \<and> grown image f1 fp [] g2 f2 cs (pages_image flash bank 0 0x40000))"
    using dump_loop_ok [OF assms(1) irq a1 pre, of torn flash name path] by auto
  show ?thesis
  proof (cases "r = 0")
    case False
    then show ?thesis using d(1) loop(1,2) by (auto simp: dump_file_def Let_def f1 simp flip: f0_def simp del: dump_loop.simps)
  next
    case True
    obtain cs where cs: "appending image (dump_good ev ba c bank) g2 f2 cs" "grown image f1 fp [] g2 f2 cs (pages_image flash bank 0 0x40000)"
      and f2: "fsize f2 = fptr f2" "dir_sect f2 = dir_sect fp" "dir_ptr f2 = dir_ptr fp" "flag f2 AND FA__WRITTEN \<noteq> 0"
      using loop(3) True by blast
    note grown = cs(2) [unfolded grown_def]
    have sv: "same_volume fs g2" using grown by (simp add: f1_def same_volume_def)
    note k = same_volume_keeps [OF sv] same_volume_cong [OF sv]
    have inv: "fs_inv image (dump_good ev ba c bank) g2" "table_ok g2" using cs(1) by (simp_all add: appending_def)
    have fs: "table_ok fs" "data_ok fs" using assms(3) by (simp_all add: appending_def)
    have free: "cluster_no fs x \<and> fat_entry image fs x = 0" if "x \<in> set cs" for x
      using grown that gd(2) by (simp add: f1_def disk_upd cluster_no_def)
    have upd: "vol image f1 = vol image fs" "fat_entry image f1 = fat_entry image fs" "fat_area f1 = fat_area fs"
      "chain_sectors f1 = chain_sectors fs" "cluster_no f1 = cluster_no fs" "file_data v f1 = file_data v fs" for v
      using disk_upd [of image d fs, OF gd(2)] same_volume_keeps [of fs f1] unfolding f1_def by auto
    have place: "fatbase g2 \<noteq> 0" "fatbase g2 \<le> dir_sect f2" "dir_sect f2 \<notin> mirror g2" "dir_sect f2 \<noteq> fsi_sector g2"
      using assms(5) fs(1) mirror_fat_area [of "dir_sect fp" fs] f2(2) by (auto simp: entry_place_def table_ok_def k)
    obtain q f3 g3 where cl: "f_close ?dev f2 g2 = Some (q, f3, g3)" "fs_inv image (dump_good ev ba c bank) g3" "same_volume g2 g3"
      "q = FR_OK \<longrightarrow> wflag g3 = 0 \<and> image (disk g3) (dir_sect f2) = sync_entry f2 (vol image g2 (dir_sect f2))
        \<and> (\<forall>x. x \<notin> mirror g2 \<longrightarrow> \<not> info_sector g2 x \<longrightarrow> x \<noteq> dir_sect f2 \<longrightarrow> image (disk g3) x = vol image g2 x)"
      using nd.f_close_ok [OF inv(1) place, of torn] f2(4) by blast
    have run: "dump_file ev torn ba flash pb eb name path bank fp fs = Some (if q \<noteq> FR_OK
        then (-5, disk_msg ''Failed to close %s (%d).'' [VStr (Some path), VInt (fres_code q)] g3)
        else (0, disk_msg ''SLC dump completed successfully!'' [] g3))"
      using d(1) loop(1) True cl(1) by (simp add: dump_file_def Let_def f1 flip: f0_def del: dump_loop.simps)
    show ?thesis
    proof (cases "q = FR_OK")
      case False
      then show ?thesis unfolding run by simp
    next
      case ok: True
      define gs where "gs = disk_msg ''SLC dump completed successfully!'' [] g3"
      have gi: "image (disk gs) = image (disk g3)" "fat_entry image gs = fat_entry image g3"
        using disk_upd(2) [of image _ g3] disk_msg_keeps(1,3) [of _ _ g3] by (simp_all add: gs_def gecko_msg_def emit_def)
      have clean: "vol image gs = image (disk gs)"
        using disk_upd(1) [of image _ g3] disk_msg_keeps(1,3) [of _ _ g3] nd.vol_clean [OF cl(2)] cl(4) ok
        by (simp add: gs_def gecko_msg_def emit_def)
      have card: "image (disk g3) x = vol image g2 x" if "x \<notin> mirror fs" "\<not> info_sector fs x" "x \<noteq> dir_sect fp" for x
        using cl(4) ok that by (simp add: k f2 info_sector_def)
      have ent: "fat_entry image gs x = fat_entry image g2 x" if "cluster_no fs x" for x
      proof -
        have "vol image g3 x = vol image g2 x" if x: "x \<in> fat_area g2" "x \<notin> mirror g2" for x
        proof -
          have "fatbase fs \<le> x" using x(1) by (simp add: fat_area_def k word_le_nat_alt)
          then have "\<not> info_sector fs x" "x \<noteq> dir_sect fp" using assms(5) x(1) by (auto simp: entry_place_def info_sector_def k)
          then show ?thesis using card x(2) nd.vol_clean [OF cl(2)] cl(4) ok by (simp add: k)
        qed
        then show ?thesis unfolding gi using inv that
          by (intro nd.fat_entry_vol [OF cl(3)]) (simp_all add: fs_inv_def k)
      qed
      have ptr: "unat (fptr f2) = 0x21000000" using grown z by simp
      then have ptr': "fptr f2 = 0x21000000" by (simp add: word_unat_eq_iff)
      have at: "chain (fat_entry image g2) (max_clust g2) (org_clust f2) cs"
        using cs(1) ptr' by (auto simp: appending_def append_at_def at_cluster_def split: if_splits)
      have "length (vol image g2 (dir_sect f2)) = 512"
        using inv(1) nd.sector_size [of ev ba c bank "disk g2"] by (auto simp: vol_def fs_inv_def)
      then have entry: "LD_DWORD (image (disk gs) (dir_sect fp)) (dir_ptr fp + DIR_FileSize) = 0x21000000"
        "start_cluster (image (disk gs) (dir_sect fp)) (dir_ptr fp) = org_clust f2"
        using sync_entry_fields [of f2 "vol image g2 (dir_sect f2)"] cl(4) ok assms(5) ptr'
        by (simp_all add: gi f2 entry_place_def)
      have kept: "image (disk gs) (dir_sect fp) = sync_entry f2 (vol image fs (dir_sect fp))"
      proof -
        have "dir_sect fp \<notin> set (chain_sectors fs cs)" using assms(5) free by (auto simp: entry_place_def chain_sectors_def)
        then have "vol image g2 (dir_sect fp) = vol image fs (dir_sect fp)"
          using grown assms(5) by (simp add: upd entry_place_def)
        then show ?thesis using cl(4) ok by (simp add: gi f2)
      qed
      have same: "same_volume fs gs"
        using same_volume_trans [OF sv cl(3)] by (simp add: gs_def disk_msg_def same_volume_def)
      have ch: "chain (fat_entry image gs) (max_clust fs) (org_clust f2) cs"
      proof (rule chain_cong)
        show "chain (fat_entry image g2) (max_clust fs) (org_clust f2) cs" using at by (simp add: k)
      qed (use ent free in blast)
      have data: "image (disk gs) x = vol image g2 x" if x: "x \<in> set (chain_sectors fs cs)" for x
      proof -
        obtain y where y: "y \<in> set cs" "x \<in> set (cluster_sectors fs y)" using x by (auto simp: chain_sectors_def)
        have "x \<notin> fat_area fs" "database fs \<le> x" using sector_outside_tables [OF fs(2) _ y(2)] free [OF y(1)] by blast+
        moreover have "fatbase fs \<le> database fs" using fs(2) unfolding data_ok_def word_le_nat_alt by linarith
        ultimately have "x \<notin> mirror fs" "\<not> info_sector fs x" "x \<noteq> dir_sect fp"
          using assms(5) mirror_fat_area free [OF y(1)] y(2) by (auto simp: entry_place_def info_sector_def)
        then show ?thesis unfolding gi by (rule card)
      qed
      have "file_data (image (disk gs)) fs cs (0x21000000 div 512) = file_data (vol image g2) fs cs (0x21000000 div 512)"
        unfolding file_data_def using data by (intro arg_cong [where f = concat] map_cong) (auto dest: in_set_takeD)
      also have "\<dots> = pages_image flash bank 0 0x40000"
      proof -
        have "file_data (vol image g2) f1 ([] @ cs) (unat (fptr f2) div 512)
            = file_data (vol image f1) f1 [] (unat (fptr fp) div 512) @ pages_image flash bank 0 0x40000"
          using grown by blast
        then show ?thesis unfolding ptr upd by (simp add: file_data_def chain_sectors_def)
      qed
      finally have content: "file_data (image (disk gs)) fs cs (0x21000000 div 512) = pages_image flash bank 0 0x40000" .
      have rest: "image (disk gs) x = vol image fs x" if "x \<notin> fat_area fs" "x \<noteq> dir_sect fp" "\<not> info_sector fs x"
        "x \<notin> set (chain_sectors fs cs)" for x
      proof -
        have "image (disk gs) x = vol image g2 x" unfolding gi using that mirror_fat_area by (intro card) auto
        then show ?thesis using grown that by (simp add: upd)
      qed
      have old: "fat_entry image gs x = fat_entry image fs x" if "cluster_no fs x" "x \<notin> set cs" for x
        using grown that ent [OF that(1)] by (simp add: upd)
      have "dumped flash bank fs fp gs cs"
        unfolding dumped_def using entry kept same clean f2(3) ch content free rest old by auto
      then show ?thesis unfolding run using ok by (auto simp: gs_def)
    qed
  qed
qed

text \<open>
  C3: with a file just created (empty, its entry in a directory sector) and hardware that responds, the dump
  returns, after 262144 pages, with 0 or the code of a failed write or close. With 0, the card, not only the
  file system object, holds the whole bank: the entry has the size \<^verbatim>\<open>0x40000 * (2048 + 64)\<close>, its cluster
  chain holds for every page in order the page as \<^verbatim>\<open>nand_correct\<close> leaves it and its spare area, the clusters
  were free before, and no other file, directory or entry of the table has changed.
\<close>

theorem dump_file_stores:
  fixes fs :: "'a disk_st_scheme fatfs"
  assumes "nand_responds ev pb eb" "\<not> irqs_masked (disk fs)"
    and "appending image (disk_ok ev ba) fs fp []" "fsize fp = 0" "entry_place image fs fp"
  shows "\<exists>r gs. dump_file ev torn ba flash pb eb name path bank fp fs = Some (r, gs) \<and> r \<in> {0, -4, -5}
    \<and> (r = 0 \<longrightarrow> (\<exists>cs. dumped flash bank fs fp gs cs))"
  by (rule dump_file_ok [OF assms])

text \<open>Hardware in which NAND and card both complete at once.\<close>

definition dump_env :: env where
  "dump_env l a = (if a = HW_ARMIRQFLAG \<or> a = HW_ARMIRQMASK then 0x82 else done_env l a)"

lemma take_irq_dump_env:
  assumes "only_done s"
  shows "\<exists>t. take_irq dump_env s = Some t \<and> only_done t"
proof -
  have h: "ioh (sc_host s) = 0x0d070000" using assms by (simp add: only_done_def host_ok_def)
  have b: "(x OR 3) AND 0xFFFC = (0 :: u16)" if "x AND 0xFFFC = 0" for x
    using that by (simp add: bit.conj_disj_distrib2)
  define ni where "ni x = the (nand_irq dump_env x)" for x :: "'a irq_st_scheme"
  have ni: "nand_irq dump_env x = Some (ni x)" "sc_host (ni x) = sc_host x" for x :: "'a irq_st_scheme"
    using nand_irq_ok [of dump_env x] by (auto simp: ni_def same_def)
  show ?thesis using assms h b
    by (simp add: take_irq_def mem_eval sd_eval only_done_def host_ok_def dump_env_def [abs_def] ni [unfolded dump_env_def [abs_def]])
qed

lemma dump_env_disk_ok: "disk_inv s \<Longrightarrow> disk_ok dump_env ba s"
proof -
  have "ahb_flush_to_raw dump_env AHB_SDHC u \<noteq> None" for u :: "'a disk_st_scheme"
    by (simp add: ahb_flush_to_raw_def ahb_mask_def mc_read32_def mem_eval dump_env_def)
  then show "disk_inv s \<Longrightarrow> disk_ok dump_env ba s" for s :: "'a disk_st_scheme"
    unfolding disk_ok_def using responsive_returns [OF take_irq_dump_env] by blast
qed

lemma dump_env_responds: "nand_responds dump_env 0x10200000 0x10300000"
proof -
  have "dump_env l NAND_CTRL = 0" "dump_env l NAND_UNK2 = 0" for l by (simp_all add: dump_env_def done_env_def)
  then have "nand_controller_ready dump_env" by (simp add: nand_controller_ready_def always_ready_def)
  moreover have "nand_wakes dump_env l" for l by (simp add: nand_wakes_def dump_env_def)
  ultimately show ?thesis by (simp add: nand_responds_def plain_addr_def)
qed

theorem dump_file_stores_witness:
  "\<exists>r gs. dump_file dump_env (\<lambda>_. []) 0x10000000 (\<lambda>_ _. ([], [])) 0x10200000 0x10300000 ''SLC'' ''SLC.RAW'' NAND_BANK_SLC
      small_file (small_fs FS_FAT16 chain_table) = Some (r, gs) \<and> r \<in> {0, -4, -5}"
proof -
  let ?fs = "small_fs FS_FAT16 chain_table"
  have "disk_inv disk_reset_st" by (simp add: disk_inv_def disk_reset_st_def host_ok_def by_dma_def)
  then have "disk_ok dump_env 0x10000000 (disk ?fs)" using dump_env_disk_ok by (simp add: small_fs_def)
  then have "appending image (disk_ok dump_env 0x10000000) ?fs small_file []"
    using small_file_appending [of "0x10000000"] by (simp add: appending_def fs_inv_def)
  moreover have "\<not> irqs_masked (disk ?fs)" by (simp add: small_fs_def disk_reset_st_def irqs_masked_def)
  moreover have "fsize small_file = 0" by (simp add: small_file_def)
  moreover have "entry_place image ?fs small_file"
  proof -
    have d: "data_ok ?fs" by (simp add: data_ok_def small_fs_def)
    have "3 \<notin> set (cluster_sectors ?fs c)" if "cluster_no ?fs c" for c
    proof
      assume "3 \<in> set (cluster_sectors ?fs c)"
      from sector_outside_tables(2) [OF d that this] show False by (simp add: small_fs_def)
    qed
    then show ?thesis by (auto simp: entry_place_def small_file_def) (simp_all add: small_fs_def fat_area_def)
  qed
  ultimately show ?thesis
    using dump_file_stores [OF dump_env_responds, where bank = NAND_BANK_SLC and torn = "\<lambda>_. []" and flash = "\<lambda>_ _. ([], [])"] by blast
qed

text \<open>A page with at most one flipped bit in every quarter is dumped as it was written.\<close>

lemma page_image_restores:
  assumes "flash bank p = (page, spare)" "length page = 2048" "length spare = 80"
    and "damaged errs orig page" "ecc_area (spare @ replicate 16 0) orig page"
  shows "page_image flash bank p = orig @ take 64 spare"
proof -
  have s: "sized 2048 page = page" "sized 80 spare = spare" using assms(2,3) by (simp_all add: sized_def)
  have "nand_correct_loop 4 0 page (spare @ replicate 16 0) 0 0 = Some (0, 0 + errors_from errs 0, orig)"
    using assms(2) by (intro nand_correct_loop_restores [OF assms(4,5)]) auto
  then show ?thesis using assms(3) by (simp add: page_image_def assms(1) s corrected_def)
qed

end
