(* ===== verification/FatOpen.thy ===== *)
theory FatOpen
  imports DirCreate Dump
begin

text \<open>
  \<^verbatim>\<open>f_open\<close> of \<^verbatim>\<open>armboot/storage/ff.c\<close> in the creating mode of the program, for a name in the root directory:
  the entry of a new name, the entry and the clusters of a file that is there, the file object, and what stays as it was.
\<close>

section \<open>The entries of a directory\<close>

definition slot_bytes :: "(u32 \<Rightarrow> u8 list) \<Rightarrow> 'd fatfs \<Rightarrow> u32 \<Rightarrow> u32 list \<Rightarrow> nat \<Rightarrow> u8 list" where
  "slot_bytes v fs sc cs i = take 32 (drop (i mod 16 * 32) (v (slot_sector fs sc cs i)))"

lemma slot_sector_eq:
  assumes "dir_ok nx fs sc cs" "data_ok fs" "i < slot_count fs sc cs" "k < slot_count fs sc cs"
  shows "slot_sector fs sc cs i = slot_sector fs sc cs k \<longleftrightarrow> i div 16 = k div 16"
proof (cases "sc = 0")
  case True
  have b: "unat (of_nat (j div 16) :: u32) = j div 16" if "j < slot_count fs sc cs" for j
  proof -
    have "j < 16 * 65551" using that True unsigned_less [of "n_rootdir fs", where ?'a = nat]
      by (simp add: slot_count_def root_slots_def)
    then have "j div 16 < 2 ^ 32" by simp
    then show ?thesis by (simp add: unat_of_nat)
  qed
  have "(of_nat (i div 16) :: u32) = of_nat (k div 16) \<longleftrightarrow> i div 16 = k div 16"
    using b [OF assms(3)] b [OF assms(4)] by metis
  then show ?thesis using True by (simp add: slot_sector_def)
next
  case False
  then have ch: "chain nx (max_clust fs) sc cs" using assms(1) by (simp add: dir_ok_def)
  have "distinct (chain_sectors fs cs)"
    using distinct_chain_sectors [OF assms(2)] chain_members [OF ch] chain_distinct [OF ch] by (simp add: cluster_no_def)
  moreover have "i div 16 < length (chain_sectors fs cs)" "k div 16 < length (chain_sectors fs cs)"
    using assms(3,4) False by (simp_all add: slot_count_def)
  ultimately show ?thesis using False by (simp add: slot_sector_def nth_eq_iff_index_eq)
qed

text \<open>A sector of a directory is not one of a free cluster.\<close>

lemma slot_sector_used:
  assumes "dir_ok nx fs sc cs" "table_ok fs" "data_ok fs" "k < slot_count fs sc cs" "cluster_no fs c" "nx c = 0"
  shows "slot_sector fs sc cs k \<notin> set (cluster_sectors fs c)"
proof (cases "sc = 0")
  case True
  then have "unat (dirbase fs) + root_slots fs div 16 \<le> unat (database fs)" using assms(1) by (simp add: dir_ok_def)
  moreover have "k div 16 < root_slots fs div 16"
    using assms(4) True by (simp add: slot_count_def root_slots_def less_mult_imp_div_less)
  moreover have "unat (database fs) < 2 ^ 32" using unsigned_less [of "database fs", where ?'a = nat] by simp
  ultimately have "unat (slot_sector fs sc cs k) < unat (database fs)"
    using True by (simp add: slot_sector_def unat_word_ariths unat_of_nat)
  then show ?thesis using sector_outside_tables(2) [OF assms(3,5), of "slot_sector fs sc cs k"]
    by (metis linorder_not_less word_less_nat_alt)
next
  case False
  then have ch: "chain nx (max_clust fs) sc cs" using assms(1) by (simp add: dir_ok_def)
  have "k div 16 < length (chain_sectors fs cs)" using assms(4) False by (simp add: slot_count_def)
  then have "slot_sector fs sc cs k \<in> set (chain_sectors fs cs)" using False by (simp add: slot_sector_def)
  then obtain x where x: "x \<in> set cs" "slot_sector fs sc cs k \<in> set (cluster_sectors fs x)" by (auto simp: chain_sectors_def)
  have "cluster_no fs x" "nx x \<noteq> 0" using chain_members [OF ch x(1)] by (simp_all add: cluster_no_def)
  then show ?thesis using sectors_disjoint [OF assms(3)] x(2) assms(5,6) by fastforce
qed

text \<open>What a search sees of a slot.\<close>

lemma slot_view:
  assumes "length (v (slot_sector fs sc cs i)) = 512"
  shows "slot_end v fs sc cs i \<longleftrightarrow> slot_bytes v fs sc cs i ! 0 = 0"
    "slot_match v fs sc cs fn i \<longleftrightarrow> valid_entry (slot_bytes v fs sc cs i) 0 \<and> take 11 (slot_bytes v fs sc cs i) = take 11 fn"
    "slot_free v fs sc cs i \<longleftrightarrow> slot_bytes v fs sc cs i ! 0 \<in> {0xE5, 0}"
proof -
  have "i mod 16 < 16" by simp
  then have "i mod 16 * 32 + 32 \<le> 512" by linarith
  then show "slot_end v fs sc cs i \<longleftrightarrow> slot_bytes v fs sc cs i ! 0 = 0"
    "slot_match v fs sc cs fn i \<longleftrightarrow> valid_entry (slot_bytes v fs sc cs i) 0 \<and> take 11 (slot_bytes v fs sc cs i) = take 11 fn"
    "slot_free v fs sc cs i \<longleftrightarrow> slot_bytes v fs sc cs i ! 0 \<in> {0xE5, 0}"
    using assms by (simp_all add: slot_end_def slot_match_def slot_free_def slot_bytes_def valid_entry_def Let_def)
qed

text \<open>Two slots of one sector do not overlap: a change of one leaves the other.\<close>

lemma other_entry:
  assumes "length w = 512" "length w' = 512" "\<And>n. n < k mod 16 * 32 \<or> k mod 16 * 32 + 32 \<le> n \<Longrightarrow> w' ! n = w ! n" "i mod 16 \<noteq> k mod 16"
  shows "take 32 (drop (i mod 16 * 32) w') = take 32 (drop (i mod 16 * 32) w)"
proof (rule nth_equalityI)
  let ?i = "i mod 16" and ?k = "k mod 16"
  have b: "?i < 16" "?k < 16" by simp_all
  then have fit: "?i * 32 + 32 \<le> 512" by linarith
  show "length (take 32 (drop (?i * 32) w')) = length (take 32 (drop (?i * 32) w))" using assms(1,2) by simp
  fix j assume "j < length (take 32 (drop (?i * 32) w'))"
  then have j: "j < 32" by simp
  have "?i < ?k \<or> ?k < ?i" using assms(4) by linarith
  then have "?i * 32 + j < ?k * 32 \<or> ?k * 32 + 32 \<le> ?i * 32 + j" using j by (elim disjE) linarith+
  then have "w' ! (?i * 32 + j) = w ! (?i * 32 + j)" by (rule assms(3))
  then show "take 32 (drop (?i * 32) w') ! j = take 32 (drop (?i * 32) w) ! j"
    using j fit assms(1,2) by simp
qed

lemma init_entry_elsewhere:
  assumes "length w = 512" "12 \<le> length fn" "i mod 16 \<noteq> k mod 16"
  shows "take 32 (drop (i mod 16 * 32) (init_entry (k mod 16 * 32) fn w)) = take 32 (drop (i mod 16 * 32) w)"
proof -
  have "k mod 16 < 16" by simp
  then have "k mod 16 * 32 + 32 \<le> length w" using assms(1) by linarith
  note e = init_entry_nth [OF this assms(2)]
  show ?thesis using other_entry [OF assms(1) _ _ assms(3), of "init_entry (k mod 16 * 32) fn w"] e assms(1) by simp
qed

lemma init_entry_fields:
  assumes "d + 32 \<le> length w" "12 \<le> length fn"
  shows "take 11 (drop d (init_entry d fn w)) = take 11 fn" "init_entry d fn w ! (d + DIR_Attr) = 0"
    "start_cluster (init_entry d fn w) d = 0" "LD_DWORD (init_entry d fn w) (d + DIR_FileSize) = 0"
    "init_entry d fn w ! d = fn ! 0"
    "ST_DWORD (d + DIR_CrtTime) 0 ((init_entry d fn w)[d + DIR_Attr := 0]) = init_entry d fn w"
proof -
  note e = init_entry_nth [OF assms]
  show "take 11 (drop d (init_entry d fn w)) = take 11 fn"
    using assms by (intro nth_equalityI) (simp_all add: e)
  show "init_entry d fn w ! (d + DIR_Attr) = 0" "start_cluster (init_entry d fn w) d = 0"
    "LD_DWORD (init_entry d fn w) (d + DIR_FileSize) = 0" "init_entry d fn w ! d = fn ! 0"
    by (simp_all add: e start_cluster_def LD_WORD_def LD_DWORD_def le16_def le32_def)
  have u: "xs[j := 0] = xs" if "xs ! j = (0 :: u8)" for xs j using that by (metis list_update_id)
  show "ST_DWORD (d + DIR_CrtTime) 0 ((init_entry d fn w)[d + DIR_Attr := 0]) = init_entry d fn w"
    by (simp add: ST_DWORD_def u e)
qed

text \<open>
  A file created in a directory: its entry is the one the name finds, all other entries are as they were, and
  the directory may have got a cluster \<open>ds\<close> that was free, whose other entries are clear. The clusters \<open>os\<close> of a file
  that had the name are free; no other cluster's entry of the table and no other sector outside the tables has changed.
\<close>

definition created ::
  "('d \<Rightarrow> u32 \<Rightarrow> u8 list) \<Rightarrow> 'd fatfs \<Rightarrow> u32 \<Rightarrow> u32 list \<Rightarrow> u8 list \<Rightarrow> u32 list \<Rightarrow> 'd fatfs \<Rightarrow> FIL \<Rightarrow> u32 list \<Rightarrow> bool" where
  "created v fs sc cs fn os gs fp ds \<longleftrightarrow> dir_ok (fat_entry v gs) gs sc (cs @ ds)
     \<and> (\<exists>k. name_at (vol v gs) gs sc (cs @ ds) fn k \<and> dir_sect fp = slot_sector gs sc (cs @ ds) k \<and> dir_ptr fp = k mod 16 * 32
          \<and> blank_entry (vol v gs (dir_sect fp)) (dir_ptr fp) fn
          \<and> (\<forall>j. j < slot_count gs sc (cs @ ds) \<longrightarrow> j \<noteq> k \<longrightarrow> slot_bytes (vol v gs) gs sc (cs @ ds) j
               = (if j < slot_count fs sc cs then slot_bytes (vol v fs) fs sc cs j else replicate 32 0)))
     \<and> (\<forall>c \<in> set ds. cluster_no fs c \<and> fat_entry v fs c = 0)
     \<and> (\<forall>c \<in> set os. fat_entry v gs c = 0)
     \<and> (\<forall>c. cluster_no fs c \<longrightarrow> c \<notin> set (ds @ os) \<longrightarrow> (ds \<noteq> [] \<longrightarrow> c \<noteq> last cs) \<longrightarrow> fat_entry v gs c = fat_entry v fs c)
     \<and> (\<forall>x. x \<notin> fat_area fs \<longrightarrow> x \<notin> set (chain_sectors fs ds) \<longrightarrow> x \<noteq> dir_sect fp \<longrightarrow> vol v gs x = vol v fs x)"

context block_device
begin

lemma registered_created:
  assumes "registered fs sc cs fn hs k cs' dj' gs" "table_ok fs" "data_ok fs" "dir_ok (fat_entry sectors fs) fs sc cs"
    and "sfn_name (take 11 fn)" "12 \<le> length fn" "no_name (vol sectors fs) fs sc cs fn" "sclust dj' = sc"
    and "dir_sect fp = dj_sect dj'" "dir_ptr fp = k mod 16 * 32" "fs_inv sectors good fs"
  shows "\<exists>ds. created sectors fs sc cs fn [] gs fp ds"
proof -
  note reg = assms(1) [unfolded registered_def]
  have st: "stretched fs sc cs cs' hs" using reg by blast
  note kk = stretched_keeps [OF st assms(2,3)] and sl = stretched_slots [OF st assms(2-4)]
  let ?d = "k mod 16 * 32" and ?s = "slot_sector hs sc cs' k"
  have k: "k < slot_count hs sc cs'" "k < slots hs sc cs'" "dj_sect dj' = ?s" "winsect hs = ?s"
    using reg assms(8) by (simp_all add: at_slot_def slots_def)
  have w: "length (win hs) = 512" "?d + 32 \<le> 512" using kk(1) mod_less_divisor [of 16 k] by (simp_all add: fs_inv_def)
  then have fit: "?d + 32 \<le> length (win hs)" by simp
  have gs: "gs = (win_upd (init_entry ?d fn) hs)\<lparr>wflag := 1\<rparr>" using reg by blast
  note s = slot_sector_ok [OF kk(5,2,3) k(1)]
  have len: "length (init_entry ?d fn (win hs)) = 512" using init_entry_nth(1) [OF fit assms(6)] w(1) by simp
  note store = slot_store [where f = "init_entry ?d fn", OF kk(1,2,4) _ len, folded gs, unfolded k(4), OF s(3)]
  have at: "vol sectors hs ?s = win hs" using k(4) s(1) by (simp add: vol_def)
  have v: "vol sectors gs x = (if x = ?s then init_entry ?d fn (win hs) else vol sectors hs x)" for x
    using store(5) at by simp
  note sv = same_volume_keeps [OF store(2)]
  have same: "slot_sector gs = slot_sector hs" "slots gs = slots hs" "slot_count gs = slot_count hs"
    using store(2) by (simp_all add: fun_eq_iff slot_sector_def slots_def slot_count_def root_slots_def same_volume_def sv)
  have dir: "dir_ok (fat_entry sectors gs) gs sc cs'"
  proof -
    have "chain (fat_entry sectors gs) (max_clust hs) sc cs'" if ch: "chain (fat_entry sectors hs) (max_clust hs) sc cs'"
      using chain_cong [OF ch] store(6) chain_members [OF ch] by (simp add: cluster_no_def)
    moreover have "max_clust gs = max_clust hs" "csize gs = csize hs" "n_rootdir gs = n_rootdir hs" "dirbase gs = dirbase hs"
      "database gs = database hs" "fatbase gs = fatbase hs" "n_fats gs = n_fats hs" "sects_fat gs = sects_fat hs"
      using store(2) by (simp_all add: same_volume_def)
    ultimately show ?thesis using kk(5) by (auto simp: dir_ok_def pow2_cluster_def root_slots_def split: if_splits)
  qed
  have other: "slot_bytes (vol sectors gs) gs sc cs' j = slot_bytes (vol sectors hs) hs sc cs' j"
    if j: "j < slot_count hs sc cs'" "j \<noteq> k" for j
  proof (cases "slot_sector hs sc cs' j = ?s")
    case True
    then have "j div 16 = k div 16" using slot_sector_eq [OF kk(5,3) j(1) k(1)] by simp
    then have "j mod 16 \<noteq> k mod 16" using j(2) by (metis div_mult_mod_eq)
    then show ?thesis using True init_entry_elsewhere [OF w(1) assms(6)] by (simp add: slot_bytes_def same v at)
  qed (simp add: slot_bytes_def same v)
  have size: "length (vol sectors f x) = 512" if "fs_inv sectors good f" for f x
    using that sector_size [of "disk f"] by (auto simp: vol_def fs_inv_def)
  note view = slot_view [OF size [OF assms(11)]] and view' = slot_view [OF size [OF kk(1)]] and view2 = slot_view [OF size [OF store(1)]]
  have old: "slot_bytes (vol sectors hs) hs sc cs' j = (if j < slot_count fs sc cs then slot_bytes (vol sectors fs) fs sc cs j else replicate 32 0)"
    if "j < slot_count hs sc cs'" for j
    using sl(1) [of j] sl(2) [of j] that mod_less_divisor [of 16 j] by (auto simp: slot_bytes_def min_def)
  obtain n where n: "n \<le> slots fs sc cs" "passed (vol sectors fs) fs sc cs fn n"
    "n < slots fs sc cs \<Longrightarrow> slot_end (vol sectors fs) fs sc cs n" using assms(7) by (auto simp: no_name_def)
  have busy: "\<not> slot_free (vol sectors hs) hs sc cs' j" if "j < k" for j using reg that by blast
  have below: "j < slot_count fs sc cs \<and> j < n" if j: "j < k" for j
  proof -
    have c: "j < slot_count fs sc cs"
    proof (rule ccontr)
      assume "\<not> j < slot_count fs sc cs"
      then show False using busy [OF j] old [of j] j k(1) by (simp add: view')
    qed
    moreover have "j < n"
    proof (rule ccontr)
      assume "\<not> j < n"
      moreover have "j < slots fs sc cs" using c j k(2) by (simp add: slots_def)
      ultimately have "slot_end (vol sectors fs) fs sc cs n" "n < slot_count fs sc cs" "n < slot_count hs sc cs'" "n < k"
        using n(3) j k(1) sl(3) by (auto simp: slots_def)
      then show False using busy [of n] old [of n] by (simp add: view view')
    qed
    ultimately show ?thesis by blast
  qed
  have "passed (vol sectors gs) gs sc cs' fn k" unfolding passed_def
  proof (intro allI impI)
    fix j assume j: "j < k"
    then have eq: "slot_bytes (vol sectors gs) gs sc cs' j = slot_bytes (vol sectors fs) fs sc cs j"
      using other [of j] old [of j] below k(1) by simp
    have "\<not> slot_end (vol sectors fs) fs sc cs j \<and> \<not> slot_match (vol sectors fs) fs sc cs fn j"
      using n(2) below [OF j] by (simp add: passed_def)
    then show "\<not> slot_end (vol sectors gs) gs sc cs' j \<and> \<not> slot_match (vol sectors gs) gs sc cs' fn j"
      by (simp add: view view2 eq)
  qed
  note f = init_entry_fields [OF fit assms(6)]
  have here: "vol sectors gs (slot_sector gs sc cs' k) = init_entry ?d fn (win hs)" by (simp add: same v)
  have fn0: "fn ! 0 \<noteq> 0" "fn ! 0 \<noteq> 0xE5" "fn ! 0 \<noteq> 0x2E" using sfn_name_lead [OF assms(5)] assms(6) by simp_all
  have "name_at (vol sectors gs) gs sc cs' fn k"
    using \<open>passed (vol sectors gs) gs sc cs' fn k\<close> k(2) f fn0
    by (simp add: name_at_def same slot_end_def slot_match_def here [unfolded same] valid_entry_def v)
  moreover have "blank_entry (vol sectors gs ?s) ?d fn" using f by (simp add: blank_entry_def v)
  moreover have "\<forall>j. j < slot_count gs sc cs' \<longrightarrow> j \<noteq> k \<longrightarrow> slot_bytes (vol sectors gs) gs sc cs' j
      = (if j < slot_count fs sc cs then slot_bytes (vol sectors fs) fs sc cs j else replicate 32 0)"
    using other old by (simp add: same)
  moreover obtain ds where ds: "cs' = cs @ ds" "\<forall>v \<in> set ds. cluster_no fs v \<and> fat_entry sectors fs v = 0"
    "\<And>x. cluster_no fs x \<Longrightarrow> x \<notin> set ds \<Longrightarrow> (ds \<noteq> [] \<longrightarrow> x \<noteq> last cs) \<Longrightarrow> fat_entry sectors hs x = fat_entry sectors fs x"
    "\<And>x. x \<notin> fat_area fs \<Longrightarrow> x \<notin> set (chain_sectors fs ds) \<Longrightarrow> vol sectors hs x = vol sectors fs x"
    using st by (auto simp: stretched_def)
  moreover have "fat_entry sectors gs c = fat_entry sectors hs c" if "cluster_no fs c" for c
    using store(6) that same_volume_keeps(2) [OF kk(6)] by simp
  moreover have "dir_sect fp = slot_sector gs sc cs' k" using assms(9) k(3) by (simp add: same)
  ultimately show ?thesis unfolding created_def using dir assms(10) v same(1)
    by (intro exI [of _ ds] conjI exI [of _ k]) (simp_all add: same)
qed

end

section \<open>Opening\<close>

text \<open>A volume that is mounted, on a drive that is ready and not write-protected.\<close>

definition mounted :: "'d device \<Rightarrow> 'd ff \<Rightarrow> bool" where
  "mounted dev m \<longleftrightarrow> FatFs m \<and> fs_type (obj m) \<noteq> 0 \<and> d_status dev (disk (obj m)) AND STA_NOINIT = 0
     \<and> d_status dev (disk (obj m)) AND STA_PROTECT = 0"

definition root_clust :: "'d fatfs \<Rightarrow> u32" where
  "root_clust fs = (if fs_type fs = FS_FAT32 then dirbase fs else 0)"

text \<open>The stored name of a path that is a name in the root directory.\<close>

definition open_name :: "DIR \<Rightarrow> u8 list \<Rightarrow> u8 list option" where
  "open_name dj path = (let (d, p) = drive_of path; (r, dj', _) = create_name dj p
     in if d = 0 \<and> p \<noteq> [] \<and> \<not> is_sep (hd p) \<and> 0x20 \<le> hd p \<and> r = FR_OK \<and> dj_fn dj' ! 11 AND 4 \<noteq> 0 then Some (dj_fn dj') else None)"

lemma create_name_sclust:
  "create_name (dj\<lparr>sclust := c\<rparr>) p = (case create_name dj p of (r, dj', rest) \<Rightarrow> (r, dj'\<lparr>sclust := c\<rparr>, rest))"
  by (simp add: create_name_def Let_def split: option.splits)

section \<open>A file that has the name\<close>

text \<open>The name is that of an ordinary file that may be written, whose clusters are \<open>os\<close>.\<close>

definition old_file :: "('d \<Rightarrow> u32 \<Rightarrow> u8 list) \<Rightarrow> 'd fatfs \<Rightarrow> u32 \<Rightarrow> u32 list \<Rightarrow> u8 list \<Rightarrow> u32 list \<Rightarrow> bool" where
  "old_file v fs sc cs fn os \<longleftrightarrow> set os \<inter> set cs = {} \<and> (\<exists>k. name_at (vol v fs) fs sc cs fn k
     \<and> (let w = vol v fs (slot_sector fs sc cs k); d = k mod 16 * 32 in w ! (d + DIR_Attr) AND (AM_RDO OR AM_DIR) = 0
          \<and> (if os = [] then start_cluster w d = 0 else chain (fat_entry v fs) (max_clust fs) (start_cluster w d) os)))"

text \<open>The root directory has no entry of the name, or that of such a file.\<close>

definition creatable :: "('d \<Rightarrow> u32 \<Rightarrow> u8 list) \<Rightarrow> 'd fatfs \<Rightarrow> u32 \<Rightarrow> u32 list \<Rightarrow> u8 list \<Rightarrow> u32 list \<Rightarrow> bool" where
  "creatable v fs sc cs fn os \<longleftrightarrow> no_name (vol v fs) fs sc cs fn \<and> os = [] \<or> old_file v fs sc cs fn os"

text \<open>What opening makes of the entry of such a file.\<close>

definition reopened :: "nat \<Rightarrow> u8 list \<Rightarrow> u8 list" where
  "reopened d w = ST_DWORD (d + DIR_CrtTime) 0 ((truncate_entry d w)[d + DIR_Attr := 0])"

lemma length_truncate_entry [simp]: "length (truncate_entry d w) = length w"
  by (simp add: truncate_entry_def ST_DWORD_def ST_WORD_def)

lemma reopened_nth:
  assumes "d + 32 \<le> length w"
  shows "length (reopened d w) = length w"
    "i < d + 11 \<or> d + 32 \<le> i \<Longrightarrow> reopened d w ! i = w ! i" "reopened d w ! (d + DIR_Attr) = 0"
    "start_cluster (reopened d w) d = 0" "LD_DWORD (reopened d w) (d + DIR_FileSize) = 0"
    "take 11 (drop d (reopened d w)) = take 11 (drop d w)"
proof -
  show l: "length (reopened d w) = length w" by (simp add: reopened_def ST_DWORD_def)
  show keep: "reopened d w ! i = w ! i" if "i < d + 11 \<or> d + 32 \<le> i" for i
    using that assms by (auto simp: reopened_def truncate_entry_def ST_DWORD_def ST_WORD_def nth_list_update)
  show "take 11 (drop d (reopened d w)) = take 11 (drop d w)"
    using assms l by (intro nth_equalityI) (simp_all add: keep)
  show "reopened d w ! (d + DIR_Attr) = 0" "start_cluster (reopened d w) d = 0" "LD_DWORD (reopened d w) (d + DIR_FileSize) = 0"
    using assms by (simp_all add: reopened_def truncate_entry_def ST_DWORD_def ST_WORD_def nth_list_update
        start_cluster_def LD_WORD_def LD_DWORD_def)
qed

text \<open>A change of the sectors that leaves the entry of a name recognisable, and all others, leaves the name where it is.\<close>

lemma name_at_kept:
  assumes "name_at v fs sc cs fn k" "slots gs = slots fs" "slots fs sc cs \<le> slot_count fs sc cs"
    and "\<And>j. j < slot_count fs sc cs \<Longrightarrow> length (v (slot_sector fs sc cs j)) = 512 \<and> length (v' (slot_sector gs sc cs j)) = 512"
    and "\<And>j. j < slot_count fs sc cs \<Longrightarrow> j \<noteq> k \<Longrightarrow> slot_bytes v' gs sc cs j = slot_bytes v fs sc cs j"
    and "take 11 (slot_bytes v' gs sc cs k) = take 11 (slot_bytes v fs sc cs k)" "(slot_bytes v' gs sc cs k ! DIR_Attr AND AM_MASK) AND AM_VOL = 0"
  shows "name_at v' gs sc cs fn k"
proof -
  have k: "k < slot_count fs sc cs" "k < slots gs sc cs" using assms(1-3) by (simp_all add: name_at_def)
  have view: "slot_end v' gs sc cs j \<longleftrightarrow> slot_bytes v' gs sc cs j ! 0 = 0" "slot_end v fs sc cs j \<longleftrightarrow> slot_bytes v fs sc cs j ! 0 = 0"
    "slot_match v' gs sc cs fn j \<longleftrightarrow> valid_entry (slot_bytes v' gs sc cs j) 0 \<and> take 11 (slot_bytes v' gs sc cs j) = take 11 fn"
    "slot_match v fs sc cs fn j \<longleftrightarrow> valid_entry (slot_bytes v fs sc cs j) 0 \<and> take 11 (slot_bytes v fs sc cs j) = take 11 fn"
    if "j < slot_count fs sc cs" for j
    using assms(4) [OF that] by (simp_all add: slot_view)
  have "slot_bytes v' gs sc cs k ! 0 = slot_bytes v fs sc cs k ! 0"
    using arg_cong [OF assms(6), of "\<lambda>xs. xs ! 0"] by simp
  then have "\<not> slot_end v' gs sc cs k \<and> slot_match v' gs sc cs fn k"
    using assms(1,6,7) view [OF k(1)] by (auto simp: name_at_def valid_entry_def)
  moreover have "passed v' gs sc cs fn k"
  proof -
    have "\<not> slot_end v' gs sc cs j \<and> \<not> slot_match v' gs sc cs fn j" if j: "j < k" for j
    proof -
      have jc: "j < slot_count fs sc cs" "j \<noteq> k" using j k(1) by simp_all
      have "\<not> slot_end v fs sc cs j \<and> \<not> slot_match v fs sc cs fn j" using assms(1) j by (simp add: name_at_def passed_def)
      then show ?thesis by (simp add: view [OF jc(1)] assms(5) [OF jc])
    qed
    then show ?thesis by (simp add: passed_def)
  qed
  ultimately show ?thesis using k(2) by (simp add: name_at_def)
qed

context block_device
begin

lemma open_truncate_ok:
  assumes "fs_inv sectors good fs" "table_ok fs" "data_ok fs" "winsect fs \<noteq> 0" "fatbase fs \<le> winsect fs" "winsect fs \<notin> fat_area fs"
    and "if os = [] then start_cluster (win fs) d = 0 else chain (fat_entry sectors fs) (max_clust fs) (start_cluster (win fs) d) os"
  shows "\<exists>r gs. open_truncate dev d fs = Some (r, gs) \<and> fs_inv sectors good gs \<and> same_volume fs gs
    \<and> (r = FR_OK \<longrightarrow> winsect gs = winsect fs \<and> win gs = truncate_entry d (win fs)
        \<and> (\<forall>c \<in> set os. fat_entry sectors gs c = 0)
        \<and> (\<forall>c. cluster_no fs c \<longrightarrow> c \<notin> set os \<longrightarrow> fat_entry sectors gs c = fat_entry sectors fs c)
        \<and> (\<forall>x. x \<notin> fat_area fs \<longrightarrow> x \<noteq> winsect fs \<longrightarrow> vol sectors gs x = vol sectors fs x))"
proof -
  let ?cl = "start_cluster (win fs) d"
  define f1 where "f1 = (win_upd (truncate_entry d) fs)\<lparr>wflag := 1\<rparr>"
  have "length (truncate_entry d (win fs)) = 512" using assms(1) by (simp add: fs_inv_def)
  note s1 = slot_store [where f = "truncate_entry d", OF assms(1,2,4,6) this, folded f1_def]
  note k1 = same_volume_keeps [OF s1(2)] same_volume_cong [OF s1(2)]
  show ?thesis
  proof (cases "?cl = 0")
    case True
    have "max_clust fs \<noteq> 0" using assms(2) by (auto simp: table_ok_def)
    then have os: "os = []" using assms(7) True chain_members(1) [of "fat_entry sectors fs" "max_clust fs" ?cl os "hd os"]
      by (cases os) (auto split: if_splits)
    have "open_truncate dev d fs = Some (FR_OK, f1)" using True by (simp add: open_truncate_def move_window_def Let_def flip: f1_def)
    then show ?thesis using s1 os by simp
  next
    case False
    then have os: "os \<noteq> []" and ch: "chain (fat_entry sectors fs) (max_clust fs) ?cl os" using assms(7) by (auto split: if_splits)
    have mem: "cluster_no fs x" if "x \<in> set os" for x using chain_members [OF ch that] by (simp add: cluster_no_def)
    have ch1: "chain (fat_entry sectors f1) (max_clust f1) ?cl os"
      using chain_cong [OF ch] s1(6) mem by (simp add: k1)
    have t1: "table_ok f1" "winsect f1 \<noteq> 0" using k1(1) assms(2,4) s1(3) by simp_all
    obtain r f2 where f2: "remove_loop dev ?cl f1 = Some (r, f2)" "cstep f1 f2" "r \<in> {FR_OK, FR_DISK_ERR}"
      "\<forall>x. cluster_no f1 x \<longrightarrow> x \<notin> set os \<longrightarrow> fat_entry sectors f2 x = fat_entry sectors f1 x"
      "r = FR_OK \<longrightarrow> (\<forall>x \<in> set os. fat_entry sectors f2 x = 0)"
      using remove_loop_chain [OF s1(1) t1 ch1] by blast
    have "2 \<le> ?cl \<and> ?cl < max_clust fs" using ch os by (cases os) auto
    then have "remove_chain dev ?cl f1 = Some (r, f2)" using f2(1) by (auto simp: remove_chain_def k1)
    then have run: "open_truncate dev d fs = (if r \<noteq> FR_OK then Some (r, f2) else move_window dev (winsect fs) (f2\<lparr>last_clust := ?cl - 1\<rparr>))"
      using False s1(3) by (simp add: open_truncate_def Let_def flip: f1_def)
    note c2 = cstep_keeps [OF f2(2)]
    have sv2: "same_volume fs f2" using same_volume_trans [OF s1(2) cstep_volume [OF f2(2)]] .
    show ?thesis
    proof (cases "r = FR_OK")
      case False
      then show ?thesis using run c2(1) sv2 by simp
    next
      case ok: True
      define f3 where "f3 = f2\<lparr>last_clust := ?cl - 1\<rparr>"
      have f3: "cstep f1 f3" unfolding f3_def recount_last by (intro cstep_recount f2(2))
      note c3 = cstep_keeps [OF f3]
      have sv3: "same_volume fs f3" using same_volume_trans [OF s1(2) cstep_volume [OF f3]] .
      note k3 = same_volume_keeps [OF sv3] same_volume_cong [OF sv3]
      have e3: "fat_entry sectors f3 = fat_entry sectors f2" unfolding f3_def recount_last by simp
      have "fatbase f3 \<le> winsect fs" using assms(5) sv3 by (simp add: same_volume_def)
      then obtain q gs where g: "move_window dev (winsect fs) f3 = Some (q, gs)" "wstep f3 gs" "q = FR_OK \<Longrightarrow> winsect gs = winsect fs"
        using move_window_ok [OF c3(1), of "winsect fs"] assms(4) by auto
      have sv: "same_volume fs gs"
        using same_volume_trans [OF sv3] g(2) by (auto simp: wstep_def intro: only_window_volume)
      have v: "vol sectors gs x = vol sectors f1 x" if "x \<notin> fat_area fs" for x
      proof -
        have "x \<notin> mirror f3" using that mirror_fat_area [of x f3] by (auto simp: k3)
        then have "vol sectors gs x = vol sectors f3 x" using g(2) by (simp add: wstep_def)
        then show ?thesis using cstep_vol [OF f3, of x] that by (simp add: k1)
      qed
      have e: "fat_entry sectors gs x = fat_entry sectors f2 x" if "cluster_no fs x" for x
        using wstep_entry [OF g(2) _ c3(1)] that assms(2) by (simp add: k3 e3)
      have "win gs = win f1" if "q = FR_OK"
      proof -
        have "vol sectors gs (winsect fs) = win gs" using g(3) [OF that] assms(4) by (simp add: vol_def)
        moreover have "vol sectors f1 (winsect fs) = win f1" using s1(3) assms(4) by (simp add: vol_def)
        ultimately show ?thesis using v [OF assms(6)] by simp
      qed
      moreover have "fs_inv sectors good gs" using g(2) by (simp add: wstep_def)
      moreover have "\<forall>c \<in> set os. fat_entry sectors gs c = 0" using e mem f2(5) ok by simp
      moreover have "\<forall>c. cluster_no fs c \<longrightarrow> c \<notin> set os \<longrightarrow> fat_entry sectors gs c = fat_entry sectors fs c"
        using e f2(4) s1(6) by (simp add: k1)
      ultimately show ?thesis using run ok g(1,3) sv v s1(4,5) unfolding f3_def by auto
    qed
  qed
qed

end

context block_device
begin

lemma follow_path_root:
  assumes "fs_inv sectors good fs" "table_ok fs" "data_ok fs" "dir_ok (fat_entry sectors fs) fs (root_clust fs) cs"
    and "open_name dj path = Some fn" "12 \<le> length (dj_fn dj)"
  shows "length fn = length (dj_fn dj)" "sfn_name (take 11 fn)"
    "\<exists>r dj' gs. follow_path dev dj (snd (drive_of path)) fs = Some (r, dj', gs)
      \<and> found_post fs (root_clust fs) cs fn r dj' gs"
proof -
  obtain p where p: "drive_of path = (0, p)" "p \<noteq> []" "\<not> is_sep (hd p)" "0x20 \<le> hd p"
    using assms(5) by (auto simp: open_name_def Let_def split: prod.splits if_splits)
  obtain dj1 rest where n: "create_name dj p = (FR_OK, dj1, rest)" "dj_fn dj1 = fn" "fn ! 11 AND 4 \<noteq> 0"
    using assms(5) p by (auto simp: open_name_def Let_def split: prod.splits if_splits)
  have c: "sfn_name (take 11 fn)" "length fn = length (dj_fn dj)"
    using create_name_ok(2) [OF assms(6) n(1) refl] n(2) by simp_all
  then show "length fn = length (dj_fn dj)" "sfn_name (take 11 fn)" by simp_all
  let ?dj = "dj1\<lparr>sclust := root_clust fs\<rparr>"
  obtain r dj' gs where f: "dir_find dev ?dj fs = Some (r, dj', gs)" "found_post fs (root_clust fs) cs fn r dj' gs"
    using dir_find_ok [OF assms(1-3), of ?dj cs] assms(4,6) c(2) n(2) by auto
  have "fst (next_chr p) = hd p" using p(2) by (cases p) (simp_all add: next_chr_def)
  moreover have "\<not> hd p < 0x20" using p(4) by simp
  ultimately have "follow_path dev dj p fs = follow_loop dev p (dj\<lparr>sclust := root_clust fs\<rparr>) fs"
    using p(3) by (simp add: follow_path_def root_clust_def Let_def)
  also have "\<dots> = Some (r, dj', gs)"
    using f n by (subst follow_loop.simps) (auto simp: create_name_sclust Let_def found_post_def)
  finally show "\<exists>r dj' gs. follow_path dev dj (snd (drive_of path)) fs = Some (r, dj', gs)
      \<and> found_post fs (root_clust fs) cs fn r dj' gs" using f(2) p(1) by auto
qed

lemma no_name_wstep:
  assumes "wstep fs gs" "fs_inv sectors good fs" "table_ok fs" "data_ok fs" "dir_ok (fat_entry sectors fs) fs sc cs"
  shows "no_name (vol sectors gs) gs sc cs fn = no_name (vol sectors fs) fs sc cs fn"
    "name_at (vol sectors gs) gs sc cs fn k = name_at (vol sectors fs) fs sc cs fn k"
proof -
  note k = search_keeps [OF assms]
  have same: "slot_end (vol sectors gs) gs sc cs j = slot_end (vol sectors fs) fs sc cs j"
    "slot_match (vol sectors gs) gs sc cs fn j = slot_match (vol sectors fs) fs sc cs fn j"
    if "j < slot_count fs sc cs" for j using k(7,9) that by (simp_all add: slot_end_def slot_match_def)
  have le: "slots fs sc cs \<le> slot_count fs sc cs" by (simp add: slots_def)
  have pass: "passed (vol sectors gs) gs sc cs fn j = passed (vol sectors fs) fs sc cs fn j"
    if "j \<le> slots fs sc cs" for j using same le that by (simp add: passed_def)
  show "no_name (vol sectors gs) gs sc cs fn = no_name (vol sectors fs) fs sc cs fn"
    unfolding no_name_def k(6) using same pass le by (intro ex_cong1) auto
  show "name_at (vol sectors gs) gs sc cs fn k = name_at (vol sectors fs) fs sc cs fn k"
    unfolding name_at_def k(6) using same pass le by (intro conj_cong) auto
qed

lemma created_wstep:
  assumes "wstep fs gs" "fs_inv sectors good fs" "table_ok fs" "data_ok fs" "dir_ok (fat_entry sectors fs) fs sc cs"
    and "created sectors gs sc cs fn os hs fp ds"
  shows "created sectors fs sc cs fn os hs fp ds"
proof -
  note k = search_keeps [OF assms(1-5)]
  have ow: "only_window fs gs" using assms(1) by (simp add: wstep_def)
  note sv = same_volume_keeps [OF only_window_volume [OF ow]]
  have b: "slot_bytes (vol sectors gs) gs sc cs j = slot_bytes (vol sectors fs) fs sc cs j" if "j < slot_count fs sc cs" for j
    using k(7,9) that by (simp add: slot_bytes_def)
  have v: "vol sectors gs x = vol sectors fs x" if "x \<notin> fat_area fs" for x
    using assms(1) that mirror_fat_area by (auto simp: wstep_def)
  have e: "fat_entry sectors gs x = fat_entry sectors fs x" if "cluster_no fs x" for x
    using wstep_entry [OF assms(1,3,2) that] .
  note c = assms(6) [unfolded created_def k(8) sv]
  from c obtain i where i: "name_at (vol sectors hs) hs sc (cs @ ds) fn i" "dir_sect fp = slot_sector hs sc (cs @ ds) i"
    "dir_ptr fp = i mod 16 * 32" "blank_entry (vol sectors hs (dir_sect fp)) (dir_ptr fp) fn"
    "\<And>j. j < slot_count hs sc (cs @ ds) \<Longrightarrow> j \<noteq> i \<Longrightarrow> slot_bytes (vol sectors hs) hs sc (cs @ ds) j
       = (if j < slot_count fs sc cs then slot_bytes (vol sectors gs) gs sc cs j else replicate 32 0)" by blast
  show ?thesis unfolding created_def
  proof (intro conjI exI [of _ i])
    show "dir_ok (fat_entry sectors hs) hs sc (cs @ ds)" using c by blast
    show "\<forall>j. j < slot_count hs sc (cs @ ds) \<longrightarrow> j \<noteq> i \<longrightarrow> slot_bytes (vol sectors hs) hs sc (cs @ ds) j
       = (if j < slot_count fs sc cs then slot_bytes (vol sectors fs) fs sc cs j else replicate 32 0)"
      using i(5) b by simp
    show "\<forall>c \<in> set ds. cluster_no fs c \<and> fat_entry sectors fs c = 0" using c e by fastforce
    show "\<forall>c \<in> set os. fat_entry sectors hs c = 0" using c by blast
    show "\<forall>x. cluster_no fs x \<longrightarrow> x \<notin> set (ds @ os) \<longrightarrow> (ds \<noteq> [] \<longrightarrow> x \<noteq> last cs) \<longrightarrow> fat_entry sectors hs x = fat_entry sectors fs x"
      using c e by fastforce
    show "\<forall>x. x \<notin> fat_area fs \<longrightarrow> x \<notin> set (chain_sectors fs ds) \<longrightarrow> x \<noteq> dir_sect fp \<longrightarrow> vol sectors hs x = vol sectors fs x"
      using c v by fastforce
  qed (fact i)+
qed

text \<open>The entry of a created file is where the dump relies on its being.\<close>

lemma created_place:
  assumes "created sectors fs sc cs fn os gs fp ds" "table_ok gs" "data_ok gs" "fsi_sector gs < fatbase gs"
  shows "entry_place sectors gs fp"
proof -
  obtain k where d: "dir_ok (fat_entry sectors gs) gs sc (cs @ ds)" and k: "k < slots gs sc (cs @ ds)"
    "dir_sect fp = slot_sector gs sc (cs @ ds) k" "dir_ptr fp = k mod 16 * 32"
    using assms(1) by (auto simp: created_def name_at_def)
  have kc: "k < slot_count gs sc (cs @ ds)" using k(1) by (simp add: slots_def)
  note s = slot_sector_ok [OF d assms(2,3) kc]
  have "k mod 16 < 16" by simp
  then have "k mod 16 * 32 + 32 \<le> 512" by linarith
  then show ?thesis using s k(2,3) assms(4) slot_sector_used [OF d assms(2,3) kc] by (auto simp: entry_place_def)
qed

lemma open_flags: "(mode OR FA_CREATE_ALWAYS) AND FA_CREATE_ALWAYS \<noteq> 0" "(mode OR FA__WRITTEN) AND FA__WRITTEN \<noteq> 0"
  for mode :: u8
proof -
  have "(mode OR FA_CREATE_ALWAYS) AND FA_CREATE_ALWAYS = FA_CREATE_ALWAYS" "(mode OR FA__WRITTEN) AND FA__WRITTEN = FA__WRITTEN"
    by (rule bit_word_eqI, auto simp: bit_simps)+
  then show "(mode OR FA_CREATE_ALWAYS) AND FA_CREATE_ALWAYS \<noteq> 0" "(mode OR FA__WRITTEN) AND FA__WRITTEN \<noteq> 0" by simp_all
qed

text \<open>The creating branch after a search without success.\<close>

lemma open_create_new:
  assumes "fs_inv sectors good fs" "table_ok fs" "data_ok fs" "winsect fs \<noteq> 0" "dir_ok (fat_entry sectors fs) fs (sclust dj) cs"
    and "12 \<le> length (dj_fn dj)" "sfn_name (take 11 (dj_fn dj))" "no_name (vol sectors fs) fs (sclust dj) cs (dj_fn dj)"
  shows "\<exists>r mode' dj' gs. open_create dev mode FR_NO_FILE dj fs = Some (r, mode', dj', gs) \<and> fs_inv sectors good gs \<and> same_volume fs gs
    \<and> (r = FR_OK \<longrightarrow> mode' = mode OR FA_CREATE_ALWAYS OR FA__WRITTEN \<and> (\<exists>d ds. dj_dir dj' = Some d
        \<and> (\<forall>fp. appending sectors good gs (open_file mode' d gs fp) [] \<and> fsize (open_file mode' d gs fp) = 0
             \<and> created sectors fs (sclust dj) cs (dj_fn dj) [] gs (open_file mode' d gs fp) ds)))"
proof -
  let ?sc = "sclust dj" and ?fn = "dj_fn dj"
  obtain r dj' gs where g: "dir_register dev dj fs = Some (r, dj', gs)" "fs_inv sectors good gs" "same_volume fs gs"
    "dj_fn dj' = ?fn" "sclust dj' = ?sc" "r = FR_OK \<longrightarrow> (\<exists>hs k cs'. registered fs ?sc cs ?fn hs k cs' dj' gs)"
    using dir_register_ok [OF assms(1-6)] by blast
  show ?thesis
  proof (cases "r = FR_OK")
    case False
    then show ?thesis using g(1-3) by (simp add: open_create_def)
  next
    case True
    then obtain hs k cs' where reg: "registered fs ?sc cs ?fn hs k cs' dj' gs" using g(6) by blast
    note rd = reg [unfolded registered_def]
    note kk = stretched_keeps [OF rd [THEN conjunct1] assms(2,3)]
    let ?d = "k mod 16 * 32"
    have at: "dj_dir dj' = Some ?d" "dj_sect dj' = winsect hs" using rd by (simp_all add: at_slot_def)
    have fit: "?d + 32 \<le> length (win hs)" using kk(1) mod_less_divisor [of 16 k] by (simp add: fs_inv_def)
    note f = init_entry_fields [OF fit assms(6)]
    have gw: "win gs = init_entry ?d ?fn (win hs)" "wflag gs = 1" "winsect gs = winsect hs" using rd by (simp_all add: win_upd_def)
    define mm where "mm = mode OR FA_CREATE_ALWAYS OR FA__WRITTEN"
    have "(win_upd (\<lambda>w. ST_DWORD (?d + DIR_CrtTime) 0 (w[?d + DIR_Attr := 0])) gs)\<lparr>wflag := 1\<rparr> = gs"
      using f(6) gw by (simp add: win_upd_def)
    then have run: "open_create dev mode FR_NO_FILE dj fs
        = Some (FR_OK, mm, dj', gs)"
      using g(1) True at(1) open_flags(1) [of mode] by (simp add: open_create_def mm_def or.assoc)
    have kg: "table_ok gs" "data_ok gs" using same_volume_keeps [OF g(3)] assms(2,3) by simp_all
    define fq where "fq m fp = open_file m ?d gs fp" for m fp
    have fields: "dir_sect (fq m fp) = dj_sect dj'" "dir_ptr (fq m fp) = ?d" "fsize (fq m fp) = 0" "org_clust (fq m fp) = 0"
      "fptr (fq m fp) = 0" "csect (fq m fp) = 255" for m fp
      using f(3,4) gw at(2) by (simp_all add: fq_def open_file_def)
    have "csize gs \<le> 255" by (simp add: word_le_nat_alt) (use unsigned_less [of "csize gs", where ?'a = nat] in simp)
    then have app: "appending sectors good gs (fq m fp) []" for m fp
      using g(2) kg kk(4) gw(3) fields by (simp add: appending_def append_at_def)
    have new: "\<exists>ds. created sectors fs ?sc cs ?fn [] gs (fq m fp) ds" for m fp
      using registered_created [OF reg assms(2,3,5,7,6,8) g(5) fields(1,2) assms(1)] .
    obtain ds where "created sectors fs ?sc cs ?fn [] gs (fq mm zero_FIL) ds" using new by blast
    then have "created sectors fs ?sc cs ?fn [] gs (fq mm fp) ds" for fp
      unfolding created_def by (simp add: fields)
    then have "\<exists>d ds. dj_dir dj' = Some d
        \<and> (\<forall>fp. appending sectors good gs (open_file mm d gs fp) [] \<and> fsize (open_file mm d gs fp) = 0
             \<and> created sectors fs ?sc cs ?fn [] gs (open_file mm d gs fp) ds)"
      using at(1) app fields(3) unfolding fq_def by blast
    then show ?thesis using run g(2,3) mm_def by blast
  qed
qed

text \<open>The creating branch after a search that found the file.\<close>

lemma open_create_old:
  assumes "fs_inv sectors good fs" "table_ok fs" "data_ok fs" "dir_ok (fat_entry sectors fs) fs (sclust dj) cs"
    and "at_slot fs cs k dj" "winsect fs = dj_sect dj" "name_at (vol sectors fs) fs (sclust dj) cs (dj_fn dj) k"
    and "old_file sectors fs (sclust dj) cs (dj_fn dj) os" "mode AND FA_CREATE_NEW = 0" "mode AND FA_CREATE_ALWAYS \<noteq> 0"
  shows "\<exists>r mode' gs. open_create dev mode FR_OK dj fs = Some (r, mode', dj, gs) \<and> fs_inv sectors good gs \<and> same_volume fs gs
    \<and> (r = FR_OK \<longrightarrow> mode' = mode OR FA__WRITTEN \<and> (\<exists>d. dj_dir dj = Some d
        \<and> (\<forall>fp. appending sectors good gs (open_file mode' d gs fp) [] \<and> fsize (open_file mode' d gs fp) = 0
             \<and> created sectors fs (sclust dj) cs (dj_fn dj) os gs (open_file mode' d gs fp) [])))"
proof -
  let ?sc = "sclust dj" and ?fn = "dj_fn dj" and ?d = "k mod 16 * 32"
  have kc: "k < slot_count fs ?sc cs" and at: "dj_dir dj = Some ?d" "dj_sect dj = slot_sector fs ?sc cs k"
    using assms(5) by (simp_all add: at_slot_def slots_def)
  note s = slot_sector_ok [OF assms(4,2,3) kc, folded at(2) assms(6)]
  have w: "vol sectors fs (winsect fs) = win fs" using s(1) by (simp add: vol_def)
  have "k mod 16 < 16" by simp
  then have fit: "?d + 32 \<le> length (win fs)" using assms(1) by (simp add: fs_inv_def)
  obtain n where n: "name_at (vol sectors fs) fs ?sc cs ?fn n" "vol sectors fs (slot_sector fs ?sc cs n) ! (n mod 16 * 32 + DIR_Attr) AND (AM_RDO OR AM_DIR) = 0"
    "if os = [] then start_cluster (vol sectors fs (slot_sector fs ?sc cs n)) (n mod 16 * 32) = 0
       else chain (fat_entry sectors fs) (max_clust fs) (start_cluster (vol sectors fs (slot_sector fs ?sc cs n)) (n mod 16 * 32)) os"
    "set os \<inter> set cs = {}" using assms(8) by (auto simp: old_file_def Let_def)
  have nk: "n = k" using name_at_unique [OF n(1) assms(7)] .
  have sect: "slot_sector fs ?sc cs k = winsect fs" using at(2) assms(6) by simp
  have o: "win fs ! (?d + DIR_Attr) AND (AM_RDO OR AM_DIR) = 0"
    "if os = [] then start_cluster (win fs) ?d = 0 else chain (fat_entry sectors fs) (max_clust fs) (start_cluster (win fs) ?d) os"
    using n(2,3) unfolding nk sect w .
  obtain r gs where g: "open_truncate dev ?d fs = Some (r, gs)" "fs_inv sectors good gs" "same_volume fs gs"
    "r = FR_OK \<longrightarrow> winsect gs = winsect fs \<and> win gs = truncate_entry ?d (win fs) \<and> (\<forall>c \<in> set os. fat_entry sectors gs c = 0)
        \<and> (\<forall>c. cluster_no fs c \<longrightarrow> c \<notin> set os \<longrightarrow> fat_entry sectors gs c = fat_entry sectors fs c)
        \<and> (\<forall>x. x \<notin> fat_area fs \<longrightarrow> x \<noteq> winsect fs \<longrightarrow> vol sectors gs x = vol sectors fs x)"
    using open_truncate_ok [OF assms(1-3) s o(2)] by blast
  show ?thesis
  proof (cases "r = FR_OK")
    case False
    then show ?thesis using g(1-3) assms(9,10) at(1) o(1) by (simp add: open_create_def)
  next
    case True
    let ?f = "\<lambda>w. ST_DWORD (?d + DIR_CrtTime) 0 (w[?d + DIR_Attr := 0])"
    define hs where "hs = (win_upd ?f gs)\<lparr>wflag := 1\<rparr>"
    define mm where "mm = mode OR FA__WRITTEN"
    have run: "open_create dev mode FR_OK dj fs = Some (FR_OK, mm, dj, hs)"
      using g(1) True assms(9,10) at(1) o(1) by (simp add: open_create_def mm_def hs_def)
    have gw: "winsect gs = winsect fs" "win gs = truncate_entry ?d (win fs)" and free: "\<forall>c \<in> set os. fat_entry sectors gs c = 0"
      and ent: "\<And>c. cluster_no fs c \<Longrightarrow> c \<notin> set os \<Longrightarrow> fat_entry sectors gs c = fat_entry sectors fs c"
      and rest: "\<And>x. x \<notin> fat_area fs \<Longrightarrow> x \<noteq> winsect fs \<Longrightarrow> vol sectors gs x = vol sectors fs x"
      using g(4) True by auto
    note kg = same_volume_keeps [OF g(3)]
    have tg: "table_ok gs" "data_ok gs" "winsect gs \<noteq> 0" "winsect gs \<notin> fat_area gs" using kg assms(2,3) gw(1) s by simp_all
    have "length (?f (win gs)) = 512" using g(2) by (simp add: ST_DWORD_def fs_inv_def)
    note st = slot_store [where f = ?f, OF g(2) tg(1,3,4) this, folded hs_def]
    have sv: "same_volume fs hs" using same_volume_trans [OF g(3) st(2)] .
    note kh = same_volume_keeps [OF sv]
    have wh: "win hs = reopened ?d (win fs)" using st(4) gw(2) by (simp add: reopened_def)
    note e = reopened_nth [OF fit]
    have v: "vol sectors hs x = (if x = winsect fs then reopened ?d (win fs) else vol sectors fs x)" if "x \<notin> fat_area fs" for x
    proof (cases "x = winsect fs")
      case True
      then show ?thesis using st(3) s(1) wh gw(1) by (simp add: vol_def)
    qed (use st(5) gw(1) rest that in simp)
    have size: "length (vol sectors f x) = 512" if "fs_inv sectors good f" for f x
      using that sector_size [of "disk f"] by (auto simp: vol_def fs_inv_def)
    have same: "slot_sector hs = slot_sector fs" "slots hs = slots fs" "slot_count hs = slot_count fs"
      using sv by (simp_all add: fun_eq_iff slot_sector_def slots_def slot_count_def root_slots_def same_volume_def kh)
    have other: "slot_bytes (vol sectors hs) hs ?sc cs j = slot_bytes (vol sectors fs) fs ?sc cs j"
      if j: "j < slot_count fs ?sc cs" "j \<noteq> k" for j
    proof (cases "slot_sector fs ?sc cs j = winsect fs")
      case True
      then have "j div 16 = k div 16" using slot_sector_eq [OF assms(4,3) j(1) kc] sect by simp
      then have ne: "j mod 16 \<noteq> k mod 16" using j(2) by (metis div_mult_mod_eq)
      have "take 32 (drop (j mod 16 * 32) (reopened ?d (win fs))) = take 32 (drop (j mod 16 * 32) (win fs))"
      proof (rule other_entry [OF _ _ _ ne])
        show "length (win fs) = 512" "length (reopened ?d (win fs)) = 512" using e(1) assms(1) by (simp_all add: fs_inv_def)
        show "reopened ?d (win fs) ! i = win fs ! i" if "i < ?d \<or> ?d + 32 \<le> i" for i using that e(2) by auto
      qed
      then show ?thesis using True s(3) w by (simp add: slot_bytes_def same v)
    qed (use slot_sector_ok(3) [OF assms(4,2,3) j(1)] in \<open>simp add: slot_bytes_def same v\<close>)
    have at_k: "slot_bytes (vol sectors hs) hs ?sc cs k = take 32 (drop ?d (reopened ?d (win fs)))"
      "slot_bytes (vol sectors fs) fs ?sc cs k = take 32 (drop ?d (win fs))"
      using s(3) w by (simp_all add: slot_bytes_def same v sect)
    have "name_at (vol sectors hs) hs ?sc cs ?fn k"
    proof (rule name_at_kept [OF assms(7) same(2)])
      show "slots fs ?sc cs \<le> slot_count fs ?sc cs" by (simp add: slots_def)
      show "take 11 (slot_bytes (vol sectors hs) hs ?sc cs k) = take 11 (slot_bytes (vol sectors fs) fs ?sc cs k)"
        unfolding at_k using e(6) by simp
      show "(slot_bytes (vol sectors hs) hs ?sc cs k ! DIR_Attr AND AM_MASK) AND AM_VOL = 0"
        unfolding at_k using e(1,3) fit by simp
    qed (use other size assms(1) st(1) in auto)
    moreover have "dir_ok (fat_entry sectors hs) hs ?sc cs"
    proof -
      have "chain (fat_entry sectors hs) (max_clust fs) ?sc cs" if ch: "chain (fat_entry sectors fs) (max_clust fs) ?sc cs"
      proof (rule chain_cong [OF ch])
        fix x assume x: "x \<in> set cs"
        then have "cluster_no fs x" "x \<notin> set os" using chain_members [OF ch x] n(4) by (auto simp: cluster_no_def)
        then show "fat_entry sectors hs x = fat_entry sectors fs x" using st(6) ent kg(2) by simp
      qed
      moreover have "max_clust hs = max_clust fs" "csize hs = csize fs" "n_rootdir hs = n_rootdir fs" "dirbase hs = dirbase fs"
        "database hs = database fs" "fatbase hs = fatbase fs" "n_fats hs = n_fats fs" "sects_fat hs = sects_fat fs"
        using sv by (simp_all add: same_volume_def)
      ultimately show ?thesis using assms(4) by (auto simp: dir_ok_def pow2_cluster_def root_slots_def split: if_splits)
    qed
    moreover have os: "cluster_no fs c" if "c \<in> set os" for c
      using o(2) that chain_members [of "fat_entry sectors fs" "max_clust fs" _ os c] by (auto simp: cluster_no_def split: if_splits)
    ultimately have new: "created sectors fs ?sc cs ?fn os hs (open_file mm ?d hs fp) []" for fp
      unfolding created_def
      using st(3,6) gw(1) sect s(3) e(3-6) assms(7) other free ent rest v kg(2) w
      by (intro conjI exI [of _ k])
        (auto simp: open_file_def same blank_entry_def chain_sectors_def name_at_def slot_match_def Let_def)
    have z: "start_cluster (win hs) ?d = 0" "LD_DWORD (win hs) (?d + DIR_FileSize) = 0" using e(4,5) wh by simp_all
    have "csize hs \<le> 255" by (simp add: word_le_nat_alt) (use unsigned_less [of "csize hs", where ?'a = nat] in simp)
    then have "appending sectors good hs (open_file mm ?d hs fp) []" "fsize (open_file mm ?d hs fp) = 0" for fp
      using st(1,3) kh assms(2,3) gw(1) s(1) z by (simp_all add: appending_def append_at_def open_file_def)
    then show ?thesis using run st(1) sv new at(1) mm_def by blast
  qed
qed

text \<open>Up to the creating branch: the path is looked up.\<close>

lemma f_open_run:
  assumes "mounted dev m" "fs_inv sectors good (obj m)" "table_ok (obj m)" "data_ok (obj m)"
    and "dir_ok (fat_entry sectors (obj m)) (obj m) (root_clust (obj m)) cs" "open_name dj0 path = Some fn"
    and "12 \<le> length (dj_fn dj0)" "mode AND (FA_CREATE_ALWAYS OR FA_OPEN_ALWAYS OR FA_CREATE_NEW) \<noteq> 0"
  shows "\<exists>r dj g. found_post (obj m) (root_clust (obj m)) cs fn r dj g \<and> f_open dev dj0 fp path mode m = do {
      (res, mode, dj, fs) \<leftarrow> open_create dev (mode AND 0x1F) r dj g;
      let m = m\<lparr>obj := fs\<rparr>;
      if res \<noteq> FR_OK then Some (res, fp\<lparr>f_fs := False\<rparr>, m)
      else do { d \<leftarrow> dj_dir dj; Some (FR_OK, open_file mode d fs (fp\<lparr>f_fs := False\<rparr>), m) } }"
proof -
  let ?fs = "obj m" and ?sc = "root_clust (obj m)"
  define md where "md = mode AND 0x1F"
  have sub: "md AND 0x1C = mode AND 0x1C" unfolding md_def by (simp add: and.assoc)
  have creating: "md AND 0x1C \<noteq> 0" using assms(8) unfolding sub by simp
  have writing: "md AND 0x1E \<noteq> 0"
  proof
    assume "md AND 0x1E = 0"
    then have "(md AND 0x1E) AND 0x1C = 0" by simp
    then show False using creating by (simp add: and.assoc)
  qed
  obtain p where p: "drive_of path = (0, p)" using assms(6) by (auto simp: open_name_def Let_def split: prod.splits if_splits)
  have mount: "auto_mount dev path True m = Some (FR_OK, p, m)"
    using assms(1) p by (simp add: auto_mount_def mounted_def)
  obtain r dj g where g: "follow_path dev dj0 p ?fs = Some (r, dj, g)" "found_post ?fs ?sc cs fn r dj g"
    using follow_path_root(3) [OF assms(2-7)] p by auto
  have "f_open dev dj0 fp path mode m = do {
      (res, mode, dj, fs) \<leftarrow> open_create dev md r dj g;
      let m = m\<lparr>obj := fs\<rparr>;
      if res \<noteq> FR_OK then Some (res, fp\<lparr>f_fs := False\<rparr>, m)
      else do { d \<leftarrow> dj_dir dj; Some (FR_OK, open_file mode d fs (fp\<lparr>f_fs := False\<rparr>), m) } }"
    using mount g(1) creating writing by (simp add: f_open_def Let_def flip: md_def)
  then show ?thesis using g(2) unfolding md_def by blast
qed

text \<open>What follows when the creating branch has an entry.\<close>

lemma f_open_post:
  assumes "found_post fs sc cs fn r dj g" "fs_inv sectors good fs" "table_ok fs" "data_ok fs" "dir_ok (fat_entry sectors fs) fs sc cs"
    and "f_open dev dj0 fp path mode m = do {
      (res, mode, dj, fs) \<leftarrow> open_create dev md r dj g;
      let m = m\<lparr>obj := fs\<rparr>;
      if res \<noteq> FR_OK then Some (res, fp\<lparr>f_fs := False\<rparr>, m)
      else do { d \<leftarrow> dj_dir dj; Some (FR_OK, open_file mode d fs (fp\<lparr>f_fs := False\<rparr>), m) } }"
    and "open_create dev md r dj g = Some (q, mode', dj', gs)" "fs_inv sectors good gs" "same_volume g gs"
    and "q = FR_OK \<longrightarrow> mode' AND FA__WRITTEN \<noteq> 0 \<and> (\<exists>d ds. dj_dir dj' = Some d
        \<and> (\<forall>fp. appending sectors good gs (open_file mode' d gs fp) [] \<and> fsize (open_file mode' d gs fp) = 0
             \<and> created sectors g sc cs fn os gs (open_file mode' d gs fp) ds))"
  shows "\<exists>r fp' m'. f_open dev dj0 fp path mode m = Some (r, fp', m') \<and> fs_inv sectors good (obj m')
    \<and> same_volume fs (obj m') \<and> FatFs m' = FatFs m
    \<and> (r = FR_OK \<longrightarrow> appending sectors good (obj m') fp' [] \<and> fsize fp' = 0 \<and> f_fs fp' \<and> f_id fp' = fs_id (obj m')
        \<and> flag fp' AND FA__WRITTEN \<noteq> 0 \<and> (\<exists>ds. created sectors fs sc cs fn os (obj m') fp' ds))"
proof -
  have w: "wstep fs g" using assms(1) by (simp add: found_post_def)
  have sv: "same_volume fs gs"
    using same_volume_trans [OF only_window_volume assms(9)] w by (simp add: wstep_def)
  show ?thesis
  proof (cases "q = FR_OK")
    case False
    then show ?thesis unfolding assms(6,7) using assms(8) sv by (simp add: Let_def)
  next
    case True
    then obtain d ds where d: "mode' AND FA__WRITTEN \<noteq> 0" "dj_dir dj' = Some d"
      "\<And>fp. appending sectors good gs (open_file mode' d gs fp) [] \<and> fsize (open_file mode' d gs fp) = 0
             \<and> created sectors g sc cs fn os gs (open_file mode' d gs fp) ds" using assms(10) by blast
    have "created sectors fs sc cs fn os gs (open_file mode' d gs f) ds" for f
      using created_wstep [OF w assms(2-5)] d(3) by blast
    moreover have "f_open dev dj0 fp path mode m = Some (FR_OK, open_file mode' d gs (fp\<lparr>f_fs := False\<rparr>), m\<lparr>obj := gs\<rparr>)"
      unfolding assms(6,7) using True d(2) by (simp add: Let_def)
    moreover have "flag (open_file mode' d gs f) AND FA__WRITTEN \<noteq> 0" "f_fs (open_file mode' d gs f)"
      "f_id (open_file mode' d gs f) = fs_id gs" for f
      using d(1) by (simp_all add: open_file_def)
    ultimately show ?thesis using assms(8) sv d(3) by auto
  qed
qed

lemma written_flag: "(m OR FA_CREATE_ALWAYS OR FA__WRITTEN) AND FA__WRITTEN \<noteq> 0" for m :: u8
  using open_flags(2) [of "m OR FA_CREATE_ALWAYS"] by (simp add: or.assoc)

lemma f_open_new:
  assumes "mounted dev m" "fs_inv sectors good (obj m)" "table_ok (obj m)" "data_ok (obj m)"
    and "dir_ok (fat_entry sectors (obj m)) (obj m) (root_clust (obj m)) cs" "open_name dj0 path = Some fn"
    and "12 \<le> length (dj_fn dj0)" "mode AND (FA_CREATE_ALWAYS OR FA_OPEN_ALWAYS OR FA_CREATE_NEW) \<noteq> 0"
    and "no_name (vol sectors (obj m)) (obj m) (root_clust (obj m)) cs fn"
  shows "\<exists>r fp' m'. f_open dev dj0 fp path mode m = Some (r, fp', m') \<and> fs_inv sectors good (obj m')
    \<and> same_volume (obj m) (obj m') \<and> FatFs m' = FatFs m
    \<and> (r = FR_OK \<longrightarrow> appending sectors good (obj m') fp' [] \<and> fsize fp' = 0 \<and> f_fs fp' \<and> f_id fp' = fs_id (obj m')
        \<and> flag fp' AND FA__WRITTEN \<noteq> 0 \<and> (\<exists>ds. created sectors (obj m) (root_clust (obj m)) cs fn [] (obj m') fp' ds))"
proof -
  let ?fs = "obj m" and ?sc = "root_clust (obj m)" and ?md = "mode AND 0x1F"
  obtain r dj g where g: "found_post ?fs ?sc cs fn r dj g" and run: "f_open dev dj0 fp path mode m = do {
      (res, mode, dj, fs) \<leftarrow> open_create dev ?md r dj g;
      let m = m\<lparr>obj := fs\<rparr>;
      if res \<noteq> FR_OK then Some (res, fp\<lparr>f_fs := False\<rparr>, m)
      else do { d \<leftarrow> dj_dir dj; Some (FR_OK, open_file mode d fs (fp\<lparr>f_fs := False\<rparr>), m) } }"
    using f_open_run [OF assms(1-8), of fp] by blast
  note post = g [unfolded found_post_def]
  have w: "wstep ?fs g" using post by blast
  note k = search_keeps [OF w assms(2-5)] and fin = f_open_post [OF g assms(2-5) run]
  have nf: "r \<noteq> FR_OK" using post no_name_at [OF assms(9)] by blast
  show ?thesis
  proof (cases "r = FR_NO_FILE")
    case False
    then have "open_create dev ?md r dj g = Some (r, ?md OR FA_CREATE_ALWAYS, dj, g)" using nf by (simp add: open_create_def)
    from fin [OF this k(1) same_volume_refl] show ?thesis using nf by blast
  next
    case True
    then have nz: "winsect g \<noteq> 0" "dj_fn dj = fn" "sclust dj = ?sc" using post by simp_all
    have nn: "no_name (vol sectors g) g (sclust dj) cs (dj_fn dj)"
      using no_name_wstep(1) [OF w assms(2-5)] assms(9) nz by simp
    have pre: "dir_ok (fat_entry sectors g) g (sclust dj) cs" "12 \<le> length (dj_fn dj)" "sfn_name (take 11 (dj_fn dj))"
      using k(4) nz follow_path_root(1,2) [OF assms(2-7)] assms(7) by simp_all
    obtain q mode' dj' gs where c: "open_create dev ?md FR_NO_FILE dj g = Some (q, mode', dj', gs)" "fs_inv sectors good gs"
      "same_volume g gs" "q = FR_OK \<longrightarrow> mode' = ?md OR FA_CREATE_ALWAYS OR FA__WRITTEN \<and> (\<exists>d ds. dj_dir dj' = Some d
        \<and> (\<forall>fp. appending sectors good gs (open_file mode' d gs fp) [] \<and> fsize (open_file mode' d gs fp) = 0
             \<and> created sectors g ?sc cs fn [] gs (open_file mode' d gs fp) ds))"
      using open_create_new [OF k(1-3) nz(1) pre nn, of ?md] unfolding nz by blast
    show ?thesis using fin [OF c(1) [folded True] c(2,3)] c(4) written_flag by blast
  qed
qed

lemma old_file_wstep:
  assumes "wstep fs g" "fs_inv sectors good fs" "table_ok fs" "data_ok fs" "dir_ok (fat_entry sectors fs) fs sc cs"
    and "old_file sectors fs sc cs fn os"
  shows "old_file sectors g sc cs fn os"
proof -
  note k = search_keeps [OF assms(1-5)] and nm = no_name_wstep(2) [OF assms(1-5)]
  have "max_clust g = max_clust fs" using assms(1) by (simp add: wstep_def only_window_fields)
  moreover have "chain (fat_entry sectors g) (max_clust fs) c os" if ch: "chain (fat_entry sectors fs) (max_clust fs) c os" for c
    using chain_cong [OF ch] wstep_entry [OF assms(1,3,2)] chain_members [OF ch] by (simp add: cluster_no_def)
  moreover have "vol sectors g (slot_sector fs sc cs n) = vol sectors fs (slot_sector fs sc cs n)"
    if "name_at (vol sectors fs) fs sc cs fn n" for n
    using k(9) [of n] that by (simp add: name_at_def slots_def)
  ultimately show ?thesis using assms(6) unfolding old_file_def Let_def nm k(7) by (auto split: if_splits)
qed

lemma f_open_old:
  assumes "mounted dev m" "fs_inv sectors good (obj m)" "table_ok (obj m)" "data_ok (obj m)"
    and "dir_ok (fat_entry sectors (obj m)) (obj m) (root_clust (obj m)) cs" "open_name dj0 path = Some fn"
    and "12 \<le> length (dj_fn dj0)" "mode AND FA_CREATE_NEW = 0" "mode AND FA_CREATE_ALWAYS \<noteq> 0"
    and "old_file sectors (obj m) (root_clust (obj m)) cs fn os"
  shows "\<exists>r fp' m'. f_open dev dj0 fp path mode m = Some (r, fp', m') \<and> fs_inv sectors good (obj m')
    \<and> same_volume (obj m) (obj m') \<and> FatFs m' = FatFs m
    \<and> (r = FR_OK \<longrightarrow> appending sectors good (obj m') fp' [] \<and> fsize fp' = 0 \<and> f_fs fp' \<and> f_id fp' = fs_id (obj m')
        \<and> flag fp' AND FA__WRITTEN \<noteq> 0 \<and> (\<exists>ds. created sectors (obj m) (root_clust (obj m)) cs fn os (obj m') fp' ds))"
proof -
  let ?fs = "obj m" and ?sc = "root_clust (obj m)" and ?md = "mode AND 0x1F"
  have md: "mode AND (FA_CREATE_ALWAYS OR FA_OPEN_ALWAYS OR FA_CREATE_NEW) \<noteq> 0"
  proof
    assume "mode AND (FA_CREATE_ALWAYS OR FA_OPEN_ALWAYS OR FA_CREATE_NEW) = 0"
    then have "(mode AND 0x1C) AND 8 = 0" by simp
    then show False using assms(9) by (simp add: and.assoc)
  qed
  have flags: "?md AND FA_CREATE_NEW = 0" "?md AND FA_CREATE_ALWAYS \<noteq> 0" using assms(8,9) by (simp_all add: and.assoc)
  obtain r dj g where g: "found_post ?fs ?sc cs fn r dj g" and run: "f_open dev dj0 fp path mode m = do {
      (res, mode, dj, fs) \<leftarrow> open_create dev ?md r dj g;
      let m = m\<lparr>obj := fs\<rparr>;
      if res \<noteq> FR_OK then Some (res, fp\<lparr>f_fs := False\<rparr>, m)
      else do { d \<leftarrow> dj_dir dj; Some (FR_OK, open_file mode d fs (fp\<lparr>f_fs := False\<rparr>), m) } }"
    using f_open_run [OF assms(1-7) md, of fp] by blast
  note post = g [unfolded found_post_def]
  have w: "wstep ?fs g" using post by blast
  note k = search_keeps [OF w assms(2-5)] and fin = f_open_post [OF g assms(2-5) run]
  have "r \<noteq> FR_NO_FILE" using post no_name_at assms(10) unfolding old_file_def by blast
  then consider "r = FR_OK" | "r = FR_DISK_ERR" using post by blast
  then show ?thesis
  proof cases
    case 2
    then have "open_create dev ?md r dj g = Some (r, ?md OR FA_CREATE_ALWAYS, dj, g)" by (simp add: open_create_def)
    from fin [OF this k(1) same_volume_refl] show ?thesis using 2 by blast
  next
    case 1
    then obtain n where n: "name_at (vol sectors ?fs) ?fs ?sc cs fn n" "at_slot ?fs cs n dj" "winsect g = dj_sect dj"
      "dj_fn dj = fn" "sclust dj = ?sc" using post by blast
    have pre: "dir_ok (fat_entry sectors g) g (sclust dj) cs" "at_slot g cs n dj" "name_at (vol sectors g) g (sclust dj) cs (dj_fn dj) n"
      "old_file sectors g (sclust dj) cs (dj_fn dj) os"
      using k(4,5) n no_name_wstep(2) [OF w assms(2-5)] old_file_wstep [OF w assms(2-5,10)] by simp_all
    obtain q mode' gs where c: "open_create dev ?md FR_OK dj g = Some (q, mode', dj, gs)" "fs_inv sectors good gs" "same_volume g gs"
      "q = FR_OK \<longrightarrow> mode' = ?md OR FA__WRITTEN \<and> (\<exists>d. dj_dir dj = Some d
        \<and> (\<forall>fp. appending sectors good gs (open_file mode' d gs fp) [] \<and> fsize (open_file mode' d gs fp) = 0
             \<and> created sectors g ?sc cs fn os gs (open_file mode' d gs fp) []))"
      using open_create_old [OF k(1-3) pre(1,2) n(3) pre(3,4) flags] unfolding n(4,5) by blast
    show ?thesis using fin [OF c(1) [folded 1] c(2,3)] c(4) open_flags(2) by blast
  qed
qed

text \<open>The mode the program uses, with or without a file of the name.\<close>

lemma f_open_always:
  assumes "mounted dev m" "fs_inv sectors good (obj m)" "table_ok (obj m)" "data_ok (obj m)"
    and "dir_ok (fat_entry sectors (obj m)) (obj m) (root_clust (obj m)) cs" "open_name dj0 path = Some fn"
    and "12 \<le> length (dj_fn dj0)" "mode AND FA_CREATE_NEW = 0" "mode AND FA_CREATE_ALWAYS \<noteq> 0"
    and "creatable sectors (obj m) (root_clust (obj m)) cs fn os"
  shows "\<exists>r fp' m'. f_open dev dj0 fp path mode m = Some (r, fp', m') \<and> fs_inv sectors good (obj m')
    \<and> same_volume (obj m) (obj m') \<and> FatFs m' = FatFs m
    \<and> (r = FR_OK \<longrightarrow> appending sectors good (obj m') fp' [] \<and> fsize fp' = 0 \<and> f_fs fp' \<and> f_id fp' = fs_id (obj m')
        \<and> flag fp' AND FA__WRITTEN \<noteq> 0 \<and> (\<exists>ds. created sectors (obj m) (root_clust (obj m)) cs fn os (obj m') fp' ds))"
proof (cases "old_file sectors (obj m) (root_clust (obj m)) cs fn os")
  case True
  show ?thesis by (rule f_open_old [OF assms(1-9) True])
next
  case False
  then have n: "no_name (vol sectors (obj m)) (obj m) (root_clust (obj m)) cs fn" "os = []"
    using assms(10) by (auto simp: creatable_def)
  have md: "mode AND (FA_CREATE_ALWAYS OR FA_OPEN_ALWAYS OR FA_CREATE_NEW) \<noteq> 0"
  proof
    assume "mode AND (FA_CREATE_ALWAYS OR FA_OPEN_ALWAYS OR FA_CREATE_NEW) = 0"
    then have "(mode AND 0x1C) AND 8 = 0" by simp
    then show False using assms(9) by (simp add: and.assoc)
  qed
  show ?thesis unfolding n(2) by (rule f_open_new [OF assms(1-7) md n(1)])
qed

end

section \<open>Creating a file on the card\<close>

text \<open>
  C19: \<^verbatim>\<open>f_open\<close> in the mode of the program, which creates the file in any case, for a name in the root directory of a
  mounted volume that is new or the name of an ordinary file. It returns; with \<open>FR_OK\<close> the file object is an empty file at
  its beginning, ready for appending; its entry is where the name is found and holds the name, size zero and no
  cluster; the clusters of a file that had the name are free; all other entries of the directory, the clusters of
  all other files and the sectors outside the tables are as they were. When the directory had no free slot for
  a new name it has got a cleared cluster that was free.
\<close>

theorem f_open_creates:
  fixes m :: "'a disk_st_scheme ff"
  assumes "mounted (sd_device ev torn ba) m" "fs_inv image (disk_ok ev ba) (obj m)" "table_ok (obj m)" "data_ok (obj m)"
    and "dir_ok (fat_entry image (obj m)) (obj m) (root_clust (obj m)) cs" "open_name dj0 path = Some fn"
    and "12 \<le> length (dj_fn dj0)" "mode AND FA_CREATE_NEW = 0" "mode AND FA_CREATE_ALWAYS \<noteq> 0"
    and "creatable image (obj m) (root_clust (obj m)) cs fn os"
  shows "\<exists>r fp' m'. f_open (sd_device ev torn ba) dj0 fp path mode m = Some (r, fp', m')
    \<and> same_volume (obj m) (obj m') \<and> (r = FR_OK \<longrightarrow> appending image (disk_ok ev ba) (obj m') fp' [] \<and> fsize fp' = 0
        \<and> validate (sd_device ev torn ba) fp' (obj m') \<noteq> FR_INVALID_OBJECT
        \<and> (\<exists>ds. created image (obj m) (root_clust (obj m)) cs fn os (obj m') fp' ds))"
proof -
  have ty: "fs_type (obj m) \<noteq> 0" using assms(1) by (simp add: mounted_def)
  obtain r fp' m' where o: "f_open (sd_device ev torn ba) dj0 fp path mode m = Some (r, fp', m')" "same_volume (obj m) (obj m')"
    "r = FR_OK \<longrightarrow> appending image (disk_ok ev ba) (obj m') fp' [] \<and> fsize fp' = 0 \<and> f_fs fp' \<and> f_id fp' = fs_id (obj m')
        \<and> (\<exists>ds. created image (obj m) (root_clust (obj m)) cs fn os (obj m') fp' ds)"
    using sd.f_open_always [OF assms, of fp] by blast
  moreover have "fs_type (obj m') \<noteq> 0" using o(2) ty by (simp add: same_volume_def)
  ultimately show ?thesis by (auto simp: validate_def)
qed

text \<open>A mounted volume whose root directory has \<^verbatim>\<open>SLC.RAW\<close> with the clusters 2, 5 and 3.\<close>

definition slc_name :: "u8 list" where
  "slc_name = [0x53, 0x4C, 0x43, 0x20, 0x20, 0x20, 0x20, 0x20, 0x52, 0x41, 0x57, 4]"

definition slc_root :: "u8 list" where
  "slc_root = take 11 slc_name @ [0x20] @ replicate 14 0 @ [2, 0] @ [0, 6, 0, 0] @ replicate 480 0"

definition slc_fs :: "disk_st fatfs" where
  "slc_fs = (small_fs FS_FAT16 chain_table)\<lparr>disk := disk_reset_st\<lparr>image := (\<lambda>_. replicate 512 0)(3 := slc_root)\<rparr>\<rparr>"

definition slc_ff :: "disk_st ff" where
  "slc_ff = \<lparr>FatFs = True, Fsid = 1, obj = slc_fs\<rparr>"

lemma slc_root_fields: "length slc_root = 512" "slc_root ! 0 = 0x53" "slc_root ! 11 = 0x20" "take 11 slc_root = take 11 slc_name"
  "start_cluster slc_root 0 = 2" "slc_root ! DIR_Attr = 0x20"
  by code_simp+

lemma slc_fs_ok: "fs_inv image (disk_ok done_env ba) slc_fs" "table_ok slc_fs" "data_ok slc_fs" "dir_ok nx slc_fs 0 []"
  "root_clust slc_fs = 0" "vol image slc_fs 3 = slc_root" "slot_sector slc_fs 0 [] 0 = 3" "slots slc_fs 0 [] = 16"
proof -
  have "disk_inv (disk slc_fs)"
    by (auto simp: slc_fs_def disk_inv_def disk_reset_st_def host_ok_def by_dma_def slc_root_fields)
  then have "disk_ok done_env ba (disk slc_fs)" by (rule done_env_disk_ok)
  then show "fs_inv image (disk_ok done_env ba) slc_fs" by (simp add: fs_inv_def slc_fs_def small_fs_def chain_table_def)
  show "table_ok slc_fs" "data_ok slc_fs" "dir_ok nx slc_fs 0 []"
    using small_fs_ok(2) [of chain_table FS_FAT16] small_root_ok
    by (auto simp: slc_fs_def chain_table_def table_ok_def data_ok_def dir_ok_def pow2_cluster_def root_slots_def small_fs_def intro: exI [of _ 0])
  show "root_clust slc_fs = 0" "vol image slc_fs 3 = slc_root" "slot_sector slc_fs 0 [] 0 = 3" "slots slc_fs 0 [] = 16"
    by (simp_all add: root_clust_def slc_fs_def small_fs_def vol_def disk_reset_st_def slot_sector_def slots_def slot_count_def root_slots_def)
qed

lemma slc_tbl: "i < 512 \<Longrightarrow> tbl image slc_fs i = chain_table ! i"
  by (simp add: tbl_def vol_def slc_fs_def small_fs_def)

lemma slc_chain: "chain (fat_entry image slc_fs) (max_clust slc_fs) 2 [2, 5, 3]"
proof -
  have t: "fs_type slc_fs = FS_FAT16" "max_clust slc_fs = 8" by (simp_all add: slc_fs_def small_fs_def)
  have "fat_entry image slc_fs 2 = 5" "fat_entry image slc_fs 5 = 3" "fat_entry image slc_fs 3 = 0xFFFF"
    by (simp_all add: fat_entry_def Let_def slc_tbl t) (simp_all add: chain_table_def le16_def)
  then show ?thesis by (simp add: t)
qed

lemma slc_old_file: "old_file image slc_fs 0 [] slc_name [2, 5, 3]"
proof -
  have "name_at (vol image slc_fs) slc_fs 0 [] slc_name 0"
    by (simp add: name_at_def passed_def slot_end_def slot_match_def valid_entry_def slc_fs_ok slc_root_fields)
  moreover have "chain (fat_entry image slc_fs) (max_clust slc_fs) (start_cluster slc_root 0) [2, 5, 3]"
    unfolding slc_root_fields(5) by (rule slc_chain)
  ultimately show ?thesis unfolding old_file_def Let_def
    by (intro conjI exI [of _ 0]) (simp_all add: slc_fs_ok(6,7) slc_root_fields(3) del: chain.simps)
qed

theorem f_open_creates_witness:
  "\<exists>r fp' m'. f_open (sd_device done_env (\<lambda>_. []) 0x10000000) blank_dir zero_FIL [0x53, 0x4C, 0x43, 0x2E, 0x52, 0x41, 0x57] 0x0A slc_ff
      = Some (r, fp', m') \<and> (r = FR_OK \<longrightarrow> fsize fp' = 0 \<and> dir_sect fp' = 3 \<and> fat_entry image (obj m') 5 = 0)"
proof -
  let ?p = "[0x53, 0x4C, 0x43, 0x2E, 0x52, 0x41, 0x57] :: u8 list"
  have o: "obj slc_ff = slc_fs" by (simp add: slc_ff_def)
  have m: "mounted (sd_device done_env (\<lambda>_. []) 0x10000000) slc_ff"
    by (simp add: mounted_def slc_ff_def slc_fs_def small_fs_def sd_device_def disk_status_def sdmmc_check_card_def disk_reset_st_def zero_card_def)
  have n: "open_name blank_dir ?p = Some slc_name" unfolding slc_name_def by code_simp
  have l: "12 \<le> length (dj_fn blank_dir)" by (simp add: blank_dir_def)
  have c: "creatable image slc_fs 0 [] slc_name [2, 5, 3]" using slc_old_file by (simp add: creatable_def)
  from f_open_creates [OF m, unfolded o slc_fs_ok(5), OF slc_fs_ok(1-4) n l _ _ c, where fp = zero_FIL and mode = "0x0A"]
  obtain r fp' m' ds where r: "f_open (sd_device done_env (\<lambda>_. []) 0x10000000) blank_dir zero_FIL ?p 0x0A slc_ff = Some (r, fp', m')"
    "same_volume slc_fs (obj m')" "r = FR_OK \<longrightarrow> fsize fp' = 0 \<and> created image slc_fs 0 [] slc_name [2, 5, 3] (obj m') fp' ds"
    by auto
  have v: "dirbase (obj m') = 3" "n_rootdir (obj m') = 16" using r(2) by (simp_all add: same_volume_def slc_fs_def small_fs_def)
  have "dir_sect fp' = 3 \<and> fat_entry image (obj m') 5 = 0" if "created image slc_fs 0 [] slc_name [2, 5, 3] (obj m') fp' ds"
  proof -
    from that obtain k where "k < slots (obj m') 0 ds" "dir_sect fp' = slot_sector (obj m') 0 ds k"
      by (auto simp: created_def name_at_def)
    moreover have "fat_entry image (obj m') 5 = 0" using that by (simp add: created_def)
    ultimately show ?thesis using v by (simp add: slot_sector_def slots_def slot_count_def root_slots_def)
  qed
  then show ?thesis using r by blast
qed

end
