(* ===== verification/DumpSlc.thy ===== *)
theory DumpSlc
  imports FatOpen
begin

text \<open>
  The dump of a bank as a whole: \<^verbatim>\<open>_dump_slc_raw\<close> of \<^verbatim>\<open>armboot/dump.c\<close> from the name it formats to the file it leaves.
\<close>

section \<open>The name of the file\<close>

definition raw_path :: "string \<Rightarrow> u8 list" where
  "raw_path name = map of_char ((name @ ''.RAW'') @ replicate (60 - length name) CHR 0x00)"

definition raw_name :: "u32 \<Rightarrow> u8 list" where
  "raw_name bank = map of_char (if bank = NAND_BANK_SLC then ''SLC     RAW'' else ''SLCCMPT RAW'') @ [4]"

lemma sprintf_raw:
  assumes "name = ''SLC'' \<or> name = ''SLCCMPT''"
  shows "sprintf (replicate 64 CHR 0x00) ''%s.RAW'' [VStr (Some name)]
    = Some ((name @ ''.RAW'') @ replicate (60 - length name) CHR 0x00, int (length name + 4))"
proof -
  have "sprintf (replicate 64 CHR 0x00) ''%s.RAW'' [VStr (Some ''SLC'')]
    = Some ((''SLC'' @ ''.RAW'') @ replicate (60 - length ''SLC'') CHR 0x00, int (length ''SLC'' + 4))" by code_simp
  moreover have "sprintf (replicate 64 CHR 0x00) ''%s.RAW'' [VStr (Some ''SLCCMPT'')]
    = Some ((''SLCCMPT'' @ ''.RAW'') @ replicate (60 - length ''SLCCMPT'') CHR 0x00, int (length ''SLCCMPT'' + 4))" by code_simp
  ultimately show ?thesis using assms by blast
qed

lemma open_name_raw:
  assumes "length (dj_fn dj) = 12" "bank_name bank = Some name"
  shows "open_name dj (raw_path name) = Some (raw_name bank)"
proof -
  have len: "length (drop 11 (dj_fn dj)) = 1" using assms(1) by simp
  then obtain x where x: "drop 11 (dj_fn dj) = [x]" by (auto simp: length_Suc_conv simp del: length_drop)
  have w: "mem_set 0 0x20 11 (dj_fn dj) = [0x20, 0x20, 0x20, 0x20, 0x20, 0x20, 0x20, 0x20, 0x20, 0x20, 0x20, x]"
    using mem_set_split [of 0 11 "dj_fn dj" "0x20"] assms(1) x by (simp add: numeral_eq_Suc)
  have loop: "name_loop (raw_path ''SLC'') 0 8 0 [0x20, 0x20, 0x20, 0x20, 0x20, 0x20, 0x20, 0x20, 0x20, 0x20, 0x20, x]
      = Some (0, 11, 11, 10, [0x53, 0x4C, 0x43, 0x20, 0x20, 0x20, 0x20, 0x20, 0x52, 0x41, 0x57, x], replicate 56 0)"
    "name_loop (raw_path ''SLCCMPT'') 0 8 0 [0x20, 0x20, 0x20, 0x20, 0x20, 0x20, 0x20, 0x20, 0x20, 0x20, 0x20, x]
      = Some (0, 11, 11, 10, [0x53, 0x4C, 0x43, 0x43, 0x4D, 0x50, 0x54, 0x20, 0x52, 0x41, 0x57, x], replicate 52 0)"
    by code_simp+
  have path: "drive_of (raw_path ''SLC'') = (0, raw_path ''SLC'')" "drive_of (raw_path ''SLCCMPT'') = (0, raw_path ''SLCCMPT'')"
    "hd (raw_path ''SLC'') = 0x53" "hd (raw_path ''SLCCMPT'') = 0x53" "raw_path ''SLC'' \<noteq> []" "raw_path ''SLCCMPT'' \<noteq> []"
    by code_simp+
  have name: "raw_name NAND_BANK_SLC = [0x53, 0x4C, 0x43, 0x20, 0x20, 0x20, 0x20, 0x20, 0x52, 0x41, 0x57, 4]"
    "raw_name NAND_BANK_SLCCMPT = [0x53, 0x4C, 0x43, 0x43, 0x4D, 0x50, 0x54, 0x20, 0x52, 0x41, 0x57, 4]"
    by code_simp+
  consider "bank = NAND_BANK_SLC" "name = ''SLC''" | "bank = NAND_BANK_SLCCMPT" "name = ''SLCCMPT''"
    using assms(2) by (auto simp: bank_name_def split: if_splits)
  then show ?thesis
    by cases (simp_all add: open_name_def create_name_def w loop path name is_sep_def Let_def del: name_loop.simps)
qed

section \<open>The entry after the dump\<close>

lemma sync_entry_nth:
  assumes "dir_ptr f + 32 \<le> length w"
  shows "i < dir_ptr f + 11 \<or> dir_ptr f + 32 \<le> i \<Longrightarrow> sync_entry f w ! i = w ! i"
    "sync_entry f w ! (dir_ptr f + 11) = w ! (dir_ptr f + 11) OR AM_ARC"
  using assms by (auto simp: sync_entry_def Let_def ST_WORD_def ST_DWORD_def nth_list_update)

lemma sync_entry_elsewhere:
  assumes "length w = 512" "dir_ptr f = k mod 16 * 32" "i mod 16 \<noteq> k mod 16"
  shows "take 32 (drop (i mod 16 * 32) (sync_entry f w)) = take 32 (drop (i mod 16 * 32) w)"
proof (rule nth_equalityI)
  let ?i = "i mod 16" and ?k = "k mod 16"
  have b: "?i < 16" "?k < 16" by simp_all
  then have fit: "dir_ptr f + 32 \<le> length w" "?i * 32 + 32 \<le> length w" using assms(1,2) by linarith+
  show "length (take 32 (drop (?i * 32) (sync_entry f w))) = length (take 32 (drop (?i * 32) w))" by simp
  fix j assume "j < length (take 32 (drop (?i * 32) (sync_entry f w)))"
  then have j: "j < 32" by simp
  have "?i < ?k \<or> ?k < ?i" using assms(3) by linarith
  then have "?i * 32 + j < dir_ptr f + 11 \<or> dir_ptr f + 32 \<le> ?i * 32 + j" using j assms(2) by (elim disjE) linarith+
  then have "sync_entry f w ! (?i * 32 + j) = w ! (?i * 32 + j)" by (rule sync_entry_nth(1) [OF fit(1)])
  then show "take 32 (drop (?i * 32) (sync_entry f w)) ! j = take 32 (drop (?i * 32) w) ! j"
    using j fit by simp
qed

text \<open>What the closing stores keeps the name and the entry's kind.\<close>

lemma sync_entry_name:
  assumes "dir_ptr f + 32 \<le> length w" "blank_entry w (dir_ptr f) fn"
  shows "take 11 (drop (dir_ptr f) (sync_entry f w)) = take 11 fn" "sync_entry f w ! dir_ptr f = w ! dir_ptr f"
    "sync_entry f w ! (dir_ptr f + DIR_Attr) = AM_ARC"
proof -
  note n = sync_entry_nth [OF assms(1)]
  have "take 11 (drop (dir_ptr f) (sync_entry f w)) = take 11 (drop (dir_ptr f) w)"
    using assms(1) by (intro nth_equalityI) (simp_all add: n)
  then show "take 11 (drop (dir_ptr f) (sync_entry f w)) = take 11 fn" using assms(2) by (simp add: blank_entry_def)
  show "sync_entry f w ! dir_ptr f = w ! dir_ptr f" by (simp add: n)
  show "sync_entry f w ! (dir_ptr f + DIR_Attr) = AM_ARC" using n(2) assms(2) by (simp add: blank_entry_def)
qed

section \<open>The dump from the name to the card\<close>

text \<open>
  What the card holds after a complete dump, in terms of the card before it: nothing is left in the window; looking the name up in the root
  directory \<open>cs @ ds\<close> ends at the slot \<open>k\<close>, the entry of an ordinary file with the size and the first cluster of the chain \<open>fc\<close>;
  the sectors of the chain are the image of the bank. The chain and what the directory has got were free or clusters
  \<open>os\<close> of a file that had the name, and those not needed are free; all other entries of the directory, clusters and
  sectors are as they were.
\<close>

definition raw_stored :: "flash \<Rightarrow> u32 \<Rightarrow> 'a disk_st_scheme fatfs \<Rightarrow> u32 list \<Rightarrow> u32 list \<Rightarrow> 'a disk_st_scheme fatfs \<Rightarrow> bool" where
  "raw_stored flash bank fs cs os gs \<longleftrightarrow> same_volume fs gs \<and> vol image gs = image (disk gs) \<and> (\<exists>ds fc k. let sc = root_clust fs; sec = slot_sector gs sc (cs @ ds) k; d = k mod 16 * 32 in
     dir_ok (fat_entry image gs) gs sc (cs @ ds) \<and> name_at (image (disk gs)) gs sc (cs @ ds) (raw_name bank) k
     \<and> image (disk gs) sec ! (d + DIR_Attr) = AM_ARC \<and> LD_DWORD (image (disk gs) sec) (d + DIR_FileSize) = 0x21000000
     \<and> chain (fat_entry image gs) (max_clust fs) (start_cluster (image (disk gs) sec) d) fc
     \<and> file_data (image (disk gs)) fs fc (0x21000000 div 512) = pages_image flash bank 0 0x40000
     \<and> set fc \<inter> set (cs @ ds) = {} \<and> (\<forall>c \<in> set (ds @ fc). cluster_no fs c \<and> (fat_entry image fs c = 0 \<or> c \<in> set os))
     \<and> (\<forall>c \<in> set os. c \<notin> set fc \<longrightarrow> fat_entry image gs c = 0)
     \<and> (\<forall>j < slot_count fs sc cs. j \<noteq> k \<longrightarrow>
          slot_bytes (image (disk gs)) gs sc (cs @ ds) j = slot_bytes (vol image fs) fs sc cs j)
     \<and> (\<forall>c. cluster_no fs c \<longrightarrow> c \<notin> set (ds @ fc @ os) \<longrightarrow> (ds \<noteq> [] \<longrightarrow> c \<noteq> last cs) \<longrightarrow> fat_entry image gs c = fat_entry image fs c)
     \<and> (\<forall>x. x \<notin> fat_area fs \<longrightarrow> x \<notin> set (chain_sectors fs (ds @ fc)) \<longrightarrow> x \<noteq> sec \<longrightarrow> \<not> info_sector fs x
          \<longrightarrow> image (disk gs) x = vol image fs x))"

lemma dumped_raw_stored:
  fixes fs :: "'a disk_st_scheme fatfs"
  assumes "created image fs (root_clust fs) cs (raw_name bank) os g fp ds" "dumped flash bank g fp gs fc" "entry_place image g fp"
    and "same_volume fs g" "table_ok g" "data_ok g" "\<And>x. length (vol image g x) = 512"
    and "dir_ok (fat_entry image fs) fs (root_clust fs) cs" "\<And>c. c \<in> set os \<Longrightarrow> cluster_no fs c"
  shows "raw_stored flash bank fs cs os gs"
proof -
  let ?sc = "root_clust fs" and ?cs = "cs @ ds" and ?fn = "raw_name bank"
  note c = assms(1) [unfolded created_def] and dd = assms(2) [unfolded dumped_def]
  have sv: "same_volume g gs" using dd by blast
  note k1 = same_volume_keeps [OF assms(4)] and k2 = same_volume_keeps [OF sv]
  have f1: "max_clust g = max_clust fs" "info_sector g = info_sector fs"
    using assms(4) info_sector_volume [OF assms(4)] by (simp_all add: same_volume_def)
  have same: "slot_sector gs = slot_sector g" "slots gs = slots g" "slot_count gs = slot_count g"
    using sv by (simp_all add: fun_eq_iff slot_sector_def slots_def slot_count_def root_slots_def same_volume_def k2)
  have dir: "dir_ok (fat_entry image g) g ?sc ?cs" using c by blast
  from c obtain k where k: "name_at (vol image g) g ?sc ?cs ?fn k" "dir_sect fp = slot_sector g ?sc ?cs k" "dir_ptr fp = k mod 16 * 32"
    "blank_entry (vol image g (dir_sect fp)) (dir_ptr fp) ?fn"
    "\<And>j. j < slot_count g ?sc ?cs \<Longrightarrow> j \<noteq> k \<Longrightarrow> slot_bytes (vol image g) g ?sc ?cs j
       = (if j < slot_count fs ?sc cs then slot_bytes (vol image fs) fs ?sc cs j else replicate 32 0)" by blast
  have kc: "k < slot_count g ?sc ?cs" "k < slots g ?sc ?cs" using k(1) by (simp_all add: name_at_def slots_def)
  obtain f where f: "dir_ptr f = dir_ptr fp" "image (disk gs) (dir_sect fp) = sync_entry f (vol image g (dir_sect fp))" using dd by blast
  have free: "cluster_no g x \<and> fat_entry image g x = 0" if "x \<in> set fc" for x using dd that by blast
  have img: "image (disk gs) (slot_sector g ?sc ?cs j) = (if slot_sector g ?sc ?cs j = dir_sect fp
      then sync_entry f (vol image g (dir_sect fp)) else vol image g (slot_sector g ?sc ?cs j))" if j: "j < slot_count g ?sc ?cs" for j
  proof -
    note s = slot_sector_ok [OF dir assms(5,6) j]
    have "\<not> info_sector g (slot_sector g ?sc ?cs j)" using s(2) assms(3) by (auto simp: entry_place_def info_sector_def)
    moreover have "slot_sector g ?sc ?cs j \<notin> set (chain_sectors g fc)"
      using slot_sector_used [OF dir assms(5,6) j] free by (auto simp: chain_sectors_def)
    ultimately show ?thesis using dd s(3) f(2) by (cases "slot_sector g ?sc ?cs j = dir_sect fp") auto
  qed
  have fit: "dir_ptr f + 32 \<le> length (vol image g (dir_sect fp))" using assms(3,7) f(1) by (simp add: entry_place_def)
  have other: "slot_bytes (image (disk gs)) gs ?sc ?cs j = slot_bytes (vol image g) g ?sc ?cs j"
    if j: "j < slot_count g ?sc ?cs" "j \<noteq> k" for j
  proof (cases "slot_sector g ?sc ?cs j = dir_sect fp")
    case True
    then have "j div 16 = k div 16" using slot_sector_eq [OF dir assms(6) j(1) kc(1)] k(2) by simp
    then have "j mod 16 \<noteq> k mod 16" using j(2) by (metis div_mult_mod_eq)
    then show ?thesis
      using True img [OF j(1)] sync_entry_elsewhere [OF assms(7)] f(1) k(3) by (simp add: slot_bytes_def same)
  qed (simp add: slot_bytes_def same img [OF j(1)])
  have size: "length (image (disk gs) (slot_sector gs ?sc ?cs j)) = 512" if "j < slot_count g ?sc ?cs" for j
    using img [OF that] assms(7) by (simp add: same)
  have name: "name_at (image (disk gs)) gs ?sc ?cs ?fn k"
  proof -
    have "\<not> slot_end (image (disk gs)) gs ?sc ?cs j \<and> \<not> slot_match (image (disk gs)) gs ?sc ?cs ?fn j" if j: "j < k" for j
    proof -
      have jc: "j < slot_count g ?sc ?cs" "j \<noteq> k" using j kc(1) by simp_all
      have "\<not> slot_end (vol image g) g ?sc ?cs j \<and> \<not> slot_match (vol image g) g ?sc ?cs ?fn j"
        using k(1) j by (simp add: name_at_def passed_def)
      then show ?thesis
        by (simp add: slot_view [where v = "image (disk gs)", OF size [OF jc(1)]] slot_view [where v = "vol image g", OF assms(7)] other [OF jc])
    qed
    moreover note e = sync_entry_name [OF fit, unfolded f(1), OF k(4)]
    have "\<not> slot_end (vol image g) g ?sc ?cs k" "slot_match (vol image g) g ?sc ?cs ?fn k" using k(1) by (simp_all add: name_at_def)
    then have "vol image g (dir_sect fp) ! dir_ptr fp \<notin> {0, 0xE5, 0x2E}"
      by (simp add: slot_end_def slot_match_def valid_entry_def Let_def k(2,3))
    then have "\<not> slot_end (image (disk gs)) gs ?sc ?cs k" "slot_match (image (disk gs)) gs ?sc ?cs ?fn k"
      using e f(2) by (simp_all add: slot_end_def slot_match_def valid_entry_def Let_def same k(2,3))
    ultimately show ?thesis using kc(2) by (simp add: name_at_def passed_def same)
  qed
  have member: "fat_entry image g x \<noteq> 0" if "x \<in> set ?cs" for x
    using that dir chain_members [of "fat_entry image g" "max_clust g" ?sc ?cs] by (auto simp: dir_ok_def split: if_splits)
  have new: "cluster_no fs x \<and> (fat_entry image fs x = 0 \<or> x \<in> set os)" if x: "x \<in> set fc" for x
  proof -
    have "x \<notin> set ?cs" using free [OF x] member by blast
    moreover have "cs \<noteq> []" if "ds \<noteq> []" using dir assms(8) that by (auto simp: dir_ok_def split: if_splits)
    ultimately have "x \<notin> set ds" "ds \<noteq> [] \<longrightarrow> x \<noteq> last cs" by auto
    then show ?thesis using c free [OF x] k1 by auto
  qed
  have dir': "dir_ok (fat_entry image gs) gs ?sc ?cs"
  proof -
    have "chain (fat_entry image gs) (max_clust g) ?sc ?cs" if ch: "chain (fat_entry image g) (max_clust g) ?sc ?cs"
      by (rule chain_cong [OF ch]) (use dd free chain_members [OF ch] in \<open>auto simp: cluster_no_def\<close>)
    moreover have "max_clust gs = max_clust g" "csize gs = csize g" "n_rootdir gs = n_rootdir g" "dirbase gs = dirbase g"
      "database gs = database g" "fatbase gs = fatbase g" "n_fats gs = n_fats g" "sects_fat gs = sects_fat g"
      using sv by (simp_all add: same_volume_def)
    ultimately show ?thesis using dir by (auto simp: dir_ok_def pow2_cluster_def root_slots_def split: if_splits)
  qed
  have cnt: "slot_count fs ?sc cs \<le> slot_count g ?sc ?cs"
    using assms(4) by (simp add: slot_count_def root_slots_def same_volume_def chain_sectors_def k1)
  have keep: "same_volume fs gs" "vol image gs = image (disk gs)" using same_volume_trans [OF assms(4) sv] dd by blast+
  show ?thesis unfolding raw_stored_def Let_def
  proof (rule conjI [OF keep(1)], rule conjI [OF keep(2)], rule exI [of _ ds], rule exI [of _ fc], rule exI [of _ k], intro conjI)
    show "dir_ok (fat_entry image gs) gs ?sc ?cs" "name_at (image (disk gs)) gs ?sc ?cs ?fn k" by (fact dir' name)+
    show "LD_DWORD (image (disk gs) (slot_sector gs ?sc ?cs k)) (k mod 16 * 32 + DIR_FileSize) = 0x21000000"
      "chain (fat_entry image gs) (max_clust fs) (start_cluster (image (disk gs) (slot_sector gs ?sc ?cs k)) (k mod 16 * 32)) fc"
      using dd k(2,3) f1 by (simp_all add: same)
    show "file_data (image (disk gs)) fs fc (0x21000000 div 512) = pages_image flash bank 0 0x40000"
      using dd by (simp add: file_data_def k1)
    show "image (disk gs) (slot_sector gs ?sc ?cs k) ! (k mod 16 * 32 + DIR_Attr) = AM_ARC"
      using sync_entry_name(3) [OF fit, unfolded f(1), OF k(4)] f(2) k(2,3) by (simp add: same)
    show "set fc \<inter> set ?cs = {}" using free member by blast
    show "\<forall>x \<in> set (ds @ fc). cluster_no fs x \<and> (fat_entry image fs x = 0 \<or> x \<in> set os)" using c new by auto
    show "\<forall>x \<in> set os. x \<notin> set fc \<longrightarrow> fat_entry image gs x = 0" using c dd assms(9) k1 by auto
    show "\<forall>j < slot_count fs ?sc cs. j \<noteq> k \<longrightarrow> slot_bytes (image (disk gs)) gs ?sc ?cs j = slot_bytes (vol image fs) fs ?sc cs j"
      using other k(5) cnt by simp
    show "\<forall>x. cluster_no fs x \<longrightarrow> x \<notin> set (ds @ fc @ os) \<longrightarrow> (ds \<noteq> [] \<longrightarrow> x \<noteq> last cs) \<longrightarrow> fat_entry image gs x = fat_entry image fs x"
      using c dd k1 by auto
    show "\<forall>x. x \<notin> fat_area fs \<longrightarrow> x \<notin> set (chain_sectors fs (ds @ fc)) \<longrightarrow> x \<noteq> slot_sector gs ?sc ?cs k \<longrightarrow> \<not> info_sector fs x
        \<longrightarrow> image (disk gs) x = vol image fs x"
      using c dd k(2) f1 by (auto simp: k1 same chain_sectors_def)
  qed
qed

lemma creatable_clusters:
  assumes "creatable v fs sc cs fn os" "c \<in> set os"
  shows "cluster_no fs c"
  using assms chain_members [of "fat_entry v fs" "max_clust fs" _ os c]
  by (auto simp: creatable_def old_file_def Let_def cluster_no_def split: if_splits)

text \<open>Opening a new file keeps the interrupt mask and the selected bank.\<close>

lemma appending_disk_ok:
  assumes "appending image (dump_good ev ba c b) fs fp cs"
  shows "appending image (disk_ok ev ba) fs fp cs" "cpsr (disk fs) = c"
  using assms by (auto simp: appending_def fs_inv_def dump_good_def driver_def)

lemma dump_slc_raw_ok:
  fixes m :: "'a disk_st_scheme ff"
  assumes "nand_responds ev pb eb" "\<not> irqs_masked (disk (obj m))" "mounted (sd_device ev torn ba) m"
    and "fs_inv image (disk_ok ev ba) (obj m)" "table_ok (obj m)" "data_ok (obj m)" "fsi_sector (obj m) < fatbase (obj m)"
    and "dir_ok (fat_entry image (obj m)) (obj m) (root_clust (obj m)) cs" "length (dj_fn dj0) = 12"
    and "bank = NAND_BANK_SLC \<or> bank = NAND_BANK_SLCCMPT"
    and "creatable image (obj m) (root_clust (obj m)) cs (raw_name bank) os"
  shows "\<exists>r m'. dump_slc_raw ev torn ba flash pb eb dj0 bank m = Some (r, m') \<and> r \<in> {0, -3, -4, -5}
    \<and> (r = 0 \<longrightarrow> raw_stored flash bank (obj m) cs os (obj m'))"
proof -
  let ?dev = "sd_device ev torn ba" and ?md = "FA_READ OR FA_WRITE OR FA_CREATE_ALWAYS :: u8"
  obtain name where name: "bank_name bank = Some name" "name = ''SLC'' \<or> name = ''SLCCMPT''"
    using assms(10) by (auto simp: bank_name_def)
  define c b where "c = cpsr (disk (obj m))" and "b = initialized (disk (obj m))"
  have inv: "fs_inv image (dump_good ev ba c b) (obj m)"
    using assms(4) by (simp add: fs_inv_def dump_good_def driver_def c_def b_def)
  have fn: "open_name dj0 (raw_path name) = Some (raw_name bank)" using open_name_raw [OF assms(9) name(1)] .
  have len: "12 \<le> length (dj_fn dj0)" using assms(9) by simp
  have md: "?md AND FA_CREATE_NEW = 0" "?md AND FA_CREATE_ALWAYS \<noteq> 0" by simp_all
  obtain r fp m1 where o: "f_open ?dev dj0 zero_FIL (raw_path name) ?md m = Some (r, fp, m1)"
    "same_volume (obj m) (obj m1)"
    "r = FR_OK \<longrightarrow> appending image (dump_good ev ba c b) (obj m1) fp [] \<and> fsize fp = 0
        \<and> (\<exists>ds. created image (obj m) (root_clust (obj m)) cs (raw_name bank) os (obj m1) fp ds)"
    using nd.f_open_always [OF assms(3) inv assms(5,6,8) fn len md assms(11)] by blast
  have path: "map of_char ((name @ ''.RAW'') @ replicate (60 - length name) CHR 0x00) = raw_path name"
    by (simp add: raw_path_def)
  define pth where "pth = takeWhile (\<lambda>c. c \<noteq> CHR 0x00) ((name @ ''.RAW'') @ replicate (60 - length name) CHR 0x00)"
  have run: "dump_slc_raw ev torn ba flash pb eb dj0 bank m = (if r \<noteq> FR_OK
      then Some (-3, m1\<lparr>obj := disk_msg ''Failed to open %s (%d).'' [VStr (Some pth), VInt (fres_code r)] (obj m1)\<rparr>)
      else do { (r, fs) \<leftarrow> dump_file ev torn ba flash pb eb name pth bank fp (obj m1); Some (r, m1\<lparr>obj := fs\<rparr>) })"
    unfolding dump_slc_raw_def name(1) option.case sprintf_raw [OF name(2)] bind.bind_lunit prod.case Let_def path o(1) pth_def [symmetric] ..
  show ?thesis
  proof (cases "r = FR_OK")
    case False
    then show ?thesis unfolding run by simp
  next
    case True
    then obtain ds where a: "appending image (dump_good ev ba c b) (obj m1) fp []" "fsize fp = 0"
      "created image (obj m) (root_clust (obj m)) cs (raw_name bank) os (obj m1) fp ds" using o(3) by blast
    note ap = appending_disk_ok [OF a(1)]
    have "cpsr (disk (obj m1)) = cpsr (disk (obj m))" using ap(2) by (simp only: c_def)
    then have irq: "\<not> irqs_masked (disk (obj m1))" using assms(2) by (simp only: irqs_masked_def not_False_eq_True)
    have ok: "table_ok (obj m1)" "data_ok (obj m1)" "fs_inv image (disk_ok ev ba) (obj m1)" using ap(1) by (simp_all add: appending_def)
    have "fsi_sector (obj m1) < fatbase (obj m1)" using o(2) assms(7) by (simp add: same_volume_def)
    from nd.created_place [OF a(3) ok(1,2) this] have place: "entry_place image (obj m1) fp" .
    obtain q gs where d: "dump_file ev torn ba flash pb eb name pth bank fp (obj m1) = Some (q, gs)" "q \<in> {0, -4, -5}"
      "q = 0 \<longrightarrow> (\<exists>fc. dumped flash bank (obj m1) fp gs fc)"
      using dump_file_ok [OF assms(1) irq ap(1) a(2) place, of torn flash name pth bank] that by (elim exE conjE) (rule that)
    have size: "length (vol image (obj m1) x) = 512" for x
      using ok(3) sd.sector_size [of ev ba "disk (obj m1)"] by (auto simp: vol_def fs_inv_def)
    have "raw_stored flash bank (obj m) cs os gs" if "dumped flash bank (obj m1) fp gs fc" for fc
      using dumped_raw_stored [OF a(3) that place o(2) ok(1,2) size assms(8) creatable_clusters [OF assms(11)]] .
    then show ?thesis unfolding run using True d by auto
  qed
qed

end
