(* ===== verification/FatMount.thy ===== *)
theory FatMount
  imports DumpSlc
begin

text \<open>
  Mounting: the boot record \<^verbatim>\<open>chk_mounted\<close> of \<^verbatim>\<open>armboot/storage/ff.c\<close> looks for, what a well-formed one gives, and the
  first access to a card, which mounts it.
\<close>

section \<open>Boot records\<close>

text \<open>What \<^verbatim>\<open>check_fs\<close> makes of a sector that was read.\<close>

definition boot_record :: "u8 list \<Rightarrow> bool" where
  "boot_record w \<longleftrightarrow> LD_WORD w BS_55AA = 0xAA55 \<and> (mem_cmp w BS_FilSysType [0x46, 0x41, 0x54] 0 3 = 0
     \<or> mem_cmp w BS_FilSysType32 [0x46, 0x41, 0x54, 0x33, 0x32] 0 5 = 0 \<and> w ! BPB_ExtFlags AND 0x80 = 0)"

text \<open>Where the volume is: on the whole card, or in the first partition.\<close>

definition volume_at :: "(u32 \<Rightarrow> u8 list) \<Rightarrow> u32 option" where
  "volume_at v = (if boot_record (v 0) then Some 0
     else if LD_WORD (v 0) BS_55AA = 0xAA55 \<and> v 0 ! (MBR_Table + 4) \<noteq> 0 \<and> boot_record (v (LD_DWORD (v 0) (MBR_Table + 8)))
     then Some (LD_DWORD (v 0) (MBR_Table + 8)) else None)"

definition meta_sectors :: "u8 list \<Rightarrow> nat" where
  "meta_sectors w = unat (LD_WORD w BPB_RsvdSecCnt) + unat (fat_size w) * unat (w ! BPB_NumFATs)
     + unat (LD_WORD w BPB_RootEntCnt) div 16"

definition cluster_limit :: "u8 list \<Rightarrow> nat" where
  "cluster_limit w = (unat (total_sectors w) - meta_sectors w) div unat (w ! BPB_SecPerClus) + 2"

text \<open>A boot record as the specification of the file system asks for.\<close>

definition bpb_ok :: "u32 \<Rightarrow> u8 list \<Rightarrow> bool" where
  "bpb_ok bsect w \<longleftrightarrow> LD_WORD w BPB_BytsPerSec = 512 \<and> w ! BPB_SecPerClus \<in> {1, 2, 4, 8, 16, 32, 64, 128}
     \<and> w ! BPB_NumFATs \<noteq> 0 \<and> LD_WORD w BPB_RsvdSecCnt \<noteq> 0 \<and> unat (LD_WORD w BPB_RootEntCnt) mod 16 = 0
     \<and> meta_sectors w \<le> unat (total_sectors w) \<and> unat bsect + unat (total_sectors w) + 256 < 2 ^ 32
     \<and> (if cluster_limit w < 0xFF7 then 3 * cluster_limit w \<le> 1024 * unat (fat_size w)
        else if cluster_limit w < 0xFFF7 then cluster_limit w \<le> 256 * unat (fat_size w)
        else cluster_limit w \<le> 128 * unat (fat_size w) \<and> cluster_limit w \<le> 0x0FFFFFF7
          \<and> 0 < LD_WORD w BPB_FSInfo \<and> LD_WORD w BPB_FSInfo < LD_WORD w BPB_RsvdSecCnt)
     \<and> (cluster_limit w < 0xFFF7 \<longrightarrow> LD_WORD w BPB_RootEntCnt \<noteq> 0)"

lemma unat_u16_u32: "unat (ucast x :: u32) = unat x" for x :: u16
  using unsigned_less [of x, where ?'a = nat] by (simp add: unsigned_ucast_eq take_bit_nat_eq_self)

lemma mount_clusters_limit:
  assumes "bpb_ok bsect w"
  shows "unat (mount_clusters w) = cluster_limit w" "unat (fat_size w * ucast (w ! BPB_NumFATs)) = unat (fat_size w) * unat (w ! BPB_NumFATs)"
    "unat (ucast (LD_WORD w BPB_RootEntCnt div 16) :: u32) = unat (LD_WORD w BPB_RootEntCnt) div 16"
proof -
  let ?r = "unat (LD_WORD w BPB_RsvdSecCnt)" and ?f = "unat (fat_size w) * unat (w ! BPB_NumFATs)"
  let ?d = "unat (LD_WORD w BPB_RootEntCnt) div 16" and ?t = "unat (total_sectors w)" and ?c = "unat (w ! BPB_SecPerClus)"
  have b: "?r + ?f + ?d \<le> ?t" "?t + 256 < 2 ^ 32" using assms by (simp_all add: bpb_ok_def meta_sectors_def)
  show f: "unat (fat_size w * ucast (w ! BPB_NumFATs)) = ?f"
    using b by (simp add: unat_word_ariths unat_u8_u32)
  show d: "unat (ucast (LD_WORD w BPB_RootEntCnt div 16) :: u32) = ?d" by (simp add: unat_u16_u32 unat_div)
  have "unat (total_sectors w - ucast (LD_WORD w BPB_RsvdSecCnt) - fat_size w * ucast (w ! BPB_NumFATs)
     - ucast (LD_WORD w BPB_RootEntCnt div 16)) = ?t - ?r - ?f - ?d"
    using b f d by (auto simp: unat_sub_if' unat_u16_u32)
  moreover have "(?t - ?r - ?f - ?d) div ?c \<le> ?t" by (meson diff_le_self div_le_dividend le_trans)
  ultimately show "unat (mount_clusters w) = cluster_limit w"
    using b by (simp add: mount_clusters_def cluster_limit_def meta_sectors_def unat_word_ariths unat_div unat_u8_u32 diff_diff_eq)
qed

text \<open>The geometry the mounting computes, and what a well-formed boot record makes of it.\<close>

definition geometry :: "u32 \<Rightarrow> u8 list \<Rightarrow> 'd fatfs \<Rightarrow> bool" where
  "geometry bsect w fs \<longleftrightarrow> sects_fat fs = fat_size w \<and> n_fats fs = w ! BPB_NumFATs \<and> csize fs = w ! BPB_SecPerClus
     \<and> n_rootdir fs = LD_WORD w BPB_RootEntCnt \<and> max_clust fs = mount_clusters w \<and> fs_type fs = fat_type (mount_clusters w)
     \<and> fatbase fs = bsect + ucast (LD_WORD w BPB_RsvdSecCnt)
     \<and> dirbase fs = (if fs_type fs = FS_FAT32 then LD_DWORD w BPB_RootClus else fatbase fs + fat_size w * ucast (w ! BPB_NumFATs))
     \<and> database fs = fatbase fs + fat_size w * ucast (w ! BPB_NumFATs) + ucast (LD_WORD w BPB_RootEntCnt div 16)"

lemma geometry_ok:
  assumes "bpb_ok bsect w" "geometry bsect w fs"
  shows "table_ok fs" "data_ok fs" "pow2_cluster fs" "fs_type fs \<noteq> FS_FAT32 \<Longrightarrow> dir_ok nx fs 0 []"
    "unat (fatbase fs) + unat (n_fats fs) * unat (sects_fat fs) < 2 ^ 32" "unat (fatbase fs) = unat bsect + unat (LD_WORD w BPB_RsvdSecCnt)"
proof -
  let ?r = "unat (LD_WORD w BPB_RsvdSecCnt)" and ?f = "unat (fat_size w) * unat (w ! BPB_NumFATs)"
  let ?d = "unat (LD_WORD w BPB_RootEntCnt) div 16" and ?t = "unat (total_sectors w)" and ?c = "unat (w ! BPB_SecPerClus)"
  let ?n = "cluster_limit w"
  note m = mount_clusters_limit [OF assms(1)] and g = assms(2) [unfolded geometry_def] and ok = assms(1) [unfolded bpb_ok_def]
  have b: "?r + ?f + ?d \<le> ?t" "unat bsect + ?t + 256 < 2 ^ 32" using ok by (simp_all add: meta_sectors_def)
  have c: "\<exists>k < 8. ?c = 2 ^ k"
    using ok by (elim conjE insertE) (force intro: exI [of _ 0] exI [of _ 1] exI [of _ 2] exI [of _ 3] exI [of _ 4] exI [of _ 5] exI [of _ 6] exI [of _ 7])+
  show p: "pow2_cluster fs" using c g by (simp add: pow2_cluster_def)
  note cb = csize_bounds [OF p]
  show fb: "unat (fatbase fs) = unat bsect + ?r" using g b by (simp add: unat_word_ariths unat_u16_u32)
  have end1: "unat (fatbase fs + fat_size w * ucast (w ! BPB_NumFATs)) = unat bsect + ?r + ?f"
    using b fb m(2) by (simp add: unat_word_ariths)
  have db: "unat (database fs) = unat bsect + ?r + ?f + ?d" using g b end1 m(3) by (simp add: unat_word_ariths)
  have area: "unat (n_fats fs) * unat (sects_fat fs) = ?f" using g by simp
  show "unat (fatbase fs) + unat (n_fats fs) * unat (sects_fat fs) < 2 ^ 32" using fb area b by linarith
  have mc: "unat (max_clust fs) = ?n" using g m(1) by simp
  have data: "unat (database fs) + unat (max_clust fs) * unat (csize fs) < 2 ^ 32"
  proof -
    have "(?t - meta_sectors w) div ?c * ?c \<le> ?t - meta_sectors w" by simp
    then have "?n * ?c \<le> ?t - meta_sectors w + 2 * ?c" by (simp add: cluster_limit_def)
    moreover have "?c \<le> 128" using cb(2) g by simp
    ultimately show ?thesis using db mc b g by (simp add: meta_sectors_def)
  qed
  show dat: "data_ok fs" using cb db fb area data by (simp add: data_ok_def word_less_nat_alt word_le_nat_alt)
  have ty: "fs_type fs = (if ?n < 0xFF7 then FS_FAT12 else if ?n < 0xFFF7 then FS_FAT16 else FS_FAT32)"
    using g m(1) by (auto simp: fat_type_def word_le_nat_alt)
  have "fatbase fs \<noteq> 0" using fb ok by (auto simp: unat_eq_zero)
  moreover have "0 < unat (n_fats fs)" using g ok by (simp add: unat_gt_0)
  moreover have "2 \<le> ?n" by (simp add: cluster_limit_def)
  ultimately show "table_ok fs" using ty ok mc g by (auto simp: table_ok_def word_le_nat_alt split: if_splits)
  show "dir_ok nx fs 0 []" if "fs_type fs \<noteq> FS_FAT32"
  proof -
    have r: "(x + 15) div 16 = x div 16" if "x mod 16 = 0" for x :: nat
    proof -
      from that obtain k where "x = 16 * k" by auto
      then show ?thesis by simp
    qed
    have "unat (LD_WORD w BPB_RootEntCnt) mod 16 = 0" using ok by blast
    from r [OF this] have "(unat (LD_WORD w BPB_RootEntCnt) + 15) div 16 = ?d" .
    then have "root_slots fs div 16 = ?d" using g by (simp add: root_slots_def)
    moreover have "n_rootdir fs \<noteq> 0" using that ty ok g by (auto split: if_splits)
    ultimately show ?thesis using p that g end1 db fb area by (auto simp: dir_ok_def)
  qed
qed

section \<open>Mounting\<close>

context block_device
begin

lemma read_one:
  assumes "good (disk fs)" "length (win fs) = 512"
  obtains r d where "d_read dev (win fs) sec 1 (disk fs) = Some (r, if r = RES_OK then sectors (disk fs) sec else win fs, d)"
    "good d" "sectors d = sectors (disk fs)"
proof -
  have len: "length (win fs) = 512 * unat (1 :: u8)" using assms(2) by simp
  obtain r b d where r: "d_read dev (win fs) sec 1 (disk fs) = Some (r, b, d)" "good d" "sectors d = sectors (disk fs)"
    "r = RES_OK \<longrightarrow> b = gather (sectors (disk fs)) sec (unat (1 :: u8))" "r \<noteq> RES_OK \<longrightarrow> b = win fs"
    using read_law [OF assms(1) len, of sec] by blast
  then have "b = (if r = RES_OK then sectors (disk fs) sec else win fs)" by (simp add: numeral_eq_Suc)
  then show ?thesis using r that by blast
qed

lemma check_fs_ok:
  assumes "good (disk fs)" "length (win fs) = 512"
  shows "\<exists>fmt w d. check_fs dev sect fs = Some (fmt, fs\<lparr>win := w, disk := d\<rparr>) \<and> good d \<and> sectors d = sectors (disk fs)
    \<and> length w = 512 \<and> fmt \<le> 3 \<and> (fmt \<noteq> 3 \<longrightarrow> w = sectors (disk fs) sect \<and> (fmt = 0) = boot_record w
        \<and> (fmt = 1) = (LD_WORD w BS_55AA = 0xAA55 \<and> \<not> boot_record w))"
proof -
  obtain r d where r: "d_read dev (win fs) sect 1 (disk fs) = Some (r, if r = RES_OK then sectors (disk fs) sect else win fs, d)"
    "good d" "sectors d = sectors (disk fs)" using read_one [OF assms, of sect] .
  let ?w = "if r = RES_OK then sectors (disk fs) sect else win fs"
  let ?f = "if r \<noteq> RES_OK then 3 else if LD_WORD ?w BS_55AA \<noteq> 0xAA55 then 2 else if boot_record ?w then 0 else 1 :: u8"
  have "check_fs dev sect fs = Some (?f, fs\<lparr>win := ?w, disk := d\<rparr>)"
    using r(1) by (simp add: check_fs_def boot_record_def Let_def)
  moreover have "length ?w = 512" using assms(2) sector_size [OF assms(1), of sect] by simp
  moreover have "?f \<le> 3" by simp
  moreover have "?f \<noteq> 3 \<longrightarrow> ?w = sectors (disk fs) sect \<and> (?f = 0) = boot_record ?w
      \<and> (?f = 1) = (LD_WORD ?w BS_55AA = 0xAA55 \<and> \<not> boot_record ?w)"
    by (simp add: boot_record_def)
  ultimately show ?thesis using r(2,3) by blast
qed

lemma find_volume_ok:
  assumes "good (disk fs)" "length (win fs) = 512"
  shows "\<exists>fmt bsect w d. find_volume dev fs = Some (fmt, bsect, fs\<lparr>win := w, disk := d\<rparr>) \<and> good d \<and> sectors d = sectors (disk fs)
    \<and> length w = 512 \<and> (fmt = 0 \<longrightarrow> volume_at (sectors (disk fs)) = Some bsect \<and> w = sectors (disk fs) bsect)
    \<and> (fmt \<noteq> 0 \<longrightarrow> fmt \<noteq> 3 \<longrightarrow> volume_at (sectors (disk fs)) = None)"
proof -
  obtain fmt w d where c: "check_fs dev 0 fs = Some (fmt, fs\<lparr>win := w, disk := d\<rparr>)" "good d" "sectors d = sectors (disk fs)"
    "length w = 512" "fmt \<noteq> 3 \<longrightarrow> w = sectors (disk fs) 0 \<and> (fmt = 0) = boot_record w
      \<and> (fmt = 1) = (LD_WORD w BS_55AA = 0xAA55 \<and> \<not> boot_record w)"
    using check_fs_ok [OF assms, of 0] by blast
  show ?thesis
  proof (cases "fmt = 1 \<and> w ! (MBR_Table + 4) \<noteq> 0")
    case False
    then have "find_volume dev fs = Some (fmt, 0, fs\<lparr>win := w, disk := d\<rparr>)"
      using c(1) by (auto simp: find_volume_def simp del: de_Morgan_conj)
    moreover have "fmt = 0 \<longrightarrow> volume_at (sectors (disk fs)) = Some 0 \<and> w = sectors (disk fs) 0"
      using c(5) by (auto simp: volume_at_def)
    moreover have "fmt \<noteq> 0 \<longrightarrow> fmt \<noteq> 3 \<longrightarrow> volume_at (sectors (disk fs)) = None"
      using c(5) False unfolding volume_at_def by metis
    ultimately show ?thesis using c(2-4) by blast
  next
    case True
    let ?b = "LD_DWORD w (MBR_Table + 8)"
    obtain g w2 d2 where e: "check_fs dev ?b (fs\<lparr>win := w, disk := d\<rparr>) = Some (g, fs\<lparr>win := w2, disk := d2\<rparr>)" "good d2"
      "sectors d2 = sectors (disk fs)" "length w2 = 512" "g \<noteq> 3 \<longrightarrow> w2 = sectors (disk fs) ?b \<and> (g = 0) = boot_record w2"
      using check_fs_ok [of "fs\<lparr>win := w, disk := d\<rparr>" ?b] c(2-4) by auto
    have "w = sectors (disk fs) 0" "\<not> boot_record w" "LD_WORD w BS_55AA = 0xAA55" using c(5) True by auto
    then have v: "volume_at (sectors (disk fs)) = (if boot_record (sectors (disk fs) ?b) then Some ?b else None)"
      using True by (simp add: volume_at_def)
    have "find_volume dev fs = Some (g, ?b, fs\<lparr>win := w2, disk := d2\<rparr>)"
      using c(1) e(1) True by (simp add: find_volume_def Let_def)
    moreover have "g = 0 \<longrightarrow> volume_at (sectors (disk fs)) = Some ?b \<and> w2 = sectors (disk fs) ?b"
      "g \<noteq> 0 \<longrightarrow> g \<noteq> 3 \<longrightarrow> volume_at (sectors (disk fs)) = None" using e(5) v by auto
    ultimately show ?thesis using e(2-4) by blast
  qed
qed

text \<open>The information sector is read for FAT32 only; either way the window is still a sector's size.\<close>

lemma mount_fsinfo_ok:
  assumes "good (disk fs)" "length (win fs) = 512"
  shows "\<exists>gs. mount_fsinfo dev fmt b fs = Some gs \<and> good (disk gs) \<and> sectors (disk gs) = sectors (disk fs) \<and> length (win gs) = 512
    \<and> wflag gs = 0 \<and> fsi_sector gs = (if fmt = FS_FAT32 then b + ucast (LD_WORD (win fs) BPB_FSInfo) else fsi_sector fs)
    \<and> geometry c w (gs\<lparr>winsect := x, fs_type := ty, fs_id := i\<rparr>) = geometry c w (fs\<lparr>fs_type := ty\<rparr>)"
proof (cases "fmt = FS_FAT32")
  case False
  then show ?thesis using assms by (simp add: mount_fsinfo_def Let_def geometry_def)
next
  case True
  let ?sec = "b + ucast (LD_WORD (win fs) BPB_FSInfo)"
  obtain r d where r: "d_read dev (win fs) ?sec 1 (disk fs) = Some (r, if r = RES_OK then sectors (disk fs) ?sec else win fs, d)"
    "good d" "sectors d = sectors (disk fs)" using read_one [OF assms, of ?sec] .
  have len: "length (sectors (disk fs) ?sec) = 512" using sector_size [OF assms(1)] .
  show ?thesis using True r len assms(2) by (simp add: mount_fsinfo_def Let_def geometry_def)
qed

lemma mount_volume_ok:
  assumes "good (disk (obj m))" "length (win (obj m)) = 512" "fsi_sector (obj m) = 0"
    and "\<And>b. volume_at (sectors (disk (obj m))) = Some b \<Longrightarrow> bpb_ok b (sectors (disk (obj m)) b)"
  shows "\<exists>r m'. mount_volume dev chk m = Some (r, m')
    \<and> r \<in> {FR_OK, FR_NOT_READY, FR_WRITE_PROTECTED, FR_DISK_ERR, FR_NO_FILESYSTEM} \<and> FatFs m' = FatFs m
    \<and> good (disk (obj m')) \<and> sectors (disk (obj m')) = sectors (disk (obj m)) \<and> (r \<noteq> FR_OK \<longrightarrow> fs_type (obj m') = 0)
    \<and> (r = FR_NO_FILESYSTEM \<longrightarrow> volume_at (sectors (disk (obj m))) = None)
    \<and> (r = FR_OK \<longrightarrow> (\<exists>b. volume_at (sectors (disk (obj m))) = Some b \<and> geometry b (sectors (disk (obj m)) b) (obj m')
        \<and> fs_inv sectors good (obj m') \<and> winsect (obj m') = 0 \<and> fsi_sector (obj m') < fatbase (obj m')
        \<and> fsi_sector (obj m') = (if fs_type (obj m') = FS_FAT32 then b + ucast (LD_WORD (sectors (disk (obj m)) b) BPB_FSInfo) else 0)
        \<and> fs_id (obj m') = Fsid m' \<and> Fsid m' = Fsid m + 1))"
proof -
  define stat d0 where "stat = fst (d_initialize dev (disk (obj m)))" and "d0 = snd (d_initialize dev (disk (obj m)))"
  have d0: "d_initialize dev (disk (obj m)) = (stat, d0)" "good d0" "sectors d0 = sectors (disk (obj m))"
    using init_law [OF assms(1)] by (simp_all add: stat_def d0_def)
  let ?f = "(obj m)\<lparr>fs_type := 0, disk := d0\<rparr>" and ?v = "sectors (disk (obj m))"
  obtain fmt b w d where f: "find_volume dev ?f = Some (fmt, b, ?f\<lparr>win := w, disk := d\<rparr>)" "good d" "sectors d = ?v" "length w = 512"
    "fmt = 0 \<longrightarrow> volume_at ?v = Some b \<and> w = ?v b" "fmt \<noteq> 0 \<longrightarrow> fmt \<noteq> 3 \<longrightarrow> volume_at ?v = None"
    using find_volume_ok [of ?f] d0 assms(2) by auto
  define f1 where "f1 = ?f\<lparr>win := w, disk := d\<rparr>"
  have f1: "win f1 = w" "disk f1 = d" "fs_type f1 = 0" "fsi_sector f1 = 0" using assms(3) by (simp_all add: f1_def)
  note init = mount_volume_def d0(1) Let_def
  consider "stat AND STA_NOINIT \<noteq> 0" | "stat AND STA_NOINIT = 0" "chk \<and> stat AND STA_PROTECT \<noteq> 0"
    | "stat AND STA_NOINIT = 0" "\<not> (chk \<and> stat AND STA_PROTECT \<noteq> 0)" "fmt = 3"
    | "stat AND STA_NOINIT = 0" "\<not> (chk \<and> stat AND STA_PROTECT \<noteq> 0)" "fmt \<noteq> 3" "fmt \<noteq> 0"
    | "stat AND STA_NOINIT = 0" "\<not> (chk \<and> stat AND STA_PROTECT \<noteq> 0)" "fmt = 0" by blast
  then show ?thesis
  proof cases
    case 1
    then have "mount_volume dev chk m = Some (FR_NOT_READY, m\<lparr>obj := ?f\<rparr>)" by (simp add: init)
    then show ?thesis using d0 by simp
  next
    case 2
    then have "mount_volume dev chk m = Some (FR_WRITE_PROTECTED, m\<lparr>obj := ?f\<rparr>)" by (simp add: init)
    then show ?thesis using d0 by simp
  next
    case 3
    then have "mount_volume dev chk m = Some (FR_DISK_ERR, m\<lparr>obj := f1\<rparr>)" using f(1) unfolding f1_def by (auto simp: init)
    then show ?thesis using f f1 by simp
  next
    case 4
    then have "mount_volume dev chk m = Some (FR_NO_FILESYSTEM, m\<lparr>obj := f1\<rparr>)" using f(1) unfolding f1_def by (auto simp: init)
    then show ?thesis using f f1 4 by simp
  next
    case 5
    then have v: "volume_at ?v = Some b" "w = ?v b" using f(5) by simp_all
    have ok: "bpb_ok b w" using assms(4) v by simp
    note okd = ok [unfolded bpb_ok_def]
    obtain f2 where f2: "mount_geometry b f1 = Some f2" "win f2 = w" "disk f2 = d" "fsi_sector f2 = 0" "max_clust f2 = mount_clusters w"
      "fatbase f2 = b + ucast (LD_WORD w BPB_RsvdSecCnt)"
      and g2: "geometry b w (f2\<lparr>fs_type := fat_type (mount_clusters w)\<rparr>)"
      using okd f1 by (auto simp: mount_geometry_def Let_def geometry_def)
    let ?ty = "fat_type (mount_clusters w)" and ?n = "Fsid m + 1"
    obtain f3 where f3: "mount_fsinfo dev ?ty b f2 = Some f3" "good (disk f3)" "sectors (disk f3) = ?v" "length (win f3) = 512"
      "wflag f3 = 0" "fsi_sector f3 = (if ?ty = FS_FAT32 then b + ucast (LD_WORD w BPB_FSInfo) else 0)"
      "geometry b w (f3\<lparr>winsect := 0, fs_type := ?ty, fs_id := ?n\<rparr>) = geometry b w (f2\<lparr>fs_type := ?ty\<rparr>)"
      using mount_fsinfo_ok [where fs = f2 and fmt = ?ty and b = b and c = b and w = w and ty = ?ty and x = 0 and i = ?n] f(2,3,4) f2 by auto
    let ?g = "f3\<lparr>winsect := 0, fs_type := ?ty, fs_id := ?n\<rparr>"
    have geo: "geometry b w ?g" using f3(7) g2 by simp
    have run: "mount_volume dev chk m = Some (FR_OK, m\<lparr>Fsid := ?n, obj := ?g\<rparr>)"
      using 5 f(1) f2(1,5) f3(1) f1(1) okd unfolding f1_def by (auto simp: init)
    note gk = geometry_ok [OF ok geo]
    have inv: "fs_inv sectors good ?g" using f3(2,4,5) gk(5) by (simp add: fs_inv_def)
    have fsi: "fsi_sector ?g < fatbase ?g"
    proof (cases "?ty = FS_FAT32")
      case True
      then have "LD_WORD w BPB_FSInfo < LD_WORD w BPB_RsvdSecCnt"
        using okd mount_clusters_limit(1) [OF ok] by (auto simp: fat_type_def word_le_nat_alt split: if_splits)
      then have lt: "unat (LD_WORD w BPB_FSInfo) < unat (LD_WORD w BPB_RsvdSecCnt)" by (simp add: word_less_nat_alt)
      have "unat b + unat (LD_WORD w BPB_RsvdSecCnt) < 2 ^ 32" using okd by (simp add: meta_sectors_def)
      then have "unat (b + ucast (LD_WORD w BPB_FSInfo)) = unat b + unat (LD_WORD w BPB_FSInfo)"
        using lt by (simp add: unat_word_ariths unat_u16_u32)
      then show ?thesis using True f3(6) gk(6) lt by (simp add: word_less_nat_alt)
    next
      case False
      have "0 < unat (fatbase ?g)" using gk(6) okd by (simp add: unat_gt_0)
      then show ?thesis using False f3(6) by (simp add: word_less_nat_alt)
    qed
    show ?thesis using run v geo inv fsi f3(2,3,6) by auto
  qed
qed

end

section \<open>The first access\<close>

text \<open>Opening a file on a volume that is not mounted mounts it first.\<close>

lemma f_open_mounts:
  assumes "FatFs m" "fs_type (obj m) = 0" "fst (drive_of path) = 0" "mount_volume dev True m = Some (r, m1)" "FatFs m1 = FatFs m"
    and "(mode AND 0x1F) AND 0x1E \<noteq> 0"
  shows "r \<noteq> FR_OK \<Longrightarrow> f_open dev dj0 fp path mode m = Some (r, fp\<lparr>f_fs := False\<rparr>, m1)"
    "mounted dev m1 \<Longrightarrow> r = FR_OK \<Longrightarrow> f_open dev dj0 fp path mode m = f_open dev dj0 fp path mode m1"
proof -
  obtain p where p: "drive_of path = (0, p)" using assms(3) by (cases "drive_of path") simp
  have a: "auto_mount dev path True m = Some (r, p, m1)" using assms(1,2,4) p by (simp add: auto_mount_def)
  have w: "((mode AND 0x1F) AND (FA_WRITE OR FA_CREATE_ALWAYS OR FA_OPEN_ALWAYS OR FA_CREATE_NEW) \<noteq> 0) = True"
    using assms(6) by simp
  show "r \<noteq> FR_OK \<Longrightarrow> f_open dev dj0 fp path mode m = Some (r, fp\<lparr>f_fs := False\<rparr>, m1)"
    using a w by (simp add: f_open_def Let_def)
  assume m1: "mounted dev m1" "r = FR_OK"
  have "auto_mount dev path True m1 = Some (FR_OK, p, m1)" using m1 p by (simp add: auto_mount_def mounted_def)
  then show "f_open dev dj0 fp path mode m = f_open dev dj0 fp path mode m1"
    using a w m1(2) by (simp add: f_open_def Let_def)
qed

text \<open>The volume as its boot record describes it, before it is mounted: nothing in the window.\<close>

definition card_view :: "('d \<Rightarrow> u32 \<Rightarrow> u8 list) \<Rightarrow> u32 \<Rightarrow> 'd ff \<Rightarrow> 'd fatfs" where
  "card_view v b m = (let w = v (disk (obj m)) b; ty = fat_type (mount_clusters w);
       base = b + ucast (LD_WORD w BPB_RsvdSecCnt); fsize = fat_size w * ucast (w ! BPB_NumFATs) in
     (obj m)\<lparr>fs_type := ty, csize := w ! BPB_SecPerClus, n_fats := w ! BPB_NumFATs, wflag := 0, fs_id := Fsid m + 1,
       n_rootdir := LD_WORD w BPB_RootEntCnt,
       fsi_sector := (if ty = FS_FAT32 then b + ucast (LD_WORD w BPB_FSInfo) else fsi_sector (obj m)),
       sects_fat := fat_size w, max_clust := mount_clusters w, fatbase := base,
       dirbase := (if ty = FS_FAT32 then LD_DWORD w BPB_RootClus else base + fsize),
       database := base + fsize + ucast (LD_WORD w BPB_RootEntCnt div 16), winsect := 0\<rparr>)"

lemma card_view_geometry: "geometry b (v (disk (obj m)) b) (card_view v b m)"
  by (simp add: geometry_def card_view_def Let_def)

lemma geometry_view:
  assumes "geometry b (v (disk (obj m)) b) fs" "fs_id fs = Fsid m + 1"
    and "fsi_sector fs = (if fs_type fs = FS_FAT32 then b + ucast (LD_WORD (v (disk (obj m)) b) BPB_FSInfo) else fsi_sector (obj m))"
  shows "same_volume (card_view v b m) fs"
  using assms by (simp add: same_volume_def geometry_def card_view_def Let_def)

text \<open>The same geometry and the same sectors are the same volume.\<close>

lemma same_view:
  assumes "same_volume fs gs" "vol v gs = vol v fs"
  shows "fat_entry v gs = fat_entry v fs" "dir_ok nx gs = dir_ok nx fs" "slot_sector gs = slot_sector fs" "slots gs = slots fs"
    "slot_count gs = slot_count fs" "root_clust gs = root_clust fs" "no_name u gs sc cs fn = no_name u fs sc cs fn"
    "slot_bytes u gs = slot_bytes u fs" "creatable v gs sc cs fn os = creatable v fs sc cs fn os"
    "name_at u gs sc cs fn k = name_at u fs sc cs fn k"
proof -
  note k = same_volume_keeps [OF assms(1)]
  have f: "fs_type gs = fs_type fs" "fatbase gs = fatbase fs" "csize gs = csize fs" "n_rootdir gs = n_rootdir fs"
    "max_clust gs = max_clust fs" "dirbase gs = dirbase fs" "database gs = database fs" "n_fats gs = n_fats fs" "sects_fat gs = sects_fat fs"
    using assms(1) by (simp_all add: same_volume_def)
  have "tbl v gs = tbl v fs" by (rule ext) (simp add: tbl_def assms(2) f)
  then show e: "fat_entry v gs = fat_entry v fs" by (intro ext) (simp add: fat_entry_def f Let_def)
  have r: "root_slots gs = root_slots fs" "pow2_cluster gs = pow2_cluster fs" by (simp_all add: root_slots_def pow2_cluster_def f)
  then show "dir_ok nx gs = dir_ok nx fs" by (intro ext) (simp add: dir_ok_def f)
  show s: "slot_sector gs = slot_sector fs" by (intro ext) (simp add: slot_sector_def f k)
  show c: "slot_count gs = slot_count fs" by (intro ext) (simp add: slot_count_def r k)
  then show l: "slots gs = slots fs" by (intro ext) (simp add: slots_def)
  show "root_clust gs = root_clust fs" by (simp add: root_clust_def f)
  show "slot_bytes u gs = slot_bytes u fs" by (intro ext) (simp add: slot_bytes_def s)
  show n: "no_name u gs sc cs fn = no_name u fs sc cs fn" for u
    by (simp add: no_name_def passed_def slot_end_def slot_match_def s l)
  show at: "name_at u gs sc cs fn k = name_at u fs sc cs fn k" for u k
    by (simp add: name_at_def passed_def slot_end_def slot_match_def s l)
  then show "creatable v gs sc cs fn os = creatable v fs sc cs fn os"
    by (simp add: creatable_def old_file_def n s e f assms(2))
qed

lemma raw_stored_view:
  assumes "same_volume fs gs" "vol image gs = vol image fs"
  shows "raw_stored flash bank gs cs os hs = raw_stored flash bank fs cs os hs"
proof -
  have f: "max_clust gs = max_clust fs" "info_sector gs = info_sector fs"
    using assms(1) info_sector_volume [OF assms(1)] by (simp_all add: same_volume_def)
  have "same_volume gs hs = same_volume fs hs" using assms(1) by (simp add: same_volume_def)
  then show ?thesis unfolding raw_stored_def by (simp only: same_view [OF assms] same_volume_keeps [OF assms(1)] assms(2) f)
qed

section \<open>The dump of a card that was put in\<close>

text \<open>
  A card with a well-formed volume whose root directory is \<open>cs\<close> (no clusters for FAT12 and FAT16) and does not have
  the name, or has it for an ordinary file of the clusters \<open>os\<close>; the object is registered and not yet mounted.
\<close>

definition fresh_card :: "'a disk_st_scheme ff \<Rightarrow> u32 \<Rightarrow> u32 list \<Rightarrow> u8 list \<Rightarrow> u32 list \<Rightarrow> bool" where
  "fresh_card m b cs fn os \<longleftrightarrow> FatFs m \<and> fs_type (obj m) = 0 \<and> fsi_sector (obj m) = 0 \<and> length (win (obj m)) = 512
     \<and> volume_at (image (disk (obj m))) = Some b \<and> bpb_ok b (image (disk (obj m)) b)
     \<and> (let fs = card_view image b m in dir_ok (fat_entry image fs) fs (root_clust fs) cs
          \<and> creatable image fs (root_clust fs) cs fn os)"

lemma dump_fresh_ok:
  fixes m :: "'a disk_st_scheme ff"
  assumes "nand_responds ev pb eb" "\<not> irqs_masked (disk (obj m))" "disk_ok ev ba (disk (obj m))"
    and "fresh_card m b cs (raw_name bank) os" "length (dj_fn dj0) = 12" "bank = NAND_BANK_SLC \<or> bank = NAND_BANK_SLCCMPT"
  shows "\<exists>r m'. dump_slc_raw ev torn ba flash pb eb dj0 bank m = Some (r, m') \<and> r \<in> {0, -3, -4, -5}
    \<and> (r = 0 \<longrightarrow> raw_stored flash bank (card_view image b m) cs os (obj m'))"
proof -
  let ?dev = "sd_device ev torn ba" and ?v = "card_view image b m" and ?md = "FA_READ OR FA_WRITE OR FA_CREATE_ALWAYS :: u8"
  note fr = assms(4) [unfolded fresh_card_def Let_def]
  obtain name where name: "bank_name bank = Some name" "name = ''SLC'' \<or> name = ''SLCCMPT''"
    using assms(6) by (auto simp: bank_name_def)
  have path: "map of_char ((name @ ''.RAW'') @ replicate (60 - length name) CHR 0x00) = raw_path name"
    by (simp add: raw_path_def)
  have drive: "fst (drive_of (raw_path name)) = 0"
    using open_name_raw [OF assms(5) name(1)] by (auto simp: open_name_def Let_def split: prod.splits if_splits)
  define c k where "c = cpsr (disk (obj m))" and "k = initialized (disk (obj m))"
  have good: "dump_good ev ba c k (disk (obj m))" using assms(3) by (simp add: dump_good_def driver_def c_def k_def)
  have bpb: "bpb_ok b' (image (disk (obj m)) b')" if "volume_at (image (disk (obj m))) = Some b'" for b' using fr that by auto
  obtain r m1 where m1: "mount_volume ?dev True m = Some (r, m1)" "FatFs m1 = FatFs m" "dump_good ev ba c k (disk (obj m1))"
    "image (disk (obj m1)) = image (disk (obj m))"
    "r = FR_OK \<longrightarrow> (\<exists>b. volume_at (image (disk (obj m))) = Some b \<and> geometry b (image (disk (obj m)) b) (obj m1)
        \<and> fs_inv image (dump_good ev ba c k) (obj m1) \<and> winsect (obj m1) = 0 \<and> fsi_sector (obj m1) < fatbase (obj m1)
        \<and> fsi_sector (obj m1) = (if fs_type (obj m1) = FS_FAT32 then b + ucast (LD_WORD (image (disk (obj m)) b) BPB_FSInfo) else 0)
        \<and> fs_id (obj m1) = Fsid m1 \<and> Fsid m1 = Fsid m + 1)"
    using nd.mount_volume_ok [OF good _ _ bpb, where torn = torn and chk = True] fr by blast
  have mode: "(?md AND 0x1F) AND 0x1E \<noteq> 0" by simp
  note mnts = f_open_mounts [OF _ _ drive m1(1,2) mode, where fp = zero_FIL and ?dj0.0 = dj0]
  show ?thesis
  proof (cases "r = FR_OK")
    case False
    then have "f_open ?dev dj0 zero_FIL (raw_path name) ?md m = Some (r, zero_FIL\<lparr>f_fs := False\<rparr>, m1)"
      using mnts(1) fr by simp
    then have "\<exists>m'. dump_slc_raw ev torn ba flash pb eb dj0 bank m = Some (-3, m')"
      using False unfolding dump_slc_raw_def name(1) option.case sprintf_raw [OF name(2)] bind.bind_lunit prod.case Let_def path by simp
    then show ?thesis by auto
  next
    case True
    have g: "geometry b (image (disk (obj m)) b) (obj m1)" "fs_inv image (dump_good ev ba c k) (obj m1)" "winsect (obj m1) = 0"
      "fsi_sector (obj m1) < fatbase (obj m1)" "fs_id (obj m1) = Fsid m + 1"
      "fsi_sector (obj m1) = (if fs_type (obj m1) = FS_FAT32 then b + ucast (LD_WORD (image (disk (obj m)) b) BPB_FSInfo) else 0)"
      using m1(5) True fr by auto
    have sv: "same_volume ?v (obj m1)" using g fr by (intro geometry_view) auto
    have vol: "vol image ?v = image (disk (obj m))" "vol image (obj m1) = vol image ?v"
      using g(3) m1(4) by (auto simp: vol_def fun_eq_iff card_view_def Let_def)
    note sm = same_view [OF sv vol(2)]
    note gk = geometry_ok [OF bpb g(1)]
    have b: "volume_at (image (disk (obj m))) = Some b" using fr by blast
    have mnt: "mounted ?dev m1"
      using m1(2) fr g(1) gk(1) [OF b] by (auto simp: mounted_def sd_device_def disk_status_def table_ok_def split: if_splits)
    have eq: "dump_slc_raw ev torn ba flash pb eb dj0 bank m = dump_slc_raw ev torn ba flash pb eb dj0 bank m1"
      unfolding dump_slc_raw_def name(1) option.case sprintf_raw [OF name(2)] bind.bind_lunit prod.case Let_def path
      using mnts(2) [OF _ _ mnt True] fr by simp
    have irq: "\<not> irqs_masked (disk (obj m1))"
    proof -
      have "cpsr (disk (obj m1)) = cpsr (disk (obj m))" using m1(3) by (simp add: dump_good_def driver_def c_def)
      then show ?thesis using assms(2) by (simp only: irqs_masked_def not_False_eq_True)
    qed
    have inv: "fs_inv image (disk_ok ev ba) (obj m1)" using g(2) by (simp add: fs_inv_def dump_good_def)
    have "dir_ok (fat_entry image (obj m1)) (obj m1) (root_clust (obj m1)) cs"
      "creatable image (obj m1) (root_clust (obj m1)) cs (raw_name bank) os"
      using fr by (simp_all add: sm vol)
    from dump_slc_raw_ok [OF assms(1) irq mnt inv gk(1) [OF b] gk(2) [OF b] g(4) this(1) assms(5,6) this(2), where flash = flash]
    show ?thesis unfolding eq raw_stored_view [OF sv vol(2)] .
  qed
qed


text \<open>A boot record of a FAT12 volume of ten sectors: two tables of one sector, a root directory of one, six clusters.\<close>

definition boot_image :: "u8 list" where
  "boot_image = replicate 11 0 @ [0, 2, 1, 1, 0, 2, 16, 0, 10, 0, 0, 1, 0] @ replicate 30 0 @ [0x46, 0x41, 0x54]
     @ replicate 453 0 @ [0x55, 0xAA]"

definition fresh_ff :: "disk_st ff" where
  "fresh_ff = \<lparr>FatFs = True, Fsid = 0, obj = (small_fs 0 (replicate 512 0))\<lparr>disk := disk_reset_st\<lparr>image := (\<lambda>_. replicate 512 0)(0 := boot_image)\<rparr>\<rparr>\<rparr>"

lemma boot_image_fields: "length boot_image = 512" "LD_WORD boot_image BPB_BytsPerSec = 512" "boot_image ! BPB_SecPerClus = 1"
  "LD_WORD boot_image BPB_RsvdSecCnt = 1" "boot_image ! BPB_NumFATs = 2" "LD_WORD boot_image BPB_RootEntCnt = 16"
  "total_sectors boot_image = 10" "fat_size boot_image = 1" "boot_record boot_image" "mount_clusters boot_image = 8"
  by code_simp+

lemma boot_image_ok: "bpb_ok 0 boot_image" "volume_at ((\<lambda>_. replicate 512 0)(0 := boot_image)) = Some 0"
  by (simp_all add: bpb_ok_def meta_sectors_def cluster_limit_def boot_image_fields volume_at_def)

lemma fresh_ff_card: "fresh_card fresh_ff 0 [] fn []"
proof -
  let ?v = "card_view image 0 fresh_ff"
  have i: "image (disk (obj fresh_ff)) = (\<lambda>_. replicate 512 0)(0 := boot_image)" by (simp add: fresh_ff_def)
  have g: "geometry 0 boot_image ?v" using card_view_geometry [of 0 image fresh_ff] by (simp add: i)
  have t: "fs_type ?v = FS_FAT12" "fatbase ?v = 1" "dirbase ?v = 3"
    using g by (simp_all add: geometry_def boot_image_fields fat_type_def)
  have d: "dir_ok nx ?v 0 []" for nx using geometry_ok(4) [OF boot_image_ok(1) g] t by simp
  have "slot_end (image (disk (obj fresh_ff))) ?v 0 [] 0" using t by (simp add: slot_end_def slot_sector_def i)
  then have "no_name (image (disk (obj fresh_ff))) ?v 0 [] fn" unfolding no_name_def by (intro exI [of _ 0]) (simp add: passed_def)
  moreover have "vol image ?v = image (disk (obj fresh_ff))" by (simp add: fun_eq_iff vol_def card_view_def Let_def)
  moreover have "root_clust ?v = 0" using t by (simp add: root_clust_def)
  moreover have "FatFs fresh_ff" "fs_type (obj fresh_ff) = 0" "fsi_sector (obj fresh_ff) = 0" "length (win (obj fresh_ff)) = 512"
    by (simp_all add: fresh_ff_def small_fs_def)
  ultimately show ?thesis unfolding fresh_card_def Let_def using d boot_image_ok by (simp add: i creatable_def)
qed

lemma fresh_ff_disk: "disk_inv (disk (obj fresh_ff))"
  by (auto simp: fresh_ff_def disk_inv_def disk_reset_st_def host_ok_def by_dma_def boot_image_fields)


text \<open>
  C1: the dump the program makes, for a card with a well-formed volume that was put in and whose root directory does
  not have the file, or has it from an earlier dump. \<^verbatim>\<open>_dump_slc_raw\<close> returns, with 0 or the code of the step that failed; the volume is mounted on
  the way. With 0, looking up \<^verbatim>\<open>SLC.RAW\<close> or \<^verbatim>\<open>SLCCMPT.RAW\<close> in the root directory of the card ends at an entry of the size
  of the bank, whose cluster chain holds every page in order as \<^verbatim>\<open>nand_correct\<close> leaves it with its spare area; every
  other entry of the directory, cluster and sector outside the tables is as it was on the card; of an old file of the
  name only the clusters that were used again or are free now have changed.
\<close>

theorem dump_fresh_card_stores:
  fixes m :: "'a disk_st_scheme ff"
  assumes "nand_responds ev pb eb" "\<not> irqs_masked (disk (obj m))" "disk_ok ev ba (disk (obj m))"
    and "fresh_card m b cs (raw_name bank) os" "length (dj_fn dj0) = 12" "bank = NAND_BANK_SLC \<or> bank = NAND_BANK_SLCCMPT"
  shows "\<exists>r m'. dump_slc_raw ev torn ba flash pb eb dj0 bank m = Some (r, m') \<and> r \<in> {0, -3, -4, -5}
    \<and> (r = 0 \<longrightarrow> raw_stored flash bank (card_view image b m) cs os (obj m'))"
  by (rule dump_fresh_ok [OF assms])

theorem dump_fresh_card_stores_witness:
  "\<exists>r m'. dump_slc_raw dump_env (\<lambda>_. []) 0x10000000 (\<lambda>_ _. ([], [])) 0x10200000 0x10300000 blank_dir NAND_BANK_SLC fresh_ff
      = Some (r, m') \<and> r \<in> {0, -3, -4, -5}"
proof -
  have irq: "\<not> irqs_masked (disk (obj fresh_ff))" by (simp add: fresh_ff_def disk_reset_st_def irqs_masked_def)
  have len: "length (dj_fn blank_dir) = 12" by (simp add: blank_dir_def)
  show ?thesis
    using dump_fresh_card_stores [OF dump_env_responds irq dump_env_disk_ok [OF fresh_ff_disk] fresh_ff_card len,
      where bank = NAND_BANK_SLC and torn = "\<lambda>_. []" and flash = "\<lambda>_ _. ([], [])"] by blast
qed

end
