(* ===== verification/FatRead.thy ===== *)
theory FatRead
  imports DirSearch FatWrite
begin

text \<open>
  What \<^verbatim>\<open>f_read\<close> returns: the bytes of the file from its position on, up to its end, whether a part of a
  sector passes through the window or whole sectors are transferred directly. The direct transfers bypass
  the window, so the volume must have no changed sector of the file in it; the last section shows what the
  code does otherwise.
\<close>

section \<open>Bytes and sectors\<close>

definition file_bytes :: "(u32 \<Rightarrow> u8 list) \<Rightarrow> 'd fatfs \<Rightarrow> u32 list \<Rightarrow> u8 list" where
  "file_bytes v fs cs = concat (map v (chain_sectors fs cs))"

lemma length_blocks: "\<forall>x. length (v x) = 512 \<Longrightarrow> length (concat (map v xs)) = 512 * length xs"
  by (induction xs) simp_all

lemma drop_blocks:
  "\<forall>x. length (v x) = 512 \<Longrightarrow> s < length xs \<Longrightarrow> r \<le> 512 \<Longrightarrow>
   drop (512 * s + r) (concat (map v xs)) = drop r (v (xs ! s)) @ concat (map v (drop (Suc s) xs))"
proof (induction s arbitrary: xs)
  case 0
  then show ?case by (cases xs) simp_all
next
  case (Suc s)
  then show ?case by (cases xs) (simp_all add: add.assoc)
qed

lemma take_blocks:
  "\<forall>x. length (v x) = 512 \<Longrightarrow> s + n \<le> length xs \<Longrightarrow>
   take (512 * n) (drop (512 * s) (concat (map v xs))) = concat (map v (take n (drop s xs)))"
proof (induction s arbitrary: xs)
  case 0
  then show ?case
  proof (induction n arbitrary: xs)
    case (Suc n)
    then show ?case by (cases xs) simp_all
  qed simp
next
  case (Suc s)
  then show ?case by (cases xs) simp_all
qed

text \<open>A part of one sector.\<close>

lemma take_in_sector:
  assumes "\<forall>x. length (v x) = 512" "p div 512 < length xs" "p mod 512 + n \<le> 512"
  shows "take n (drop p (concat (map v xs))) = take n (drop (p mod 512) (v (xs ! (p div 512))))"
proof -
  have "drop p (concat (map v xs)) = drop (p mod 512) (v (xs ! (p div 512))) @ concat (map v (drop (Suc (p div 512)) xs))"
    using drop_blocks [OF assms(1,2), of "p mod 512"] by simp
  moreover have "n \<le> length (drop (p mod 512) (v (xs ! (p div 512))))" using assms(1,3) by simp
  ultimately show ?thesis by simp
qed

section \<open>The read position\<close>

text \<open>
  The position is in cluster \<open>k\<close> of the file's chain, \<open>csect\<close> sectors of which are consumed or under
  consumption; a file just opened has no current cluster yet.
\<close>

definition read_pos :: "'d fatfs \<Rightarrow> FIL \<Rightarrow> u32 list \<Rightarrow> nat \<Rightarrow> bool" where
  "read_pos fs fp cs k \<longleftrightarrow> k < length cs \<and> curr_clust fp = cs ! k \<and> csect fp \<le> csize fs
     \<and> (unat (fptr fp) + 511) div 512 = k * unat (csize fs) + unat (csect fp)
     \<and> (unat (fptr fp) mod 512 \<noteq> 0 \<longrightarrow> 0 < csect fp \<and> dsect fp = chain_sectors fs cs ! (unat (fptr fp) div 512))"

definition read_at :: "'d fatfs \<Rightarrow> FIL \<Rightarrow> u32 list \<Rightarrow> bool" where
  "read_at fs fp cs \<longleftrightarrow> fptr fp = 0 \<and> csize fs \<le> csect fp \<or> (\<exists>k. read_pos fs fp cs k)"

text \<open>The window holds no change of one of the file's sectors.\<close>

definition settled :: "'d fatfs \<Rightarrow> u32 list \<Rightarrow> bool" where
  "settled fs cs \<longleftrightarrow> wflag fs = 0 \<or> winsect fs \<notin> set (chain_sectors fs cs)"

text \<open>A file open for reading: its chain, its size, its position.\<close>

definition reading :: "('d \<Rightarrow> u32 \<Rightarrow> u8 list) \<Rightarrow> ('d \<Rightarrow> bool) \<Rightarrow> 'd fatfs \<Rightarrow> FIL \<Rightarrow> u32 list \<Rightarrow> bool" where
  "reading sectors good fs fp cs \<longleftrightarrow> fs_inv sectors good fs \<and> table_ok fs \<and> data_ok fs \<and> settled fs cs
     \<and> chain (fat_entry sectors fs) (max_clust fs) (org_clust fp) cs
     \<and> unat (fsize fp) \<le> 512 * (length cs * unat (csize fs)) \<and> fptr fp \<le> fsize fp \<and> read_at fs fp cs"

text \<open>The window is unchanged, or what it held was written.\<close>

definition calmer :: "'d fatfs \<Rightarrow> 'd fatfs \<Rightarrow> bool" where
  "calmer fs gs \<longleftrightarrow> wflag gs = 0 \<or> wflag gs = wflag fs \<and> winsect gs = winsect fs"

lemma calmer_refl [simp]: "calmer fs fs"
  by (simp add: calmer_def)

lemma calmer_trans: "calmer fs gs \<Longrightarrow> calmer gs hs \<Longrightarrow> calmer fs hs"
  by (auto simp: calmer_def)

lemma flush_window_calmer: "flush_window dev fs = Some (r, gs) \<Longrightarrow> calmer fs gs \<and> (r = FR_OK \<longrightarrow> wflag gs = 0)"
  by (auto simp: flush_window_def calmer_def Let_def split: prod.splits if_splits bind_splits)

lemma move_window_calmer:
  assumes "move_window dev sec fs = Some (r, gs)"
  shows "calmer fs gs"
proof (cases "winsect fs = sec")
  case True
  then show ?thesis using assms by (simp add: move_window_def)
next
  case False
  obtain q hs where q: "(if wflag fs \<noteq> 0 then flush_window dev fs else Some (FR_OK, fs)) = Some (q, hs)"
    using assms False by (auto simp: move_window_def split: bind_splits)
  have h: "calmer fs hs" "q = FR_OK \<Longrightarrow> wflag hs = 0"
    using q flush_window_calmer [of dev fs q hs] by (auto split: if_splits)
  have rest: "(if q \<noteq> FR_OK then Some (FR_DISK_ERR, hs)
       else if sec \<noteq> 0 then do {
         (r, w, d) \<leftarrow> d_read dev (win hs) sec 1 (disk hs);
         let fs = hs\<lparr>win := w, disk := d\<rparr>;
         Some (if r \<noteq> RES_OK then (FR_DISK_ERR, fs) else (FR_OK, fs\<lparr>winsect := sec\<rparr>)) }
       else Some (FR_OK, hs)) = Some (r, gs)"
    using assms False q by (simp add: move_window_def)
  show ?thesis
  proof (cases "q = FR_OK")
    case True
    then have "wflag gs = 0" using rest h(2)
      by (auto simp: Let_def split: if_splits bind_splits)
    then show ?thesis by (simp add: calmer_def)
  qed (use rest h(1) in auto)
qed

lemma get_cluster_calmer:
  assumes "get_cluster dev c fs = Some (v, gs)"
  shows "calmer fs gs"
  using assms unfolding get_cluster_def Let_def
  by (auto split: if_splits bind_splits prod.splits dest!: move_window_calmer intro: calmer_trans)

lemma calmer_settled:
  assumes "calmer fs gs" "same_volume fs gs" "settled fs cs"
  shows "settled gs cs"
  using assms(1,3) same_volume_keeps(6) [OF assms(2)] by (auto simp: calmer_def settled_def)

context block_device
begin

lemma vol_length: "fs_inv sectors good fs \<Longrightarrow> length (vol sectors fs x) = 512"
  using sector_size by (simp add: vol_def fs_inv_def)

lemma chain_clusters: "chain nx (max_clust fs) c cs \<Longrightarrow> \<forall>x \<in> set cs. cluster_no fs x"
  using chain_members by (fastforce simp: cluster_no_def)

lemma wstep_file:
  assumes "wstep fs gs" "data_ok fs" "\<forall>x \<in> set cs. cluster_no fs x"
  shows "\<forall>x \<in> set (chain_sectors fs cs). vol sectors gs x = vol sectors fs x"
    "file_bytes (vol sectors gs) gs cs = file_bytes (vol sectors fs) fs cs"
proof -
  show 1: "\<forall>x \<in> set (chain_sectors fs cs). vol sectors gs x = vol sectors fs x"
  proof
    fix x assume "x \<in> set (chain_sectors fs cs)"
    then obtain c where "c \<in> set cs" "x \<in> set (cluster_sectors fs c)" by (auto simp: chain_sectors_def)
    then have "x \<notin> fat_area fs" using sector_outside_tables(1) [OF assms(2)] assms(3) by blast
    then have "x \<notin> mirror fs" using mirror_fat_area by blast
    then show "vol sectors gs x = vol sectors fs x" using assms(1) by (simp add: wstep_def)
  qed
  have "same_volume fs gs" using assms(1) by (simp add: wstep_def only_window_volume)
  note k = same_volume_keeps(6) [OF this]
  show "file_bytes (vol sectors gs) gs cs = file_bytes (vol sectors fs) fs cs"
    unfolding file_bytes_def k using 1 by (intro arg_cong [where f = concat] map_cong) auto
qed

lemma read_pos_cong: "same_volume fs gs \<Longrightarrow> read_pos gs fp cs k = read_pos fs fp cs k"
  unfolding read_pos_def by (simp only: same_volume_keeps same_volume_cong)

lemma reading_wstep:
  assumes "reading sectors good fs fp cs" "wstep fs gs" "calmer fs gs"
  shows "reading sectors good gs fp cs"
proof -
  note r = assms(1) [unfolded reading_def]
  have sv: "same_volume fs gs" using assms(2) by (simp add: wstep_def only_window_volume)
  note k = same_volume_keeps [OF sv] same_volume_cong [OF sv]
  have "chain (fat_entry sectors gs) (max_clust fs) (org_clust fp) cs"
  proof (rule chain_cong)
    show c: "chain (fat_entry sectors fs) (max_clust fs) (org_clust fp) cs" using r by blast
    show "fat_entry sectors gs x = fat_entry sectors fs x" if "x \<in> set cs" for x
      using wstep_entry [OF assms(2)] r chain_clusters [OF c] that by blast
  qed
  moreover have "settled gs cs" using calmer_settled [OF assms(3) sv] r by blast
  moreover have "read_at gs fp cs" using r unfolding read_at_def k read_pos_cong [OF sv] by blast
  ultimately show ?thesis using r assms(2) unfolding reading_def k wstep_def by blast
qed

text \<open>On a sector boundary: the cluster with the next sector, found or already there.\<close>

lemma read_cluster_ok:
  assumes "reading sectors good fs fp cs" "fptr fp < fsize fp" "unat (fptr fp) mod 512 = 0"
  shows "\<exists>r fp' gs. read_cluster dev fp fs = Some (r, fp', gs) \<and> wstep fs gs \<and> calmer fs gs \<and> r \<in> {FR_OK, FR_DISK_ERR}
    \<and> (r = FR_OK \<longrightarrow> (\<exists>k. read_pos fs fp' cs k \<and> csect fp' < csize fs
        \<and> fp' = fp\<lparr>curr_clust := curr_clust fp', csect := csect fp'\<rparr>))"
proof -
  note r = assms(1) [unfolded reading_def]
  have inv: "fs_inv sectors good fs" "table_ok fs" and ch: "chain (fat_entry sectors fs) (max_clust fs) (org_clust fp) cs"
    using r by blast+
  have sz: "0 < csize fs" "0 < unat (csize fs)" using r by (simp_all add: data_ok_def word_less_nat_alt)
  have lt: "unat (fptr fp) < 512 * (length cs * unat (csize fs))" using assms(2) r by (simp add: word_less_nat_alt)
  have refl: "wstep fs fs" using inv(1) by (rule wstep_refl)
  consider (start) "fptr fp = 0" "csize fs \<le> csect fp" | (inside) k where "read_pos fs fp cs k" "csect fp < csize fs"
    | (full) k where "read_pos fs fp cs k" "csect fp = csize fs"
    using r unfolding read_at_def read_pos_def by fastforce
  then show ?thesis
  proof cases
    case start
    have "cs \<noteq> []" using lt by auto
    then obtain xs where cs: "cs = org_clust fp # xs" using ch by (cases cs) auto
    have "\<not> org_clust fp \<le> 1" "org_clust fp \<noteq> 0xFFFFFFFF" using ch unfolding cs
      by (auto simp: word_le_nat_alt word_less_nat_alt unat_eq_0 dest: unsigned_less [of "max_clust fs", where ?'a = nat, THEN order.strict_trans2]) 
         (use unsigned_less [of "max_clust fs", where ?'a = nat] in simp)
    then have "read_cluster dev fp fs = Some (FR_OK, fp\<lparr>curr_clust := org_clust fp, csect := 0\<rparr>, fs)"
      using start by (simp add: read_cluster_def)
    moreover have "read_pos fs (fp\<lparr>curr_clust := org_clust fp, csect := 0\<rparr>) cs 0"
      using start by (simp add: read_pos_def cs)
    ultimately show ?thesis using refl sz(1) by auto
  next
    case inside
    then have "\<not> csize fs \<le> csect fp" by simp
    then have "read_cluster dev fp fs = Some (FR_OK, fp, fs)" by (simp add: read_cluster_def)
    then show ?thesis using refl inside by auto
  next
    case full
    have pos: "unat (fptr fp) div 512 = Suc k * unat (csize fs)" "k < length cs" "curr_clust fp = cs ! k"
      using full assms(3) unfolding read_pos_def by (auto simp: algebra_simps)
    then have k: "Suc k < length cs" using lt sz(2)
      by (metis (no_types, lifting) div_less_iff_less_mult mult.commute mult_less_cancel2 zero_less_numeral)
    have nz: "fptr fp \<noteq> 0" using pos(1) sz(2) by auto
    have c: "cluster_no fs (curr_clust fp)" using chain_clusters [OF ch] pos(2,3) by simp
    have nxt: "fat_entry sectors fs (curr_clust fp) = cs ! Suc k" using chain_nth_next [OF ch pos(2)] k pos(3) by simp
    have cl: "cluster_no fs (cs ! Suc k)" using chain_clusters [OF ch] k by simp
    obtain v gs where g: "get_cluster dev (curr_clust fp) fs = Some (v, gs)" "wstep fs gs" "v = cs ! Suc k \<or> v = 0xFFFFFFFF"
      using get_cluster_ok [OF inv c] nxt by auto
    note cal = get_cluster_calmer [OF g(1)]
    show ?thesis
    proof (cases "v = 0xFFFFFFFF")
      case True
      then have "read_cluster dev fp fs = Some (FR_DISK_ERR, fp, gs)"
        using full nz g(1) by (simp add: read_cluster_def word_le_nat_alt)
      then show ?thesis using g(2) cal by auto
    next
      case False
      then have v: "v = cs ! Suc k" "\<not> v \<le> 1" using g(3) cl by (auto simp: cluster_no_def word_le_nat_alt)
      then have "read_cluster dev fp fs = Some (FR_OK, fp\<lparr>curr_clust := v, csect := 0\<rparr>, gs)"
        using full nz g(1) False by (simp add: read_cluster_def)
      moreover have "read_pos fs (fp\<lparr>curr_clust := v, csect := 0\<rparr>) cs (Suc k)"
        using full assms(3) k v(1) by (auto simp: read_pos_def)
      ultimately show ?thesis using g(2) cal sz(1) by auto
    qed
  qed
qed

text \<open>A part of a sector, through the window.\<close>

lemma partial_count_unat: "unat (partial_count fp n) = min (512 - unat (fptr fp) mod 512) (unat n)"
proof -
  have m: "unat (fptr fp mod 512) = unat (fptr fp) mod 512" by (simp add: unat_mod)
  have "fptr fp mod 512 \<le> 512" using m by (simp add: word_le_nat_alt)
  then have c: "unat (512 - fptr fp mod 512) = 512 - unat (fptr fp) mod 512" using m by (simp add: unat_sub)
  show ?thesis using c by (auto simp: partial_count_def Let_def word_less_nat_alt min_def)
qed

lemma read_partial_ok:
  assumes "fs_inv sectors good fs" "data_ok fs" "\<forall>x \<in> set cs. cluster_no fs x"
    and "unat (fptr fp) div 512 < length cs * unat (csize fs)" "dsect fp = chain_sectors fs cs ! (unat (fptr fp) div 512)"
    and "unat pos + unat btr \<le> length buff" "dsect fp \<noteq> 0"
  shows "\<exists>r n b gs. read_partial dev fp buff pos btr fs = Some (r, n, b, gs) \<and> wstep fs gs \<and> calmer fs gs
    \<and> r \<in> {FR_OK, FR_DISK_ERR} \<and> (r = FR_OK \<longrightarrow> n = partial_count fp btr
        \<and> b = splice (unat pos) (take (unat n) (drop (unat (fptr fp)) (file_bytes (vol sectors fs) fs cs))) buff)
    \<and> (r \<noteq> FR_OK \<longrightarrow> b = buff)"
proof -
  let ?p = "unat (fptr fp)" and ?n = "partial_count fp btr" and ?xs = "chain_sectors fs cs"
  have mem: "dsect fp \<in> set ?xs" using assms(4,5) by (metis length_chain_sectors nth_mem)
  then obtain c where "c \<in> set cs" "dsect fp \<in> set (cluster_sectors fs c)" by (auto simp: chain_sectors_def)
  then have "database fs \<le> dsect fp" using sector_outside_tables(2) [OF assms(2)] assms(3) by blast
  then have fb: "fatbase fs \<le> dsect fp" using assms(2) by (simp add: data_ok_def word_le_nat_alt)
  obtain r gs where g: "move_window dev (dsect fp) fs = Some (r, gs)" "wstep fs gs" "r \<in> {FR_OK, FR_DISK_ERR}"
    "r = FR_OK \<Longrightarrow> winsect gs = dsect fp"
    using move_window_ok [OF assms(1) fb] assms(7) by blast
  have n: "unat ?n = min (512 - ?p mod 512) (unat btr)" by (rule partial_count_unat)
  show ?thesis
  proof (cases "r = FR_OK")
    case False
    then have "read_partial dev fp buff pos btr fs = Some (FR_DISK_ERR, 0, buff, gs)"
      by (simp add: read_partial_def g(1) Let_def)
    then show ?thesis using g(2) move_window_calmer [OF g(1)] by auto
  next
    case True
    have ginv: "fs_inv sectors good gs" using g(2) by (simp add: wstep_def)
    then have len: "length (win gs) = 512" by (simp add: fs_inv_def)
    have "vol sectors gs (dsect fp) = win gs" using g(4) [OF True] assms(7) by (simp add: vol_def)
    moreover have "vol sectors gs (dsect fp) = vol sectors fs (dsect fp)"
      using wstep_file(1) [OF g(2) assms(2,3)] mem by blast
    ultimately have w: "win gs = vol sectors fs (dsect fp)" by simp
    have "take (unat ?n) (drop ?p (file_bytes (vol sectors fs) fs cs)) = take (unat ?n) (drop (?p mod 512) (win gs))"
      unfolding file_bytes_def w assms(5)
      using assms(4) n vol_length [OF assms(1)] by (intro take_in_sector) auto
    moreover have "slice (unat (fptr fp mod 512)) (unat ?n) (win gs) = Some (take (unat ?n) (drop (?p mod 512) (win gs)))"
      using n len by (simp add: slice_def unat_mod)
    moreover have "unat pos + unat ?n \<le> length buff" using n assms(6) by simp
    ultimately have "read_partial dev fp buff pos btr fs = Some (FR_OK, ?n,
        splice (unat pos) (take (unat ?n) (drop ?p (file_bytes (vol sectors fs) fs cs))) buff, gs)"
      using True by (simp add: read_partial_def g(1) Let_def)
    then show ?thesis using g(2) move_window_calmer [OF g(1)] by auto
  qed
qed

text \<open>Whole sectors of one cluster, directly.\<close>

lemma cluster_part:
  assumes "k < length cs" "j + n \<le> unat (csize fs)"
  shows "take n (drop (k * unat (csize fs) + j) (chain_sectors fs cs)) = map (\<lambda>i. clust2sect (cs ! k) fs + of_nat j + of_nat i) [0..<n]"
proof (rule nth_equalityI)
  have "(k + 1) * unat (csize fs) \<le> length cs * unat (csize fs)" using assms(1) by (intro mult_le_mono1) simp
  then have le: "k * unat (csize fs) + j + n \<le> length cs * unat (csize fs)" using assms(2) by simp
  then show "length (take n (drop (k * unat (csize fs) + j) (chain_sectors fs cs)))
      = length (map (\<lambda>i. clust2sect (cs ! k) fs + of_nat j + of_nat i) [0..<n])" by simp
  fix i assume "i < length (take n (drop (k * unat (csize fs) + j) (chain_sectors fs cs)))"
  then have i: "i < n" by simp
  then have "(k * unat (csize fs) + (j + i)) div unat (csize fs) = k" "(k * unat (csize fs) + (j + i)) mod unat (csize fs) = j + i"
    using assms(2) by simp_all
  then show "take n (drop (k * unat (csize fs) + j) (chain_sectors fs cs)) ! i
      = map (\<lambda>i. clust2sect (cs ! k) fs + of_nat j + of_nat i) [0..<n] ! i"
    using nth_chain_sectors [of "k * unat (csize fs) + j + i" cs fs] i le by (simp add: add.assoc)
qed

lemma read_direct:
  assumes "reading sectors good fs fp0 cs" "read_pos fs fp cs k" "unat (fptr fp) mod 512 = 0"
    and "unat (csect fp) + unat cc \<le> unat (csize fs)" "length b = 512 * unat cc"
  shows "\<exists>r b' d. d_read dev b (clust2sect (curr_clust fp) fs + ucast (csect fp)) (ucast cc) (disk fs) = Some (r, b', d)
    \<and> length b' = length b \<and> wstep fs (fs\<lparr>disk := d\<rparr>)
    \<and> (r = RES_OK \<longrightarrow> b' = take (512 * unat cc) (drop (unat (fptr fp)) (file_bytes (vol sectors fs) fs cs)))"
proof -
  let ?sect = "clust2sect (curr_clust fp) fs + ucast (csect fp)"
  note r = assms(1) [unfolded reading_def] and p = assms(2) [unfolded read_pos_def]
  have inv: "fs_inv sectors good fs" using r by blast
  have "unat cc < 256" using assms(4) unsigned_less [of "csize fs", where ?'a = nat] by simp
  then have uc: "unat (ucast cc :: u8) = unat cc" by (simp add: unsigned_ucast_eq take_bit_eq_mod)
  obtain q b' d where d: "d_read dev b ?sect (ucast cc) (disk fs) = Some (q, b', d)" "good d" "sectors d = sectors (disk fs)"
    "length b' = length b" "q = RES_OK \<Longrightarrow> b' = gather (sectors (disk fs)) ?sect (unat cc)"
    using read_law [of "disk fs" b "ucast cc" ?sect] inv assms(5) uc by (auto simp: fs_inv_def)
  have step: "wstep fs (fs\<lparr>disk := d\<rparr>)"
    using inv d(2,3) by (auto simp: wstep_def fs_inv_def only_window_upd vol_def)
  have pos: "unat (fptr fp) = 512 * (k * unat (csize fs) + unat (csect fp))" "k < length cs" "curr_clust fp = cs ! k"
  proof -
    from assms(3) obtain q where "unat (fptr fp) = 512 * q" by (auto simp: mod_eq_0_iff_dvd)
    then have "(unat (fptr fp) + 511) div 512 = unat (fptr fp) div 512" by simp
    then show "unat (fptr fp) = 512 * (k * unat (csize fs) + unat (csect fp))" using p assms(3) by auto
    show "k < length cs" "curr_clust fp = cs ! k" using p by blast+
  qed
  have part: "take (unat cc) (drop (k * unat (csize fs) + unat (csect fp)) (chain_sectors fs cs))
      = map (\<lambda>i. ?sect + of_nat i) [0..<unat cc]"
    using cluster_part [OF pos(2) assms(4)] by (simp add: pos(3))
  have "vol sectors fs x = sectors (disk fs) x" if x: "x \<in> set (chain_sectors fs cs)" for x
    using r x by (auto simp: settled_def vol_def fs_inv_def)
  moreover have "?sect + of_nat i \<in> set (chain_sectors fs cs)" if "i < unat cc" for i
  proof -
    have "?sect + of_nat i \<in> set (take (unat cc) (drop (k * unat (csize fs) + unat (csect fp)) (chain_sectors fs cs)))"
      unfolding part using that by simp
    then show ?thesis by (meson in_set_dropD in_set_takeD)
  qed
  ultimately have g: "gather (sectors (disk fs)) ?sect (unat cc) = concat (map (\<lambda>i. vol sectors fs (?sect + of_nat i)) [0..<unat cc])"
    unfolding gather_map by (intro arg_cong [where f = concat] map_cong) simp_all
  have "k * unat (csize fs) + unat (csize fs) \<le> length cs * unat (csize fs)"
    using pos(2) mult_le_mono1 [of "k + 1" "length cs" "unat (csize fs)"] by simp
  then have "k * unat (csize fs) + unat (csect fp) + unat cc \<le> length (chain_sectors fs cs)" using assms(4) by simp
  then have "take (512 * unat cc) (drop (unat (fptr fp)) (file_bytes (vol sectors fs) fs cs))
      = concat (map (vol sectors fs) (map (\<lambda>i. ?sect + of_nat i) [0..<unat cc]))"
    unfolding file_bytes_def pos(1) part [symmetric] using vol_length [OF inv] by (intro take_blocks) auto
  also have "\<dots> = gather (sectors (disk fs)) ?sect (unat cc)" unfolding g by (simp add: comp_def)
  finally show ?thesis using d(1,4,5) step by auto
qed

lemma file_sector_nonzero:
  assumes "table_ok fs" "data_ok fs" "\<forall>x \<in> set cs. cluster_no fs x" "x \<in> set (chain_sectors fs cs)"
  shows "x \<noteq> 0"
proof -
  obtain c where "c \<in> set cs" "x \<in> set (cluster_sectors fs c)" using assms(4) by (auto simp: chain_sectors_def)
  then have "database fs \<le> x" using sector_outside_tables(2) [OF assms(2)] assms(3) by blast
  moreover have "0 < unat (fatbase fs)" using assms(1) by (simp add: table_ok_def unat_gt_0)
  ultimately have "0 < unat x" using assms(2) by (simp add: data_ok_def word_le_nat_alt)
  then show ?thesis by auto
qed

end

section \<open>One round\<close>

text \<open>What reading changes in the file object, apart from the position.\<close>

definition moved :: "FIL \<Rightarrow> FIL \<Rightarrow> bool" where
  "moved fp fp' \<longleftrightarrow> fp' = fp\<lparr>fptr := fptr fp', curr_clust := curr_clust fp', csect := csect fp', dsect := dsect fp'\<rparr>"

lemma moved_fields: "moved fp fp' \<Longrightarrow> fsize fp' = fsize fp \<and> flag fp' = flag fp \<and> org_clust fp' = org_clust fp
    \<and> f_fs fp' = f_fs fp \<and> f_id fp' = f_id fp"
  by (cases fp; cases fp') (simp add: moved_def)

lemma moved_refl [simp]: "moved fp fp"
  by (simp add: moved_def)

lemma moved_trans: "moved f g \<Longrightarrow> moved g h \<Longrightarrow> moved f h"
  by (cases f; cases g; cases h) (simp add: moved_def)

lemma moved_upd [simp]:
  "moved f g \<Longrightarrow> moved f (g\<lparr>curr_clust := a\<rparr>)" "moved f g \<Longrightarrow> moved f (g\<lparr>csect := b\<rparr>)"
  "moved f g \<Longrightarrow> moved f (g\<lparr>dsect := c\<rparr>)" "moved f g \<Longrightarrow> moved f (advance n g)"
  by (cases f; cases g; simp add: moved_def advance_def)+

lemma sector_steps:
  fixes p n :: nat
  assumes "0 < n" "p mod 512 + n \<le> 512"
  shows "(p + n + 511) div 512 = p div 512 + 1" "(p + n) mod 512 \<noteq> 0 \<Longrightarrow> (p + n) div 512 = p div 512"
proof -
  obtain s m where p: "p = 512 * s + m" "m < 512" by (metis mult_div_mod_eq mod_less_divisor zero_less_numeral)
  have m: "m + n \<le> 512" using assms(2) p by simp
  have "p + n + 511 = 512 * (s + 1) + (m + n - 1)" using p assms(1) by simp
  also have "\<dots> div 512 = s + 1" using m assms(1) by (subst div_mult_self4) simp_all
  finally show "(p + n + 511) div 512 = p div 512 + 1" using p by simp
  assume ne: "(p + n) mod 512 \<noteq> 0"
  have "m + n \<noteq> 512"
  proof
    assume "m + n = 512"
    then have "p + n = 512 * (s + 1)" using p by simp
    then show False using ne by (simp only: mod_mult_self1_is_0)
  qed
  then show "(p + n) div 512 = p div 512" using p m by simp
qed

lemma ceiling_step: "p mod 512 \<noteq> 0 \<Longrightarrow> (p + 511) div 512 = p div 512 + 1" for p :: nat
proof -
  assume "p mod 512 \<noteq> 0"
  obtain s m where p: "p = 512 * s + m" "m < 512" by (metis mult_div_mod_eq mod_less_divisor zero_less_numeral)
  then have "0 < m" using \<open>p mod 512 \<noteq> 0\<close> by (cases m) auto
  have "p + 511 = 512 * (s + 1) + (m - 1)" using p \<open>0 < m\<close> by simp
  also have "\<dots> div 512 = s + 1" using p(2) by (subst div_mult_self4) simp_all
  finally show ?thesis using p by simp
qed

lemma read_cluster_moved: "read_cluster dev fp fs = Some (r, f1, gs) \<Longrightarrow> moved fp f1"
  by (auto simp: read_cluster_def split: if_splits bind_splits)

text \<open>The position after a partial read of the sector \<open>csect - 1\<close> of cluster \<open>k\<close>.\<close>

lemma read_pos_partial:
  assumes "k < length cs" "curr_clust fp = cs ! k" "csect fp \<le> csize fs" "0 < csect fp"
    and "unat (fptr fp) div 512 + 1 = k * unat (csize fs) + unat (csect fp)"
    and "dsect fp = chain_sectors fs cs ! (unat (fptr fp) div 512)"
    and "0 < unat n" "unat (fptr fp) mod 512 + unat n \<le> 512" "unat (fptr fp) + unat n < 2 ^ 32"
  shows "read_pos fs (advance n fp) cs k"
proof -
  have u: "unat (fptr fp + n) = unat (fptr fp) + unat n" using assms(9) by (simp add: unat_word_ariths)
  show ?thesis
    using assms(1-6) sector_steps [OF assms(7,8)] by (simp add: read_pos_def advance_def u)
qed

lemma read_pos_boundary:
  assumes "read_pos fs fp cs k" "unat (fptr fp) mod 512 = 0"
  shows "unat (fptr fp) = 512 * (k * unat (csize fs) + unat (csect fp))" "k < length cs" "curr_clust fp = cs ! k"
proof -
  note p = assms(1) [unfolded read_pos_def]
  from assms(2) obtain q where "unat (fptr fp) = 512 * q" by (auto simp: mod_eq_0_iff_dvd)
  then have "(unat (fptr fp) + 511) div 512 = unat (fptr fp) div 512" by simp
  then show "unat (fptr fp) = 512 * (k * unat (csize fs) + unat (csect fp))" using p assms(2) by auto
  show "k < length cs" "curr_clust fp = cs ! k" using p by blast+
qed

lemma length_splice [simp]: "p + length x \<le> length b \<Longrightarrow> length (splice p x b) = length b"
  by (simp add: splice_def)

context block_device
begin

text \<open>A file object whose position has moved within the file is reading again.\<close>

lemma reading_moved:
  assumes "reading sectors good fs fp cs" "wstep fs gs" "calmer fs gs" "moved fp fp'" "fptr fp' \<le> fsize fp"
    and "read_pos fs fp' cs k"
  shows "reading sectors good gs fp' cs"
proof -
  have sv: "same_volume fs gs" using assms(2) by (simp add: wstep_def only_window_volume)
  have "read_at gs fp' cs" using assms(6) read_pos_cong [OF sv] unfolding read_at_def by blast
  then show ?thesis using reading_wstep [OF assms(1-3)] moved_fields [OF assms(4)] assms(5) unfolding reading_def by metis
qed

definition round_post :: "'d fatfs \<Rightarrow> FIL \<Rightarrow> u32 list \<Rightarrow> u8 list \<Rightarrow> u32 \<Rightarrow> u32
    \<Rightarrow> FRESULT \<times> u32 \<times> u8 list \<times> FIL \<times> 'd fatfs \<Rightarrow> bool" where
  "round_post fs fp cs buff pos btr = (\<lambda>(r, n, b, fp', gs). wstep fs gs \<and> r \<in> {FR_OK, FR_DISK_ERR} \<and> length b = length buff
     \<and> moved fp fp' \<and> (r = FR_OK \<longrightarrow> 0 < unat n \<and> unat n \<le> unat btr \<and> fptr fp' = fptr fp \<and> reading sectors good gs (advance n fp') cs
        \<and> b = splice (unat pos) (take (unat n) (drop (unat (fptr fp)) (file_bytes (vol sectors fs) fs cs))) buff))"

lemma read_round_partial:
  assumes "reading sectors good fs fp cs" "wstep fs gs" "calmer fs gs" "moved fp f1" "fptr f1 = fptr fp" "btr \<noteq> 0"
    and "unat (fptr fp) + unat btr \<le> unat (fsize fp)" "unat pos + unat btr \<le> length buff"
    and k: "k < length cs" "curr_clust f1 = cs ! k" "csect f1 \<le> csize fs" "0 < csect f1"
      "unat (fptr fp) div 512 + 1 = k * unat (csize fs) + unat (csect f1)"
      "dsect f1 = chain_sectors fs cs ! (unat (fptr fp) div 512)"
  shows "\<exists>r n b hs. read_partial dev f1 buff pos btr gs = Some (r, n, b, hs) \<and> round_post fs fp cs buff pos btr (r, n, b, f1, hs)"
proof -
  note r = assms(1) [unfolded reading_def]
  have ch: "\<forall>x \<in> set cs. cluster_no fs x" using r chain_clusters by blast
  have sv: "same_volume fs gs" using assms(2) by (simp add: wstep_def only_window_volume)
  note kv = same_volume_keeps [OF sv] same_volume_cong [OF sv]
  have ginv: "fs_inv sectors good gs" using assms(2) by (simp add: wstep_def)
  have b0: "0 < unat btr" using assms(6) by (simp add: unat_gt_0)
  have lt: "unat (fptr fp) div 512 < length cs * unat (csize fs)"
    using assms(7) r b0 by (simp add: div_less_iff_less_mult mult.commute)
  have mem: "chain_sectors fs cs ! (unat (fptr fp) div 512) \<in> set (chain_sectors fs cs)" using lt by simp
  have nz: "dsect f1 \<noteq> 0" unfolding k(6) using file_sector_nonzero [OF _ _ ch mem] r by blast
  have pre: "data_ok gs" "\<forall>x \<in> set cs. cluster_no gs x" "unat (fptr f1) div 512 < length cs * unat (csize gs)"
    "dsect f1 = chain_sectors gs cs ! (unat (fptr f1) div 512)"
    using r ch lt k(6) unfolding kv assms(5) by blast+
  obtain q n b hs where h: "read_partial dev f1 buff pos btr gs = Some (q, n, b, hs)" "wstep gs hs" "calmer gs hs"
    "q \<in> {FR_OK, FR_DISK_ERR}" "q \<noteq> FR_OK \<Longrightarrow> b = buff"
    "q = FR_OK \<Longrightarrow> n = partial_count f1 btr
        \<and> b = splice (unat pos) (take (unat n) (drop (unat (fptr f1)) (file_bytes (vol sectors gs) gs cs))) buff"
    using read_partial_ok [OF ginv pre assms(8) nz] by blast
  have st: "wstep fs hs" "calmer fs hs" using wstep_trans [OF assms(2) h(2)] calmer_trans [OF assms(3) h(3)] .
  have "round_post fs fp cs buff pos btr (q, n, b, f1, hs)"
  proof (cases "q = FR_OK")
    case False
    then show ?thesis using st(1) h(4,5) assms(4) by (auto simp: round_post_def)
  next
    case True
    have n: "unat n = min (512 - unat (fptr fp) mod 512) (unat btr)"
      using h(6) [OF True] partial_count_unat assms(5) by metis
    then have n1: "0 < unat n" "unat n \<le> unat btr" "unat (fptr fp) mod 512 + unat n \<le> 512" using b0 by auto
    have fl: "unat (fptr fp) + unat n \<le> unat (fsize fp)" using n1(2) assms(7) by linarith
    then have u: "unat (fptr fp) + unat n < 2 ^ 32" using unsigned_less [of "fsize fp", where ?'a = nat] by simp
    have "read_pos fs (advance n f1) cs k"
      using k n1 u by (intro read_pos_partial) (simp_all add: assms(5))
    moreover have "fptr (advance n f1) \<le> fsize fp"
      using fl u by (simp add: advance_def assms(5) word_le_nat_alt unat_word_ariths)
    ultimately have "reading sectors good hs (advance n f1) cs"
      using reading_moved [OF assms(1) st] assms(4) by simp
    moreover have "length b = length buff"
    proof -
      have "length (take (unat n) (drop (unat (fptr fp)) (file_bytes (vol sectors gs) gs cs))) \<le> unat n" by simp
      then show ?thesis using h(6) [OF True] n1(2) assms(5,8) by simp
    qed
    ultimately show ?thesis
      using st(1) True assms(4,5) n1 h(6) [OF True] wstep_file(2) [OF assms(2) _ ch] r by (simp add: round_post_def)
  qed
  then show ?thesis using h(1) by blast
qed

lemma read_round_direct:
  assumes "reading sectors good fs fp cs" "wstep fs gs" "calmer fs gs" "moved fp f1" "fptr f1 = fptr fp"
    and "unat (fptr fp) + unat btr \<le> unat (fsize fp)" "unat pos + unat btr \<le> length buff"
    and "read_pos fs f1 cs k" "csect f1 < csize fs" "unat (fptr fp) mod 512 = 0" "btr div 512 \<noteq> 0"
  defines "cc \<equiv> direct_sectors f1 btr gs"
  shows "\<exists>b r b' d. slice (unat pos) (512 * unat cc) buff = Some b
    \<and> d_read dev b (clust2sect (curr_clust f1) gs + ucast (csect f1)) (ucast cc) (disk gs) = Some (r, b', d)
    \<and> round_post fs fp cs buff pos btr (if r \<noteq> RES_OK then (FR_DISK_ERR, 0, splice (unat pos) b' buff, f1, gs\<lparr>disk := d\<rparr>)
        else (FR_OK, 512 * cc, splice (unat pos) b' buff, f1\<lparr>csect := csect f1 + ucast cc\<rparr>, gs\<lparr>disk := d\<rparr>))"
proof -
  note r = assms(1) [unfolded reading_def]
  have ch: "\<forall>x \<in> set cs. cluster_no fs x" using r chain_clusters by blast
  have sv: "same_volume fs gs" using assms(2) by (simp add: wstep_def only_window_volume)
  note kv = same_volume_keeps [OF sv] same_volume_cong [OF sv]
  have rd: "reading sectors good gs fp cs" by (rule reading_wstep [OF assms(1-3)])
  have "csize gs \<le> 128" "csect f1 < csize gs" using r assms(9) by (simp_all add: kv data_ok_def)
  note cc = direct_sectors_bound [OF this(2,1) assms(11), folded cc_def]
  define b where "b = take (512 * unat cc) (drop (unat pos) buff)"
  have sl: "slice (unat pos) (512 * unat cc) buff = Some b" "length b = 512 * unat cc"
    using cc(3) assms(7) by (simp_all add: slice_def b_def)
  have pm: "read_pos gs f1 cs k" using assms(8) read_pos_cong [OF sv] by blast
  obtain q b' d where d: "d_read dev b (clust2sect (curr_clust f1) gs + ucast (csect f1)) (ucast cc) (disk gs) = Some (q, b', d)"
    "length b' = length b" "wstep gs (gs\<lparr>disk := d\<rparr>)"
    "q = RES_OK \<Longrightarrow> b' = take (512 * unat cc) (drop (unat (fptr f1)) (file_bytes (vol sectors gs) gs cs))"
    using read_direct [OF rd pm _ cc(2) sl(2)] assms(10) by (auto simp: assms(5))
  have st: "wstep fs (gs\<lparr>disk := d\<rparr>)" "calmer fs (gs\<lparr>disk := d\<rparr>)"
    using wstep_trans [OF assms(2) d(3)] assms(3) by (simp_all add: calmer_def)
  have len: "length (splice (unat pos) b' buff) = length buff" using d(2) sl(2) cc(3) assms(7) by simp
  let ?f2 = "f1\<lparr>csect := csect f1 + ucast cc\<rparr>"
  have "unat cc \<le> 128" using cc(2) \<open>csize gs \<le> 128\<close> by (simp add: word_le_nat_alt)
  then have uc: "unat (ucast cc :: u8) = unat cc" "unat (512 * cc) = 512 * unat cc"
    by (simp_all add: unsigned_ucast_eq take_bit_eq_mod unat_word_ariths)
  have sum: "unat (csect ?f2) = unat (csect f1) + unat cc"
    using cc(2) uc(1) unsigned_less [of "csize gs", where ?'a = nat] by (simp add: unat_word_ariths)
  have fl: "unat (fptr fp) + 512 * unat cc \<le> unat (fsize fp)" using cc(3) assms(6) by linarith
  then have u: "unat (fptr (advance (512 * cc) ?f2)) = unat (fptr fp) + 512 * unat cc"
    using unsigned_less [of "fsize fp", where ?'a = nat] by (simp add: advance_def assms(5) unat_word_ariths uc(2))
  have "read_pos fs (advance (512 * cc) ?f2) cs k"
  proof -
    note b = read_pos_boundary [OF assms(8)]
    have p: "unat (fptr fp) = 512 * (k * unat (csize fs) + unat (csect f1))" using b(1) assms(5,10) by simp
    have "unat (fptr (advance (512 * cc) ?f2)) = 512 * (k * unat (csize fs) + unat (csect f1) + unat cc)" unfolding u p by simp
    moreover have "csect ?f2 \<le> csize fs" using sum cc(2) by (simp add: word_le_nat_alt kv)
    ultimately show ?thesis using b(2,3) assms(5,8,10) sum unfolding read_pos_def by (simp add: advance_def)
  qed
  moreover have "fptr (advance (512 * cc) ?f2) \<le> fsize fp" using fl u by (simp add: word_le_nat_alt)
  ultimately have "reading sectors good (gs\<lparr>disk := d\<rparr>) (advance (512 * cc) ?f2) cs"
    using reading_moved [OF assms(1) st] assms(4) by simp
  then have "round_post fs fp cs buff pos btr (if q \<noteq> RES_OK then (FR_DISK_ERR, 0, splice (unat pos) b' buff, f1, gs\<lparr>disk := d\<rparr>)
        else (FR_OK, 512 * cc, splice (unat pos) b' buff, ?f2, gs\<lparr>disk := d\<rparr>))"
  proof (cases "q = RES_OK")
    case True
    have "b' = take (512 * unat cc) (drop (unat (fptr fp)) (file_bytes (vol sectors fs) fs cs))"
      using d(4) [OF True] wstep_file(2) [OF assms(2) _ ch] r assms(5) by simp
    then show "round_post fs fp cs buff pos btr (if q \<noteq> RES_OK then (FR_DISK_ERR, 0, splice (unat pos) b' buff, f1, gs\<lparr>disk := d\<rparr>)
        else (FR_OK, 512 * cc, splice (unat pos) b' buff, ?f2, gs\<lparr>disk := d\<rparr>))"
      if "reading sectors good (gs\<lparr>disk := d\<rparr>) (advance (512 * cc) ?f2) cs"
      using True that st(1) len assms(4,5) cc(1,3) by (simp add: round_post_def uc(2))
  qed (use st(1) len assms(4) in \<open>simp add: round_post_def\<close>)
  then show ?thesis using sl(1) d(1) by blast
qed

lemma read_round_ok:
  assumes "reading sectors good fs fp cs" "btr \<noteq> 0" "unat (fptr fp) + unat btr \<le> unat (fsize fp)"
    and "unat pos + unat btr \<le> length buff"
  shows "\<exists>x. read_round dev fp buff pos btr fs = Some x \<and> round_post fs fp cs buff pos btr x"
proof (cases "fptr fp mod 512 = 0")
  case False
  note r = assms(1) [unfolded reading_def]
  have m: "unat (fptr fp) mod 512 \<noteq> 0" using False by (simp add: unat_mod word_unat_eq_iff)
  then have "fptr fp \<noteq> 0" by auto
  then obtain k where k: "read_pos fs fp cs k" using r by (auto simp: read_at_def)
  note p = k [unfolded read_pos_def]
  have "unat (fptr fp) div 512 + 1 = (unat (fptr fp) + 511) div 512"
    using ceiling_step [OF m] by simp
  then obtain q n b hs where h: "read_partial dev fp buff pos btr fs = Some (q, n, b, hs)"
    "round_post fs fp cs buff pos btr (q, n, b, fp, hs)"
    using read_round_partial [OF assms(1) wstep_refl calmer_refl moved_refl refl assms(2-4), of k] p m r by auto
  then show ?thesis using False by (simp add: read_round_def)
next
  case True
  note r = assms(1) [unfolded reading_def]
  have m: "unat (fptr fp) mod 512 = 0" using True by (simp add: unat_mod word_unat_eq_iff)
  have b0: "0 < unat btr" using assms(2) by (simp add: unat_gt_0)
  then have lt: "fptr fp < fsize fp" using assms(3) by (simp add: word_less_nat_alt)
  obtain q f1 gs where g: "read_cluster dev fp fs = Some (q, f1, gs)" "wstep fs gs" "calmer fs gs" "q \<in> {FR_OK, FR_DISK_ERR}"
    "q = FR_OK \<longrightarrow> (\<exists>k. read_pos fs f1 cs k \<and> csect f1 < csize fs \<and> f1 = fp\<lparr>curr_clust := curr_clust f1, csect := csect f1\<rparr>)"
    using read_cluster_ok [OF assms(1) lt m] by blast
  show ?thesis
  proof (cases "q = FR_OK")
    case False
    then have "read_round dev fp buff pos btr fs = Some (FR_DISK_ERR, 0, buff, f1, gs)"
      using True g(1,4) by (auto simp: read_round_def)
    moreover have "moved fp f1" using g(1) False read_cluster_moved by blast
    ultimately show ?thesis using g(2) by (simp add: round_post_def)
  next
    case ok: True
    then obtain k where k: "read_pos fs f1 cs k" "csect f1 < csize fs" and
      f1: "f1 = fp\<lparr>curr_clust := curr_clust f1, csect := csect f1\<rparr>" using g(5) by blast
    have mv: "moved fp f1" "fptr f1 = fptr fp" by (subst f1, simp)+
    have ch: "\<forall>x \<in> set cs. cluster_no fs x" using r chain_clusters by blast
    have sv: "same_volume fs gs" using g(2) by (simp add: wstep_def only_window_volume)
    note bd = read_pos_boundary [OF k(1) m [folded mv(2)]]
    have cn: "cluster_no fs (curr_clust f1)" using ch bd(2,3) by simp
    have nz: "clust2sect (curr_clust f1) gs \<noteq> 0"
      using clust2sect_nonzero [OF _ _ cn] r unfolding same_volume_keeps [OF sv] by blast
    show ?thesis
    proof (cases "btr div 512 = 0")
      case False
      obtain b q' b' d where d: "slice (unat pos) (512 * unat (direct_sectors f1 btr gs)) buff = Some b"
        "d_read dev b (clust2sect (curr_clust f1) gs + ucast (csect f1)) (ucast (direct_sectors f1 btr gs)) (disk gs) = Some (q', b', d)"
        "round_post fs fp cs buff pos btr (if q' \<noteq> RES_OK then (FR_DISK_ERR, 0, splice (unat pos) b' buff, f1, gs\<lparr>disk := d\<rparr>)
          else (FR_OK, 512 * direct_sectors f1 btr gs, splice (unat pos) b' buff,
            f1\<lparr>csect := csect f1 + ucast (direct_sectors f1 btr gs)\<rparr>, gs\<lparr>disk := d\<rparr>))"
        using read_round_direct [OF assms(1) g(2,3) mv assms(3,4) k m False] by blast
      have "read_round dev fp buff pos btr fs =
        Some (if q' \<noteq> RES_OK then (FR_DISK_ERR, 0, splice (unat pos) b' buff, f1, gs\<lparr>disk := d\<rparr>)
          else (FR_OK, 512 * direct_sectors f1 btr gs, splice (unat pos) b' buff,
            f1\<lparr>csect := csect f1 + ucast (direct_sectors f1 btr gs)\<rparr>, gs\<lparr>disk := d\<rparr>))"
        using True g(1) ok nz False d(1,2) by (simp add: read_round_def Let_def)
      then show ?thesis using d(3) by blast
    next
      case small: True
      let ?f2 = "f1\<lparr>dsect := clust2sect (curr_clust f1) gs + ucast (csect f1), csect := csect f1 + 1\<rparr>"
      have c1: "unat (csect f1 + 1) = unat (csect f1) + 1" using k(2) unsigned_less [of "csize fs", where ?'a = nat]
        by (simp add: unat_word_ariths word_less_nat_alt)
      have s: "unat (fptr fp) div 512 = k * unat (csize fs) + unat (csect f1)" using bd(1) mv(2) by simp
      have csl: "unat (csect f1) < unat (csize fs)" using k(2) by (simp add: word_less_nat_alt)
      have "k * unat (csize fs) + unat (csize fs) \<le> length cs * unat (csize fs)"
        using bd(2) mult_le_mono1 [of "k + 1" "length cs" "unat (csize fs)"] by simp
      then have ds: "clust2sect (curr_clust f1) gs + ucast (csect f1) = chain_sectors fs cs ! (unat (fptr fp) div 512)"
        unfolding s same_volume_keeps [OF sv] using nth_chain_sectors [of "k * unat (csize fs) + unat (csect f1)" cs fs] csl bd(3) by simp
      have pre: "moved fp ?f2" "fptr ?f2 = fptr fp" "curr_clust ?f2 = cs ! k" "csect ?f2 \<le> csize fs" "0 < csect ?f2"
        "unat (fptr fp) div 512 + 1 = k * unat (csize fs) + unat (csect ?f2)"
        "dsect ?f2 = chain_sectors fs cs ! (unat (fptr fp) div 512)"
        using mv bd(3) c1 csl s ds by (simp_all add: word_le_nat_alt word_less_nat_alt)
      obtain q' n b hs where h: "read_partial dev ?f2 buff pos btr gs = Some (q', n, b, hs)"
        "round_post fs fp cs buff pos btr (q', n, b, ?f2, hs)"
        using read_round_partial [OF assms(1) g(2,3) pre(1,2) assms(2-4) bd(2) pre(3-7)] by blast
      then have "read_round dev fp buff pos btr fs = Some (q', n, b, ?f2, hs)"
        using True g(1) ok nz small by (simp add: read_round_def Let_def)
      then show ?thesis using h(2) by blast
    qed
  qed
qed

end

section \<open>The whole call\<close>

lemma splice_splice:
  assumes "length x = n" "p + n + length y \<le> length b"
  shows "splice (p + n) y (splice p x b) = splice p (x @ y) b"
  using assms by (simp add: splice_def ac_simps)

lemma length_file_bytes: "\<forall>x. length (v x) = 512 \<Longrightarrow> length (file_bytes v fs cs) = 512 * (length cs * unat (csize fs))"
  by (simp add: file_bytes_def length_blocks)

context block_device
begin

lemma fread_loop_ok:
  assumes "reading sectors good fs fp cs" "unat (fptr fp) + unat btr \<le> unat (fsize fp)"
    and "unat pos + unat btr \<le> length buff" "unat pos + unat btr < 2 ^ 32"
  shows "\<exists>r q b fp' gs. fread_loop dev fp buff pos btr fs = Some (r, q, b, fp', gs) \<and> wstep fs gs
    \<and> r \<in> {FR_OK, FR_DISK_ERR} \<and> length b = length buff \<and> (r = FR_OK \<longrightarrow> q = pos + btr \<and> moved fp fp' \<and> fptr fp' = fptr fp + btr
        \<and> reading sectors good gs fp' cs
        \<and> b = splice (unat pos) (take (unat btr) (drop (unat (fptr fp)) (file_bytes (vol sectors fs) fs cs))) buff)"
  using assms
proof (induction "unat btr" arbitrary: fs fp pos btr buff rule: less_induct)
  case less
  note r = less.prems(1) [unfolded reading_def]
  show ?case
  proof (cases "btr = 0")
    case True
    then have "fread_loop dev fp buff pos btr fs = Some (FR_OK, pos, buff, fp, fs)" by (subst fread_loop.simps) simp
    then show ?thesis using True less.prems(1) r wstep_refl by (simp add: splice_def)
  next
    case False
    obtain q n b f1 gs where g: "read_round dev fp buff pos btr fs = Some (q, n, b, f1, gs)"
      "round_post fs fp cs buff pos btr (q, n, b, f1, gs)"
      using read_round_ok [OF less.prems(1) False less.prems(2,3)] by (metis prod_cases5)
    have run: "fread_loop dev fp buff pos btr fs = (if q \<noteq> FR_OK then Some (q, pos, b, abort_file f1, gs)
        else fread_loop dev (advance n f1) b (pos + n) (btr - n) gs)"
      using False g(1) by (subst fread_loop.simps) simp
    note g2 = g(2) [unfolded round_post_def prod.case]
    show ?thesis
    proof (cases "q = FR_OK")
      case False
      then show ?thesis using run g2 by simp
    next
      case True
      let ?f2 = "advance n f1" and ?B = "file_bytes (vol sectors fs) fs cs" and ?p = "unat (fptr fp)"
      have n: "0 < unat n" "unat n \<le> unat btr" and rd: "reading sectors good gs ?f2 cs"
        and b: "b = splice (unat pos) (take (unat n) (drop ?p ?B)) buff" and w: "wstep fs gs" and mv: "moved fp f1" "fptr f1 = fptr fp"
        using g2 True by blast+
      have lt: "?p + unat btr < 2 ^ 32" using less.prems(2) unsigned_less [of "fsize fp", where ?'a = nat] by simp
      have u: "unat (btr - n) = unat btr - unat n" "unat (pos + n) = unat pos + unat n" "unat (fptr ?f2) = ?p + unat n"
        "fsize ?f2 = fsize fp"
        using n less.prems(4) lt mv moved_fields [OF mv(1)] by (simp_all add: unat_sub word_le_nat_alt unat_word_ariths advance_def)
      have lb: "length b = length buff" using g2 by blast
      have ih: "unat (btr - n) < unat btr" "unat (fptr ?f2) + unat (btr - n) \<le> unat (fsize ?f2)"
        "unat (pos + n) + unat (btr - n) \<le> length b" "unat (pos + n) + unat (btr - n) < 2 ^ 32"
        using n u less.prems(2-4) lb by simp_all
      obtain q2 e c f3 hs where h: "fread_loop dev ?f2 b (pos + n) (btr - n) gs = Some (q2, e, c, f3, hs)" "wstep gs hs"
        "q2 \<in> {FR_OK, FR_DISK_ERR}" "length c = length b"
        "q2 = FR_OK \<longrightarrow> e = pos + n + (btr - n) \<and> moved ?f2 f3 \<and> fptr f3 = fptr ?f2 + (btr - n) \<and> reading sectors good hs f3 cs
          \<and> c = splice (unat (pos + n)) (take (unat (btr - n)) (drop (unat (fptr ?f2)) (file_bytes (vol sectors gs) gs cs))) b"
        using less.hyps [OF ih(1) rd ih(2-4)] by blast
      have ch: "\<forall>x \<in> set cs. cluster_no fs x" using r chain_clusters by blast
      have B: "file_bytes (vol sectors gs) gs cs = ?B" using wstep_file(2) [OF w _ ch] r by blast
      have len: "length ?B = 512 * (length cs * unat (csize fs))" using length_file_bytes vol_length r by blast
      moreover have "unat (fsize fp) \<le> 512 * (length cs * unat (csize fs))" using r by blast
      ultimately have "unat n \<le> length ?B - ?p" using n(2) less.prems(2) by linarith
      then have l1: "length (take (unat n) (drop ?p ?B)) = unat n" by simp
      have "splice (unat (pos + n)) (take (unat (btr - n)) (drop (unat (fptr ?f2)) ?B)) b
          = splice (unat pos) (take (unat n) (drop ?p ?B) @ take (unat btr - unat n) (drop (?p + unat n) ?B)) buff"
        unfolding b u using n less.prems(3) by (intro splice_splice [OF l1]) simp
      also have "take (unat n) (drop ?p ?B) @ take (unat btr - unat n) (drop (?p + unat n) ?B) = take (unat btr) (drop ?p ?B)"
        using take_add [of "unat n" "unat btr - unat n" "drop ?p ?B"] n(2) by (simp add: add.commute)
      finally have c: "q2 = FR_OK \<Longrightarrow> c = splice (unat pos) (take (unat btr) (drop ?p ?B)) buff" using h(5) B by simp
      have ff: "fptr ?f2 + (btr - n) = fptr fp + btr" "pos + n + (btr - n) = pos + btr"
        using mv(2) by (simp_all add: advance_def)
      have "moved fp ?f2" using mv(1) by simp
      then show ?thesis using run True h c lb ff wstep_trans [OF w h(2)] moved_trans by auto
    qed
  qed
qed

text \<open>What the caller gets: the result, the count, the buffer, the file object and the volume.\<close>

lemma f_read_ok:
  assumes "reading sectors good fs fp cs" "unat btr \<le> length buff"
  shows "\<exists>r n b fp' gs. f_read dev fp buff btr fs = Some (r, n, b, fp', gs) \<and> wstep fs gs \<and> length b = length buff
    \<and> (r = FR_OK \<longrightarrow> n = min btr (fsize fp - fptr fp) \<and> fptr fp' = fptr fp + n \<and> reading sectors good gs fp' cs
        \<and> take (unat n) b = take (unat n) (drop (unat (fptr fp)) (file_bytes (vol sectors fs) fs cs))
        \<and> drop (unat n) b = drop (unat n) buff)"
proof -
  let ?n = "min btr (fsize fp - fptr fp)" and ?B = "file_bytes (vol sectors fs) fs cs"
  note r = assms(1) [unfolded reading_def]
  have sub: "unat (fsize fp - fptr fp) = unat (fsize fp) - unat (fptr fp)" using r by (simp add: unat_sub)
  have le: "unat (fptr fp) + unat ?n \<le> unat (fsize fp)"
    using sub r by (auto simp: min_def word_le_nat_alt)
  have nb: "unat ?n \<le> unat btr" by (auto simp: min_def word_le_nat_alt)
  have z: "unat (0 :: u32) + unat ?n \<le> length buff" "unat (0 :: u32) + unat ?n < 2 ^ 32"
    using nb assms(2) unsigned_less [of ?n, where ?'a = nat] by simp_all
  obtain q e b f1 gs where run: "fread_loop dev fp buff 0 ?n fs = Some (q, e, b, f1, gs)" "wstep fs gs" "length b = length buff"
    "q = FR_OK \<longrightarrow> e = 0 + ?n \<and> moved fp f1 \<and> fptr f1 = fptr fp + ?n \<and> reading sectors good gs f1 cs
      \<and> b = splice (unat (0 :: u32)) (take (unat ?n) (drop (unat (fptr fp)) ?B)) buff"
    using fread_loop_ok [OF assms(1) le z] by blast
  have min: "(if btr > fsize fp - fptr fp then fsize fp - fptr fp else btr) = ?n" by (auto simp: min_def)
  have refl: "wstep fs fs" using r wstep_refl by blast
  have len: "length (take (unat ?n) (drop (unat (fptr fp)) ?B)) = unat ?n"
  proof -
    have "length ?B = 512 * (length cs * unat (csize fs))" using length_file_bytes vol_length r by blast
    moreover have "unat (fsize fp) \<le> 512 * (length cs * unat (csize fs))" using r by blast
    ultimately have "unat ?n \<le> length ?B - unat (fptr fp)" using le by linarith
    then show ?thesis by simp
  qed
  have res: "q = FR_OK \<Longrightarrow> take (unat ?n) b = take (unat ?n) (drop (unat (fptr fp)) ?B) \<and> drop (unat ?n) b = drop (unat ?n) buff"
    using run(4) len by (simp add: splice_def)
  have f: "f_read dev fp buff btr fs = (let res = validate dev fp fs in
     if res \<noteq> FR_OK then Some (res, 0, buff, fp, fs)
     else if flag fp AND FA__ERROR \<noteq> 0 then Some (FR_INT_ERR, 0, buff, fp, fs)
     else if flag fp AND FA_READ = 0 then Some (FR_DENIED, 0, buff, fp, fs)
     else Some (q, e, b, f1, gs))"
    by (simp add: f_read_def Let_def min run(1))
  show ?thesis unfolding f Let_def using run(2-4) res refl by auto
qed

end

section \<open>Reading from the card\<close>

text \<open>
  C17: reading from a file on the card, from any position: \<^verbatim>\<open>f_read\<close> returns. When the result is \<open>FR_OK\<close>, the count is
  the number asked for or what is left of the file, so many bytes of the file from the position on are at the
  start of the caller's buffer, the rest of the buffer is as it was, and the position has advanced by the
  count, ready for the next call; no sector outside the copies of the allocation table changes.
\<close>

theorem f_read_data:
  fixes fs :: "'a disk_st_scheme fatfs"
  assumes "reading image (disk_ok ev ba) fs fp cs" "unat btr \<le> length buff"
  shows "\<exists>r n b fp' gs. f_read (sd_device ev torn ba) fp buff btr fs = Some (r, n, b, fp', gs)
    \<and> same_volume fs gs \<and> (\<forall>x. x \<notin> mirror fs \<longrightarrow> vol image gs x = vol image fs x) \<and> length b = length buff
    \<and> (r = FR_OK \<longrightarrow> n = min btr (fsize fp - fptr fp) \<and> fptr fp' = fptr fp + n \<and> reading image (disk_ok ev ba) gs fp' cs
        \<and> take (unat n) b = take (unat n) (drop (unat (fptr fp)) (file_bytes (vol image fs) fs cs))
        \<and> drop (unat n) b = drop (unat n) buff)"
  using sd.f_read_ok [OF assms, of torn] only_window_volume unfolding sd.wstep_def by blast

text \<open>A file of three sectors on the small volume of \<open>Fat\<close>, opened for reading.\<close>

definition three_sectors :: FIL where
  "three_sectors = small_file\<lparr>flag := 0x01, fsize := 1200, org_clust := 2\<rparr>"

lemma three_sectors_reading: "reading image (disk_ok done_env ba) (small_fs FS_FAT16 chain_table) three_sectors [2, 5, 3]"
proof -
  let ?fs = "small_fs FS_FAT16 chain_table"
  have f: "csize ?fs = 1" "database ?fs = 4" "max_clust ?fs = 8" "winsect ?fs = 1" by (simp_all add: small_fs_def)
  have "chain_sectors ?fs [2, 5, 3] = [4, 7, 5]" by (simp add: chain_sectors_def cluster_sectors_def clust2sect_def Let_def f word_le_nat_alt)
  then have "settled ?fs [2, 5, 3]" by (simp add: settled_def f)
  moreover have "data_ok ?fs" by (simp add: data_ok_def small_fs_def)
  moreover have "org_clust three_sectors = 2" "fsize three_sectors = 1200" "fptr three_sectors = 0" "csect three_sectors = 255"
    by (simp_all add: three_sectors_def small_file_def)
  moreover have "length chain_table = 512" by (simp add: chain_table_def)
  ultimately show ?thesis
    using small_fs_ok(1,2) [of chain_table FS_FAT16] chain_table_chain by (simp add: reading_def read_at_def f del: chain.simps)
qed

theorem f_read_data_witness:
  "\<exists>r n b fp' gs. f_read (sd_device done_env (\<lambda>_. []) 0x10000000) three_sectors (replicate 2000 9) 2000 (small_fs FS_FAT16 chain_table)
      = Some (r, n, b, fp', gs) \<and> length b = 2000 \<and> (r = FR_OK \<longrightarrow> n = 1200 \<and> drop 1200 b = replicate 800 9)"
proof -
  have len: "unat (2000 :: u32) \<le> length (replicate 2000 (9 :: u8))" by simp
  have "min (2000 :: u32) (fsize three_sectors - fptr three_sectors) = 1200"
    by (simp add: three_sectors_def small_file_def min_def)
  then show ?thesis
    using f_read_data [OF three_sectors_reading len, where torn = "\<lambda>_. []" and ba = "0x10000000"] by fastforce
qed

section \<open>A changed sector in the window\<close>

text \<open>
  Whole sectors are read past the window: a change it holds of one of them is not seen. One byte is written
  over the start of a file of one sector; after going back, reading the byte gives the new value, reading
  the sector the old one.
\<close>

declare fread_loop.simps [code] seek_clusters.simps [code]

lemma f_read_stale:
  "(case f_write flaky small_file (replicate 512 7) 512 ram_fs of Some (_, _, fp, fs) \<Rightarrow>
     (case f_lseek flaky fp 0 fs of Some (_, fp, fs) \<Rightarrow>
        (case f_write flaky fp [1] 1 fs of Some (_, _, fp, fs) \<Rightarrow>
           (case f_lseek flaky fp 0 fs of Some (_, fp, fs) \<Rightarrow>
              (case (f_read flaky fp (replicate 512 0) 1 fs, f_read flaky fp (replicate 512 0) 512 fs) of
                 (Some (r, n, b, _), Some (r', n', b', _)) \<Rightarrow>
                   r = FR_OK \<and> n = 1 \<and> b = 1 # replicate 511 0 \<and> r' = FR_OK \<and> n' = 512 \<and> b' = replicate 512 7
               | _ \<Rightarrow> False) | None \<Rightarrow> False) | None \<Rightarrow> False) | None \<Rightarrow> False) | None \<Rightarrow> False)"
  by code_simp

end
