(* ===== verification/FatReadBack.thy ===== *)
theory FatReadBack
  imports FatMount FatRead
begin

text \<open>
  Opening a file for reading, and the way back of a dump: the card is taken out and put in again, the file is
  opened and read, and the bytes are those of the bank.
\<close>

section \<open>Opening for reading\<close>

text \<open>The root directory has the name for an ordinary file of the given size whose clusters are \<open>fc\<close>.\<close>

definition file_at :: "('d \<Rightarrow> u32 \<Rightarrow> u8 list) \<Rightarrow> 'd fatfs \<Rightarrow> u32 \<Rightarrow> u32 list \<Rightarrow> u8 list \<Rightarrow> u32 \<Rightarrow> u32 list \<Rightarrow> bool" where
  "file_at v fs sc cs fn sz fc \<longleftrightarrow> set fc \<inter> set cs = {} \<and> unat sz \<le> 512 * (length fc * unat (csize fs))
     \<and> (\<exists>k. name_at (vol v fs) fs sc cs fn k \<and> (let w = vol v fs (slot_sector fs sc cs k); d = k mod 16 * 32 in
          w ! (d + DIR_Attr) AND AM_DIR = 0 \<and> LD_DWORD w (d + DIR_FileSize) = sz
          \<and> chain (fat_entry v fs) (max_clust fs) (start_cluster w d) fc))"

lemma slot_sector_other:
  assumes "dir_ok nx fs sc cs" "table_ok fs" "data_ok fs" "k < slot_count fs sc cs" "cluster_no fs c" "c \<notin> set cs"
  shows "slot_sector fs sc cs k \<notin> set (cluster_sectors fs c)"
proof (rule slot_sector_used [OF _ assms(2-5)])
  have "chain (nx(c := 0)) (max_clust fs) sc cs" if ch: "chain nx (max_clust fs) sc cs"
    using assms(6) by (intro chain_cong [OF ch]) auto
  then show "dir_ok (nx(c := 0)) fs sc cs" using assms(1) by (auto simp: dir_ok_def split: if_splits)
qed simp

context block_device
begin

lemma f_open_read:
  assumes "mounted dev m" "fs_inv sectors good (obj m)" "table_ok (obj m)" "data_ok (obj m)"
    and "dir_ok (fat_entry sectors (obj m)) (obj m) (root_clust (obj m)) cs" "open_name dj0 path = Some fn"
    and "12 \<le> length (dj_fn dj0)" "file_at sectors (obj m) (root_clust (obj m)) cs fn sz fc"
  shows "\<exists>r fp' m'. f_open dev dj0 fp path FA_READ m = Some (r, fp', m') \<and> r \<in> {FR_OK, FR_DISK_ERR} \<and> FatFs m' = FatFs m
    \<and> wstep (obj m) (obj m') \<and> (r = FR_OK \<longrightarrow> reading sectors good (obj m') fp' fc \<and> fsize fp' = sz \<and> fptr fp' = 0
        \<and> file_bytes (vol sectors (obj m')) (obj m') fc = file_bytes (vol sectors (obj m)) (obj m) fc)"
proof -
  let ?fs = "obj m" and ?sc = "root_clust (obj m)"
  obtain p where p: "drive_of path = (0, p)" using assms(6) by (auto simp: open_name_def Let_def split: prod.splits if_splits)
  have mount: "auto_mount dev path False m = Some (FR_OK, p, m)"
    using assms(1) p by (simp add: auto_mount_def mounted_def)
  obtain r dj g where g: "follow_path dev dj0 p ?fs = Some (r, dj, g)" "found_post ?fs ?sc cs fn r dj g"
    using follow_path_root(3) [OF assms(2-7)] p by auto
  note post = g(2) [unfolded found_post_def]
  have w: "wstep ?fs g" using post by blast
  have run: "f_open dev dj0 fp path FA_READ m = (if open_existing FA_READ r dj g \<noteq> FR_OK
      then Some (open_existing FA_READ r dj g, fp\<lparr>f_fs := False\<rparr>, m\<lparr>obj := g\<rparr>)
      else do { d \<leftarrow> dj_dir dj; Some (FR_OK, open_file FA_READ d g (fp\<lparr>f_fs := False\<rparr>), m\<lparr>obj := g\<rparr>) })"
    using mount g(1) by (simp add: f_open_def Let_def)
  have "r \<noteq> FR_NO_FILE" using post no_name_at assms(8) unfolding file_at_def by blast
  then consider "r = FR_DISK_ERR" | "r = FR_OK" using post by blast
  then show ?thesis
  proof cases
    case 1
    then have "open_existing FA_READ r dj g = FR_DISK_ERR" by (simp add: open_existing_def)
    then show ?thesis using run w by simp
  next
    case 2
    then obtain n where n: "name_at (vol sectors ?fs) ?fs ?sc cs fn n" "at_slot ?fs cs n dj" "winsect g = dj_sect dj" "sclust dj = ?sc"
      using post by blast
    let ?sec = "slot_sector ?fs ?sc cs n" and ?d = "n mod 16 * 32"
    have fa: "set fc \<inter> set cs = {}" "unat sz \<le> 512 * (length fc * unat (csize ?fs))"
      "vol sectors ?fs ?sec ! (?d + DIR_Attr) AND AM_DIR = 0" "LD_DWORD (vol sectors ?fs ?sec) (?d + DIR_FileSize) = sz"
      "chain (fat_entry sectors ?fs) (max_clust ?fs) (start_cluster (vol sectors ?fs ?sec) ?d) fc"
      using assms(8) name_at_unique [OF _ n(1)] unfolding file_at_def Let_def by blast+
    have nc: "n < slot_count ?fs ?sc cs" using n(1) by (simp add: name_at_def slots_def)
    have sec: "winsect g = ?sec" "dj_dir dj = Some ?d" using n(2-4) by (simp_all add: at_slot_def)
    note k = search_keeps [OF w assms(2-5)]
    have win: "win g = vol sectors ?fs ?sec"
    proof -
      have "vol sectors g ?sec = win g" using sec(1) slot_sector_ok(1) [OF assms(5,3,4) nc] by (simp add: vol_def)
      then show ?thesis using k(9) [OF nc] by simp
    qed
    let ?fp = "open_file FA_READ ?d g (fp\<lparr>f_fs := False\<rparr>)"
    have "open_existing FA_READ r dj g = FR_OK" using 2 sec(2) win fa(3) by (simp add: open_existing_def)
    then have o: "f_open dev dj0 fp path FA_READ m = Some (FR_OK, ?fp, m\<lparr>obj := g\<rparr>)" using run sec(2) by simp
    have fp: "fptr ?fp = 0" "fsize ?fp = sz" "csect ?fp = 255" "org_clust ?fp = start_cluster (vol sectors ?fs ?sec) ?d"
      using fa(4) win by (simp_all add: open_file_def)
    have sv: "same_volume ?fs g" using w by (simp add: wstep_def only_window_volume)
    note kv = same_volume_keeps [OF sv] same_volume_cong [OF sv]
    have ch: "\<forall>x \<in> set fc. cluster_no ?fs x" using chain_clusters [OF fa(5)] .
    have "chain (fat_entry sectors g) (max_clust ?fs) (org_clust ?fp) fc"
      unfolding fp by (rule chain_cong [OF fa(5)]) (use wstep_entry [OF w assms(3,2)] ch in blast)
    moreover have "settled g fc"
    proof -
      have "?sec \<notin> set (chain_sectors ?fs fc)"
        using slot_sector_other [OF assms(5,3,4) nc] ch fa(1) by (fastforce simp: chain_sectors_def)
      then show ?thesis by (simp add: settled_def sec(1) kv)
    qed
    moreover have "csize g \<le> csect ?fp"
    proof -
      have "unat (csize ?fs) \<le> 128" using assms(4) by (simp add: data_ok_def word_le_nat_alt)
      then show ?thesis by (simp add: fp kv word_le_nat_alt)
    qed
    ultimately have "reading sectors good g ?fp fc"
      unfolding reading_def read_at_def kv fp using k(1) assms(3,4) fa(2) by simp
    then show ?thesis using o w fp wstep_file(2) [OF w assms(4) ch] by simp
  qed
qed

end

section \<open>The card put in again\<close>

text \<open>The number of the mounting is of no account.\<close>

lemma fs_id_upd:
  "fat_entry v (fs\<lparr>fs_id := x\<rparr>) = fat_entry v fs" "dir_ok nx (fs\<lparr>fs_id := x\<rparr>) = dir_ok nx fs"
  "root_clust (fs\<lparr>fs_id := x\<rparr>) = root_clust fs" "slot_sector (fs\<lparr>fs_id := x\<rparr>) = slot_sector fs"
  "name_at u (fs\<lparr>fs_id := x\<rparr>) sc cs fn k = name_at u fs sc cs fn k" "vol v (fs\<lparr>fs_id := x\<rparr>) = vol v fs"
  "chain_sectors (fs\<lparr>fs_id := x\<rparr>) cs = chain_sectors fs cs"
proof -
  have r: "root_slots (fs\<lparr>fs_id := x\<rparr>) = root_slots fs" "pow2_cluster (fs\<lparr>fs_id := x\<rparr>) = pow2_cluster fs"
    by (simp_all add: root_slots_def pow2_cluster_def)
  show vol: "vol v (fs\<lparr>fs_id := x\<rparr>) = vol v fs" by (rule ext) (auto simp: vol_def)
  then have "tbl v (fs\<lparr>fs_id := x\<rparr>) = tbl v fs" by (intro ext) (simp add: tbl_def)
  then show "fat_entry v (fs\<lparr>fs_id := x\<rparr>) = fat_entry v fs" by (intro ext) (simp add: fat_entry_def Let_def)
  have c: "cluster_sectors (fs\<lparr>fs_id := x\<rparr>) = cluster_sectors fs" by (intro ext) (simp add: cluster_sectors_def clust2sect_def Let_def)
  then show ch: "chain_sectors (fs\<lparr>fs_id := x\<rparr>) cs = chain_sectors fs cs" for cs by (simp add: chain_sectors_def)
  show "root_clust (fs\<lparr>fs_id := x\<rparr>) = root_clust fs" by (simp add: root_clust_def)
  show "dir_ok nx (fs\<lparr>fs_id := x\<rparr>) = dir_ok nx fs" by (intro ext) (simp add: dir_ok_def r)
  show s: "slot_sector (fs\<lparr>fs_id := x\<rparr>) = slot_sector fs" by (intro ext) (simp add: slot_sector_def ch)
  have "slots (fs\<lparr>fs_id := x\<rparr>) = slots fs" by (intro ext) (simp add: slots_def slot_count_def r ch)
  then show "name_at u (fs\<lparr>fs_id := x\<rparr>) sc cs fn k = name_at u fs sc cs fn k"
    by (simp add: name_at_def passed_def slot_end_def slot_match_def s)
qed

lemma file_data_bytes: "\<forall>x. length (v x) = 512 \<Longrightarrow> k \<le> length (chain_sectors fs cs) \<Longrightarrow>
    file_data v fs cs k = take (512 * k) (file_bytes v fs cs)"
  using take_blocks [of v 0 k "chain_sectors fs cs"] by (simp add: file_data_def file_bytes_def)

text \<open>A dump lets the boot record alone.\<close>

lemma boot_kept:
  assumes "fresh_card m b cs fn os" "raw_stored flash bank (card_view image b m) cs os gs"
  shows "volume_at (image (disk gs)) = Some b" "image (disk gs) b = image (disk (obj m)) b"
proof -
  let ?v = "card_view image b m" and ?w = "image (disk (obj m)) b"
  note fr = assms(1) [unfolded fresh_card_def Let_def]
  have bpb: "bpb_ok b ?w" and vo: "volume_at (image (disk (obj m))) = Some b" using fr by blast+
  have geo: "geometry b ?w ?v" by (rule card_view_geometry)
  note g = geometry_ok [OF bpb geo]
  have sv: "same_volume ?v gs" using assms(2) by (simp add: raw_stored_def)
  note k = same_volume_keeps [OF sv]
  obtain ds fc n where r: "dir_ok (fat_entry image gs) gs (root_clust ?v) (cs @ ds)"
    "name_at (image (disk gs)) gs (root_clust ?v) (cs @ ds) (raw_name bank) n"
    "\<forall>c \<in> set (ds @ fc). cluster_no ?v c \<and> (fat_entry image ?v c = 0 \<or> c \<in> set os)"
    "\<forall>x. x \<notin> fat_area ?v \<longrightarrow> x \<notin> set (chain_sectors ?v (ds @ fc)) \<longrightarrow> x \<noteq> slot_sector gs (root_clust ?v) (cs @ ds) n
        \<longrightarrow> \<not> info_sector ?v x \<longrightarrow> image (disk gs) x = vol image ?v x"
    using assms(2) unfolding raw_stored_def Let_def by (elim exE conjE) (rule that, assumption+)
  have vol: "vol image ?v x = image (disk (obj m)) x" for x by (simp add: vol_def card_view_def Let_def)
  have fb: "unat (fatbase ?v) \<le> unat (database ?v)" using g(2) unfolding data_ok_def by linarith
  have nc: "n < slot_count gs (root_clust ?v) (cs @ ds)" using r(2) by (simp add: name_at_def slots_def)
  have tg: "table_ok gs" "data_ok gs" "fatbase gs = fatbase ?v" using g(1,2) k same_volume_cong(4) [OF sv] by simp_all
  have low: "image (disk gs) x = image (disk (obj m)) x" if x: "x < fatbase ?v" "\<not> info_sector ?v x" for x
  proof -
    have "x \<notin> fat_area ?v" using x(1) by (simp add: fat_area_def word_less_nat_alt)
    moreover have "x \<notin> set (chain_sectors ?v (ds @ fc))"
    proof
      assume "x \<in> set (chain_sectors ?v (ds @ fc))"
      then obtain c where "c \<in> set (ds @ fc)" "x \<in> set (cluster_sectors ?v c)" by (auto simp: chain_sectors_def)
      then have "database ?v \<le> x" using sector_outside_tables(2) [OF g(2)] r(3) by blast
      then show False using x(1) fb by (simp add: word_le_nat_alt word_less_nat_alt)
    qed
    moreover have "x \<noteq> slot_sector gs (root_clust ?v) (cs @ ds) n"
      using slot_sector_ok(2) [OF r(1) tg(1,2) nc] x(1) tg(3) by auto
    ultimately show ?thesis using r(4) x(2) vol by simp
  qed
  have res: "0 < unat (LD_WORD ?w BPB_RsvdSecCnt)" using bpb by (simp add: bpb_ok_def unat_gt_0)
  have lt: "b < fatbase ?v" "0 < fatbase ?v" using g(6) res by (simp_all add: word_less_nat_alt)
  have info: "unat b < unat x" if "info_sector ?v x" for x
  proof -
    have ty: "fs_type ?v = FS_FAT32" "x = fsi_sector ?v" using that by (simp_all add: info_sector_def)
    then have f: "x = b + ucast (LD_WORD ?w BPB_FSInfo)" by (simp add: card_view_def Let_def)
    have "\<not> cluster_limit ?w < 0xFFF7"
      using ty(1) geo mount_clusters_limit(1) [OF bpb] by (auto simp: geometry_def fat_type_def word_le_nat_alt split: if_splits)
    then have p: "0 < unat (LD_WORD ?w BPB_FSInfo)" "unat b + 65536 \<le> 2 ^ 32 \<longrightarrow> True"
      "unat (LD_WORD ?w BPB_FSInfo) < unat (LD_WORD ?w BPB_RsvdSecCnt)"
      using bpb by (simp_all add: bpb_ok_def word_less_nat_alt unat_gt_0)
    have "unat b + unat (LD_WORD ?w BPB_RsvdSecCnt) < 2 ^ 32" using bpb by (simp add: bpb_ok_def meta_sectors_def)
    then have "unat x = unat b + unat (LD_WORD ?w BPB_FSInfo)" using p by (simp add: f unat_word_ariths unat_u16_u32)
    then show ?thesis using p by simp
  qed
  then have "\<not> info_sector ?v b" "\<not> info_sector ?v 0" by fastforce+
  then have same: "image (disk gs) b = ?w" "image (disk gs) 0 = image (disk (obj m)) 0" using low lt by blast+
  then show "image (disk gs) b = ?w" by blast
  show "volume_at (image (disk gs)) = Some b" using vo same by (auto simp: volume_at_def split: if_splits)
qed

text \<open>An object a card put in again is mounted on: registered, nothing read from the card yet.\<close>

definition card_in :: "'d ff \<Rightarrow> bool" where
  "card_in m \<longleftrightarrow> FatFs m \<and> fs_type (obj m) = 0 \<and> fsi_sector (obj m) = 0 \<and> length (win (obj m)) = 512"

text \<open>Mounting finds the volume the dump left.\<close>

lemma stored_found:
  fixes m :: "'a disk_st_scheme ff" and f :: "'a disk_st_scheme fatfs"
  assumes "fresh_card m b cs fn os" "raw_stored flash bank (card_view image b m) cs os gs"
    and "geometry b (image (disk (obj m)) b) f" "winsect f = 0" "image (disk f) = image (disk gs)"
    and "fsi_sector f = (if fs_type f = FS_FAT32 then b + ucast (LD_WORD (image (disk (obj m)) b) BPB_FSInfo) else 0)"
    and "\<And>x. length (image (disk gs) x) = 512"
  shows "\<exists>ds fc. dir_ok (fat_entry image f) f (root_clust f) (cs @ ds)
    \<and> file_at image f (root_clust f) (cs @ ds) (raw_name bank) 0x21000000 fc
    \<and> take 0x21000000 (file_bytes (vol image f) f fc) = pages_image flash bank 0 0x40000"
proof -
  let ?v = "card_view image b m" and ?f = "f\<lparr>fs_id := fs_id gs\<rparr>"
  obtain ds fc k where sv: "same_volume ?v gs" "vol image gs = image (disk gs)" and
    r: "dir_ok (fat_entry image gs) gs (root_clust ?v) (cs @ ds)"
    "name_at (image (disk gs)) gs (root_clust ?v) (cs @ ds) (raw_name bank) k"
    "image (disk gs) (slot_sector gs (root_clust ?v) (cs @ ds) k) ! (k mod 16 * 32 + DIR_Attr) = AM_ARC"
    "LD_DWORD (image (disk gs) (slot_sector gs (root_clust ?v) (cs @ ds) k)) (k mod 16 * 32 + DIR_FileSize) = 0x21000000"
    "chain (fat_entry image gs) (max_clust ?v) (start_cluster (image (disk gs) (slot_sector gs (root_clust ?v) (cs @ ds) k)) (k mod 16 * 32)) fc"
    "file_data (image (disk gs)) ?v fc (0x21000000 div 512) = pages_image flash bank 0 0x40000"
    "set fc \<inter> set (cs @ ds) = {}"
    using assms(2) unfolding raw_stored_def Let_def by (elim exE conjE) (rule that, assumption+)
  have sf: "same_volume gs ?f"
  proof -
    have fm: "fsi_sector (obj m) = 0" using assms(1) by (simp add: fresh_card_def)
    have "geometry b (image (disk (obj m)) b) (f\<lparr>fs_id := Fsid m + 1\<rparr>)" using assms(3) unfolding geometry_def by simp
    then have "same_volume ?v (f\<lparr>fs_id := Fsid m + 1\<rparr>)" by (rule geometry_view) (simp_all add: assms(6) fm)
    then show ?thesis using sv(1) unfolding same_volume_def by auto
  qed
  have vf: "vol image ?f = vol image gs" "vol image f = image (disk gs)"
    using assms(4,5) sv(2) by (auto simp: vol_def fun_eq_iff)
  note sm = same_view [OF sf vf(1), unfolded fs_id_upd]
  have same: "fat_entry image f = fat_entry image gs" "dir_ok nx f = dir_ok nx gs" "slot_sector f = slot_sector gs"
    "name_at u f sc ds' fn' k' = name_at u gs sc ds' fn' k'" for nx u sc ds' fn' k'
    by (simp_all only: sm)
  have rc: "root_clust f = root_clust ?v"
    using assms(3) card_view_geometry [of b image m] by (simp add: root_clust_def geometry_def)
  have g: "max_clust f = max_clust ?v" "csize f = csize ?v" "chain_sectors f = chain_sectors ?v"
  proof -
    have e: "max_clust f = max_clust ?v" "csize f = csize ?v" "database f = database ?v"
      using assms(3) card_view_geometry [of b image m] by (simp_all add: geometry_def)
    then show "max_clust f = max_clust ?v" "csize f = csize ?v" by simp_all
    show "chain_sectors f = chain_sectors ?v" by (intro ext chain_sectors_cong e)
  qed
  have len: "0x21000000 \<le> 512 * (length fc * unat (csize f))"
  proof -
    have "length (file_data (image (disk gs)) ?v fc (0x21000000 div 512)) = 0x21000000" unfolding r(6) by simp
    then show ?thesis by (simp add: file_data_def length_blocks assms(7) g)
  qed
  have "take 0x21000000 (file_bytes (vol image f) f fc) = file_data (image (disk gs)) ?v fc (0x21000000 div 512)"
    using file_data_bytes [of "image (disk gs)" "0x21000000 div 512" f fc] assms(7) len unfolding vf(2)
    by (simp add: file_data_def g(3) del: length_chain_sectors) (simp add: g(2))
  then have bytes: "take 0x21000000 (file_bytes (vol image f) f fc) = pages_image flash bank 0 0x40000" unfolding r(6) .
  have "file_at image f (root_clust f) (cs @ ds) (raw_name bank) 0x21000000 fc"
    unfolding file_at_def rc Let_def vf(2) same g(1) using r(2-5,7) len by (auto simp: g(1))
  moreover have "dir_ok (fat_entry image f) f (root_clust f) (cs @ ds)" unfolding same rc using r(1) .
  ultimately show ?thesis using bytes by blast
qed

text \<open>The first access with \<^verbatim>\<open>FA_READ\<close> mounts the volume, too.\<close>

lemma f_open_read_mounts:
  assumes "FatFs m" "fs_type (obj m) = 0" "fst (drive_of path) = 0" "mount_volume dev False m = Some (r, m1)"
  shows "r \<noteq> FR_OK \<Longrightarrow> f_open dev dj0 fp path FA_READ m = Some (r, fp\<lparr>f_fs := False\<rparr>, m1)"
    "mounted dev m1 \<Longrightarrow> r = FR_OK \<Longrightarrow> f_open dev dj0 fp path FA_READ m = f_open dev dj0 fp path FA_READ m1"
proof -
  obtain p where p: "drive_of path = (0, p)" using assms(3) by (cases "drive_of path") simp
  have a: "auto_mount dev path False m = Some (r, p, m1)" using assms(1,2,4) p by (simp add: auto_mount_def)
  show "r \<noteq> FR_OK \<Longrightarrow> f_open dev dj0 fp path FA_READ m = Some (r, fp\<lparr>f_fs := False\<rparr>, m1)"
    using a by (simp add: f_open_def Let_def)
  assume m1: "mounted dev m1" "r = FR_OK"
  have "auto_mount dev path False m1 = Some (FR_OK, p, m1)" using m1 p by (simp add: auto_mount_def mounted_def)
  then show "f_open dev dj0 fp path FA_READ m = f_open dev dj0 fp path FA_READ m1"
    using a m1(2) by (simp add: f_open_def Let_def)
qed

text \<open>
  The file of a bank opened and read on a card: the size is that of the bank, and what is read is the head of
  the dump. Opening may fail, but not for want of a volume or of the file.
\<close>

definition reads_back :: "env \<Rightarrow> torn \<Rightarrow> u32 \<Rightarrow> u8 list \<Rightarrow> u8 list \<Rightarrow> u32 \<Rightarrow> DIR \<Rightarrow> u8 list \<Rightarrow> 'a disk_st_scheme ff \<Rightarrow> bool" where
  "reads_back ev torn ba path dump btr dj buff m \<longleftrightarrow>
     (\<exists>r fp m1. f_open (sd_device ev torn ba) dj zero_FIL path FA_READ m = Some (r, fp, m1)
        \<and> r \<in> {FR_OK, FR_NOT_READY, FR_WRITE_PROTECTED, FR_DISK_ERR}
        \<and> (r = FR_OK \<longrightarrow> unat (fsize fp) = length dump \<and>
            (\<exists>q n b fp' gs. f_read (sd_device ev torn ba) fp buff btr (obj m1) = Some (q, n, b, fp', gs)
               \<and> (q = FR_OK \<longrightarrow> n = min btr (fsize fp) \<and> take (unat n) b = take (unat n) dump))))"

lemma stored_reads_back:
  fixes m m2 :: "'a disk_st_scheme ff"
  assumes "fresh_card m b cs fn os" "raw_stored flash bank (card_view image b m) cs os gs" "bank_name bank = Some name"
    and "card_in m2" "disk_ok ev ba (disk (obj m2))" "image (disk (obj m2)) = image (disk gs)"
    and "length (dj_fn dj) = 12" "unat btr \<le> length buff"
  shows "reads_back ev torn ba (raw_path name) (pages_image flash bank 0 0x40000) btr dj buff m2"
proof -
  let ?dev = "sd_device ev torn ba" and ?w = "image (disk (obj m)) b" and ?path = "raw_path name"
  note ci = assms(4) [unfolded card_in_def]
  have bpb: "bpb_ok b ?w" using assms(1) by (simp add: fresh_card_def)
  note bk = boot_kept [OF assms(1,2), folded assms(6)]
  have vb: "bpb_ok b' (image (disk (obj m2)) b')" if "volume_at (image (disk (obj m2))) = Some b'" for b'
    using that bk bpb by simp
  have on: "open_name dj ?path = Some (raw_name bank)" by (rule open_name_raw [OF assms(7,3)])
  then have drive: "fst (drive_of ?path) = 0" by (auto simp: open_name_def Let_def split: prod.splits if_splits)
  obtain r m3 where m3: "mount_volume ?dev False m2 = Some (r, m3)" "FatFs m3 = FatFs m2"
    "r \<in> {FR_OK, FR_NOT_READY, FR_WRITE_PROTECTED, FR_DISK_ERR, FR_NO_FILESYSTEM}"
    "image (disk (obj m3)) = image (disk (obj m2))" "r = FR_NO_FILESYSTEM \<longrightarrow> volume_at (image (disk (obj m2))) = None"
    "r = FR_OK \<longrightarrow> (\<exists>b. volume_at (image (disk (obj m2))) = Some b \<and> geometry b (image (disk (obj m2)) b) (obj m3)
        \<and> fs_inv image (disk_ok ev ba) (obj m3) \<and> winsect (obj m3) = 0
        \<and> fsi_sector (obj m3) = (if fs_type (obj m3) = FS_FAT32 then b + ucast (LD_WORD (image (disk (obj m2)) b) BPB_FSInfo) else 0))"
    using sd.mount_volume_ok [OF assms(5) _ _ vb, where torn = torn and chk = False] ci by blast
  have mm: "FatFs m2" "fs_type (obj m2) = 0" using ci by blast+
  note mnts = f_open_read_mounts [OF mm drive m3(1), where fp = zero_FIL and ?dj0.0 = dj]
  show ?thesis
  proof (cases "r = FR_OK")
    case False
    then have "r \<in> {FR_NOT_READY, FR_WRITE_PROTECTED, FR_DISK_ERR}" using m3(3,5) bk(1) by auto
    then show ?thesis using mnts(1) [OF False] False by (auto simp: reads_back_def)
  next
    case True
    let ?f = "obj m3"
    have f: "geometry b ?w ?f" "fs_inv image (disk_ok ev ba) ?f" "winsect ?f = 0"
      "fsi_sector ?f = (if fs_type ?f = FS_FAT32 then b + ucast (LD_WORD ?w BPB_FSInfo) else 0)"
      using m3(6) True bk by auto
    note gk = geometry_ok [OF bpb f(1)]
    have len: "length (image (disk gs) x) = 512" for x
      using sd.sector_size [OF assms(5), of x] assms(6) by simp
    obtain ds fc where df: "dir_ok (fat_entry image ?f) ?f (root_clust ?f) (cs @ ds)"
      "file_at image ?f (root_clust ?f) (cs @ ds) (raw_name bank) 0x21000000 fc"
      "take 0x21000000 (file_bytes (vol image ?f) ?f fc) = pages_image flash bank 0 0x40000"
      using stored_found [OF assms(1,2) f(1,3) _ f(4) len] m3(4) assms(6) by auto
    have mnt: "mounted ?dev m3"
      using m3(2) mm(1) gk(1) by (auto simp: mounted_def sd_device_def disk_status_def table_ok_def split: if_splits)
    obtain q fp m4 where o: "f_open ?dev dj zero_FIL ?path FA_READ m3 = Some (q, fp, m4)" "q \<in> {FR_OK, FR_DISK_ERR}"
      "q = FR_OK \<longrightarrow> reading image (disk_ok ev ba) (obj m4) fp fc \<and> fsize fp = 0x21000000 \<and> fptr fp = 0
        \<and> file_bytes (vol image (obj m4)) (obj m4) fc = file_bytes (vol image ?f) ?f fc"
      using sd.f_open_read [OF mnt f(2) gk(1,2) df(1) on _ df(2), of zero_FIL] assms(7) by auto
    have run: "f_open ?dev dj zero_FIL ?path FA_READ m2 = Some (q, fp, m4)" using mnts(2) [OF mnt True] o(1) by simp
    show ?thesis
    proof (cases "q = FR_OK")
      case False
      then show ?thesis unfolding reads_back_def run using o(2) by auto
    next
      case ok: True
      then have rd: "reading image (disk_ok ev ba) (obj m4) fp fc" "fsize fp = 0x21000000" "fptr fp = 0"
        "file_bytes (vol image (obj m4)) (obj m4) fc = file_bytes (vol image ?f) ?f fc" using o(3) by blast+
      obtain e n c fp' hs where h: "f_read ?dev fp buff btr (obj m4) = Some (e, n, c, fp', hs)"
        "e = FR_OK \<longrightarrow> n = min btr (fsize fp - fptr fp)
          \<and> take (unat n) c = take (unat n) (drop (unat (fptr fp)) (file_bytes (vol image (obj m4)) (obj m4) fc))"
        using sd.f_read_ok [OF rd(1) assms(8), of torn] by blast
      have "take (unat n) c = take (unat n) (pages_image flash bank 0 0x40000)" if "e = FR_OK"
      proof -
        have "n = min btr 0x21000000" using h(2) that rd(2,3) by simp
        then have "unat n \<le> unat (0x21000000 :: u32)" unfolding word_le_nat_alt [symmetric] by simp
        then have n: "unat n \<le> 0x21000000" by simp
        have "take (unat n) c = take (unat n) (file_bytes (vol image ?f) ?f fc)"
          using h(2) that unfolding rd(3,4) unat_0 drop_0 by blast
        also have "\<dots> = take (unat n) (take 0x21000000 (file_bytes (vol image ?f) ?f fc))" using n by (simp add: min_absorb1)
        finally show ?thesis unfolding df(3) .
      qed
      then show ?thesis unfolding reads_back_def run using h rd(2,3) ok by auto
    qed
  qed
qed

section \<open>There and back\<close>

text \<open>
  C2: the dump of a bank, made as in the property before it, can be read back: when \<^verbatim>\<open>_dump_slc_raw\<close> has returned 0, the
  card is put into a drive again and the file of the bank is opened for reading on it, then the volume and the file are
  found, the file has the size of the bank, and \<^verbatim>\<open>f_read\<close> fills a buffer of any length with the head of the dump,
  page for page as \<^verbatim>\<open>nand_correct\<close> left it, or reports an error of the drive.
\<close>

theorem dump_reads_back:
  fixes m :: "'a disk_st_scheme ff"
  assumes "nand_responds ev pb eb" "\<not> irqs_masked (disk (obj m))" "disk_ok ev ba (disk (obj m))"
    and "fresh_card m b cs (raw_name bank) os" "length (dj_fn dj0) = 12" "bank_name bank = Some name"
  shows "\<exists>r m'. dump_slc_raw ev torn ba flash pb eb dj0 bank m = Some (r, m') \<and> r \<in> {0, -3, -4, -5}
    \<and> (r = 0 \<longrightarrow> (\<forall>(m2 :: 'a disk_st_scheme ff) dj buff btr. card_in m2 \<longrightarrow> disk_ok ev ba (disk (obj m2))
          \<longrightarrow> image (disk (obj m2)) = image (disk (obj m')) \<longrightarrow> length (dj_fn dj) = 12 \<longrightarrow> unat btr \<le> length buff
          \<longrightarrow> reads_back ev torn ba (raw_path name) (pages_image flash bank 0 0x40000) btr dj buff m2))"
proof -
  have "bank = NAND_BANK_SLC \<or> bank = NAND_BANK_SLCCMPT" using assms(6) by (auto simp: bank_name_def split: if_splits)
  from dump_fresh_ok [OF assms(1-5) this, where torn = torn and flash = flash] obtain r m'
    where run: "dump_slc_raw ev torn ba flash pb eb dj0 bank m = Some (r, m')" "r \<in> {0, -3, -4, -5}"
      "r = 0 \<longrightarrow> raw_stored flash bank (card_view image b m) cs os (obj m')" by blast
  then show ?thesis using stored_reads_back [OF assms(4) _ assms(6), where ev = ev and ba = ba and torn = torn]
    by (intro exI conjI impI allI) (assumption+, blast)
qed

theorem dump_reads_back_witness:
  "\<exists>r m'. dump_slc_raw dump_env (\<lambda>_. []) 0x10000000 (\<lambda>_ _. ([], [])) 0x10200000 0x10300000 blank_dir NAND_BANK_SLC fresh_ff
      = Some (r, m') \<and> r \<in> {0, -3, -4, -5}
    \<and> (r = 0 \<longrightarrow> disk_ok dump_env 0x10000000 (disk (obj m')) \<longrightarrow>
        reads_back dump_env (\<lambda>_. []) 0x10000000 (raw_path ''SLC'') (pages_image (\<lambda>_ _. ([], [])) NAND_BANK_SLC 0 0x40000) 4096
          blank_dir (replicate 4096 0) (fresh_ff\<lparr>obj := (obj fresh_ff)\<lparr>disk := disk (obj m')\<rparr>\<rparr>))"
proof -
  have irq: "\<not> irqs_masked (disk (obj fresh_ff))" by (simp add: fresh_ff_def disk_reset_st_def irqs_masked_def)
  have len: "length (dj_fn blank_dir) = 12" "unat (4096 :: u32) \<le> length (replicate 4096 (0 :: u8))" by (simp_all add: blank_dir_def)
  have name: "bank_name NAND_BANK_SLC = Some ''SLC''" by (simp add: bank_name_def)
  obtain r m' where run: "dump_slc_raw dump_env (\<lambda>_. []) 0x10000000 (\<lambda>_ _. ([], [])) 0x10200000 0x10300000 blank_dir NAND_BANK_SLC fresh_ff
      = Some (r, m')" "r \<in> {0, -3, -4, -5}"
    "r = 0 \<longrightarrow> (\<forall>(m2 :: disk_st ff) dj buff btr. card_in m2 \<longrightarrow> disk_ok dump_env 0x10000000 (disk (obj m2))
          \<longrightarrow> image (disk (obj m2)) = image (disk (obj m')) \<longrightarrow> length (dj_fn dj) = 12 \<longrightarrow> unat btr \<le> length buff
          \<longrightarrow> reads_back dump_env (\<lambda>_. []) 0x10000000 (raw_path ''SLC'') (pages_image (\<lambda>_ _. ([], [])) NAND_BANK_SLC 0 0x40000) btr dj buff m2)"
    using dump_reads_back [OF dump_env_responds irq dump_env_disk_ok [OF fresh_ff_disk] fresh_ff_card len(1) name,
      where torn = "\<lambda>_. []" and flash = "\<lambda>_ _. ([], [])"] by blast
  let ?m = "fresh_ff\<lparr>obj := (obj fresh_ff)\<lparr>disk := disk (obj m')\<rparr>\<rparr>"
  have "card_in ?m" "disk (obj ?m) = disk (obj m')" by (simp_all add: card_in_def fresh_ff_def small_fs_def)
  then show ?thesis using run len by auto
qed

end
