(* ===== verification/FatExt.thy ===== *)
theory FatExt
  imports FatFile
begin

text \<open>
  \<^verbatim>\<open>armboot/storage/ff.c\<close>, fifth part: the operations the repository carries but its configuration leaves
  out (\<^verbatim>\<open>_FS_MINIMIZE\<close> is 2, \<^verbatim>\<open>_USE_FORWARD\<close> is 0 in \<^verbatim>\<open>ff.h\<close>), as they are with \<^verbatim>\<open>_FS_MINIMIZE\<close> 0 and
  \<^verbatim>\<open>_USE_FORWARD\<close> 1 and the rest of the configuration unchanged: removing, listing, truncating, counting,
  making directories, changing attributes and times, renaming and forwarding. The directory object, its
  name buffer included, is uninitialised stack memory, the argument \<open>dj0\<close>.
\<close>

abbreviation (input) "DIR_WrtDate \<equiv> 24 :: nat"
abbreviation (input) "AM_HID \<equiv> 0x02 :: u8"
abbreviation (input) "AM_SYS \<equiv> 0x04 :: u8"

section \<open>Removing an entry\<close>

definition dir_remove :: "'d device \<Rightarrow> DIR \<Rightarrow> 'd fatfs \<Rightarrow> (FRESULT \<times> DIR \<times> 'd fatfs) option" where
  "dir_remove dev dj fs = do {
     (res, dj, fs) \<leftarrow> dir_seek dev dj (dj_index dj) fs;
     if res \<noteq> FR_OK then Some (res, dj, fs)
     else do {
       (res, fs) \<leftarrow> move_window dev (dj_sect dj) fs;
       if res \<noteq> FR_OK then Some (res, dj, fs)
       else do {
         d \<leftarrow> dj_dir dj;
         Some (FR_OK, dj, (win_upd (\<lambda>w. w[d := 0xE5]) fs)\<lparr>wflag := 1\<rparr>) } } }"

section \<open>Listing\<close>

text \<open>The file status; the name is the string before its terminator.\<close>

record FILINFO =
  fi_size :: u32
  fi_date :: u16
  fi_time :: u16
  fi_attrib :: u8
  fi_name :: "u8 list"

text \<open>One part of a name up to its first blank: lower case if the flag says so, 0x05 for 0xE5 in the body.\<close>

fun info_chars :: "bool \<Rightarrow> bool \<Rightarrow> u8 list \<Rightarrow> u8 list" where
  "info_chars body low [] = []"
| "info_chars body low (c # cs) =
    (if c = 0x20 then []
     else (let c = (if body \<and> c = 0x05 then 0xE5 else c) in
       (if low \<and> IsUpper c then c + 0x20 else c) # info_chars body low cs))"

definition info_name :: "u8 list \<Rightarrow> nat \<Rightarrow> u8 list" where
  "info_name w d = (let nt = w ! (d + DIR_NTres) in
     info_chars True (nt AND 0x08 \<noteq> 0) (take 8 (drop d w))
     @ (if w ! (d + 8) \<noteq> 0x20 then 0x2E # info_chars False (nt AND 0x10 \<noteq> 0) (take 3 (drop (d + 8) w)) else []))"

definition get_fileinfo :: "DIR \<Rightarrow> 'd fatfs \<Rightarrow> FILINFO \<Rightarrow> FILINFO option" where
  "get_fileinfo dj fs fno =
    (if dj_sect dj = 0 then Some (fno\<lparr>fi_name := []\<rparr>)
     else do {
       d \<leftarrow> dj_dir dj;
       let w = win fs;
       Some (fno\<lparr>fi_name := info_name w d, fi_attrib := w ! (d + DIR_Attr), fi_size := LD_DWORD w (d + DIR_FileSize),
         fi_date := LD_WORD w (d + DIR_WrtDate), fi_time := LD_WORD w (d + DIR_WrtTime)\<rparr>) })"

text \<open>An open directory: the directory object with the pointer to the volume and the mount number.\<close>

record OPENDIR =
  od_fs :: bool
  od_id :: u16
  od_dir :: DIR

definition validate_dir :: "'d device \<Rightarrow> OPENDIR \<Rightarrow> 'd fatfs \<Rightarrow> FRESULT" where
  "validate_dir dev od fs =
    (if \<not> od_fs od \<or> fs_type fs = 0 \<or> fs_id fs \<noteq> od_id od then FR_INVALID_OBJECT
     else if d_status dev (disk fs) AND STA_NOINIT \<noteq> 0 then FR_NOT_READY else FR_OK)"

definition f_opendir :: "'d device \<Rightarrow> OPENDIR \<Rightarrow> u8 list \<Rightarrow> 'd ff \<Rightarrow> (FRESULT \<times> OPENDIR \<times> 'd ff) option" where
  "f_opendir dev od path m = do {
     let od = od\<lparr>od_fs := (if fst (drive_of path) \<ge> 1 then od_fs od else FatFs m)\<rparr>;
     (res, path, m) \<leftarrow> auto_mount dev path False m;
     if res \<noteq> FR_OK then Some (res, od, m)
     else do {
       (res, dj, fs) \<leftarrow> follow_path dev (od_dir od) path (obj m);
       if res \<noteq> FR_OK
       then Some (if res = FR_NO_FILE then FR_NO_PATH else res, od\<lparr>od_dir := dj\<rparr>, m\<lparr>obj := fs\<rparr>)
       else do {
         let (res, dj) = (case dj_dir dj of
             Some d \<Rightarrow> if win fs ! (d + DIR_Attr) AND AM_DIR \<noteq> 0
               then (FR_OK, dj\<lparr>sclust := start_cluster (win fs) d\<rparr>) else (FR_NO_PATH, dj)
           | None \<Rightarrow> (FR_OK, dj\<lparr>sclust := (if fs_type fs = FS_FAT32 then dirbase fs else 0)\<rparr>));
         (res, dj, fs) \<leftarrow> (if res = FR_OK then dir_seek dev dj 0 fs else Some (res, dj, fs));
         Some (res, od\<lparr>od_dir := dj, od_id := fs_id fs\<rparr>, m\<lparr>obj := fs\<rparr>) } } }"

text \<open>Without a place for the result the listing is rewound. The end of the table is an empty name.\<close>

definition f_readdir ::
  "'d device \<Rightarrow> OPENDIR \<Rightarrow> FILINFO option \<Rightarrow> 'd fatfs \<Rightarrow> (FRESULT \<times> OPENDIR \<times> FILINFO option \<times> 'd fatfs) option" where
  "f_readdir dev od fno fs =
    (let res = validate_dir dev od fs in
     if res \<noteq> FR_OK then Some (res, od, fno, fs)
     else case fno of
       None \<Rightarrow> do {
         (res, dj, fs) \<leftarrow> dir_seek dev (od_dir od) 0 fs;
         Some (res, od\<lparr>od_dir := dj\<rparr>, None, fs) }
     | Some fi \<Rightarrow> do {
         (res, dj, fs) \<leftarrow> dir_read dev (od_dir od) fs;
         let (res, dj) = (if res = FR_NO_FILE then (FR_OK, dj\<lparr>dj_sect := 0\<rparr>) else (res, dj));
         if res \<noteq> FR_OK then Some (res, od\<lparr>od_dir := dj\<rparr>, fno, fs)
         else do {
           fi \<leftarrow> get_fileinfo dj fs fi;
           (res, dj, fs) \<leftarrow> dir_next dev dj False fs;
           let (res, dj) = (if res = FR_NO_FILE then (FR_OK, dj\<lparr>dj_sect := 0\<rparr>) else (res, dj));
           Some (res, od\<lparr>od_dir := dj\<rparr>, Some fi, fs) } })"

definition f_stat :: "'d device \<Rightarrow> DIR \<Rightarrow> u8 list \<Rightarrow> FILINFO \<Rightarrow> 'd ff \<Rightarrow> (FRESULT \<times> FILINFO \<times> 'd ff) option" where
  "f_stat dev dj0 path fno m = do {
     (res, path, m) \<leftarrow> auto_mount dev path False m;
     if res \<noteq> FR_OK then Some (res, fno, m)
     else do {
       (res, dj, fs) \<leftarrow> follow_path dev dj0 path (obj m);
       let m = m\<lparr>obj := fs\<rparr>;
       if res \<noteq> FR_OK then Some (res, fno, m)
       else (case dj_dir dj of
           Some d \<Rightarrow> do { fno \<leftarrow> get_fileinfo dj fs fno; Some (FR_OK, fno, m) }
         | None \<Rightarrow> Some (FR_INVALID_NAME, fno, m)) } }"

section \<open>Truncating and counting\<close>

text \<open>The clusters behind the one the file pointer is in.\<close>

definition cut_chain :: "'d device \<Rightarrow> u32 \<Rightarrow> 'd fatfs \<Rightarrow> (FRESULT \<times> 'd fatfs) option" where
  "cut_chain dev cur fs = do {
     (ncl, fs) \<leftarrow> get_cluster dev cur fs;
     let res = (if ncl = 0xFFFFFFFF then FR_DISK_ERR else if ncl = 1 then FR_INT_ERR else FR_OK);
     if res = FR_OK \<and> ncl < max_clust fs then do {
       (res, fs) \<leftarrow> put_cluster dev cur 0x0FFFFFFF fs;
       if res = FR_OK then remove_chain dev ncl fs else Some (res, fs) }
     else Some (res, fs) }"

definition f_truncate :: "'d device \<Rightarrow> FIL \<Rightarrow> 'd fatfs \<Rightarrow> (FRESULT \<times> FIL \<times> 'd fatfs) option" where
  "f_truncate dev fp fs =
    (let res = validate dev fp fs in
     if res \<noteq> FR_OK then Some (res, fp, fs)
     else if flag fp AND FA__ERROR \<noteq> 0 then Some (FR_INT_ERR, fp, fs)
     else if flag fp AND FA_WRITE = 0 then Some (FR_DENIED, fp, fs)
     else do {
       (res, fp, fs) \<leftarrow>
         (if fsize fp > fptr fp then do {
            let fp = fp\<lparr>fsize := fptr fp, flag := flag fp OR FA__WRITTEN\<rparr>;
            if fptr fp = 0 then do {
              (res, fs) \<leftarrow> remove_chain dev (org_clust fp) fs;
              Some (res, fp\<lparr>org_clust := 0\<rparr>, fs) }
            else do {
              (res, fs) \<leftarrow> cut_chain dev (curr_clust fp) fs;
              Some (res, fp, fs) } }
          else Some (res, fp, fs));
       Some (res, if res \<noteq> FR_OK then fp\<lparr>flag := flag fp OR FA__ERROR\<rparr> else fp, fs) })"

text \<open>The two loops of \<^verbatim>\<open>f_getfree\<close>: over the clusters of a FAT12 volume, over the bytes of a larger table.\<close>

partial_function (option) count12_loop :: "'d device \<Rightarrow> u32 \<Rightarrow> u32 \<Rightarrow> 'd fatfs \<Rightarrow> (u32 \<times> 'd fatfs) option" where
  "count12_loop dev clst n fs = do {
     (v, fs) \<leftarrow> get_cluster dev clst fs;
     let n = (if (ucast v :: u16) = 0 then n + 1 else n);
     if clst + 1 < max_clust fs then count12_loop dev (clst + 1) n fs else Some (n, fs) }"

partial_function (option) count_loop ::
  "'d device \<Rightarrow> u8 \<Rightarrow> u32 \<Rightarrow> u32 \<Rightarrow> u8 \<Rightarrow> nat \<Rightarrow> u32 \<Rightarrow> 'd fatfs \<Rightarrow> (FRESULT \<times> u32 \<times> 'd fatfs) option" where
  "count_loop dev fat clst sect f p n fs = do {
     (res, sect, p, fs) \<leftarrow>
       (if f = 0 then do {
          (res, fs) \<leftarrow> move_window dev sect fs;
          Some (res, sect + 1, 0, fs) }
        else Some (FR_OK, sect, p, fs));
     if res \<noteq> FR_OK then Some (res, n, fs)
     else do {
       let (n, p, f) =
         (if fat = FS_FAT16 then (if LD_WORD (win fs) p = 0 then n + 1 else n, p + 2, f + 1)
          else (if LD_DWORD (win fs) p = 0 then n + 1 else n, p + 4, f + 2));
       if clst - 1 \<noteq> 0 then count_loop dev fat (clst - 1) sect f p n fs else Some (FR_OK, n, fs) } }"

text \<open>The number is valid only with \<open>FR_OK\<close>.\<close>

definition f_getfree :: "'d device \<Rightarrow> u8 list \<Rightarrow> 'd ff \<Rightarrow> (FRESULT \<times> u32 \<times> 'd ff) option" where
  "f_getfree dev path m = do {
     (res, path, m) \<leftarrow> auto_mount dev path False m;
     if res \<noteq> FR_OK then Some (res, 0, m)
     else do {
       let fs = obj m;
       if free_clust fs \<le> max_clust fs - 2 then Some (FR_OK, free_clust fs, m)
       else do {
         let fat = fs_type fs;
         (res, n, fs) \<leftarrow>
           (if fat = FS_FAT12 then do { (n, fs) \<leftarrow> count12_loop dev 2 0 fs; Some (FR_OK, n, fs) }
            else count_loop dev fat (max_clust fs) (fatbase fs) 0 0 0 fs);
         if res \<noteq> FR_OK then Some (res, 0, m\<lparr>obj := fs\<rparr>)
         else do {
           let fs = fs\<lparr>free_clust := n\<rparr>;
           let fs = (if fat = FS_FAT32 then fs\<lparr>fsi_flag := 1\<rparr> else fs);
           Some (FR_OK, n, m\<lparr>obj := fs\<rparr>) } } } }"

section \<open>Deleting and making\<close>

text \<open>A directory may be deleted only if it has no valid entry.\<close>

definition check_empty :: "'d device \<Rightarrow> DIR \<Rightarrow> u32 \<Rightarrow> 'd fatfs \<Rightarrow> (FRESULT \<times> 'd fatfs) option" where
  "check_empty dev dj dclst fs =
    (if dclst < 2 then Some (FR_INT_ERR, fs)
     else do {
       (res, sdj, fs) \<leftarrow> dir_seek dev (dj\<lparr>sclust := dclst\<rparr>) 0 fs;
       if res \<noteq> FR_OK then Some (res, fs)
       else do {
         (res, sdj, fs) \<leftarrow> dir_read dev sdj fs;
         let res = (if res = FR_OK then FR_DENIED else res);
         Some (if res \<noteq> FR_NO_FILE then res else FR_OK, fs) } })"

definition unlink_entry :: "'d device \<Rightarrow> DIR \<Rightarrow> 'd fatfs \<Rightarrow> (FRESULT \<times> 'd fatfs) option" where
  "unlink_entry dev dj fs =
    (case dj_dir dj of
       None \<Rightarrow> Some (FR_INVALID_NAME, fs)
     | Some d \<Rightarrow>
        if win fs ! (d + DIR_Attr) AND AM_RDO \<noteq> 0 then Some (FR_DENIED, fs)
        else do {
          let dclst = start_cluster (win fs) d;
          (res, fs) \<leftarrow> (if win fs ! (d + DIR_Attr) AND AM_DIR \<noteq> 0 then check_empty dev dj dclst fs else Some (FR_OK, fs));
          if res \<noteq> FR_OK then Some (res, fs)
          else do {
            (res, dj, fs) \<leftarrow> dir_remove dev dj fs;
            if res \<noteq> FR_OK then Some (res, fs)
            else do {
              (res, fs) \<leftarrow> (if dclst \<noteq> 0 then remove_chain dev dclst fs else Some (FR_OK, fs));
              if res = FR_OK then sync dev fs else Some (res, fs) } } })"

definition f_unlink :: "'d device \<Rightarrow> DIR \<Rightarrow> u8 list \<Rightarrow> 'd ff \<Rightarrow> (FRESULT \<times> 'd ff) option" where
  "f_unlink dev dj0 path m = do {
     (res, path, m) \<leftarrow> auto_mount dev path True m;
     if res \<noteq> FR_OK then Some (res, m)
     else do {
       (res, dj, fs) \<leftarrow> follow_path dev dj0 path (obj m);
       (res, fs) \<leftarrow> (if res = FR_OK then unlink_entry dev dj fs else Some (res, fs));
       Some (res, m\<lparr>obj := fs\<rparr>) } }"

text \<open>The two first entries of a new directory, in an otherwise cleared window.\<close>

definition dot_entries :: "u32 \<Rightarrow> u32 \<Rightarrow> u8 list \<Rightarrow> u8 list" where
  "dot_entries dclst pclst w =
    (let w = (mem_set 0 0x20 11 (mem_set 0 0 512 w))[0 := 0x2E, DIR_Attr := AM_DIR];
         w = ST_DWORD DIR_WrtTime 0 w;
         w = ST_WORD DIR_FstClusHI (ucast (drop_bit 16 dclst)) (ST_WORD DIR_FstClusLO (ucast dclst) w);
         w = (mem_cpy 32 w 0 32 w)[33 := 0x2E]
     in ST_WORD (32 + DIR_FstClusHI) (ucast (drop_bit 16 pclst)) (ST_WORD (32 + DIR_FstClusLO) (ucast pclst) w))"

text \<open>The sectors of the new table: the window is written and cleared.\<close>

fun mkdir_loop :: "'d device \<Rightarrow> nat \<Rightarrow> u32 \<Rightarrow> 'd fatfs \<Rightarrow> (FRESULT \<times> 'd fatfs) option" where
  "mkdir_loop dev 0 sec fs = Some (FR_OK, fs)"
| "mkdir_loop dev (Suc n) sec fs = do {
     (res, fs) \<leftarrow> move_window dev 0 (fs\<lparr>winsect := sec, wflag := 1\<rparr>);
     if res \<noteq> FR_OK then Some (res, fs)
     else mkdir_loop dev n (sec + 1) (win_upd (mem_set 0 0 512) fs) }"

definition mkdir_entry :: "nat \<Rightarrow> u32 \<Rightarrow> u8 list \<Rightarrow> u8 list" where
  "mkdir_entry d dclst w = ST_WORD (d + DIR_FstClusHI) (ucast (drop_bit 16 dclst))
     (ST_WORD (d + DIR_FstClusLO) (ucast dclst) (ST_DWORD (d + DIR_WrtTime) 0 (w[d + DIR_Attr := AM_DIR])))"

definition make_dir :: "'d device \<Rightarrow> DIR \<Rightarrow> 'd fatfs \<Rightarrow> (FRESULT \<times> 'd fatfs) option" where
  "make_dir dev dj fs = do {
     (dclst, fs) \<leftarrow> create_chain dev 0 fs;
     let res = (if dclst = 0 then FR_DENIED else if dclst = 1 then FR_INT_ERR
       else if dclst = 0xFFFFFFFF then FR_DISK_ERR else FR_OK);
     (res, fs) \<leftarrow> (if res = FR_OK then move_window dev 0 fs else Some (res, fs));
     if res \<noteq> FR_OK then Some (res, fs)
     else do {
       let sec = clust2sect dclst fs;
       let pclst = (if fs_type fs = FS_FAT32 \<and> sclust dj = dirbase fs then 0 else sclust dj);
       (res, fs) \<leftarrow> mkdir_loop dev (unat (csize fs)) sec (win_upd (dot_entries dclst pclst) fs);
       if res \<noteq> FR_OK then Some (res, fs)
       else do {
         (res, dj, fs) \<leftarrow> dir_register dev dj fs;
         if res \<noteq> FR_OK then do {
           (_, fs) \<leftarrow> remove_chain dev dclst fs;
           Some (res, fs) }
         else do {
           d \<leftarrow> dj_dir dj;
           sync dev ((win_upd (mkdir_entry d dclst) fs)\<lparr>wflag := 1\<rparr>) } } } }"

definition f_mkdir :: "'d device \<Rightarrow> DIR \<Rightarrow> u8 list \<Rightarrow> 'd ff \<Rightarrow> (FRESULT \<times> 'd ff) option" where
  "f_mkdir dev dj0 path m = do {
     (res, path, m) \<leftarrow> auto_mount dev path True m;
     if res \<noteq> FR_OK then Some (res, m)
     else do {
       (res, dj, fs) \<leftarrow> follow_path dev dj0 path (obj m);
       let res = (if res = FR_OK then FR_EXIST else res);
       if res \<noteq> FR_NO_FILE then Some (res, m\<lparr>obj := fs\<rparr>)
       else do {
         (res, fs) \<leftarrow> make_dir dev dj fs;
         Some (res, m\<lparr>obj := fs\<rparr>) } } }"

section \<open>Changing an entry\<close>

text \<open>The entry a path leads to, changed by a function of the window and written.\<close>

definition set_attr :: "u8 \<Rightarrow> u8 \<Rightarrow> nat \<Rightarrow> u8 list \<Rightarrow> u8 list" where
  "set_attr v msk d w = (let msk = msk AND (AM_RDO OR AM_HID OR AM_SYS OR AM_ARC) in
     w[d + DIR_Attr := (v AND msk) OR (w ! (d + DIR_Attr) AND NOT msk)])"

definition set_time :: "FILINFO \<Rightarrow> nat \<Rightarrow> u8 list \<Rightarrow> u8 list" where
  "set_time fno d w = ST_WORD (d + DIR_WrtDate) (fi_date fno) (ST_WORD (d + DIR_WrtTime) (fi_time fno) w)"

definition change_entry ::
  "'d device \<Rightarrow> (nat \<Rightarrow> u8 list \<Rightarrow> u8 list) \<Rightarrow> DIR \<Rightarrow> u8 list \<Rightarrow> 'd ff \<Rightarrow> (FRESULT \<times> 'd ff) option" where
  "change_entry dev g dj0 path m = do {
     (res, path, m) \<leftarrow> auto_mount dev path True m;
     if res \<noteq> FR_OK then Some (res, m)
     else do {
       (res, dj, fs) \<leftarrow> follow_path dev dj0 path (obj m);
       if res \<noteq> FR_OK then Some (res, m\<lparr>obj := fs\<rparr>)
       else (case dj_dir dj of
           None \<Rightarrow> Some (FR_INVALID_NAME, m\<lparr>obj := fs\<rparr>)
         | Some d \<Rightarrow> do {
             (res, fs) \<leftarrow> sync dev ((win_upd (g d) fs)\<lparr>wflag := 1\<rparr>);
             Some (res, m\<lparr>obj := fs\<rparr>) }) } }"

definition f_chmod :: "'d device \<Rightarrow> DIR \<Rightarrow> u8 list \<Rightarrow> u8 \<Rightarrow> u8 \<Rightarrow> 'd ff \<Rightarrow> (FRESULT \<times> 'd ff) option" where
  "f_chmod dev dj0 path v msk m = change_entry dev (set_attr v msk) dj0 path m"

definition f_utime :: "'d device \<Rightarrow> DIR \<Rightarrow> u8 list \<Rightarrow> FILINFO \<Rightarrow> 'd ff \<Rightarrow> (FRESULT \<times> 'd ff) option" where
  "f_utime dev dj0 path fno m = change_entry dev (set_time fno) dj0 path m"

section \<open>Renaming\<close>

text \<open>The saved fields of the old entry, put into the new one; the case flags stay those of the new name.\<close>

definition copy_info :: "u8 list \<Rightarrow> nat \<Rightarrow> u8 list \<Rightarrow> u8 list" where
  "copy_info buf d w = (mem_cpy (d + 13) buf 2 19 w)[d + DIR_Attr := buf ! 0]"

text \<open>The cluster the code looks for the entry of the parent in: without the shift of the upper half.\<close>

definition rename_cluster :: "u8 list \<Rightarrow> nat \<Rightarrow> u32" where
  "rename_cluster w d = ucast (LD_WORD w (d + DIR_FstClusHI)) OR ucast (LD_WORD w (d + DIR_FstClusLO))"

text \<open>The entry of the parent in a directory that has moved.\<close>

definition update_dotdot :: "'d device \<Rightarrow> DIR \<Rightarrow> nat \<Rightarrow> 'd fatfs \<Rightarrow> (FRESULT \<times> 'd fatfs) option" where
  "update_dotdot dev dj d fs = do {
     let dw = clust2sect (rename_cluster (win fs) d) fs;
     if dw = 0 then Some (FR_INT_ERR, fs)
     else do {
       (res, fs) \<leftarrow> move_window dev dw fs;
       if res = FR_OK \<and> win fs ! 33 = 0x2E then do {
         let dw = (if fs_type fs = FS_FAT32 \<and> sclust dj = dirbase fs then 0 else sclust dj);
         Some (FR_OK, (win_upd (\<lambda>w. ST_WORD (32 + DIR_FstClusHI) (ucast (drop_bit 16 dw))
           (ST_WORD (32 + DIR_FstClusLO) (ucast dw) w)) fs)\<lparr>wflag := 1\<rparr>) }
       else Some (res, fs) } }"

definition rename_entry :: "'d device \<Rightarrow> u8 list \<Rightarrow> DIR \<Rightarrow> DIR \<Rightarrow> 'd fatfs \<Rightarrow> (FRESULT \<times> 'd fatfs) option" where
  "rename_entry dev buf dj_old dj_new fs = do {
     (res, dj_new, fs) \<leftarrow> dir_register dev dj_new fs;
     if res \<noteq> FR_OK then Some (res, fs)
     else do {
       d \<leftarrow> dj_dir dj_new;
       let fs = (win_upd (copy_info buf d) fs)\<lparr>wflag := 1\<rparr>;
       (res, fs) \<leftarrow> (if win fs ! (d + DIR_Attr) AND AM_DIR \<noteq> 0 then update_dotdot dev dj_new d fs else Some (FR_OK, fs));
       if res \<noteq> FR_OK then Some (res, fs)
       else do {
         (res, _, fs) \<leftarrow> dir_remove dev dj_old fs;
         if res = FR_OK then sync dev fs else Some (res, fs) } } }"

definition f_rename :: "'d device \<Rightarrow> DIR \<Rightarrow> u8 list \<Rightarrow> u8 list \<Rightarrow> 'd ff \<Rightarrow> (FRESULT \<times> 'd ff) option" where
  "f_rename dev dj0 path_old path_new m = do {
     (res, path_old, m) \<leftarrow> auto_mount dev path_old True m;
     if res \<noteq> FR_OK then Some (res, m)
     else do {
       (res, dj_old, fs) \<leftarrow> follow_path dev dj0 path_old (obj m);
       if res \<noteq> FR_OK then Some (res, m\<lparr>obj := fs\<rparr>)
       else (case dj_dir dj_old of
           None \<Rightarrow> Some (FR_NO_FILE, m\<lparr>obj := fs\<rparr>)
         | Some d \<Rightarrow> do {
             let buf = take 21 (drop (d + DIR_Attr) (win fs));
             (res, dj_new, fs) \<leftarrow> follow_path dev dj_old path_new fs;
             let res = (if res = FR_OK then FR_EXIST else res);
             (res, fs) \<leftarrow> (if res = FR_NO_FILE then rename_entry dev buf dj_old dj_new fs else Some (res, fs));
             Some (res, m\<lparr>obj := fs\<rparr>) }) } }"

section \<open>Forwarding\<close>

text \<open>
  The stream is a function of the caller: with no bytes it tells whether it can take some, otherwise how
  many it has taken; it may keep a state of its own.
\<close>

type_synonym 's stream = "u8 list \<Rightarrow> u32 \<Rightarrow> 's \<Rightarrow> u32 \<times> 's"

definition forward_sector :: "'d device \<Rightarrow> FIL \<Rightarrow> 'd fatfs \<Rightarrow> (FRESULT \<times> FIL \<times> 'd fatfs) option" where
  "forward_sector dev fp fs = do {
     (r, fp, fs) \<leftarrow>
       (if fptr fp mod 512 = 0 then do {
          (r, fp, fs) \<leftarrow> read_cluster dev fp fs;
          Some (r, if r = FR_OK then fp\<lparr>csect := csect fp + 1\<rparr> else fp, fs) }
        else Some (FR_OK, fp, fs));
     if r \<noteq> FR_OK then Some (r, fp, fs)
     else if clust2sect (curr_clust fp) fs = 0 then Some (FR_INT_ERR, fp, fs)
     else do {
       let sect = clust2sect (curr_clust fp) fs + ucast (csect fp) - 1;
       (r, fs) \<leftarrow> move_window dev sect fs;
       Some (if r \<noteq> FR_OK then (FR_DISK_ERR, fp, fs) else (FR_OK, fp\<lparr>dsect := sect\<rparr>, fs)) } }"

partial_function (option) forward_loop ::
  "'d device \<Rightarrow> 's stream \<Rightarrow> FIL \<Rightarrow> u32 \<Rightarrow> u32 \<Rightarrow> 's \<Rightarrow> 'd fatfs \<Rightarrow> (FRESULT \<times> u32 \<times> FIL \<times> 's \<times> 'd fatfs) option" where
  "forward_loop dev func fp btr bf s fs =
    (if btr = 0 then Some (FR_OK, bf, fp, s, fs)
     else do {
       let (ready, s) = func [] 0 s;
       if ready = 0 then Some (FR_OK, bf, fp, s, fs)
       else do {
         (r, fp, fs) \<leftarrow> forward_sector dev fp fs;
         if r \<noteq> FR_OK then Some (r, bf, abort_file fp, s, fs)
         else do {
           x \<leftarrow> slice (unat (fptr fp mod 512)) (unat (partial_count fp btr)) (win fs);
           let (rcnt, s) = func x (partial_count fp btr) s;
           if rcnt = 0 then Some (FR_INT_ERR, bf, abort_file fp, s, fs)
           else forward_loop dev func (advance rcnt fp) (btr - rcnt) (bf + rcnt) s fs } } })"

definition f_forward ::
  "'d device \<Rightarrow> 's stream \<Rightarrow> FIL \<Rightarrow> u32 \<Rightarrow> 's \<Rightarrow> 'd fatfs \<Rightarrow> (FRESULT \<times> u32 \<times> FIL \<times> 's \<times> 'd fatfs) option" where
  "f_forward dev func fp btr s fs =
    (let res = validate dev fp fs in
     if res \<noteq> FR_OK then Some (res, 0, fp, s, fs)
     else if flag fp AND FA__ERROR \<noteq> 0 then Some (FR_INT_ERR, 0, fp, s, fs)
     else if flag fp AND FA_READ = 0 then Some (FR_DENIED, 0, fp, s, fs)
     else (let remain = fsize fp - fptr fp
           in forward_loop dev func fp (if btr > remain then remain else btr) 0 s fs))"

end
