(* ===== verification/FatMkfs.thy ===== *)
theory FatMkfs
  imports FatFile
begin

text \<open>
  \<^verbatim>\<open>armboot/storage/ff.c\<close>, sixth part: making a file system, which the configuration leaves out
  (\<^verbatim>\<open>_USE_MKFS\<close> is 0), as it is with \<^verbatim>\<open>_USE_MKFS\<close> 1. The driver of the repository has neither of the two
  requests it makes for the geometry; what they return, the code and the value, are the arguments
  \<open>cnt\<close> (the number of sectors) and \<open>blk\<close> (the sectors of an erase block).
\<close>

abbreviation (input) "BS_jmpBoot \<equiv> 0 :: nat"
abbreviation (input) "BPB_Media \<equiv> 21 :: nat"
abbreviation (input) "BPB_SecPerTrk \<equiv> 24 :: nat"
abbreviation (input) "BPB_NumHeads \<equiv> 26 :: nat"
abbreviation (input) "BPB_HiddSec \<equiv> 28 :: nat"
abbreviation (input) "BS_DrvNum \<equiv> 36 :: nat"
abbreviation (input) "BS_BootSig \<equiv> 38 :: nat"
abbreviation (input) "BS_VolID \<equiv> 39 :: nat"
abbreviation (input) "BS_VolLab \<equiv> 43 :: nat"
abbreviation (input) "BPB_BkBootSec \<equiv> 50 :: nat"
abbreviation (input) "BS_DrvNum32 \<equiv> 64 :: nat"
abbreviation (input) "BS_BootSig32 \<equiv> 66 :: nat"
abbreviation (input) "BS_VolID32 \<equiv> 67 :: nat"
abbreviation (input) "BS_VolLab32 \<equiv> 71 :: nat"
abbreviation (input) "MAX_SECTOR \<equiv> 131072000 :: u32"
abbreviation (input) "MIN_SECTOR \<equiv> 2000 :: u32"

section \<open>Choosing the layout\<close>

text \<open>The cluster size for a volume of a given size; the last row fits every volume.\<close>

definition size_table :: "(u32 \<times> u16) list" where
  "size_table = zip [2048000, 1024000, 512000, 256000, 128000, 64000, 32000, 16000, 8000, 4000, 0]
     [32768, 16384, 8192, 4096, 2048, 16384, 8192, 4096, 2048, 1024, 512]"

fun auto_size :: "u32 \<Rightarrow> (u32 \<times> u16) list \<Rightarrow> u16" where
  "auto_size n_part [] = 0"
| "auto_size n_part ((s, c) # tab) = (if n_part < s then auto_size n_part tab else c)"

text \<open>The test for a power of two between 512 and 32768. The variable has 16 bits: 32768 is followed by 0.\<close>

partial_function (option) alloc_loop :: "u16 \<Rightarrow> u16 \<Rightarrow> u16 option" where
  "alloc_loop allocsize s =
    (if s \<le> 32768 \<and> s \<noteq> allocsize then alloc_loop allocsize (push_bit 1 s) else Some s)"

definition mkfs_type :: "u32 \<Rightarrow> u8" where
  "mkfs_type n_clst = (let fmt = FS_FAT12;
     fmt = (if n_clst \<ge> 0xFF5 then FS_FAT16 else fmt) in
     if n_clst \<ge> 0xFFF5 then FS_FAT32 else fmt)"

definition mkfs_fat :: "u8 \<Rightarrow> u32 \<Rightarrow> u32" where
  "mkfs_fat fmt n_clst =
    (if fmt = FS_FAT12 then ((n_clst * 3 + 1) div 2 + 3 + 512 - 1) div 512
     else if fmt = FS_FAT16 then (n_clst * 2 + 4 + 512 - 1) div 512
     else (n_clst * 4 + 8 + 512 - 1) div 512)"

definition mkfs_rsv :: "u8 \<Rightarrow> u8 \<Rightarrow> u32" where
  "mkfs_rsv fmt part = (if fmt = FS_FAT12 \<or> fmt = FS_FAT16 then 1 + ucast part else 33 - ucast part)"

definition mkfs_dir :: "u8 \<Rightarrow> u32" where
  "mkfs_dir fmt = (if fmt = FS_FAT12 \<or> fmt = FS_FAT16 then 32 else 0)"

definition mkfs_align :: "u32 \<Rightarrow> u32 \<Rightarrow> u32" where
  "mkfs_align b_data n = (b_data + n - 1) AND NOT (n - 1)"

section \<open>The records\<close>

text \<open>The partition table, put into whatever the window holds.\<close>

definition mkfs_table :: "u8 \<Rightarrow> u32 \<Rightarrow> u32 \<Rightarrow> u8 list \<Rightarrow> u8 list" where
  "mkfs_table fmt b_part n_part w =
    (let n_disk = b_part + n_part;
         w = ST_DWORD MBR_Table 0x00010180 w;
         w = (if n_disk < 63 * 255 * 1024
              then (let n_disk = n_disk div 63 div 255
                    in w[MBR_Table + 7 := ucast n_disk, MBR_Table + 6 := ucast (drop_bit 2 n_disk OR 63)])
              else ST_WORD (MBR_Table + 6) 0xFFFF w);
         w = w[MBR_Table + 5 := 254,
               MBR_Table + 4 := (if fmt \<noteq> FS_FAT32 then (if n_part < 0x10000 then 0x04 else 0x06) else 0x0c)]
     in ST_WORD (MBR_Table + 64) 0xAA55 (ST_DWORD (MBR_Table + 12) n_part (ST_DWORD (MBR_Table + 8) 63 w)))"

text \<open>\<^verbatim>\<open>NO NAME    FAT\<close> and \<^verbatim>\<open>NO NAME    FAT32\<close>, padded with blanks.\<close>

definition fat_label :: "u8 list" where
  "fat_label = [0x4E, 0x4F, 0x20, 0x4E, 0x41, 0x4D, 0x45, 0x20, 0x20, 0x20, 0x20,
     0x46, 0x41, 0x54, 0x20, 0x20, 0x20, 0x20, 0x20]"

definition fat32_label :: "u8 list" where
  "fat32_label = [0x4E, 0x4F, 0x20, 0x4E, 0x41, 0x4D, 0x45, 0x20, 0x20, 0x20, 0x20,
     0x46, 0x41, 0x54, 0x33, 0x32, 0x20, 0x20, 0x20]"

definition boot_common :: "u16 \<Rightarrow> u32 \<Rightarrow> u32 \<Rightarrow> u32 \<Rightarrow> u32 \<Rightarrow> u8 list \<Rightarrow> u8 list" where
  "boot_common allocsize n_rsv n_dir n_part b_part w =
    (let w = ST_WORD BPB_BytsPerSec 512 (ST_DWORD BS_jmpBoot 0x90FEEB (mem_set 0 0 512 w));
         w = ST_WORD BPB_RsvdSecCnt (ucast n_rsv) (w[BPB_SecPerClus := ucast allocsize]);
         w = ST_WORD BPB_RootEntCnt (ucast (512 div 32 * n_dir)) (w[BPB_NumFATs := 1]);
         w = (if n_part < 0x10000 then ST_WORD BPB_TotSec16 (ucast n_part) w else ST_DWORD BPB_TotSec32 n_part w);
         w = ST_WORD BPB_NumHeads 255 (ST_WORD BPB_SecPerTrk 63 (w[BPB_Media := 0xF8]))
     in ST_DWORD BPB_HiddSec b_part w)"

definition boot_fat :: "u32 \<Rightarrow> u8 list \<Rightarrow> u8 list" where
  "boot_fat n_fat w = mem_cpy BS_VolLab fat_label 0 19
     ((ST_WORD BPB_FATSz16 (ucast n_fat) (ST_DWORD BS_VolID 0 w))[BS_DrvNum := 0x80, BS_BootSig := 0x29])"

definition boot_fat32 :: "u32 \<Rightarrow> u8 list \<Rightarrow> u8 list" where
  "boot_fat32 n_fat w = mem_cpy BS_VolLab32 fat32_label 0 19
     ((ST_WORD BPB_BkBootSec 6 (ST_WORD BPB_FSInfo 1 (ST_DWORD BPB_RootClus 2
        (ST_DWORD BPB_FATSz32 n_fat (ST_DWORD BS_VolID32 0 w)))))[BS_DrvNum32 := 0x80, BS_BootSig32 := 0x29])"

definition mkfs_boot :: "u8 \<Rightarrow> u16 \<Rightarrow> u32 \<Rightarrow> u32 \<Rightarrow> u32 \<Rightarrow> u32 \<Rightarrow> u32 \<Rightarrow> u8 list \<Rightarrow> u8 list" where
  "mkfs_boot fmt allocsize n_rsv n_fat n_dir n_part b_part w =
    (let w = boot_common allocsize n_rsv n_dir n_part b_part w
     in ST_WORD BS_55AA 0xAA55 (if fmt \<noteq> FS_FAT32 then boot_fat n_fat w else boot_fat32 n_fat w))"

text \<open>The first sector of a table, with the reserved entries.\<close>

definition mkfs_first :: "u8 \<Rightarrow> u8 list \<Rightarrow> u8 list" where
  "mkfs_first fmt w = (let w = mem_set 0 0 512 w in
     if fmt \<noteq> FS_FAT32 then ST_DWORD 0 (if fmt = FS_FAT12 then 0x00FFFFF8 else 0xFFFFFFF8) w
     else ST_DWORD 8 0x0FFFFFFF (ST_DWORD 4 0xFFFFFFFF (ST_DWORD 0 0xFFFFFFF8 w)))"

definition mkfs_info :: "u32 \<Rightarrow> u8 list \<Rightarrow> u8 list" where
  "mkfs_info n_clst w = ST_DWORD FSI_Nxt_Free 0xFFFFFFFF (ST_DWORD FSI_Free_Count (n_clst - 1)
     (ST_DWORD FSI_StrucSig 0x61417272 (ST_DWORD FSI_LeadSig 0x41615252 (ST_WORD BS_55AA 0xAA55 w))))"

section \<open>Writing\<close>

definition put_sector :: "'d device \<Rightarrow> u32 \<Rightarrow> 'd fatfs \<Rightarrow> (bool \<times> 'd fatfs) option" where
  "put_sector dev sec fs = do {
     (r, d) \<leftarrow> d_write dev (win fs) sec 1 (disk fs);
     Some (r = RES_OK, fs\<lparr>disk := d\<rparr>) }"

text \<open>The window written to consecutive sectors until one fails.\<close>

fun put_sectors :: "'d device \<Rightarrow> nat \<Rightarrow> u32 \<Rightarrow> 'd fatfs \<Rightarrow> (bool \<times> u32 \<times> 'd fatfs) option" where
  "put_sectors dev 0 sec fs = Some (True, sec, fs)"
| "put_sectors dev (Suc n) sec fs = do {
     (ok, fs) \<leftarrow> put_sector dev sec fs;
     if \<not> ok then Some (False, sec + 1, fs) else put_sectors dev n (sec + 1) fs }"

text \<open>The table and the root directory; the last loop runs 256 times for a count of 0.\<close>

definition mkfs_areas :: "'d device \<Rightarrow> u8 \<Rightarrow> u32 \<Rightarrow> u32 \<Rightarrow> u8 \<Rightarrow> 'd fatfs \<Rightarrow> (bool \<times> 'd fatfs) option" where
  "mkfs_areas dev fmt b_fat n_fat k fs = do {
     (ok, fs) \<leftarrow> put_sector dev b_fat (win_upd (mkfs_first fmt) fs);
     if \<not> ok then Some (False, fs)
     else do {
       (ok, sec, fs) \<leftarrow> put_sectors dev (unat n_fat - 1) (b_fat + 1) (win_upd (mem_set 0 0 512) fs);
       if \<not> ok then Some (False, fs)
       else do {
         (ok, _, fs) \<leftarrow> put_sectors dev (if k = 0 then 256 else unat k) sec fs;
         Some (ok, fs) } } }"

definition mkfs_write ::
  "'d device \<Rightarrow> u8 \<Rightarrow> u8 \<Rightarrow> u16 \<Rightarrow> u32 \<Rightarrow> u32 \<Rightarrow> u32 \<Rightarrow> u32 \<Rightarrow> u32 \<Rightarrow> u32 \<Rightarrow> 'd fatfs \<Rightarrow> (FRESULT \<times> 'd fatfs) option" where
  "mkfs_write dev part fmt allocsize n_rsv n_fat n_dir n_clst n_part b_part fs = do {
     (ok, fs) \<leftarrow> (if part = 0 then put_sector dev 0 (win_upd (mkfs_table fmt b_part n_part) fs) else Some (True, fs));
     if \<not> ok then Some (FR_DISK_ERR, fs)
     else do {
       (ok, fs) \<leftarrow> put_sector dev b_part (win_upd (mkfs_boot fmt allocsize n_rsv n_fat n_dir n_part b_part) fs);
       if \<not> ok then Some (FR_DISK_ERR, fs)
       else do {
         (_, fs) \<leftarrow> (if fmt = FS_FAT32 then put_sector dev (b_part + 6) fs else Some (True, fs));
         (ok, fs) \<leftarrow> mkfs_areas dev fmt (b_part + n_rsv) n_fat (if fmt = FS_FAT32 then ucast allocsize else ucast n_dir) fs;
         if \<not> ok then Some (FR_DISK_ERR, fs)
         else do {
           fs \<leftarrow> (if fmt = FS_FAT32 then do {
                let fs = win_upd (mkfs_info n_clst) fs;
                (_, fs) \<leftarrow> put_sector dev (b_part + 1) fs;
                (_, fs) \<leftarrow> put_sector dev (b_part + 7) fs;
                Some fs }
              else Some fs);
           Some (if d_ioctl dev CTRL_SYNC = RES_OK then FR_OK else FR_DISK_ERR, fs) } } } }"

text \<open>The layout is computed and checked before anything is written.\<close>

definition mkfs_layout ::
  "'d device \<Rightarrow> DRESULT \<times> u32 \<Rightarrow> u8 \<Rightarrow> u16 \<Rightarrow> u32 \<Rightarrow> u32 \<Rightarrow> 'd fatfs \<Rightarrow> (FRESULT \<times> 'd fatfs) option" where
  "mkfs_layout dev blk part allocsize n_part b_part fs =
    (let n_clst = n_part div ucast allocsize;
         fmt = mkfs_type n_clst;
         n_fat = mkfs_fat fmt n_clst;
         n_rsv = mkfs_rsv fmt part;
         n_dir = mkfs_dir fmt;
         b_data = b_part + n_rsv + n_fat + n_dir
     in if fst blk \<noteq> RES_OK then Some (FR_MKFS_ABORTED, fs)
        else
         (let n_fat = n_fat + (mkfs_align b_data (snd blk) - b_data);
              n_clst = (n_part - n_rsv - n_fat - n_dir) div ucast allocsize
          in if fmt = FS_FAT16 \<and> n_clst < 0xFF5 \<or> fmt = FS_FAT32 \<and> n_clst < 0xFFF5
             then Some (FR_MKFS_ABORTED, fs)
             else mkfs_write dev part fmt allocsize n_rsv n_fat n_dir n_clst n_part b_part fs))"

definition f_mkfs ::
  "'d device \<Rightarrow> DRESULT \<times> u32 \<Rightarrow> DRESULT \<times> u32 \<Rightarrow> u8 \<Rightarrow> u8 \<Rightarrow> u16 \<Rightarrow> 'd ff \<Rightarrow> (FRESULT \<times> 'd ff) option" where
  "f_mkfs dev cnt blk drv part allocsize m =
    (if drv \<ge> 1 then Some (FR_INVALID_DRIVE, m)
     else if part \<ge> 2 then Some (FR_MKFS_ABORTED, m)
     else if \<not> FatFs m then Some (FR_NOT_ENABLED, m)
     else
      (let fs = (obj m)\<lparr>fs_type := 0\<rparr>;
           (stat, d) = d_initialize dev (disk fs);
           fs = fs\<lparr>disk := d\<rparr>
       in if stat AND STA_NOINIT \<noteq> 0 then Some (FR_NOT_READY, m\<lparr>obj := fs\<rparr>)
          else if stat AND STA_PROTECT \<noteq> 0 then Some (FR_WRITE_PROTECTED, m\<lparr>obj := fs\<rparr>)
          else if fst cnt \<noteq> RES_OK \<or> snd cnt < MIN_SECTOR then Some (FR_MKFS_ABORTED, m\<lparr>obj := fs\<rparr>)
          else do {
            let n_part = (if snd cnt > MAX_SECTOR then MAX_SECTOR else snd cnt);
            let b_part = (if part = 0 then 63 else 0);
            let n_part = n_part - b_part;
            let allocsize = (if allocsize = 0 then auto_size n_part size_table else allocsize);
            s \<leftarrow> alloc_loop allocsize 512;
            if s \<noteq> allocsize then Some (FR_MKFS_ABORTED, m\<lparr>obj := fs\<rparr>)
            else do {
              (res, fs) \<leftarrow> mkfs_layout dev blk part (allocsize div 512) n_part b_part fs;
              Some (res, m\<lparr>obj := fs\<rparr>) } }))"

end
