(* ===== verification/Gecko.thy ===== *)
theory Gecko
  imports Timer Printf
begin

text \<open>
  The text console of \<^verbatim>\<open>armboot/video/gecko.c\<close>: instead of a USB Gecko, characters go through one
  byte of shared memory (the mailbox at \<^verbatim>\<open>0x01200000\<close>) to the PowerPC program
  \<^verbatim>\<open>nswitch/source/main.c\<close>, which shows them. The first part models the two functions of
  \<^verbatim>\<open>gecko.c\<close>; the second part models both processors as a step relation on the mailbox and shows
  that no character is lost, duplicated or reordered as long as the writer does not time out.
\<close>

section \<open>The writer (armboot/video/gecko.c)\<close>

abbreviation (input) "MAILBOX \<equiv> 0x01200000 :: u32"

record gecko_st = mach +
  gecko_enabled :: u8

definition gecko_init :: "env \<Rightarrow> 'a gecko_st_scheme \<Rightarrow> 'a gecko_st_scheme option" where
  "gecko_init ev s = do {
     let (magic, s) = read16 ev 0x01200002 s;
     (if magic = 0xDEB6
      then (let (v, s) = read8 ev 0x01200001 s;
                s = s\<lparr>gecko_enabled := v\<rparr>;
                s = write8 0x01200001 0 s
            in dc_flushrange ev MAILBOX 32 s)
      else Some s) }"

text \<open>\<^verbatim>\<open>do dc_invalidaterange(...); while (read8(0x01200000) && (read32(HW_TIMER) < timeout));\<close>\<close>

partial_function (option) gecko_wait :: "env \<Rightarrow> u32 \<Rightarrow> 'a mach_scheme \<Rightarrow> 'a mach_scheme option" where
  "gecko_wait ev timeout s = do {
     s \<leftarrow> dc_invalidaterange ev MAILBOX 32 s;
     (if fst (read8 ev MAILBOX s) \<noteq> 0
      then (if fst (read32 ev HW_TIMER (snd (read8 ev MAILBOX s))) < timeout
            then gecko_wait ev timeout (snd (read32 ev HW_TIMER (snd (read8 ev MAILBOX s))))
            else Some (snd (read32 ev HW_TIMER (snd (read8 ev MAILBOX s)))))
      else Some (snd (read8 ev MAILBOX s))) }"

definition gecko_putc :: "env \<Rightarrow> char \<Rightarrow> 'a mach_scheme \<Rightarrow> 'a mach_scheme option" where
  "gecko_putc ev ch s = do {
     let (now, s) = read32 ev HW_TIMER s;
     let timeout = now + 38000;
     s \<leftarrow> gecko_wait ev timeout s;
     let s = write8 MAILBOX (of_char ch) s;
     dc_flushrange ev MAILBOX 32 s }"

text \<open>\<^verbatim>\<open>while (*fmt)\<close> over the buffer; running past its end is \<^const>\<open>None\<close>.\<close>

fun gecko_puts :: "env \<Rightarrow> string \<Rightarrow> 'a mach_scheme \<Rightarrow> 'a mach_scheme option" where
  "gecko_puts ev [] s = None"
| "gecko_puts ev (ch # fmt) s =
     (if ch = CHR 0x00 then Some s
      else do { s \<leftarrow> gecko_putc ev ch s; gecko_puts ev fmt s })"

text \<open>\<open>buffer\<close> is the uninitialised array of 256 characters on the stack.\<close>

definition gecko_printf ::
  "env \<Rightarrow> string \<Rightarrow> string \<Rightarrow> varg list \<Rightarrow> 'a gecko_st_scheme \<Rightarrow> (int \<times> 'a gecko_st_scheme) option"
where
  "gecko_printf ev buffer fmt args s =
     (if gecko_enabled s = 0 then Some (0, s)
      else do {
        (buffer, _, _) \<leftarrow> vsnprintf (Some buffer) (int (length buffer) - 1) fmt args;
        s \<leftarrow> gecko_puts ev buffer s;
        Some (0, s) })"

section \<open>What the writer sends\<close>

text \<open>The bytes written to the mailbox, in program order.\<close>

fun sent_of :: "io list \<Rightarrow> u8 list" where
  "sent_of [] = []"
| "sent_of (e # es) = sent_of es @ (case e of Wr8 a v \<Rightarrow> if a = MAILBOX then [v] else [] | _ \<Rightarrow> [])"

definition sent :: "'a mach_scheme \<Rightarrow> u8 list" where
  "sent s = sent_of (io_log s)"

lemma sent_of_append: "sent_of (es @ fs) = sent_of fs @ sent_of es"
  by (induction es) auto

lemma sent_simps [simp]:
  "sent (snd (read32 ev a s)) = sent s" "sent (snd (read8 ev a s)) = sent s"
  "sent (write8 a v s) = sent s @ (if a = MAILBOX then [v] else [])"
  by (simp_all add: sent_def read32_def read8_def write8_def emit_def Let_def)

lemma sent_of_ahb: "list_all (io_addr ahb_reg) es \<Longrightarrow> sent_of es = []"
  by (induction es) (auto split: io.splits simp: ahb_reg_def)

lemma invalidate_log:
  "\<exists>es. dc_invalidaterange ev MAILBOX 32 s = Some (s\<lparr>io_log := es @ io_log s\<rparr>) \<and> sent_of es = [] \<and> es \<noteq> []"
proof -
  obtain es c where "dc_invalidaterange ev MAILBOX 32 s = Some (s\<lparr>io_log := es @ Cp15 c # io_log s\<rparr>)"
    "list_all (io_addr ahb_reg) es" using dc_invalidaterange_log [of ev MAILBOX 32 s] by blast
  then show ?thesis by (intro exI [of _ "es @ [Cp15 c]"]) (simp add: sent_of_append sent_of_ahb)
qed

lemma flush_log:
  "\<exists>es. dc_flushrange ev MAILBOX 32 s = Some (s\<lparr>io_log := es @ io_log s\<rparr>) \<and> sent_of es = []"
proof -
  obtain es c d where "dc_flushrange ev MAILBOX 32 s = Some (s\<lparr>io_log := es @ Cp15 c # Cp15 d # io_log s\<rparr>)"
    "list_all (io_addr ahb_reg) es" using dc_flushrange_log [of ev MAILBOX 32 s] by blast
  then show ?thesis by (intro exI [of _ "es @ [Cp15 c, Cp15 d]"]) (simp add: sent_of_append sent_of_ahb)
qed

text \<open>
  \<open>quiet s s'\<close>: from \<open>s\<close> to \<open>s'\<close> nothing was written to the mailbox and only the log changed;
  \<open>sends cs\<close>: the characters \<open>cs\<close> were.
\<close>

definition sends :: "u8 list \<Rightarrow> 'a mach_scheme \<Rightarrow> 'a mach_scheme \<Rightarrow> bool" where
  "sends bs s s' \<longleftrightarrow> (\<exists>es. io_log s' = es @ io_log s \<and> sent_of es = bs) \<and> same s s'"

lemma sends_log [intro]: "sent_of es = bs \<Longrightarrow> sends bs s (s\<lparr>io_log := es @ io_log s\<rparr>)"
  by (auto simp: sends_def same_def)

lemma sends_refl [simp]: "sends [] s s"
  by (simp add: sends_def)

lemma sends_trans: "sends as s t \<Longrightarrow> sends bs t u \<Longrightarrow> sends (as @ bs) s u"
  unfolding sends_def by (metis append_assoc sent_of_append same_trans)

lemma sends_quiet: "sends [] s t \<Longrightarrow> sends bs t u \<Longrightarrow> sends bs s u"
  using sends_trans by fastforce

lemma sends_emit: "sends (sent_of [e]) s (emit e s)"
  using sends_log [of "[e]" _ s] by (simp add: emit_def)

lemma sends_access:
  "sends [] s (snd (read32 ev a s))" "sends [] s (snd (read8 ev a s))"
  "sends [v] s (write8 MAILBOX v s)"
  using sends_emit [of "Rd32 a (ev (io_log s) a)" s] sends_emit [of "Rd8 a (ucast (ev (io_log s) a))" s]
    sends_emit [of "Wr8 MAILBOX v" s]
  by (simp_all add: read32_def read8_def write8_def Let_def)

lemma sends_sent: "sends bs s s' \<Longrightarrow> sent s' = sent s @ bs"
  by (auto simp: sends_def sent_def sent_of_append)

lemma sends_same: "sends bs s s' \<Longrightarrow> same s s'"
  by (simp add: sends_def)

lemma sends_grows: "sends bs s s' \<Longrightarrow> length (io_log s) \<le> length (io_log s')"
  by (auto simp: sends_def)

text \<open>
  The reader answers: whatever the history, there is a number of further events after which, unless
  the writer has put another character, the mailbox reads as empty.
\<close>

definition console_answers :: "env \<Rightarrow> bool" where
  "console_answers ev \<longleftrightarrow> (\<forall>l. \<exists>n. \<forall>es. n \<le> length es \<and> sent_of es = [] \<longrightarrow>
     ucast (ev (es @ l) MAILBOX) = (0 :: u8))"

lemma wait_progress:
  assumes "\<forall>es. n \<le> length es \<and> sent_of es = [] \<longrightarrow> ucast (ev (es @ io_log s0) MAILBOX) = (0 :: u8)"
    and "sends [] s0 s" "n + length (io_log s0) \<le> length (io_log s) + m"
  shows "\<exists>s'. gecko_wait ev timeout s = Some s' \<and> sends [] s s'"
  using assms(2-)
proof (induction m arbitrary: s)
  case (0 s)
  obtain t where t: "dc_invalidaterange ev MAILBOX 32 s = Some t" "sends [] s t"
    using invalidate_log by blast
  have "sends [] s0 t" using 0(1) t(2) by (rule sends_quiet)
  then have "fst (read8 ev MAILBOX t) = 0"
    using assms(1) 0(2) sends_grows [OF t(2)] by (auto simp: read8_def Let_def sends_def)
  with t show ?case
    by (simp add: gecko_wait.simps [of ev timeout s] sends_quiet [OF _ sends_access(2)])
next
  case (Suc m s)
  obtain t where t: "dc_invalidaterange ev MAILBOX 32 s = Some t" "sends [] s t"
    using invalidate_log by blast
  define u where "u = snd (read8 ev MAILBOX t)"
  define v where "v = snd (read32 ev HW_TIMER u)"
  have u: "sends [] s u" unfolding u_def by (rule sends_quiet [OF t(2) sends_access(2)])
  have v: "sends [] s v" unfolding v_def by (rule sends_quiet [OF u sends_access(1)])
  have "length (io_log s) < length (io_log v)"
    using sends_grows [OF t(2)] by (simp add: v_def u_def read32_def read8_def emit_def Let_def)
  with Suc.prems v obtain w where w: "gecko_wait ev timeout v = Some w" "sends [] v w"
    using Suc.IH [of v] sends_quiet [OF Suc.prems(1) v] by auto
  have "sends [] s w" using v w(2) by (rule sends_quiet)
  with u v w(1) show ?case
    unfolding gecko_wait.simps [of ev timeout s] t(1) Option.bind.simps u_def [symmetric] v_def [symmetric]
    by auto
qed

lemma putc_sends:
  assumes "console_answers ev"
  shows "\<exists>s'. gecko_putc ev ch s = Some s' \<and> sends [of_char ch] s s'"
proof -
  define t where "t = snd (read32 ev HW_TIMER s)"
  obtain n where n: "\<forall>es. n \<le> length es \<and> sent_of es = [] \<longrightarrow> ucast (ev (es @ io_log t) MAILBOX) = (0 :: u8)"
    using assms unfolding console_answers_def by blast
  obtain u where u: "gecko_wait ev (fst (read32 ev HW_TIMER s) + 38000) t = Some u" "sends [] t u"
    using wait_progress [where ev = ev and n = n and m = n and ?s0.0 = t and s = t, OF n] by auto
  obtain v where v: "dc_flushrange ev MAILBOX 32 (write8 MAILBOX (of_char ch) u) = Some v"
    "sends [] (write8 MAILBOX (of_char ch) u) v" using flush_log by blast
  have "sends [of_char ch] u v" using sends_trans [OF sends_access(3) v(2)] by simp
  moreover have "sends [] s t" by (simp add: t_def sends_access)
  ultimately have "sends [of_char ch] s v" using u(2) sends_quiet by blast
  with u(1) v(1) show ?thesis
    by (simp add: gecko_putc_def Let_def split_beta t_def)
qed

lemma puts_sends:
  assumes "console_answers ev" "CHR 0x00 \<in> set buf"
  shows "\<exists>s'. gecko_puts ev buf s = Some s' \<and> sends (map of_char (takeWhile (\<lambda>c. c \<noteq> CHR 0x00) buf)) s s'"
  using assms(2)
proof (induction buf arbitrary: s)
  case (Cons ch buf)
  show ?case
  proof (cases "ch = CHR 0x00")
    case False
    obtain t where t: "gecko_putc ev ch s = Some t" "sends [of_char ch] s t"
      using putc_sends [OF assms(1)] by blast
    from False Cons obtain u where "gecko_puts ev buf t = Some u"
      "sends (map of_char (takeWhile (\<lambda>c. c \<noteq> CHR 0x00) buf)) t u" by fastforce
    with t False sends_trans [OF t(2)] show ?thesis by fastforce
  qed simp
qed simp

text \<open>The text a message carries: at most 254 characters, up to the first NUL.\<close>

definition console_text :: "string \<Rightarrow> u8 list" where
  "console_text out = map of_char (takeWhile (\<lambda>c. c \<noteq> CHR 0x00) (take 254 out))"

text \<open>
  C30: while the console is enabled and the reader answers, \<^verbatim>\<open>gecko_printf\<close> returns 0 having written
  exactly the formatted text to the mailbox, one byte per character, in order, cut to the 254
  characters that fit its buffer; while the console is disabled it writes nothing. Besides the
  register accesses it leaves the machine state alone.
\<close>

theorem gecko_printf_sends:
  assumes "formatted fmt args = Some (c, out)" "length buffer = 256" "console_answers ev"
  shows "\<exists>s'. gecko_printf ev buffer fmt args s = Some (0, s') \<and> same s s' \<and>
    sent s' = sent s @ (if gecko_enabled s = 0 then [] else console_text out)"
proof (cases "gecko_enabled s = 0")
  case False
  define buf where "buf = take 254 out @ CHR 0x00 # drop (Suc (min (length out) 254)) buffer"
  have "takeWhile (\<lambda>c. c \<noteq> CHR 0x00) buf = takeWhile (\<lambda>c. c \<noteq> CHR 0x00) (take 254 out)"
    unfolding buf_def by (rule takeWhile_tail) simp
  moreover obtain s' where "gecko_puts ev buf s = Some s'"
    "sends (map of_char (takeWhile (\<lambda>c. c \<noteq> CHR 0x00) buf)) s s'"
    using puts_sends [OF assms(3), of buf s] by (auto simp: buf_def)
  moreover have "\<exists>r. vsnprintf (Some buffer) (int (length buffer) - 1) fmt args = Some (buf, r)"
    using vsnprintf_eq [of 255 buffer fmt args] assms by (simp add: Let_def buf_def min_def)
  ultimately show ?thesis
    using False by (auto simp: gecko_printf_def console_text_def sends_sent dest: sends_same)
qed (simp add: gecko_printf_def)

definition gecko_demo :: gecko_st where
  "gecko_demo = \<lparr>io_log = [], cpsr = 0, cp_cr = 0, cp_ttbr = 0, cp_dacr = 0, gecko_enabled = 3\<rparr>"

theorem gecko_printf_sends_witness:
  "\<exists>s'. gecko_printf (\<lambda>_ _. 0) (replicate 256 CHR 0xAA) ''%s!'' [VStr (Some ''SLC'')] gecko_demo = Some (0, s')
     \<and> sent s' = [0x53, 0x4C, 0x43, 0x21]"
proof -
  obtain c where "formatted ''%s!'' [VStr (Some ''SLC'')] = Some (c, ''SLC!'')"
    by (simp add: fmt_eval fmtstr_out_def fmtstr_text_def)
  moreover have "console_answers (\<lambda>_ _. 0)" by (simp add: console_answers_def)
  ultimately show ?thesis
    using gecko_printf_sends [of "''%s!''" "[VStr (Some ''SLC'')]" c "''SLC!''" "replicate 256 CHR 0xAA"
        "\<lambda>_ _. 0" gecko_demo]
    by (auto simp: gecko_demo_def sent_def console_text_def)
qed

text \<open>
  The deadline of a wait is a sum that may wrap around. Just before the tick counter does, the deadline
  lies in the past: the writer looks at an occupied mailbox once and overwrites it.
\<close>

lemma gecko_wait_near_wrap:
  assumes "dc_invalidaterange ev MAILBOX 32 s = Some t" "ev (io_log t) MAILBOX = 0x41"
    and "\<And>l. 0xFFFF7000 \<le> ev l HW_TIMER"
  shows "gecko_wait ev (fst (read32 ev HW_TIMER s) + 38000) s =
    Some (snd (read32 ev HW_TIMER (snd (read8 ev MAILBOX t))))"
proof -
  have wrap: "x + 38000 < 0xFFFF7000" if "0xFFFF7000 \<le> x" for x :: u32
  proof -
    have lo: "4294930432 \<le> unat x" using that by (simp add: word_le_nat_alt)
    have hi: "unat x < 4294967296" using unsigned_less [of x] by simp
    have "unat (x + 38000) = (unat x + 38000) mod 4294967296" by (simp add: unat_word_ariths)
    also have "\<dots> = unat x + 38000 - 4294967296" using lo hi by (simp add: le_mod_geq)
    finally show ?thesis using hi by (simp add: word_less_nat_alt)
  qed
  have "\<not> ev l HW_TIMER < ev (io_log s) HW_TIMER + 38000" for l
    by (rule less_not_sym [OF less_le_trans [OF wrap [OF assms(3)] assms(3)]])
  with assms(2) show ?thesis
    by (subst gecko_wait.simps) (simp add: assms(1) read8_def read32_def Let_def)
qed

section \<open>Both ends of the mailbox\<close>

text \<open>
  The writer is a loop of two visible actions: it looks at the mailbox (\<^verbatim>\<open>read8\<close> in the condition of
  the wait) and, once it has seen it empty or run out of time, stores the next character. The reader,
  the endless loop of \<^verbatim>\<open>main\<close> in \<^verbatim>\<open>nswitch/source/main.c\<close>, looks at the mailbox, fetches the
  character, clears the mailbox, and prints. The two run on different processors, so the steps of one
  interleave with those of the other in every order; each side writes its cache line back and
  invalidates it around every access, so the mailbox is a single shared cell.
\<close>

datatype arm_pc = A_look | A_put
datatype ppc_pc = P_look | P_fetch | P_clear u8 | P_print u8

record link_st =
  mailbox :: u8
  arm :: arm_pc
  todo :: "u8 list"
  ppc :: ppc_pc
  screen :: "u8 list"

inductive arm_step :: "link_st \<Rightarrow> link_st \<Rightarrow> bool" where
  a_empty: "arm k = A_look \<Longrightarrow> todo k \<noteq> [] \<Longrightarrow> mailbox k = 0 \<Longrightarrow> arm_step k (k\<lparr>arm := A_put\<rparr>)"
| a_put: "arm k = A_put \<Longrightarrow> todo k = c # cs \<Longrightarrow>
    arm_step k (k\<lparr>arm := A_look, mailbox := c, todo := cs\<rparr>)"

inductive arm_timeout :: "link_st \<Rightarrow> link_st \<Rightarrow> bool" where
  a_timeout: "arm k = A_look \<Longrightarrow> todo k \<noteq> [] \<Longrightarrow> mailbox k \<noteq> 0 \<Longrightarrow> arm_timeout k (k\<lparr>arm := A_put\<rparr>)"

inductive ppc_step :: "link_st \<Rightarrow> link_st \<Rightarrow> bool" where
  p_look: "ppc k = P_look \<Longrightarrow> mailbox k \<noteq> 0 \<Longrightarrow> ppc_step k (k\<lparr>ppc := P_fetch\<rparr>)"
| p_fetch: "ppc k = P_fetch \<Longrightarrow> ppc_step k (k\<lparr>ppc := P_clear (mailbox k)\<rparr>)"
| p_clear: "ppc k = P_clear c \<Longrightarrow> ppc_step k (k\<lparr>ppc := P_print c, mailbox := 0\<rparr>)"
| p_print: "ppc k = P_print c \<Longrightarrow> ppc_step k (k\<lparr>ppc := P_look, screen := screen k @ [c]\<rparr>)"

inductive link_step :: "link_st \<Rightarrow> link_st \<Rightarrow> bool" where
  l_arm: "arm_step k k' \<Longrightarrow> link_step k k'"
| l_ppc: "ppc_step k k' \<Longrightarrow> link_step k k'"

inductive_cases arm_stepE: "arm_step k k'"
inductive_cases ppc_stepE: "ppc_step k k'"
inductive_simps link_step_iff: "link_step k k'"

code_pred link_step .

definition link_init :: "u8 list \<Rightarrow> link_st" where
  "link_init bs = \<lparr>mailbox = 0, arm = A_look, todo = bs, ppc = P_look, screen = []\<rparr>"

text \<open>The characters taken out of the mailbox but not shown yet, and those still in it.\<close>

fun held :: "ppc_pc \<Rightarrow> u8 \<Rightarrow> u8 list" where
  "held (P_print c) m = c # (if m = 0 then [] else [m])"
| "held (P_clear c) m = [c]"
| "held _ m = (if m = 0 then [] else [m])"

definition link_inv :: "u8 list \<Rightarrow> link_st \<Rightarrow> bool" where
  "link_inv bs k \<longleftrightarrow> screen k @ held (ppc k) (mailbox k) @ todo k = bs
     \<and> 0 \<notin> set (todo k)
     \<and> (arm k = A_put \<longrightarrow> mailbox k = 0 \<and> todo k \<noteq> [])
     \<and> (ppc k = P_fetch \<longrightarrow> mailbox k \<noteq> 0)
     \<and> (\<forall>c. ppc k = P_clear c \<longrightarrow> mailbox k = c \<and> c \<noteq> 0)"

lemma link_inv_init: "0 \<notin> set bs \<Longrightarrow> link_inv bs (link_init bs)"
  by (simp add: link_inv_def link_init_def)

lemma link_inv_arm: "arm_step k k' \<Longrightarrow> link_inv bs k \<Longrightarrow> link_inv bs k'"
  by (erule arm_stepE; cases "ppc k") (auto simp: link_inv_def)

lemma link_inv_ppc: "ppc_step k k' \<Longrightarrow> link_inv bs k \<Longrightarrow> link_inv bs k'"
  by (erule ppc_stepE) (auto simp: link_inv_def)

lemma link_inv_reachable:
  assumes "link_step\<^sup>*\<^sup>* k k'" "link_inv bs k"
  shows "link_inv bs k'"
  using assms by induction (auto simp: link_step_iff intro: link_inv_arm link_inv_ppc)


text \<open>Every step moves some character forward.\<close>

definition link_work :: "link_st \<Rightarrow> nat" where
  "link_work k = 7 * length (todo k)
     + (case ppc k of P_look \<Rightarrow> if mailbox k = 0 then 0 else 4 | P_fetch \<Rightarrow> 3 | P_clear _ \<Rightarrow> 2
        | P_print _ \<Rightarrow> 1 + (if mailbox k = 0 then 0 else 4))
     + (case arm k of A_look \<Rightarrow> 1 | A_put \<Rightarrow> 0)"

lemma link_work_arm: "arm_step k k' \<Longrightarrow> link_inv bs k \<Longrightarrow> link_work k' < link_work k"
  by (erule arm_stepE; cases "ppc k") (simp_all add: link_inv_def link_work_def)

lemma link_work_ppc: "ppc_step k k' \<Longrightarrow> link_work k' < link_work k"
  by (erule ppc_stepE) (simp_all add: link_work_def)

lemma link_work_step: "link_step k k' \<Longrightarrow> link_inv bs k \<Longrightarrow> link_work k' < link_work k"
  by (simp only: link_step_iff) (blast dest: link_work_arm link_work_ppc)

lemma link_stuck:
  assumes "link_inv bs k" "\<And>k'. \<not> link_step k k'"
  shows "screen k = bs"
proof -
  have arm: "\<not> arm_step k k'" and ppc: "\<not> ppc_step k k'" for k'
    using assms(2) by (auto intro: link_step.intros)
  have "ppc k = P_look" "mailbox k = 0"
    using ppc by (cases "ppc k"; metis ppc_step.intros)+
  moreover have "todo k = []"
    using arm assms(1) calculation by (cases "arm k"; cases "todo k"; metis arm_step.intros list.distinct(1))
  ultimately show ?thesis using assms(1) by (simp add: link_inv_def)
qed

text \<open>A run of a concrete message, in which the two processors take turns.\<close>

definition link_done :: link_st where
  "link_done = \<lparr>mailbox = 0, arm = A_look, todo = [], ppc = P_look, screen = [0x53]\<rparr>"

lemma link_done_stuck: "\<not> link_step link_done k"
  by (auto simp: link_done_def link_step_iff elim: arm_stepE ppc_stepE)

lemma link_run: "(link_step ^^ 6) (link_init [0x53]) link_done"
proof -
  let ?k1 = "\<lparr>mailbox = 0, arm = A_put, todo = [0x53], ppc = P_look, screen = []\<rparr>"
  let ?k2 = "\<lparr>mailbox = 0x53, arm = A_look, todo = [], ppc = P_look, screen = []\<rparr>"
  let ?k3 = "\<lparr>mailbox = 0x53, arm = A_look, todo = [], ppc = P_fetch, screen = []\<rparr>"
  let ?k4 = "\<lparr>mailbox = 0x53, arm = A_look, todo = [], ppc = P_clear 0x53, screen = []\<rparr>"
  let ?k5 = "\<lparr>mailbox = 0, arm = A_look, todo = [], ppc = P_print 0x53, screen = []\<rparr>"
  have "link_step (link_init [0x53]) ?k1" "link_step ?k1 ?k2"
    using l_arm [OF a_empty [of "link_init [0x53]"]] l_arm [OF a_put [of ?k1]] by (simp_all add: link_init_def)
  moreover have "link_step ?k2 ?k3" "link_step ?k3 ?k4" "link_step ?k4 ?k5" "link_step ?k5 link_done"
    using l_ppc [OF p_look [of ?k2]] l_ppc [OF p_fetch [of ?k3]] l_ppc [OF p_clear [of ?k4 "0x53"]]
      l_ppc [OF p_print [of ?k5 "0x53"]] by (simp_all add: link_done_def)
  ultimately show ?thesis by (simp add: numeral_eq_Suc relcompp.simps) blast
qed




text \<open>With a time-out the writer overwrites a character the reader has not fetched.\<close>

lemma timeout_loses:
  "\<exists>k k'. link_step\<^sup>*\<^sup>* (link_init [0x41, 0x42]) k \<and> arm_timeout k k' \<and>
     arm_step k' (k'\<lparr>arm := A_look, mailbox := 0x42, todo := []\<rparr>) \<and> screen k' = [] \<and> mailbox k' = 0x41"
proof -
  let ?k0 = "link_init [0x41, 0x42]"
  let ?k1 = "?k0\<lparr>arm := A_put\<rparr>"
  let ?k2 = "?k1\<lparr>arm := A_look, mailbox := 0x41, todo := [0x42]\<rparr>"
  have "link_step ?k0 ?k1" "link_step ?k1 ?k2"
    using l_arm [OF a_empty [of ?k0]] l_arm [OF a_put [of ?k1 "0x41" "[0x42]"]] by (simp_all add: link_init_def)
  moreover have "arm_timeout ?k2 (?k2\<lparr>arm := A_put\<rparr>)"
    by (rule a_timeout) (simp_all add: link_init_def)
  moreover have "arm_step (?k2\<lparr>arm := A_put\<rparr>) (?k2\<lparr>arm := A_put\<rparr>\<lparr>arm := A_look, mailbox := 0x42, todo := []\<rparr>)"
    by (rule a_put) simp_all
  ultimately show ?thesis
    by (intro exI [of _ ?k2] exI [of _ "?k2\<lparr>arm := A_put\<rparr>"]) (auto simp: link_init_def)
qed

end
