(* ===== verification/Seeprom.thy ===== *)
theory Seeprom
  imports Machine
begin

text \<open>
  The serial EEPROM driver \<^verbatim>\<open>armboot/system/seeprom.c\<close>, which drives the chip through four pins of a
  GPIO register (chip select, clock, data in, data out). The chip itself is not part of the
  repository: its documented serial protocol (a 93C56/66 in 16-bit organisation) is written as a
  function of the accesses made so far, and the driver is shown to read the contents of the chip.
\<close>

section \<open>The driver\<close>

abbreviation (input) "HW_GPIO1OUT \<equiv> 0x0d8000e0 :: u32"
abbreviation (input) "HW_GPIO1IN \<equiv> 0x0d8000e8 :: u32"
abbreviation (input) "GP_EEP_CS \<equiv> 0x400 :: u32"
abbreviation (input) "GP_EEP_CLK \<equiv> 0x800 :: u32"
abbreviation (input) "GP_EEP_MOSI \<equiv> 0x1000 :: u32"
abbreviation (input) "GP_EEP_MISO \<equiv> 0x2000 :: u32"

definition eeprom_delay :: "'a mach_scheme \<Rightarrow> 'a mach_scheme" where
  "eeprom_delay s = udelay_ev 5 s"

text \<open>\<^verbatim>\<open>while (bits--)\<close>: the argument is the number of bits left, the body sees one less.\<close>

fun send_bits :: "env \<Rightarrow> u32 \<Rightarrow> nat \<Rightarrow> 'a mach_scheme \<Rightarrow> 'a mach_scheme" where
  "send_bits ev b 0 s = s"
| "send_bits ev b (Suc bits) s =
    (let s = (if b AND push_bit bits 1 \<noteq> 0 then set32 ev HW_GPIO1OUT GP_EEP_MOSI s
              else clear32 ev HW_GPIO1OUT GP_EEP_MOSI s);
         s = eeprom_delay s;
         s = set32 ev HW_GPIO1OUT GP_EEP_CLK s;
         s = eeprom_delay s;
         s = clear32 ev HW_GPIO1OUT GP_EEP_CLK s;
         s = eeprom_delay s
     in send_bits ev b bits s)"

fun recv_loop :: "env \<Rightarrow> nat \<Rightarrow> u32 \<Rightarrow> 'a mach_scheme \<Rightarrow> u32 \<times> 'a mach_scheme" where
  "recv_loop ev 0 res s = (res, s)"
| "recv_loop ev (Suc bits) res s =
    (let res = push_bit 1 res;
         s = set32 ev HW_GPIO1OUT GP_EEP_CLK s;
         s = eeprom_delay s;
         s = clear32 ev HW_GPIO1OUT GP_EEP_CLK s;
         s = eeprom_delay s;
         (v, s) = read32 ev HW_GPIO1IN s;
         res = res OR (if v AND GP_EEP_MISO \<noteq> 0 then 1 else 0)
     in recv_loop ev bits res s)"

definition recv_bits :: "env \<Rightarrow> nat \<Rightarrow> 'a mach_scheme \<Rightarrow> u32 \<times> 'a mach_scheme" where
  "recv_bits ev bits s = recv_loop ev bits 0 s"

text \<open>The words stored through \<^verbatim>\<open>ptr\<close>, in order; \<open>n\<close> words are left and \<open>a\<close> is \<^verbatim>\<open>offset + i\<close>.\<close>

fun seeprom_loop :: "env \<Rightarrow> u32 \<Rightarrow> nat \<Rightarrow> 'a mach_scheme \<Rightarrow> u16 list \<times> 'a mach_scheme" where
  "seeprom_loop ev a 0 s = ([], s)"
| "seeprom_loop ev a (Suc n) s =
    (let s = set32 ev HW_GPIO1OUT GP_EEP_CS s;
         s = send_bits ev (0x600 OR a) 11 s;
         (recv, s) = recv_bits ev 16 s;
         s = clear32 ev HW_GPIO1OUT GP_EEP_CS s;
         s = eeprom_delay s;
         (ws, s) = seeprom_loop ev (a + 1) n s
     in (ucast recv # ws, s))"

definition seeprom_read :: "env \<Rightarrow> u32 \<Rightarrow> int \<Rightarrow> 'a mach_scheme \<Rightarrow> int \<times> u16 list \<times> 'a mach_scheme" where
  "seeprom_read ev offset sz s =
    (if sz AND 1 \<noteq> 0 then (-1, [], s)
     else (let s = clear32 ev HW_GPIO1OUT GP_EEP_CLK s;
               s = clear32 ev HW_GPIO1OUT GP_EEP_CS s;
               s = eeprom_delay s;
               (ws, s) = seeprom_loop ev offset (nat sz) s
           in (sz, ws, s)))"

section \<open>The chip\<close>

text \<open>
  The state of the chip: the level of its input pins (the output register of the GPIO block), the bits
  shifted in since it was selected, and the bits still to shift out. The bit on the data output is
  \<open>dout\<close>. On every rising clock edge a selected chip shifts in one bit; the eleventh completes a
  command, and a read command (start bit 1, operation 10, eight address bits) loads the addressed word.
  Later edges shift that word out, most significant bit first.
\<close>

record chip =
  pins :: u32
  shifted :: "bool list"
  outgoing :: "bool list"
  dout :: bool

definition bits_of :: "nat \<Rightarrow> 'a::len word \<Rightarrow> bool list" where
  "bits_of n w = map (bit w) (rev [0..<n])"

fun num_of :: "bool list \<Rightarrow> nat" where
  "num_of [] = 0"
| "num_of (b # bs) = (if b then 2 ^ length bs else 0) + num_of bs"

definition chip_clock :: "u16 list \<Rightarrow> bool \<Rightarrow> chip \<Rightarrow> chip" where
  "chip_clock mem din c =
    (if length (shifted c) < 11
     then (let sh = shifted c @ [din] in
           c\<lparr>shifted := sh, dout := False,
             outgoing := (if length sh = 11 \<and> take 3 sh = [True, True, False]
                          then bits_of 16 (mem ! num_of (drop 3 sh)) else [])\<rparr>)
     else (case outgoing c of [] \<Rightarrow> c\<lparr>dout := False\<rparr> | b # bs \<Rightarrow> c\<lparr>dout := b, outgoing := bs\<rparr>))"

definition chip_write :: "u16 list \<Rightarrow> u32 \<Rightarrow> chip \<Rightarrow> chip" where
  "chip_write mem v c =
    (let d = c\<lparr>pins := v\<rparr> in
     if v AND GP_EEP_CS = 0 then d\<lparr>shifted := [], outgoing := [], dout := False\<rparr>
     else if pins c AND GP_EEP_CLK = 0 \<and> v AND GP_EEP_CLK \<noteq> 0
     then chip_clock mem (v AND GP_EEP_MOSI \<noteq> 0) d else d)"

fun chip_of :: "u16 list \<Rightarrow> u32 \<Rightarrow> io list \<Rightarrow> chip" where
  "chip_of mem p0 [] = \<lparr>pins = p0, shifted = [], outgoing = [], dout = False\<rparr>"
| "chip_of mem p0 (e # l) = (case e of
     Wr32 a v \<Rightarrow> if a = HW_GPIO1OUT then chip_write mem v (chip_of mem p0 l) else chip_of mem p0 l
   | _ \<Rightarrow> chip_of mem p0 l)"

text \<open>The registers show the chip: the output register reads back, the input register shows \<open>dout\<close>.\<close>

definition chip_env :: "u16 list \<Rightarrow> u32 \<Rightarrow> env \<Rightarrow> bool" where
  "chip_env mem p0 ev \<longleftrightarrow> (\<forall>l. ev l HW_GPIO1OUT = pins (chip_of mem p0 l) \<and>
     (ev l HW_GPIO1IN AND GP_EEP_MISO \<noteq> 0 \<longleftrightarrow> dout (chip_of mem p0 l)))"

abbreviation "chip_at mem p0 s \<equiv> chip_of mem p0 (io_log s)"

lemma chip_access:
  assumes "chip_env mem p0 ev"
  shows "chip_at mem p0 (set32 ev HW_GPIO1OUT m s) = chip_write mem (pins (chip_at mem p0 s) OR m) (chip_at mem p0 s)"
    and "chip_at mem p0 (clear32 ev HW_GPIO1OUT m s) = chip_write mem (pins (chip_at mem p0 s) AND NOT m) (chip_at mem p0 s)"
    and "chip_at mem p0 (eeprom_delay s) = chip_at mem p0 s"
    and "chip_at mem p0 (snd (read32 ev a s)) = chip_at mem p0 s"
    and "fst (read32 ev HW_GPIO1IN s) AND GP_EEP_MISO \<noteq> 0 \<longleftrightarrow> dout (chip_at mem p0 s)"
  using assms
  by (simp_all add: chip_env_def set32_def clear32_def read32_def write32_def eeprom_delay_def udelay_ev_def
      emit_def Let_def)

section \<open>One clock pulse\<close>

text \<open>The selected chip with its clock low.\<close>

definition idle :: "chip \<Rightarrow> bool" where
  "idle c \<longleftrightarrow> pins c AND GP_EEP_CS \<noteq> 0 \<and> pins c AND GP_EEP_CLK = 0"

lemma pin_or:
  "(x OR GP_EEP_CS) AND GP_EEP_CS = GP_EEP_CS" "(x OR GP_EEP_CS) AND GP_EEP_CLK = x AND GP_EEP_CLK"
  "(x OR GP_EEP_CLK) AND GP_EEP_CLK = GP_EEP_CLK" "(x OR GP_EEP_CLK) AND GP_EEP_CS = x AND GP_EEP_CS"
  "(x OR GP_EEP_CLK) AND GP_EEP_MOSI = x AND GP_EEP_MOSI"
  "(x OR GP_EEP_MOSI) AND GP_EEP_MOSI = GP_EEP_MOSI" "(x OR GP_EEP_MOSI) AND GP_EEP_CS = x AND GP_EEP_CS"
  "(x OR GP_EEP_MOSI) AND GP_EEP_CLK = x AND GP_EEP_CLK"
  by (simp_all add: bit.conj_disj_distrib2 bit.conj_disj_distrib)

text \<open>The complements as the simplifier writes them.\<close>

lemma pin_clear:
  fixes x :: u32
  shows
  "(x AND - 0x401) AND GP_EEP_CS = 0" "(x AND - 0x401) AND GP_EEP_CLK = x AND GP_EEP_CLK"
  "(x AND - 0x801) AND GP_EEP_CLK = 0" "(x AND - 0x801) AND GP_EEP_CS = x AND GP_EEP_CS"
  "(x AND - 0x801) AND GP_EEP_MOSI = x AND GP_EEP_MOSI"
  "(x AND - 0x1001) AND GP_EEP_MOSI = 0" "(x AND - 0x1001) AND GP_EEP_CS = x AND GP_EEP_CS"
  "(x AND - 0x1001) AND GP_EEP_CLK = x AND GP_EEP_CLK"
  by (simp_all add: and.assoc)

lemmas pin_simps = pin_or pin_clear

lemma pulse_in:
  fixes mem
  assumes "idle c" "length (shifted c) < 11"
  defines "d b \<equiv> chip_write mem (if b then pins c OR GP_EEP_MOSI else pins c AND NOT GP_EEP_MOSI) c"
  defines "e b \<equiv> chip_write mem (pins (d b) OR GP_EEP_CLK) (d b)"
  defines "f b \<equiv> chip_write mem (pins (e b) AND NOT GP_EEP_CLK) (e b)"
  shows "idle (f b)" "shifted (f b) = shifted c @ [b]"
    "outgoing (f b) = (if length (shifted c) = 10 \<and> take 3 (shifted c) = [True, True, False]
      then bits_of 16 (mem ! num_of (drop 3 (shifted c @ [b]))) else [])"
proof -
  have d: "d b = c\<lparr>pins := if b then pins c OR GP_EEP_MOSI else pins c AND NOT GP_EEP_MOSI\<rparr>"
    using assms(1) by (simp add: d_def chip_write_def Let_def idle_def pin_simps)
  have p: "pins (d b) AND GP_EEP_CS \<noteq> 0" "pins (d b) AND GP_EEP_CLK = 0" "pins (d b) AND GP_EEP_MOSI \<noteq> 0 \<longleftrightarrow> b"
    using assms(1) by (simp_all add: d idle_def pin_simps)
  have e: "e b = chip_clock mem b ((d b)\<lparr>pins := pins (d b) OR GP_EEP_CLK\<rparr>)"
    using p by (simp add: e_def chip_write_def Let_def pin_simps)
  have q: "pins (e b) = pins (d b) OR GP_EEP_CLK" using assms(2) by (simp add: e chip_clock_def Let_def d)
  have f: "f b = (e b)\<lparr>pins := pins (e b) AND NOT GP_EEP_CLK\<rparr>"
    using p by (simp add: f_def chip_write_def Let_def q pin_simps)
  show "idle (f b)" using p by (simp add: idle_def f q pin_simps)
  show "shifted (f b) = shifted c @ [b]"
    using assms(2) by (simp add: f e d chip_clock_def Let_def)
  show "outgoing (f b) = (if length (shifted c) = 10 \<and> take 3 (shifted c) = [True, True, False]
      then bits_of 16 (mem ! num_of (drop 3 (shifted c @ [b]))) else [])"
    using assms(2) by (auto simp: f e d chip_clock_def Let_def)
qed

lemma pulse_out:
  fixes mem
  assumes "idle c" "length (shifted c) = 11" "outgoing c = b # bs"
  defines "d \<equiv> chip_write mem (pins c OR GP_EEP_CLK) c"
  defines "e \<equiv> chip_write mem (pins d AND NOT GP_EEP_CLK) d"
  shows "idle e" "shifted e = shifted c" "outgoing e = bs" "dout e = b"
proof -
  have d: "d = c\<lparr>pins := pins c OR GP_EEP_CLK, dout := b, outgoing := bs\<rparr>"
    using assms by (simp add: d_def chip_write_def Let_def idle_def pin_simps chip_clock_def)
  have e: "e = d\<lparr>pins := pins d AND NOT GP_EEP_CLK\<rparr>"
    using assms(1) by (simp add: e_def chip_write_def Let_def d idle_def pin_simps)
  show "idle e" "shifted e = shifted c" "outgoing e = bs" "dout e = b"
    using assms(1) by (simp_all add: e d idle_def pin_simps)
qed

section \<open>Commands and replies\<close>

lemma bits_of_Suc: "bits_of (Suc n) w = bit w n # bits_of n w"
  by (simp add: bits_of_def)

lemma length_bits_of [simp]: "length (bits_of n w) = n"
  by (simp add: bits_of_def)

lemma and_single_bit: "b AND push_bit n 1 \<noteq> 0 \<longleftrightarrow> bit b n" for b :: u32
  by (simp only: bit_iff_and_push_bit_not_eq_0)

lemma send_bits_chip:
  assumes "chip_env mem p0 ev"
  shows "idle (chip_at mem p0 s) \<Longrightarrow> length (shifted (chip_at mem p0 s)) + n \<le> 11 \<Longrightarrow> n > 0 \<Longrightarrow>
    idle (chip_at mem p0 (send_bits ev b n s)) \<and>
    shifted (chip_at mem p0 (send_bits ev b n s)) = shifted (chip_at mem p0 s) @ bits_of n b \<and>
    outgoing (chip_at mem p0 (send_bits ev b n s)) =
      (let sh = shifted (chip_at mem p0 s) @ bits_of n b in
       if length sh = 11 \<and> take 3 sh = [True, True, False] then bits_of 16 (mem ! num_of (drop 3 sh)) else [])"
proof (induction n arbitrary: s)
  case (Suc n)
  define t where "t = eeprom_delay (clear32 ev HW_GPIO1OUT GP_EEP_CLK (eeprom_delay (set32 ev HW_GPIO1OUT GP_EEP_CLK
    (eeprom_delay (if bit b n then set32 ev HW_GPIO1OUT GP_EEP_MOSI s else clear32 ev HW_GPIO1OUT GP_EEP_MOSI s)))))"
  have step: "send_bits ev b (Suc n) s = send_bits ev b n t"
    by (simp add: t_def and_single_bit del: push_bit_of_1)
  have len: "length (shifted (chip_at mem p0 s)) < 11" using Suc.prems by simp
  have t: "idle (chip_at mem p0 t)" "shifted (chip_at mem p0 t) = shifted (chip_at mem p0 s) @ [bit b n]"
    "outgoing (chip_at mem p0 t) = (if length (shifted (chip_at mem p0 s)) = 10 \<and>
        take 3 (shifted (chip_at mem p0 s)) = [True, True, False]
      then bits_of 16 (mem ! num_of (drop 3 (shifted (chip_at mem p0 s) @ [bit b n]))) else [])"
    using pulse_in [OF Suc.prems(1) len, of mem "bit b n"]
    by (cases "bit b n"; simp add: t_def chip_access [OF assms])+
  show ?case
  proof (cases "n = 0")
    case True
    with t Suc.prems(2) show ?thesis
      unfolding step by (auto simp: Let_def bits_of_Suc bits_of_def)
  next
    case False
    with Suc.IH [OF t(1)] Suc.prems(2) show ?thesis
      unfolding step by (simp add: t(2) bits_of_Suc)
  qed
qed simp

definition word_of_bits :: "bool list \<Rightarrow> u32 \<Rightarrow> u32" where
  "word_of_bits bs r = foldl (\<lambda>r b. push_bit 1 r OR (if b then 1 else 0)) r bs"

lemma recv_loop_chip:
  assumes "chip_env mem p0 ev"
  shows "idle (chip_at mem p0 s) \<Longrightarrow> length (shifted (chip_at mem p0 s)) = 11 \<Longrightarrow>
    outgoing (chip_at mem p0 s) = bs \<Longrightarrow> n = length bs \<Longrightarrow>
    fst (recv_loop ev n r s) = word_of_bits bs r \<and> idle (chip_at mem p0 (snd (recv_loop ev n r s)))"
proof (induction bs arbitrary: n r s)
  case (Cons b bs)
  define u where "u = eeprom_delay (clear32 ev HW_GPIO1OUT GP_EEP_CLK (eeprom_delay (set32 ev HW_GPIO1OUT GP_EEP_CLK s)))"
  define t where "t = snd (read32 ev HW_GPIO1IN u)"
  note p = pulse_out [OF Cons.prems(1,2,3), of mem]
  have t: "idle (chip_at mem p0 t)" "shifted (chip_at mem p0 t) = shifted (chip_at mem p0 s)"
    "outgoing (chip_at mem p0 t) = bs" "dout (chip_at mem p0 u) = b"
    using p by (simp_all add: t_def u_def chip_access [OF assms])
  have "recv_loop ev n r s = recv_loop ev (length bs) (push_bit 1 r OR (if b then 1 else 0)) t"
    using t(4) Cons.prems(4)
    by (simp add: u_def [symmetric] Let_def split_beta t_def chip_access(5) [OF assms])
  with Cons.IH [OF t(1) _ t(3) refl] t(2) Cons.prems(2) show ?case by (simp add: word_of_bits_def)
qed (simp add: word_of_bits_def)

lemma bit_shift_in:
  fixes r :: u32
  assumes "j < 32"
  shows "bit (push_bit 1 r OR (if b then 1 else 0)) j = (if j = 0 then b else bit r (j - 1))"
proof -
  have "bit (push_bit 1 r) j \<longleftrightarrow> 1 \<le> j \<and> bit r (j - 1)"
    by (rule trans [OF bit_push_bit_iff]) (use assms in auto)
  then show ?thesis by (cases b) (auto simp: bit_or_iff bit_1_iff)
qed

lemma bit_word_of_bits:
  "i < 32 \<Longrightarrow> bit (word_of_bits (bits_of n w) r) i = (if i < n then bit w i else bit r (i - n))"
proof (induction n arbitrary: r)
  case (Suc n)
  have *: "word_of_bits (bits_of (Suc n) w) r = word_of_bits (bits_of n w) (push_bit 1 r OR (if bit w n then 1 else 0))"
    by (simp add: word_of_bits_def bits_of_Suc)
  have "i - n < 32" using Suc.prems by simp
  then show ?case unfolding * Suc.IH [OF Suc.prems] bit_shift_in [OF \<open>i - n < 32\<close>]
    by (auto simp: not_less less_Suc_eq)
qed (simp add: word_of_bits_def bits_of_def)

lemma received_word: "ucast (word_of_bits (bits_of 16 w) 0) = (w :: u16)"
  by (rule bit_word_eqI) (simp add: bit_simps bit_word_of_bits)

lemma num_of_bits: "num_of (bits_of n w) = take_bit n (unat w)"
proof (induction n)
  case (Suc n)
  then show ?case
    by (simp add: bits_of_Suc take_bit_Suc_from_most bit_unsigned_iff del: take_bit_Suc)
qed (simp add: bits_of_def)

lemma read_command:
  fixes a :: u32
  assumes "unat a < 256"
  shows "take 3 (bits_of 11 (0x600 OR a)) = [True, True, False]"
    and "num_of (drop 3 (bits_of 11 (0x600 OR a))) = unat a"
proof -
  have high: "\<not> bit a i" if "8 \<le> i" for i
  proof
    assume "bit a i"
    then have "bit (unat a) i" by (simp add: bit_unsigned_iff bit_imp_le_length)
    then have "2 ^ i \<le> unat a" by (metis bit_nat_def div_less even_zero not_less)
    moreover have "(2 :: nat) ^ 8 \<le> 2 ^ i" using that by (rule power_increasing) simp
    ultimately show False using assms by simp
  qed
  have split: "bits_of 11 (0x600 OR a) = [bit (0x600 OR a) 10, bit (0x600 OR a) 9, bit (0x600 OR a) 8] @ bits_of 8 (0x600 OR a)"
    using bits_of_Suc [of 10 "0x600 OR a"] bits_of_Suc [of 9 "0x600 OR a"] bits_of_Suc [of 8 "0x600 OR a"] by simp
  have low: "bits_of 8 (0x600 OR a) = bits_of 8 a"
    by (auto simp: bits_of_def bit_or_iff upt_rec)
  show "take 3 (bits_of 11 (0x600 OR a)) = [True, True, False]"
    by (simp add: split bit_or_iff high)
  show "num_of (drop 3 (bits_of 11 (0x600 OR a))) = unat a"
    using assms by (simp add: split low num_of_bits take_bit_nat_eq_self)
qed

section \<open>Reading words\<close>

lemma seeprom_loop_chip:
  assumes "chip_env mem p0 ev"
  shows "pins (chip_at mem p0 s) AND GP_EEP_CLK = 0 \<Longrightarrow> shifted (chip_at mem p0 s) = [] \<Longrightarrow>
    unat a + n \<le> 256 \<Longrightarrow> fst (seeprom_loop ev a n s) = map (\<lambda>i. mem ! (unat a + i)) [0..<n]"
proof (induction n arbitrary: a s)
  case (Suc n)
  define t where "t = set32 ev HW_GPIO1OUT GP_EEP_CS s"
  define u where "u = send_bits ev (0x600 OR a) 11 t"
  define v where "v = snd (recv_bits ev 16 u)"
  define w where "w = eeprom_delay (clear32 ev HW_GPIO1OUT GP_EEP_CS v)"
  have a: "unat a < 256" using Suc.prems(3) by simp
  have t: "idle (chip_at mem p0 t)" "shifted (chip_at mem p0 t) = []"
    using Suc.prems by (simp_all add: t_def chip_access [OF assms] chip_write_def Let_def idle_def pin_simps)
  have u: "idle (chip_at mem p0 u)" "length (shifted (chip_at mem p0 u)) = 11"
    "outgoing (chip_at mem p0 u) = bits_of 16 (mem ! unat a)"
    using send_bits_chip [OF assms t(1), of 11 "0x600 OR a"] t(2) read_command [OF a]
    by (simp_all add: u_def Let_def)
  have r: "fst (recv_bits ev 16 u) = word_of_bits (bits_of 16 (mem ! unat a)) 0" "idle (chip_at mem p0 v)"
    using recv_loop_chip [OF assms u, of 16 0] by (simp_all add: recv_bits_def v_def)
  have w: "pins (chip_at mem p0 w) AND GP_EEP_CLK = 0" "shifted (chip_at mem p0 w) = []"
    using r(2) by (simp_all add: w_def chip_access [OF assms] chip_write_def Let_def idle_def pin_simps)
  have "unat (a + 1) = unat a + 1"
    using a by (simp add: unat_word_ariths)
  with Suc.IH [OF w, of "a + 1"] Suc.prems(3)
  have "fst (seeprom_loop ev (a + 1) n w) = map (\<lambda>i. mem ! (unat a + 1 + i)) [0..<n]" by simp
  moreover have "fst (seeprom_loop ev a (Suc n) s) = ucast (fst (recv_bits ev 16 u)) # fst (seeprom_loop ev (a + 1) n w)"
    by (simp add: Let_def split_beta w_def v_def u_def t_def del: send_bits.simps)
  ultimately show ?case by (simp add: r(1) received_word upt_conv_Cons map_Suc_upt [symmetric] del: upt_Suc)
qed simp

text \<open>
  C33: attached to a chip that follows the serial protocol, \<^verbatim>\<open>seeprom_read\<close> of an even number of words
  returns that number and the words of the chip from \<open>offset\<close> on, for whatever levels the pins had
  before.
\<close>

theorem seeprom_read_correct:
  assumes "chip_env mem p0 ev" "even n" "unat offset + n \<le> length mem" "length mem \<le> 256"
  shows "\<exists>s'. seeprom_read ev offset (int n) s = (int n, take n (drop (unat offset) mem), s')"
proof -
  define t where "t = eeprom_delay (clear32 ev HW_GPIO1OUT GP_EEP_CS (clear32 ev HW_GPIO1OUT GP_EEP_CLK s))"
  have t: "pins (chip_at mem p0 t) AND GP_EEP_CLK = 0" "shifted (chip_at mem p0 t) = []"
    by (simp_all add: t_def chip_access [OF assms(1)] chip_write_def Let_def pin_simps)
  have "fst (seeprom_loop ev offset n t) = map (\<lambda>i. mem ! (unat offset + i)) [0..<n]"
    using seeprom_loop_chip [OF assms(1) t, of offset n] assms(3,4) by simp
  also have "\<dots> = take n (drop (unat offset) mem)"
    using assms(3) by (intro nth_equalityI) simp_all
  moreover have "int n AND 1 = 0" using assms(2) by (simp add: and_one_eq)
  ultimately show ?thesis
    by (cases "seeprom_loop ev offset n t") (simp add: seeprom_read_def t_def [symmetric] Let_def)
qed

definition chip_demo :: "u16 list \<Rightarrow> env" where
  "chip_demo mem l a = (if a = HW_GPIO1OUT then pins (chip_of mem 0 l)
     else if a = HW_GPIO1IN then (if dout (chip_of mem 0 l) then GP_EEP_MISO else 0) else 0)"

definition mach_demo :: mach where
  "mach_demo = \<lparr>io_log = [], cpsr = 0, cp_cr = 0, cp_ttbr = 0, cp_dacr = 0\<rparr>"

theorem seeprom_read_correct_witness:
  "\<exists>s'. seeprom_read (chip_demo [0xBEEF, 0x1234, 0x8001]) 1 2 mach_demo = (2, [0x1234, 0x8001], s')"
proof -
  have "chip_env [0xBEEF, 0x1234, 0x8001] 0 (chip_demo [0xBEEF, 0x1234, 0x8001])"
    by (simp add: chip_env_def chip_demo_def)
  from seeprom_read_correct [OF this, of 2 1 mach_demo] show ?thesis by simp
qed

end
