(* ===== verification/Crypto.thy ===== *)
theory Crypto
  imports Nand Seeprom
begin

text \<open>
  The crypto hardware of \<^verbatim>\<open>armboot/system/crypto.c\<close>: reading the one-time-programmable keys and the
  serial EEPROM, and the AES engine with its decryption loop, which cuts a request into transfers of
  at most 128 blocks and chains the initialisation vector from one to the next.
\<close>

section \<open>The code\<close>

abbreviation (input) "HW_OTPCMD \<equiv> 0x0d8001ec :: u32"
abbreviation (input) "HW_OTPDATA \<equiv> 0x0d8001f0 :: u32"
abbreviation (input) "AES_CMD \<equiv> 0x0d020000 :: u32"
abbreviation (input) "AES_SRC \<equiv> 0x0d020004 :: u32"
abbreviation (input) "AES_DEST \<equiv> 0x0d020008 :: u32"
abbreviation (input) "AES_KEY \<equiv> 0x0d02000c :: u32"
abbreviation (input) "AES_IV \<equiv> 0x0d020010 :: u32"
abbreviation (input) "AES_CMD_DECRYPT \<equiv> 0x9800 :: u16"
abbreviation (input) "IRQ_AES \<equiv> 2 :: nat"

text \<open>\<^verbatim>\<open>otp\<close> and \<^verbatim>\<open>seeprom\<close> are seen through the words they are filled with.\<close>

record crypto_st = mach +
  otp :: "u32 list"
  seeprom :: "u16 list"
  aes_irq_flag :: bool

text \<open>The loop from index \<open>i\<close> with \<open>n\<close> iterations left.\<close>

fun read_otp_loop :: "env \<Rightarrow> nat \<Rightarrow> nat \<Rightarrow> 'a crypto_st_scheme \<Rightarrow> 'a crypto_st_scheme" where
  "read_otp_loop ev i 0 s = s"
| "read_otp_loop ev i (Suc n) s =
    (let s = write32 HW_OTPCMD (0x80000000 OR of_nat i) s;
         (v, s) = read32 ev HW_OTPDATA s;
         s = s\<lparr>otp := (otp s)[i := v]\<rparr>
     in read_otp_loop ev (Suc i) n s)"

definition crypto_read_otp :: "env \<Rightarrow> 'a crypto_st_scheme \<Rightarrow> 'a crypto_st_scheme" where
  "crypto_read_otp ev s = read_otp_loop ev 0 0x20 s"

definition crypto_read_seeprom :: "env \<Rightarrow> 'a crypto_st_scheme \<Rightarrow> 'a crypto_st_scheme" where
  "crypto_read_seeprom ev s =
    (let (r, ws, s) = seeprom_read ev 0 (256 div 2) s
     in s\<lparr>seeprom := ws @ drop (length ws) (seeprom s)\<rparr>)"

definition aes_reset :: "env \<Rightarrow> 'a mach_scheme \<Rightarrow> 'a mach_scheme option" where
  "aes_reset ev s = poll ev AES_CMD (\<lambda>v. v \<noteq> 0) (write32 AES_CMD 0 s)"

definition crypto_initialize :: "env \<Rightarrow> 'a crypto_st_scheme \<Rightarrow> 'a crypto_st_scheme option" where
  "crypto_initialize ev s = do {
     let s = crypto_read_otp ev s;
     let s = crypto_read_seeprom ev s;
     let s = write32 AES_CMD 0 s;
     s \<leftarrow> poll ev AES_CMD (\<lambda>v. v \<noteq> 0) s;
     Some (irq_enable ev IRQ_AES s) }"

definition aes_irq :: "'a crypto_st_scheme \<Rightarrow> 'a crypto_st_scheme" where
  "aes_irq s = s\<lparr>aes_irq_flag := True\<rparr>"

definition aes_word :: "u16 \<Rightarrow> u8 \<Rightarrow> u32 \<Rightarrow> u32" where
  "aes_word cmd iv_keep blocks =
     push_bit 16 (ucast cmd) OR (if iv_keep \<noteq> 0 then 0x1000 else 0) OR (blocks AND 0x7f)"

definition aes_command :: "env \<Rightarrow> u16 \<Rightarrow> u8 \<Rightarrow> u32 \<Rightarrow> 'a crypto_st_scheme \<Rightarrow> 'a crypto_st_scheme option" where
  "aes_command ev cmd iv_keep blocks s = do {
     let blocks = (if blocks \<noteq> 0 then blocks - 1 else blocks);
     let s = s\<lparr>aes_irq_flag := False\<rparr>;
     let s = write32 AES_CMD (aes_word cmd iv_keep blocks) s;
     poll ev AES_CMD (\<lambda>v. v AND 0x80000000 \<noteq> 0) s }"

text \<open>Four big-endian words from a byte pointer, written to one register.\<close>

fun write_words :: "u32 \<Rightarrow> nat \<Rightarrow> u8 list \<Rightarrow> 'a mach_scheme \<Rightarrow> 'a mach_scheme option" where
  "write_words a 0 bs s = Some s"
| "write_words a (Suc n) (b0 # b1 # b2 # b3 # bs) s = write_words a n bs (write32 a (be32 b0 b1 b2 b3) s)"
| "write_words a (Suc n) _ s = None"

definition aes_set_iv :: "u8 list \<Rightarrow> 'a mach_scheme \<Rightarrow> 'a mach_scheme option" where
  "aes_set_iv iv s = write_words AES_IV 4 iv s"

definition aes_empty_iv :: "'a mach_scheme \<Rightarrow> 'a mach_scheme" where
  "aes_empty_iv s = ((write32 AES_IV 0) ^^ 4) s"

definition aes_set_key :: "u8 list \<Rightarrow> 'a mach_scheme \<Rightarrow> 'a mach_scheme option" where
  "aes_set_key key s = write_words AES_KEY 4 key s"

text \<open>\<^verbatim>\<open>this_blocks\<close> is a signed copy of the remaining count, limited to 128.\<close>

definition aes_this_blocks :: "u32 \<Rightarrow> u32" where
  "aes_this_blocks blocks = (if sint blocks > 0x80 then 0x80 else blocks)"

definition aes_chunk :: "env \<Rightarrow> u32 \<Rightarrow> u32 \<Rightarrow> u32 \<Rightarrow> u8 \<Rightarrow> 'a crypto_st_scheme \<Rightarrow> 'a crypto_st_scheme option" where
  "aes_chunk ev src dst blocks keep_iv s = do {
     let (a, s) = dma_addr ev src s;
     let s = write32 AES_SRC a s;
     let (a, s) = dma_addr ev dst s;
     let s = write32 AES_DEST a s;
     s \<leftarrow> dc_flushrange ev src (blocks * 16) s;
     s \<leftarrow> dc_invalidaterange ev dst (blocks * 16) s;
     s \<leftarrow> ahb_flush_to ev AHB_AES s;
     s \<leftarrow> aes_command ev AES_CMD_DECRYPT keep_iv (aes_this_blocks blocks) s;
     s \<leftarrow> ahb_flush_from ev AHB_AES s;
     ahb_flush_to ev AHB_STARLET s }"

function aes_decrypt :: "env \<Rightarrow> u32 \<Rightarrow> u32 \<Rightarrow> u32 \<Rightarrow> u8 \<Rightarrow> 'a crypto_st_scheme \<Rightarrow> 'a crypto_st_scheme option" where
  "aes_decrypt ev src dst blocks keep_iv s =
     (if blocks > 0
      then do {
        s \<leftarrow> aes_chunk ev src dst blocks keep_iv s;
        aes_decrypt ev (src + push_bit 4 (aes_this_blocks blocks)) (dst + push_bit 4 (aes_this_blocks blocks))
          (blocks - aes_this_blocks blocks) 1 s }
      else Some s)"
  by pat_completeness auto

lemma this_blocks_bounds:
  assumes "blocks > 0"
  shows "0 < aes_this_blocks blocks" "aes_this_blocks blocks \<le> blocks"
proof -
  show "0 < aes_this_blocks blocks" using assms by (simp add: aes_this_blocks_def)
  show "aes_this_blocks blocks \<le> blocks"
  proof (cases "sint blocks > 0x80")
    case True
    have "128 < unat blocks"
    proof (cases "unat blocks < 2 ^ 31")
      case small: True
      with True have "128 < uint blocks" by (simp add: sint_eq_uint_small)
      then have "int 128 < int (unat blocks)" by simp
      then show ?thesis by (simp only: of_nat_less_iff)
    next
      case False
      then show ?thesis by (rule less_le_trans [rotated, OF leI]) simp
    qed
    then show ?thesis by (simp add: aes_this_blocks_def word_le_nat_alt)
  qed (simp add: aes_this_blocks_def)
qed

lemma this_blocks_decreases:
  assumes "blocks > 0"
  shows "unat (blocks - aes_this_blocks blocks) < unat blocks"
  using this_blocks_bounds [OF assms] by (simp only: unat_sub) (simp only: word_less_nat_alt word_le_nat_alt; simp)

termination aes_decrypt
  by (relation "measure (\<lambda>(ev, src, dst, blocks, k, s). unat blocks)")
     (simp, simp only: in_measure split_conv this_blocks_decreases)

declare aes_decrypt.simps [simp del]

section \<open>What a chunk writes\<close>

definition aes_reg :: "u32 \<Rightarrow> bool" where
  "aes_reg a \<longleftrightarrow> a \<in> {AES_CMD, AES_SRC, AES_DEST, AES_KEY, AES_IV}"

lemma ahb_not_aes: "aes_reg a \<Longrightarrow> \<not> ahb_reg a"
  by (auto simp: aes_reg_def ahb_reg_def)

lemmas aes_writes_frame = writes_io_step [of ahb_reg _ _ aes_reg, OF _ ahb_not_aes]

lemma flushrange_step: "\<exists>s'. dc_flushrange ev a n s = Some s' \<and> io_step (io_addr ahb_reg) s s'"
  using dc_flushrange_log [of ev a n s] by (fastforce simp: io_step_def)

lemma invalidaterange_step: "\<exists>s'. dc_invalidaterange ev a n s = Some s' \<and> io_step (io_addr ahb_reg) s s'"
  using dc_invalidaterange_log [of ev a n s] by (fastforce simp: io_step_def)

text \<open>
  The hardware around the engine: the engine finishes every command, and its bus port reads as open, so
  that the flush before a command needs no handshake with the bus.
\<close>

definition aes_engine_ready :: "env \<Rightarrow> bool" where
  "aes_engine_ready ev \<longleftrightarrow> always_ready ev AES_CMD (\<lambda>v. v AND 0x80000000 = 0)
     \<and> (\<forall>l. ev l AHB_INVAL AND 4 \<noteq> 0)"

lemma flush_to_aes:
  assumes "\<forall>l. ev l AHB_INVAL AND 4 \<noteq> 0"
  shows "\<exists>s'. ahb_flush_to ev AHB_AES s = Some s'"
proof -
  have "fst (mc_read32 ev AHB_INVAL t) AND 4 \<noteq> 0" for t :: "'b mach_scheme"
    using assms by (auto simp: mc_read32_def access_unfold read32_def)
  then show ?thesis
    using ahb_flush_to_raw_starlet
    by (auto simp: ahb_flush_to_def ahb_flush_to_raw_def [of ev AHB_AES] ahb_mask_def access_unfold)
qed

lemma aes_command_writes:
  assumes "always_ready ev AES_CMD (\<lambda>v. v AND 0x80000000 = 0)" "n > 0"
  shows "\<exists>s'. aes_command ev cmd keep n s = Some s' \<and>
    writes aes_reg s' = writes aes_reg s @ [(AES_CMD, aes_word cmd keep (n - 1))]"
proof -
  let ?t = "write32 AES_CMD (aes_word cmd keep (n - 1)) (s\<lparr>aes_irq_flag := False\<rparr>)"
  obtain s' where "poll ev AES_CMD (\<lambda>v. v AND 0x80000000 \<noteq> 0) ?t = Some s'"
    using poll_ready [of ev AES_CMD "\<lambda>v. v AND 0x80000000 \<noteq> 0"] assms(1) by auto
  moreover have "writes aes_reg ?t = writes aes_reg s @ [(AES_CMD, aes_word cmd keep (n - 1))]"
    by (simp add: aes_reg_def) (simp add: writes_def)
  ultimately show ?thesis
    using writes_poll [of ev AES_CMD "\<lambda>v. v AND 0x80000000 \<noteq> 0" ?t s' aes_reg] assms(2)
    by (auto simp: aes_command_def Let_def)
qed

definition dma_plain :: "u32 \<Rightarrow> bool" where
  "dma_plain a \<longleftrightarrow> drop_bit 20 a \<notin> {0xfff, 0x0d4, 0x0dc}"

lemma aes_chunk_writes:
  assumes "aes_engine_ready ev" "dma_plain src" "dma_plain dst" "blocks > 0"
  shows "\<exists>s'. aes_chunk ev src dst blocks keep s = Some s' \<and> writes aes_reg s' = writes aes_reg s @
    [(AES_SRC, src), (AES_DEST, dst), (AES_CMD, aes_word AES_CMD_DECRYPT keep (aes_this_blocks blocks - 1))]"
proof -
  define t0 where "t0 = write32 AES_DEST dst (write32 AES_SRC src s)"
  obtain t1 where t1: "dc_flushrange ev src (blocks * 16) t0 = Some t1" "io_step (io_addr ahb_reg) t0 t1"
    using flushrange_step by blast
  obtain t2 where t2: "dc_invalidaterange ev dst (blocks * 16) t1 = Some t2" "io_step (io_addr ahb_reg) t1 t2"
    using invalidaterange_step by blast
  obtain t3 where t3: "ahb_flush_to ev AHB_AES t2 = Some t3"
    using flush_to_aes assms(1) unfolding aes_engine_ready_def by blast
  obtain t4 where t4: "aes_command ev AES_CMD_DECRYPT keep (aes_this_blocks blocks) t3 = Some t4"
    "writes aes_reg t4 = writes aes_reg t3 @ [(AES_CMD, aes_word AES_CMD_DECRYPT keep (aes_this_blocks blocks - 1))]"
    using aes_command_writes assms(1) this_blocks_bounds(1) [OF assms(4)] unfolding aes_engine_ready_def by blast
  obtain t5 where t5: "ahb_flush_from ev AHB_AES t4 = Some t5" using ahb_flush_from_returns by blast
  obtain t6 where t6: "ahb_flush_to ev AHB_STARLET t5 = Some t6" using ahb_flush_to_starlet by blast
  have "writes aes_reg t6 = writes aes_reg t4"
    using aes_writes_frame [OF ahb_flush_from_step [OF t5]] aes_writes_frame [OF ahb_flush_to_step [OF t6]] by simp
  moreover have "writes aes_reg t3 = writes aes_reg t0"
    using aes_writes_frame [OF t1(2)] aes_writes_frame [OF t2(2)] aes_writes_frame [OF ahb_flush_to_step [OF t3]] by simp
  moreover have "aes_chunk ev src dst blocks keep s = Some t6"
    using assms(2,3) t1(1) t2(1) t3 t4(1) t5 t6
    by (simp add: aes_chunk_def dma_addr_def dma_plain_def Let_def t0_def [symmetric])
  ultimately show ?thesis using t4(2) by (simp add: t0_def aes_reg_def)
qed

section \<open>The decryption loop\<close>

text \<open>
  The specification of a request of \<open>n\<close> blocks: the \<open>k\<close>-th transfer of up to 128 blocks, and the
  whole list. The command holds the block count less one; all transfers but the first keep the
  initialisation vector of the one before.
\<close>

definition aes_transfer :: "u32 \<Rightarrow> u32 \<Rightarrow> u8 \<Rightarrow> nat \<Rightarrow> nat \<Rightarrow> (u32 \<times> u32) list" where
  "aes_transfer src dst keep n k =
     [(AES_SRC, src + of_nat (2048 * k)), (AES_DEST, dst + of_nat (2048 * k)),
      (AES_CMD, 0x98000000 OR (if keep \<noteq> 0 \<or> k > 0 then 0x1000 else 0) OR of_nat (min 128 (n - 128 * k) - 1))]"

definition aes_request :: "u32 \<Rightarrow> u32 \<Rightarrow> u8 \<Rightarrow> nat \<Rightarrow> (u32 \<times> u32) list" where
  "aes_request src dst keep n = concat (map (aes_transfer src dst keep n) [0..<(n + 127) div 128])"

lemma aes_request_0: "aes_request src dst keep 0 = []"
  by (simp add: aes_request_def)

lemma aes_request_rec:
  assumes "n > 0"
  shows "aes_request src dst keep n = aes_transfer src dst keep n 0 @ aes_request (src + 2048) (dst + 2048) 1 (n - 128)"
proof -
  have tr: "aes_transfer src dst keep n (Suc k) = aes_transfer (src + 2048) (dst + 2048) 1 (n - 128) k" for k
    by (simp add: aes_transfer_def algebra_simps)
  have "(n + 127) div 128 = Suc ((n - 128 + 127) div 128)" if "n > 128"
    using that by (simp add: div_if [of "n + 127"] del: div_diff)
  moreover have "(n + 127) div 128 = Suc 0 \<and> (n - 128 + 127) div 128 = 0" if "n \<le> 128"
  proof -
    have "n + 127 = (n - 1) + 128" using assms by simp
    then show ?thesis using that by (simp only: div_add_self2) auto
  qed
  ultimately have "(n + 127) div 128 = Suc ((n - 128 + 127) div 128)" by (cases "n > 128") simp_all
  then show ?thesis
    by (simp add: aes_request_def upt_conv_Cons map_Suc_upt [symmetric] tr comp_def del: upt_Suc)
qed

lemma this_blocks_small:
  assumes "unat blocks < 2 ^ 31"
  shows "unat (aes_this_blocks blocks) = min 128 (unat blocks)"
proof -
  have "sint blocks = int (unat blocks)" using assms by (simp add: sint_eq_uint_small)
  then have "0x80 < sint blocks \<longleftrightarrow> int 128 < int (unat blocks)" by (simp only: of_nat_numeral)
  then have "0x80 < sint blocks \<longleftrightarrow> 128 < unat blocks" by (simp only: of_nat_less_iff)
  then show ?thesis by (simp add: aes_this_blocks_def)
qed

lemma low_seven_bits:
  assumes "m < 128"
  shows "(of_nat m :: u32) AND 0x7f = of_nat m"
proof -
  have "unat ((of_nat m :: u32) AND mask 7) = unat (of_nat m :: u32)"
    using assms by (simp only: unat_and_mask) (simp add: unat_of_nat take_bit_nat_eq_self)
  then have "(of_nat m :: u32) AND mask 7 = of_nat m" by (simp only: word_unat_eq_iff)
  then show ?thesis by (simp add: mask_eq_exp_minus_1)
qed

lemma aes_command_word:
  assumes "0 < blocks" "unat blocks < 2 ^ 31"
  shows "aes_word AES_CMD_DECRYPT keep (aes_this_blocks blocks - 1) =
    0x98000000 OR (if keep \<noteq> 0 then 0x1000 else 0) OR of_nat (min 128 (unat blocks) - 1)"
proof -
  define n where "n = min 128 (unat blocks)"
  have n: "0 < n" "n \<le> 128" using assms(1) by (auto simp: n_def word_less_nat_alt)
  have "unat (aes_this_blocks blocks) = n" by (simp add: this_blocks_small [OF assms(2)] n_def)
  then have "aes_this_blocks blocks = of_nat n" by (metis of_nat_unat ucast_id)
  then have "aes_this_blocks blocks - 1 = of_nat (n - 1)" using n(1) by simp
  moreover have "(of_nat (n - 1) :: u32) AND 0x7f = of_nat (n - 1)" using n by (intro low_seven_bits) simp
  ultimately show ?thesis by (simp add: aes_word_def n_def push_bit_eq_mult or.assoc)
qed

text \<open>
  C34: with an engine that finishes its commands and buffers outside the processor's own SRAM,
  \<^verbatim>\<open>aes_decrypt\<close> of fewer than \<open>2 ^ 31\<close> blocks returns, and the register writes it makes to the engine
  are exactly the transfers of the request: consecutive pieces of source and destination, every piece
  of at most 128 blocks, the counts adding up to the request, the initialisation vector kept from one
  piece to the next.
\<close>

theorem aes_decrypt_transfers:
  assumes "aes_engine_ready ev" "unat blocks < 2 ^ 31"
    and "\<forall>k. 128 * k < unat blocks \<longrightarrow> dma_plain (src + of_nat (2048 * k)) \<and> dma_plain (dst + of_nat (2048 * k))"
  shows "\<exists>s'. aes_decrypt ev src dst blocks keep_iv s = Some s' \<and>
    writes aes_reg s' = writes aes_reg s @ aes_request src dst keep_iv (unat blocks)"
  using assms(2,3)
proof (induction "unat blocks" arbitrary: blocks src dst keep_iv s rule: less_induct)
  case less
  show ?case
  proof (cases "blocks = 0")
    case True
    then show ?thesis by (simp add: aes_decrypt.simps aes_request_0)
  next
    case False
    then have pos: "0 < blocks" by (simp add: word_neq_0_conv)
    define m where "m = aes_this_blocks blocks"
    have m: "unat m = min 128 (unat blocks)" unfolding m_def by (rule this_blocks_small [OF less.prems(1)])
    have sub: "unat (blocks - m) = unat blocks - unat m"
      unfolding m_def by (rule unat_sub [OF this_blocks_bounds(2) [OF pos]])
    obtain t where t: "aes_chunk ev src dst blocks keep_iv s = Some t" "writes aes_reg t = writes aes_reg s @
        [(AES_SRC, src), (AES_DEST, dst), (AES_CMD, aes_word AES_CMD_DECRYPT keep_iv (m - 1))]"
      using aes_chunk_writes [OF assms(1) _ _ pos, of src dst keep_iv s] less.prems(2) [rule_format, of 0] False
      unfolding m_def by (auto simp: unat_gt_0)
    have tr: "[(AES_SRC, src), (AES_DEST, dst), (AES_CMD, aes_word AES_CMD_DECRYPT keep_iv (m - 1))] =
        aes_transfer src dst keep_iv (unat blocks) 0"
      unfolding m_def aes_command_word [OF pos less.prems(1)] by (simp add: aes_transfer_def)
    have step: "aes_decrypt ev src dst blocks keep_iv s =
        aes_decrypt ev (src + push_bit 4 m) (dst + push_bit 4 m) (blocks - m) 1 t"
      using pos t(1) by (subst aes_decrypt.simps) (simp add: m_def)
    have rec: "aes_request src dst keep_iv (unat blocks) =
        aes_transfer src dst keep_iv (unat blocks) 0 @ aes_request (src + 2048) (dst + 2048) 1 (unat blocks - 128)"
      by (rule aes_request_rec) (use False in \<open>simp add: unat_gt_0\<close>)
    show ?thesis
    proof (cases "unat blocks \<le> 128")
      case True
      then have "blocks - m = 0" using sub m by (simp add: unat_eq_zero)
      then have "aes_decrypt ev a b (blocks - m) 1 t = Some t" for a b
        by (subst aes_decrypt.simps) simp
      moreover have "unat blocks - 128 = 0" using True by simp
      ultimately show ?thesis unfolding step rec using t(2) unfolding tr by (simp add: aes_request_0)
    next
      case big: False
      with m have "unat m = unat (0x80 :: u32)" by simp
      then have "m = 0x80" by (simp only: word_unat_eq_iff)
      then have shift: "src + push_bit 4 m = src + 2048" "dst + push_bit 4 m = dst + 2048"
        by (simp_all add: push_bit_eq_mult)
      have "dma_plain (src + 2048 + of_nat (2048 * k)) \<and> dma_plain (dst + 2048 + of_nat (2048 * k))"
        if "128 * k < unat (blocks - m)" for k
        using less.prems(2) [rule_format, of "Suc k"] that sub m by (simp add: algebra_simps)
      moreover have small: "unat (blocks - m) < 2 ^ 31" and decr: "unat (blocks - m) < unat blocks"
        using sub m big less.prems(1) by linarith+
      ultimately obtain s' where "aes_decrypt ev (src + 2048) (dst + 2048) (blocks - m) 1 t = Some s'"
        "writes aes_reg s' = writes aes_reg t @ aes_request (src + 2048) (dst + 2048) 1 (unat (blocks - m))"
        using less.hyps [of "blocks - m" "src + 2048" "dst + 2048" 1 t] small decr by blast
      moreover have "unat (blocks - m) = unat blocks - 128" using sub m big by simp
      ultimately show ?thesis unfolding step shift rec using t(2) unfolding tr by simp
    qed
  qed
qed

definition crypto_demo :: crypto_st where
  "crypto_demo = \<lparr>io_log = [], cpsr = 0, cp_cr = 0, cp_ttbr = 0, cp_dacr = 0,
     otp = [], seeprom = [], aes_irq_flag = False\<rparr>"

text \<open>130 blocks: a transfer of 128 and one of 2.\<close>

theorem aes_decrypt_transfers_witness:
  "\<exists>s'. aes_decrypt (\<lambda>_ a. if a = AHB_INVAL then 4 else 0) 0x10000000 0x11000000 130 0 crypto_demo = Some s' \<and>
    writes aes_reg s' = [(AES_SRC, 0x10000000), (AES_DEST, 0x11000000), (AES_CMD, 0x9800007f),
      (AES_SRC, 0x10000800), (AES_DEST, 0x11000800), (AES_CMD, 0x98001001)]"
proof -
  let ?ev = "\<lambda>_ a. if a = AHB_INVAL then 4 else 0 :: u32"
  have ready: "aes_engine_ready ?ev" by (simp add: aes_engine_ready_def always_ready_def)
  have plain: "\<forall>k. 128 * k < unat (130 :: u32) \<longrightarrow> dma_plain (0x10000000 + of_nat (2048 * k)) \<and>
      dma_plain (0x11000000 + of_nat (2048 * k))"
  proof (intro allI impI)
    fix k :: nat assume "128 * k < unat (130 :: u32)"
    then have "k = 0 \<or> k = 1" by simp linarith
    then show "dma_plain (0x10000000 + of_nat (2048 * k)) \<and> dma_plain (0x11000000 + of_nat (2048 * k))"
      by (auto simp: dma_plain_def)
  qed
  have "aes_request 0x10000000 0x11000000 0 130 = [(AES_SRC, 0x10000000), (AES_DEST, 0x11000000), (AES_CMD, 0x9800007f),
      (AES_SRC, 0x10000800), (AES_DEST, 0x11000800), (AES_CMD, 0x98001001)]"
    by (simp add: aes_request_def aes_transfer_def upt_rec)
  with aes_decrypt_transfers [OF ready _ plain, of 0 crypto_demo] show ?thesis
    by (simp add: crypto_demo_def writes_def)
qed

section \<open>One-time-programmable memory\<close>

text \<open>
  The keys read are the words the fuse block shows for the commands \<open>0 .. 31\<close>, in order; nothing else
  of the state changes but the log.
\<close>

lemma read_otp_loop_words:
  assumes "\<And>l i. i < 32 \<Longrightarrow> ev (Wr32 HW_OTPCMD (0x80000000 OR of_nat i) # l) HW_OTPDATA = fuse ! i"
    "length fuse = 32" "i + n \<le> 32" "length (otp s) = 32"
  shows "otp (read_otp_loop ev i n s) = take i (otp s) @ take n (drop i fuse) @ drop (i + n) (otp s)"
  using assms(3,4)
proof (induction n arbitrary: i s)
  case (Suc n)
  show ?case
    using Suc assms(1) [of i] Cons_nth_drop_Suc [of i fuse, symmetric] assms(2)
    by (simp add: Let_def read32_def write32_def emit_def take_Suc_conv_app_nth)
qed simp

end
