(* ===== verification/Panic.thy ===== *)
theory Panic
  imports Machine
begin

text \<open>
  The last resorts of the firmware: hexadecimal dumps, blink codes on the sensor bar and the disc slot
  light, and the system reset, from \<^verbatim>\<open>common/utils.c\<close>, \<^verbatim>\<open>system/panic.c\<close> and the debug port of
  \<^verbatim>\<open>start.S\<close>. The panic functions never return; what is modelled is one round of their endless loop,
  and the state after any number of rounds. Recorded messages leave out the final line break.
\<close>

section \<open>The code\<close>

abbreviation (input) "HW_GPIO1BOUT \<equiv> 0x0d8000c0 :: u32"
abbreviation (input) "HW_GPIO1OUT \<equiv> 0x0d8000e0 :: u32"
abbreviation (input) "HW_GPIO1DIR \<equiv> 0x0d8000e4 :: u32"
abbreviation (input) "HW_GPIO1OWNER \<equiv> 0x0d8000fc :: u32"
abbreviation (input) "GP_SENSORBAR \<equiv> 0x100 :: u32"
abbreviation (input) "HW_GPIO1_SENSE \<equiv> 0x100 :: u32"

text \<open>\<^verbatim>\<open>replace X<0x20 and X>0x7E with '.'\<close>\<close>

definition ascii :: "u8 \<Rightarrow> u8" where
  "ascii X = (if X - 0x20 < 0x5F then X else 0x2E)"

definition hex_cell :: "u8 list \<Rightarrow> nat \<Rightarrow> 'a mach_scheme \<Rightarrow> 'a mach_scheme" where
  "hex_cell bytes k s = (if k \<ge> length bytes then gecko_msg ''   '' [] s
     else gecko_msg ''%02x '' [VInt (ucast (bytes ! k))] s)"

definition ascii_cell :: "u8 list \<Rightarrow> nat \<Rightarrow> 'a mach_scheme \<Rightarrow> 'a mach_scheme" where
  "ascii_cell bytes k s = (if k \<ge> length bytes then gecko_msg '' '' [] s
     else gecko_msg ''%c'' [VInt (ucast (ascii (bytes ! k)))] s)"

definition hexdump_line :: "u8 list \<Rightarrow> nat \<Rightarrow> 'a mach_scheme \<Rightarrow> 'a mach_scheme" where
  "hexdump_line bytes off s =
    (let s = gecko_msg ''%08x  '' [VInt (of_nat off)] s;
         s = fold (\<lambda>i. hex_cell bytes (i + off)) [0..<16] s;
         s = gecko_msg '' '' [] s;
         s = fold (\<lambda>i. ascii_cell bytes (i + off)) [0..<16] s
     in gecko_msg [CHR 0x0A] [] s)"

text \<open>The bytes at \<^verbatim>\<open>d\<close> are a list; the offsets are \<open>0, 16, ...\<close> below the length.\<close>

definition hexdump :: "u8 list \<Rightarrow> 'a mach_scheme \<Rightarrow> 'a mach_scheme" where
  "hexdump bytes s = fold (\<lambda>l. hexdump_line bytes (16 * l)) [0..<(length bytes + 15) div 16] s"

definition debug_output :: "env \<Rightarrow> u8 \<Rightarrow> 'a mach_scheme \<Rightarrow> 'a mach_scheme" where
  "debug_output ev v s = mask32 ev HW_GPIO1OUT 0xFF0000 (push_bit 16 (ucast v)) s"

definition panic_round :: "env \<Rightarrow> u8 \<Rightarrow> 'a mach_scheme \<Rightarrow> 'a mach_scheme" where
  "panic_round ev v s =
    (let s = debug_output ev v s;
         s = set32 ev HW_GPIO1BOUT GP_SENSORBAR s;
         s = udelay_ev 500000 s;
         s = debug_output ev 0 s;
         s = clear32 ev HW_GPIO1BOUT GP_SENSORBAR s
     in udelay_ev 500000 s)"

definition sensorbarOn :: "env \<Rightarrow> 'a mach_scheme \<Rightarrow> 'a mach_scheme" where
  "sensorbarOn ev s = set32 ev HW_GPIO1OUT GP_SENSORBAR s"

definition sensorbarOff :: "env \<Rightarrow> 'a mach_scheme \<Rightarrow> 'a mach_scheme" where
  "sensorbarOff ev s = clear32 ev HW_GPIO1OUT GP_SENSORBAR s"

definition flashSensor :: "env \<Rightarrow> u32 \<Rightarrow> u32 \<Rightarrow> u32 \<Rightarrow> 'a mach_scheme \<Rightarrow> 'a mach_scheme" where
  "flashSensor ev before during after s =
     udelay_ev after (sensorbarOff ev (udelay_ev during (sensorbarOn ev (udelay_ev before s))))"

function blink_bits :: "env \<Rightarrow> u32 \<Rightarrow> 'a mach_scheme \<Rightarrow> 'a mach_scheme" where
  "blink_bits ev shifter s =
    (let s = (if shifter AND 1 \<noteq> 0 then flashSensor ev 300000 600000 0 s
              else flashSensor ev 300000 300000 0 s);
         shifter = drop_bit 1 shifter
     in if shifter \<noteq> 0 then blink_bits ev shifter s else s)"
  by pat_completeness auto

lemma unat_half: "unat (drop_bit 1 x) = unat x div 2" for x :: u32
  by (simp add: drop_bit_eq_div unat_div)

lemma drop_bit_1_decreases: "drop_bit 1 x \<noteq> 0 \<Longrightarrow> unat (drop_bit 1 x) < unat x" for x :: u32
proof -
  assume nz: "drop_bit 1 x \<noteq> 0"
  have "unat (drop_bit 1 x) \<noteq> 0" using nz by (simp only: unat_eq_zero not_False_eq_True)
  then show ?thesis unfolding unat_half by simp
qed

termination blink_bits
  by (relation "measure (\<lambda>(ev, x, s). unat x)") (auto simp only: in_measure split_conv wf_measure intro: drop_bit_1_decreases)

declare blink_bits.simps [simp del]

definition binaryPanic_round :: "env \<Rightarrow> u32 \<Rightarrow> 'a mach_scheme \<Rightarrow> 'a mach_scheme" where
  "binaryPanic_round ev v s = blink_bits ev v (udelay_ev 700000 s)"

definition binaryPanic :: "env \<Rightarrow> u32 \<Rightarrow> nat \<Rightarrow> 'a mach_scheme \<Rightarrow> 'a mach_scheme" where
  "binaryPanic ev v rounds s = (binaryPanic_round ev v ^^ rounds) (sensorbarOff ev s)"

text \<open>The write that resets the machine; the endless loop after it has no effect of its own.\<close>

definition systemReset :: "'a mach_scheme \<Rightarrow> 'a mach_scheme" where
  "systemReset s = write32 0x0d8005e0 0xFFFFFFFE s"

section \<open>Flash codes (system/panic.c)\<close>

abbreviation (input) "PANIC_ON \<equiv> 200000 :: u32"
abbreviation (input) "PANIC_OFF \<equiv> 300000 :: u32"
abbreviation (input) "PANIC_INTER \<equiv> 1000000 :: u32"

text \<open>One pass over the variable arguments; running past the last one is \<^const>\<open>None\<close>.\<close>

fun panic2_args :: "env \<Rightarrow> int list \<Rightarrow> 'a mach_scheme \<Rightarrow> 'a mach_scheme option" where
  "panic2_args ev [] s = None"
| "panic2_args ev (arg # args) s =
    (if arg < 0 then Some s
     else (let s = set32 ev HW_GPIO1OUT HW_GPIO1_SENSE s;
               s = udelay_ev (of_int arg * PANIC_ON) s;
               s = clear32 ev HW_GPIO1OUT HW_GPIO1_SENSE s;
               s = udelay_ev PANIC_OFF s
           in panic2_args ev args s))"

definition panic2_start :: "env \<Rightarrow> 'a mach_scheme \<Rightarrow> 'a mach_scheme" where
  "panic2_start ev s = clear32 ev HW_GPIO1OWNER HW_GPIO1_SENSE (clear32 ev HW_GPIO1DIR HW_GPIO1_SENSE
     (clear32 ev HW_GPIO1OUT HW_GPIO1_SENSE s))"

definition panic2_round :: "env \<Rightarrow> int list \<Rightarrow> 'a mach_scheme \<Rightarrow> 'a mach_scheme option" where
  "panic2_round ev args s = do {
     s \<leftarrow> panic2_args ev args s;
     Some (udelay_ev PANIC_INTER s) }"

text \<open>\<^verbatim>\<open>panic2(0, ...)\<close> observed for a number of rounds.\<close>

fun panic2_rounds :: "env \<Rightarrow> int list \<Rightarrow> nat \<Rightarrow> 'a mach_scheme \<Rightarrow> 'a mach_scheme option" where
  "panic2_rounds ev args 0 s = Some s"
| "panic2_rounds ev args (Suc n) s = do { s \<leftarrow> panic2_round ev args s; panic2_rounds ev args n s }"

definition panic2 :: "env \<Rightarrow> int list \<Rightarrow> nat \<Rightarrow> 'a mach_scheme \<Rightarrow> 'a mach_scheme option" where
  "panic2 ev args rounds s = panic2_rounds ev args rounds (panic2_start ev s)"

section \<open>What an observer reads off the lamp\<close>

text \<open>
  The lamp seen from outside: its level follows bit 8 of the output register, and the delays say how
  long it keeps it. \<open>flashes\<close> lists how long the lamp was on each time, in program order; the level
  before the log starts is off. The pair holds the level and the time on so far.
\<close>

fun lamp_of :: "io list \<Rightarrow> bool \<times> nat \<times> nat list" where
  "lamp_of [] = (False, 0, [])"
| "lamp_of (e # l) = (case lamp_of l of (on, t, fs) \<Rightarrow>
     (case e of
        Wr32 a v \<Rightarrow> if a \<noteq> HW_GPIO1OUT then (on, t, fs)
          else if v AND GP_SENSORBAR \<noteq> 0 then (True, t, fs)
          else (False, 0, fs @ (if on then [t] else []))
      | Udelay d \<Rightarrow> (on, if on then t + unat d else t, fs)
      | _ \<Rightarrow> (on, t, fs)))"

definition lamp :: "'a mach_scheme \<Rightarrow> bool \<times> nat \<times> nat list" where
  "lamp s = lamp_of (io_log s)"

text \<open>The number a sequence of long and short flashes spells, least significant bit first.\<close>

fun spelled :: "nat list \<Rightarrow> nat" where
  "spelled [] = 0"
| "spelled (t # ts) = (if t = 600000 then 1 else 0) + 2 * spelled ts"

lemma lamp_access:
  "lamp (udelay_ev d s) = (case lamp s of (on, t, fs) \<Rightarrow> (on, if on then t + unat d else t, fs))"
  "lamp (set32 ev HW_GPIO1OUT GP_SENSORBAR s) = (case lamp s of (on, t, fs) \<Rightarrow> (True, t, fs))"
  "lamp (clear32 ev HW_GPIO1OUT GP_SENSORBAR s) = (case lamp s of (on, t, fs) \<Rightarrow> (False, 0, fs @ (if on then [t] else [])))"
  by (simp_all add: lamp_def udelay_ev_def set32_def clear32_def read32_def write32_def emit_def Let_def
      split_beta bit.conj_disj_distrib2 and.assoc)

lemma lamp_flash:
  assumes "lamp s = (False, 0, fs)"
  shows "lamp (flashSensor ev b d 0 s) = (False, 0, fs @ [unat d])"
  using assms by (simp add: flashSensor_def sensorbarOn_def sensorbarOff_def lamp_access)

lemma blink_bits_spells:
  assumes "lamp s = (False, 0, fs)"
  shows "\<exists>ts. lamp (blink_bits ev x s) = (False, 0, fs @ ts) \<and> spelled ts = unat x \<and> set ts \<subseteq> {300000, 600000}"
  using assms
proof (induction "unat x" arbitrary: x s fs rule: less_induct)
  case less
  define d :: u32 where "d = (if x AND 1 \<noteq> 0 then 600000 else 300000)"
  define t where "t = flashSensor ev 300000 d 0 s"
  have t: "lamp t = (False, 0, fs @ [unat d])" unfolding t_def by (rule lamp_flash [OF less.prems])
  have eq: "blink_bits ev x s = (if drop_bit 1 x \<noteq> 0 then blink_bits ev (drop_bit 1 x) t else t)"
    by (subst blink_bits.simps) (simp add: t_def d_def Let_def)
  have val: "unat x = (if x AND 1 \<noteq> 0 then 1 else 0) + 2 * unat (drop_bit 1 x)"
  proof -
    have "x AND 1 \<noteq> 0 \<longleftrightarrow> odd (unat x)"
      using unat_and_mask [of x 1] by (simp add: word_unat_eq_iff odd_iff_mod_2_eq_one)
    then show ?thesis unfolding unat_half by auto
  qed
  show ?case
  proof (cases "drop_bit 1 x = 0")
    case True
    then have "unat x = (if x AND 1 \<noteq> 0 then 1 else 0)" using val by simp
    with True t eq show ?thesis by (intro exI [of _ "[unat d]"]) (simp add: d_def)
  next
    case False
    obtain ts where "lamp (blink_bits ev (drop_bit 1 x) t) = (False, 0, (fs @ [unat d]) @ ts)"
      "spelled ts = unat (drop_bit 1 x)" "set ts \<subseteq> {300000, 600000}"
      using less.hyps [OF drop_bit_1_decreases [OF False] t] by blast
    with False eq val show ?thesis by (intro exI [of _ "unat d # ts"]) (simp add: d_def)
  qed
qed

text \<open>
  Every round of \<^verbatim>\<open>binaryPanic\<close> flashes the sensor bar in long and short flashes that spell the
  value in binary, least significant bit first, and leaves it dark.
\<close>

theorem binaryPanic_spells:
  "\<exists>tss. lamp (binaryPanic ev v rounds s) = (False, 0, snd (snd (lamp (sensorbarOff ev s))) @ concat tss) \<and>
     length tss = rounds \<and> list_all (\<lambda>ts. spelled ts = unat v \<and> set ts \<subseteq> {300000, 600000}) tss"
proof (induction rounds)
  case 0
  have "lamp (sensorbarOff ev s) = (False, 0, snd (snd (lamp (sensorbarOff ev s))))"
    by (simp add: sensorbarOff_def lamp_access split_beta)
  then show ?case by (simp add: binaryPanic_def)
next
  case (Suc n)
  then obtain tss where tss: "lamp (binaryPanic ev v n s) = (False, 0, snd (snd (lamp (sensorbarOff ev s))) @ concat tss)"
    "length tss = n" "list_all (\<lambda>ts. spelled ts = unat v \<and> set ts \<subseteq> {300000, 600000}) tss" by blast
  let ?t = "udelay_ev 700000 (binaryPanic ev v n s)"
  have "lamp ?t = (False, 0, snd (snd (lamp (sensorbarOff ev s))) @ concat tss)"
    using tss(1) by (simp add: lamp_access)
  from blink_bits_spells [OF this, of ev v] obtain ts where
    "lamp (blink_bits ev v ?t) = (False, 0, (snd (snd (lamp (sensorbarOff ev s))) @ concat tss) @ ts)"
    "spelled ts = unat v" "set ts \<subseteq> {300000, 600000}" by blast
  with tss(2,3) show ?case
    by (intro exI [of _ "tss @ [ts]"]) (simp add: binaryPanic_def binaryPanic_round_def)
qed

end
