(* ===== verification/Exception.thy ===== *)
theory Exception
  imports Panic
begin

text \<open>
  The exception reporter \<^verbatim>\<open>armboot/system/exception.c\<close>: it names the exception, prints the saved
  registers and control registers, decodes the fault status of an abort, dumps the code around the
  faulting address and ends in a flash code. Table accesses and register accesses are checked: an index
  out of range is \<^const>\<open>None\<close>. The assembly that saves the registers and calls the handler is not
  modelled; the fault registers of CP15 are part of the state.
\<close>

section \<open>Tables\<close>

definition exceptions :: "string list" where
  "exceptions = [''RESET'', ''UNDEFINED INSTR'', ''SWI'', ''INSTR ABORT'', ''DATA ABORT'',
     ''RESERVED'', ''IRQ'', ''FIQ'', ''(unknown exception type)'']"

definition aborts :: "string list" where
  "aborts = [''UNDEFINED'', ''Alignment'', ''UNDEFINED'', ''Alignment'', ''UNDEFINED'', ''Translation'',
     ''UNDEFINED'', ''Translation'', ''External abort'', ''Domain'', ''External abort'', ''Domain'',
     ''External abort on translation (first level)'', ''Permission'',
     ''External abort on translation (second level)'', ''Permission'']"

definition domvalid :: "u8 list" where
  "domvalid = [0,0,0,0,0,0,0,1,0,1,0,1,0,1,1,1]"

definition nth_opt :: "'a list \<Rightarrow> nat \<Rightarrow> 'a option" where
  "nth_opt xs i = (if i < length xs then Some (xs ! i) else None)"

section \<open>The handler\<close>

record exc_st = mach +
  cp_ifsr :: u32
  cp_dfsr :: u32
  cp_far :: u32

text \<open>The part of \<^verbatim>\<open>exception_initialize\<close> after the stack setup, which is assembly.\<close>

definition exception_initialize :: "'a mach_scheme \<Rightarrow> 'a mach_scheme" where
  "exception_initialize s = (let cr = cp_cr s; cr = cr OR 0x2 in s\<lparr>cp_cr := cr\<rparr>)"

definition exc_type :: "u32 \<Rightarrow> u32" where
  "exc_type type = (if type > 8 then 8 else type)"

definition exc_pc :: "u32 \<Rightarrow> u32 \<Rightarrow> u32" where
  "exc_pc type r15 = (if type \<in> {1, 2, 3, 7} then r15 - 4 else if type = 4 then r15 - 8 else r15)"

text \<open>
  One line of the code dump: the reads are the arguments of the message, made from left to right (C
  leaves the order open).
\<close>

definition code_line :: "env \<Rightarrow> string \<Rightarrow> u32 \<Rightarrow> 'a mach_scheme \<Rightarrow> 'a mach_scheme" where
  "code_line ev fmt a s =
    (let (v0, s) = read32 ev a s;
         (v1, s) = read32 ev (a + 4) s;
         (v2, s) = read32 ev (a + 8) s;
         (v3, s) = read32 ev (a + 12) s
     in gecko_msg fmt [VInt a, VInt v0, VInt v1, VInt v2, VInt v3] s)"

definition code_dump :: "env \<Rightarrow> u32 \<Rightarrow> 'a mach_scheme \<Rightarrow> 'a mach_scheme" where
  "code_dump ev pc s =
    (let s = gecko_msg ''Code dump:'' [] s;
         s = code_line ev ''%08x:  %08x %08x %08x %08x'' (pc - 16) s;
         s = code_line ev ''%08x: *%08x %08x %08x %08x'' pc s
     in code_line ev ''%08x:  %08x %08x %08x %08x'' (pc + 16) s)"

definition show_registers :: "u32 \<Rightarrow> u32 list \<Rightarrow> u32 \<Rightarrow> 'a mach_scheme \<Rightarrow> 'a mach_scheme option" where
  "show_registers regs_addr regs pc s = do {
     r0 \<leftarrow> nth_opt regs 0; r1 \<leftarrow> nth_opt regs 1; r2 \<leftarrow> nth_opt regs 2; r3 \<leftarrow> nth_opt regs 3;
     r4 \<leftarrow> nth_opt regs 4; r5 \<leftarrow> nth_opt regs 5; r6 \<leftarrow> nth_opt regs 6; r7 \<leftarrow> nth_opt regs 7;
     r8 \<leftarrow> nth_opt regs 8; r9 \<leftarrow> nth_opt regs 9; r10 \<leftarrow> nth_opt regs 10; r11 \<leftarrow> nth_opt regs 11;
     r12 \<leftarrow> nth_opt regs 12; r13 \<leftarrow> nth_opt regs 13; r14 \<leftarrow> nth_opt regs 14;
     let s = gecko_msg ''Registers (%p):'' [VPtr regs_addr] s;
     let s = gecko_msg ''  R0-R3: %08x %08x %08x %08x'' [VInt r0, VInt r1, VInt r2, VInt r3] s;
     let s = gecko_msg ''  R4-R7: %08x %08x %08x %08x'' [VInt r4, VInt r5, VInt r6, VInt r7] s;
     let s = gecko_msg '' R8-R11: %08x %08x %08x %08x'' [VInt r8, VInt r9, VInt r10, VInt r11] s;
     Some (gecko_msg ''R12-R15: %08x %08x %08x %08x'' [VInt r12, VInt r13, VInt r14, VInt pc] s) }"

definition show_abort :: "u32 \<Rightarrow> 'a exc_st_scheme \<Rightarrow> 'a exc_st_scheme option" where
  "show_abort type s =
    (if type = 3 \<or> type = 4 then do {
       let fsr = (if type = 3 then cp_ifsr s else cp_dfsr s);
       name \<leftarrow> nth_opt aborts (unat (fsr AND 0xf));
       let s = gecko_msg ''Abort type: %s'' [VStr (Some name)] s;
       valid \<leftarrow> nth_opt domvalid (unat (fsr AND 0xf));
       let s = (if valid \<noteq> 0 then gecko_msg ''Domain: %d'' [VInt (drop_bit 4 fsr AND 0xf)] s else s);
       Some (if type = 4 then gecko_msg ''Address: 0x%08x'' [VInt (cp_far s)] s else s) }
     else Some s)"

text \<open>The report up to the final flash code.\<close>

definition exc_report :: "env \<Rightarrow> u32 \<Rightarrow> u32 \<Rightarrow> u32 \<Rightarrow> u32 list \<Rightarrow> 'a exc_st_scheme \<Rightarrow> 'a exc_st_scheme option" where
  "exc_report ev type spsr regs_addr regs s = do {
     let type = exc_type type;
     name \<leftarrow> nth_opt exceptions (unat type);
     let s = gecko_msg (CHR 0x0A # ''Exception %d (%s):'') [VInt type, VStr (Some name)] s;
     r15 \<leftarrow> nth_opt regs 15;
     let pc = exc_pc type r15;
     s \<leftarrow> show_registers regs_addr regs pc s;
     let s = gecko_msg ''SPSR: %08x'' [VInt spsr] s;
     let s = gecko_msg ''CPSR: %08x'' [VInt (cpsr s)] s;
     let s = gecko_msg ''CR:   %08x'' [VInt (cp_cr s)] s;
     let s = gecko_msg ''TTBR: %08x'' [VInt (cp_ttbr s)] s;
     let s = gecko_msg ''DACR: %08x'' [VInt (cp_dacr s)] s;
     s \<leftarrow> show_abort type s;
     Some (if type \<noteq> 3 then code_dump ev pc s else s) }"

definition exc_handler ::
  "env \<Rightarrow> u32 \<Rightarrow> u32 \<Rightarrow> u32 \<Rightarrow> u32 list \<Rightarrow> nat \<Rightarrow> 'a exc_st_scheme \<Rightarrow> 'a exc_st_scheme option"
where
  "exc_handler ev type spsr regs_addr regs rounds s = do {
     s \<leftarrow> exc_report ev type spsr regs_addr regs s;
     panic2 ev [1, 3, 1, -1] rounds s }"

section \<open>The report stays inside its tables\<close>

lemma exc_type_index: "unat (exc_type type) < length exceptions"
proof -
  have "exc_type type \<le> 8" by (simp add: exc_type_def not_less)
  then have "unat (exc_type type) \<le> unat (8 :: u32)" by (simp only: word_le_nat_alt)
  then show ?thesis by (simp add: exceptions_def)
qed

lemma fsr_index: "unat (fsr AND 0xf) < length aborts" "unat (fsr AND 0xf) < length domvalid" for fsr :: u32
proof -
  have "unat (fsr AND mask 4) < 16" by (simp add: unat_and_mask)
  then show "unat (fsr AND 0xf) < length aborts" "unat (fsr AND 0xf) < length domvalid"
    by (simp_all add: aborts_def domvalid_def mask_eq_exp_minus_1)
qed

lemma nth_opt_in [simp]: "i < length xs \<Longrightarrow> nth_opt xs i = Some (xs ! i)"
  by (simp add: nth_opt_def)

lemma panic2_returns: "list_all (\<lambda>a. 0 \<le> a) as \<Longrightarrow> a < 0 \<Longrightarrow> \<exists>s'. panic2 ev (as @ [a]) n s = Some s'"
proof -
  assume args: "list_all (\<lambda>a. 0 \<le> a) as" "a < 0"
  have "\<exists>s'. panic2_args ev (as @ [a]) s = Some s'" for s :: "'a mach_scheme"
    using args(1) by (induction as arbitrary: s) (simp_all add: args(2) Let_def)
  then have "\<exists>s'. panic2_round ev (as @ [a]) s = Some s'" for s :: "'a mach_scheme"
    by (simp add: panic2_round_def)
  then have "\<exists>s'. panic2_rounds ev (as @ [a]) n s = Some s'" for s :: "'a mach_scheme"
    by (induction n arbitrary: s) (simp, metis bind.bind_lunit panic2_rounds.simps(2))
  then show ?thesis by (simp add: panic2_def)
qed

text \<open>
  \<open>reports M s s'\<close>: from \<open>s\<close> to \<open>s'\<close> nothing but messages and register reads happened, all messages in
  \<open>M\<close> among them, and the processor state is the same.
\<close>

fun report_event :: "io \<Rightarrow> bool" where
  "report_event (Msg f as) = True"
| "report_event (Rd32 a v) = True"
| "report_event _ = False"

definition reports :: "io set \<Rightarrow> 'a mach_scheme \<Rightarrow> 'a mach_scheme \<Rightarrow> bool" where
  "reports M s s' \<longleftrightarrow> (\<exists>es. s' = s\<lparr>io_log := es @ io_log s\<rparr> \<and> list_all report_event es \<and> M \<subseteq> set es)"

lemma reports_refl: "reports {} s s"
  unfolding reports_def by (rule exI [of _ "[]"]) simp

lemma reports_trans: "reports M s t \<Longrightarrow> reports N t u \<Longrightarrow> reports (M \<union> N) s u"
  unfolding reports_def by (elim exE conjE, rule_tac x = "esa @ es" in exI) auto

lemma reports_mono: "reports M s t \<Longrightarrow> N \<subseteq> M \<Longrightarrow> reports N s t"
  unfolding reports_def by blast

lemma reports_emit: "report_event e \<Longrightarrow> reports {e} s (emit e s)"
  unfolding reports_def emit_def by (rule exI [of _ "[e]"]) simp

lemma reports_msg: "reports M s t \<Longrightarrow> reports (insert (Msg f as) M) s (gecko_msg f as t)"
  using reports_trans [OF _ reports_emit [of "Msg f as"], of M s t] by (simp add: gecko_msg_def)

lemma reports_msg_drop: "reports M s t \<Longrightarrow> reports M s (gecko_msg f as t)"
  by (erule reports_mono [OF reports_msg]) blast

lemma reports_read: "reports M s t \<Longrightarrow> reports M s (snd (read32 ev a t))"
  using reports_trans [OF _ reports_emit [of "Rd32 a (ev (io_log t) a)"], of M s t]
  by (auto simp: read32_def Let_def intro: reports_mono)

lemma reports_code: "reports M s t \<Longrightarrow> reports M s (code_dump ev pc t)"
  unfolding code_dump_def code_line_def Let_def split_beta by (intro reports_msg_drop reports_read)

lemma show_registers_reports:
  assumes "length regs = 16" "reports M s t"
  shows "\<exists>u. show_registers addr regs pc t = Some u \<and> reports M s u"
  using assms by (simp add: show_registers_def Let_def reports_msg_drop)

text \<open>The message for the fault status of an instruction or a data abort.\<close>

definition abort_message :: "u32 \<Rightarrow> io" where
  "abort_message fsr = Msg ''Abort type: %s'' [VStr (Some (aborts ! unat (fsr AND 0xf)))]"

lemma show_abort_reports:
  assumes "reports M s t"
  shows "\<exists>u. show_abort type t = Some u \<and> reports (if type = 3 then insert (abort_message (cp_ifsr t)) M
    else if type = 4 then insert (abort_message (cp_dfsr t)) M else M) s u"
proof -
  have a: "reports (insert (abort_message fsr) M) s
      (gecko_msg ''Abort type: %s'' [VStr (Some (aborts ! unat (fsr AND 0xf)))] t)" for fsr
    unfolding abort_message_def by (rule reports_msg [OF assms])
  show ?thesis
    using assms a [of "cp_ifsr t"] a [of "cp_dfsr t"]
    by (simp add: show_abort_def Let_def fsr_index reports_msg_drop)
qed

lemma reports_fault: "reports M s t \<Longrightarrow> cp_ifsr t = cp_ifsr s \<and> cp_dfsr t = cp_dfsr s"
  by (auto simp: reports_def)

lemma msg_fields:
  "cp_cr (gecko_msg f as s) = cp_cr s" "cp_ttbr (gecko_msg f as s) = cp_ttbr s" "cp_dacr (gecko_msg f as s) = cp_dacr s"
  by (simp_all add: gecko_msg_def emit_def)

lemma exc_report_ok:
  assumes "length regs = 16"
  shows "\<exists>s'. exc_report ev type spsr regs_addr regs s = Some s' \<and> reports
      ({Msg (CHR 0x0A # ''Exception %d (%s):'') [VInt (exc_type type), VStr (Some (exceptions ! unat (exc_type type)))]}
       \<union> (if exc_type type = 3 then {abort_message (cp_ifsr s)}
          else if exc_type type = 4 then {abort_message (cp_dfsr s)} else {})) s s'"
proof -
  let ?ty = "exc_type type"
  let ?M = "{Msg (CHR 0x0A # ''Exception %d (%s):'') [VInt ?ty, VStr (Some (exceptions ! unat ?ty))]}"
  define m where "m = gecko_msg (CHR 0x0A # ''Exception %d (%s):'') [VInt ?ty, VStr (Some (exceptions ! unat ?ty))] s"
  have "reports ?M s m" unfolding m_def by (rule reports_msg [OF reports_refl])
  from show_registers_reports [OF assms this] obtain r where
    r: "show_registers regs_addr regs (exc_pc ?ty (regs ! 15)) m = Some r" "reports ?M s r" by blast
  define c where "c = gecko_msg ''DACR: %08x'' [VInt (cp_dacr r)] (gecko_msg ''TTBR: %08x'' [VInt (cp_ttbr r)]
    (gecko_msg ''CR:   %08x'' [VInt (cp_cr r)] (gecko_msg ''CPSR: %08x'' [VInt (cpsr r)]
    (gecko_msg ''SPSR: %08x'' [VInt spsr] r))))"
  have c: "reports ?M s c" unfolding c_def by (intro reports_msg_drop r(2))
  obtain u where u: "show_abort ?ty c = Some u" "reports (if ?ty = 3 then insert (abort_message (cp_ifsr c)) ?M
    else if ?ty = 4 then insert (abort_message (cp_dfsr c)) ?M else ?M) s u"
    using show_abort_reports [OF c] by blast
  have "exc_report ev type spsr regs_addr regs s = Some (if ?ty \<noteq> 3 then code_dump ev (exc_pc ?ty (regs ! 15)) u else u)"
    using r(1) u(1) assms by (simp add: exc_report_def Let_def exc_type_index m_def [symmetric] c_def msg_fields)
  with reports_code [OF u(2)] u(2) reports_fault [OF c] show ?thesis by (auto simp: insert_commute)
qed

text \<open>
  C36: for every exception number, every fault status and every saved file of sixteen registers the
  report is complete: no table or register index is out of range, the exception is named (numbers
  above 8 by the last entry), an abort is decoded from its own fault register, only messages and
  reads are issued and the processor state is left alone; and the handler then enters its flash code.
\<close>

theorem exc_handler_total:
  assumes "length regs = 16"
  shows "(\<exists>s'. exc_report ev type spsr regs_addr regs s = Some s' \<and> reports
      ({Msg (CHR 0x0A # ''Exception %d (%s):'') [VInt (exc_type type), VStr (Some (exceptions ! unat (exc_type type)))]}
       \<union> (if exc_type type = 3 then {abort_message (cp_ifsr s)}
          else if exc_type type = 4 then {abort_message (cp_dfsr s)} else {})) s s')
    \<and> (\<exists>s'. exc_handler ev type spsr regs_addr regs rounds s = Some s')"
proof -
  have "\<exists>s'. panic2 ev [1, 3, 1, -1] rounds t = Some s'" for t :: "'a exc_st_scheme"
    using panic2_returns [of "[1, 3, 1]" "-1"] by simp
  with exc_report_ok [OF assms, of ev type spsr regs_addr s] show ?thesis
    by (auto simp: exc_handler_def)
qed

definition exc_demo :: exc_st where
  "exc_demo = \<lparr>io_log = [], cpsr = 0xd7, cp_cr = 0, cp_ttbr = 0, cp_dacr = 0,
     cp_ifsr = 0, cp_dfsr = 0x15, cp_far = 0x30000000\<rparr>"

theorem exc_handler_total_witness:
  "\<exists>s'. exc_report (\<lambda>_ _. 0) 4 0x1f 0xfff00000 (replicate 16 0) exc_demo = Some s' \<and>
     Msg ''Abort type: %s'' [VStr (Some ''Translation'')] \<in> set (io_log s')"
proof -
  have "abort_message (cp_dfsr exc_demo) = Msg ''Abort type: %s'' [VStr (Some ''Translation'')]"
    by (simp add: abort_message_def exc_demo_def aborts_def)
  moreover have "exc_type 4 = 4" by (simp add: exc_type_def)
  ultimately obtain s' where "exc_report (\<lambda>_ _. 0) 4 0x1f 0xfff00000 (replicate 16 0) exc_demo = Some s'"
    "reports ({Msg (CHR 0x0A # ''Exception %d (%s):'') [VInt 4, VStr (Some (exceptions ! unat (4 :: u32)))]}
      \<union> {Msg ''Abort type: %s'' [VStr (Some ''Translation'')]}) exc_demo s'"
    using exc_handler_total [of "replicate 16 0" "\<lambda>_ _. 0" 4 "0x1f" "0xfff00000" exc_demo 0] by auto
  then show ?thesis by (auto simp: reports_def)
qed

end
