(* ===== verification/ElfLoader.thy ===== *)
theory ElfLoader
  imports CString Panic
begin

text \<open>
  The stub of \<^verbatim>\<open>armboot/elfloader\<close> that is started in front of the firmware: it finds the ELF image
  behind the boot header, copies its loadable segments to their physical addresses and returns the
  entry point. The processor is big-endian, and so is the image; the memory is the flat byte memory of
  the string library, whose \<^verbatim>\<open>memcpy\<close> the stub uses (\<^verbatim>\<open>elfloader/string.c\<close> repeats
  \<^verbatim>\<open>common/string.c\<close>). Accesses outside the memory are \<^const>\<open>None\<close>.
\<close>

section \<open>The code\<close>

definition ld16 :: "memory \<Rightarrow> u32 \<Rightarrow> u16 option" where
  "ld16 m a = do { b0 \<leftarrow> load m (uint a); b1 \<leftarrow> load m (uint a + 1); Some (be16 b0 b1) }"

definition ld32 :: "memory \<Rightarrow> u32 \<Rightarrow> u32 option" where
  "ld32 m a = do { b0 \<leftarrow> load m (uint a); b1 \<leftarrow> load m (uint a + 1);
     b2 \<leftarrow> load m (uint a + 2); b3 \<leftarrow> load m (uint a + 3); Some (be32 b0 b1 b2 b3) }"

text \<open>\<^verbatim>\<open>memcmp\<close> of a string literal with memory: whether they differ.\<close>

fun literal_differs :: "u8 list \<Rightarrow> memory \<Rightarrow> int \<Rightarrow> bool option" where
  "literal_differs [] m a = Some False"
| "literal_differs (b # bs) m a = do { c \<leftarrow> load m a; if b \<noteq> c then Some True else literal_differs bs m (a + 1) }"

definition elf_magic :: "u8 list" where
  "elf_magic = [0x7F, 0x45, 0x4C, 0x46, 0x01, 0x02, 0x01]"

abbreviation (input) "PT_LOAD \<equiv> 1 :: u32"

text \<open>A panic never returns, so it is an outcome of its own.\<close>

datatype loaded = Entry u32 memory | Panic u8

fun load_segments :: "u32 \<Rightarrow> nat \<Rightarrow> u32 \<Rightarrow> memory \<Rightarrow> memory option" where
  "load_segments elf 0 phdr m = Some m"
| "load_segments elf (Suc count) phdr m = do {
     p_type \<leftarrow> ld32 m phdr;
     m \<leftarrow> (if p_type = PT_LOAD then do {
             p_offset \<leftarrow> ld32 m (phdr + 4);
             p_paddr \<leftarrow> ld32 m (phdr + 12);
             p_filesz \<leftarrow> ld32 m (phdr + 16);
             memcpy m (uint p_paddr) (uint (elf + p_offset)) (uint p_filesz) }
           else Some m);
     load_segments elf count (phdr + 32) m }"

definition loadelf :: "u32 \<Rightarrow> memory \<Rightarrow> loaded option" where
  "loadelf elf m = do {
     differs \<leftarrow> literal_differs elf_magic m (uint elf);
     (if differs then Some (Panic 0xE3) else do {
       e_phoff \<leftarrow> ld32 m (elf + 28);
       (if e_phoff = 0 then Some (Panic 0xE4) else do {
         e_phnum \<leftarrow> ld16 m (elf + 44);
         m \<leftarrow> load_segments elf (unat e_phnum) (elf + e_phoff) m;
         e_entry \<leftarrow> ld32 m (elf + 24);
         Some (Entry e_entry m) }) }) }"

definition disable_boot0 :: "env \<Rightarrow> 'a mach_scheme \<Rightarrow> 'a mach_scheme" where
  "disable_boot0 ev s = set32 ev 0x0d80018c 0x1000 s"

definition stub_setswap :: "env \<Rightarrow> 'a mach_scheme \<Rightarrow> 'a mach_scheme" where
  "stub_setswap ev s = set32 ev 0x0d800060 0x20 s"

text \<open>\<^verbatim>\<open>_main\<close>: the outcome, and the register accesses made on the way.\<close>

definition stub_main :: "env \<Rightarrow> u32 \<Rightarrow> memory \<Rightarrow> 'a mach_scheme \<Rightarrow> (loaded \<times> 'a mach_scheme) option" where
  "stub_main ev base m s = do {
     hdrsize \<leftarrow> ld32 m base;
     loadersize \<leftarrow> ld32 m (base + 4);
     let elf = base + (hdrsize + loadersize);
     let s = debug_output ev 0xF1 s;
     let s = stub_setswap ev s;
     let s = disable_boot0 ev s;
     r \<leftarrow> loadelf elf m;
     Some (r, case r of Entry e m' \<Rightarrow> debug_output ev 0xC1 s | Panic v \<Rightarrow> s) }"

text \<open>\<^verbatim>\<open>udelay\<close> and \<^verbatim>\<open>panic\<close> of \<^verbatim>\<open>elfloader/utils.c\<close>: the counter is reset for every delay.\<close>

definition stub_udelay :: "env \<Rightarrow> u32 \<Rightarrow> 'a mach_scheme \<Rightarrow> 'a mach_scheme option" where
  "stub_udelay ev d s =
    (let ticks = d * 19 div 10; s = write32 0x0d800010 0 s in poll ev 0x0d800010 (\<lambda>v. v < ticks) s)"

definition stub_panic_round :: "env \<Rightarrow> u8 \<Rightarrow> 'a mach_scheme \<Rightarrow> 'a mach_scheme option" where
  "stub_panic_round ev v s = do {
     let s = debug_output ev v s;
     s \<leftarrow> stub_udelay ev 500000 s;
     let s = debug_output ev 0 s;
     stub_udelay ev 500000 s }"

section \<open>Images\<close>

record segment =
  seg_type :: u32
  seg_offset :: u32
  seg_paddr :: u32
  seg_filesz :: u32

definition phdr_at :: "memory \<Rightarrow> u32 \<Rightarrow> segment \<Rightarrow> bool" where
  "phdr_at m a g \<longleftrightarrow> ld32 m a = Some (seg_type g) \<and> ld32 m (a + 4) = Some (seg_offset g)
     \<and> ld32 m (a + 12) = Some (seg_paddr g) \<and> ld32 m (a + 16) = Some (seg_filesz g)"

text \<open>
  \<open>elf_image m elf n entry segs\<close>: a complete image of \<open>n\<close> bytes stands at \<open>elf\<close>, with the given entry
  point and program headers, and everything its headers point to lies inside it.
\<close>

definition elf_image :: "memory \<Rightarrow> u32 \<Rightarrow> int \<Rightarrow> u32 \<Rightarrow> segment list \<Rightarrow> bool" where
  "elf_image m elf n entry segs \<longleftrightarrow>
     literal_differs elf_magic m (uint elf) = Some False
     \<and> 52 \<le> n \<and> uint elf + n \<le> int (length m) \<and> uint elf + n < 2 ^ 32
     \<and> ld32 m (elf + 24) = Some entry \<and> ld16 m (elf + 44) = Some (of_nat (length segs)) \<and> length segs < 2 ^ 16
     \<and> (\<exists>phoff. ld32 m (elf + 28) = Some phoff \<and> phoff \<noteq> 0 \<and> uint phoff + 32 * int (length segs) \<le> n
         \<and> (\<forall>i < length segs. phdr_at m (elf + phoff + of_nat (32 * i)) (segs ! i)))
     \<and> (\<forall>g \<in> set segs. seg_type g = PT_LOAD \<longrightarrow> uint (seg_offset g) + uint (seg_filesz g) \<le> n)"

text \<open>The destination of a segment lies in memory and apart from the image.\<close>

definition target_ok :: "memory \<Rightarrow> u32 \<Rightarrow> int \<Rightarrow> segment \<Rightarrow> bool" where
  "target_ok m elf n g \<longleftrightarrow> seg_type g = PT_LOAD \<longrightarrow>
     uint (seg_paddr g) + uint (seg_filesz g) \<le> int (length m) \<and>
     (uint (seg_paddr g) + uint (seg_filesz g) \<le> uint elf \<or> uint elf + n \<le> uint (seg_paddr g))"

text \<open>The byte at \<open>a\<close> afterwards: from the last loadable segment that covers it, else the old one.\<close>

definition covers :: "segment \<Rightarrow> int \<Rightarrow> bool" where
  "covers g a \<longleftrightarrow> seg_type g = PT_LOAD \<and> uint (seg_paddr g) \<le> a \<and> a < uint (seg_paddr g) + uint (seg_filesz g)"

definition loaded_byte :: "memory \<Rightarrow> u32 \<Rightarrow> int \<Rightarrow> u8 option \<Rightarrow> segment list \<Rightarrow> u8 option" where
  "loaded_byte m elf a = foldl (\<lambda>v g. if covers g a
     then load m (uint elf + uint (seg_offset g) + (a - uint (seg_paddr g))) else v)"

section \<open>Loading\<close>

definition agree :: "memory \<Rightarrow> memory \<Rightarrow> int \<Rightarrow> int \<Rightarrow> bool" where
  "agree m m' lo hi \<longleftrightarrow> (\<forall>a. lo \<le> a \<and> a < hi \<longrightarrow> load m' a = load m a)"

lemma ld_agree:
  "agree m m' lo hi \<Longrightarrow> lo \<le> uint a \<Longrightarrow> uint a + 4 \<le> hi \<Longrightarrow> ld32 m' a = ld32 m a"
  "agree m m' lo hi \<Longrightarrow> lo \<le> uint a \<Longrightarrow> uint a + 2 \<le> hi \<Longrightarrow> ld16 m' a = ld16 m a"
  by (simp_all add: agree_def ld32_def ld16_def)

lemma uint_add: "uint a + uint b < 2 ^ 32 \<Longrightarrow> uint (a + b) = uint a + uint b" for a b :: u32
  using uint_add_lem [of a b] by simp

lemma phdr_agree:
  assumes "agree m m' lo hi" "lo \<le> uint a" "uint a + 32 \<le> hi" "hi < 2 ^ 32"
  shows "phdr_at m' a g \<longleftrightarrow> phdr_at m a g"
proof -
  have "uint (a + 4) = uint a + 4" "uint (a + 12) = uint a + 12" "uint (a + 16) = uint a + 16"
    using uint_add [of a 4] uint_add [of a 12] uint_add [of a 16] assms(3,4) by simp_all
  then show ?thesis using assms by (simp add: phdr_at_def ld_agree [OF assms(1)])
qed

lemma load_segment_ok:
  assumes "agree m0 m (uint elf) (uint elf + n)" "length m = length m0" "uint elf + n \<le> int (length m0)"
    and "seg_type g = PT_LOAD" "target_ok m0 elf n g" "uint (seg_offset g) + uint (seg_filesz g) \<le> n" "uint elf + n < 2 ^ 32"
  shows "\<exists>m'. memcpy m (uint (seg_paddr g)) (uint (elf + seg_offset g)) (uint (seg_filesz g)) = Some m'
    \<and> length m' = length m0 \<and> agree m0 m' (uint elf) (uint elf + n)
    \<and> (\<forall>a. load m' a = (if covers g a then load m0 (uint elf + uint (seg_offset g) + (a - uint (seg_paddr g))) else load m a))"
proof -
  let ?d = "uint (seg_paddr g)" and ?l = "uint (seg_filesz g)" and ?o = "uint (seg_offset g)"
  have nn: "0 \<le> ?d" "0 \<le> ?l" "0 \<le> ?o" "0 \<le> uint elf" by simp_all
  have src: "uint (elf + seg_offset g) = uint elf + ?o" using assms(6,7) nn by (intro uint_add) linarith
  have tgt: "?d + ?l \<le> int (length m)" "?d + ?l \<le> uint elf \<or> uint elf + n \<le> ?d"
    using assms(2,4,5) by (simp_all add: target_ok_def)
  have "?d \<le> uint elf + ?o \<or> uint elf + ?o + ?l \<le> ?d" using tgt(2) assms(6) nn by linarith
  moreover have "uint elf + ?o + ?l \<le> int (length m)" using assms(2,3,6) by simp
  ultimately obtain m' where m': "memcpy m ?d (uint elf + ?o) ?l = Some m'" "length m' = length m"
    "\<And>a. load m' a = (if ?d \<le> a \<and> a < ?d + ?l then load m (a - ?d + (uint elf + ?o)) else load m a)"
    using memcpy_ok [of ?d ?l m "uint elf + ?o"] tgt(1) nn by (metis add_nonneg_nonneg)
  have "load m (a - ?d + (uint elf + ?o)) = load m0 (uint elf + ?o + (a - ?d))" if "?d \<le> a" "a < ?d + ?l" for a
  proof -
    have "load m (uint elf + ?o + (a - ?d)) = load m0 (uint elf + ?o + (a - ?d))"
      using assms(1) unfolding agree_def by (elim allE impE) (use assms(6) that nn in auto)
    then show ?thesis by (simp add: algebra_simps)
  qed
  moreover have "agree m0 m' (uint elf) (uint elf + n)"
    using assms(1) tgt(2) by (auto simp: agree_def m'(3))
  ultimately show ?thesis using m' assms(2,4) by (auto simp: src covers_def)
qed

lemma load_segments_ok:
  assumes "agree m0 m (uint elf) (uint elf + n)" "length m = length m0" "uint elf + n \<le> int (length m0)" "uint elf + n < 2 ^ 32"
    and "\<forall>i < length segs. phdr_at m0 (phdr + of_nat (32 * i)) (segs ! i)"
    and "uint elf \<le> uint phdr" "uint phdr + 32 * int (length segs) \<le> uint elf + n"
    and "\<forall>g \<in> set segs. target_ok m0 elf n g \<and> (seg_type g = PT_LOAD \<longrightarrow> uint (seg_offset g) + uint (seg_filesz g) \<le> n)"
  shows "\<exists>m'. load_segments elf (length segs) phdr m = Some m' \<and> length m' = length m0
    \<and> agree m0 m' (uint elf) (uint elf + n) \<and> (\<forall>a. load m' a = loaded_byte m0 elf a (load m a) segs)"
  using assms(1,2,5-)
proof (induction segs arbitrary: m phdr)
  case Nil
  then show ?case by (simp add: loaded_byte_def)
next
  case (Cons g segs)
  have up: "uint (phdr + 32) = uint phdr + 32" using uint_add [of phdr 32] Cons.prems(5) assms(4) by simp
  have "phdr_at m0 phdr g" using Cons.prems(3) [rule_format, of 0] by simp
  then have g: "phdr_at m phdr g"
    using phdr_agree [OF Cons.prems(1,4) _ assms(4), of g] Cons.prems(5) by simp
  have rest: "\<forall>i < length segs. phdr_at m0 (phdr + 32 + of_nat (32 * i)) (segs ! i)"
    using Cons.prems(3) by (auto simp: algebra_simps dest: spec [of _ "Suc _"])
  obtain t where t: "(if seg_type g = PT_LOAD then memcpy m (uint (seg_paddr g)) (uint (elf + seg_offset g)) (uint (seg_filesz g))
      else Some m) = Some t" "length t = length m0" "agree m0 t (uint elf) (uint elf + n)"
    "\<And>a. load t a = (if covers g a then load m0 (uint elf + uint (seg_offset g) + (a - uint (seg_paddr g))) else load m a)"
  proof (cases "seg_type g = PT_LOAD")
    case True
    then show ?thesis
      using load_segment_ok [OF Cons.prems(1,2) assms(3) True _ _ assms(4)] Cons.prems(6) that by auto
  qed (use Cons.prems(1,2) that in \<open>auto simp: covers_def\<close>)
  obtain u where u: "load_segments elf (length segs) (phdr + 32) t = Some u" "length u = length m0"
    "agree m0 u (uint elf) (uint elf + n)" "\<forall>a. load u a = loaded_byte m0 elf a (load t a) segs"
    using Cons.IH [OF t(3,2) rest] Cons.prems(4,5,6) up by auto
  have "load_segments elf (length (g # segs)) phdr m = Some u"
    using g t(1) u(1) by (auto simp: phdr_at_def split: if_splits)
  moreover have "load u a = loaded_byte m0 elf a (load m a) (g # segs)" for a
    using u(4) t(4) by (simp add: loaded_byte_def)
  ultimately show ?case using u(2,3) by blast
qed

text \<open>
  C35: a well-formed image whose segments go to memory outside the image is loaded: the stub returns the
  entry point, every byte covered by a loadable segment has the value the last such segment gives it in
  the file, and every other byte of memory, the image included, is unchanged.
\<close>

theorem loadelf_loads:
  assumes "elf_image m elf n entry segs" "\<forall>g \<in> set segs. target_ok m elf n g"
  shows "\<exists>m'. loadelf elf m = Some (Entry entry m') \<and> length m' = length m
    \<and> (\<forall>a. load m' a = loaded_byte m elf a (load m a) segs)
    \<and> (\<forall>a. uint elf \<le> a \<and> a < uint elf + n \<longrightarrow> load m' a = load m a)"
proof -
  obtain phoff where img: "literal_differs elf_magic m (uint elf) = Some False" "52 \<le> n" "uint elf + n \<le> int (length m)"
    "uint elf + n < 2 ^ 32" "ld32 m (elf + 24) = Some entry" "ld16 m (elf + 44) = Some (of_nat (length segs))"
    "length segs < 2 ^ 16" "ld32 m (elf + 28) = Some phoff" "phoff \<noteq> 0" "uint phoff + 32 * int (length segs) \<le> n"
    "\<forall>i < length segs. phdr_at m (elf + phoff + of_nat (32 * i)) (segs ! i)"
    "\<forall>g \<in> set segs. seg_type g = PT_LOAD \<longrightarrow> uint (seg_offset g) + uint (seg_filesz g) \<le> n"
    using assms(1) unfolding elf_image_def by blast
  have ph: "uint (elf + phoff) = uint elf + uint phoff" using img(4,10) by (intro uint_add) linarith
  have cnt: "unat (of_nat (length segs) :: u16) = length segs" using img(7) by (simp add: unat_of_nat take_bit_nat_eq_self)
  obtain m' where m': "load_segments elf (length segs) (elf + phoff) m = Some m'" "length m' = length m"
    "agree m m' (uint elf) (uint elf + n)" "\<forall>a. load m' a = loaded_byte m elf a (load m a) segs"
    using load_segments_ok [of m m elf n segs "elf + phoff"] img assms(2) ph by (auto simp: agree_def)
  have "uint (elf + 24) = uint elf + 24" using uint_add [of elf 24] img(2,4) by simp
  then have "ld32 m' (elf + 24) = Some entry" using ld_agree(1) [OF m'(3), of "elf + 24"] img(2,5) by simp
  then have "loadelf elf m = Some (Entry entry m')"
    using img(1,6,8,9) m'(1) by (simp add: loadelf_def cnt)
  with m' show ?thesis by (auto simp: agree_def)
qed

text \<open>A file that does not start with the big-endian ELF magic, or has no program headers, stops the stub.\<close>

lemma loadelf_rejects:
  "literal_differs elf_magic m (uint elf) = Some True \<Longrightarrow> loadelf elf m = Some (Panic 0xE3)"
  "literal_differs elf_magic m (uint elf) = Some False \<Longrightarrow> ld32 m (elf + 28) = Some 0 \<Longrightarrow> loadelf elf m = Some (Panic 0xE4)"
  by (simp_all add: loadelf_def)

text \<open>An image of 88 bytes at address 8 with one segment of four bytes for address 0, entered at 0.\<close>

definition demo_elf :: memory where
  "demo_elf = replicate 8 0xAA @ elf_magic @ replicate 9 0 @ replicate 8 0 @ [0, 0, 0, 0] @ [0, 0, 0, 52]
     @ replicate 12 0 @ [0, 1] @ replicate 6 0
     @ [0, 0, 0, 1] @ [0, 0, 0, 84] @ [0, 0, 0, 0] @ [0, 0, 0, 2] @ [0, 0, 0, 4] @ replicate 12 0 @ [1, 2, 3, 4]"

definition demo_seg :: segment where
  "demo_seg = \<lparr>seg_type = 1, seg_offset = 84, seg_paddr = 2, seg_filesz = 4\<rparr>"

lemma demo_elf_words:
  "literal_differs elf_magic demo_elf 8 = Some False" "ld32 demo_elf 32 = Some 0" "ld32 demo_elf 36 = Some 52"
  "ld16 demo_elf 52 = Some 1" "ld32 demo_elf 60 = Some 1" "ld32 demo_elf 64 = Some 84" "ld32 demo_elf 72 = Some 2"
  "ld32 demo_elf 76 = Some 4" "load demo_elf 93 = Some 2" "load demo_elf 6 = Some 0xAA"
  by code_simp+

lemma demo_elf_length: "length demo_elf = 96"
  by (simp add: demo_elf_def elf_magic_def)

lemma demo_elf_image: "elf_image demo_elf 8 88 0 [demo_seg]"
  unfolding elf_image_def
  by (simp add: demo_elf_words demo_elf_length phdr_at_def) (simp add: demo_elf_words demo_seg_def)

theorem loadelf_loads_witness:
  "\<exists>m'. loadelf 8 demo_elf = Some (Entry 0 m') \<and> load m' 3 = Some 2 \<and> load m' 6 = Some 0xAA"
proof -
  have "\<forall>g \<in> set [demo_seg]. target_ok demo_elf 8 88 g"
    by (simp add: target_ok_def demo_seg_def demo_elf_length)
  from loadelf_loads [OF demo_elf_image this] obtain m' where
    m': "loadelf 8 demo_elf = Some (Entry 0 m')" "\<And>a. load m' a = loaded_byte demo_elf 8 a (load demo_elf a) [demo_seg]"
    by blast
  have "load m' 3 = Some 2" "load m' 6 = Some 0xAA"
    by (simp_all add: m'(2) loaded_byte_def covers_def demo_seg_def demo_elf_words)
  with m'(1) show ?thesis by blast
qed

end
