(* ===== verification/Boot.thy ===== *)
theory Boot
  imports Dump Gecko Crypto Panic Exception
begin

text \<open>
  \<^verbatim>\<open>armboot/main.c\<close>: bringing the machine up, mounting, dumping and the way down to the reset. The
  drivers' states meet here: \<open>boot_st\<close> is the state below the file system with the variables of the console
  and the crypto driver beside it.
\<close>

section \<open>The drivers side by side\<close>

record boot_st = disk_st +
  b_gecko_enabled :: u8
  b_otp :: "u32 list"
  b_seeprom :: "u16 list"
  b_aes_irq :: bool

text \<open>Running the console's and the crypto driver's functions on their part of the state.\<close>

definition with_gecko :: "(gecko_st \<Rightarrow> gecko_st option) \<Rightarrow> boot_st \<Rightarrow> boot_st option" where
  "with_gecko f s = do {
     g \<leftarrow> f \<lparr>io_log = io_log s, cpsr = cpsr s, cp_cr = cp_cr s, cp_ttbr = cp_ttbr s, cp_dacr = cp_dacr s,
        gecko_enabled = b_gecko_enabled s\<rparr>;
     Some (s\<lparr>io_log := io_log g, cpsr := cpsr g, cp_cr := cp_cr g, cp_ttbr := cp_ttbr g, cp_dacr := cp_dacr g,
        b_gecko_enabled := gecko_enabled g\<rparr>) }"

definition with_crypto :: "(crypto_st \<Rightarrow> crypto_st option) \<Rightarrow> boot_st \<Rightarrow> boot_st option" where
  "with_crypto f s = do {
     c \<leftarrow> f \<lparr>io_log = io_log s, cpsr = cpsr s, cp_cr = cp_cr s, cp_ttbr = cp_ttbr s, cp_dacr = cp_dacr s,
        otp = b_otp s, seeprom = b_seeprom s, aes_irq_flag = b_aes_irq s\<rparr>;
     Some (s\<lparr>io_log := io_log c, cpsr := cpsr c, cp_cr := cp_cr c, cp_ttbr := cp_ttbr c, cp_dacr := cp_dacr c,
        b_otp := otp c, b_seeprom := seeprom c, b_aes_irq := aes_irq_flag c\<rparr>) }"

section \<open>Up\<close>

abbreviation (input) "HW_RESETS \<equiv> 0x0d800194 :: u32"

definition show_flags :: "env \<Rightarrow> boot_st \<Rightarrow> boot_st" where
  "show_flags ev s =
    (let (a, s) = read32 ev 0xffffff00 s;
         (b, s) = read32 ev 0xffffff04 s;
         (c, s) = read32 ev 0xffffff08 s;
         s = gecko_msg ''IOSflags: %08x %08x %08x'' [VInt a, VInt b, VInt c] s;
         (a, s) = read32 ev 0xffffff0c s;
         (b, s) = read32 ev 0xffffff10 s;
         (c, s) = read32 ev 0xffffff14 s
     in gecko_msg ''          %08x %08x %08x'' [VInt a, VInt b, VInt c] s)"

text \<open>\<open>pt_addr\<close> is where the linker puts the page table.\<close>

definition start_up :: "env \<Rightarrow> u32 \<Rightarrow> boot_st \<Rightarrow> boot_st option" where
  "start_up ev pt_addr s = do {
     s \<leftarrow> with_gecko (gecko_init ev) s;
     let s = write32 HW_RESETS 0x031018ff s;
     s \<leftarrow> udelay ev 100000 s;
     let s = write32 HW_RESETS 0xFFFFFFFF s;
     let s = gecko_msg ''Initializing exceptions...'' [] s;
     let s = exception_initialize s;
     let s = gecko_msg ''Configuring caches and MMU...'' [] s;
     s \<leftarrow> mem_initialize pt_addr s;
     let s = show_flags ev s;
     let s = irq_initialize s;
     let s = irq_enable ev IRQ_GPIO1 s;
     let s = irq_enable ev IRQ_RESET s;
     let s = irq_enable ev IRQ_TIMER s;
     let s = irq_set_alarm ev 20 True s;
     let s = gecko_msg ''Interrupts initialized'' [] s;
     s \<leftarrow> with_crypto (crypto_initialize ev) s;
     let s = gecko_msg ''crypto support initialized'' [] s;
     let s = gecko_msg ''Initializing SDHC...'' [] s;
     sdhc_init ev s }"

section \<open>Down\<close>

definition shut_down :: "env \<Rightarrow> 'a card_st_scheme \<Rightarrow> 'a card_st_scheme" where
  "shut_down ev s =
    (let s = gecko_msg ''Shutting down SDHC...'' [] s;
         s = sdhc_exit ev s;
         s = gecko_msg ''Shutting down interrupts...'' [] s;
         s = irq_shutdown s;
         s = gecko_msg ''Shutting down caches and MMU...'' [] s;
         s = mem_shutdown s
     in systemReset s)"

section \<open>The program\<close>

definition on_disk :: "('d \<Rightarrow> 'd) \<Rightarrow> 'd ff \<Rightarrow> 'd ff" where
  "on_disk f m = m\<lparr>obj := (obj m)\<lparr>disk := f (disk (obj m))\<rparr>\<rparr>"

text \<open>
  \<^verbatim>\<open>_main\<close>: with the reset button of \<^verbatim>\<open>0x0d800190\<close> down the dump is skipped; a mount error ends in the endless
  \<^verbatim>\<open>panic2\<close>. The last step is the reset, after which nothing runs.
\<close>

definition boot_main ::
  "env \<Rightarrow> torn \<Rightarrow> u32 \<Rightarrow> flash \<Rightarrow> u32 \<Rightarrow> u32 \<Rightarrow> u32 \<Rightarrow> DIR \<Rightarrow> boot_st ff \<Rightarrow> boot_st ff option" where
  "boot_main ev torn ba flash pb eb pt_addr dj0 m = do {
     s \<leftarrow> start_up ev pt_addr (disk (obj m));
     let m = on_disk (\<lambda>_. gecko_msg ''Mounting SD...'' [] s) m;
     let (fres, m) = f_mount 0 True m;
     let (v, s) = read32 ev 0x0d800190 (disk (obj m));
     let m = on_disk (\<lambda>_. s) m;
     m \<leftarrow> (if v AND 2 \<noteq> 0 then Some m
           else if fres \<noteq> FR_OK then None
           else do {
             (_, m) \<leftarrow> dump_slc_raw ev torn ba flash pb eb dj0 NAND_BANK_SLC m;
             Some m });
     Some (on_disk (shut_down ev) m) }"


section \<open>The machine as the reset finds it\<close>

text \<open>
  Nothing can interrupt the reset and nothing is left in the caches: interrupts are off at the core and at the
  controller, whose mask was last written 0; the data cache was flushed and drained before it was switched off
  together with the MMU and the instruction cache; the reset is the last access.
\<close>

definition quiesced :: "'a mach_scheme \<Rightarrow> bool" where
  "quiesced s \<longleftrightarrow> cpsr s AND (CPSR_IRQDIS OR CPSR_FIQDIS) = CPSR_IRQDIS OR CPSR_FIQDIS
     \<and> cp_cr s AND (CR_MMU OR CR_DCACHE OR CR_ICACHE) = 0
     \<and> (\<exists>past. io_log s = Wr32 0x0d8005e0 0xFFFFFFFE # map Cp15 [Tlb_inval, Dc_inval, Ic_inval, Drain_write_buffer,
          Dc_flush] @ [Msg ''Shutting down caches and MMU...'' [], Wr32 HW_ARMIRQFLAG 0xffffffff,
          Wr32 HW_ARMIRQMASK 0] @ past)"

lemma irq_shutdown_log: "io_log (irq_shutdown s) = Wr32 HW_ARMIRQFLAG 0xffffffff # Wr32 HW_ARMIRQMASK 0 # io_log s"
  and irq_shutdown_cpsr: "cpsr (irq_shutdown s) = cpsr s OR (CPSR_IRQDIS OR CPSR_FIQDIS)"
  by (simp_all add: irq_shutdown_def irq_kill_def write32_def emit_def Let_def)

lemma mem_shutdown_log:
    "io_log (mem_shutdown s) = map Cp15 [Tlb_inval, Dc_inval, Ic_inval, Drain_write_buffer, Dc_flush] @ io_log s"
  and mem_shutdown_cpsr: "cpsr (mem_shutdown s) = cpsr s"
  and mem_shutdown_cr: "cp_cr (mem_shutdown s) = cp_cr s AND NOT (CR_MMU OR CR_DCACHE OR CR_ICACHE)"
proof -
  have undone: "((c OR m) AND NOT m) OR (c AND m) = (c :: u32)" for c m by (rule kill_restore_bits)
  show "io_log (mem_shutdown s)
      = map Cp15 [Tlb_inval, Dc_inval, Ic_inval, Drain_write_buffer, Dc_flush] @ io_log s"
    and "cp_cr (mem_shutdown s) = cp_cr s AND NOT (CR_MMU OR CR_DCACHE OR CR_ICACHE)"
    by (simp_all add: mem_shutdown_def irq_kill_def irq_restore_def cp15_op_def emit_def Let_def)
  have "cpsr (mem_shutdown s) = ((cpsr s OR (CPSR_IRQDIS OR CPSR_FIQDIS)) AND NOT (CPSR_IRQDIS OR CPSR_FIQDIS))
      OR (cpsr s AND (CPSR_IRQDIS OR CPSR_FIQDIS))"
    by (simp add: mem_shutdown_def irq_kill_def irq_restore_def cp15_op_def emit_def Let_def)
  then show "cpsr (mem_shutdown s) = cpsr s" by (simp only: undone)
qed

lemma shut_down_quiesced: "quiesced (shut_down ev s)"
proof -
  define a where "a = sdhc_exit ev (emit (Msg ''Shutting down SDHC...'' []) s)"
  define b where "b = irq_shutdown (emit (Msg ''Shutting down interrupts...'' []) a)"
  define c where "c = mem_shutdown (emit (Msg ''Shutting down caches and MMU...'' []) b)"
  have bits: "(c OR m) AND m = m" "(c AND NOT m) AND m = 0" for c m :: u32
    by (rule bit_word_eqI; auto simp: bit_simps)+
  have logs: "io_log (emit e u) = e # io_log u" "cpsr (emit e u) = cpsr u" "cp_cr (emit e u) = cp_cr u"
    for e and u :: "'b mach_scheme"
    by (simp_all add: emit_def)
  have "shut_down ev s = emit (Wr32 0x0d8005e0 0xFFFFFFFE) c"
    by (simp add: shut_down_def a_def b_def c_def Let_def systemReset_def write32_def gecko_msg_def)
  moreover have "io_log c = map Cp15 [Tlb_inval, Dc_inval, Ic_inval, Drain_write_buffer, Dc_flush] @
      [Msg ''Shutting down caches and MMU...'' [], Wr32 HW_ARMIRQFLAG 0xffffffff, Wr32 HW_ARMIRQMASK 0] @
      Msg ''Shutting down interrupts...'' [] # io_log a"
    by (simp add: c_def b_def mem_shutdown_log irq_shutdown_log logs)
  moreover have "cpsr c = cpsr a OR (CPSR_IRQDIS OR CPSR_FIQDIS)"
    by (simp only: c_def b_def mem_shutdown_cpsr irq_shutdown_cpsr logs)
  moreover have "cp_cr c = cp_cr b AND NOT (CR_MMU OR CR_DCACHE OR CR_ICACHE)"
    by (simp only: c_def mem_shutdown_cr logs)
  ultimately show ?thesis
    unfolding quiesced_def by (simp only: logs bits) auto
qed

text \<open>Every way \<^verbatim>\<open>_main\<close> can return goes through the shutdown.\<close>

lemma boot_main_returns_quiesced:
  assumes "boot_main ev torn ba flash pb eb pt_addr dj0 m = Some m'"
  shows "quiesced (disk (obj m'))"
proof -
  obtain m1 where "m' = on_disk (shut_down ev) m1"
    using assms unfolding boot_main_def Let_def split_beta by (auto simp only: bind_eq_Some_conv option.inject)
  then show ?thesis by (simp add: on_disk_def shut_down_quiesced)
qed

text \<open>
  For every state of the machine and every environment, the shutdown sequence leaves the machine quiescent for
  the reset: interrupts masked at the core and at the controller, the data cache written back before caches and MMU
  go off, and the reset as the last access of all; and the run of the whole program can end in no other way: a run
  that does not end quiescent does not return.
\<close>

theorem shut_down_quiesces:
  "quiesced (shut_down ev s) \<and>
   (case boot_main ev torn ba flash pb eb pt_addr dj0 m of None \<Rightarrow> True | Some m' \<Rightarrow> quiesced (disk (obj m')))"
  by (auto simp: shut_down_quiesced dest: boot_main_returns_quiesced split: option.split)

end
