(* ===== verification/IosPatch.thy ===== *)
theory IosPatch
  imports Prelude
begin

text \<open>
  The PowerPC program of \<^verbatim>\<open>nswitch/source\<close>: \<^verbatim>\<open>runtimeiospatch.c\<close> patches the running IOS in memory, \<^verbatim>\<open>main.c\<close>
  sets up the console mailbox, plants a small stub in IOS and copies the ARM program to where the stub jumps.
  Memory is a function of the address. The calls into the console library (cache and register access, printing,
  IOS services) are recorded in a log with their arguments; what a device register or a service returns is a
  parameter. Message formats are recorded without their trailing line feed.
\<close>

section \<open>The PowerPC side\<close>

datatype ppc_io = PRd u32 u32 | PWr u32 u32 | DCFlushRange u32 u32 | DCInvalidateRange u32 u32
  | ICInvalidateRange u32 u32 | PPrint string string | PCall string "u32 list"

record ppc =
  ppc_mem :: "u32 \<Rightarrow> u8"
  ppc_log :: "ppc_io list"

type_synonym ppc_env = "ppc_io list \<Rightarrow> u32 \<Rightarrow> u32"

definition ppc_emit :: "ppc_io \<Rightarrow> ppc \<Rightarrow> ppc" where
  "ppc_emit e s = s\<lparr>ppc_log := e # ppc_log s\<rparr>"

definition ppc_read :: "ppc_env \<Rightarrow> u32 \<Rightarrow> ppc \<Rightarrow> u32 \<times> ppc" where
  "ppc_read ev a s = (let v = ev (ppc_log s) a in (v, ppc_emit (PRd a v) s))"

text \<open>Words in memory are big-endian.\<close>

definition mem32 :: "(u32 \<Rightarrow> u8) \<Rightarrow> u32 \<Rightarrow> u32" where
  "mem32 m a = be32 (m a) (m (a + 1)) (m (a + 2)) (m (a + 3))"

fun mem_equal :: "(u32 \<Rightarrow> u8) \<Rightarrow> u32 \<Rightarrow> u8 list \<Rightarrow> bool" where
  "mem_equal m p [] \<longleftrightarrow> True"
| "mem_equal m p (b # bs) \<longleftrightarrow> m p = b \<and> mem_equal m (p + 1) bs"

fun put_bytes :: "u32 \<Rightarrow> u8 list \<Rightarrow> (u32 \<Rightarrow> u8) \<Rightarrow> u32 \<Rightarrow> u8" where
  "put_bytes a [] m = m"
| "put_bytes a (b # bs) m = put_bytes (a + 1) bs (m(a := b))"

section \<open>Patching (runtimeiospatch.c)\<close>

abbreviation (input) "MEM_PROT \<equiv> 0xd8b420a :: u32"
abbreviation (input) "PTR_END \<equiv> 0x94000000 :: u32"
abbreviation (input) "ERROR_AHBPROT \<equiv> -5 :: int"
abbreviation (input) "ERROR_PATCH \<equiv> -7 :: int"

definition disable_memory_protection :: "ppc_env \<Rightarrow> ppc \<Rightarrow> ppc" where
  "disable_memory_protection ev s =
    (let (v, s) = ppc_read ev MEM_PROT s in ppc_emit (PWr MEM_PROT (v AND 0x0000FFFF)) s)"

text \<open>One place: the patch goes in byte by byte at the offset, then the lines around it are flushed.\<close>

definition patch_place :: "u8 list \<Rightarrow> u32 \<Rightarrow> u32 \<Rightarrow> ppc \<Rightarrow> ppc" where
  "patch_place patch patch_offset p s =
    (let start = p + patch_offset;
         line = push_bit 5 (drop_bit 5 start);
         sz = push_bit 5 (drop_bit 5 (of_nat (length patch))) + 64;
         s = s\<lparr>ppc_mem := put_bytes start patch (ppc_mem s)\<rparr>
     in ppc_emit (ICInvalidateRange line sz) (ppc_emit (DCFlushRange line sz) s))"

lemma word_less_Suc: "p < (b :: u32) \<Longrightarrow> unat (p + 1) = Suc (unat p)"
proof -
  assume "p < b"
  moreover have "unat b < 4294967296" by (rule order_less_le_trans [OF unsigned_less]) simp
  ultimately show ?thesis by (simp add: word_less_nat_alt unat_word_ariths)
qed

function patch_loop :: "u8 list \<Rightarrow> u8 list \<Rightarrow> u32 \<Rightarrow> u32 \<Rightarrow> u32 \<Rightarrow> ppc \<Rightarrow> u32 \<times> ppc" where
  "patch_loop old patch patch_offset p found s =
    (if p < PTR_END - of_nat (length patch) then
       (let (found, s) = (if mem_equal (ppc_mem s) p old then (found + 1, patch_place patch patch_offset p s)
                          else (found, s))
        in patch_loop old patch patch_offset (p + 1) found s)
     else (found, s))"
  by pat_completeness auto

termination
  by (relation "measure (\<lambda>(old, patch, off, p, found, s). unat (PTR_END - of_nat (length patch)) - unat p)")
    (auto simp: word_less_Suc word_less_nat_alt)

declare patch_loop.simps [simp del]

definition apply_patch :: "string \<Rightarrow> u8 list \<Rightarrow> u8 list \<Rightarrow> u32 \<Rightarrow> bool \<Rightarrow> ppc \<Rightarrow> u32 \<times> ppc" where
  "apply_patch name old patch patch_offset verbose s =
    (let ptr_start = mem32 (ppc_mem s) 0x80003134;
         s = (if verbose then ppc_emit (PPrint ''    Patching %-30s'' name) s else s);
         (found, s) = patch_loop old patch patch_offset ptr_start 0 s;
         s = (if verbose then ppc_emit (PPrint (if found \<noteq> 0 then '' patched'' else '' not patched'') []) s else s)
     in (found, s))"

text \<open>The patch sets: name, bytes looked for, bytes put in their place.\<close>

type_synonym patch_set = "(string \<times> u8 list \<times> u8 list) list"

definition wii_patches :: patch_set where
  "wii_patches =
    [(''isfs_permissions'',
        [0x42, 0x8B, 0xD0, 0x01, 0x25, 0x66],
        [0x42, 0x8B, 0xE0, 0x01, 0x25, 0x66])]"

definition sciifii_patches :: patch_set where
  "sciifii_patches =
    [(''MEM2_prot'',
        [0xB5, 0x00, 0x4B, 0x09, 0x22, 0x01, 0x80, 0x1A, 0x22, 0xF0],
        [0xB5, 0x00, 0x4B, 0x09, 0x22, 0x00, 0x80, 0x1A, 0x22, 0xF0]),
     (''ES_OpenTitleContent1'',
        [0x9D, 0x05, 0x42, 0x9D, 0xD0, 0x03],
        [0x9D, 0x05, 0x42, 0x9D, 0xE0, 0x03]),
     (''ES_OpenTitleContent2'',
        [0xD4, 0x01, 0x4C, 0x36, 0xE0, 0x3B],
        [0xE0, 0x01, 0x4C, 0x36, 0xE0, 0x3B]),
     (''ES_ReadContent_prot'',
        [0xFC, 0x0F, 0xB5, 0x30, 0x1C, 0x14, 0x1C, 0x1D, 0x4B, 0x0E, 0x68, 0x9B, 0x2B, 0x00, 0xD0, 0x03, 0x29, 0x00,
        0xDB, 0x01, 0x29, 0x0F, 0xDD, 0x01],
        [0xFC, 0x0F, 0xB5, 0x30, 0x1C, 0x14, 0x1C, 0x1D, 0x4B, 0x0E, 0x68, 0x9B, 0x2B, 0x00, 0x46, 0xC0, 0x29, 0x00,
        0x46, 0xC0, 0x29, 0x0F, 0xE0, 0x01]),
     (''ES_CloseContent'',
        [0xB5, 0x10, 0x4B, 0x10, 0x68, 0x9B, 0x2B, 0x00, 0xD0, 0x03, 0x29, 0x00, 0xDB, 0x01, 0x29, 0x0F, 0xDD, 0x01],
        [0xB5, 0x10, 0x4B, 0x10, 0x68, 0x9B, 0x2B, 0x00, 0x46, 0xC0, 0x29, 0x00, 0x46, 0xC0, 0x29, 0x0F, 0xE0, 0x01]),
     (''ES_TitleVersionCheck'',
        [0xD2, 0x01, 0x4E, 0x56],
        [0xE0, 0x01, 0x4E, 0x56]),
     (''ES_TitleDeleteCheck'',
        [0xD8, 0x00, 0x4A, 0x04],
        [0xE0, 0x00, 0x4A, 0x04])]"

definition vwii_patches :: patch_set where
  "vwii_patches =
    [(''Kill_AntiSysTitleInstallv3_pt1'',
        [0x68, 0x1A, 0x2A, 0x01, 0xD0, 0x05],
        [0x68, 0x1A, 0x2A, 0x01, 0x46, 0xC0]),
     (''Kill_AntiSysTitleInstallv3_pt2'',
        [0xD0, 0x02, 0x33, 0x06, 0x42, 0x9A, 0xD1, 0x01],
        [0x46, 0xC0, 0x33, 0x06, 0x42, 0x9A, 0xE0, 0x01]),
     (''Kill_AntiSysTitleInstallv3_pt3'',
        [0x68, 0xFB, 0x2B, 0x00, 0xDB, 0x01],
        [0x68, 0xFB, 0x2B, 0x00, 0xDB, 0x10])]"

definition es_set_ahbprot_old :: "u8 list" where
  "es_set_ahbprot_old = [0x68, 0x5B, 0x22, 0xEC, 0x00, 0x52, 0x18, 0x9B, 0x68, 0x1B, 0x46, 0x98, 0x07, 0xDB]"

definition es_set_ahbprot_patch :: "u8 list" where
  "es_set_ahbprot_patch = [0x01]"

text \<open>\<^verbatim>\<open>AHBPROT_DISABLED\<close>: a read of the protection register.\<close>

definition AHBPROT_DISABLED :: "ppc_env \<Rightarrow> ppc \<Rightarrow> bool \<times> ppc" where
  "AHBPROT_DISABLED ev s = (let (v, s) = ppc_read ev 0xcd800064 s in (v = 0xFFFFFFFF, s))"

definition IosPatch_AHBPROT :: "ppc_env \<Rightarrow> bool \<Rightarrow> ppc \<Rightarrow> int \<times> ppc" where
  "IosPatch_AHBPROT ev verbose s =
    (let (off, s) = AHBPROT_DISABLED ev s in
     if off then
       (let s = disable_memory_protection ev s;
            (ret, s) = apply_patch ''es_set_ahbprot'' es_set_ahbprot_old es_set_ahbprot_patch 25 verbose s
        in (if ret \<noteq> 0 then sint ret else ERROR_PATCH, s))
     else (ERROR_AHBPROT, s))"

text \<open>The calls \<^verbatim>\<open>count += apply_patch(...)\<close> of one set, all at offset 0.\<close>

fun apply_patches :: "patch_set \<Rightarrow> bool \<Rightarrow> u32 \<times> ppc \<Rightarrow> u32 \<times> ppc" where
  "apply_patches [] verbose cs = cs"
| "apply_patches ((name, old, patch) # ps) verbose (count, s) =
    (let (n, s) = apply_patch name old patch 0 verbose s in apply_patches ps verbose (count + n, s))"

definition patch_set :: "bool \<Rightarrow> string \<Rightarrow> patch_set \<Rightarrow> bool \<Rightarrow> u32 \<times> ppc \<Rightarrow> u32 \<times> ppc" where
  "patch_set wanted title ps verbose cs =
    (if wanted then apply_patches ps verbose (fst cs, if verbose then ppc_emit (PPrint title []) (snd cs) else snd cs)
     else cs)"

definition IosPatch_RUNTIME :: "ppc_env \<Rightarrow> bool \<Rightarrow> bool \<Rightarrow> bool \<Rightarrow> bool \<Rightarrow> ppc \<Rightarrow> int \<times> ppc" where
  "IosPatch_RUNTIME ev wii sciifii vwii verbose s =
    (let (off, s) = AHBPROT_DISABLED ev s in
     if off then
       (let s = disable_memory_protection ev s;
            cs = patch_set wii ''>> Applying standard Wii patches:'' wii_patches verbose (0, s);
            cs = patch_set sciifii ''>> Applying Sciifii patches:'' sciifii_patches verbose cs;
            cs = patch_set vwii ''>> Applying vWii patches:'' vwii_patches verbose cs
        in (sint (fst cs), snd cs))
     else (ERROR_AHBPROT, s))"

text \<open>\<^verbatim>\<open>IOS_ReloadIOS\<close> is a library call: what it does to memory is the parameter \<open>reload\<close>.\<close>

definition IosPatch_FULL ::
  "ppc_env \<Rightarrow> (int \<Rightarrow> ppc \<Rightarrow> ppc) \<Rightarrow> bool \<Rightarrow> bool \<Rightarrow> bool \<Rightarrow> bool \<Rightarrow> int \<Rightarrow> ppc \<Rightarrow> int \<times> ppc" where
  "IosPatch_FULL ev reload wii sciifii vwii verbose IOS s =
    (let (off, s) = AHBPROT_DISABLED ev s in
     if off then
       (let (ret, s) = IosPatch_AHBPROT ev verbose s in
        if ret \<noteq> 0 then IosPatch_RUNTIME ev wii sciifii vwii verbose (reload IOS s)
        else (ERROR_PATCH, s))
     else (ERROR_AHBPROT, s))"

section \<open>What a patch run does\<close>

lemma mem_equal_iff: "mem_equal m p bs \<longleftrightarrow> (\<forall>i < length bs. m (p + of_nat i) = bs ! i)"
proof (induction bs arbitrary: p)
  case (Cons b bs)
  have "(\<forall>i < length (b # bs). m (p + of_nat i) = (b # bs) ! i)
      \<longleftrightarrow> m p = b \<and> (\<forall>i < length bs. m (p + of_nat (Suc i)) = bs ! i)"
    by (auto simp: less_Suc_eq_0_disj)
  then show ?case by (simp add: Cons.IH add.assoc)
qed simp

lemma unat_minus_1: "(x :: u32) \<noteq> 0 \<Longrightarrow> unat (x - 1) = unat x - 1"
  by (simp add: unat_minus_one)

lemma put_bytes_at:
  "length bs < 2 ^ 32 \<Longrightarrow> put_bytes a bs m x = (if unat (x - a) < length bs then bs ! unat (x - a) else m x)"
proof (induction bs arbitrary: a m)
  case (Cons b bs)
  show ?case
  proof (cases "x = a")
    case True
    moreover have "\<not> unat (x - (a + 1)) < length bs"
      using True Cons.prems by (simp add: unsigned_minus_1_eq_mask mask_eq_exp_minus_1)
    ultimately show ?thesis using Cons by simp
  next
    case False
    then have "unat (x - (a + 1)) = unat (x - a) - 1" "0 < unat (x - a)"
      using unat_minus_1 [of "x - a"] by (simp_all add: diff_diff_eq unat_gt_0)
    then show ?thesis using Cons False by (auto simp: nth_Cons')
  qed
qed simp

text \<open>
  A pattern and its patch that do not interfere: equally long, different, and no two copies of them can overlap so
  that one shows up inside the other.
\<close>

definition separate :: "u8 list \<Rightarrow> u8 list \<Rightarrow> bool" where
  "separate old patch \<longleftrightarrow> length patch = length old \<and> length old < 4096 \<and> patch \<noteq> old
     \<and> list_all (\<lambda>d. drop d old \<noteq> take (length old - d) old \<and> drop d patch \<noteq> take (length old - d) old
          \<and> drop d old \<noteq> take (length old - d) patch) [1..<length old]"

lemma patches_separate:
  "(name, old, patch) \<in> set (wii_patches @ sciifii_patches @ vwii_patches) \<Longrightarrow> separate old patch"
proof -
  have "list_all (\<lambda>(name, old, patch). separate old patch) (wii_patches @ sciifii_patches @ vwii_patches)"
    by code_simp
  then show "(name, old, patch) \<in> set (wii_patches @ sciifii_patches @ vwii_patches) \<Longrightarrow> separate old patch"
    unfolding list_all_iff by blast
qed

text \<open>The places a run visits and finds the pattern at.\<close>

definition occurrences :: "u8 list \<Rightarrow> u32 \<Rightarrow> (u32 \<Rightarrow> u8) \<Rightarrow> u32 set" where
  "occurrences old p m = {q. p \<le> q \<and> q < PTR_END - of_nat (length old) \<and> mem_equal m q old}"

definition replaced :: "u8 list \<Rightarrow> u32 set \<Rightarrow> (u32 \<Rightarrow> u8) \<Rightarrow> (u32 \<Rightarrow> u8) \<Rightarrow> bool" where
  "replaced patch Q m m' \<longleftrightarrow> (\<forall>q\<in>Q. mem_equal m' q patch)
     \<and> (\<forall>a. (\<forall>q\<in>Q. \<not> unat (a - q) < length patch) \<longrightarrow> m' a = m a)"

text \<open>Two byte strings of one length at distance \<open>d\<close> share their overlap.\<close>

lemma mem_equal_overlap:
  assumes "mem_equal m p xs" "mem_equal m (p + of_nat d) ys" "length xs = length ys" "d < length xs"
  shows "drop d xs = take (length ys - d) ys"
proof (rule nth_equalityI)
  fix i assume "i < length (drop d xs)"
  then have i: "d + i < length xs" "i < length ys" using assms by simp_all
  have "m (p + of_nat (d + i)) = xs ! (d + i)" using assms(1) i(1) unfolding mem_equal_iff by blast
  moreover have "m (p + of_nat d + of_nat i) = ys ! i" using assms(2) i(2) unfolding mem_equal_iff by blast
  ultimately show "drop d xs ! i = take (length ys - d) ys ! i" using i assms(3) by (simp add: add.assoc)
qed (use assms in simp)

lemma separateD:
  assumes "separate old patch" "0 < d" "d < length old"
  shows "drop d old \<noteq> take (length old - d) old" "drop d patch \<noteq> take (length old - d) old"
    "drop d old \<noteq> take (length old - d) patch"
  using assms by (auto simp: separate_def list_all_iff)

lemma word_distance: "unat (q - p) = d \<Longrightarrow> q = p + of_nat d" for p q :: u32
  by auto

text \<open>Below the end of the search nothing wraps round.\<close>

lemma below_end: "q < PTR_END - of_nat n \<Longrightarrow> n < 4096 \<Longrightarrow> unat q + n < 0x94000000"
  by (simp add: word_less_nat_alt unat_sub_if' unat_of_nat)

lemma unat_gap:
  assumes "p \<le> q" "q < PTR_END - of_nat n" "n < 4096" "i < n"
  shows "unat (q + of_nat i - p) = unat (q - p) + i" "i < unat (q - p) \<Longrightarrow> \<not> unat (p + of_nat i - q) < n"
proof -
  have q: "unat q + n < 0x94000000" using assms(2,3) by (rule below_end)
  have le: "unat p \<le> unat q" using assms(1) by (simp add: word_le_nat_alt)
  have i: "unat (of_nat i :: u32) = i" using assms(3,4) by (simp add: unat_of_nat)
  have "unat (q + of_nat i) = unat q + i" using q assms(4) i by (simp add: unat_word_ariths)
  then show "unat (q + of_nat i - p) = unat (q - p) + i"
    using le by (simp add: unat_sub_if')
  assume "i < unat (q - p)"
  moreover have "unat (q - p) = unat q - unat p" using le by (simp add: unat_sub_if')
  moreover have "unat (p + of_nat i) = unat p + i" using q le assms(4) i by (simp add: unat_word_ariths)
  ultimately show "\<not> unat (p + of_nat i - q) < n" using q assms(3) by (simp add: unat_sub_if' less_diff_conv)
qed

text \<open>Patching one place hides or creates no other occurrence ahead, and no later patch reaches back to it.\<close>

lemma occurrences_ahead:
  assumes sep: "separate old patch" and here: "mem_equal m p old" and "p < q" "q < PTR_END - of_nat (length old)"
  shows "mem_equal (put_bytes p patch m) q old \<longleftrightarrow> mem_equal m q old"
    and "mem_equal m q old \<Longrightarrow> length old \<le> unat (q - p)"
proof -
  define d where "d = unat (q - p)"
  have q: "q = p + of_nat d" by (rule word_distance) (simp add: d_def)
  have n: "length patch = length old" "length old < 4096" using sep by (simp_all add: separate_def)
  have "0 < d" using assms(3) by (simp add: d_def unat_gt_0)
  have after: "mem_equal (put_bytes p patch m) p patch"
    using n by (auto simp: mem_equal_iff put_bytes_at unat_of_nat)
  have near: "\<not> mem_equal m q old" "\<not> mem_equal (put_bytes p patch m) q old" if "d < length old"
    using mem_equal_overlap [OF here, of d old] mem_equal_overlap [OF after, of d old]
      separateD [OF sep \<open>0 < d\<close> that] that n q by auto
  have far: "put_bytes p patch m (q + of_nat i) = m (q + of_nat i)" if "length old \<le> d" "i < length old" for i
    using unat_gap(1) [OF less_imp_le [OF assms(3)] assms(4) n(2) that(2)] that(1) n
    by (simp add: put_bytes_at d_def)
  show "mem_equal (put_bytes p patch m) q old \<longleftrightarrow> mem_equal m q old"
    using near far by (cases "d < length old") (auto simp: mem_equal_iff)
  show "mem_equal m q old \<Longrightarrow> length old \<le> unat (q - p)" using near(1) by (fastforce simp: d_def)
qed

lemma occurrences_step:
  assumes "p < PTR_END - of_nat (length old)"
  shows "occurrences old p m = (if mem_equal m p old then insert p (occurrences old (p + 1) m)
      else occurrences old (p + 1) m)" "p \<notin> occurrences old (p + 1) m"
proof -
  have "p \<le> q \<longleftrightarrow> q = p \<or> p + 1 \<le> q" "\<not> p + 1 \<le> p" for q
    using word_less_Suc [OF assms] by (auto simp: word_le_nat_alt word_unat_eq_iff)
  then show "occurrences old p m = (if mem_equal m p old then insert p (occurrences old (p + 1) m)
      else occurrences old (p + 1) m)" "p \<notin> occurrences old (p + 1) m"
    using assms by (auto simp: occurrences_def)
qed

lemma occurrences_end: "\<not> p < PTR_END - of_nat (length old) \<Longrightarrow> occurrences old p m = {}"
  by (auto simp: occurrences_def dest: order_le_less_trans)

lemma occurrences_patched:
  assumes "separate old patch" "mem_equal m p old" "p < PTR_END - of_nat (length old)"
  shows "occurrences old (p + 1) (put_bytes p patch m) = occurrences old (p + 1) m"
proof -
  have "p < q" if "p + 1 \<le> q" for q
    using that word_less_Suc [OF assms(3)] by (simp add: word_le_nat_alt word_less_nat_alt)
  then show ?thesis using occurrences_ahead(1) [OF assms(1,2)] by (auto simp: occurrences_def)
qed

lemma replaced_step:
  assumes sep: "separate old patch" and "mem_equal m p old" "p < PTR_END - of_nat (length old)"
    and rest: "replaced patch (occurrences old (p + 1) m) (put_bytes p patch m) m'"
  shows "replaced patch (insert p (occurrences old (p + 1) m)) m m'"
proof -
  have n: "length patch = length old" "length old < 4096" using sep by (simp_all add: separate_def)
  have clear: "\<not> unat (p + of_nat i - q) < length patch"
    if "q \<in> occurrences old (p + 1) m" "i < length old" for q i
  proof -
    have q: "p < q" "q < PTR_END - of_nat (length old)" "mem_equal m q old"
      using that word_less_Suc [OF assms(3)] by (auto simp: occurrences_def word_le_nat_alt word_less_nat_alt)
    then have "i < unat (q - p)" using occurrences_ahead(2) [OF sep assms(2) q] that(2) by simp
    then show ?thesis using unat_gap(2) [OF less_imp_le [OF q(1)] q(2) n(2) that(2)] n by simp
  qed
  have "m' (p + of_nat i) = patch ! i" if "i < length old" for i
  proof -
    have "m' (p + of_nat i) = put_bytes p patch m (p + of_nat i)"
      using rest clear that unfolding replaced_def by blast
    then show ?thesis using n that by (simp add: put_bytes_at unat_of_nat)
  qed
  then have "mem_equal m' p patch" using n by (simp add: mem_equal_iff)
  moreover have "m' a = m a"
    if "\<forall>q\<in>insert p (occurrences old (p + 1) m). \<not> unat (a - q) < length patch" for a
  proof -
    have "m' a = put_bytes p patch m a" using rest that by (simp add: replaced_def)
    then show ?thesis using that n by (simp add: put_bytes_at)
  qed
  ultimately show ?thesis using rest by (auto simp: replaced_def)
qed

lemma patch_loop_replaces:
  assumes "separate old patch"
  shows "fst (patch_loop old patch 0 p found s) = found + of_nat (card (occurrences old p (ppc_mem s)))
    \<and> replaced patch (occurrences old p (ppc_mem s)) (ppc_mem s) (ppc_mem (snd (patch_loop old patch 0 p found s)))"
  using assms
proof (induction old patch "0 :: u32" p found s rule: patch_loop.induct)
  case (1 old patch p found s)
  have n: "length patch = length old" using "1.prems" by (simp add: separate_def)
  show ?case
  proof (cases "p < PTR_END - of_nat (length old)")
    case inside: True
    note step = patch_loop.simps [of old patch 0 p found s]
    show ?thesis
    proof (cases "mem_equal (ppc_mem s) p old")
      case True
      let ?s = "patch_place patch 0 p s"
      have mem: "ppc_mem ?s = put_bytes p patch (ppc_mem s)" by (simp add: patch_place_def ppc_emit_def Let_def)
      have "patch_loop old patch 0 p found s = patch_loop old patch 0 (p + 1) (found + 1) ?s"
        using step inside True n by simp
      moreover have "finite (occurrences old (p + 1) (ppc_mem s))" by (rule finite)
      ultimately show ?thesis
        using "1.hyps" [of "(found + 1, ?s)" "found + 1" ?s] "1.prems" inside True n
          occurrences_step [OF inside, of "ppc_mem s"] occurrences_patched [OF "1.prems" True inside]
          replaced_step [OF "1.prems" True inside]
        by (simp add: mem)
    next
      case False
      have "patch_loop old patch 0 p found s = patch_loop old patch 0 (p + 1) found s"
        using step inside False n by simp
      then show ?thesis
        using "1.hyps" [of "(found, s)" found s] "1.prems" inside False n occurrences_step(1) [OF inside, of "ppc_mem s"]
        by simp
    qed
  next
    case False
    then show ?thesis
      using n occurrences_end [OF False] by (simp add: patch_loop.simps [of old patch 0 p found s] replaced_def)
  qed
qed

text \<open>After a run nothing is left to patch.\<close>

lemma replaced_none_left:
  assumes sep: "separate old patch" and run: "replaced patch (occurrences old p m) m m'"
  shows "occurrences old p m' = {}"
proof (rule ccontr)
  assume "occurrences old p m' \<noteq> {}"
  then obtain q where q: "p \<le> q" "q < PTR_END - of_nat (length old)" "mem_equal m' q old"
    by (auto simp: occurrences_def)
  have n: "length patch = length old" "length old < 4096" using sep by (simp_all add: separate_def)
  have differ: "\<not> (mem_equal m' r patch \<and> mem_equal m' r old)" for r
    using sep n by (auto simp: separate_def mem_equal_iff intro: nth_equalityI)
  have apart: False
    if r: "mem_equal m' r xs" "mem_equal m' u ys" and "r < u" "unat (u - r) < length old"
      and xs: "xs = old \<and> ys = patch \<or> xs = patch \<and> ys = old" for r u xs ys
  proof -
    have "0 < unat (u - r)" using \<open>r < u\<close> by (simp add: unat_gt_0)
    moreover have "mem_equal m' (r + of_nat (unat (u - r))) ys" using r(2) by simp
    then have "drop (unat (u - r)) xs = take (length ys - unat (u - r)) ys"
      using mem_equal_overlap [OF r(1)] xs that(4) n by auto
    ultimately show False using separateD [OF sep _ that(4)] xs n by auto
  qed
  have "\<not> unat (q + of_nat i - r) < length old" if "r \<in> occurrences old p m" "i < length old" for r i
  proof
    assume near: "unat (q + of_nat i - r) < length old"
    have r: "mem_equal m' r patch" "r < PTR_END - of_nat (length old)"
      using run that(1) by (auto simp: replaced_def occurrences_def)
    consider "r < q" | "r = q" | "q < r" by (rule linorder_less_linear [THEN disjE]) auto
    then show False
    proof cases
      case 1
      have "unat (q - r) < length old"
        using unat_gap(1) [OF less_imp_le [OF 1] q(2) n(2) that(2)] near by simp
      then show False using apart [OF r(1) q(3) 1] by blast
    next
      case 2
      then show False using differ r(1) q(3) by blast
    next
      case 3
      have "unat (r - q) < length old"
        using unat_gap(2) [OF less_imp_le [OF 3] r(2) n(2) that(2)] near that(2) by (meson not_le order_le_less_trans)
      then show False using apart [OF q(3) r(1) 3] by blast
    qed
  qed
  then have "m' (q + of_nat i) = m (q + of_nat i)" if "i < length old" for i
    using run that n by (simp add: replaced_def)
  then have "mem_equal m q old" using q(3) by (simp add: mem_equal_iff)
  then have "q \<in> occurrences old p m" using q by (simp add: occurrences_def)
  then have "mem_equal m' q patch" using run by (simp add: replaced_def)
  then show False using differ q(3) by blast
qed

lemma apply_patch_run:
  assumes "separate old patch"
  shows "fst (apply_patch name old patch 0 verbose s)
      = of_nat (card (occurrences old (mem32 (ppc_mem s) 0x80003134) (ppc_mem s)))"
    and "replaced patch (occurrences old (mem32 (ppc_mem s) 0x80003134) (ppc_mem s)) (ppc_mem s)
      (ppc_mem (snd (apply_patch name old patch 0 verbose s)))"
  using patch_loop_replaces [OF assms, of "mem32 (ppc_mem s) 0x80003134" 0 s]
    patch_loop_replaces [OF assms, of "mem32 (ppc_mem s) 0x80003134" 0 "ppc_emit (PPrint ''    Patching %-30s'' name) s"]
  by (simp_all add: apply_patch_def ppc_emit_def Let_def split_beta)


text \<open>A memory whose search starts 20 bytes before the end of MEM2, with one occurrence.\<close>

definition demo_ppc :: ppc where
  "demo_ppc = \<lparr>ppc_mem = put_bytes 0x80003134 [0x93, 0xFF, 0xFF, 0xEC]
      (put_bytes 0x93FFFFF0 [0x42, 0x8B, 0xD0, 0x01, 0x25, 0x66] (\<lambda>_. 0)), ppc_log = []\<rparr>"


text \<open>The call of \<^verbatim>\<open>main\<close>, and the error of the combined patch that cannot occur.\<close>

lemma IosPatch_RUNTIME_main:
  "ev (ppc_log s) 0xcd800064 = 0xFFFFFFFF \<Longrightarrow>
   fst (IosPatch_RUNTIME ev True False False v s) = sint (fst (apply_patch ''isfs_permissions''
     [0x42, 0x8B, 0xD0, 0x01, 0x25, 0x66] [0x42, 0x8B, 0xE0, 0x01, 0x25, 0x66] 0 v s))"
  "ev (ppc_log s) 0xcd800064 \<noteq> 0xFFFFFFFF \<Longrightarrow>
   fst (IosPatch_RUNTIME ev a b c v s) = ERROR_AHBPROT
   \<and> ppc_mem (snd (IosPatch_RUNTIME ev a b c v s)) = ppc_mem s"
proof -
  have sep: "separate [0x42, 0x8B, 0xD0, 0x01, 0x25, 0x66] [0x42, 0x8B, 0xE0, 0x01, 0x25, 0x66]"
    by (rule patches_separate [of "''isfs_permissions''"]) (simp add: wii_patches_def)
  show "ev (ppc_log s) 0xcd800064 = 0xFFFFFFFF \<Longrightarrow>
   fst (IosPatch_RUNTIME ev True False False v s) = sint (fst (apply_patch ''isfs_permissions''
     [0x42, 0x8B, 0xD0, 0x01, 0x25, 0x66] [0x42, 0x8B, 0xE0, 0x01, 0x25, 0x66] 0 v s))"
    by (simp add: IosPatch_RUNTIME_def AHBPROT_DISABLED_def ppc_read_def disable_memory_protection_def patch_set_def
        wii_patches_def Let_def split_beta apply_patch_run(1) [OF sep] ppc_emit_def)
qed (simp add: IosPatch_RUNTIME_def AHBPROT_DISABLED_def ppc_read_def ppc_emit_def Let_def)

lemma IosPatch_AHBPROT_nonzero: "fst (IosPatch_AHBPROT ev verbose s) \<noteq> 0"
  by (auto simp: IosPatch_AHBPROT_def Let_def split_beta signed_eq_0_iff)

lemma IosPatch_FULL_ignores_error:
  assumes "ev (ppc_log s) 0xcd800064 = 0xFFFFFFFF"
  shows "IosPatch_FULL ev reload wii sciifii vwii verbose IOS s = IosPatch_RUNTIME ev wii sciifii vwii verbose
    (reload IOS (snd (IosPatch_AHBPROT ev verbose (ppc_emit (PRd 0xcd800064 0xFFFFFFFF) s))))"
  using assms IosPatch_AHBPROT_nonzero [of ev verbose "ppc_emit (PRd 0xcd800064 0xFFFFFFFF) s"]
  by (auto simp: IosPatch_FULL_def AHBPROT_DISABLED_def ppc_read_def Let_def split_beta)

end
