(* ===== verification/Nswitch.thy ===== *)
theory Nswitch
  imports IosPatch Gecko
begin

text \<open>
  \<^verbatim>\<open>nswitch/source/main.c\<close> up to the console loop (whose steps are in theory \<^verbatim>\<open>Gecko\<close>): patch IOS, set up the
  mailbox, plant the stub that makes the ARM jump to the program, and copy the program there. The value the IOS
  services and the allocator return is a parameter, a function of the log.
\<close>

section \<open>Loading the ARM program\<close>

definition word_bytes :: "u32 \<Rightarrow> u8 list" where
  "word_bytes v = [ucast (drop_bit 24 v), ucast (drop_bit 16 v), ucast (drop_bit 8 v), ucast v]"

definition put32 :: "u32 \<Rightarrow> u32 \<Rightarrow> ppc \<Rightarrow> ppc" where
  "put32 a v s = s\<lparr>ppc_mem := put_bytes a (word_bytes v) (ppc_mem s)\<rparr>"

definition ES_ImportBoot2 :: "u8 list" where
  "ES_ImportBoot2 = [0x68, 0x4B, 0x2B, 0x06, 0xD1, 0x0C, 0x68, 0x8B, 0x2B, 0x00, 0xD1, 0x09, 0x68, 0xC8, 0x68, 0x42]"

abbreviation (input) "MINI \<equiv> 0x90100000 :: u32"

definition plant_stub :: "u32 \<Rightarrow> ppc \<Rightarrow> ppc" where
  "plant_stub i s =
    (let s = ppc_emit (DCInvalidateRange i 0x20) s;
         s = put32 (i + 0x00) 0x48034904 s;
         s = put32 (i + 0x04) 0x477846C0 s;
         s = put32 (i + 0x08) 0xE6000870 s;
         s = put32 (i + 0x0C) 0xE12FFF1E s;
         s = put32 (i + 0x10) 0x10100000 s;
         s = put32 (i + 0x14) 0x0000FF01 s
     in ppc_emit (DCFlushRange i 0x20) s)"

text \<open>\<^verbatim>\<open>memcpy\<close> from the program image, then the import call that makes IOS run the stub.\<close>

definition start_mini :: "(ppc_io list \<Rightarrow> u32) \<Rightarrow> u32 \<Rightarrow> u32 \<Rightarrow> ppc \<Rightarrow> ppc" where
  "start_mini svc ptr sz s =
    (let s = ppc_emit (PCall ''__IOS_ShutdownSubsystems'' []) s;
         image = List.map (\<lambda>k. ppc_mem s (ptr + of_nat k)) [0..<unat sz];
         s = s\<lparr>ppc_mem := put_bytes MINI image (ppc_mem s)\<rparr>;
         s = ppc_emit (DCFlushRange MINI sz) s;
         s = ppc_emit (PCall ''IOS_Open /dev/es'' [0]) s;
         fd = svc (ppc_log s);
         s = ppc_emit (PCall ''memalign'' [32, 0x100]) s;
         buffer = svc (ppc_log s);
         s = s\<lparr>ppc_mem := put_bytes buffer (replicate 0x100 0) (ppc_mem s)\<rparr>
     in ppc_emit (PCall ''IOS_IoctlvAsync'' [fd, 0x1F, 0, 0, buffer, 0, 0]) s)"

function mini_loop :: "(ppc_io list \<Rightarrow> u32) \<Rightarrow> u32 \<Rightarrow> u32 \<Rightarrow> u32 \<Rightarrow> ppc \<Rightarrow> ppc" where
  "mini_loop svc ptr sz i s =
    (if i < 0x939FE000
     then mini_loop svc ptr sz (i + 2) (if mem_equal (ppc_mem s) i ES_ImportBoot2
                                          then start_mini svc ptr sz (plant_stub i s) else s)
     else s)"
  by pat_completeness auto
termination
proof (relation "measure (\<lambda>(svc, ptr, sz, i, s). 0x939FE000 - unat i)", simp)
  fix i :: u32
  assume "i < 0x939FE000"
  then show "((svc, ptr, sz, i + 2, x), svc, ptr, sz, i, s) \<in> measure (\<lambda>(svc, ptr, sz, i, s). 0x939FE000 - unat i)"
    for svc :: "ppc_io list \<Rightarrow> u32" and ptr sz :: u32 and s x :: ppc
    by (simp add: word_less_nat_alt unat_word_ariths)
qed

declare mini_loop.simps [simp del]

definition LoadMINI :: "(ppc_io list \<Rightarrow> u32) \<Rightarrow> u32 \<Rightarrow> u32 \<Rightarrow> ppc \<Rightarrow> ppc" where
  "LoadMINI svc ptr sz s = mini_loop svc ptr sz 0x939F0000 s"

section \<open>The program\<close>

text \<open>\<^verbatim>\<open>struct armboot_config\<close> at \<^verbatim>\<open>0x81200000\<close>: character, configuration byte, magic.\<close>

definition setup_mailbox :: "ppc \<Rightarrow> ppc" where
  "setup_mailbox s =
    (let s = s\<lparr>ppc_mem := put_bytes 0x81200000 [0] (ppc_mem s)\<rparr>;
         s = s\<lparr>ppc_mem := put_bytes 0x81200001 [3] (ppc_mem s)\<rparr>;
         s = s\<lparr>ppc_mem := put_bytes 0x81200002 [0xDE, 0xB6] (ppc_mem s)\<rparr>
     in ppc_emit (DCFlushRange 0x81200000 32) s)"

text \<open>
  \<open>init\<close> stands for \<^verbatim>\<open>VideoInitDefault\<close> and \<^verbatim>\<open>ISFS_Initialize\<close>; the flag says whether the program got as far as the
  console loop.
\<close>

definition nswitch_main ::
  "ppc_env \<Rightarrow> (ppc_io list \<Rightarrow> u32) \<Rightarrow> (ppc \<Rightarrow> ppc) \<Rightarrow> bool \<Rightarrow> u32 \<Rightarrow> u32 \<Rightarrow> ppc \<Rightarrow> bool \<times> ppc" where
  "nswitch_main ev svc init writer armboot armboot_size s =
    (let (r, s) = IosPatch_RUNTIME ev True False False False s in
     if r < 0 then (False, s)
     else
       (let s = init s;
            s = ppc_emit (PPrint ''//////////////////////////'' []) s;
            s = ppc_emit (PPrint (if writer then ''// SLC-NAND-WRITER v0.5 //'' else ''// SLC-NAND-READER v0.5 //'') []) s;
            s = ppc_emit (PPrint ''//////////////////////////'' []) s;
            s = setup_mailbox s;
            s = LoadMINI svc armboot armboot_size s
        in (True, ppc_emit (PPrint ''Loaded startlet code; waiting for output ...'' []) s)))"

section \<open>The two programs meet\<close>

text \<open>
  The mailbox the PowerPC sets up is the one \<^const>\<open>gecko_init\<close> looks for: the bytes at \<^verbatim>\<open>0x81200000\<close> are those of
  physical \<^verbatim>\<open>0x01200000\<close>, and an ARM that sees them there enables its console.
\<close>

definition sees_mailbox :: "env \<Rightarrow> (u32 \<Rightarrow> u8) \<Rightarrow> bool" where
  "sees_mailbox ev m \<longleftrightarrow> (\<forall>l. ucast (ev l 0x01200002) = be16 (m 0x81200002) (m 0x81200003)
     \<and> ucast (ev l 0x01200001) = m 0x81200001)"

lemma setup_mailbox_bytes:
  "List.map (ppc_mem (setup_mailbox s)) [0x81200000, 0x81200001, 0x81200002, 0x81200003] = [0, 3, 0xDE, 0xB6]"
  by (simp add: setup_mailbox_def ppc_emit_def Let_def)

lemma console_handshake:
  assumes "sees_mailbox ev (ppc_mem (setup_mailbox p))"
  shows "\<exists>s'. gecko_init ev s = Some s' \<and> gecko_enabled s' = 3"
proof -
  have "be16 0xDE 0xB6 = 0xDEB6" by (simp add: be16_def)
  then have ev: "ucast (ev l 0x01200002) = (0xDEB6 :: u16)" "ucast (ev l 0x01200001) = (3 :: u8)" for l
    using assms setup_mailbox_bytes [of p] by (simp_all add: sees_mailbox_def)
  have flush: "\<exists>s'. dc_flushrange ev MAILBOX 32 t = Some s' \<and> gecko_enabled s' = gecko_enabled t"
    for t :: "'a gecko_st_scheme"
    using dc_flushrange_log [of ev MAILBOX 32 t] by auto
  show ?thesis
    using flush [of "s\<lparr>gecko_enabled := 3, io_log := Wr8 0x01200001 0 # Rd8 0x01200001 3 # Rd16 0x01200002 0xDEB6 # io_log s\<rparr>"]
    by (simp add: ev gecko_init_def read16_def read8_def write8_def emit_def Let_def)
qed

section \<open>The program in its place\<close>

lemma put_bytes_same: "length bs < 2 ^ 32 \<Longrightarrow> mem_equal (put_bytes a bs m) a bs"
  by (auto simp: mem_equal_iff put_bytes_at unat_of_nat)

text \<open>With the service buffer clear of it, the image lies at \<^verbatim>\<open>0x90100000\<close> when IOS is told to import.\<close>

lemma start_mini_copies:
  assumes "\<forall>l. \<forall>k < unat sz. \<not> unat (MINI + of_nat k - svc l) < 256"
  shows "mem_equal (ppc_mem (start_mini svc ptr sz s)) MINI
    (List.map (\<lambda>k. ppc_mem s (ptr + of_nat k)) [0..<unat sz])"
proof -
  have sz: "unat sz < 2 ^ 32" by (rule order_less_le_trans [OF unsigned_less]) simp
  show ?thesis
    using assms put_bytes_same [of "List.map (\<lambda>k. ppc_mem s (ptr + of_nat k)) [0..<unat sz]" MINI "ppc_mem s"] sz
    by (simp add: start_mini_def ppc_emit_def Let_def mem_equal_iff put_bytes_at)
qed

lemma put_bytes_append: "put_bytes (a + of_nat (length xs)) ys (put_bytes a xs m) = put_bytes a (xs @ ys) m"
  by (induction xs arbitrary: a m) (simp_all add: add.assoc [symmetric] add.commute [of _ 1])

definition stub_words :: "u32 list" where
  "stub_words = [0x48034904, 0x477846C0, 0xE6000870, 0xE12FFF1E, 0x10100000, 0x0000FF01]"

lemma put_words:
  "length (word_bytes v) = 4"
  "put_bytes (a + 4) ys (put_bytes a (word_bytes v) m) = put_bytes a (word_bytes v @ ys) m"
  using put_bytes_append [of a "word_bytes v" ys m] by (simp_all add: word_bytes_def)

lemma plant_stub_words:
  "mem_equal (ppc_mem (plant_stub i s)) i (concat (List.map word_bytes stub_words))"
  "\<not> unat (a - i) < 24 \<Longrightarrow> ppc_mem (plant_stub i s) a = ppc_mem s a"
proof -
  let ?bs = "concat (List.map word_bytes stub_words)"
  have "ppc_mem (plant_stub i s) = put_bytes (i + 4 + 4 + 4 + 4 + 4) (word_bytes 0x0000FF01)
      (put_bytes (i + 4 + 4 + 4 + 4) (word_bytes 0x10100000) (put_bytes (i + 4 + 4 + 4) (word_bytes 0xE12FFF1E)
      (put_bytes (i + 4 + 4) (word_bytes 0xE6000870) (put_bytes (i + 4) (word_bytes 0x477846C0)
      (put_bytes i (word_bytes 0x48034904) (ppc_mem s))))))"
    by (simp add: plant_stub_def put32_def ppc_emit_def Let_def add.assoc)
  also have "\<dots> = put_bytes i ?bs (ppc_mem s)"
    by (subst put_words(2))+ (simp only: stub_words_def list.map concat.simps append_Nil2)
  finally have eq: "ppc_mem (plant_stub i s) = put_bytes i ?bs (ppc_mem s)" .
  have len: "length ?bs = 24" by (simp add: stub_words_def put_words(1))
  show "mem_equal (ppc_mem (plant_stub i s)) i ?bs" unfolding eq by (rule put_bytes_same) (simp add: len)
  show "\<not> unat (a - i) < 24 \<Longrightarrow> ppc_mem (plant_stub i s) a = ppc_mem s a"
    unfolding eq by (simp add: put_bytes_at len)
qed

text \<open>Without the pattern nothing is loaded, and nothing reports it.\<close>

lemma mini_loop_nothing:
  "(\<forall>q. \<not> mem_equal (ppc_mem s) q ES_ImportBoot2) \<Longrightarrow> mini_loop svc ptr sz i s = s"
  by (induction svc ptr sz i s rule: mini_loop.induct) (subst mini_loop.simps, simp)

end
