(* ===== verification/Spec2Isabelle.thy ===== *)
theory Spec2Isabelle
  imports CString Printf Machine Memory Timer Nand NandEcc NandWrite Sdhc Irq SdhcCommand Sdmmc Diskio
    Fat FatTable FatChain FatDir FatFile FatString FatWrite FatClose DirSearch DirName DirCreate FatOpen FatMount
    FatRead FatReadBack FatExt FatMkfs Dump DumpSlc Gecko Seeprom Crypto Panic Exception ElfLoader Boot IosPatch Nswitch
begin

text \<open>
  Verification of the vWii NAND tools: the ARM firmware that dumps the SLC NAND of a Wii or vWii to an SD card
  (\<^verbatim>\<open>src/armboot\<close>) and the PowerPC program that starts it and shows its messages (\<^verbatim>\<open>src/nswitch\<close>).

  \<^bold>\<open>The program.\<close> The PowerPC program patches the running IOS (\<^verbatim>\<open>runtimeiospatch.c\<close>), plants a jump that makes the ARM
  processor start the firmware, copies the firmware to memory (\<^verbatim>\<open>nswitch/source/main.c\<close>) and then prints the
  characters it finds in a one-byte mailbox. On the ARM side a stub loads the ELF image (\<^verbatim>\<open>elfloader\<close>), \<^verbatim>\<open>start.S\<close> sets up the
  stacks and calls \<^verbatim>\<open>_main\<close>, which brings up the console, the exception vectors, caches and page table, interrupts,
  crypto engine and SD host, registers the file system object and calls the dump. The dump resets the NAND
  controller to a bank, opens a file (which mounts the card), reads every page with its spare area by DMA, corrects the
  page, and appends 16 pages at a time to the file. In the end the drivers are shut down and the console is reset.

  \<^bold>\<open>Theories and sources\<close> (below \<^verbatim>\<open>src/armboot\<close> unless said otherwise), from the bottom up.
    \<^item> \<^verbatim>\<open>Prelude\<close>: word types, flat checked memory, shared lemmas. \<^verbatim>\<open>CString\<close>: \<^verbatim>\<open>common/string.c\<close>. \<^verbatim>\<open>Printf\<close>: \<^verbatim>\<open>common/vsprintf.c\<close>.
    \<^item> \<^verbatim>\<open>Machine\<close>: register access of \<^verbatim>\<open>common/utils.h\<close>, CP15 and the interrupt mask. \<^verbatim>\<open>Timer\<close>: \<^verbatim>\<open>udelay\<close> of \<^verbatim>\<open>common/utils.c\<close>.
      \<^verbatim>\<open>Memory\<close>: \<^verbatim>\<open>system/memory.c\<close>.
    \<^item> \<^verbatim>\<open>Nand\<close>, \<^verbatim>\<open>NandEcc\<close>, \<^verbatim>\<open>NandWrite\<close>: \<^verbatim>\<open>storage/nand.c\<close>. \<^verbatim>\<open>Irq\<close>: \<^verbatim>\<open>system/irq.c\<close> and \<^verbatim>\<open>nand_wait\<close>.
    \<^item> \<^verbatim>\<open>Sdhc\<close>, \<^verbatim>\<open>SdhcCommand\<close>: \<^verbatim>\<open>storage/sdhc.c\<close>. \<^verbatim>\<open>Sdmmc\<close>: \<^verbatim>\<open>storage/sdmmc.c\<close>. \<^verbatim>\<open>Diskio\<close>: \<^verbatim>\<open>storage/diskio.c\<close>.
    \<^item> \<^verbatim>\<open>Fat\<close>, \<^verbatim>\<open>FatDir\<close>, \<^verbatim>\<open>FatFile\<close>, \<^verbatim>\<open>FatString\<close>: the code of \<^verbatim>\<open>storage/ff.c\<close> in its order (window, table and chains;
      directories, names and paths; mounting and files; strings). Its proofs are in \<^verbatim>\<open>FatTable\<close> (the table as a function), \<^verbatim>\<open>FatChain\<close>
      (chains), \<^verbatim>\<open>FatWrite\<close> (appending), \<^verbatim>\<open>FatClose\<close> (what is on the card after closing), \<^verbatim>\<open>DirSearch\<close> (finding a
      name), \<^verbatim>\<open>DirName\<close> (short names), \<^verbatim>\<open>DirCreate\<close> (a new entry), \<^verbatim>\<open>FatOpen\<close> (creating a file), \<^verbatim>\<open>FatMount\<close>
      (mounting), \<^verbatim>\<open>FatRead\<close> (reading), \<^verbatim>\<open>FatReadBack\<close> (the dump opened and read again). \<^verbatim>\<open>FatExt\<close> and \<^verbatim>\<open>FatMkfs\<close> are
      the operations of \<^verbatim>\<open>ff.c\<close> that the configuration in \<^verbatim>\<open>ff.h\<close> leaves out, as they are with \<^verbatim>\<open>_FS_MINIMIZE\<close> 0,
      \<^verbatim>\<open>_USE_FORWARD\<close> 1 and \<^verbatim>\<open>_USE_MKFS\<close> 1: listing, removing, renaming, directories, attributes, free space, formatting.
    \<^item> \<^verbatim>\<open>Dump\<close>, \<^verbatim>\<open>DumpSlc\<close>: \<^verbatim>\<open>dump.c\<close>. \<^verbatim>\<open>Gecko\<close>: \<^verbatim>\<open>video/gecko.c\<close> and the console loop of the PowerPC program.
    \<^item> \<^verbatim>\<open>Seeprom\<close>, \<^verbatim>\<open>Crypto\<close>, \<^verbatim>\<open>Panic\<close>, \<^verbatim>\<open>Exception\<close>: \<^verbatim>\<open>system/seeprom.c\<close>, \<^verbatim>\<open>crypto.c\<close>, \<^verbatim>\<open>panic.c\<close>, \<^verbatim>\<open>exception.c\<close>.
      \<^verbatim>\<open>ElfLoader\<close>: \<^verbatim>\<open>elfloader/stub.c\<close>. \<^verbatim>\<open>Boot\<close>: \<^verbatim>\<open>main.c\<close>.
    \<^item> \<^verbatim>\<open>IosPatch\<close>, \<^verbatim>\<open>Nswitch\<close>: \<^verbatim>\<open>src/nswitch/source\<close>.

  \<^bold>\<open>State.\<close> The static variables of the modules are the fields of records that extend each other in the order of the
  layers: \<open>mach\<close> (the log of hardware accesses, CP15, interrupt mask), \<open>mem_st\<close> (page table), \<open>nand_st\<close> (bank,
  completion flag), \<open>host_st\<close> and \<open>irq_st\<close> (SD host, timer), \<open>card_st\<close> (SD card), \<open>disk_st\<close> (sector buffer and the contents of the
  card) and \<open>boot_st\<close> (everything). An operation is written for every extension of its layer. The file system object is
  the record \<open>fatfs\<close> over the state of the device below it, reached only through a record of functions \<open>device\<close>;
  \<open>ff\<close> is the module's state, \<open>FIL\<close> and \<open>DIR\<close> its file and directory objects. Integers are words of the width of
  the code, strings and buffers byte lists, pointers into the window offsets.

  \<^bold>\<open>Hardware and code that is not in the repository\<close> are parameters. The environment \<open>ev\<close> gives the value of a register
  read as a function of the log of all accesses so far and of the address: every deterministic device is one. \<open>flash\<close> is
  the content of the NAND chip, \<open>torn\<close> what a failed transfer leaves behind, the numbers \<open>pb\<close>, \<open>eb\<close>, \<open>ba\<close> are the addresses
  of the DMA buffers; the IOS services and the allocator of the PowerPC side are a function of that side's log.
  Hypotheses on the environment state the documented behaviour: the NAND controller clears its busy bit and
  raises its interrupt (\<open>nand_responds\<close>), the SD host completes or fails a data transfer (\<open>disk_ok\<close>), the serial
  EEPROM speaks its protocol. Each has a witness with a concrete environment (\<open>done_env\<close>, \<open>dump_env\<close> and others).

  \<^bold>\<open>Errors and loops.\<close> Error codes are values of the datatypes of the code (\<open>FRESULT\<close>, \<open>DRESULT\<close>). \<^const>\<open>None\<close> is code that does
  not return, or an access outside the memory, table or buffer it was given; a claim that a function returns says \<^const>\<open>Some\<close>.
  Loops without a bound of their own are \<^theory_text>\<open>partial_function\<close>; those with a count are recursions on it. The loops with a
  bound in the code keep it: the eight register blocks \<open>nand_reset\<close> clears, the 16384 rounds of the dump, the time-outs of
  the SD host. No fuel is used for a claim about the code; the two-processor console is a step relation with
  arbitrary interleaving.

  \<^bold>\<open>Interfaces.\<close> The locale \<open>block_device\<close> (\<^verbatim>\<open>Diskio\<close>) is what \<^verbatim>\<open>ff.c\<close> relies on: transfers return, a successful
  read delivers the sectors, a successful write stores them, and nothing outside the range changes. Everything proved
  about the file system is proved in it, for every such device. It is interpreted on the SD card, as \<open>sd\<close> with the
  usable states, and as \<open>nd\<close> (\<^verbatim>\<open>Dump\<close>) with the usable states in which the NAND driver and the interrupt mask are left
  alone: so reading a page and writing the file do not disturb each other.

  \<^bold>\<open>What is shown\<close>, by groups.
    \<^item> The dump: with the card just put in, a dump that reports success leaves a file the root directory finds, holding
      every page of the bank as the correction leaves it with its spare area, and nothing else on the card has changed;
      reading that file gives these bytes again; the same from an open file on (\<^verbatim>\<open>FatMount\<close>, \<^verbatim>\<open>FatReadBack\<close>, \<^verbatim>\<open>DumpSlc\<close>, \<^verbatim>\<open>Dump\<close>).
    \<^item> The NAND: the correction restores a page with one flipped bit in a quarter and never does harm within its bounds;
      the register sequences of the commands; writing and erasing spare the boot blocks; the sleep until the interrupt
      cannot miss it.
    \<^item> The file system: window and table against the table as a function, chains, allocation and freeing (also on
      damaged tables), searching, naming, creating, truncating, appending, closing, mounting, reading.
    \<^item> The SD stack: commands return, transfers are cut correctly, the guards of reading and writing, reading back what
      was written.
    \<^item> Memory, interrupts, time: page table, cache ranges, bus flushes, acknowledging, delays across the wrap-around.
    \<^item> The rest: formatting against its specification, the console protocol in every interleaving, the EEPROM against the
      chip, the AES engine, exception reports, the loader, the patches, the way down to the reset.

  Lemmas that show where the code does not do what it means to (\<open>create_chain_cuts_tail\<close>, \<open>timeout_loses\<close>,
  \<open>strnlen_overread\<close>, \<open>cmd_blocks_truncated\<close> and others) stand beside the definitions they are about.

  \<^bold>\<open>Not modelled.\<close> The start-up assembly (stacks, vectors, CP15 instructions; what they do to the state is in \<^verbatim>\<open>Machine\<close>,
  \<^verbatim>\<open>Exception\<close> and \<^verbatim>\<open>Panic\<close>); \<^verbatim>\<open>elfloader/string.c\<close>, a copy of \<^verbatim>\<open>common/string.c\<close>; headers of constants, which appear as
  abbreviations or numbers where they are used; makefiles and linker scripts, which have no behaviour of their own. Of \<^verbatim>\<open>ff.c\<close>, what
  its configuration leaves out and other values of it would bring in: long names, sector sizes other than 512, private
  file buffers, re-entrancy. Timing is modelled for
  \<^verbatim>\<open>udelay\<close> and the console only; elsewhere a delay is an event of the log. Interrupts are taken where the code waits for
  them, not between any two instructions.
\<close>

end
